(* ===== verification/Prelude.thy ===== *)
theory Prelude
  imports
    Complex_Main
    "HOL-Library.Word"
    "HOL-Library.Char_ord"
    "HOL-Library.List_Lexorder"
    "HOL-Library.Sublist"
begin

text \<open>
  Shared vocabulary of the development.  Go strings are byte strings and are
  modelled as \<^typ>\<open>string\<close> (lists of eight-bit characters); the order on
  them is Go's bytewise order (\<^verbatim>\<open>sort.Strings\<close>), which is the
  lexicographic order of \<^verbatim>\<open>List_Lexorder\<close> over \<^verbatim>\<open>Char_ord\<close>.
  The functions of the Go packages \<^verbatim>\<open>strings\<close>, \<^verbatim>\<open>path\<close> and
  \<^verbatim>\<open>path/filepath\<close> that the program uses are written out here, as are
  the first-occurrence deduplication and the sorted-unique lists that many
  components build with a \<^verbatim>\<open>map[string]struct{}\<close>.
\<close>

named_theorems go_strings "functions of the Go string packages"
named_theorems step_defs "operations of a component, unfolded by its preservation proofs"

type_synonym go_time = int
  \<comment> \<open>nanoseconds; the zero time is represented by \<open>None\<close> of \<open>go_time option\<close>\<close>


section \<open>The strings package\<close>

definition has_prefix :: "string \<Rightarrow> string \<Rightarrow> bool" where
  "has_prefix s p \<longleftrightarrow> take (length p) s = p"

definition has_suffix :: "string \<Rightarrow> string \<Rightarrow> bool" where
  "has_suffix s p \<longleftrightarrow> has_prefix (rev s) (rev p)"

fun str_contains :: "string \<Rightarrow> string \<Rightarrow> bool" where
  "str_contains [] p = (p = [])"
| "str_contains (c # s) p = (has_prefix (c # s) p \<or> str_contains s p)"

fun split_on :: "char \<Rightarrow> string \<Rightarrow> string list" where
  "split_on c [] = [[]]"
| "split_on c (x # xs) =
    (if x = c then [] # split_on c xs
     else (case split_on c xs of [] \<Rightarrow> [[x]] | p # ps \<Rightarrow> (x # p) # ps))"

fun join_with :: "string \<Rightarrow> string list \<Rightarrow> string" where
  "join_with sep [] = []"
| "join_with sep [x] = x"
| "join_with sep (x # y # ys) = x @ sep @ join_with sep (y # ys)"

text \<open>The encodings of the code points with the Unicode property White_Space,
  which is what \<^verbatim>\<open>strings.TrimSpace\<close> removes from both ends.\<close>

definition space_encodings :: "string list" where
  "space_encodings =
    map (\<lambda>n. [char_of (n::nat)]) [9, 10, 11, 12, 13, 32]
    @ map (map char_of) [[0xC2, 0x85], [0xC2, 0xA0 :: nat], [0xE1, 0x9A, 0x80]]
    @ map (\<lambda>n. map char_of [0xE2, 0x80, n]) ([0x80 ..< 0x8B] @ [0xA8, 0xA9, 0xAF :: nat])
    @ map (map char_of) [[0xE2, 0x81, 0x9F], [0xE3, 0x80, 0x80 :: nat]]"

definition leading_space :: "string list \<Rightarrow> string \<Rightarrow> nat" where
  "leading_space encs s =
    (case filter (has_prefix s) encs of [] \<Rightarrow> 0 | e # _ \<Rightarrow> length e)"

function trim_left_by :: "string list \<Rightarrow> string \<Rightarrow> string" where
  "trim_left_by encs s =
    (if s = [] \<or> leading_space encs s = 0 then s
     else trim_left_by encs (drop (leading_space encs s) s))"
  by pat_completeness auto
termination
  by (relation "measure (\<lambda>(encs, s). length s)") auto

definition trim_space :: "string \<Rightarrow> string" where
  "trim_space s =
    rev (trim_left_by (map rev space_encodings) (rev (trim_left_by space_encodings s)))"

declare trim_left_by.simps [simp del]


section \<open>The path packages\<close>

definition path_components :: "string \<Rightarrow> string list" where
  "path_components p = split_on CHR ''/'' p"

fun clean_step :: "bool \<Rightarrow> string list \<Rightarrow> string \<Rightarrow> string list" where
  "clean_step rooted stack c =
    (if c = [] \<or> c = ''.'' then stack
     else if c = ''..'' then
       (case stack of
          [] \<Rightarrow> if rooted then [] else [''..'']
        | t # ts \<Rightarrow> if t = ''..'' then ''..'' # stack else ts)
     else c # stack)"

definition is_abs_path :: "string \<Rightarrow> bool" where
  "is_abs_path p = has_prefix p ''/''"

definition clean_stack :: "string \<Rightarrow> string list" where
  "clean_stack p = rev (foldl (clean_step (is_abs_path p)) [] (path_components p))"

text \<open>\<^verbatim>\<open>path.Clean\<close>: the shortest equivalent slash-separated path.\<close>

definition path_clean :: "string \<Rightarrow> string" where
  "path_clean p =
    (let body = join_with ''/'' (clean_stack p)
     in if is_abs_path p then ''/'' @ body else if body = [] then ''.'' else body)"

text \<open>\<^verbatim>\<open>path.Base\<close> and \<^verbatim>\<open>filepath.Ext\<close> (on a system whose separator is the slash).\<close>

definition path_base :: "string \<Rightarrow> string" where
  "path_base p =
    (if p = [] then ''.''
     else (let q = rev (dropWhile (\<lambda>c. c = CHR ''/'') (rev p))
           in if q = [] then ''/'' else last (path_components q)))"

definition path_ext :: "string \<Rightarrow> string" where
  "path_ext p =
    (let b = last (path_components p)
     in if CHR ''.'' \<in> set b then CHR ''.'' # last (split_on CHR ''.'' b) else [])"


section \<open>bufio.Scanner\<close>

text \<open>\<^verbatim>\<open>bufio.ScanLines\<close> with a buffer of \<open>cap\<close> bytes: the lines without
  their newline and one trailing carriage return, the last one only when it is not
  empty.  A line that does not fit the buffer together with its newline ends the
  scan with an error (the second component is \<open>False\<close>).\<close>

definition drop_cr :: "string \<Rightarrow> string" where
  "drop_cr l = (if l \<noteq> [] \<and> last l = CHR 0x0D then butlast l else l)"

definition raw_lines :: "string \<Rightarrow> string list" where
  "raw_lines s = (let ls = split_on CHR 0x0A s in if last ls = [] then butlast ls else ls)"

definition scan_lines :: "nat \<Rightarrow> string \<Rightarrow> string list \<times> bool" where
  "scan_lines cap s =
    (let ls = raw_lines s
     in (map drop_cr (takeWhile (\<lambda>l. length l < cap) ls), list_all (\<lambda>l. length l < cap) ls))"


section \<open>Sets and maps built while scanning a list\<close>

text \<open>The loop \<^verbatim>\<open>if seen[x] { continue }; seen[x] = true; out = append(out, x)\<close>.\<close>

fun dedup_by :: "('a \<Rightarrow> 'k) \<Rightarrow> 'k set \<Rightarrow> 'a list \<Rightarrow> 'a list" where
  "dedup_by key seen [] = []"
| "dedup_by key seen (x # xs) =
    (if key x \<in> seen then dedup_by key seen xs
     else x # dedup_by key (insert (key x) seen) xs)"

abbreviation nub :: "'a list \<Rightarrow> 'a list" where
  "nub xs \<equiv> dedup_by (\<lambda>x. x) {} xs"

text \<open>The keys of a \<^verbatim>\<open>map[string]struct{}\<close> collected and sorted.\<close>

definition sorted_unique :: "'a::linorder list \<Rightarrow> 'a list" where
  "sorted_unique xs = sort (remdups xs)"


section \<open>Generic lemmas\<close>

lemma has_prefix_iff [go_strings]: "has_prefix s p \<longleftrightarrow> (\<exists>t. s = p @ t)"
  unfolding has_prefix_def by (metis append_eq_conv_conj append_take_drop_id)

lemma has_suffix_iff [go_strings]: "has_suffix s p \<longleftrightarrow> (\<exists>t. s = t @ p)"
  unfolding has_suffix_def has_prefix_iff
  by (metis rev_append rev_rev_ident)

lemma str_contains_iff [go_strings]: "str_contains s p \<longleftrightarrow> (\<exists>a b. s = a @ p @ b)"
proof (induction s)
  case (Cons c s)
  show ?case
  proof
    assume "str_contains (c # s) p"
    then consider "has_prefix (c # s) p" | "str_contains s p" by auto
    then show "\<exists>a b. c # s = a @ p @ b"
    proof cases
      case 1
      then show ?thesis by (metis append_Nil has_prefix_iff)
    next
      case 2
      then show ?thesis using Cons.IH by (metis append_Cons)
    qed
  next
    assume "\<exists>a b. c # s = a @ p @ b"
    then obtain a b where ab: "c # s = a @ p @ b" by blast
    then show "str_contains (c # s) p"
    proof (cases a)
      case Nil
      with ab have "has_prefix (c # s) p" by (auto simp: has_prefix_iff)
      then show ?thesis by simp
    next
      case (Cons x xs)
      with ab Cons.IH show ?thesis by auto
    qed
  qed
qed auto

text \<open>A string that starts and ends with a graphic ASCII character is not trimmed.\<close>

definition graphic :: "char \<Rightarrow> bool" where
  "graphic c \<longleftrightarrow> 32 < (of_char c :: nat) \<and> (of_char c :: nat) < 128"

lemma space_encodings_ends:
  "list_all (\<lambda>e. e \<noteq> [] \<and> \<not> graphic (hd e) \<and> \<not> graphic (last e)) space_encodings"
  by (simp add: space_encodings_def graphic_def upt_rec)

lemma leading_space_graphic:
  assumes "list_all (\<lambda>e. e \<noteq> [] \<and> \<not> graphic (hd e)) encs" "s \<noteq> []" "graphic (hd s)"
  shows "trim_left_by encs s = s"
proof -
  have "\<not> has_prefix s e" if "e \<in> set encs" for e
  proof
    assume "has_prefix s e"
    moreover have "e \<noteq> []" "\<not> graphic (hd e)" using assms(1) that by (auto simp: list_all_iff)
    ultimately show False using assms(3) by (auto simp: has_prefix_iff)
  qed
  then have "filter (has_prefix s) encs = []" by (simp add: filter_empty_conv)
  then show ?thesis by (simp add: trim_left_by.simps[of encs s] leading_space_def)
qed

lemma trim_space_id:
  assumes "s \<noteq> []" "graphic (hd s)" "graphic (last s)"
  shows "trim_space s = s"
proof -
  have enc: "list_all (\<lambda>e. e \<noteq> [] \<and> \<not> graphic (hd e)) space_encodings"
    "list_all (\<lambda>e. e \<noteq> [] \<and> \<not> graphic (hd e)) (map rev space_encodings)"
    using space_encodings_ends by (auto simp: list_all_iff hd_rev)
  show ?thesis
    using leading_space_graphic[OF enc(1) assms(1,2)] leading_space_graphic[OF enc(2), of "rev s"] assms
    by (simp add: trim_space_def hd_rev)
qed

lemma split_on_nonempty [simp]: "split_on c s \<noteq> []"
  by (induction s) (auto split: list.splits)

lemma split_on_no_sep: "p \<in> set (split_on c s) \<Longrightarrow> c \<notin> set p"
  by (induction s arbitrary: p) (auto split: list.splits if_splits)

lemma join_with_Cons: "ps \<noteq> [] \<Longrightarrow> join_with sep (p # ps) = p @ sep @ join_with sep ps"
  by (cases ps) auto

lemma join_with_head: "join_with sep ((x # p) # ps) = x # join_with sep (p # ps)"
  by (cases ps) auto

lemma join_split [simp]: "join_with [c] (split_on c s) = s"
proof (induction s)
  case (Cons x s)
  obtain p ps where "split_on c s = p # ps"
    using split_on_nonempty by (metis list.exhaust)
  with Cons show ?case by (auto simp: join_with_head join_with_Cons)
qed simp

lemma split_on_append_sep: "c \<notin> set p \<Longrightarrow> split_on c (p @ c # s) = p # split_on c s"
  by (induction p) auto

lemma split_on_no_occurrence [simp]: "c \<notin> set p \<Longrightarrow> split_on c p = [p]"
  by (induction p) auto

lemma split_join:
  "ps \<noteq> [] \<Longrightarrow> \<forall>p \<in> set ps. c \<notin> set p \<Longrightarrow> split_on c (join_with [c] ps) = ps"
  by (induction "[c]" ps rule: join_with.induct) (auto simp: split_on_append_sep)

text \<open>A relative path whose components are plain names is its own cleaned form.\<close>

definition clean_names :: "string list \<Rightarrow> bool" where
  "clean_names cs \<longleftrightarrow> cs \<noteq> [] \<and> list_all (\<lambda>c. c \<noteq> [] \<and> c \<noteq> ''.'' \<and> c \<noteq> ''..'' \<and> CHR ''/'' \<notin> set c) cs"

lemma clean_fold: "list_all (\<lambda>c. c \<noteq> [] \<and> c \<noteq> ''.'' \<and> c \<noteq> ''..'') cs \<Longrightarrow> foldl (clean_step r) st cs = rev cs @ st"
  by (induction cs arbitrary: st) simp_all

lemma path_clean_id:
  assumes "clean_names (path_components p)"
  shows "path_clean p = p" "p \<noteq> []" "p \<noteq> ''.''" "\<not> is_abs_path p"
proof -
  have cs: "list_all (\<lambda>c. c \<noteq> [] \<and> c \<noteq> ''.'' \<and> c \<noteq> ''..'') (path_components p)"
    using assms by (auto simp: clean_names_def list_all_iff)
  show rel: "\<not> is_abs_path p"
  proof
    assume "is_abs_path p"
    then obtain t where "p = CHR ''/'' # t" by (auto simp: is_abs_path_def has_prefix_iff)
    then have "[] \<in> set (path_components p)" by (simp add: path_components_def)
    with cs show False by (auto simp: list_all_iff)
  qed
  show ne: "p \<noteq> []" using cs by (auto simp: path_components_def)
  show "p \<noteq> ''.''" using cs by (auto simp: path_components_def)
  have "join_with ''/'' (clean_stack p) = p"
    using clean_fold[OF cs, of False "[]"] rel by (simp add: clean_stack_def) (simp add: path_components_def)
  with rel ne show "path_clean p = p" by (simp add: path_clean_def Let_def)
qed

lemma clean_components:
  "list_all (\<lambda>c. c \<notin> {[], ''.'', ''..''}) (path_components p) \<longleftrightarrow> clean_names (path_components p)"
  using split_on_no_sep by (auto simp: clean_names_def path_components_def list_all_iff)

lemma dedup_by_subset: "set (dedup_by key seen xs) \<subseteq> set xs"
proof (induction xs arbitrary: seen)
  case (Cons x xs)
  from Cons[of seen] Cons[of "insert (key x) seen"] show ?case by auto
qed simp

lemma dedup_by_keys: "key ` set (dedup_by key seen xs) = key ` set xs - seen"
  by (induction xs arbitrary: seen) auto

lemma dedup_by_distinct: "distinct (map key (dedup_by key seen xs))"
proof (induction xs arbitrary: seen)
  case (Cons x xs)
  have "key x \<notin> key ` set (dedup_by key (insert (key x) seen) xs)"
    by (simp add: dedup_by_keys)
  with Cons show ?case by simp
qed simp

lemma dedup_by_length: "length (dedup_by key seen xs) \<le> length xs"
  by (induction xs arbitrary: seen) (auto simp: le_SucI)

lemma set_nub [simp]: "set (nub xs) = set xs"
  using dedup_by_keys[of "\<lambda>x. x" "{}" xs] by simp

lemma distinct_nub [simp]: "distinct (nub xs)"
  using dedup_by_distinct[of "\<lambda>x. x" "{}" xs] by simp

lemma dedup_by_idem:
  "distinct (map key xs) \<Longrightarrow> key ` set xs \<inter> seen = {} \<Longrightarrow> dedup_by key seen xs = xs"
proof (induction xs arbitrary: seen)
  case (Cons x xs)
  then have "key ` set xs \<inter> insert (key x) seen = {}" "key x \<notin> seen" by auto
  with Cons show ?case by simp
qed simp

lemma set_sorted_unique [simp]: "set (sorted_unique xs) = set xs"
  by (simp add: sorted_unique_def)

lemma sorted_unique_sorted [simp]: "sorted (sorted_unique xs)"
  by (simp add: sorted_unique_def)

lemma sorted_unique_distinct [simp]: "distinct (sorted_unique xs)"
  by (simp add: sorted_unique_def)

lemma sorted_unique_cong: "set xs = set ys \<Longrightarrow> sorted_unique xs = sorted_unique ys"
  by (rule sorted_distinct_set_unique) simp_all

lemma sorted_unique_id: "sorted xs \<Longrightarrow> distinct xs \<Longrightarrow> sorted_unique xs = xs"
  by (rule sorted_distinct_set_unique) simp_all

end
