(* ===== verification/Refresh_Queue.thy ===== *)
theory Refresh_Queue
  imports Prelude
begin

text \<open>
  The coalescing queue of the file watcher
  (\<^verbatim>\<open>services/brain/internal/codecrawl/watch_queue.go\<close>): a bounded set of
  dirty paths, an overflow marker that asks for a full rescan, and a 64-bit
  version that \<^verbatim>\<open>commit\<close> compares with the version \<^verbatim>\<open>begin\<close>
  returned.  The version is a machine word, so the law that a commit keeps
  every event of the scan is stated for fewer than \<open>2 ^ 64\<close> events.
\<close>

section \<open>The queue\<close>

definition defaultWatchQueueSize :: int where
  "defaultWatchQueueSize = 4096"

definition defaultRetryInitial :: int where
  "defaultRetryInitial = 100 * 1000000"

definition defaultRetryMax :: int where
  "defaultRetryMax = 5 * 1000000000"

record refreshQueue =
  rq_capacity :: int
  rq_paths :: "string set"
  rq_version :: "64 word"
  rq_overflow :: bool

definition newRefreshQueue :: "int \<Rightarrow> refreshQueue" where
  "newRefreshQueue capacity =
    \<lparr>rq_capacity = (if capacity < 1 then defaultWatchQueueSize else capacity),
     rq_paths = {}, rq_version = 0, rq_overflow = False\<rparr>"

definition enqueue :: "string \<Rightarrow> refreshQueue \<Rightarrow> refreshQueue" where
  "enqueue path q0 =
    (let q = q0\<lparr>rq_version := rq_version q0 + 1\<rparr>
     in if path = [] then q\<lparr>rq_overflow := True\<rparr>
        else if path \<in> rq_paths q then q
        else if int (card (rq_paths q)) \<ge> rq_capacity q then q\<lparr>rq_overflow := True\<rparr>
        else q\<lparr>rq_paths := insert path (rq_paths q)\<rparr>)"

definition pending :: "refreshQueue \<Rightarrow> bool" where
  "pending q \<longleftrightarrow> rq_overflow q \<or> card (rq_paths q) > 0"

definition queue_begin :: "refreshQueue \<Rightarrow> 64 word \<times> nat \<times> bool" where
  "queue_begin q = (rq_version q, card (rq_paths q), rq_overflow q)"

definition commit :: "64 word \<Rightarrow> refreshQueue \<Rightarrow> refreshQueue \<times> bool" where
  "commit version q =
    (if rq_version q \<noteq> version then (q, False)
     else (q\<lparr>rq_paths := {}, rq_overflow := False\<rparr>, True))"

definition depth :: "refreshQueue \<Rightarrow> nat" where
  "depth q = card (rq_paths q)"


section \<open>Back-off\<close>

fun retry_loop :: "nat \<Rightarrow> int \<Rightarrow> int \<Rightarrow> int" where
  "retry_loop 0 delay maximum = (if delay > maximum then maximum else delay)"
| "retry_loop (Suc n) delay maximum =
    (if delay \<ge> maximum div 2 then maximum else retry_loop n (delay * 2) maximum)"

definition retry_initial :: "int \<Rightarrow> int" where
  "retry_initial initial = (if initial \<le> 0 then defaultRetryInitial else initial)"

definition retry_maximum :: "int \<Rightarrow> int \<Rightarrow> int" where
  "retry_maximum initial maximum =
    (if maximum < retry_initial initial then defaultRetryMax else maximum)"

definition retryDelay :: "int \<Rightarrow> int \<Rightarrow> int \<Rightarrow> int" where
  "retryDelay attempt initial maximum =
    retry_loop (nat (attempt - 1)) (retry_initial initial) (retry_maximum initial maximum)"


section \<open>Well-formedness\<close>

definition rq_inv :: "refreshQueue \<Rightarrow> bool" where
  "rq_inv q \<longleftrightarrow> rq_capacity q \<ge> 1 \<and> finite (rq_paths q) \<and> [] \<notin> rq_paths q
    \<and> int (card (rq_paths q)) \<le> rq_capacity q"

lemma rq_inv_new [simp, intro]: "rq_inv (newRefreshQueue c)"
  by (simp add: rq_inv_def newRefreshQueue_def defaultWatchQueueSize_def)

lemma rq_inv_enqueue [simp, intro]: "rq_inv q \<Longrightarrow> rq_inv (enqueue p q)"
  by (auto simp: rq_inv_def enqueue_def Let_def card_insert_if)

lemma rq_inv_commit [simp, intro]: "rq_inv q \<Longrightarrow> rq_inv (fst (commit v q))"
  by (simp add: rq_inv_def commit_def)

lemma rq_inv_fold [simp, intro]: "rq_inv q \<Longrightarrow> rq_inv (fold enqueue ps q)"
  by (induction ps arbitrary: q) auto

lemma version_enqueue [simp]: "rq_version (enqueue p q) = rq_version q + 1"
  by (simp add: enqueue_def Let_def)

lemma capacity_enqueue [simp]: "rq_capacity (enqueue p q) = rq_capacity q"
  by (simp add: enqueue_def Let_def)

lemma version_fold_enqueue: "rq_version (fold enqueue ps q) = rq_version q + word_of_nat (length ps)"
  by (induction ps arbitrary: q) (simp_all add: ac_simps)

lemma capacity_fold_enqueue [simp]: "rq_capacity (fold enqueue ps q) = rq_capacity q"
  by (induction ps arbitrary: q) simp_all

lemma pending_iff: "rq_inv q \<Longrightarrow> pending q \<longleftrightarrow> rq_overflow q \<or> rq_paths q \<noteq> {}"
  by (auto simp: pending_def rq_inv_def card_gt_0_iff)

lemma pending_enqueue: "rq_inv q \<Longrightarrow> pending (enqueue p q)"
  using pending_iff [OF rq_inv_enqueue, of q p]
  by (auto simp: enqueue_def Let_def rq_inv_def)

lemma not_pending_new [simp]: "\<not> pending (newRefreshQueue c)"
  by (simp add: pending_def newRefreshQueue_def)

lemma commit_current [simp]:
  "commit (rq_version q) q = (q\<lparr>rq_paths := {}, rq_overflow := False\<rparr>, True)"
  by (simp add: commit_def)


section \<open>What the watcher relies on\<close>

text \<open>The contract between the queue and the watch loop.  \<open>window\<close> bounds the
  number of enqueue operations for which versions are distinct.\<close>

locale coalescing_queue =
  fixes inv :: "'q \<Rightarrow> bool"
    and enq :: "'p \<Rightarrow> 'q \<Rightarrow> 'q"
    and pend :: "'q \<Rightarrow> bool"
    and ver :: "'q \<Rightarrow> 'v"
    and com :: "'v \<Rightarrow> 'q \<Rightarrow> 'q \<times> bool"
    and window :: nat
  assumes inv_enq: "inv q \<Longrightarrow> inv (enq p q)"
    and enq_pend: "inv q \<Longrightarrow> pend (enq p q)"
    and com_stale: "ver q \<noteq> v \<Longrightarrow> com v q = (q, False)"
    and com_fresh: "ver q = v \<Longrightarrow> snd (com v q) \<and> \<not> pend (fst (com v q))"
    and ver_window: "ps \<noteq> [] \<Longrightarrow> length ps < window \<Longrightarrow> ver (fold enq ps q) \<noteq> ver q"
begin

lemma inv_fold: "inv q \<Longrightarrow> inv (fold enq ps q)"
  by (induction ps arbitrary: q) (auto simp: inv_enq)

lemma pend_fold: "inv q \<Longrightarrow> ps \<noteq> [] \<Longrightarrow> pend (fold enq ps q)"
  by (cases ps rule: rev_cases) (auto simp: enq_pend inv_fold)

lemma commit_keeps_events:
  assumes "inv q" "ps \<noteq> []" "length ps < window"
  shows "com (ver q) (fold enq ps q) = (fold enq ps q, False)" "pend (fold enq ps q)"
  using assms by (simp_all add: com_stale ver_window pend_fold)

lemma commit_clears_iff:
  assumes "inv q" "length ps < window"
  shows "snd (com (ver q) (fold enq ps q)) \<longleftrightarrow> ps = []"
  using assms com_fresh[of q "ver q"] commit_keeps_events(1)[of q ps] by (cases "ps = []") auto

end

lemma word_of_nat_window: "0 < n \<Longrightarrow> n < 2 ^ 64 \<Longrightarrow> (word_of_nat n :: 64 word) \<noteq> 0"
  by (simp add: word_of_nat_eq_0_iff nat_dvd_not_less)

interpretation rq: coalescing_queue rq_inv enqueue pending rq_version commit "2 ^ 64"
proof
  fix ps :: "string list" and q
  assume "ps \<noteq> []" "length ps < 2 ^ 64"
  then have "(word_of_nat (length ps) :: 64 word) \<noteq> 0" by (intro word_of_nat_window) simp_all
  then show "rq_version (fold enqueue ps q) \<noteq> rq_version q"
    by (simp add: version_fold_enqueue)
next
  fix q p assume "rq_inv q"
  then show "pending (enqueue p q)" by (rule pending_enqueue)
qed (auto simp: commit_def pending_def)


section \<open>Coverage of the recorded changes\<close>

text \<open>The queue covers a set of changed paths when a rescan of what it holds
  (everything, on overflow) reads all of them.\<close>

definition covers :: "refreshQueue \<Rightarrow> string set \<Rightarrow> bool" where
  "covers q D \<longleftrightarrow> rq_overflow q \<or> D \<subseteq> rq_paths q"

lemma covers_enqueue: "covers q D \<Longrightarrow> covers (enqueue p q) (insert p D)"
  by (auto simp: covers_def enqueue_def Let_def)

lemma covers_fold_enqueue: "covers q D \<Longrightarrow> covers (fold enqueue ps q) (D \<union> set ps)"
proof (induction ps arbitrary: q D)
  case (Cons p ps)
  from Cons.IH[OF covers_enqueue[OF Cons.prems, of p]] show ?case by simp
qed simp

lemma paths_fold_enqueue: "rq_paths (fold enqueue ps q) \<subseteq> rq_paths q \<union> set ps"
proof (induction ps arbitrary: q)
  case (Cons p ps)
  have "rq_paths (enqueue p q) \<subseteq> insert p (rq_paths q)"
    by (auto simp: enqueue_def Let_def)
  with Cons[of "enqueue p q"] show ?case by auto
qed simp

lemma paths_enqueue_mono: "rq_paths q \<subseteq> rq_paths (enqueue p q)"
  by (auto simp: enqueue_def Let_def)

lemma overflow_enqueue:
  assumes "rq_overflow (enqueue p q)" "finite (rq_paths q)"
  shows "rq_overflow q \<or> p = [] \<or> rq_capacity q < int (card (insert p (rq_paths q)))"
  using assms by (auto simp: enqueue_def Let_def card_insert_if split: if_splits)

lemma overflow_fold_enqueue:
  assumes "rq_overflow (fold enqueue ps q)" "finite (rq_paths q)"
  shows "rq_overflow q \<or> [] \<in> set ps \<or> rq_capacity q < int (card (rq_paths q \<union> set ps))"
  using assms
proof (induction ps arbitrary: q)
  case (Cons p ps)
  have sub: "rq_paths (enqueue p q) \<subseteq> insert p (rq_paths q)"
    by (auto simp: enqueue_def Let_def)
  then have fin: "finite (rq_paths (enqueue p q))"
    using Cons.prems(2) by (meson finite.insertI finite_subset)
  have le: "card (rq_paths (enqueue p q) \<union> set ps) \<le> card (rq_paths q \<union> set (p # ps))"
    using sub Cons.prems(2) by (intro card_mono) auto
  have le': "card (insert p (rq_paths q)) \<le> card (rq_paths q \<union> set (p # ps))"
    using Cons.prems(2) by (intro card_mono) auto
  from Cons.IH[of "enqueue p q"] Cons.prems fin
  consider "rq_overflow (enqueue p q)" | "[] \<in> set ps"
    | "rq_capacity q < int (card (rq_paths (enqueue p q) \<union> set ps))" by auto
  then show ?case
  proof cases
    case 1
    from overflow_enqueue[OF 1 Cons.prems(2)] le' show ?thesis by auto
  next
    case 3
    with le show ?thesis by auto
  qed auto
qed simp


section \<open>Properties of the queue\<close>

text \<open>C20.  No filesystem event is lost while a refresh runs: when at least one
  and fewer than \<open>2 ^ 64\<close> events were enqueued after \<^verbatim>\<open>begin\<close> returned
  its version, \<^verbatim>\<open>commit\<close> with that version reports failure, leaves the
  queue exactly as the events left it, and the queue stays pending; with no
  event in between, the commit clears it.\<close>

theorem commit_never_loses_event:
  assumes "rq_inv q" "queue_begin q = (v, d, full)" "length ps < 2 ^ 64"
  shows "(if ps = [] then snd (commit v (fold enqueue ps q))
            \<and> \<not> pending (fst (commit v (fold enqueue ps q)))
          else commit v (fold enqueue ps q) = (fold enqueue ps q, False)
            \<and> pending (fold enqueue ps q))"
  using assms rq.commit_keeps_events[of q ps] rq.com_fresh[of q v]
  by (auto simp: queue_begin_def)

theorem commit_never_loses_event_witness:
  "commit 0 (fold enqueue [''a.go''] (newRefreshQueue 2))
     = (fold enqueue [''a.go''] (newRefreshQueue 2), False)"
  using commit_never_loses_event[OF rq_inv_new, of 2 0 0 False "[''a.go'']"]
  by (simp add: queue_begin_def newRefreshQueue_def)

text \<open>C21.  The queue is bounded and never under-reports: starting from a fresh
  queue, after any sequence of events it holds at most its capacity, either the
  overflow marker is set or every event's path is held, it holds no path that was
  not reported, and the marker is set only when an unnamed change was reported or
  more distinct paths than the capacity were.\<close>

theorem queue_bounded_and_covering:
  "let q = fold enqueue ps (newRefreshQueue c)
   in int (depth q) \<le> rq_capacity q
      \<and> (rq_overflow q \<or> rq_paths q = set ps)
      \<and> rq_paths q \<subseteq> set ps
      \<and> rq_overflow q = ([] \<in> set ps \<or> rq_capacity q < int (card (set ps)))"
proof -
  define q where "q = fold enqueue ps (newRefreshQueue c)"
  have inv: "rq_inv q" unfolding q_def by blast
  have sub: "rq_paths q \<subseteq> set ps"
    using paths_fold_enqueue[of ps "newRefreshQueue c"] by (simp add: q_def newRefreshQueue_def)
  have cov: "rq_overflow q \<or> set ps \<subseteq> rq_paths q"
    using covers_fold_enqueue[of "newRefreshQueue c" "{}" ps]
    by (simp add: q_def covers_def)
  have "rq_overflow q = ([] \<in> set ps \<or> rq_capacity q < int (card (set ps)))"
    using overflow_fold_enqueue[of ps "newRefreshQueue c"] cov sub inv
    by (auto simp: q_def newRefreshQueue_def rq_inv_def)
  with inv sub cov show ?thesis
    unfolding Let_def q_def[symmetric] by (auto simp: rq_inv_def depth_def)
qed

lemma retry_loop_closed:
  assumes "0 < d" "d \<le> M \<or> n = 0"
  shows "retry_loop n d M =
    (if n = 0 then min d M else if M div 2 \<le> d * 2 ^ (n - 1) then M else d * 2 ^ n)"
  using assms
proof (induction n arbitrary: d)
  case (Suc n)
  have mono: "d * 1 \<le> d * 2 ^ n" using Suc.prems by (intro mult_left_mono) auto
  show ?case
  proof (cases "M div 2 \<le> d")
    case True
    with mono show ?thesis by simp
  next
    case False
    then have "d * 2 \<le> M" by linarith
    with Suc.IH[of "d * 2"] Suc.prems False show ?thesis
      by (cases n) (auto simp: ac_simps)
  qed
qed simp

lemma retry_positive: "0 < retry_initial i" "0 < retry_maximum i m"
  by (auto simp: retry_initial_def retry_maximum_def defaultRetryInitial_def defaultRetryMax_def)

lemma retry_loop_bounds: "0 < d \<Longrightarrow> 0 < M \<Longrightarrow> 0 < retry_loop n d M \<and> retry_loop n d M \<le> M"
  by (induction n arbitrary: d) auto

lemma retryDelay_bounds: "0 < retryDelay a i m" "retryDelay a i m \<le> retry_maximum i m"
  using retry_loop_bounds[OF retry_positive] by (simp_all add: retryDelay_def)

text \<open>The back-off is exponential with a ceiling and never overflows: with
  the defaulted initial delay \<open>I\<close> and maximum \<open>M\<close>, attempt \<open>n + 1\<close> waits
  \<open>I * 2 ^ n\<close> until doubling would reach the upper half of the range, from
  then on \<open>M\<close>; the delay is always positive and at most \<open>M\<close>.\<close>

theorem retryDelay_closed_form:
  "let I = retry_initial i; M = retry_maximum i m; n = nat (a - 1)
   in retryDelay a i m =
        (if n = 0 then min I M
         else if M div 2 \<le> I * 2 ^ (n - 1) then M else I * 2 ^ n)
      \<and> 0 < retryDelay a i m \<and> retryDelay a i m \<le> M"
proof -
  define I where "I = retry_initial i"
  define M where "M = retry_maximum i m"
  define n where "n = nat (a - 1)"
  have pos: "0 < I" "0 < M" using retry_positive by (simp_all add: I_def M_def)
  have grow: "I * 1 \<le> I * 2 ^ (n - 1)" using pos by (intro mult_left_mono) auto
  have closed: "retry_loop n I M =
      (if n = 0 then min I M else if M div 2 \<le> I * 2 ^ (n - 1) then M else I * 2 ^ n)"
  proof (cases "I \<le> M")
    case True
    then show ?thesis using retry_loop_closed[of I M n] pos by simp
  next
    case False
    then have "M div 2 \<le> I" using pos by linarith
    with grow have "M div 2 \<le> I * 2 ^ (n - 1)" by linarith
    with False pos show ?thesis by (cases n) auto
  qed
  have "I * 2 ^ n \<le> M" if "n \<noteq> 0" "\<not> M div 2 \<le> I * 2 ^ (n - 1)"
    using that by (cases n) auto
  with closed pos show ?thesis
    unfolding Let_def I_def[symmetric] M_def[symmetric] n_def[symmetric]
    by (auto simp: retryDelay_def I_def[symmetric] M_def[symmetric] n_def[symmetric])
qed

end
