(* ===== verification/Text_Bound.thy ===== *)
theory Text_Bound
  imports Prelude
begin

text \<open>
  UTF-8 as Go's \<^verbatim>\<open>unicode/utf8\<close> decodes it, and the truncation helpers of
  \<^verbatim>\<open>services/internal/textbound/textbound.go\<close>.  A byte that starts no
  well-formed sequence decodes to U+FFFD with width one, so every byte string
  decodes; a string is valid when no position does that.
\<close>

section \<open>UTF-8\<close>

definition byte :: "char \<Rightarrow> nat" where
  "byte c = of_char c"

definition is_cont :: "char \<Rightarrow> bool" where
  "is_cont c \<longleftrightarrow> 0x80 \<le> byte c \<and> byte c < 0xC0"

definition rune_start :: "char \<Rightarrow> bool" where
  "rune_start c \<longleftrightarrow> \<not> is_cont c"

definition in_range :: "nat \<Rightarrow> nat \<Rightarrow> char \<Rightarrow> bool" where
  "in_range lo hi c \<longleftrightarrow> lo \<le> byte c \<and> byte c \<le> hi"

text \<open>The well-formed byte sequences of one code point (no surrogates, no
  overlong forms, nothing above U+10FFFF).\<close>

fun chunk_ok :: "string \<Rightarrow> bool" where
  "chunk_ok [a] = (byte a < 0x80)"
| "chunk_ok [a, b] = (in_range 0xC2 0xDF a \<and> is_cont b)"
| "chunk_ok [a, b, c] =
    ((byte a = 0xE0 \<and> in_range 0xA0 0xBF b
      \<or> in_range 0xE1 0xEC a \<and> is_cont b
      \<or> byte a = 0xED \<and> in_range 0x80 0x9F b
      \<or> in_range 0xEE 0xEF a \<and> is_cont b) \<and> is_cont c)"
| "chunk_ok [a, b, c, d] =
    ((byte a = 0xF0 \<and> in_range 0x90 0xBF b
      \<or> in_range 0xF1 0xF3 a \<and> is_cont b
      \<or> byte a = 0xF4 \<and> in_range 0x80 0x8F b) \<and> is_cont c \<and> is_cont d)"
| "chunk_ok _ = False"

fun chunk_rune :: "string \<Rightarrow> nat" where
  "chunk_rune [a] = byte a"
| "chunk_rune [a, b] = (byte a - 0xC0) * 64 + (byte b - 0x80)"
| "chunk_rune [a, b, c] = ((byte a - 0xE0) * 64 + (byte b - 0x80)) * 64 + (byte c - 0x80)"
| "chunk_rune [a, b, c, d] =
    (((byte a - 0xF0) * 64 + (byte b - 0x80)) * 64 + (byte c - 0x80)) * 64 + (byte d - 0x80)"
| "chunk_rune _ = 0xFFFD"

definition rune_error :: nat where
  "rune_error = 0xFFFD"

definition rune_width :: "string \<Rightarrow> nat" where
  "rune_width s =
    (if chunk_ok (take 1 s) then 1
     else if chunk_ok (take 2 s) then 2
     else if chunk_ok (take 3 s) then 3
     else if chunk_ok (take 4 s) then 4
     else 1)"

definition first_rune :: "string \<Rightarrow> nat" where
  "first_rune s =
    (let c = take (rune_width s) s in if chunk_ok c then chunk_rune c else rune_error)"

lemma rune_width_pos [simp]: "0 < rune_width s"
  by (simp add: rune_width_def)

text \<open>The iteration \<^verbatim>\<open>for index, r := range s\<close>: each rune with its bytes.\<close>

function runes_of :: "string \<Rightarrow> (nat \<times> string) list" where
  "runes_of [] = []"
| "runes_of (a # s) =
    (first_rune (a # s), take (rune_width (a # s)) (a # s))
      # runes_of (drop (rune_width (a # s)) (a # s))"
  by pat_completeness auto
termination
  by (relation "measure length") auto

definition valid_utf8 :: "string \<Rightarrow> bool" where
  "valid_utf8 s \<longleftrightarrow> list_all (\<lambda>(r, bs). chunk_ok bs) (runes_of s)"


section \<open>The truncation helpers\<close>

fun cut_back :: "string \<Rightarrow> nat \<Rightarrow> nat \<Rightarrow> nat option" where
  "cut_back s low 0 = None"
| "cut_back s low (Suc pos) =
    (if Suc pos > low
     then if rune_start (s ! Suc pos) then Some (Suc pos) else cut_back s low pos
     else None)"

definition Bytes :: "string \<Rightarrow> int \<Rightarrow> string" where
  "Bytes s limit =
    (if limit \<le> 0 then []
     else if int (length s) \<le> limit then s
     else (let lm = nat limit; low = lm - 3
           in case cut_back s low lm of
                Some pos \<Rightarrow> take pos s
              | None \<Rightarrow> if rune_start (s ! low) then take low s else take lm s))"

fun runes_prefix :: "nat \<Rightarrow> (nat \<times> string) list \<Rightarrow> string" where
  "runes_prefix n [] = []"
| "runes_prefix n ((r, bs) # rs) = (if n = 0 then [] else bs @ runes_prefix (n - 1) rs)"

definition Runes :: "string \<Rightarrow> int \<Rightarrow> string" where
  "Runes s limit =
    (if limit \<le> 0 then []
     else if int (length (runes_of s)) \<le> limit then s
     else runes_prefix (nat limit) (runes_of s))"

definition ellipsis_mark :: string where
  "ellipsis_mark = map char_of [0xE2, 0x80, 0xA6 :: nat]"

definition Ellipsis :: "string \<Rightarrow> int \<Rightarrow> string" where
  "Ellipsis s limit =
    (if limit \<le> 0 then []
     else if int (length s) \<le> limit then s
     else if limit \<le> int (length ellipsis_mark) then Bytes s limit
     else Bytes s (limit - int (length ellipsis_mark)) @ ellipsis_mark)"


section \<open>Facts about the encoding\<close>

lemmas utf8_ranges = is_cont_def in_range_def rune_start_def

lemma chunk_ok_length: "chunk_ok c \<Longrightarrow> 1 \<le> length c \<and> length c \<le> 4"
  by (cases c rule: chunk_ok.cases) auto

lemma chunk_ok_head: "chunk_ok (a # c) \<Longrightarrow> rune_start a \<and> list_all is_cont c"
  by (cases "a # c" rule: chunk_ok.cases) (auto simp: utf8_ranges)

lemma chunk_ok_width:
  "chunk_ok (a # c) \<Longrightarrow> length (a # c) =
    (if byte a < 0x80 then 1 else if byte a < 0xE0 then 2 else if byte a < 0xF0 then 3 else 4)"
  by (cases "a # c" rule: chunk_ok.cases) (auto simp: utf8_ranges)

lemma chunk_ok_prefix_free:
  assumes "chunk_ok c" "chunk_ok (take n (c @ s))" "n \<le> length (c @ s)"
  shows "n = length c"
proof -
  from assms(1) obtain a c' where c: "c = a # c'" by (cases c) auto
  from assms(2) obtain m where n: "n = Suc m" by (cases n) auto
  show ?thesis
    using chunk_ok_width[of a c'] chunk_ok_width[of a "take m (c' @ s)"] assms
    unfolding c n by (simp split: if_splits)
qed

lemma rune_width_chunk:
  assumes "chunk_ok c"
  shows "rune_width (c @ s) = length c"
proof -
  from assms obtain a c' where c: "c = a # c'" by (cases c) auto
  note w = chunk_ok_width[of a c'] chunk_ok_width[of a "take 1 (c' @ s)"]
    chunk_ok_width[of a "take 2 (c' @ s)"] chunk_ok_width[of a "take 3 (c' @ s)"]
  have len: "length c \<in> {1, 2, 3, 4}" using chunk_ok_length[OF assms] by auto
  have ok: "chunk_ok (take (length c) (c @ s))" using assms by simp
  have no: "\<not> chunk_ok (take n (c @ s))" if "n < length c" for n
    using chunk_ok_prefix_free[OF assms, of n s] that by auto
  show ?thesis
    using len ok no[of 1] no[of 2] no[of 3] by (auto simp: rune_width_def)
qed

lemma rune_width_le: "s \<noteq> [] \<Longrightarrow> rune_width s \<le> length s"
  by (cases s rule: chunk_ok.cases) (auto simp: rune_width_def)

lemma rune_width_invalid: "\<not> chunk_ok (take (rune_width s) s) \<Longrightarrow> rune_width s = 1"
  by (auto simp: rune_width_def split: if_splits)

lemma concat_runes_of [simp]: "concat (map snd (runes_of s)) = s"
  by (induction s rule: runes_of.induct) auto

lemma runes_of_chunk:
  "chunk_ok c \<Longrightarrow> runes_of (c @ s) = (chunk_rune c, c) # runes_of s"
  using rune_width_chunk[of c s] by (cases c) (auto simp: first_rune_def)

lemma runes_of_chunks:
  "list_all chunk_ok cs \<Longrightarrow> runes_of (concat cs) = map (\<lambda>c. (chunk_rune c, c)) cs"
  by (induction cs) (auto simp: runes_of_chunk)

lemma valid_utf8_chunks: "valid_utf8 s \<longleftrightarrow> (\<exists>cs. list_all chunk_ok cs \<and> s = concat cs)"
proof
  assume "valid_utf8 s"
  then have "list_all chunk_ok (map snd (runes_of s))"
    by (auto simp: valid_utf8_def list_all_iff)
  moreover have "s = concat (map snd (runes_of s))" by simp
  ultimately show "\<exists>cs. list_all chunk_ok cs \<and> s = concat cs" by blast
qed (auto simp: valid_utf8_def runes_of_chunks list_all_iff)

lemma valid_utf8_Nil [simp]: "valid_utf8 []"
  by (simp add: valid_utf8_def)

lemma valid_utf8_append: "valid_utf8 a \<Longrightarrow> valid_utf8 b \<Longrightarrow> valid_utf8 (a @ b)"
  unfolding valid_utf8_chunks by (metis concat_append list_all_append)

lemma no_chunk_invalid:
  assumes "\<not> chunk_ok (take (rune_width s) s)"
  shows "\<not> chunk_ok (take n s)"
proof
  assume ok: "chunk_ok (take n s)"
  have none: "\<not> chunk_ok (take k s)" if "k \<in> {1, 2, 3, 4}" for k
    using assms that by (auto simp: rune_width_def split: if_splits)
  define k where "k = length (take n s)"
  have "take k s = take n s" by (simp add: k_def min_def)
  moreover have "k \<in> {1, 2, 3, 4}" using chunk_ok_length[OF ok] by (auto simp: k_def)
  ultimately show False using ok none by metis
qed

lemma runes_of_invalid_prefix:
  assumes "\<not> chunk_ok (take (rune_width (a # p @ q)) (a # p @ q))"
  shows "runes_of (a # p) = (rune_error, [a]) # runes_of p"
proof -
  have no: "\<not> chunk_ok (take n (a # p))" for n
  proof -
    have "take n (a # p) = take (min n (length (a # p))) (a # p @ q)"
      by (cases n) (simp_all add: min_def)
    with no_chunk_invalid[OF assms] show ?thesis by metis
  qed
  have "rune_width (a # p) = 1" unfolding rune_width_def by (simp only: no if_False)
  with no[of 1] show ?thesis by (simp add: first_rune_def)
qed

lemma runes_of_take:
  "runes_of (concat (map snd (take n (runes_of s)))) = take n (runes_of s)"
proof (induction s arbitrary: n rule: runes_of.induct)
  case (2 a s)
  show ?case
  proof (cases n)
    case (Suc m)
    let ?w = "rune_width (a # s)"
    let ?rest = "concat (map snd (take m (runes_of (drop ?w (a # s)))))"
    have IH: "runes_of ?rest = take m (runes_of (drop ?w (a # s)))" by (rule "2.IH")
    show ?thesis
    proof (cases "chunk_ok (take ?w (a # s))")
      case True
      with IH show ?thesis by (simp add: Suc runes_of_chunk first_rune_def)
    next
      case False
      then have w: "?w = 1" by (rule rune_width_invalid)
      have "s = ?rest @ concat (map snd (drop m (runes_of (drop ?w (a # s)))))"
        unfolding concat_append[symmetric] map_append[symmetric] by (simp add: w)
      then have "runes_of (a # ?rest) = (rune_error, [a]) # runes_of ?rest"
        using False by (metis runes_of_invalid_prefix)
      with IH False show ?thesis by (simp add: Suc w first_rune_def)
    qed
  qed simp
qed simp

lemma runes_of_append_ascii:
  assumes "byte c < 0x80"
  shows "runes_of (a @ c # b) = runes_of a @ runes_of (c # b)"
proof (induction a rule: runes_of.induct)
  case (2 x a)
  let ?s = "x # a @ c # b" and ?k = "rune_width (x # a @ c # b)"
  show ?case
  proof (cases "chunk_ok (take ?k ?s)")
    case True
    have "?k \<le> length (x # a)"
    proof (rule ccontr)
      assume "\<not> ?k \<le> length (x # a)"
      then have "take ?k ?s = x # a @ c # take (?k - length (x # a) - 1) b"
        by (cases ?k) (auto simp: take_Cons')
      with True have "is_cont c" using chunk_ok_head[of x "a @ c # take (?k - length (x # a) - 1) b"] by simp
      with assms show False by (simp add: is_cont_def)
    qed
    then have split: "x # a = take ?k ?s @ drop ?k (x # a)" by (metis append_Cons append_take_drop_id diff_is_0_eq' take_0 take_append append_Nil2)
    note w = rune_width_chunk[OF True, of "drop ?k (x # a)"]
    have k: "rune_width (x # a) = ?k"
      using w \<open>?k \<le> length (x # a)\<close> unfolding split[symmetric] by simp
    have "runes_of ?s = (chunk_rune (take ?k ?s), take ?k ?s) # runes_of (drop ?k (x # a) @ c # b)"
      using runes_of_chunk[OF True, of "drop ?k (x # a) @ c # b"] split by (metis append_Cons append_assoc)
    moreover have "runes_of (x # a) = (chunk_rune (take ?k ?s), take ?k ?s) # runes_of (drop ?k (x # a))"
      using runes_of_chunk[OF True, of "drop ?k (x # a)"] split by metis
    ultimately show ?thesis using 2 k by simp
  next
    case False
    then have "?k = 1" by (rule rune_width_invalid)
    with False have "runes_of ?s = (rune_error, [x]) # runes_of (a @ c # b)"
      by (simp add: first_rune_def)
    moreover have err: "runes_of (x # a) = (rune_error, [x]) # runes_of a"
      using runes_of_invalid_prefix[of x a "c # b"] False by simp
    moreover have "rune_width (x # a) = 1"
    proof -
      have "take (rune_width (x # a)) (x # a) = [x]" using err by simp
      then have "length (take (rune_width (x # a)) (x # a)) = 1" by simp
      with rune_width_le[of "x # a"] show ?thesis by simp
    qed
    ultimately show ?thesis using 2 by simp
  qed
qed simp

lemma runes_of_ascii_Cons: "byte c < 0x80 \<Longrightarrow> runes_of (c # s) = (byte c, [c]) # runes_of s"
  using runes_of_chunk[of "[c]" s] by simp

lemma runes_of_ascii: "list_all (\<lambda>c. byte c < 0x80) s \<Longrightarrow> map fst (runes_of s) = map byte s"
  by (induction s) (simp_all add: runes_of_ascii_Cons del: runes_of.simps(2))

lemma chunk_rune_ascii: "chunk_ok c \<Longrightarrow> chunk_rune c < 0x80 \<Longrightarrow> \<exists>x. c = [x] \<and> byte x = chunk_rune c"
  by (cases c rule: chunk_ok.cases) (auto simp: utf8_ranges)

lemma ascii_rune_byte: "(r, bs) \<in> set (runes_of s) \<Longrightarrow> r < 0x80 \<Longrightarrow> \<exists>x \<in> set s. byte x = r"
proof (induction s rule: runes_of.induct)
  case (2 a s)
  consider "r = first_rune (a # s)" | "(r, bs) \<in> set (runes_of (drop (rune_width (a # s)) (a # s)))"
    using "2.prems"(1) by auto
  then show ?case
  proof cases
    case 1
    then have ok: "chunk_ok (take (rune_width (a # s)) (a # s))"
      and r: "r = chunk_rune (take (rune_width (a # s)) (a # s))"
      using "2.prems"(2) by (auto simp: first_rune_def Let_def rune_error_def split: if_splits)
    from chunk_rune_ascii[OF ok] r "2.prems"(2) obtain x where
      "take (rune_width (a # s)) (a # s) = [x]" "byte x = r" by auto
    then show ?thesis by (metis in_set_takeD list.set_intros(1))
  next
    case 2
    with "2.IH" "2.prems"(2) show ?thesis by (meson in_set_dropD)
  qed
qed simp

lemma runes_prefix_take: "runes_prefix n rs = concat (map snd (take n rs))"
  by (induction n rs rule: runes_prefix.induct) (auto simp: take_Cons')

lemma cut_back_Some:
  "cut_back s low hi = Some p \<longleftrightarrow>
    low < p \<and> p \<le> hi \<and> rune_start (s ! p) \<and> (\<forall>i. p < i \<and> i \<le> hi \<longrightarrow> \<not> rune_start (s ! i))"
  by (induction hi) (auto simp: le_Suc_eq)

lemma cut_back_None:
  "cut_back s low hi = None \<longleftrightarrow> (\<forall>i. low < i \<and> i \<le> hi \<longrightarrow> \<not> rune_start (s ! i))"
  by (induction hi) (auto simp: le_Suc_eq)

text \<open>The boundary at or before a position of a valid string.\<close>

lemma chunk_boundary:
  assumes "list_all chunk_ok cs" "lm < length (concat cs)"
  shows "\<exists>ds es. cs = ds @ es \<and> length (concat ds) \<le> lm \<and> lm - length (concat ds) \<le> 3
    \<and> rune_start (concat cs ! length (concat ds))
    \<and> (\<forall>i. length (concat ds) < i \<and> i \<le> lm \<longrightarrow> \<not> rune_start (concat cs ! i))"
  using assms
proof (induction cs arbitrary: lm)
  case (Cons c cs)
  then obtain a c' where c: "c = a # c'" and ok: "chunk_ok (a # c')" by (cases c) auto
  note head = chunk_ok_head[OF ok] and len = chunk_ok_length[OF ok]
  show ?case
  proof (cases "lm < length c")
    case True
    have "\<not> rune_start (concat (c # cs) ! i)" if "0 < i" "i \<le> lm" for i
      using that True head by (auto simp: c nth_append list_all_length rune_start_def nth_Cons')
    then show ?thesis using True head len
      by (intro exI[of _ "[]"] exI[of _ "c # cs"]) (auto simp: c)
  next
    case False
    then have "lm - length c < length (concat cs)" "list_all chunk_ok cs"
      using Cons.prems by auto
    from Cons.IH[OF this(2,1)] obtain ds es where ds: "cs = ds @ es" "length (concat ds) \<le> lm - length c"
      "lm - length c - length (concat ds) \<le> 3" "rune_start (concat cs ! length (concat ds))"
      "\<And>i. length (concat ds) < i \<Longrightarrow> i \<le> lm - length c \<Longrightarrow> \<not> rune_start (concat cs ! i)"
      by blast
    have "\<not> rune_start (concat (c # cs) ! i)"
      if "length (concat (c # ds)) < i" "i \<le> lm" for i
      using ds(5)[of "i - length c"] that by (auto simp: nth_append)
    then show ?thesis using ds False
      by (intro exI[of _ "c # ds"] exI[of _ es]) (auto simp: nth_append)
  qed
qed simp

lemma Bytes_length: "int (length (Bytes s limit)) \<le> max 0 limit"
proof (cases "limit \<le> 0 \<or> int (length s) \<le> limit")
  case False
  then show ?thesis
    by (auto simp: Bytes_def Let_def cut_back_Some split: option.splits if_splits)
qed (auto simp: Bytes_def)

lemma Bytes_prefix: "prefix (Bytes s limit) s"
  by (auto simp: Bytes_def Let_def take_is_prefix split: option.splits)

lemma Bytes_valid:
  assumes "valid_utf8 s" "0 < limit" "limit < int (length s)"
  obtains ds es where "list_all chunk_ok (ds @ es)" "s = concat (ds @ es)" "Bytes s limit = concat ds"
    "limit - int (length (concat ds)) \<le> 3"
proof -
  from assms(1) obtain cs where cs: "list_all chunk_ok cs" "s = concat cs"
    by (auto simp: valid_utf8_chunks)
  define lm where "lm = nat limit"
  have lm: "lm < length (concat cs)" "int lm = limit" using assms cs by (auto simp: lm_def)
  obtain ds es where ds: "cs = ds @ es" "length (concat ds) \<le> lm" "lm - length (concat ds) \<le> 3"
    "rune_start (concat cs ! length (concat ds))"
    "\<forall>i. length (concat ds) < i \<and> i \<le> lm \<longrightarrow> \<not> rune_start (concat cs ! i)"
    using chunk_boundary[OF cs(1) lm(1)] by blast
  let ?p = "length (concat ds)"
  have take_p: "take ?p s = concat ds" by (simp add: cs ds)
  have "Bytes s limit = concat ds"
  proof (cases "lm - 3 < ?p")
    case True
    then have "cut_back s (lm - 3) lm = Some ?p" using ds by (simp add: cut_back_Some cs)
    with assms take_p show ?thesis by (simp add: Bytes_def lm_def)
  next
    case False
    then have p: "?p = lm - 3" using ds(3) by simp
    then have "cut_back s (lm - 3) lm = None" using ds by (auto simp: cut_back_None cs)
    with assms take_p p ds(4) show ?thesis by (simp add: Bytes_def lm_def cs)
  qed
  moreover have "limit - int ?p \<le> 3" using ds(2,3) lm(2) by linarith
  ultimately show thesis using that cs ds(1) by metis
qed

lemma Bytes_valid_utf8: "valid_utf8 s \<Longrightarrow> valid_utf8 (Bytes s limit)"
proof (cases "0 < limit \<and> limit < int (length s)")
  case True
  assume "valid_utf8 s"
  with True show ?thesis using Bytes_valid[of s limit] by (metis list_all_append valid_utf8_chunks)
qed (auto simp: Bytes_def)

lemma ellipsis_mark_ok [simp]: "chunk_ok ellipsis_mark" "length ellipsis_mark = 3"
  by (simp_all add: ellipsis_mark_def utf8_ranges byte_def)

lemma valid_ellipsis_mark [simp]: "valid_utf8 ellipsis_mark"
  using ellipsis_mark_ok(1) unfolding valid_utf8_chunks
  by (intro exI[of _ "[ellipsis_mark]"]) simp


section \<open>Properties\<close>

text \<open>\<^verbatim>\<open>textbound.Bytes\<close> is a bounded prefix that never splits a
  character and never empties its input: the result is a prefix of the input of
  at most the limit, all of it when it fits, valid UTF-8 whenever the input is,
  and in every case at most three bytes shorter than the limit (or the input).\<close>

theorem Bytes_spec:
  assumes "0 \<le> limit"
  shows "prefix (Bytes s limit) s
    \<and> int (length (Bytes s limit)) \<le> limit
    \<and> min limit (int (length s)) - 3 \<le> int (length (Bytes s limit))
    \<and> (int (length s) \<le> limit \<longrightarrow> Bytes s limit = s)
    \<and> (valid_utf8 s \<longrightarrow> valid_utf8 (Bytes s limit))"
proof -
  have "min limit (int (length s)) - 3 \<le> int (length (Bytes s limit))"
    using assms by (auto simp: Bytes_def Let_def cut_back_Some split: option.splits)
  moreover have "Bytes s limit = s" if "int (length s) \<le> limit"
    using that assms by (cases "limit = 0") (auto simp: Bytes_def)
  ultimately show ?thesis
    using assms Bytes_prefix[of s limit] Bytes_length[of s limit] Bytes_valid_utf8[of s limit]
    by auto
qed

lemma sample_valid: "valid_utf8 (''ab'' @ ellipsis_mark @ ''c'')"
  unfolding valid_utf8_chunks
  by (intro exI[of _ "[''a'', ''b'', ellipsis_mark, ''c'']"]) (simp add: byte_def)

theorem Bytes_spec_witness:
  "Bytes (''ab'' @ ellipsis_mark @ ''c'') 4 = ''ab''
   \<and> valid_utf8 (Bytes (''ab'' @ ellipsis_mark @ ''c'') 4)"
proof
  show "Bytes (''ab'' @ ellipsis_mark @ ''c'') 4 = ''ab''" by code_simp
  show "valid_utf8 (Bytes (''ab'' @ ellipsis_mark @ ''c'') 4)"
    using Bytes_spec[of 4 "''ab'' @ ellipsis_mark @ ''c''"] sample_valid by simp
qed

text \<open>\<^verbatim>\<open>textbound.Runes\<close> keeps exactly the first \<open>limit\<close> runes of any
  byte string, and \<^verbatim>\<open>textbound.Ellipsis\<close> keeps its result, mark included,
  within the byte limit and valid whenever the input is.\<close>

theorem Runes_and_Ellipsis_spec:
  "runes_of (Runes s limit) = take (nat limit) (runes_of s)
   \<and> int (length (Ellipsis s limit)) \<le> max 0 limit
   \<and> (if valid_utf8 s then valid_utf8 (Ellipsis s limit) else True)"
proof -
  have "runes_of (Runes s limit) = take (nat limit) (runes_of s)"
    by (auto simp: Runes_def runes_prefix_take runes_of_take)
  moreover have "int (length (Ellipsis s limit)) \<le> max 0 limit"
    using Bytes_length[of s limit] Bytes_length[of s "limit - 3"] by (auto simp: Ellipsis_def)
  moreover have "valid_utf8 s \<Longrightarrow> valid_utf8 (Ellipsis s limit)"
    by (simp add: Ellipsis_def Bytes_valid_utf8 valid_utf8_append)
  ultimately show ?thesis by simp
qed

end
