(* ===== verification/Go_Maps.thy ===== *)
theory Go_Maps
  imports Prelude "HOL-Library.AList" "HOL-Library.Multiset"
begin

text \<open>
  Go maps as association lists with distinct keys.  The list order stands for
  the unspecified iteration order of a \<^verbatim>\<open>range\<close> loop; every theorem about
  a map is stated through \<^const>\<open>map_of\<close>, so it does not depend on that order.
\<close>

type_synonym ('k, 'v) gomap = "('k \<times> 'v) list"

abbreviation mget :: "('k, 'v) gomap \<Rightarrow> 'k \<Rightarrow> 'v option" where
  "mget m k \<equiv> map_of m k"

abbreviation mput :: "'k \<Rightarrow> 'v \<Rightarrow> ('k, 'v) gomap \<Rightarrow> ('k, 'v) gomap" where
  "mput k v m \<equiv> AList.update k v m"

abbreviation mdel :: "'k \<Rightarrow> ('k, 'v) gomap \<Rightarrow> ('k, 'v) gomap" where
  "mdel k m \<equiv> AList.delete k m"

abbreviation mkeys :: "('k, 'v) gomap \<Rightarrow> 'k list" where
  "mkeys m \<equiv> map fst m"

text \<open>Reading a missing key gives the zero value.\<close>

definition mget0 :: "'v \<Rightarrow> ('k, 'v) gomap \<Rightarrow> 'k \<Rightarrow> 'v" where
  "mget0 z m k = (case mget m k of None \<Rightarrow> z | Some v \<Rightarrow> v)"

text \<open>The loop \<^verbatim>\<open>for k, v := range src { dst[k] = v }\<close>.\<close>

definition mcopy :: "('k, 'v) gomap \<Rightarrow> ('k, 'v) gomap \<Rightarrow> ('k, 'v) gomap" where
  "mcopy src dst = fold (\<lambda>(k, v). mput k v) src dst"

text \<open>A loop over items that stores at most one value per item.\<close>

definition put_opt :: "('a \<Rightarrow> 'k) \<Rightarrow> ('a \<Rightarrow> 'v option) \<Rightarrow> 'a \<Rightarrow> ('k, 'v) gomap \<Rightarrow> ('k, 'v) gomap" where
  "put_opt key val it m = (case val it of None \<Rightarrow> m | Some v \<Rightarrow> mput (key it) v m)"

definition wf_map :: "('k, 'v) gomap \<Rightarrow> bool" where
  "wf_map m \<longleftrightarrow> distinct (mkeys m)"

lemma map_of_mput [simp]: "mget (mput k v m) k' = (if k' = k then Some v else mget m k')"
  by (simp add: update_conv')

lemma map_of_mdel [simp]: "mget (mdel k m) k' = (if k' = k then None else mget m k')"
  by (simp add: delete_conv')

lemma mget0_mput [simp]: "mget0 z (mput k v m) x = (if x = k then v else mget0 z m x)"
  by (simp add: mget0_def)

lemma wf_map_Nil [simp]: "wf_map []"
  by (simp add: wf_map_def)

lemma wf_map_mput [simp]: "wf_map m \<Longrightarrow> wf_map (mput k v m)"
  by (simp add: wf_map_def distinct_update)

lemma wf_map_mdel [simp]: "wf_map m \<Longrightarrow> wf_map (mdel k m)"
  by (simp add: wf_map_def distinct_delete)

lemma wf_map_mcopy [simp]: "wf_map m \<Longrightarrow> wf_map (mcopy s m)"
  unfolding mcopy_def by (induction s arbitrary: m) auto

lemma wf_map_put_opt [simp]: "wf_map m \<Longrightarrow> wf_map (put_opt key val it m)"
  by (simp add: put_opt_def split: option.splits)

lemma wf_map_fold:
  "(\<And>x m. wf_map m \<Longrightarrow> wf_map (f x m)) \<Longrightarrow> wf_map m \<Longrightarrow> wf_map (fold f xs m)"
  by (induction xs arbitrary: m) auto

lemma mput_subset: "set (mput k v m) \<subseteq> insert (k, v) (set m)"
  by (induction m) auto

lemma mget_set: "wf_map m \<Longrightarrow> mget m k = Some v \<longleftrightarrow> (k, v) \<in> set m"
  by (auto simp: wf_map_def dest: map_of_SomeD)

lemma mget_Some_key: "mget m k = Some v \<Longrightarrow> k \<in> set (mkeys m)"
  by (metis map_of_SomeD fst_conv image_eqI set_map)

lemma mget_None_iff: "mget m k = None \<longleftrightarrow> k \<notin> set (mkeys m)"
  by (simp add: map_of_eq_None_iff)

lemma map_of_mcopy: "wf_map s \<Longrightarrow> mget (mcopy s m) k = (case mget s k of None \<Rightarrow> mget m k | Some v \<Rightarrow> Some v)"
proof (induction s arbitrary: m)
  case (Cons p s)
  obtain a v where p: "p = (a, v)" by force
  from Cons.prems have "wf_map s" "mget s a = None"
    by (auto simp: wf_map_def p mget_None_iff)
  with Cons.IH[of "mput a v m"] show ?case
    by (auto simp: mcopy_def p split: option.splits)
qed (simp add: mcopy_def)

lemma mcopy_Nil [simp]: "wf_map s \<Longrightarrow> mget (mcopy s []) k = mget s k"
  by (simp add: map_of_mcopy split: option.splits)

lemma mget_put_opt [simp]:
  "mget (put_opt key val it m) k =
    (if k = key it then (case val it of None \<Rightarrow> mget m k | Some v \<Rightarrow> Some v) else mget m k)"
  by (simp add: put_opt_def split: option.splits)

lemma fold_put_opt_other:
  "k \<notin> key ` set its \<Longrightarrow> mget (fold (put_opt key val) its m) k = mget m k"
  by (induction its arbitrary: m) auto

lemma fold_put_opt_hit:
  assumes "distinct (map key its)" "it \<in> set its"
  shows "mget (fold (put_opt key val) its m) (key it) =
    (case val it of None \<Rightarrow> mget m (key it) | Some v \<Rightarrow> Some v)"
  using assms
proof (induction its arbitrary: m)
  case (Cons x its)
  show ?case
  proof (cases "x = it")
    case True
    with Cons.prems have "key it \<notin> key ` set its" by auto
    with True show ?thesis by (simp add: fold_put_opt_other)
  next
    case False
    with Cons.prems have "key x \<noteq> key it" "it \<in> set its" "distinct (map key its)" by auto
    with Cons.IH[of "put_opt key val x m"] show ?thesis by (auto split: option.splits)
  qed
qed simp

lemma wf_fold_put_opt [simp]: "wf_map m \<Longrightarrow> wf_map (fold (put_opt key val) its m)"
  by (rule wf_map_fold) simp_all

text \<open>Copying what a worker stored privately is storing it directly.\<close>

lemma mget_fold_put_opt_cong:
  "(\<And>k. mget m k = mget m' k) \<Longrightarrow>
    mget (fold (put_opt key val) its m) k = mget (fold (put_opt key val) its m') k"
proof (induction its arbitrary: m m')
  case (Cons it its)
  have "mget (put_opt key val it m) j = mget (put_opt key val it m') j" for j
    using Cons.prems by (simp split: option.splits)
  from Cons.IH[OF this] show ?case by simp
qed simp

lemma mget_mcopy_fold_put_opt:
  "mget (mcopy (fold (put_opt key val) its []) m) k = mget (fold (put_opt key val) its m) k"
proof (induction its arbitrary: k rule: rev_induct)
  case (snoc it its)
  note IH = snoc.IH[symmetric]
  show ?case by (simp add: map_of_mcopy IH split: option.splits)
qed (simp add: mcopy_def)

lemma fold_mcopy_parts:
  "mget (fold (\<lambda>p m. mcopy (fold (put_opt key val) p []) m) parts m) k =
    mget (fold (put_opt key val) (concat parts) m) k"
proof (induction parts arbitrary: m)
  case (Cons p parts)
  have "mget (mcopy (fold (put_opt key val) p []) m) j = mget (fold (put_opt key val) p m) j" for j
    by (rule mget_mcopy_fold_put_opt)
  from mget_fold_put_opt_cong[of _ _ key val "concat parts" k, OF this] Cons.IH
  show ?case by simp
qed simp

lemma fold_put_opt_mset:
  assumes "distinct (map key its)" "mset its' = mset its"
  shows "mget (fold (put_opt key val) its' m) k = mget (fold (put_opt key val) its m) k"
proof -
  have "set its' = set its" using assms(2) by (rule mset_eq_setD)
  moreover have "distinct (map key its')"
    using assms by (metis mset_eq_imp_distinct_iff mset_map)
  ultimately show ?thesis
    using assms(1) by (cases "k \<in> key ` set its") (auto simp: fold_put_opt_hit fold_put_opt_other)
qed


section \<open>Two-level maps\<close>

definition mget2 :: "('a, ('b, 'v) gomap) gomap \<Rightarrow> 'a \<Rightarrow> 'b \<Rightarrow> 'v option" where
  "mget2 m a b = (case mget m a of None \<Rightarrow> None | Some n \<Rightarrow> mget n b)"

definition mput2 :: "'a \<Rightarrow> 'b \<Rightarrow> 'v \<Rightarrow> ('a, ('b, 'v) gomap) gomap \<Rightarrow> ('a, ('b, 'v) gomap) gomap" where
  "mput2 a b v m = mput a (mput b v (mget0 [] m a)) m"

lemma mget2_mput2 [simp]:
  "mget2 (mput2 a b v m) x y = (if x = a \<and> y = b then Some v else mget2 m x y)"
  by (auto simp: mget2_def mput2_def mget0_def split: option.splits)

lemma mget2_Nil [simp]: "mget2 [] a b = None"
  by (simp add: mget2_def)

end
