(* ===== verification/Crawl_Index.thy ===== *)
theory Crawl_Index
  imports Go_Maps Text_Bound
begin

text \<open>
  The in-memory code index of \<^verbatim>\<open>services/brain/internal/codecrawl\<close>: the
  tokenizer, the per-worker local index, the merge into the shared index, the
  directory walk, the full crawl \<^verbatim>\<open>CrawlDir\<close> and the incremental crawl
  \<^verbatim>\<open>CrawlDeltaFrom\<close>.

  The operating system is an argument (\<open>osenv\<close>): the directory tree that
  \<^verbatim>\<open>filepath.Walk\<close> sees, the results of \<^verbatim>\<open>os.Stat\<close> and
  \<^verbatim>\<open>os.ReadFile\<close> by relative path, and the loaded ignore rules.  The
  Unicode tables, SHA-256, the symbol and the edge extractors are the argument
  \<open>extractor\<close>.  The distribution of the work channel over the goroutines is the
  argument \<open>sched\<close>; the results are proved for every distribution.
\<close>

section \<open>Data\<close>

record FileStamp =
  Size :: int
  MtimeNs :: int

definition StampEqual :: "FileStamp \<Rightarrow> FileStamp \<Rightarrow> bool" where
  "StampEqual a b \<longleftrightarrow> Size a = Size b \<and> MtimeNs a = MtimeNs b \<and> Size a > 0"

record Provenance =
  prov_file :: string
  prov_line :: int
  prov_column :: int
  prov_parser :: string
  prov_snippet :: string
  prov_language :: string

record Edge =
  edge_from :: string
  edge_to :: string
  edge_kind :: string
  edge_authority :: string
  edge_confidence :: rat
  edge_provenance :: Provenance
  edge_target :: string

record SymbolGraph =
  sg_defs :: "(string, string list) gomap"
  sg_refs :: "(string, string list) gomap"
  sg_imports :: "(string, string list) gomap"

record Index =
  ix_inverted :: "(string, (string, nat) gomap) gomap"
  ix_files :: "string list"
  ix_symbols :: SymbolGraph
  ix_postings :: "(string, (string, nat) gomap) gomap"
  ix_defs :: "(string, string list) gomap"
  ix_refs :: "(string, string list) gomap"
  ix_imps :: "(string, string list) gomap"
  ix_hashes :: "(string, string) gomap"
  ix_stamps :: "(string, FileStamp) gomap"
  ix_edges :: "(string, Edge list) gomap"

record Stats =
  st_FilesIndexed :: nat
  st_BytesRead :: nat
  st_Workers :: int
  st_Duration :: int
  st_Errors :: nat
  st_Changed :: nat
  st_Unchanged :: nat
  st_SkippedByStamp :: nat
  st_Hashed :: nat
  st_QueueDepth :: nat
  st_RetryCount :: nat
  st_FullRescan :: bool

definition zero_stats :: Stats where
  "zero_stats = \<lparr>st_FilesIndexed = 0, st_BytesRead = 0, st_Workers = 0, st_Duration = 0,
     st_Errors = 0, st_Changed = 0, st_Unchanged = 0, st_SkippedByStamp = 0, st_Hashed = 0,
     st_QueueDepth = 0, st_RetryCount = 0, st_FullRescan = False\<rparr>"

record extractor =
  ex_lower :: "string \<Rightarrow> string"
  ex_word :: "nat \<Rightarrow> bool"
  ex_symbols :: "string \<Rightarrow> string \<Rightarrow> string list \<times> string list \<times> string list"
  ex_edges :: "string \<Rightarrow> string \<Rightarrow> Edge list"
  ex_hash :: "string \<Rightarrow> string"


section \<open>The symbol graph\<close>

definition newSymbolGraph :: SymbolGraph where
  "newSymbolGraph = \<lparr>sg_defs = [], sg_refs = [], sg_imports = []\<rparr>"

definition appendUniqueStr :: "string list \<Rightarrow> string \<Rightarrow> string list" where
  "appendUniqueStr xs v = (if v \<in> set xs then xs else xs @ [v])"

definition addDef :: "string \<Rightarrow> string \<Rightarrow> SymbolGraph \<Rightarrow> SymbolGraph" where
  "addDef name file g =
    (if name = [] \<or> file = [] then g
     else g\<lparr>sg_defs := mput name (appendUniqueStr (mget0 [] (sg_defs g) name) file) (sg_defs g)\<rparr>)"

definition addRef :: "string \<Rightarrow> string \<Rightarrow> SymbolGraph \<Rightarrow> SymbolGraph" where
  "addRef name file g =
    (if name = [] \<or> file = [] then g
     else g\<lparr>sg_refs := mput name (appendUniqueStr (mget0 [] (sg_refs g) name) file) (sg_refs g)\<rparr>)"

definition addImport :: "string \<Rightarrow> string \<Rightarrow> SymbolGraph \<Rightarrow> SymbolGraph" where
  "addImport file path g =
    (if file = [] \<or> path = [] then g
     else g\<lparr>sg_imports := mput file (appendUniqueStr (mget0 [] (sg_imports g) file) path) (sg_imports g)\<rparr>)"


section \<open>Tokens\<close>

text \<open>\<^verbatim>\<open>strings.FieldsFunc\<close>: maximal runs of runes that are not separators.\<close>

fun fields_func :: "(nat \<Rightarrow> bool) \<Rightarrow> (nat \<times> string) list \<Rightarrow> string \<Rightarrow> string list" where
  "fields_func sep [] cur = (if cur = [] then [] else [cur])"
| "fields_func sep ((r, bs) # rs) cur =
    (if sep r then (if cur = [] then [] else [cur]) @ fields_func sep rs []
     else fields_func sep rs (cur @ bs))"

definition tokenize :: "extractor \<Rightarrow> string \<Rightarrow> string list" where
  "tokenize ex s =
    filter (\<lambda>f. f \<noteq> []) (fields_func (\<lambda>r. \<not> ex_word ex r) (runes_of (ex_lower ex s)) [])"

definition tokenFreq :: "extractor \<Rightarrow> string \<Rightarrow> (string, nat) gomap" where
  "tokenFreq ex s = fold (\<lambda>t freq. mput t (mget0 0 freq t + 1) freq) (tokenize ex s) []"


section \<open>The local index of one worker\<close>

record localIndex =
  li_inverted :: "(string, (string, nat) gomap) gomap"
  li_files :: "string list"
  li_bytesRd :: nat
  li_filePost :: "(string, (string, nat) gomap) gomap"
  li_fileDefs :: "(string, string list) gomap"
  li_fileRefs :: "(string, string list) gomap"
  li_fileImps :: "(string, string list) gomap"
  li_fileEdges :: "(string, Edge list) gomap"
  li_hashes :: "(string, string) gomap"
  li_stamps :: "(string, FileStamp) gomap"

definition newLocalIndex :: localIndex where
  "newLocalIndex = \<lparr>li_inverted = [], li_files = [], li_bytesRd = 0, li_filePost = [],
     li_fileDefs = [], li_fileRefs = [], li_fileImps = [], li_fileEdges = [],
     li_hashes = [], li_stamps = []\<rparr>"

definition bump :: "string \<Rightarrow> string \<Rightarrow> nat \<Rightarrow> (string, (string, nat) gomap) gomap
    \<Rightarrow> (string, (string, nat) gomap) gomap" where
  "bump tok rel n m = mput2 tok rel (mget0 0 (mget0 [] m tok) rel + n) m"

definition put_nonempty :: "string \<Rightarrow> 'a list \<Rightarrow> (string, 'a list) gomap \<Rightarrow> (string, 'a list) gomap" where
  "put_nonempty k xs m = (if xs = [] then m else mput k xs m)"

definition li_add :: "extractor \<Rightarrow> string \<Rightarrow> string \<Rightarrow> localIndex \<Rightarrow> localIndex" where
  "li_add ex rel body l =
    (let freq = tokenFreq ex body;
         (defs, refs, imps) = ex_symbols ex rel body
     in l\<lparr>li_bytesRd := li_bytesRd l + length body,
          li_files := appendUniqueStr (li_files l) rel,
          li_inverted := fold (\<lambda>(tok, n). bump tok rel n) freq (li_inverted l),
          li_filePost := mput rel (mcopy freq []) (li_filePost l),
          li_fileDefs := put_nonempty rel defs (li_fileDefs l),
          li_fileRefs := put_nonempty rel refs (li_fileRefs l),
          li_fileImps := put_nonempty rel imps (li_fileImps l),
          li_fileEdges := put_nonempty rel (ex_edges ex rel body) (li_fileEdges l)\<rparr>)"

text \<open>The critical section that follows \<^verbatim>\<open>loc.add\<close> in both crawls.\<close>

definition li_note :: "string \<Rightarrow> string \<Rightarrow> FileStamp \<Rightarrow> localIndex \<Rightarrow> localIndex" where
  "li_note rel hash stamp l =
    l\<lparr>li_hashes := mput rel hash (li_hashes l), li_stamps := mput rel stamp (li_stamps l)\<rparr>"

definition merge_symbols :: "localIndex \<Rightarrow> SymbolGraph \<Rightarrow> SymbolGraph" where
  "merge_symbols l g =
    fold (\<lambda>(file, imps). fold (\<lambda>p. addImport file p) imps) (li_fileImps l)
     (fold (\<lambda>(file, refs). fold (\<lambda>r. addRef r file) refs) (li_fileRefs l)
       (fold (\<lambda>(file, defs). fold (\<lambda>d. addDef d file) defs) (li_fileDefs l) g))"

definition mergeInto :: "localIndex \<Rightarrow> Index \<Rightarrow> Index" where
  "mergeInto l idx =
    idx\<lparr>ix_files := fold (\<lambda>p fs. appendUniqueStr fs p) (li_files l) (ix_files idx),
        ix_inverted := fold (\<lambda>(tok, postings). fold (\<lambda>(path, n). bump tok path n) postings)
                         (li_inverted l) (ix_inverted idx),
        ix_postings := mcopy (li_filePost l) (ix_postings idx),
        ix_defs := mcopy (li_fileDefs l) (ix_defs idx),
        ix_refs := mcopy (li_fileRefs l) (ix_refs idx),
        ix_imps := mcopy (li_fileImps l) (ix_imps idx),
        ix_symbols := merge_symbols l (ix_symbols idx),
        ix_edges := mcopy (li_fileEdges l) (ix_edges idx),
        ix_hashes := mcopy (li_hashes l) (ix_hashes idx),
        ix_stamps := mcopy (li_stamps l) (ix_stamps idx)\<rparr>"


section \<open>Whole-index operations\<close>

definition newEmptyIndex :: Index where
  "newEmptyIndex = \<lparr>ix_inverted = [], ix_files = [], ix_symbols = newSymbolGraph, ix_postings = [],
     ix_defs = [], ix_refs = [], ix_imps = [], ix_hashes = [], ix_stamps = [], ix_edges = []\<rparr>"

definition copy_entry :: "string \<Rightarrow> (string, 'v) gomap \<Rightarrow> (string, 'v) gomap \<Rightarrow> (string, 'v) gomap" where
  "copy_entry rel src dst = (case mget src rel of None \<Rightarrow> dst | Some v \<Rightarrow> mput rel v dst)"

definition copyFileFrom :: "Index \<Rightarrow> string \<Rightarrow> string \<Rightarrow> FileStamp \<Rightarrow> Index \<Rightarrow> Index" where
  "copyFileFrom prev rel hash stamp dst =
    (if rel = [] then dst
     else dst\<lparr>ix_files := appendUniqueStr (ix_files dst) rel,
          ix_hashes := mput rel (if hash \<noteq> [] then hash else mget0 [] (ix_hashes prev) rel) (ix_hashes dst),
          ix_stamps := mput rel (if Size stamp > 0 then stamp
                                 else mget0 \<lparr>Size = 0, MtimeNs = 0\<rparr> (ix_stamps prev) rel) (ix_stamps dst),
          ix_postings := copy_entry rel (ix_postings prev) (ix_postings dst),
          ix_defs := copy_entry rel (ix_defs prev) (ix_defs dst),
          ix_refs := copy_entry rel (ix_refs prev) (ix_refs dst),
          ix_imps := copy_entry rel (ix_imps prev) (ix_imps dst),
          ix_edges := copy_entry rel (ix_edges prev) (ix_edges dst)\<rparr>)"

definition cloneIndexShallow :: "Index \<Rightarrow> Index" where
  "cloneIndexShallow prev =
    newEmptyIndex\<lparr>ix_postings := mcopy (ix_postings prev) [],
        ix_files := fold (\<lambda>p fs. appendUniqueStr fs p) (mkeys (ix_postings prev)) [],
        ix_defs := mcopy (ix_defs prev) [],
        ix_refs := mcopy (ix_refs prev) [],
        ix_imps := mcopy (ix_imps prev) [],
        ix_hashes := mcopy (ix_hashes prev) [],
        ix_stamps := mcopy (ix_stamps prev) [],
        ix_edges := mcopy (ix_edges prev) []\<rparr>"

definition drop_path :: "string \<Rightarrow> Index \<Rightarrow> Index" where
  "drop_path path idx =
    idx\<lparr>ix_files := removeAll path (ix_files idx),
        ix_postings := mdel path (ix_postings idx),
        ix_defs := mdel path (ix_defs idx),
        ix_refs := mdel path (ix_refs idx),
        ix_imps := mdel path (ix_imps idx),
        ix_hashes := mdel path (ix_hashes idx),
        ix_stamps := mdel path (ix_stamps idx),
        ix_edges := mdel path (ix_edges idx)\<rparr>"

definition pruneDeleted :: "string list \<Rightarrow> Index \<Rightarrow> Index" where
  "pruneDeleted live idx =
    fold (\<lambda>path i. if path \<in> set live then i else drop_path path i) (ix_files idx) idx"

definition both_cases :: "(string \<Rightarrow> string) \<Rightarrow> (string \<Rightarrow> SymbolGraph \<Rightarrow> SymbolGraph) \<Rightarrow> string
    \<Rightarrow> SymbolGraph \<Rightarrow> SymbolGraph" where
  "both_cases lower add d g = (if lower d \<noteq> d then add (lower d) (add d g) else add d g)"

definition rebuild_symbols :: "(string \<Rightarrow> string) \<Rightarrow> Index \<Rightarrow> SymbolGraph" where
  "rebuild_symbols lower idx =
    fold (\<lambda>(file, imps). fold (\<lambda>p. addImport file p) imps) (ix_imps idx)
     (fold (\<lambda>(file, refs). fold (both_cases lower (\<lambda>r. addRef r file)) refs) (ix_refs idx)
       (fold (\<lambda>(file, defs). fold (both_cases lower (\<lambda>d. addDef d file)) defs) (ix_defs idx)
         newSymbolGraph))"

definition rebuildGlobalFromFiles :: "(string \<Rightarrow> string) \<Rightarrow> Index \<Rightarrow> Index" where
  "rebuildGlobalFromFiles lower idx =
    idx\<lparr>ix_files := fold (\<lambda>p fs. appendUniqueStr fs p) (mkeys (ix_postings idx)) (ix_files idx),
        ix_inverted := fold (\<lambda>(path, fp). fold (\<lambda>(tok, n). mput2 tok path n) fp) (ix_postings idx) [],
        ix_symbols := rebuild_symbols lower idx\<rparr>"


section \<open>The file system\<close>

record file_info =
  fi_regular :: bool
  fi_size :: int
  fi_mtime :: int

datatype node = File file_info | Dir "(string \<times> node) list" | Unreadable

record osenv =
  os_tree :: node
  os_stat :: "string \<Rightarrow> file_info option"
  os_read :: "string \<Rightarrow> string option"
  os_ignores :: "string + (string \<Rightarrow> bool \<Rightarrow> bool)"
  os_name :: string
    \<comment> \<open>the base name of the root directory\<close>

definition extOK :: "string list" where
  "extOK = [''.go'', ''.md'', ''.py'', ''.ts'', ''.tsx'', ''.js'', ''.rs'']"

definition MaxIndexableFileBytes :: int where
  "MaxIndexableFileBytes = 4 * 2 ^ 20"

definition MaxIndexableFiles :: nat where
  "MaxIndexableFiles = 200000"

definition maxWorkers :: int where
  "maxWorkers = 256"

definition normalizeWorkers :: "int \<Rightarrow> int" where
  "normalizeWorkers workers =
    (if workers < 1 then 1 else if workers > maxWorkers then maxWorkers else workers)"

definition indexableFile :: "file_info \<Rightarrow> bool" where
  "indexableFile info \<longleftrightarrow> fi_regular info \<and> fi_size info \<le> MaxIndexableFileBytes"

definition stamp_of :: "file_info \<Rightarrow> FileStamp" where
  "stamp_of info = \<lparr>Size = fi_size info, MtimeNs = fi_mtime info\<rparr>"

definition child_path :: "string \<Rightarrow> string \<Rightarrow> string" where
  "child_path rel name = (if rel = ''.'' then name else rel @ ''/'' @ name)"

text \<open>\<^verbatim>\<open>filepath.Walk\<close> with the visitor the crawls share: skip ignored
  directories whole, drop ignored and unreadable entries, keep the files that
  \<open>keep\<close> accepts; \<open>skip\<close> is the extra directory-name filter of the stamp census.\<close>

fun walk :: "(string \<Rightarrow> bool \<Rightarrow> bool) \<Rightarrow> (string \<Rightarrow> bool) \<Rightarrow> (string \<Rightarrow> file_info \<Rightarrow> bool)
    \<Rightarrow> string \<Rightarrow> string \<Rightarrow> node \<Rightarrow> (string \<times> file_info) list" where
  "walk ignored skip keep name rel (File info) =
    (if ignored rel False then [] else if keep rel info then [(rel, info)] else [])"
| "walk ignored skip keep name rel (Dir ents) =
    (if ignored rel True \<or> skip name then []
     else concat (map (\<lambda>(n, c). walk ignored skip keep n (child_path rel n) c) ents))"
| "walk ignored skip keep name rel Unreadable = []"

definition crawl_keep :: "extractor \<Rightarrow> string \<Rightarrow> file_info \<Rightarrow> bool" where
  "crawl_keep ex rel info \<longleftrightarrow> indexableFile info \<and> ex_lower ex (path_ext rel) \<in> set extOK"

definition crawl_paths :: "extractor \<Rightarrow> osenv \<Rightarrow> (string \<Rightarrow> bool \<Rightarrow> bool) \<Rightarrow> string list" where
  "crawl_paths ex os ignored =
    map fst (walk ignored (\<lambda>_. False) (crawl_keep ex) (os_name os) ''.'' (os_tree os))"


section \<open>The full crawl\<close>

text \<open>The body of the worker loop of \<^verbatim>\<open>CrawlDir\<close>; the second component
  counts the files that could not be read.\<close>

definition dir_item :: "extractor \<Rightarrow> osenv \<Rightarrow> string \<Rightarrow> localIndex \<times> nat \<Rightarrow> localIndex \<times> nat" where
  "dir_item ex os path s =
    (case os_stat os path of
       None \<Rightarrow> (fst s, snd s + 1)
     | Some info \<Rightarrow>
         if \<not> indexableFile info then (fst s, snd s + 1)
         else (case os_read os path of
                 None \<Rightarrow> (fst s, snd s + 1)
               | Some raw \<Rightarrow>
                   (li_note path (ex_hash ex raw) (stamp_of info) (li_add ex path raw (fst s)), snd s)))"

definition CrawlDir :: "extractor \<Rightarrow> osenv \<Rightarrow> (string list \<Rightarrow> string list list) \<Rightarrow> int \<Rightarrow> int
    \<Rightarrow> string + Index \<times> Stats" where
  "CrawlDir ex os sched workers0 dur =
    (let workers = normalizeWorkers workers0
     in case os_ignores os of
          Inl err \<Rightarrow> Inl err
        | Inr ignored \<Rightarrow>
            (let paths = take MaxIndexableFiles (crawl_paths ex os ignored);
                 results = map (\<lambda>part. fold (dir_item ex os) part (newLocalIndex, 0)) (sched paths);
                 locals = map fst results
             in Inr (fold mergeInto locals newEmptyIndex,
                     zero_stats\<lparr>st_FilesIndexed := length paths,
                       st_BytesRead := sum_list (map li_bytesRd locals),
                       st_Workers := workers, st_Duration := dur,
                       st_Errors := sum_list (map snd results)\<rparr>)))"


section \<open>The incremental crawl\<close>

record workItem =
  wi_rel :: string
  wi_raw :: string
  wi_hash :: string
  wi_stamp :: FileStamp
  wi_reuse :: bool
  wi_bodyRead :: bool

definition stamp_hit :: "Index option \<Rightarrow> string \<Rightarrow> FileStamp \<Rightarrow> bool" where
  "stamp_hit prev rel stamp =
    (case prev of
       None \<Rightarrow> False
     | Some p \<Rightarrow>
         (case mget (ix_stamps p) rel of
            None \<Rightarrow> False
          | Some old \<Rightarrow> StampEqual old stamp \<and> mget (ix_postings p) rel \<noteq> None))"

definition hash_hit :: "Index option \<Rightarrow> (string, string) gomap option \<Rightarrow> string \<Rightarrow> string \<Rightarrow> bool" where
  "hash_hit prev prevHashes rel h =
    (case (prev, prevHashes) of
       (Some p, Some hs) \<Rightarrow> mget hs rel = Some h \<and> mget (ix_postings p) rel \<noteq> None
     | _ \<Rightarrow> False)"

text \<open>One iteration of the scan loop: \<open>None\<close> is a counted error.\<close>

definition scan_item :: "extractor \<Rightarrow> osenv \<Rightarrow> Index option \<Rightarrow> (string, string) gomap option
    \<Rightarrow> string \<Rightarrow> workItem option" where
  "scan_item ex os prev prevHashes rel =
    (case os_stat os rel of
       None \<Rightarrow> None
     | Some info \<Rightarrow>
         (let stamp = stamp_of info
          in if stamp_hit prev rel stamp
             then Some \<lparr>wi_rel = rel, wi_raw = [],
                    wi_hash = (case prev of None \<Rightarrow> [] | Some p \<Rightarrow> mget0 [] (ix_hashes p) rel),
                    wi_stamp = stamp, wi_reuse = True, wi_bodyRead = False\<rparr>
             else (case os_read os rel of
                     None \<Rightarrow> None
                   | Some raw \<Rightarrow>
                       (let h = ex_hash ex raw
                        in Some \<lparr>wi_rel = rel, wi_raw = raw, wi_hash = h, wi_stamp = stamp,
                             wi_reuse = hash_hit prev prevHashes rel h, wi_bodyRead = True\<rparr>))))"

definition delta_stats :: "int \<Rightarrow> int \<Rightarrow> nat \<Rightarrow> nat \<Rightarrow> workItem list \<Rightarrow> Stats" where
  "delta_stats workers dur bytes errs items =
    zero_stats\<lparr>st_FilesIndexed := length items, st_BytesRead := bytes, st_Workers := workers,
      st_Duration := dur, st_Errors := errs,
      st_Changed := length (filter (\<lambda>it. \<not> wi_reuse it) items),
      st_Unchanged := length (filter wi_reuse items),
      st_SkippedByStamp := length (filter (\<lambda>it. \<not> wi_bodyRead it) items),
      st_Hashed := length (filter wi_bodyRead items)\<rparr>"

text \<open>The fast path: nothing to index, so the previous index is cloned, the
  stamps and hashes refreshed, deleted files pruned.\<close>

definition put_meta :: "workItem \<Rightarrow> Index \<Rightarrow> Index" where
  "put_meta it idx =
    idx\<lparr>ix_stamps := mput (wi_rel it) (wi_stamp it) (ix_stamps idx),
        ix_hashes := (if wi_hash it \<noteq> [] then mput (wi_rel it) (wi_hash it) (ix_hashes idx)
                      else ix_hashes idx)\<rparr>"

definition delta_fast :: "extractor \<Rightarrow> Index \<Rightarrow> workItem list \<Rightarrow> Index" where
  "delta_fast ex prev items =
    rebuildGlobalFromFiles (ex_lower ex)
      (pruneDeleted (map wi_rel items) (fold put_meta items (cloneIndexShallow prev)))"

definition delta_worker :: "extractor \<Rightarrow> workItem \<Rightarrow> localIndex \<Rightarrow> localIndex" where
  "delta_worker ex it l =
    li_note (wi_rel it) (wi_hash it) (wi_stamp it) (li_add ex (wi_rel it) (wi_raw it) l)"

definition put_hash_stamp :: "workItem \<Rightarrow> Index \<Rightarrow> Index" where
  "put_hash_stamp it idx =
    idx\<lparr>ix_hashes := mput (wi_rel it) (wi_hash it) (ix_hashes idx),
        ix_stamps := mput (wi_rel it) (wi_stamp it) (ix_stamps idx)\<rparr>"

definition fill_hash_stamp :: "workItem \<Rightarrow> Index \<Rightarrow> Index" where
  "fill_hash_stamp it idx =
    idx\<lparr>ix_hashes := (if mget (ix_hashes idx) (wi_rel it) = None
                      then mput (wi_rel it) (wi_hash it) (ix_hashes idx) else ix_hashes idx),
        ix_stamps := mput (wi_rel it) (wi_stamp it) (ix_stamps idx)\<rparr>"

definition delta_reuse :: "Index option \<Rightarrow> workItem list \<Rightarrow> Index \<Rightarrow> Index" where
  "delta_reuse prev items idx =
    (case prev of
       None \<Rightarrow> fold put_hash_stamp items idx
     | Some p \<Rightarrow>
         fold (\<lambda>it i. if wi_reuse it then copyFileFrom p (wi_rel it) (wi_hash it) (wi_stamp it) i else i)
           items idx)"

definition delta_full :: "extractor \<Rightarrow> (workItem list \<Rightarrow> workItem list list) \<Rightarrow> Index option
    \<Rightarrow> workItem list \<Rightarrow> Index" where
  "delta_full ex sched prev items =
    (let locals = map (\<lambda>part. fold (delta_worker ex) part newLocalIndex)
                    (sched (filter (\<lambda>it. \<not> wi_reuse it) items))
     in rebuildGlobalFromFiles (ex_lower ex)
          (fold fill_hash_stamp items
            (delta_reuse prev items (fold mergeInto locals newEmptyIndex))))"

definition CrawlDeltaFrom :: "extractor \<Rightarrow> osenv \<Rightarrow> (workItem list \<Rightarrow> workItem list list) \<Rightarrow> int
    \<Rightarrow> (string, string) gomap option \<Rightarrow> Index option \<Rightarrow> int
    \<Rightarrow> string + Index \<times> Stats \<times> (string, string) gomap" where
  "CrawlDeltaFrom ex os sched workers0 prevHashes0 prev dur =
    (let workers = (if workers0 < 1 then 1 else workers0);
         prevHashes = (case (prevHashes0, prev) of
                         (None, Some p) \<Rightarrow> Some (ix_hashes p) | _ \<Rightarrow> prevHashes0)
     in case os_ignores os of
          Inl err \<Rightarrow> Inl err
        | Inr ignored \<Rightarrow>
            (let scans = map (scan_item ex os prev prevHashes) (crawl_paths ex os ignored);
                 items = List.map_filter (\<lambda>x. x) scans;
                 errs = length (filter (\<lambda>x. x = None) scans);
                 bytes = sum_list (map (length \<circ> wi_raw) (filter wi_bodyRead items))
             in case prev of
                  Some p \<Rightarrow>
                    if list_all wi_reuse items \<and> items \<noteq> []
                    then let idx = delta_fast ex p items
                         in Inr (idx, delta_stats workers dur 0 errs items, mcopy (ix_hashes idx) [])
                    else let idx = delta_full ex sched prev items
                         in Inr (idx, delta_stats workers dur bytes errs items, mcopy (ix_hashes idx) [])
                | None \<Rightarrow>
                    let idx = delta_full ex sched prev items
                    in Inr (idx, delta_stats workers dur bytes errs items, mcopy (ix_hashes idx) [])))"

definition CrawlDelta :: "extractor \<Rightarrow> osenv \<Rightarrow> (workItem list \<Rightarrow> workItem list list) \<Rightarrow> int
    \<Rightarrow> (string, string) gomap option \<Rightarrow> int
    \<Rightarrow> string + Index \<times> Stats \<times> (string, string) gomap" where
  "CrawlDelta ex os sched workers prevHashes dur =
    CrawlDeltaFrom ex os sched workers prevHashes None dur"

definition HasFile :: "string \<Rightarrow> Index \<Rightarrow> bool" where
  "HasFile rel idx \<longleftrightarrow> rel \<in> set (ix_files idx)"

definition FileCount :: "Index \<Rightarrow> nat" where
  "FileCount idx = length (ix_files idx)"

end
