(* ===== verification/Crawl_Delta.thy ===== *)
theory Crawl_Delta
  imports Crawl_Index
begin

text \<open>
  Correctness of the incremental crawl.  An index is abstracted to the map from
  relative path to the indexed content and stamp (\<open>index_of\<close>); the crawls are
  shown to implement the assignment of that map from what the walk found.
\<close>

section \<open>The abstraction\<close>

type_synonym snapshot = "string \<Rightarrow> (string \<times> FileStamp) option"

definition opt_list :: "'a list \<Rightarrow> 'a list option" where
  "opt_list xs = (if xs = [] then None else Some xs)"

definition defs_of :: "extractor \<Rightarrow> string \<Rightarrow> string \<Rightarrow> string list" where
  "defs_of ex rel b = fst (ex_symbols ex rel b)"

definition refs_of :: "extractor \<Rightarrow> string \<Rightarrow> string \<Rightarrow> string list" where
  "refs_of ex rel b = fst (snd (ex_symbols ex rel b))"

definition imps_of :: "extractor \<Rightarrow> string \<Rightarrow> string \<Rightarrow> string list" where
  "imps_of ex rel b = snd (snd (ex_symbols ex rel b))"

definition wf_files :: "Index \<Rightarrow> bool" where
  "wf_files i \<longleftrightarrow> wf_map (ix_postings i) \<and> wf_map (ix_defs i) \<and> wf_map (ix_refs i)
    \<and> wf_map (ix_imps i) \<and> wf_map (ix_hashes i) \<and> wf_map (ix_stamps i) \<and> wf_map (ix_edges i)"

definition entry_ok :: "extractor \<Rightarrow> snapshot \<Rightarrow> Index \<Rightarrow> string \<Rightarrow> bool" where
  "entry_ok ex B i rel \<longleftrightarrow>
      mget (ix_postings i) rel = map_option (\<lambda>(b, st). tokenFreq ex b) (B rel)
      \<and> mget (ix_defs i) rel = Option.bind (B rel) (\<lambda>(b, st). opt_list (defs_of ex rel b))
      \<and> mget (ix_refs i) rel = Option.bind (B rel) (\<lambda>(b, st). opt_list (refs_of ex rel b))
      \<and> mget (ix_imps i) rel = Option.bind (B rel) (\<lambda>(b, st). opt_list (imps_of ex rel b))
      \<and> mget (ix_edges i) rel = Option.bind (B rel) (\<lambda>(b, st). opt_list (ex_edges ex rel b))
      \<and> mget (ix_hashes i) rel = map_option (\<lambda>(b, st). ex_hash ex b) (B rel)
      \<and> mget (ix_stamps i) rel = map_option snd (B rel)"

definition index_of :: "extractor \<Rightarrow> snapshot \<Rightarrow> Index \<Rightarrow> bool" where
  "index_of ex B i \<longleftrightarrow> wf_files i \<and> (\<forall>rel. entry_ok ex B i rel)"

text \<open>The global structures are determined by the per-file maps.\<close>

definition globals_of :: "(string \<Rightarrow> string) \<Rightarrow> Index \<Rightarrow> bool" where
  "globals_of lower i \<longleftrightarrow>
    (\<forall>tok path. mget2 (ix_inverted i) tok path =
       Option.bind (mget (ix_postings i) path) (\<lambda>fp. mget fp tok))
    \<and> (\<forall>name f. f \<in> set (mget0 [] (sg_defs (ix_symbols i)) name) \<longleftrightarrow>
       name \<noteq> [] \<and> f \<noteq> [] \<and> (\<exists>ds. mget (ix_defs i) f = Some ds \<and> name \<in> set ds \<union> lower ` set ds))
    \<and> (\<forall>name f. f \<in> set (mget0 [] (sg_refs (ix_symbols i)) name) \<longleftrightarrow>
       name \<noteq> [] \<and> f \<noteq> [] \<and> (\<exists>ds. mget (ix_refs i) f = Some ds \<and> name \<in> set ds \<union> lower ` set ds))
    \<and> (\<forall>f p. p \<in> set (mget0 [] (sg_imports (ix_symbols i)) f) \<longleftrightarrow>
       p \<noteq> [] \<and> f \<noteq> [] \<and> (\<exists>ds. mget (ix_imps i) f = Some ds \<and> p \<in> set ds))
    \<and> set (ix_files i) = set (mkeys (ix_postings i))"

text \<open>Two indexes answer every query alike.\<close>

definition index_equiv :: "Index \<Rightarrow> Index \<Rightarrow> bool" where
  "index_equiv a b \<longleftrightarrow>
    map_of (ix_postings a) = map_of (ix_postings b) \<and> map_of (ix_defs a) = map_of (ix_defs b)
    \<and> map_of (ix_refs a) = map_of (ix_refs b) \<and> map_of (ix_imps a) = map_of (ix_imps b)
    \<and> map_of (ix_hashes a) = map_of (ix_hashes b) \<and> map_of (ix_stamps a) = map_of (ix_stamps b)
    \<and> map_of (ix_edges a) = map_of (ix_edges b) \<and> set (ix_files a) = set (ix_files b)
    \<and> mget2 (ix_inverted a) = mget2 (ix_inverted b)
    \<and> (\<forall>n. set (mget0 [] (sg_defs (ix_symbols a)) n) = set (mget0 [] (sg_defs (ix_symbols b)) n))
    \<and> (\<forall>n. set (mget0 [] (sg_refs (ix_symbols a)) n) = set (mget0 [] (sg_refs (ix_symbols b)) n))
    \<and> (\<forall>n. set (mget0 [] (sg_imports (ix_symbols a)) n) = set (mget0 [] (sg_imports (ix_symbols b)) n))"

lemma index_of_determines:
  assumes "index_of ex B a" "index_of ex B b" "globals_of lower a" "globals_of lower b"
  shows "index_equiv a b"
proof -
  have maps: "map_of (ix_postings a) = map_of (ix_postings b)" "map_of (ix_defs a) = map_of (ix_defs b)"
    "map_of (ix_refs a) = map_of (ix_refs b)" "map_of (ix_imps a) = map_of (ix_imps b)"
    "map_of (ix_hashes a) = map_of (ix_hashes b)" "map_of (ix_stamps a) = map_of (ix_stamps b)"
    "map_of (ix_edges a) = map_of (ix_edges b)"
    using assms(1,2) by (auto simp: index_of_def entry_ok_def fun_eq_iff)
  moreover have "set (ix_files a) = set (ix_files b)"
    using assms(3,4) maps(1) unfolding globals_of_def by (metis dom_map_of_conv_image_fst set_map)
  moreover have "mget2 (ix_inverted a) = mget2 (ix_inverted b)"
    using assms(3,4) maps(1) by (simp add: globals_of_def fun_eq_iff)
  moreover have "set (mget0 [] (sg_defs (ix_symbols a)) n) = set (mget0 [] (sg_defs (ix_symbols b)) n)"
    "set (mget0 [] (sg_refs (ix_symbols a)) n) = set (mget0 [] (sg_refs (ix_symbols b)) n)"
    "set (mget0 [] (sg_imports (ix_symbols a)) n) = set (mget0 [] (sg_imports (ix_symbols b)) n)" for n
    using assms(3,4) maps(2-4) unfolding globals_of_def set_eq_iff by simp_all
  ultimately show ?thesis by (simp add: index_equiv_def)
qed


section \<open>Rebuilding the global structures\<close>

lemma set_appendUniqueStr [simp]: "set (appendUniqueStr xs v) = insert v (set xs)"
  by (auto simp: appendUniqueStr_def)

lemma set_fold_appendUniqueStr [simp]:
  "set (fold (\<lambda>p fs. appendUniqueStr fs p) ps xs) = set ps \<union> set xs"
  by (induction ps arbitrary: xs) auto

lemma tokenFreq_wf [simp]: "wf_map (tokenFreq ex s)"
  unfolding tokenFreq_def by (rule wf_map_fold) simp_all

lemma mput_fresh: "k \<notin> set (mkeys m) \<Longrightarrow> mput k v m = m @ [(k, v)]"
  by (induction m) auto

lemma mcopy_disjoint:
  "wf_map s \<Longrightarrow> set (mkeys s) \<inter> set (mkeys m) = {} \<Longrightarrow> mcopy s m = m @ s"
proof (induction s arbitrary: m)
  case (Cons p s)
  obtain a v where p: "p = (a, v)" by force
  from Cons.prems have "mput a v m = m @ [(a, v)]"
    by (intro mput_fresh) (auto simp: p)
  moreover have "mcopy s (m @ [(a, v)]) = (m @ [(a, v)]) @ s"
    using Cons.prems by (intro Cons.IH) (auto simp: wf_map_def p)
  ultimately show ?case by (simp add: mcopy_def p)
qed (simp add: mcopy_def)

lemma mcopy_empty [simp]: "wf_map s \<Longrightarrow> mcopy s [] = s"
  using mcopy_disjoint[of s "[]"] by simp

text \<open>The inner loop of the inverted index: the postings of one path.\<close>

lemma mget2_fold_post:
  "wf_map fp \<Longrightarrow> mget2 (fold (\<lambda>(tok, n). mput2 tok path n) fp m) t q =
    (if q = path then (case mget fp t of None \<Rightarrow> mget2 m t q | Some n \<Rightarrow> Some n) else mget2 m t q)"
proof (induction fp arbitrary: m)
  case (Cons p fp)
  obtain a v where p: "p = (a, v)" by force
  from Cons.prems have "wf_map fp" "mget fp a = None" by (auto simp: wf_map_def p mget_None_iff)
  with Cons.IH[of "mput2 a path v m"] show ?case by (auto simp: p split: option.splits)
qed simp

lemma mget2_fold_paths:
  assumes "wf_map ps" "\<forall>fp \<in> snd ` set ps. wf_map fp"
  shows "mget2 (fold (\<lambda>(path, fp). fold (\<lambda>(tok, n). mput2 tok path n) fp) ps m) t q =
    (case Option.bind (mget ps q) (\<lambda>fp. mget fp t) of None \<Rightarrow> mget2 m t q | Some n \<Rightarrow> Some n)"
  using assms
proof (induction ps arbitrary: m)
  case (Cons p ps)
  obtain a fp where p: "p = (a, fp)" by force
  from Cons.prems have wf: "wf_map ps" "mget ps a = None" "wf_map fp" "\<forall>fp \<in> snd ` set ps. wf_map fp"
    by (auto simp: wf_map_def p mget_None_iff)
  show ?case
    using Cons.IH[OF wf(1,4), of "fold (\<lambda>(tok, n). mput2 tok a n) fp m"] wf
    by (auto simp: p mget2_fold_post split: option.splits)
qed simp

text \<open>The symbol loops.\<close>

lemma symbol_frames [simp]:
  "sg_refs (addDef n f g) = sg_refs g" "sg_imports (addDef n f g) = sg_imports g"
  "sg_defs (addRef n f g) = sg_defs g" "sg_imports (addRef n f g) = sg_imports g"
  "sg_defs (addImport n f g) = sg_defs g" "sg_refs (addImport n f g) = sg_refs g"
  by (auto simp: addDef_def addRef_def addImport_def)

lemma addDef_lookup [simp]: "set (mget0 [] (sg_defs (addDef n f g)) x) =
    (if n \<noteq> [] \<and> f \<noteq> [] \<and> x = n then {f} else {}) \<union> set (mget0 [] (sg_defs g) x)"
  by (simp add: addDef_def)

lemma addRef_lookup [simp]: "set (mget0 [] (sg_refs (addRef n f g)) x) =
    (if n \<noteq> [] \<and> f \<noteq> [] \<and> x = n then {f} else {}) \<union> set (mget0 [] (sg_refs g) x)"
  by (simp add: addRef_def)

lemma addImport_lookup [simp]: "set (mget0 [] (sg_imports (addImport f p g)) x) =
    (if p \<noteq> [] \<and> f \<noteq> [] \<and> x = f then {p} else {}) \<union> set (mget0 [] (sg_imports g) x)"
  by (simp add: addImport_def)

lemma fold_frame:
  assumes "\<And>d g. \<phi> (f d g) = \<phi> g"
  shows "\<phi> (fold f ds g) = \<phi> g"
  using assms by (induction ds arbitrary: g) simp_all

lemma both_cases_frames [simp]:
  "sg_refs (both_cases lower (\<lambda>d. addDef d f) d g) = sg_refs g"
  "sg_imports (both_cases lower (\<lambda>d. addDef d f) d g) = sg_imports g"
  "sg_defs (both_cases lower (\<lambda>d. addRef d f) d g) = sg_defs g"
  "sg_imports (both_cases lower (\<lambda>d. addRef d f) d g) = sg_imports g"
  by (simp_all add: both_cases_def)

lemma both_cases_lookup [simp]:
  "set (mget0 [] (sg_defs (both_cases lower (\<lambda>d. addDef d f) d g)) n) =
    (if n \<noteq> [] \<and> f \<noteq> [] \<and> n \<in> {d, lower d} then {f} else {}) \<union> set (mget0 [] (sg_defs g) n)"
  "set (mget0 [] (sg_refs (both_cases lower (\<lambda>d. addRef d f) d g)) n) =
    (if n \<noteq> [] \<and> f \<noteq> [] \<and> n \<in> {d, lower d} then {f} else {}) \<union> set (mget0 [] (sg_refs g) n)"
  by (auto simp: both_cases_def)

lemma defs_fold_file:
  "set (mget0 [] (sg_defs (fold (both_cases lower (\<lambda>d. addDef d f)) ds g)) n) =
    (if n \<noteq> [] \<and> f \<noteq> [] \<and> n \<in> set ds \<union> lower ` set ds then {f} else {})
      \<union> set (mget0 [] (sg_defs g) n)"
proof (induction ds arbitrary: g)
  case (Cons d ds)
  show ?case unfolding fold_Cons comp_apply Cons.IH by auto
qed simp

lemma refs_fold_file:
  "set (mget0 [] (sg_refs (fold (both_cases lower (\<lambda>d. addRef d f)) ds g)) n) =
    (if n \<noteq> [] \<and> f \<noteq> [] \<and> n \<in> set ds \<union> lower ` set ds then {f} else {})
      \<union> set (mget0 [] (sg_refs g) n)"
proof (induction ds arbitrary: g)
  case (Cons d ds)
  show ?case unfolding fold_Cons comp_apply Cons.IH by auto
qed simp

lemma imports_fold_file:
  "set (mget0 [] (sg_imports (fold (addImport f) ds g)) n) =
    (if n = f \<and> f \<noteq> [] then {p \<in> set ds. p \<noteq> []} else {}) \<union> set (mget0 [] (sg_imports g) n)"
proof (induction ds arbitrary: g)
  case (Cons d ds)
  show ?case unfolding fold_Cons comp_apply Cons.IH by auto
qed simp

lemma defs_fold_files:
  "set (mget0 [] (sg_defs (fold (\<lambda>(file, ds). fold (both_cases lower (\<lambda>d. addDef d file)) ds) fs g)) n) =
    {f. n \<noteq> [] \<and> f \<noteq> [] \<and> (\<exists>ds. (f, ds) \<in> set fs \<and> n \<in> set ds \<union> lower ` set ds)}
      \<union> set (mget0 [] (sg_defs g) n)"
proof (induction fs arbitrary: g)
  case (Cons p fs)
  obtain fl ds where p: "p = (fl, ds)" by force
  show ?case unfolding fold_Cons comp_apply Cons.IH p prod.case defs_fold_file by auto
qed simp

lemma refs_fold_files:
  "set (mget0 [] (sg_refs (fold (\<lambda>(file, ds). fold (both_cases lower (\<lambda>d. addRef d file)) ds) fs g)) n) =
    {f. n \<noteq> [] \<and> f \<noteq> [] \<and> (\<exists>ds. (f, ds) \<in> set fs \<and> n \<in> set ds \<union> lower ` set ds)}
      \<union> set (mget0 [] (sg_refs g) n)"
proof (induction fs arbitrary: g)
  case (Cons p fs)
  obtain fl ds where p: "p = (fl, ds)" by force
  show ?case unfolding fold_Cons comp_apply Cons.IH p prod.case refs_fold_file by auto
qed simp

lemma imports_fold_files:
  "set (mget0 [] (sg_imports (fold (\<lambda>(file, ds). fold (addImport file) ds) fs g)) n) =
    {p. p \<noteq> [] \<and> n \<noteq> [] \<and> (\<exists>ds. (n, ds) \<in> set fs \<and> p \<in> set ds)}
      \<union> set (mget0 [] (sg_imports g) n)"
proof (induction fs arbitrary: g)
  case (Cons p fs)
  obtain fl ds where p: "p = (fl, ds)" by force
  show ?case unfolding fold_Cons comp_apply Cons.IH p prod.case imports_fold_file by auto
qed simp

lemma symbol_fold_frames:
  "sg_refs (fold (\<lambda>(file, ds). fold (both_cases lower (\<lambda>d. addDef d file)) ds) fs g) = sg_refs g"
  "sg_imports (fold (\<lambda>(file, ds). fold (both_cases lower (\<lambda>d. addDef d file)) ds) fs g) = sg_imports g"
  "sg_defs (fold (\<lambda>(file, ds). fold (both_cases lower (\<lambda>d. addRef d file)) ds) fs g) = sg_defs g"
  "sg_imports (fold (\<lambda>(file, ds). fold (both_cases lower (\<lambda>d. addRef d file)) ds) fs g) = sg_imports g"
  "sg_defs (fold (\<lambda>(file, ds). fold (addImport file) ds) fs g) = sg_defs g"
  "sg_refs (fold (\<lambda>(file, ds). fold (addImport file) ds) fs g) = sg_refs g"
  by (rule fold_frame, clarsimp, rule fold_frame, simp)+

lemma rebuild_globals:
  assumes "wf_files i" "\<forall>fp \<in> snd ` set (ix_postings i). wf_map fp"
    and "set (ix_files i) \<subseteq> set (mkeys (ix_postings i))"
  shows "globals_of lower (rebuildGlobalFromFiles lower i)"
proof -
  have wf: "wf_map (ix_postings i)" "wf_map (ix_defs i)" "wf_map (ix_refs i)" "wf_map (ix_imps i)"
    using assms(1) by (simp_all add: wf_files_def)
  show ?thesis
    unfolding globals_of_def rebuildGlobalFromFiles_def rebuild_symbols_def
    using assms(2,3) wf
    by (auto simp: mget2_fold_paths defs_fold_files refs_fold_files imports_fold_files
          symbol_fold_frames newSymbolGraph_def mget0_def[of "[]" "[]"] mget_set split: option.splits)
qed


section \<open>What the workers store\<close>

definition v_post :: "extractor \<Rightarrow> workItem \<Rightarrow> (string, nat) gomap option" where
  "v_post ex it = Some (tokenFreq ex (wi_raw it))"

definition v_defs :: "extractor \<Rightarrow> workItem \<Rightarrow> string list option" where
  "v_defs ex it = opt_list (defs_of ex (wi_rel it) (wi_raw it))"

definition v_refs :: "extractor \<Rightarrow> workItem \<Rightarrow> string list option" where
  "v_refs ex it = opt_list (refs_of ex (wi_rel it) (wi_raw it))"

definition v_imps :: "extractor \<Rightarrow> workItem \<Rightarrow> string list option" where
  "v_imps ex it = opt_list (imps_of ex (wi_rel it) (wi_raw it))"

definition v_edges :: "extractor \<Rightarrow> workItem \<Rightarrow> Edge list option" where
  "v_edges ex it = opt_list (ex_edges ex (wi_rel it) (wi_raw it))"

lemma put_nonempty_opt: "put_nonempty k xs m = (case opt_list xs of None \<Rightarrow> m | Some v \<Rightarrow> mput k v m)"
  by (simp add: put_nonempty_def opt_list_def)

lemma delta_worker_fields:
  "li_filePost (delta_worker ex it l) = put_opt wi_rel (v_post ex) it (li_filePost l)"
  "li_fileDefs (delta_worker ex it l) = put_opt wi_rel (v_defs ex) it (li_fileDefs l)"
  "li_fileRefs (delta_worker ex it l) = put_opt wi_rel (v_refs ex) it (li_fileRefs l)"
  "li_fileImps (delta_worker ex it l) = put_opt wi_rel (v_imps ex) it (li_fileImps l)"
  "li_fileEdges (delta_worker ex it l) = put_opt wi_rel (v_edges ex) it (li_fileEdges l)"
  "li_hashes (delta_worker ex it l) = put_opt wi_rel (Some \<circ> wi_hash) it (li_hashes l)"
  "li_stamps (delta_worker ex it l) = put_opt wi_rel (Some \<circ> wi_stamp) it (li_stamps l)"
  "set (li_files (delta_worker ex it l)) = insert (wi_rel it) (set (li_files l))"
  by (simp_all add: delta_worker_def li_add_def li_note_def Let_def put_opt_def put_nonempty_opt
        v_post_def v_defs_def v_refs_def v_imps_def v_edges_def defs_of_def refs_of_def imps_of_def
        split: prod.splits)

lemma fold_field:
  assumes "\<And>x s. \<phi> (f x s) = g x (\<phi> s)"
  shows "\<phi> (fold f xs s) = fold g xs (\<phi> s)"
  using assms by (induction xs arbitrary: s) simp_all

lemma delta_part_fields:
  "li_filePost (fold (delta_worker ex) p l) = fold (put_opt wi_rel (v_post ex)) p (li_filePost l)"
  "li_fileDefs (fold (delta_worker ex) p l) = fold (put_opt wi_rel (v_defs ex)) p (li_fileDefs l)"
  "li_fileRefs (fold (delta_worker ex) p l) = fold (put_opt wi_rel (v_refs ex)) p (li_fileRefs l)"
  "li_fileImps (fold (delta_worker ex) p l) = fold (put_opt wi_rel (v_imps ex)) p (li_fileImps l)"
  "li_fileEdges (fold (delta_worker ex) p l) = fold (put_opt wi_rel (v_edges ex)) p (li_fileEdges l)"
  "li_hashes (fold (delta_worker ex) p l) = fold (put_opt wi_rel (Some \<circ> wi_hash)) p (li_hashes l)"
  "li_stamps (fold (delta_worker ex) p l) = fold (put_opt wi_rel (Some \<circ> wi_stamp)) p (li_stamps l)"
  by (rule fold_field, rule delta_worker_fields)+

lemma delta_part_files: "set (li_files (fold (delta_worker ex) p l)) = wi_rel ` set p \<union> set (li_files l)"
  by (induction p arbitrary: l) (auto simp: delta_worker_fields)

definition merged :: "extractor \<Rightarrow> workItem list list \<Rightarrow> Index" where
  "merged ex parts = fold mergeInto (map (\<lambda>p. fold (delta_worker ex) p newLocalIndex) parts) newEmptyIndex"

lemma merge_field:
  assumes "\<And>l i. \<phi> (mergeInto l i) = mcopy (\<psi> l) (\<phi> i)"
    and "\<And>p. \<psi> (fold (delta_worker ex) p newLocalIndex) = fold (put_opt wi_rel v) p []"
    and "\<phi> newEmptyIndex = []"
  shows "mget (\<phi> (merged ex parts)) k = mget (fold (put_opt wi_rel v) (concat parts) []) k"
    and "wf_map (\<phi> (merged ex parts))"
proof -
  have gen: "\<phi> (fold mergeInto (map (\<lambda>p. fold (delta_worker ex) p newLocalIndex) parts) i) =
      fold (\<lambda>p m. mcopy (fold (put_opt wi_rel v) p []) m) parts (\<phi> i)" for i
    by (induction parts arbitrary: i) (simp_all add: assms(1,2))
  show "mget (\<phi> (merged ex parts)) k = mget (fold (put_opt wi_rel v) (concat parts) []) k"
    unfolding merged_def gen assms(3) by (rule fold_mcopy_parts)
  show "wf_map (\<phi> (merged ex parts))"
    unfolding merged_def gen assms(3) by (rule wf_map_fold) simp_all
qed

lemmas merge_field_intro = merge_field[of ix_postings li_filePost ex "v_post ex"]
  merge_field[of ix_defs li_fileDefs ex "v_defs ex"]
  merge_field[of ix_refs li_fileRefs ex "v_refs ex"]
  merge_field[of ix_imps li_fileImps ex "v_imps ex"]
  merge_field[of ix_edges li_fileEdges ex "v_edges ex"]
  merge_field[of ix_hashes li_hashes ex "Some \<circ> wi_hash"]
  merge_field[of ix_stamps li_stamps ex "Some \<circ> wi_stamp"]
  for ex

lemma merged_fields:
  "mget (ix_postings (merged ex parts)) k = mget (fold (put_opt wi_rel (v_post ex)) (concat parts) []) k"
  "mget (ix_defs (merged ex parts)) k = mget (fold (put_opt wi_rel (v_defs ex)) (concat parts) []) k"
  "mget (ix_refs (merged ex parts)) k = mget (fold (put_opt wi_rel (v_refs ex)) (concat parts) []) k"
  "mget (ix_imps (merged ex parts)) k = mget (fold (put_opt wi_rel (v_imps ex)) (concat parts) []) k"
  "mget (ix_edges (merged ex parts)) k = mget (fold (put_opt wi_rel (v_edges ex)) (concat parts) []) k"
  "mget (ix_hashes (merged ex parts)) k = mget (fold (put_opt wi_rel (Some \<circ> wi_hash)) (concat parts) []) k"
  "mget (ix_stamps (merged ex parts)) k = mget (fold (put_opt wi_rel (Some \<circ> wi_stamp)) (concat parts) []) k"
  "wf_files (merged ex parts)"
  unfolding wf_files_def
  by (auto intro!: merge_field_intro simp: mergeInto_def delta_part_fields newLocalIndex_def newEmptyIndex_def)

lemma merged_files: "set (ix_files (merged ex parts)) = wi_rel ` set (concat parts)"
proof -
  have "set (ix_files (fold mergeInto (map (\<lambda>p. fold (delta_worker ex) p newLocalIndex) parts) i)) =
      wi_rel ` set (concat parts) \<union> set (ix_files i)" for i
    by (induction parts arbitrary: i) (auto simp: mergeInto_def delta_part_files newLocalIndex_def)
  then show ?thesis by (simp add: merged_def newEmptyIndex_def)
qed


section \<open>Reuse from the previous index\<close>

definition r_entry :: "(string, 'v) gomap \<Rightarrow> workItem \<Rightarrow> 'v option" where
  "r_entry m it = (if wi_reuse it then mget m (wi_rel it) else None)"

definition r_hash :: "Index \<Rightarrow> workItem \<Rightarrow> string option" where
  "r_hash p it = (if wi_reuse it
     then Some (if wi_hash it \<noteq> [] then wi_hash it else mget0 [] (ix_hashes p) (wi_rel it)) else None)"

definition r_stamp :: "Index \<Rightarrow> workItem \<Rightarrow> FileStamp option" where
  "r_stamp p it = (if wi_reuse it
     then Some (if Size (wi_stamp it) > 0 then wi_stamp it
                else mget0 \<lparr>Size = 0, MtimeNs = 0\<rparr> (ix_stamps p) (wi_rel it)) else None)"

definition reuse_step :: "Index \<Rightarrow> workItem \<Rightarrow> Index \<Rightarrow> Index" where
  "reuse_step p it i =
    (if wi_reuse it then copyFileFrom p (wi_rel it) (wi_hash it) (wi_stamp it) i else i)"

lemma reuse_step_fields:
  assumes "wi_rel it \<noteq> []"
  shows "ix_postings (reuse_step p it i) = put_opt wi_rel (r_entry (ix_postings p)) it (ix_postings i)"
    "ix_defs (reuse_step p it i) = put_opt wi_rel (r_entry (ix_defs p)) it (ix_defs i)"
    "ix_refs (reuse_step p it i) = put_opt wi_rel (r_entry (ix_refs p)) it (ix_refs i)"
    "ix_imps (reuse_step p it i) = put_opt wi_rel (r_entry (ix_imps p)) it (ix_imps i)"
    "ix_edges (reuse_step p it i) = put_opt wi_rel (r_entry (ix_edges p)) it (ix_edges i)"
    "ix_hashes (reuse_step p it i) = put_opt wi_rel (r_hash p) it (ix_hashes i)"
    "ix_stamps (reuse_step p it i) = put_opt wi_rel (r_stamp p) it (ix_stamps i)"
    "set (ix_files (reuse_step p it i)) =
      (if wi_reuse it then insert (wi_rel it) (set (ix_files i)) else set (ix_files i))"
  using assms by (simp_all add: reuse_step_def copyFileFrom_def put_opt_def r_entry_def r_hash_def
      r_stamp_def copy_entry_def)

lemma fold_field_on:
  assumes "\<And>x s. x \<in> set xs \<Longrightarrow> \<phi> (f x s) = g x (\<phi> s)"
  shows "\<phi> (fold f xs s) = fold g xs (\<phi> s)"
  using assms by (induction xs arbitrary: s) simp_all

lemma reuse_fields:
  assumes "\<forall>it \<in> set its. wi_rel it \<noteq> []"
  shows "ix_postings (fold (reuse_step p) its i) = fold (put_opt wi_rel (r_entry (ix_postings p))) its (ix_postings i)"
    "ix_defs (fold (reuse_step p) its i) = fold (put_opt wi_rel (r_entry (ix_defs p))) its (ix_defs i)"
    "ix_refs (fold (reuse_step p) its i) = fold (put_opt wi_rel (r_entry (ix_refs p))) its (ix_refs i)"
    "ix_imps (fold (reuse_step p) its i) = fold (put_opt wi_rel (r_entry (ix_imps p))) its (ix_imps i)"
    "ix_edges (fold (reuse_step p) its i) = fold (put_opt wi_rel (r_entry (ix_edges p))) its (ix_edges i)"
    "ix_hashes (fold (reuse_step p) its i) = fold (put_opt wi_rel (r_hash p)) its (ix_hashes i)"
    "ix_stamps (fold (reuse_step p) its i) = fold (put_opt wi_rel (r_stamp p)) its (ix_stamps i)"
  using assms by (auto intro!: fold_field_on reuse_step_fields)

lemma reuse_files:
  "\<forall>it \<in> set its. wi_rel it \<noteq> [] \<Longrightarrow>
    set (ix_files (fold (reuse_step p) its i)) = wi_rel ` {it \<in> set its. wi_reuse it} \<union> set (ix_files i)"
  by (induction its arbitrary: i) (auto simp: reuse_step_fields)

text \<open>The last loop fills the hashes that are still missing and sets every stamp.\<close>

lemma fill_frames [simp]:
  "ix_postings (fold fill_hash_stamp its i) = ix_postings i" "ix_defs (fold fill_hash_stamp its i) = ix_defs i"
  "ix_refs (fold fill_hash_stamp its i) = ix_refs i" "ix_imps (fold fill_hash_stamp its i) = ix_imps i"
  "ix_edges (fold fill_hash_stamp its i) = ix_edges i" "ix_files (fold fill_hash_stamp its i) = ix_files i"
  by (rule fold_frame, simp add: fill_hash_stamp_def)+

lemma fill_stamps:
  "ix_stamps (fold fill_hash_stamp its i) = fold (put_opt wi_rel (Some \<circ> wi_stamp)) its (ix_stamps i)"
  by (rule fold_field) (simp add: fill_hash_stamp_def put_opt_def)

lemma fill_hashes_other:
  "k \<notin> wi_rel ` set its \<Longrightarrow> mget (ix_hashes (fold fill_hash_stamp its i)) k = mget (ix_hashes i) k"
  by (induction its arbitrary: i) (auto simp: fill_hash_stamp_def)

lemma fill_hashes_keep:
  "mget (ix_hashes i) k = Some h \<Longrightarrow> mget (ix_hashes (fold fill_hash_stamp its i)) k = Some h"
proof (induction its arbitrary: i)
  case (Cons it its)
  then have "mget (ix_hashes (fill_hash_stamp it i)) k = Some h" by (auto simp: fill_hash_stamp_def)
  with Cons.IH show ?case by simp
qed simp

lemma fill_hashes_hit:
  assumes "it \<in> set its" "distinct (map wi_rel its)" "mget (ix_hashes i) (wi_rel it) = None"
  shows "mget (ix_hashes (fold fill_hash_stamp its i)) (wi_rel it) = Some (wi_hash it)"
  using assms
proof (induction its arbitrary: i)
  case (Cons x its)
  show ?case
  proof (cases "x = it")
    case True
    with Cons.prems have "mget (ix_hashes (fill_hash_stamp x i)) (wi_rel it) = Some (wi_hash it)"
      by (simp add: fill_hash_stamp_def)
    then show ?thesis by (simp add: fill_hashes_keep)
  next
    case False
    with Cons.prems have "it \<in> set its" "wi_rel x \<noteq> wi_rel it" by auto
    moreover from this have "mget (ix_hashes (fill_hash_stamp x i)) (wi_rel it) = None"
      using Cons.prems(3) by (auto simp: fill_hash_stamp_def)
    ultimately show ?thesis using Cons.IH[of "fill_hash_stamp x i"] Cons.prems(2) by simp
  qed
qed simp

lemma fill_wf: "wf_files i \<Longrightarrow> wf_files (fold fill_hash_stamp its i)"
  by (induction its arbitrary: i) (auto simp: fill_hash_stamp_def wf_files_def)

lemma reuse_wf: "wf_files i \<Longrightarrow> wf_files (fold (reuse_step p) its i)"
  by (induction its arbitrary: i)
     (auto simp: reuse_step_def copyFileFrom_def copy_entry_def wf_files_def split: option.splits)

lemma put_hash_stamp_frames [simp]:
  "ix_postings (fold put_hash_stamp its i) = ix_postings i" "ix_defs (fold put_hash_stamp its i) = ix_defs i"
  "ix_refs (fold put_hash_stamp its i) = ix_refs i" "ix_imps (fold put_hash_stamp its i) = ix_imps i"
  "ix_edges (fold put_hash_stamp its i) = ix_edges i" "ix_files (fold put_hash_stamp its i) = ix_files i"
  by (rule fold_frame, simp add: put_hash_stamp_def)+

lemma put_hash_stamp_fields:
  "ix_hashes (fold put_hash_stamp its i) = fold (put_opt wi_rel (Some \<circ> wi_hash)) its (ix_hashes i)"
  "ix_stamps (fold put_hash_stamp its i) = fold (put_opt wi_rel (Some \<circ> wi_stamp)) its (ix_stamps i)"
  by (rule fold_field, simp add: put_hash_stamp_def put_opt_def)+

lemma put_hash_stamp_wf: "wf_files i \<Longrightarrow> wf_files (fold put_hash_stamp its i)"
  by (induction its arbitrary: i) (auto simp: put_hash_stamp_def wf_files_def)


section \<open>The two paths of the incremental crawl\<close>

text \<open>The scan found the snapshot \<open>S\<close>: every item carries the content it stands
  for, a reused item stands for content the previous index (of \<open>B\<close>) holds.\<close>

definition scan_ok :: "extractor \<Rightarrow> snapshot \<Rightarrow> snapshot \<Rightarrow> workItem list \<Rightarrow> bool" where
  "scan_ok ex B S items \<longleftrightarrow>
    distinct (map wi_rel items) \<and> (\<forall>it \<in> set items. wi_rel it \<noteq> []) \<and> dom S = wi_rel ` set items
    \<and> (\<forall>it \<in> set items. \<exists>b. S (wi_rel it) = Some (b, wi_stamp it) \<and> wi_hash it = ex_hash ex b
        \<and> (if wi_reuse it then \<exists>st. B (wi_rel it) = Some (b, st) else wi_raw it = b))"

lemma scan_okD:
  assumes "scan_ok ex B S items" "it \<in> set items"
  obtains b where "S (wi_rel it) = Some (b, wi_stamp it)" "wi_hash it = ex_hash ex b"
    "wi_reuse it \<Longrightarrow> \<exists>st. B (wi_rel it) = Some (b, st)" "\<not> wi_reuse it \<Longrightarrow> wi_raw it = b"
  using assms unfolding scan_ok_def by meson

lemma reuse_lookup:
  assumes "distinct (map wi_rel items)" "it \<in> set items"
    and "\<And>k. mget m k = mget (fold (put_opt wi_rel v) N []) k"
    and "mset N = mset (filter (\<lambda>it. \<not> wi_reuse it) items)"
  shows "mget (fold (put_opt wi_rel (r_entry e)) items m) (wi_rel it) =
    (if wi_reuse it then mget e (wi_rel it) else v it)"
proof -
  have setN: "set N = {it \<in> set items. \<not> wi_reuse it}"
    using mset_eq_setD[OF assms(4)] by auto
  have distN: "distinct (map wi_rel N)"
    using assms(1,4) by (metis distinct_map_filter mset_eq_imp_distinct_iff mset_map)
  show ?thesis
  proof (cases "wi_reuse it")
    case True
    then have "wi_rel it \<notin> wi_rel ` set N"
      using assms(1,2) setN by (auto simp: distinct_map inj_on_def)
    with True assms(3) show ?thesis
      by (auto simp: fold_put_opt_hit[OF assms(1,2)] r_entry_def fold_put_opt_other split: option.splits)
  next
    case False
    then have "it \<in> set N" using assms(2) setN by auto
    with False assms(3) distN show ?thesis
      by (auto simp: fold_put_opt_hit[OF assms(1,2)] r_entry_def fold_put_opt_hit split: option.splits)
  qed
qed

lemma merged_none:
  assumes "k \<notin> wi_rel ` set N" "\<And>k. mget m k = mget (fold (put_opt wi_rel v) N []) k"
  shows "mget m k = None"
  using assms by (simp add: fold_put_opt_other)

lemma delta_reuse_Some: "delta_reuse (Some p) items i = fold (reuse_step p) items i"
  by (simp add: delta_reuse_def reuse_step_def[abs_def])

lemma delta_full_eq:
  "delta_full ex sched prev items =
    rebuildGlobalFromFiles (ex_lower ex) (fold fill_hash_stamp items
      (delta_reuse prev items (merged ex (sched (filter (\<lambda>it. \<not> wi_reuse it) items)))))"
  by (simp add: delta_full_def merged_def Let_def)

lemma index_of_rebuild [simp]: "index_of ex S (rebuildGlobalFromFiles lower i) = index_of ex S i"
  by (simp add: index_of_def entry_ok_def rebuildGlobalFromFiles_def wf_files_def)

lemma index_of_postings_wf:
  assumes "index_of ex S i"
  shows "\<forall>fp \<in> snd ` set (ix_postings i). wf_map fp"
proof clarsimp
  fix rel fp assume "(rel, fp) \<in> set (ix_postings i)"
  moreover have "wf_map (ix_postings i)" using assms by (simp add: index_of_def wf_files_def)
  ultimately have "mget (ix_postings i) rel = Some fp" by (simp add: mget_set)
  moreover have "mget (ix_postings i) rel = map_option (\<lambda>(b, st). tokenFreq ex b) (S rel)"
    using assms by (simp add: index_of_def entry_ok_def)
  ultimately show "wf_map fp" by auto
qed

lemma index_of_keys: "index_of ex S i \<Longrightarrow> set (mkeys (ix_postings i)) = dom S"
proof -
  assume "index_of ex S i"
  then have "dom (map_of (ix_postings i)) = dom S"
    by (auto simp: index_of_def entry_ok_def dom_def)
  then show ?thesis by (simp add: dom_map_of_conv_image_fst)
qed

lemma globals_of_rebuild:
  assumes "index_of ex S i" "set (ix_files i) \<subseteq> dom S"
  shows "globals_of lower (rebuildGlobalFromFiles lower i)"
proof (rule rebuild_globals)
  show "wf_files i" using assms(1) by (simp add: index_of_def)
  show "\<forall>fp \<in> snd ` set (ix_postings i). wf_map fp" by (rule index_of_postings_wf[OF assms(1)])
  show "set (ix_files i) \<subseteq> set (mkeys (ix_postings i))"
    using assms by (simp only: index_of_keys)
qed

lemma delta_full_Some:
  assumes ok: "scan_ok ex B S items" and p: "index_of ex B p"
    and sched: "mset N = mset (filter (\<lambda>it. \<not> wi_reuse it) items)" and N: "N = concat parts"
  shows "index_of ex S (fold fill_hash_stamp items (fold (reuse_step p) items (merged ex parts)))"
    (is "index_of ex S ?i")
proof -
  have dist: "distinct (map wi_rel items)" and ne: "\<forall>it \<in> set items. wi_rel it \<noteq> []"
    and domS: "dom S = wi_rel ` set items" using ok by (simp_all add: scan_ok_def)
  have subN: "wi_rel ` set N \<subseteq> wi_rel ` set items" using mset_eq_setD[OF sched] by auto
  note mf = merged_fields[of ex parts, folded N]
  have wf: "wf_files ?i" by (intro fill_wf reuse_wf merged_fields)
  have hit: "entry_ok ex S ?i k" if it: "it \<in> set items" and k: "k = wi_rel it" for it k
  proof -
    from scan_okD[OF ok it] obtain b where b: "S (wi_rel it) = Some (b, wi_stamp it)"
      "wi_hash it = ex_hash ex b" "wi_reuse it \<Longrightarrow> \<exists>st. B (wi_rel it) = Some (b, st)"
      "\<not> wi_reuse it \<Longrightarrow> wi_raw it = b" by blast
    note look = reuse_lookup[OF dist it _ sched]
    have "mget (ix_hashes (fold (reuse_step p) items (merged ex parts))) (wi_rel it) = Some (wi_hash it)"
    proof (cases "wi_reuse it")
      case True
      with b p show ?thesis
        by (auto simp: reuse_fields[OF ne] fold_put_opt_hit[OF dist it] r_hash_def index_of_def
              entry_ok_def mget0_def)
    next
      case False
      then have "it \<in> set N" using it mset_eq_setD[OF sched] by auto
      moreover have "distinct (map wi_rel N)"
        using dist sched by (metis distinct_map_filter mset_eq_imp_distinct_iff mset_map)
      ultimately show ?thesis using False
        by (auto simp: reuse_fields[OF ne] fold_put_opt_hit[OF dist it] r_hash_def mf fold_put_opt_hit)
    qed
    then have "mget (ix_hashes ?i) (wi_rel it) = Some (wi_hash it)" by (rule fill_hashes_keep)
    moreover have "mget (ix_stamps ?i) (wi_rel it) = Some (wi_stamp it)"
      by (simp add: fill_stamps fold_put_opt_hit[OF dist it])
    ultimately show ?thesis
      using b p unfolding k
      by (auto simp: reuse_fields[OF ne] look[OF mf(1)] look[OF mf(2)] look[OF mf(3)] look[OF mf(4)]
            look[OF mf(5)] index_of_def entry_ok_def
            v_post_def v_defs_def v_refs_def v_imps_def v_edges_def)
  qed
  have miss: "entry_ok ex S ?i k" if k: "k \<notin> wi_rel ` set items" for k
  proof -
    have kN: "k \<notin> wi_rel ` set N" using k subN by auto
    have "S k = None" using k domS by auto
    with k kN show ?thesis
      by (simp add: entry_ok_def reuse_fields[OF ne] fold_put_opt_other mf fill_stamps fill_hashes_other)
  qed
  show ?thesis unfolding index_of_def using wf hit miss by blast
qed

lemma merged_entry_fresh:
  assumes ok: "scan_ok ex B S items" and none: "\<forall>it \<in> set items. \<not> wi_reuse it"
    and sched: "mset (concat parts) = mset items"
  shows "index_of ex S (merged ex parts)" (is "index_of ex S ?i")
proof -
  let ?N = "concat parts"
  have dist: "distinct (map wi_rel items)" and domS: "dom S = wi_rel ` set items"
    using ok by (simp_all add: scan_ok_def)
  have setN: "set ?N = set items" using mset_eq_setD[OF sched] .
  have distN: "distinct (map wi_rel ?N)"
    using dist sched by (metis mset_eq_imp_distinct_iff mset_map)
  note mf = merged_fields[of ex parts]
  have hit: "entry_ok ex S ?i k" if it: "it \<in> set items" and k: "k = wi_rel it" for it k
  proof -
    from scan_okD[OF ok it] obtain b where b: "S (wi_rel it) = Some (b, wi_stamp it)"
      "wi_hash it = ex_hash ex b" "\<not> wi_reuse it \<Longrightarrow> wi_raw it = b" by blast
    from it have itN: "it \<in> set ?N" by (simp only: setN)
    from b none it show ?thesis
      by (auto simp: entry_ok_def k mf fold_put_opt_hit[OF distN itN]
            v_post_def v_defs_def v_refs_def v_imps_def v_edges_def split: option.splits)
  qed
  have miss: "entry_ok ex S ?i k" if k: "k \<notin> wi_rel ` set items" for k
  proof -
    have kN: "k \<notin> wi_rel ` set ?N" using k unfolding setN .
    have "S k = None" using k domS by auto
    with k kN show ?thesis by (simp add: entry_ok_def fold_put_opt_other mf)
  qed
  show ?thesis unfolding index_of_def using mf(8) hit miss by blast
qed

lemma put_hash_stamp_noop:
  assumes "index_of ex S i" "scan_ok ex B S items"
  shows "index_of ex S (fold put_hash_stamp items i)"
proof -
  have dist: "distinct (map wi_rel items)" using assms(2) by (simp add: scan_ok_def)
  have "entry_ok ex S (fold put_hash_stamp items i) k" for k
  proof (cases "k \<in> wi_rel ` set items")
    case True
    then obtain it where it: "it \<in> set items" "k = wi_rel it" by blast
    from scan_okD[OF assms(2) it(1)] obtain b where b: "S k = Some (b, wi_stamp it)" "wi_hash it = ex_hash ex b"
      unfolding it(2) by blast
    have "entry_ok ex S i k" using assms(1) by (simp add: index_of_def)
    with b show ?thesis
      by (simp add: entry_ok_def put_hash_stamp_fields it(2) fold_put_opt_hit[OF dist it(1)])
  next
    case False
    have "entry_ok ex S i k" using assms(1) by (simp add: index_of_def)
    with False show ?thesis by (simp add: entry_ok_def put_hash_stamp_fields fold_put_opt_other)
  qed
  moreover have "wf_files (fold put_hash_stamp items i)"
    using assms(1) by (intro put_hash_stamp_wf) (simp add: index_of_def)
  ultimately show ?thesis by (simp add: index_of_def)
qed

lemma fill_noop:
  assumes "index_of ex S i" "scan_ok ex B S items"
  shows "index_of ex S (fold fill_hash_stamp items i)"
proof -
  have dist: "distinct (map wi_rel items)" using assms(2) by (simp add: scan_ok_def)
  have "entry_ok ex S (fold fill_hash_stamp items i) k" for k
  proof (cases "k \<in> wi_rel ` set items")
    case True
    then obtain it where it: "it \<in> set items" "k = wi_rel it" by blast
    from scan_okD[OF assms(2) it(1)] obtain b where b: "S k = Some (b, wi_stamp it)"
      unfolding it(2) by blast
    have "mget (ix_stamps (fold fill_hash_stamp items i)) k = Some (wi_stamp it)"
      by (simp add: fill_stamps it(2) fold_put_opt_hit[OF dist it(1)])
    moreover have "mget (ix_hashes (fold fill_hash_stamp items i)) k = Some (ex_hash ex b)"
      using assms(1) b by (intro fill_hashes_keep) (simp add: index_of_def entry_ok_def)
    moreover have "entry_ok ex S i k" using assms(1) by (simp add: index_of_def)
    ultimately show ?thesis using b by (simp add: entry_ok_def)
  next
    case False
    have "entry_ok ex S i k" using assms(1) by (simp add: index_of_def)
    with False show ?thesis
      by (simp add: entry_ok_def fill_hashes_other fill_stamps fold_put_opt_other)
  qed
  moreover have "wf_files (fold fill_hash_stamp items i)"
    using assms(1) by (intro fill_wf) (simp add: index_of_def)
  ultimately show ?thesis by (simp add: index_of_def)
qed

lemma delta_full_files:
  assumes ok: "scan_ok ex B S items"
    and sched: "mset (concat parts) = mset (filter (\<lambda>it. \<not> wi_reuse it) items)"
  shows "set (ix_files (fold fill_hash_stamp items (delta_reuse prev items (merged ex parts)))) \<subseteq> dom S"
proof -
  have sub: "set (concat parts) \<subseteq> set items" using mset_eq_setD[OF sched] by auto
  show ?thesis
  proof (cases prev)
    case None
    with sub ok show ?thesis by (auto simp: delta_reuse_def merged_files scan_ok_def)
  next
    case (Some p)
    have "\<forall>it \<in> set items. wi_rel it \<noteq> []" using ok by (simp add: scan_ok_def)
    with sub ok Some show ?thesis
      by (auto simp: delta_reuse_Some reuse_files merged_files scan_ok_def)
  qed
qed

lemma delta_full_correct:
  assumes ok: "scan_ok ex B S items"
    and prev: "case prev of None \<Rightarrow> \<forall>it \<in> set items. \<not> wi_reuse it | Some p \<Rightarrow> index_of ex B p"
    and sched: "\<And>xs. mset (concat (sched xs)) = mset xs"
  shows "index_of ex S (delta_full ex sched prev items)"
    and "globals_of (ex_lower ex) (delta_full ex sched prev items)"
proof -
  let ?N = "filter (\<lambda>it. \<not> wi_reuse it) items"
  let ?i = "fold fill_hash_stamp items (delta_reuse prev items (merged ex (sched ?N)))"
  have idx: "index_of ex S ?i"
  proof (cases prev)
    case None
    with prev have none: "\<forall>it \<in> set items. \<not> wi_reuse it" by simp
    then have "?N = items" by (simp add: filter_id_conv)
    with none ok sched[of ?N] have "index_of ex S (merged ex (sched ?N))"
      by (intro merged_entry_fresh) auto
    with ok None show ?thesis by (simp add: delta_reuse_def fill_noop put_hash_stamp_noop)
  next
    case (Some p)
    with prev show ?thesis
      using delta_full_Some[OF ok _ sched refl, of p] by (simp add: delta_reuse_Some)
  qed
  then show "index_of ex S (delta_full ex sched prev items)" by (simp add: delta_full_eq)
  show "globals_of (ex_lower ex) (delta_full ex sched prev items)"
    unfolding delta_full_eq by (rule globals_of_rebuild[OF idx delta_full_files[OF ok sched]])
qed


text \<open>The fast path.\<close>

lemma clone_fields:
  assumes "wf_files p"
  shows "ix_postings (cloneIndexShallow p) = ix_postings p" "ix_defs (cloneIndexShallow p) = ix_defs p"
    "ix_refs (cloneIndexShallow p) = ix_refs p" "ix_imps (cloneIndexShallow p) = ix_imps p"
    "ix_edges (cloneIndexShallow p) = ix_edges p" "ix_hashes (cloneIndexShallow p) = ix_hashes p"
    "ix_stamps (cloneIndexShallow p) = ix_stamps p"
    "set (ix_files (cloneIndexShallow p)) = set (mkeys (ix_postings p))"
  using assms by (simp_all add: cloneIndexShallow_def wf_files_def)

lemma put_meta_frames [simp]:
  "ix_postings (fold put_meta its i) = ix_postings i" "ix_defs (fold put_meta its i) = ix_defs i"
  "ix_refs (fold put_meta its i) = ix_refs i" "ix_imps (fold put_meta its i) = ix_imps i"
  "ix_edges (fold put_meta its i) = ix_edges i" "ix_files (fold put_meta its i) = ix_files i"
  by (rule fold_frame, simp add: put_meta_def)+

lemma put_meta_fields:
  "ix_hashes (fold put_meta its i) =
    fold (put_opt wi_rel (\<lambda>it. if wi_hash it \<noteq> [] then Some (wi_hash it) else None)) its (ix_hashes i)"
  "ix_stamps (fold put_meta its i) = fold (put_opt wi_rel (Some \<circ> wi_stamp)) its (ix_stamps i)"
  by (rule fold_field, simp add: put_meta_def put_opt_def)+

lemma put_meta_wf: "wf_files i \<Longrightarrow> wf_files (fold put_meta its i)"
  by (induction its arbitrary: i) (auto simp: put_meta_def wf_files_def)

definition prune_step :: "string list \<Rightarrow> string \<Rightarrow> Index \<Rightarrow> Index" where
  "prune_step live path i = (if path \<in> set live then i else drop_path path i)"

lemma prune_lookup:
  assumes "\<And>path i k. mget (\<phi> (drop_path path i)) k = (if k = path then None else mget (\<phi> i) k)"
  shows "mget (\<phi> (fold (prune_step live) fs i)) k =
    (if k \<in> set fs \<and> k \<notin> set live then None else mget (\<phi> i) k)"
proof (induction fs arbitrary: i)
  case (Cons f fs)
  show ?case unfolding fold_Cons comp_apply Cons.IH by (auto simp: prune_step_def assms)
qed simp

lemma prune_files:
  "set (ix_files (fold (prune_step live) fs i)) = {k \<in> set (ix_files i). k \<notin> set fs \<or> k \<in> set live}"
proof (induction fs arbitrary: i)
  case (Cons f fs)
  show ?case unfolding fold_Cons comp_apply Cons.IH by (auto simp: prune_step_def drop_path_def)
qed simp

lemma prune_wf: "wf_files i \<Longrightarrow> wf_files (fold (prune_step live) fs i)"
  by (induction fs arbitrary: i) (auto simp: prune_step_def drop_path_def wf_files_def)

lemma pruneDeleted_fields:
  "mget (ix_postings (pruneDeleted live i)) k = (if k \<in> set (ix_files i) \<and> k \<notin> set live then None else mget (ix_postings i) k)"
  "mget (ix_defs (pruneDeleted live i)) k = (if k \<in> set (ix_files i) \<and> k \<notin> set live then None else mget (ix_defs i) k)"
  "mget (ix_refs (pruneDeleted live i)) k = (if k \<in> set (ix_files i) \<and> k \<notin> set live then None else mget (ix_refs i) k)"
  "mget (ix_imps (pruneDeleted live i)) k = (if k \<in> set (ix_files i) \<and> k \<notin> set live then None else mget (ix_imps i) k)"
  "mget (ix_edges (pruneDeleted live i)) k = (if k \<in> set (ix_files i) \<and> k \<notin> set live then None else mget (ix_edges i) k)"
  "mget (ix_hashes (pruneDeleted live i)) k = (if k \<in> set (ix_files i) \<and> k \<notin> set live then None else mget (ix_hashes i) k)"
  "mget (ix_stamps (pruneDeleted live i)) k = (if k \<in> set (ix_files i) \<and> k \<notin> set live then None else mget (ix_stamps i) k)"
  unfolding pruneDeleted_def prune_step_def[symmetric]
  by (rule prune_lookup, simp add: drop_path_def)+

lemma pruneDeleted_wf: "wf_files i \<Longrightarrow> wf_files (pruneDeleted live i)"
  unfolding pruneDeleted_def prune_step_def[symmetric] by (rule prune_wf)

lemma pruneDeleted_files: "set (ix_files (pruneDeleted live i)) = set (ix_files i) \<inter> set live"
  unfolding pruneDeleted_def prune_step_def[symmetric] by (auto simp: prune_files)

lemma delta_fast_correct:
  assumes ok: "scan_ok ex B S items" and p: "index_of ex B p" and all: "list_all wi_reuse items"
  shows "index_of ex S (delta_fast ex p items)"
    and "globals_of (ex_lower ex) (delta_fast ex p items)"
proof -
  let ?m = "fold put_meta items (cloneIndexShallow p)"
  let ?i = "pruneDeleted (map wi_rel items) ?m"
  have dist: "distinct (map wi_rel items)" and domS: "dom S = wi_rel ` set items"
    using ok by (simp_all add: scan_ok_def)
  have wfp: "wf_files p" using p by (simp add: index_of_def)
  note cl = clone_fields[OF wfp]
  have files: "set (ix_files ?m) = dom B" using index_of_keys[OF p] by (simp add: cl del: set_map)
  have wfm: "wf_files ?m" using wfp by (intro put_meta_wf) (simp add: wf_files_def cl)
  have hit: "entry_ok ex S ?i k" if it: "it \<in> set items" and k: "k = wi_rel it" for it k
  proof -
    have "wi_reuse it" using all it by (simp add: list_all_iff)
    with scan_okD[OF ok it] obtain b st where b: "S (wi_rel it) = Some (b, wi_stamp it)"
      "wi_hash it = ex_hash ex b" "B (wi_rel it) = Some (b, st)" by metis
    have "entry_ok ex B p k" using p by (simp add: index_of_def)
    with b it show ?thesis
      by (auto simp: entry_ok_def pruneDeleted_fields cl put_meta_fields k fold_put_opt_hit[OF dist it])
  qed
  have miss: "entry_ok ex S ?i k" if k: "k \<notin> wi_rel ` set items" for k
  proof -
    have "S k = None" using k domS by auto
    moreover have "entry_ok ex B p k" using p by (simp add: index_of_def)
    ultimately show ?thesis using k files
      by (cases "B k")
         (auto simp: entry_ok_def pruneDeleted_fields cl put_meta_fields fold_put_opt_other dom_def)
  qed
  have idx: "index_of ex S ?i"
    unfolding index_of_def using pruneDeleted_wf[OF wfm] hit miss by blast
  then show "index_of ex S (delta_fast ex p items)" by (simp add: delta_fast_def)
  show "globals_of (ex_lower ex) (delta_fast ex p items)"
    unfolding delta_fast_def using domS by (intro globals_of_rebuild[OF idx]) (auto simp: pruneDeleted_files)
qed


section \<open>The walk\<close>

text \<open>A directory tree as the file system gives it: entry names are distinct,
  non-empty, without a separator, and never the dot entry.\<close>

fun wf_node :: "node \<Rightarrow> bool" where
  "wf_node (Dir ents) =
    (distinct (map fst ents) \<and>
     list_all (\<lambda>(n, c). n \<noteq> [] \<and> n \<noteq> ''.'' \<and> CHR ''/'' \<notin> set n \<and> wf_node c) ents)"
| "wf_node _ = True"

definition under :: "string \<Rightarrow> string \<Rightarrow> bool" where
  "under rel p \<longleftrightarrow> p = rel \<or> (\<exists>t. p = rel @ ''/'' @ t)"

lemma under_name:
  assumes "under n p" "CHR ''/'' \<notin> set n"
  shows "takeWhile (\<lambda>c. c \<noteq> CHR ''/'') p = n"
proof -
  have slash: "takeWhile (\<lambda>c. c \<noteq> CHR ''/'') (n @ CHR ''/'' # t) = n" for t
    using assms(2) by (induction n) auto
  have whole: "takeWhile (\<lambda>c. c \<noteq> CHR ''/'') n = n" using assms(2) by (induction n) auto
  from assms(1) consider "p = n" | t where "p = n @ CHR ''/'' # t" by (auto simp: under_def)
  then show ?thesis by cases (simp_all only: slash whole)
qed

lemma under_child: "rel \<noteq> ''.'' \<Longrightarrow> under (child_path rel n) p \<Longrightarrow> \<exists>t. p = rel @ ''/'' @ t \<and> under n t"
  by (auto simp: under_def child_path_def)

lemma child_path_props:
  assumes "n \<noteq> []" "n \<noteq> ''.''" "rel \<noteq> []"
  shows "child_path rel n \<noteq> ''.''" "child_path rel n \<noteq> []"
  using assms by (auto simp: child_path_def append_eq_Cons_conv)

lemma walk_under:
  assumes "wf_node nd" "(p, info) \<in> set (walk ig sk kp name rel nd)" "rel \<noteq> ''.''" "rel \<noteq> []"
  shows "under rel p"
  using assms
proof (induction ig sk kp name rel nd arbitrary: p rule: walk.induct)
  case (2 ig sk kp name rel ents)
  then obtain n c where nc: "(n, c) \<in> set ents" "(p, info) \<in> set (walk ig sk kp n (child_path rel n) c)"
    by (auto split: if_splits)
  have "n \<noteq> []" "n \<noteq> ''.''" "wf_node c" using "2.prems"(1) nc(1) by (auto simp: list_all_iff)
  moreover have "\<not> (ig rel True \<or> sk name)" using "2.prems"(2) by (auto split: if_splits)
  ultimately have "under (child_path rel n) p"
    using "2.IH"[OF _ nc(1) refl _ nc(2)] child_path_props "2.prems"(4) by blast
  with under_child[OF "2.prems"(3)] show ?case by (auto simp: under_def)
qed (auto simp: under_def split: if_splits)

lemma walk_child_name:
  assumes "wf_node c" "n \<noteq> []" "n \<noteq> ''.''" "CHR ''/'' \<notin> set n" "rel \<noteq> []"
    and "(p, info) \<in> set (walk ig sk kp n (child_path rel n) c)"
  shows "n = takeWhile (\<lambda>c. c \<noteq> CHR ''/'') (if rel = ''.'' then p else drop (length rel + 1) p)"
proof -
  have "under (child_path rel n) p"
    using walk_under[OF assms(1,6)] child_path_props[OF assms(2,3,5)] by blast
  then show ?thesis
  proof (cases "rel = ''.''")
    case True
    with \<open>under (child_path rel n) p\<close> assms(4) under_name show ?thesis by (simp add: child_path_def)
  next
    case False
    then obtain t where "p = rel @ ''/'' @ t" "under n t"
      using under_child[OF False \<open>under (child_path rel n) p\<close>] by blast
    with False under_name[OF _ assms(4)] show ?thesis by simp
  qed
qed

lemma walk_distinct:
  assumes "wf_node nd" "rel \<noteq> []"
  shows "distinct (map fst (walk ig sk kp name rel nd))"
  using assms
proof (induction ig sk kp name rel nd rule: walk.induct)
  case (2 ig sk kp name rel ents)
  have wf: "n \<noteq> []" "n \<noteq> ''.''" "CHR ''/'' \<notin> set n" "wf_node c" if "(n, c) \<in> set ents" for n c
    using "2.prems"(1) that by (auto simp: list_all_iff)
  show ?case
  proof (cases "ig rel True \<or> sk name")
    case False
    have "distinct (map fst (concat (map (\<lambda>(n, c). walk ig sk kp n (child_path rel n) c) es)))"
      if "set es \<subseteq> set ents" "distinct (map fst es)" for es
      using that
    proof (induction es)
      case (Cons e es)
      obtain n c where e: "e = (n, c)" by force
      have nc: "(n, c) \<in> set ents" using Cons.prems e by auto
      have d: "distinct (map fst (walk ig sk kp n (child_path rel n) c))"
        using "2.IH"[OF False nc refl] wf[OF nc] child_path_props "2.prems"(2) by blast
      have "fst ` set (walk ig sk kp n (child_path rel n) c)
          \<inter> fst ` (\<Union>(m, d) \<in> set es. set (walk ig sk kp m (child_path rel m) d)) = {}"
      proof (rule ccontr)
        assume "\<not> ?thesis"
        then obtain q i j m d where q: "(q, i) \<in> set (walk ig sk kp n (child_path rel n) c)"
          "(m, d) \<in> set es" "(q, j) \<in> set (walk ig sk kp m (child_path rel m) d)" by fastforce
        have md: "(m, d) \<in> set ents" using q(2) Cons.prems by auto
        have "n = m"
          using walk_child_name[OF wf(4,1,2,3)[OF nc] "2.prems"(2) q(1)]
            walk_child_name[OF wf(4,1,2,3)[OF md] "2.prems"(2) q(3)] by simp
        with q(2) Cons.prems(2) e show False by force
      qed
      with d Cons show ?case by (auto simp: e map_concat)
    qed simp
    from this[of ents] "2.prems"(1) False show ?thesis by simp
  qed simp
qed auto

lemma walk_nonempty:
  assumes "wf_node nd" "rel \<noteq> []" "(p, info) \<in> set (walk ig sk kp name rel nd)"
  shows "p \<noteq> []"
  using assms
proof (induction ig sk kp name rel nd arbitrary: p rule: walk.induct)
  case (2 ig sk kp name rel ents)
  then obtain n c where nc: "(n, c) \<in> set ents" "(p, info) \<in> set (walk ig sk kp n (child_path rel n) c)"
    by (auto split: if_splits)
  have "n \<noteq> []" "n \<noteq> ''.''" "wf_node c" using "2.prems"(1) nc(1) by (auto simp: list_all_iff)
  moreover have "\<not> (ig rel True \<or> sk name)" using "2.prems"(3) by (auto split: if_splits)
  ultimately show ?case
    using "2.IH"[OF _ nc(1) refl _ _ nc(2)] child_path_props "2.prems"(2) by blast
qed (auto split: if_splits)


section \<open>The scan\<close>

definition snap_of :: "osenv \<Rightarrow> string list \<Rightarrow> snapshot" where
  "snap_of os paths rel =
    (if rel \<in> set paths
     then (case (os_stat os rel, os_read os rel) of
             (Some info, Some b) \<Rightarrow> Some (b, stamp_of info) | _ \<Rightarrow> None)
     else None)"

text \<open>An unchanged size and modification time means unchanged content: the
  assumption under which a stamp may stand for a read.\<close>

definition honest_stamps :: "snapshot \<Rightarrow> osenv \<Rightarrow> bool" where
  "honest_stamps B os \<longleftrightarrow>
    (\<forall>rel b st info. B rel = Some (b, st) \<and> os_stat os rel = Some info \<and> StampEqual st (stamp_of info)
      \<longrightarrow> os_read os rel = Some b)"

text \<open>No two contents of one path that meet in a refresh share a digest.\<close>

definition collision_free :: "extractor \<Rightarrow> snapshot \<Rightarrow> osenv \<Rightarrow> bool" where
  "collision_free ex B os \<longleftrightarrow>
    (\<forall>rel b st b'. B rel = Some (b, st) \<and> os_read os rel = Some b' \<and> ex_hash ex b' = ex_hash ex b
      \<longrightarrow> b' = b)"

lemma scan_fresh:
  "scan_item ex os None None rel =
    (case (os_stat os rel, os_read os rel) of
       (Some info, Some b) \<Rightarrow> Some \<lparr>wi_rel = rel, wi_raw = b, wi_hash = ex_hash ex b,
          wi_stamp = stamp_of info, wi_reuse = False, wi_bodyRead = True\<rparr>
     | _ \<Rightarrow> None)"
  by (simp add: scan_item_def stamp_hit_def hash_hit_def Let_def split: option.splits)

lemma scan_fresh_new: "scan_item ex os None None rel = Some it \<Longrightarrow> \<not> wi_reuse it"
  by (auto simp: scan_fresh split: option.split_asm)

lemma scan_prev:
  assumes p: "index_of ex B p" and hs: "honest_stamps B os" and cf: "collision_free ex B os"
    and rel: "rel \<in> set paths"
  shows "case scan_item ex os (Some p) (Some (ix_hashes p)) rel of
      None \<Rightarrow> snap_of os paths rel = None
    | Some it \<Rightarrow> wi_rel it = rel \<and> (\<exists>b. snap_of os paths rel = Some (b, wi_stamp it) \<and> wi_hash it = ex_hash ex b
        \<and> (if wi_reuse it then \<exists>st. B rel = Some (b, st) else wi_raw it = b))"
proof -
  have e: "mget (ix_postings p) rel = map_option (\<lambda>(b, st). tokenFreq ex b) (B rel)"
    "mget (ix_hashes p) rel = map_option (\<lambda>(b, st). ex_hash ex b) (B rel)"
    "mget (ix_stamps p) rel = map_option snd (B rel)"
    using p by (simp_all add: index_of_def entry_ok_def)
  show ?thesis
  proof (cases "os_stat os rel")
    case None
    then show ?thesis by (simp add: scan_item_def snap_of_def)
  next
    case (Some info)
    show ?thesis
    proof (cases "stamp_hit (Some p) rel (stamp_of info)")
      case True
      then obtain b st where B: "B rel = Some (b, st)" "StampEqual st (stamp_of info)"
        by (auto simp: stamp_hit_def e split: option.splits)
      with hs Some have "os_read os rel = Some b" unfolding honest_stamps_def by blast
      with B True Some rel show ?thesis
        by (auto simp: scan_item_def snap_of_def Let_def e mget0_def)
    next
      case False
      show ?thesis
      proof (cases "os_read os rel")
        case None
        with False Some show ?thesis by (simp add: scan_item_def snap_of_def Let_def)
      next
        case (Some b')
        have "\<exists>st. B rel = Some (b', st)" if "hash_hit (Some p) (Some (ix_hashes p)) rel (ex_hash ex b')"
        proof -
          from that obtain b st where B: "B rel = Some (b, st)" "ex_hash ex b' = ex_hash ex b"
            by (auto simp: hash_hit_def e)
          with cf Some have "b' = b" unfolding collision_free_def by blast
          with B show ?thesis by blast
        qed
        with False Some \<open>os_stat os rel = Some info\<close> rel show ?thesis
          by (simp add: scan_item_def snap_of_def Let_def)
      qed
    qed
  qed
qed

lemma rel_map_filter:
  assumes "\<And>r it. r \<in> set paths \<Longrightarrow> scan r = Some it \<Longrightarrow> wi_rel it = r"
  shows "map wi_rel (List.map_filter (\<lambda>x. x) (map scan paths)) = filter (\<lambda>r. scan r \<noteq> None) paths"
  using assms by (induction paths) (auto simp: List.map_filter_simps split: option.splits)

lemma in_map_filter: "it \<in> set (List.map_filter (\<lambda>x. x) (map scan paths)) \<longleftrightarrow> (\<exists>r \<in> set paths. scan r = Some it)"
  by (induction paths) (auto simp: List.map_filter_simps split: option.splits)

lemma scan_ok_intro:
  assumes "distinct paths" "[] \<notin> set paths"
    and scan: "\<And>rel. rel \<in> set paths \<Longrightarrow> case scan rel of
      None \<Rightarrow> S rel = None
    | Some it \<Rightarrow> wi_rel it = rel \<and> (\<exists>b. S rel = Some (b, wi_stamp it) \<and> wi_hash it = ex_hash ex b
        \<and> (if wi_reuse it then \<exists>st. B rel = Some (b, st) else wi_raw it = b))"
    and S: "\<And>rel. rel \<notin> set paths \<Longrightarrow> S rel = None"
  shows "scan_ok ex B S (List.map_filter (\<lambda>x. x) (map scan paths))"
proof -
  let ?items = "List.map_filter (\<lambda>x. x) (map scan paths)"
  have rel: "wi_rel it = r" if "r \<in> set paths" "scan r = Some it" for r it
    using scan[OF that(1)] that(2) by simp
  have rels: "map wi_rel ?items = filter (\<lambda>r. scan r \<noteq> None) paths" by (rule rel_map_filter[OF rel])
  have "dom S = set (map wi_rel ?items)"
  proof -
    have "S r \<noteq> None \<longleftrightarrow> r \<in> set paths \<and> scan r \<noteq> None" for r
      using scan[of r] S[of r] by (cases "r \<in> set paths") (auto split: option.splits)
    then have "dom S = {r. r \<in> set paths \<and> scan r \<noteq> None}" unfolding dom_def by simp
    then show ?thesis unfolding rels by auto
  qed
  moreover have "\<exists>b. S (wi_rel it) = Some (b, wi_stamp it) \<and> wi_hash it = ex_hash ex b
        \<and> (if wi_reuse it then \<exists>st. B (wi_rel it) = Some (b, st) else wi_raw it = b)"
    if "it \<in> set ?items" for it
  proof -
    from that obtain r where r: "r \<in> set paths" "scan r = Some it" by (auto simp: in_map_filter)
    with scan[OF r(1)] show ?thesis by auto
  qed
  moreover have "distinct (map wi_rel ?items)" unfolding rels using assms(1) by simp
  moreover have "wi_rel it \<noteq> []" if "it \<in> set ?items" for it
    using that rel assms(2) by (auto simp: in_map_filter)
  ultimately show ?thesis by (simp add: scan_ok_def)
qed


section \<open>Properties of the crawls\<close>

lemma crawl_paths_props:
  assumes "wf_node (os_tree os)"
  shows "distinct (crawl_paths ex os ig)" "[] \<notin> set (crawl_paths ex os ig)"
  using walk_distinct[OF assms, of "''.''"] walk_nonempty[OF assms, of "''.''" "[]"]
  by (auto simp: crawl_paths_def)

lemma crawl_fresh_correct:
  assumes "wf_node (os_tree os)" "os_ignores os = Inr ig" "\<And>xs. mset (concat (sched xs)) = mset xs"
  shows "\<exists>i st. CrawlDeltaFrom ex os sched w None None dur = Inr (i, st, mcopy (ix_hashes i) [])
    \<and> index_of ex (snap_of os (crawl_paths ex os ig)) i \<and> globals_of (ex_lower ex) i"
proof -
  let ?items = "List.map_filter (\<lambda>x. x) (map (scan_item ex os None None) (crawl_paths ex os ig))"
  have ok: "scan_ok ex Map.empty (snap_of os (crawl_paths ex os ig)) ?items"
    using crawl_paths_props[OF assms(1)]
    by (intro scan_ok_intro) (auto simp: scan_fresh snap_of_def split: option.splits)
  have none: "\<forall>it \<in> set ?items. \<not> wi_reuse it"
    using scan_fresh_new by (auto simp: in_map_filter)
  show ?thesis
    using delta_full_correct[OF ok _ assms(3), of None] none assms(2)
    by (simp add: CrawlDeltaFrom_def Let_def)
qed

lemma crawl_delta_correct:
  assumes "wf_node (os_tree os)" "os_ignores os = Inr ig" "\<And>xs. mset (concat (sched xs)) = mset xs"
    and "index_of ex B p" "honest_stamps B os" "collision_free ex B os"
  shows "\<exists>i st. CrawlDeltaFrom ex os sched w None (Some p) dur = Inr (i, st, mcopy (ix_hashes i) [])
    \<and> index_of ex (snap_of os (crawl_paths ex os ig)) i \<and> globals_of (ex_lower ex) i"
proof -
  let ?scan = "scan_item ex os (Some p) (Some (ix_hashes p))"
  let ?items = "List.map_filter (\<lambda>x. x) (map ?scan (crawl_paths ex os ig))"
  have ok: "scan_ok ex B (snap_of os (crawl_paths ex os ig)) ?items"
    using crawl_paths_props[OF assms(1)] scan_prev[OF assms(4-6)]
    by (intro scan_ok_intro) (auto simp: snap_of_def)
  show ?thesis
    using delta_full_correct[OF ok _ assms(3), of "Some p"] delta_fast_correct[OF ok assms(4)] assms(2,4)
    by (simp add: CrawlDeltaFrom_def Let_def)
qed

text \<open>C1.  Incrementality is invisible: on any tree, an incremental crawl that
  starts from an index of an earlier snapshot, reuses files by stamp or by hash
  and prunes deleted ones, succeeds and yields an index that agrees with a crawl
  from scratch on every per-file map, the file set, the inverted index and the
  symbol graph, for every distribution of the work over the workers, provided
  equal stamps mean equal content and digests of one path do not collide.\<close>

theorem incremental_crawl_equals_full_crawl:
  assumes "wf_node (os_tree os)" "os_ignores os = Inr ig"
    and "\<And>xs. mset (concat (sched xs)) = mset xs" "\<And>xs. mset (concat (sched' xs)) = mset xs"
    and "index_of ex B p" "honest_stamps B os" "collision_free ex B os"
  shows "\<exists>i st hs j st' hs'. CrawlDeltaFrom ex os sched w None (Some p) dur = Inr (i, st, hs)
    \<and> CrawlDeltaFrom ex os sched' w' None None dur' = Inr (j, st', hs') \<and> index_equiv i j"
  using crawl_delta_correct[OF assms(1,2,3,5-7), of w dur] crawl_fresh_correct[OF assms(1,2,4), of ex w' dur']
    index_of_determines by blast

text \<open>A small tree, before and after an edit.\<close>

definition sample_ex :: extractor where
  "sample_ex = \<lparr>ex_lower = (\<lambda>s. s), ex_word = (\<lambda>r. 97 \<le> r \<and> r \<le> 122),
     ex_symbols = (\<lambda>rel b. ([], [], [])), ex_edges = (\<lambda>rel b. []), ex_hash = (\<lambda>b. b)\<rparr>"

definition sample_os :: "int \<Rightarrow> string \<Rightarrow> osenv" where
  "sample_os t b = \<lparr>os_tree = Dir [(''a.go'', File \<lparr>fi_regular = True, fi_size = 2, fi_mtime = t\<rparr>)],
     os_stat = (\<lambda>rel. if rel = ''a.go'' then Some \<lparr>fi_regular = True, fi_size = 2, fi_mtime = t\<rparr> else None),
     os_read = (\<lambda>rel. if rel = ''a.go'' then Some b else None),
     os_ignores = Inr (\<lambda>rel dir. False), os_name = ''w''\<rparr>"

definition sample_snap :: snapshot where
  "sample_snap = snap_of (sample_os 1 ''go'') (crawl_paths sample_ex (sample_os 1 ''go'') (\<lambda>rel dir. False))"

lemma sample_snap_Some: "sample_snap rel = Some (b, st) \<Longrightarrow> rel = ''a.go'' \<and> b = ''go'' \<and> MtimeNs st = 1"
  by (auto simp: sample_snap_def snap_of_def sample_os_def stamp_of_def split: if_splits option.splits)

lemma sample_wf: "wf_node (os_tree (sample_os t b))" "os_ignores (sample_os t b) = Inr (\<lambda>rel dir. False)"
  by (simp_all add: sample_os_def)

lemma sample_honest: "honest_stamps sample_snap (sample_os 2 ''to'')"
  "collision_free sample_ex sample_snap (sample_os 2 ''to'')"
  using sample_snap_Some
  by (fastforce simp: honest_stamps_def collision_free_def sample_os_def StampEqual_def stamp_of_def
        sample_ex_def split: if_splits)+

theorem incremental_crawl_equals_full_crawl_witness:
  "\<exists>p i st hs j st' hs'. index_of sample_ex sample_snap p
    \<and> CrawlDeltaFrom sample_ex (sample_os 2 ''to'') (\<lambda>xs. [xs]) 4 None (Some p) 0 = Inr (i, st, hs)
    \<and> CrawlDeltaFrom sample_ex (sample_os 2 ''to'') (\<lambda>xs. [[], xs]) 4 None None 0 = Inr (j, st', hs')
    \<and> index_equiv i j"
proof -
  obtain p where p: "index_of sample_ex sample_snap p"
    using crawl_fresh_correct[OF sample_wf(1)[of 1 "''go''"] sample_wf(2), of "\<lambda>xs. [xs]" sample_ex 1 0]
    unfolding sample_snap_def by auto
  show ?thesis
    using incremental_crawl_equals_full_crawl[OF sample_wf(1)[of 2 "''to''"] sample_wf(2) _ _ p sample_honest,
        of "\<lambda>xs. [xs]" "\<lambda>xs. [[], xs]" 4 0 4 0] p by auto
qed

end
