(* ===== verification/Crawl_Full.thy ===== *)
theory Crawl_Full
  imports Crawl_Delta
begin

text \<open>
  The full crawl \<^verbatim>\<open>CrawlDir\<close>: its per-file maps and its inverted index, which
  it accumulates by addition in the workers and in the merge, agree with those of
  the crawl that rebuilds them; the statistics of both crawls account for every
  file.
\<close>

section \<open>The inverted index of the workers\<close>

definition wf_map2 :: "('a, ('b, 'v) gomap) gomap \<Rightarrow> bool" where
  "wf_map2 m \<longleftrightarrow> wf_map m \<and> (\<forall>a n. mget m a = Some n \<longrightarrow> wf_map n)"

definition count0 :: "nat option \<Rightarrow> nat" where
  "count0 x = (case x of None \<Rightarrow> 0 | Some n \<Rightarrow> n)"

definition inv_ok :: "(string, (string, nat) gomap) gomap \<Rightarrow> (string, (string, nat) gomap) gomap \<Rightarrow> bool" where
  "inv_ok post m \<longleftrightarrow> wf_map2 m \<and> wf_map2 post \<and>
    (\<forall>t q. mget2 m t q = Option.bind (mget post q) (\<lambda>fp. mget fp t))"

lemma wf_map2_bump: "wf_map2 m \<Longrightarrow> wf_map2 (bump tok rel n m)"
  by (auto simp: wf_map2_def bump_def mput2_def mget0_def split: option.splits)

lemma mget2_bump: "mget2 (bump tok rel n m) t q =
    (if t = tok \<and> q = rel then Some (count0 (mget2 m t q) + n) else mget2 m t q)"
  by (auto simp: bump_def count0_def mget2_def[of m] mget0_def split: option.splits)

lemma fold_bump_path:
  "wf_map fp \<Longrightarrow> wf_map2 m \<Longrightarrow> wf_map2 (fold (\<lambda>(tok, n). bump tok rel n) fp m)
    \<and> mget2 (fold (\<lambda>(tok, n). bump tok rel n) fp m) t q =
      (if q = rel then (case mget fp t of None \<Rightarrow> mget2 m t q | Some n \<Rightarrow> Some (count0 (mget2 m t q) + n))
       else mget2 m t q)"
proof (induction fp arbitrary: m)
  case (Cons p fp)
  obtain a v where p: "p = (a, v)" by force
  from Cons.prems have "wf_map fp" "mget fp a = None" "wf_map2 (bump a rel v m)"
    by (auto simp: wf_map_def p mget_None_iff wf_map2_bump)
  with Cons.IH[of "bump a rel v m"] show ?case by (auto simp: p mget2_bump split: option.splits)
qed simp

lemma fold_bump_tok:
  "wf_map ps \<Longrightarrow> wf_map2 m \<Longrightarrow> wf_map2 (fold (\<lambda>(path, n). bump tok path n) ps m)
    \<and> mget2 (fold (\<lambda>(path, n). bump tok path n) ps m) t q =
      (if t = tok then (case mget ps q of None \<Rightarrow> mget2 m t q | Some n \<Rightarrow> Some (count0 (mget2 m t q) + n))
       else mget2 m t q)"
proof (induction ps arbitrary: m)
  case (Cons p ps)
  obtain a v where p: "p = (a, v)" by force
  from Cons.prems have "wf_map ps" "mget ps a = None" "wf_map2 (bump tok a v m)"
    by (auto simp: wf_map_def p mget_None_iff wf_map2_bump)
  with Cons.IH[of "bump tok a v m"] show ?case by (auto simp: p mget2_bump split: option.splits)
qed simp

lemma fold_bump_merge:
  assumes "wf_map ls" "\<forall>n \<in> snd ` set ls. wf_map n" "wf_map2 m"
  shows "wf_map2 (fold (\<lambda>(tok, postings). fold (\<lambda>(path, n). bump tok path n) postings) ls m)
    \<and> mget2 (fold (\<lambda>(tok, postings). fold (\<lambda>(path, n). bump tok path n) postings) ls m) t q =
      (case mget2 ls t q of None \<Rightarrow> mget2 m t q | Some n \<Rightarrow> Some (count0 (mget2 m t q) + n))"
  using assms
proof (induction ls arbitrary: m)
  case (Cons p ls)
  obtain a ps where p: "p = (a, ps)" by force
  let ?m = "fold (\<lambda>(path, n). bump a path n) ps m"
  from Cons.prems have wf: "wf_map ls" "mget ls a = None" "wf_map ps" "\<forall>n \<in> snd ` set ls. wf_map n"
    by (auto simp: wf_map_def p mget_None_iff)
  note inner = fold_bump_tok[OF wf(3) Cons.prems(3)]
  from Cons.IH[OF wf(1,4), of ?m] inner[of a t q] inner[THEN conjunct1] wf(2) show ?case
    by (auto simp: p mget2_def[of "(a, ps) # ls"] mget2_def[of ls] split: option.splits)
qed simp

lemma wf_map2_inner: "wf_map2 m \<Longrightarrow> wf_map m \<and> (\<forall>n \<in> snd ` set m. wf_map n)"
  by (auto simp: wf_map2_def mget_set)

lemma worker_inv_ok:
  assumes "inv_ok (li_filePost l) (li_inverted l)" "mget (li_filePost l) (wi_rel it) = None"
  shows "inv_ok (li_filePost (delta_worker ex it l)) (li_inverted (delta_worker ex it l))"
proof -
  have inverted: "li_inverted (delta_worker ex it l) =
      fold (\<lambda>(tok, n). bump tok (wi_rel it) n) (tokenFreq ex (wi_raw it)) (li_inverted l)"
    by (simp add: delta_worker_def li_add_def li_note_def Let_def split: prod.splits)
  have zero: "mget2 (li_inverted l) t (wi_rel it) = None" for t
    using assms by (simp add: inv_ok_def)
  have wf: "wf_map2 (li_inverted l)" "wf_map2 (li_filePost l)" using assms(1) by (simp_all add: inv_ok_def)
  note fb = fold_bump_path[OF tokenFreq_wf[of ex "wi_raw it"] wf(1)]
  have "wf_map2 (put_opt wi_rel (v_post ex) it (li_filePost l))"
    using wf(2) by (auto simp: wf_map2_def v_post_def put_opt_def)
  then show ?thesis
    using assms(1) fb[THEN conjunct1] fb[THEN conjunct2] zero
    by (auto simp: inv_ok_def inverted delta_worker_fields v_post_def count0_def split: option.splits)
qed

lemma part_inv_ok:
  assumes "inv_ok (li_filePost l) (li_inverted l)" "distinct (map wi_rel p)"
    and "\<forall>it \<in> set p. mget (li_filePost l) (wi_rel it) = None"
  shows "inv_ok (li_filePost (fold (delta_worker ex) p l)) (li_inverted (fold (delta_worker ex) p l))"
  using assms
proof (induction p arbitrary: l)
  case (Cons it p)
  then have "inv_ok (li_filePost (delta_worker ex it l)) (li_inverted (delta_worker ex it l))"
    by (simp add: worker_inv_ok)
  moreover have "\<forall>x \<in> set p. mget (li_filePost (delta_worker ex it l)) (wi_rel x) = None"
    using Cons.prems by (auto simp: delta_worker_fields image_iff)
  ultimately show ?case using Cons by simp
qed simp

lemma merge_inv_ok:
  assumes "inv_ok (ix_postings i) (ix_inverted i)" "inv_ok (li_filePost l) (li_inverted l)"
    and "\<And>k. mget (li_filePost l) k \<noteq> None \<Longrightarrow> mget (ix_postings i) k = None"
  shows "inv_ok (ix_postings (mergeInto l i)) (ix_inverted (mergeInto l i))"
proof -
  have wf: "wf_map2 (ix_inverted i)" "wf_map2 (ix_postings i)" "wf_map2 (li_inverted l)" "wf_map2 (li_filePost l)"
    using assms(1,2) by (simp_all add: inv_ok_def)
  note fb = fold_bump_merge[OF wf_map2_inner[OF wf(3), THEN conjunct1] wf_map2_inner[OF wf(3), THEN conjunct2] wf(1)]
  have wfp: "wf_map (li_filePost l)" using wf(4) by (simp add: wf_map2_def)
  have post: "mget (ix_postings (mergeInto l i)) q =
      (case mget (li_filePost l) q of None \<Rightarrow> mget (ix_postings i) q | Some v \<Rightarrow> Some v)" for q
    by (simp add: mergeInto_def map_of_mcopy[OF wfp])
  have "wf_map2 (ix_postings (mergeInto l i))"
    using wf(2,4) post by (auto simp: wf_map2_def mergeInto_def split: option.splits)
  moreover have "mget2 (ix_inverted (mergeInto l i)) t q =
      Option.bind (mget (ix_postings (mergeInto l i)) q) (\<lambda>fp. mget fp t)" for t q
  proof -
    have "mget2 (ix_inverted i) t q = Option.bind (mget (ix_postings i) q) (\<lambda>fp. mget fp t)"
      "mget2 (li_inverted l) t q = Option.bind (mget (li_filePost l) q) (\<lambda>fp. mget fp t)"
      using assms(1,2) by (simp_all add: inv_ok_def)
    with fb[of t q] assms(3)[of q] show ?thesis unfolding post
      by (auto simp: mergeInto_def count0_def split: option.splits)
  qed
  ultimately show ?thesis using fb by (simp add: inv_ok_def mergeInto_def)
qed

lemma inv_ok_Nil [simp]: "inv_ok [] []"
  by (simp add: inv_ok_def wf_map2_def)

lemma merged_inv_ok:
  assumes "distinct (map wi_rel (concat parts))"
  shows "inv_ok (ix_postings (merged ex parts)) (ix_inverted (merged ex parts))"
proof -
  let ?w = "\<lambda>p. fold (delta_worker ex) p newLocalIndex"
  have "inv_ok (ix_postings (fold mergeInto (map ?w ps) i)) (ix_inverted (fold mergeInto (map ?w ps) i))"
    if "distinct (map wi_rel (concat ps))" "inv_ok (ix_postings i) (ix_inverted i)"
      "\<forall>it \<in> set (concat ps). mget (ix_postings i) (wi_rel it) = None" for ps i
    using that
  proof (induction ps arbitrary: i)
    case (Cons p ps)
    have keys: "mget (li_filePost (?w p)) k = None" if "k \<notin> wi_rel ` set p" for k
      using that by (simp add: delta_part_fields fold_put_opt_other newLocalIndex_def)
    have fresh: "mget (ix_postings i) k = None" if "mget (li_filePost (?w p)) k \<noteq> None" for k
    proof -
      have "k \<in> wi_rel ` set p" using that keys[of k] by (cases "k \<in> wi_rel ` set p") simp_all
      then obtain it where "it \<in> set p" "k = wi_rel it" by (rule imageE)
      with Cons.prems(3) show ?thesis by simp
    qed
    have "inv_ok (li_filePost (?w p)) (li_inverted (?w p))"
      using Cons.prems(1) by (intro part_inv_ok) (auto simp: newLocalIndex_def)
    with Cons.prems(2) have ok: "inv_ok (ix_postings (mergeInto (?w p) i)) (ix_inverted (mergeInto (?w p) i))"
      by (rule merge_inv_ok) (rule fresh)
    have wfp: "wf_map (li_filePost (?w p))" by (simp add: delta_part_fields newLocalIndex_def)
    have "mget (ix_postings (mergeInto (?w p) i)) (wi_rel it) = None" if "it \<in> set (concat ps)" for it
    proof -
      have "wi_rel it \<notin> wi_rel ` set p" using Cons.prems(1) that by auto
      with keys Cons.prems(3) that show ?thesis by (simp add: mergeInto_def map_of_mcopy[OF wfp])
    qed
    with ok Cons.IH[of "mergeInto (?w p) i"] Cons.prems(1) show ?case by simp
  qed simp
  from this[OF assms, of newEmptyIndex] show ?thesis by (simp add: merged_def newEmptyIndex_def)
qed


section \<open>The full crawl\<close>

text \<open>What a worker of the full crawl makes of one path.\<close>

definition dir_scan :: "extractor \<Rightarrow> osenv \<Rightarrow> string \<Rightarrow> workItem option" where
  "dir_scan ex os path =
    (case os_stat os path of
       None \<Rightarrow> None
     | Some info \<Rightarrow> if indexableFile info then scan_item ex os None None path else None)"

lemma dir_item_scan:
  "dir_item ex os path s =
    (case dir_scan ex os path of
       None \<Rightarrow> (fst s, snd s + 1) | Some it \<Rightarrow> (delta_worker ex it (fst s), snd s))"
  by (simp add: dir_item_def dir_scan_def scan_fresh delta_worker_def split: option.splits)

lemma dir_fold_scan:
  "fold (dir_item ex os) part s =
    (fold (delta_worker ex) (List.map_filter (dir_scan ex os) part) (fst s),
     snd s + length (filter (\<lambda>p. dir_scan ex os p = None) part))"
  by (induction part arbitrary: s) (auto simp: dir_item_scan List.map_filter_simps split: option.splits)

lemma map_filter_map: "List.map_filter (\<lambda>x. x) (map f xs) = List.map_filter f xs"
  by (induction xs) (auto split: option.splits)

lemma map_filter_append: "List.map_filter f (xs @ ys) = List.map_filter f xs @ List.map_filter f ys"
  by (simp add: List.map_filter_def)

lemma mset_map_filter: "mset xs = mset ys \<Longrightarrow> mset (List.map_filter f xs) = mset (List.map_filter f ys)"
  by (simp add: List.map_filter_def)

lemma concat_map_filter: "concat (map (List.map_filter f) parts) = List.map_filter f (concat parts)"
  by (induction parts) (simp_all add: map_filter_append List.map_filter_simps)

definition dir_snap :: "osenv \<Rightarrow> string list \<Rightarrow> snapshot" where
  "dir_snap os paths rel =
    (case os_stat os rel of
       None \<Rightarrow> None
     | Some info \<Rightarrow> if indexableFile info then snap_of os paths rel else None)"

lemma dir_scan_new: "dir_scan ex os rel = Some it \<Longrightarrow> \<not> wi_reuse it"
  using scan_fresh_new by (auto simp: dir_scan_def split: option.split_asm if_split_asm)

lemma crawl_dir_correct:
  assumes "wf_node (os_tree os)" "os_ignores os = Inr ig" "\<And>xs. mset (concat (sched xs)) = mset xs"
    and paths_def: "paths = take MaxIndexableFiles (crawl_paths ex os ig)"
  shows "\<exists>i st. CrawlDir ex os sched w dur = Inr (i, st)
    \<and> index_of ex (dir_snap os paths) i
    \<and> inv_ok (ix_postings i) (ix_inverted i)
    \<and> set (ix_files i) = dom (dir_snap os paths)"
proof -
  let ?f = "dir_scan ex os"
  let ?parts = "map (List.map_filter ?f) (sched paths)"
  let ?items = "List.map_filter ?f paths"
  have paths: "distinct paths" "[] \<notin> set paths"
    using crawl_paths_props[OF assms(1), of ex ig] by (auto simp: paths_def dest: in_set_takeD)
  have perm: "mset (concat ?parts) = mset ?items"
    unfolding concat_map_filter by (intro mset_map_filter assms(3))
  have items: "?items = List.map_filter (\<lambda>x. x) (map ?f paths)" by (rule map_filter_map[symmetric])
  have ok: "scan_ok ex Map.empty (dir_snap os paths) ?items"
    using paths unfolding items
    by (intro scan_ok_intro)
       (auto simp: dir_scan_def scan_fresh dir_snap_def snap_of_def split: option.splits)
  have none: "\<forall>it \<in> set ?items. \<not> wi_reuse it"
    unfolding items using dir_scan_new by (auto simp: in_map_filter)
  have dist: "distinct (map wi_rel (concat ?parts))"
    using ok perm by (metis mset_eq_imp_distinct_iff mset_map scan_ok_def)
  have idx: "index_of ex (dir_snap os paths) (merged ex ?parts)"
    by (rule merged_entry_fresh[OF ok none perm])
  have files: "set (ix_files (merged ex ?parts)) = dom (dir_snap os paths)"
    using ok mset_eq_setD[OF perm] unfolding merged_files scan_ok_def by metis
  show ?thesis
    using idx files merged_inv_ok[OF dist, of ex] assms(2)
    unfolding CrawlDir_def Let_def paths_def[symmetric] merged_def
    by (simp add: dir_fold_scan comp_def flip: paths_def)
qed


section \<open>Properties\<close>

lemma dir_snap_agrees:
  assumes "\<And>rel info. rel \<in> set paths \<Longrightarrow> os_stat os rel = Some info \<Longrightarrow> indexableFile info"
  shows "dir_snap os paths = snap_of os paths"
proof
  fix rel
  show "dir_snap os paths rel = snap_of os paths rel"
    using assms[of rel] by (auto simp: dir_snap_def snap_of_def split: option.splits)
qed

text \<open>The parallel full crawl and the incremental crawl from scratch build the
  same searchable index: when the tree has at most \<^verbatim>\<open>MaxIndexableFiles\<close> source
  files and \<^verbatim>\<open>os.Stat\<close> agrees with the walk about what is indexable, both
  succeed and agree on every per-file map, on the file set and on the inverted
  index (which one accumulates by addition in its workers and merges, and the
  other rebuilds), for every distribution of the files over the workers.\<close>

theorem full_crawl_same_postings:
  assumes "wf_node (os_tree os)" "os_ignores os = Inr ig"
    and "\<And>xs. mset (concat (sched xs)) = mset xs" "\<And>xs. mset (concat (sched' xs)) = mset xs"
    and "length (crawl_paths ex os ig) \<le> MaxIndexableFiles"
    and "\<And>rel info. rel \<in> set (crawl_paths ex os ig) \<Longrightarrow> os_stat os rel = Some info \<Longrightarrow> indexableFile info"
  shows "\<exists>i st j st' hs. CrawlDir ex os sched w dur = Inr (i, st)
    \<and> CrawlDeltaFrom ex os sched' w' None None dur' = Inr (j, st', hs)
    \<and> map_of (ix_postings i) = map_of (ix_postings j) \<and> map_of (ix_defs i) = map_of (ix_defs j)
    \<and> map_of (ix_refs i) = map_of (ix_refs j) \<and> map_of (ix_imps i) = map_of (ix_imps j)
    \<and> map_of (ix_edges i) = map_of (ix_edges j) \<and> map_of (ix_hashes i) = map_of (ix_hashes j)
    \<and> map_of (ix_stamps i) = map_of (ix_stamps j) \<and> set (ix_files i) = set (ix_files j)
    \<and> mget2 (ix_inverted i) = mget2 (ix_inverted j)"
proof -
  let ?paths = "crawl_paths ex os ig"
  obtain i st where i: "CrawlDir ex os sched w dur = Inr (i, st)" "index_of ex (dir_snap os ?paths) i"
    "inv_ok (ix_postings i) (ix_inverted i)" "set (ix_files i) = dom (dir_snap os ?paths)"
    using crawl_dir_correct[OF assms(1-3) refl, of ex w dur] assms(5) by auto
  obtain j st' hs where j: "CrawlDeltaFrom ex os sched' w' None None dur' = Inr (j, st', hs)"
    "index_of ex (snap_of os ?paths) j" "globals_of (ex_lower ex) j"
    using crawl_fresh_correct[OF assms(1,2,4), of ex w' dur'] by blast
  have eq: "dir_snap os ?paths = snap_of os ?paths" by (rule dir_snap_agrees[OF assms(6)])
  have maps: "map_of (ix_postings i) = map_of (ix_postings j)" "map_of (ix_defs i) = map_of (ix_defs j)"
    "map_of (ix_refs i) = map_of (ix_refs j)" "map_of (ix_imps i) = map_of (ix_imps j)"
    "map_of (ix_edges i) = map_of (ix_edges j)" "map_of (ix_hashes i) = map_of (ix_hashes j)"
    "map_of (ix_stamps i) = map_of (ix_stamps j)"
    using i(2) j(2) unfolding eq by (auto simp: index_of_def entry_ok_def fun_eq_iff)
  have "set (ix_files i) = set (ix_files j)"
    using i(4) j(3) index_of_keys[OF j(2)] unfolding eq by (simp add: globals_of_def)
  moreover have "mget2 (ix_inverted i) = mget2 (ix_inverted j)"
    using i(3) j(3) maps(1) by (simp add: inv_ok_def globals_of_def fun_eq_iff)
  ultimately show ?thesis using i(1) j(1) maps by blast
qed

theorem full_crawl_same_postings_witness:
  "\<exists>i st j st' hs. CrawlDir sample_ex (sample_os 1 ''go'') (\<lambda>xs. [xs, []]) 2 0 = Inr (i, st)
    \<and> CrawlDeltaFrom sample_ex (sample_os 1 ''go'') (\<lambda>xs. [xs]) 1 None None 0 = Inr (j, st', hs)
    \<and> mget2 (ix_inverted i) = mget2 (ix_inverted j)"
proof -
  let ?paths = "crawl_paths sample_ex (sample_os 1 ''go'') (\<lambda>rel dir. False)"
  have "length ?paths \<le> MaxIndexableFiles"
    by (simp add: crawl_paths_def sample_os_def MaxIndexableFiles_def)
  moreover have "indexableFile info" if "os_stat (sample_os 1 ''go'') rel = Some info" for rel info
    using that by (auto simp: sample_os_def indexableFile_def MaxIndexableFileBytes_def split: if_splits)
  ultimately show ?thesis
    using full_crawl_same_postings[OF sample_wf(1)[of 1 "''go''"] sample_wf(2),
        of "\<lambda>xs. [xs, []]" "\<lambda>xs. [xs]" sample_ex 2 0 1 0] by auto
qed

lemma sum_filter_not: "length (filter P xs) + length (filter (\<lambda>x. \<not> P x) xs) = length xs"
  by (induction xs) auto

lemma map_filter_count: "length (List.map_filter (\<lambda>x. x) ys) + length (filter (\<lambda>x. x = None) ys) = length ys"
  by (induction ys) (auto split: option.splits)

lemma scan_item_skip: "scan_item ex os prev hs r = Some it \<Longrightarrow> \<not> wi_bodyRead it \<Longrightarrow> wi_reuse it"
  by (auto simp: scan_item_def Let_def split: option.split_asm if_split_asm)

lemma stamp_skip_reuse:
  "it \<in> set (List.map_filter (\<lambda>x. x) (map (scan_item ex os prev hs) paths)) \<Longrightarrow> \<not> wi_bodyRead it \<Longrightarrow> wi_reuse it"
  using scan_item_skip unfolding in_map_filter by blast

text \<open>The statistics of an incremental crawl account for every file: each
  walked path is either indexed or an error, each indexed file is either changed
  or unchanged and either hashed or skipped by its stamp, and only unchanged files
  are skipped by stamp.\<close>

theorem delta_stats_account:
  assumes "CrawlDeltaFrom ex os sched w hs0 prev dur = Inr (i, st, hs)" "os_ignores os = Inr ig"
  shows "st_FilesIndexed st + st_Errors st = length (crawl_paths ex os ig)
    \<and> st_Changed st + st_Unchanged st = st_FilesIndexed st
    \<and> st_Hashed st + st_SkippedByStamp st = st_FilesIndexed st
    \<and> st_SkippedByStamp st \<le> st_Unchanged st"
proof -
  define phs where "phs = (case (hs0, prev) of (None, Some p) \<Rightarrow> Some (ix_hashes p) | _ \<Rightarrow> hs0)"
  define scans where "scans = map (scan_item ex os prev phs) (crawl_paths ex os ig)"
  define items where "items = List.map_filter (\<lambda>x. x) scans"
  obtain wk bs where st: "st = delta_stats wk dur bs (length (filter (\<lambda>x. x = None) scans)) items"
    using assms unfolding CrawlDeltaFrom_def Let_def phs_def[symmetric]
    by (auto simp: scans_def items_def split: option.splits if_splits)
  have "length (filter (\<lambda>it. \<not> wi_bodyRead it) items) \<le> length (filter wi_reuse items)"
  proof -
    have "filter (\<lambda>it. \<not> wi_bodyRead it) items = filter (\<lambda>it. \<not> wi_bodyRead it) (filter wi_reuse items)"
      using stamp_skip_reuse by (auto simp: items_def scans_def filter_id_conv intro!: filter_cong)
    then show ?thesis by (metis length_filter_le)
  qed
  moreover have "length items + length (filter (\<lambda>x. x = None) scans) = length (crawl_paths ex os ig)"
    using map_filter_count[of scans] by (simp add: items_def scans_def)
  ultimately show ?thesis
    using sum_filter_not[of wi_reuse items] sum_filter_not[of wi_bodyRead items]
    by (simp add: st delta_stats_def)
qed

theorem delta_stats_account_witness:
  "\<exists>i st hs. CrawlDeltaFrom sample_ex (sample_os 1 ''go'') (\<lambda>xs. [xs]) 1 None None 0 = Inr (i, st, hs)
    \<and> st_FilesIndexed st + st_Errors st = 1"
proof -
  obtain i st hs where c: "CrawlDeltaFrom sample_ex (sample_os 1 ''go'') (\<lambda>xs. [xs]) 1 None None 0 = Inr (i, st, hs)"
    using crawl_fresh_correct[OF sample_wf(1)[of 1 "''go''"] sample_wf(2), of "\<lambda>xs. [xs]" sample_ex 1 0] by auto
  have "crawl_paths sample_ex (sample_os 1 ''go'') (\<lambda>rel dir. False) = [''a.go'']"
    by (simp add: crawl_paths_def sample_os_def crawl_keep_def indexableFile_def MaxIndexableFileBytes_def
          child_path_def path_ext_def path_components_def sample_ex_def extOK_def)
  with delta_stats_account[OF c sample_wf(2)] c show ?thesis by auto
qed

end
