(* ===== verification/Durable_Index.thy ===== *)
theory Durable_Index
  imports Crawl_Full
begin

text \<open>
  The durable code index (\<^verbatim>\<open>codecrawl/persist.go\<close> and
  \<^verbatim>\<open>codecrawl/index_cache.go\<close>): the snapshot that \<^verbatim>\<open>Save\<close> writes, the
  temp-file-and-rename protocol with its failures, \<^verbatim>\<open>Load\<close>, the root binding,
  the stamp census, and \<^verbatim>\<open>OpenOrRefresh\<close>.  A gob file stands for the snapshot it is the
  encoding of, and \<open>gob\<close>, an argument, for what the package \<^verbatim>\<open>encoding/gob\<close> decodes from that
  encoding; symlink resolution (\<open>canon\<close>), the git head and the clock are arguments too.
\<close>

section \<open>The snapshot\<close>

record DurableMeta =
  dm_Root :: string
  dm_GitHead :: string
  dm_IndexedAt :: int
  dm_Files :: nat
  dm_Schema :: string

record durableSnap =
  ds_Meta :: DurableMeta
  ds_FilePostings :: "(string, (string, nat) gomap) gomap"
  ds_FileDefs :: "(string, string list) gomap"
  ds_FileRefs :: "(string, string list) gomap"
  ds_FileImps :: "(string, string list) gomap"
  ds_FileHashes :: "(string, string) gomap"
  ds_FileStamps :: "(string, FileStamp) gomap"
  ds_GlobalInverted :: "(string, (string, nat) gomap) gomap"
  ds_GlobalDefs :: "(string, string list) gomap"
  ds_GlobalRefs :: "(string, string list) gomap"
  ds_FileEdges :: "(string, Edge list) gomap"

definition schema_v4 :: string where
  "schema_v4 = ''product-brain.code-index.v4''"

definition known_schemas :: "string list" where
  "known_schemas = [''product-brain.code-index.v2'', ''product-brain.code-index.v3'', schema_v4]"

definition zero_meta :: DurableMeta where
  "zero_meta = \<lparr>dm_Root = [], dm_GitHead = [], dm_IndexedAt = 0, dm_Files = 0, dm_Schema = []\<rparr>"

definition new_meta :: "string \<Rightarrow> string \<Rightarrow> int \<Rightarrow> Index \<Rightarrow> DurableMeta" where
  "new_meta rt head now idx = \<lparr>dm_Root = rt, dm_GitHead = head, dm_IndexedAt = now,
     dm_Files = length (ix_files idx), dm_Schema = schema_v4\<rparr>"

text \<open>\<^verbatim>\<open>Save\<close> rebuilds the globals of an index whose inverted map is empty; the
  rebuilt index is also what the caller holds afterwards.\<close>

definition ensure_globals :: "(string \<Rightarrow> string) \<Rightarrow> Index \<Rightarrow> Index" where
  "ensure_globals lower idx = (if ix_inverted idx = [] then rebuildGlobalFromFiles lower idx else idx)"

definition save_snap :: "string \<Rightarrow> string \<Rightarrow> int \<Rightarrow> Index \<Rightarrow> durableSnap" where
  "save_snap rt head now idx = \<lparr>ds_Meta = new_meta rt head now idx,
     ds_FilePostings = ix_postings idx, ds_FileDefs = ix_defs idx, ds_FileRefs = ix_refs idx,
     ds_FileImps = ix_imps idx, ds_FileHashes = ix_hashes idx, ds_FileStamps = ix_stamps idx,
     ds_GlobalInverted = ix_inverted idx, ds_GlobalDefs = sg_defs (ix_symbols idx),
     ds_GlobalRefs = sg_refs (ix_symbols idx), ds_FileEdges = ix_edges idx\<rparr>"

definition load_index :: "(string \<Rightarrow> string) \<Rightarrow> durableSnap \<Rightarrow> Index" where
  "load_index lower sn =
    (let idx = newEmptyIndex\<lparr>ix_postings := ds_FilePostings sn, ix_defs := ds_FileDefs sn,
           ix_refs := ds_FileRefs sn, ix_imps := ds_FileImps sn, ix_hashes := ds_FileHashes sn,
           ix_stamps := ds_FileStamps sn, ix_edges := ds_FileEdges sn\<rparr>
     in if ds_GlobalInverted sn \<noteq> []
        then idx\<lparr>ix_inverted := ds_GlobalInverted sn,
               ix_files := fold (\<lambda>p fs. appendUniqueStr fs p) (mkeys (ix_postings idx)) [],
               ix_symbols := fold (\<lambda>(file, imps). fold (\<lambda>im. addImport file im) imps) (ix_imps idx)
                 (newSymbolGraph\<lparr>sg_defs := ds_GlobalDefs sn, sg_refs := ds_GlobalRefs sn\<rparr>)\<rparr>
        else rebuildGlobalFromFiles lower idx)"


section \<open>The file protocol of Save\<close>

text \<open>The content of a file: none, other bytes, or the complete encoding of a snapshot.\<close>

datatype gobfile = NoGob | BadGob | Gob durableSnap

text \<open>What the process sees under the two names, whether the data of the file written last have
  reached the disk, what the name of the index can stand for after a crash, and whether the
  file system supports \<^verbatim>\<open>fsync\<close> of a directory.  Data that were not synced can be lost, and
  a rename can be lost until the directory is synced.\<close>

record gobfs =
  gob_path :: gobfile
  gob_tmp :: gobfile
  gob_synced :: bool
  gob_disk :: "gobfile list"
  gob_dirsync :: bool

definition survivors :: "gobfile \<Rightarrow> bool \<Rightarrow> gobfile list" where
  "survivors f synced = (if synced then [f] else [f, BadGob])"

datatype save_step = MakeDir | LockFile | RemoveStale | CreateTmp | EncodeTmp | SyncTmp | CloseTmp | RenameTmp | SyncDir | RemoveTmp

definition save_steps :: "save_step list" where
  "save_steps = [RemoveStale, CreateTmp, EncodeTmp, SyncTmp, CloseTmp, RenameTmp, SyncDir]"

fun save_exec :: "durableSnap \<Rightarrow> save_step \<Rightarrow> gobfs \<Rightarrow> gobfs" where
  "save_exec sn MakeDir fs = fs"
| "save_exec sn LockFile fs = fs"
| "save_exec sn RemoveStale fs = fs\<lparr>gob_tmp := NoGob\<rparr>"
| "save_exec sn CreateTmp fs = fs\<lparr>gob_tmp := BadGob, gob_synced := False\<rparr>"
| "save_exec sn EncodeTmp fs = fs\<lparr>gob_tmp := Gob sn, gob_synced := False\<rparr>"
| "save_exec sn SyncTmp fs = fs\<lparr>gob_synced := True\<rparr>"
| "save_exec sn CloseTmp fs = fs"
| "save_exec sn RenameTmp fs = fs\<lparr>gob_path := gob_tmp fs, gob_tmp := NoGob,
     gob_disk := gob_disk fs @ survivors (gob_tmp fs) (gob_synced fs)\<rparr>"
| "save_exec sn SyncDir fs = (if gob_dirsync fs then fs\<lparr>gob_disk := survivors (gob_path fs) (gob_synced fs)\<rparr> else fs)"
| "save_exec sn RemoveTmp fs = fs\<lparr>gob_tmp := NoGob\<rparr>"

text \<open>What a failing step leaves behind: the code removes the temp file, except where it could
  not be created and after the rename.  Errors of the removals are ignored.\<close>

definition save_cleanup :: "durableSnap \<Rightarrow> (save_step \<Rightarrow> bool) \<Rightarrow> save_step \<Rightarrow> gobfs \<Rightarrow> gobfs" where
  "save_cleanup sn fails s fs =
    (if s \<in> {EncodeTmp, SyncTmp, CloseTmp, RenameTmp} \<and> \<not> fails RemoveTmp then save_exec sn RemoveTmp fs else fs)"

fun run_save :: "durableSnap \<Rightarrow> (save_step \<Rightarrow> bool) \<Rightarrow> save_step list \<Rightarrow> gobfs \<Rightarrow> gobfs \<times> bool" where
  "run_save sn fails [] fs = (fs, True)"
| "run_save sn fails (s # ss) fs =
    (if \<not> fails s then run_save sn fails ss (save_exec sn s fs)
     else if s = RemoveStale then run_save sn fails ss fs
     else (save_cleanup sn fails s fs, False))"

text \<open>\<open>Save\<close> of an index: the index as its holder has it afterwards, the files and whether it
  succeeded.  A nil index is refused.\<close>

definition save_index :: "(string \<Rightarrow> string) \<Rightarrow> string \<Rightarrow> string \<Rightarrow> string \<Rightarrow> int \<Rightarrow> (save_step \<Rightarrow> bool) \<Rightarrow> Index \<Rightarrow> gobfs
    \<Rightarrow> Index \<times> gobfs \<times> bool" where
  "save_index lower path rt head now fails idx fs =
    (if trim_space path = [] \<or> fails MakeDir \<or> fails LockFile then (idx, fs, False)
     else (let idx' = ensure_globals lower idx in (idx', run_save (save_snap rt head now idx') fails save_steps fs)))"

definition Save :: "(string \<Rightarrow> string) \<Rightarrow> string \<Rightarrow> string \<Rightarrow> string \<Rightarrow> int \<Rightarrow> (save_step \<Rightarrow> bool) \<Rightarrow> Index option \<Rightarrow> gobfs
    \<Rightarrow> gobfs \<times> bool" where
  "Save lower path rt head now fails idx fs =
    (case idx of None \<Rightarrow> (fs, False) | Some i \<Rightarrow> snd (save_index lower path rt head now fails i fs))"

text \<open>The files after the first steps of \<open>Save\<close>.\<close>

definition crash_after :: "nat \<Rightarrow> (save_step \<Rightarrow> bool) \<Rightarrow> durableSnap \<Rightarrow> gobfs \<Rightarrow> gobfs" where
  "crash_after n fails sn fs = fst (run_save sn fails (take n save_steps) fs)"

definition Load :: "(durableSnap \<Rightarrow> durableSnap) \<Rightarrow> (string \<Rightarrow> string) \<Rightarrow> gobfs \<Rightarrow> (Index \<times> DurableMeta) option" where
  "Load gob lower fs = (case gob_path fs of Gob sn \<Rightarrow> Some (load_index lower (gob sn), ds_Meta (gob sn)) | _ \<Rightarrow> None)"


section \<open>The in-process cache\<close>

record cachedIndex =
  ci_index :: Index
  ci_meta :: DurableMeta
  ci_ident :: "int \<times> int"

text \<open>\<open>before\<close> and \<open>after\<close> are the two readings of the file identity.\<close>

definition loadCached :: "(durableSnap \<Rightarrow> durableSnap) \<Rightarrow> (string \<Rightarrow> string) \<Rightarrow> (int \<times> int) option \<Rightarrow> (int \<times> int) option \<Rightarrow> gobfs
    \<Rightarrow> cachedIndex option \<Rightarrow> (Index \<times> DurableMeta) option \<times> cachedIndex option" where
  "loadCached gob lower before after fs cache =
    (case before of
       None \<Rightarrow> (Load gob lower fs, cache)
     | Some ident \<Rightarrow>
         if (case cache of None \<Rightarrow> False | Some e \<Rightarrow> ci_ident e = ident)
         then (case cache of None \<Rightarrow> (None, cache) | Some e \<Rightarrow> (Some (ci_index e, ci_meta e), cache))
         else (case Load gob lower fs of
                 None \<Rightarrow> (None, cache)
               | Some (idx, meta) \<Rightarrow>
                   if after \<noteq> Some ident then (Some (idx, meta), cache)
                   else (Some (idx, meta), Some \<lparr>ci_index = idx, ci_meta = meta, ci_ident = ident\<rparr>)))"

definition invalidateCachedIndex :: "cachedIndex option \<Rightarrow> cachedIndex option" where
  "invalidateCachedIndex cache = None"


section \<open>Root binding\<close>

definition ValidateRoot :: "(string \<Rightarrow> string option) \<Rightarrow> DurableMeta \<Rightarrow> string \<Rightarrow> bool" where
  "ValidateRoot canon meta root0 =
    (let root = trim_space root0
     in if root = [] then True
        else if trim_space (dm_Root meta) = [] then False
        else (case (canon (dm_Root meta), canon root) of
                (Some bound, Some want) \<Rightarrow> bound = want | _ \<Rightarrow> False))"


section \<open>The stamp census\<close>

definition skipDir :: "string list" where
  "skipDir = [''.git'', ''.sentra'', ''.ouroboros'', ''node_modules'', ''vendor'',
     ''__pycache__'', ''.cache'', ''dist'', ''target'']"

definition live_stamps :: "extractor \<Rightarrow> osenv \<Rightarrow> (string \<Rightarrow> bool \<Rightarrow> bool) \<Rightarrow> (string, FileStamp) gomap" where
  "live_stamps ex os ignored =
    fold (\<lambda>(rel, info). mput rel (stamp_of info))
      (walk ignored (\<lambda>name. name \<in> set skipDir) (\<lambda>rel info. ex_lower ex (path_ext rel) \<in> set extOK)
        (os_name os) ''.'' (os_tree os)) []"

definition stAllStampsMatch :: "extractor \<Rightarrow> osenv \<Rightarrow> Index \<Rightarrow> bool" where
  "stAllStampsMatch ex os prev =
    (if ix_stamps prev = [] then False
     else (case os_ignores os of
             Inl err \<Rightarrow> False
           | Inr ignored \<Rightarrow>
               (let live = live_stamps ex os ignored
                in length live = length (ix_stamps prev)
                   \<and> list_all (\<lambda>(rel, old). case mget live rel of
                        None \<Rightarrow> False | Some st \<Rightarrow> StampEqual old st) (ix_stamps prev))))"

text \<open>\<open>lstat\<close> is \<^verbatim>\<open>os.Lstat\<close>, which does not follow a symlink.\<close>

definition ensure_one :: "extractor \<Rightarrow> osenv \<Rightarrow> (string \<Rightarrow> file_info option) \<Rightarrow> string \<Rightarrow> Index \<Rightarrow> Index" where
  "ensure_one ex os lstat rel idx =
    (if mget (ix_hashes idx) rel \<noteq> None \<and> mget (ix_stamps idx) rel \<noteq> None then idx
     else (case os_stat os rel of
             None \<Rightarrow> idx
           | Some info \<Rightarrow>
               if (case lstat rel of None \<Rightarrow> True | Some l \<Rightarrow> \<not> indexableFile l) then idx
               else if \<not> indexableFile info then idx
               else (let idx' = idx\<lparr>ix_stamps := mput rel (stamp_of info) (ix_stamps idx)\<rparr>
                     in if mget (ix_hashes idx') rel \<noteq> None then idx'
                        else (case os_read os rel of
                                None \<Rightarrow> idx'
                              | Some raw \<Rightarrow> idx'\<lparr>ix_hashes := mput rel (ex_hash ex raw) (ix_hashes idx')\<rparr>))))"

definition ensureHashes :: "extractor \<Rightarrow> osenv \<Rightarrow> (string \<Rightarrow> file_info option) \<Rightarrow> Index \<Rightarrow> Index" where
  "ensureHashes ex os lstat idx = fold (ensure_one ex os lstat) (ix_files idx) idx"


section \<open>OpenOrRefresh\<close>

text \<open>Everything one call reads from its environment.\<close>

record refresh_env =
  re_path :: string
  re_root :: string
  re_canon :: "string \<Rightarrow> string option"
  re_head :: string
  re_now :: int
  re_fails :: "save_step \<Rightarrow> bool"
  re_lstat :: "string \<Rightarrow> file_info option"
  re_dirs :: "string list \<Rightarrow> string list list"
  re_items :: "workItem list \<Rightarrow> workItem list list"
  re_dur :: int

datatype refresh_error = ErrCrawl string | ErrSave

record refresh_result =
  rr_index :: "Index option"
  rr_stats :: Stats
  rr_wrote :: bool
  rr_meta :: DurableMeta
  rr_err :: "refresh_error option"

definition usable_prev :: "refresh_env \<Rightarrow> (Index \<times> DurableMeta) option \<Rightarrow> (Index \<times> DurableMeta) option" where
  "usable_prev env loaded =
    (case loaded of
       None \<Rightarrow> None
     | Some (p, m) \<Rightarrow>
         (case re_canon env (dm_Root m) of
            None \<Rightarrow> None
          | Some bound \<Rightarrow>
              if bound = [] then None
              else if re_canon env (re_root env) = Some bound then Some (p, m) else None))"

abbreviation save_into :: "extractor \<Rightarrow> refresh_env \<Rightarrow> Index \<Rightarrow> gobfs \<Rightarrow> Index \<times> gobfs \<times> bool" where
  "save_into ex env idx fs \<equiv> save_index (ex_lower ex) (re_path env) (re_root env) (re_head env) (re_now env) (re_fails env) idx fs"

definition refresh_full :: "extractor \<Rightarrow> osenv \<Rightarrow> refresh_env \<Rightarrow> int \<Rightarrow> gobfs \<Rightarrow> refresh_result \<times> gobfs" where
  "refresh_full ex os env workers fs =
    (case CrawlDir ex os (re_dirs env) workers (re_dur env) of
       Inl err \<Rightarrow> (\<lparr>rr_index = None, rr_stats = zero_stats, rr_wrote = False, rr_meta = zero_meta,
                    rr_err = Some (ErrCrawl err)\<rparr>, fs)
     | Inr (idx0, st) \<Rightarrow>
         (let (idx, fs', ok) = save_into ex env (ensureHashes ex os (re_lstat env) idx0) fs
          in if \<not> ok
             then (\<lparr>rr_index = Some idx, rr_stats = st, rr_wrote = False, rr_meta = zero_meta,
                    rr_err = Some ErrSave\<rparr>, fs')
             else (\<lparr>rr_index = Some idx, rr_stats = st, rr_wrote = True,
                    rr_meta = new_meta (re_root env) (re_head env) (re_now env) idx, rr_err = None\<rparr>, fs')))"

definition warm_stats :: "int \<Rightarrow> Index \<Rightarrow> Stats" where
  "warm_stats workers prev = zero_stats\<lparr>st_FilesIndexed := length (ix_files prev), st_Workers := workers,
     st_Unchanged := length (ix_files prev), st_SkippedByStamp := length (ix_files prev)\<rparr>"

definition refresh_delta :: "extractor \<Rightarrow> osenv \<Rightarrow> refresh_env \<Rightarrow> int \<Rightarrow> Index \<Rightarrow> DurableMeta \<Rightarrow> gobfs
    \<Rightarrow> refresh_result \<times> gobfs" where
  "refresh_delta ex os env workers prev meta fs =
    (case CrawlDeltaFrom ex os (re_items env) workers None (Some prev) (re_dur env) of
       Inl err \<Rightarrow> (\<lparr>rr_index = None, rr_stats = zero_stats, rr_wrote = False, rr_meta = meta,
                    rr_err = Some (ErrCrawl err)\<rparr>, fs)
     | Inr (idx, st, hs) \<Rightarrow>
         (let wrote = (st_Changed st > 0 \<or> st_Unchanged st = 0)
          in if wrote \<or> dm_GitHead meta \<noteq> re_head env \<or> dm_Schema meta \<notin> set known_schemas
             then (let (idx', fs', ok) = save_into ex env idx fs
                   in if \<not> ok
                      then (\<lparr>rr_index = Some idx', rr_stats = st, rr_wrote = False, rr_meta = meta,
                             rr_err = Some ErrSave\<rparr>, fs')
                      else (\<lparr>rr_index = Some idx', rr_stats = st, rr_wrote = True,
                             rr_meta = new_meta (re_root env) (re_head env) (re_now env) idx',
                             rr_err = None\<rparr>, fs'))
             else (\<lparr>rr_index = Some idx, rr_stats = st, rr_wrote = wrote, rr_meta = meta, rr_err = None\<rparr>, fs)))"

text \<open>\<open>loaded\<close> is what \<^verbatim>\<open>loadCached\<close> returned.\<close>

definition OpenOrRefresh :: "extractor \<Rightarrow> osenv \<Rightarrow> refresh_env \<Rightarrow> int \<Rightarrow> bool
    \<Rightarrow> (Index \<times> DurableMeta) option \<Rightarrow> gobfs \<Rightarrow> refresh_result \<times> gobfs" where
  "OpenOrRefresh ex os env workers0 forceFull loaded fs =
    (let workers = normalizeWorkers workers0
     in case (if forceFull then None else usable_prev env loaded) of
          None \<Rightarrow> refresh_full ex os env workers fs
        | Some (prev, meta) \<Rightarrow>
            if ix_inverted prev \<noteq> [] \<and> stAllStampsMatch ex os prev
            then (\<lparr>rr_index = Some prev, rr_stats = warm_stats workers prev, rr_wrote = False,
                   rr_meta = meta, rr_err = None\<rparr>, fs)
            else refresh_delta ex os env workers prev meta fs)"


section \<open>Crash safety of Save\<close>

definition ignored_steps :: "save_step set" where
  "ignored_steps = {RemoveStale, RemoveTmp}"

lemma all_steps: "P (s :: save_step) \<longleftrightarrow> s \<in> {s. P s}" "(\<forall>s. P s) \<longleftrightarrow> P MakeDir \<and> P LockFile \<and> P RemoveStale \<and> P CreateTmp
    \<and> P EncodeTmp \<and> P SyncTmp \<and> P CloseTmp \<and> P RenameTmp \<and> P SyncDir \<and> P RemoveTmp"
  by (simp, metis save_step.exhaust)

lemma run_save_disk:
  "set (gob_disk (crash_after n fails sn fs)) \<subseteq> insert (Gob sn) (set (gob_disk fs))"
proof -
  have each: "set (gob_disk (fst (run_save sn fails (take m save_steps) fs))) \<subseteq> insert (Gob sn) (set (gob_disk fs))"
    if "m \<in> {0, 1, 2, 3, 4, 5, 6, 7}" for m
    using that by (elim insertE emptyE) (simp_all add: save_steps_def save_cleanup_def survivors_def subset_insertI split: if_split)
  have "take n save_steps = take (min n 7) save_steps" by (simp add: save_steps_def min_def)
  moreover have "min n 7 \<in> {0, 1, 2, 3, 4, 5, 6, 7}" by auto
  ultimately show ?thesis unfolding crash_after_def using each by metis
qed

lemma run_save_path: "run_save sn fails save_steps fs = (fs', True) \<Longrightarrow> gob_path fs' = Gob sn"
  by (auto simp: save_steps_def split: if_split_asm)

lemma Save_path: "Save lower path rt head now fails (Some i) fs = (fs', True) \<Longrightarrow> gob_path fs' = Gob (save_snap rt head now (ensure_globals lower i))"
  using run_save_path by (auto simp: Save_def save_index_def Let_def split: if_split_asm)

text \<open>C8.  A crash or a failure never damages the durable index.  Data that were not synced can
  be lost in a crash, and a rename until the directory is synced; nevertheless after a crash
  at any point of \<^verbatim>\<open>Save\<close>, whatever steps fail, the name of the index stands for what it
  could stand for before or for the complete new snapshot.  \<^verbatim>\<open>Save\<close> reports success exactly
  when the index is not nil, the path is not blank and no step but the removal of temp files
  fails; then the file is the new snapshot, no temp file is left and, where directories can
  be synced, the new snapshot is the only one a crash can leave.  When it fails before the
  rename the old file is untouched.\<close>

theorem save_old_or_new:
  "let sn = save_snap rt head now (ensure_globals lower idx) in
    set (gob_disk (crash_after n fails sn fs)) \<subseteq> insert (Gob sn) (set (gob_disk fs))
    \<and> (case Save lower path rt head now fails (Some idx) fs of (fs', ok) \<Rightarrow>
        ok = (trim_space path \<noteq> [] \<and> {s. fails s} \<subseteq> ignored_steps)
        \<and> set (gob_disk fs') \<subseteq> insert (Gob sn) (set (gob_disk fs))
        \<and> (if ok then gob_path fs' = Gob sn \<and> gob_tmp fs' = NoGob
             \<and> gob_disk fs' = (if gob_dirsync fs then [Gob sn] else gob_disk fs @ [Gob sn])
           else gob_path fs' = (if trim_space path \<noteq> [] \<and> {s. fails s} \<subseteq> insert SyncDir ignored_steps then Gob sn else gob_path fs)))
    \<and> Save lower path rt head now fails None fs = (fs, False)"
proof -
  have sub: "{s. fails s} \<subseteq> ignored_steps \<longleftrightarrow> (\<forall>s. fails s \<longrightarrow> s \<in> ignored_steps)"
    "{s. fails s} \<subseteq> insert SyncDir ignored_steps \<longleftrightarrow> (\<forall>s. fails s \<longrightarrow> s \<in> insert SyncDir ignored_steps)" by auto
  have steps: "{s. fails s} \<subseteq> ignored_steps \<longleftrightarrow> \<not> fails MakeDir \<and> \<not> fails LockFile \<and> \<not> fails CreateTmp \<and> \<not> fails EncodeTmp
      \<and> \<not> fails SyncTmp \<and> \<not> fails CloseTmp \<and> \<not> fails RenameTmp \<and> \<not> fails SyncDir"
    "{s. fails s} \<subseteq> insert SyncDir ignored_steps \<longleftrightarrow> \<not> fails MakeDir \<and> \<not> fails LockFile \<and> \<not> fails CreateTmp \<and> \<not> fails EncodeTmp
      \<and> \<not> fails SyncTmp \<and> \<not> fails CloseTmp \<and> \<not> fails RenameTmp"
    unfolding sub all_steps(2) by (simp_all add: ignored_steps_def)
  define sn where "sn = save_snap rt head now (ensure_globals lower idx)"
  have early: "snd (save_index lower path rt head now fails idx fs) = (fs, False)" if "trim_space path = [] \<or> fails MakeDir \<or> fails LockFile"
    using that by (simp add: save_index_def)
  have late: "snd (save_index lower path rt head now fails idx fs) = run_save sn fails save_steps fs"
    if "\<not> (trim_space path = [] \<or> fails MakeDir \<or> fails LockFile)" using that by (simp add: save_index_def Let_def sn_def)
  show ?thesis
  proof (cases "trim_space path = [] \<or> fails MakeDir \<or> fails LockFile")
    case True
    then show ?thesis using run_save_disk[of n fails sn fs] unfolding steps Save_def Let_def sn_def[symmetric] option.case early[OF True]
      by (auto simp: subset_insertI)
  next
    case False
    show ?thesis using run_save_disk[of n fails sn fs] False unfolding steps Save_def Let_def sn_def[symmetric] option.case late[OF False]
      by (simp add: save_steps_def save_cleanup_def survivors_def subset_insertI split: if_split)
  qed
qed


section \<open>Save and Load\<close>

text \<open>What \<^verbatim>\<open>encoding/gob\<close> promises: every map is read back as a map with the same contents,
  in whatever order, and the metadata as they are.\<close>

definition same_map :: "('k, 'v) gomap \<Rightarrow> ('k, 'v) gomap \<Rightarrow> bool" where
  "same_map m n \<longleftrightarrow> wf_map m \<and> mget m = mget n"

definition gob_faithful :: "(durableSnap \<Rightarrow> durableSnap) \<Rightarrow> bool" where
  "gob_faithful gob \<longleftrightarrow> (\<forall>sn. ds_Meta (gob sn) = ds_Meta sn
    \<and> same_map (ds_FilePostings (gob sn)) (ds_FilePostings sn) \<and> same_map (ds_FileDefs (gob sn)) (ds_FileDefs sn)
    \<and> same_map (ds_FileRefs (gob sn)) (ds_FileRefs sn) \<and> same_map (ds_FileImps (gob sn)) (ds_FileImps sn)
    \<and> same_map (ds_FileHashes (gob sn)) (ds_FileHashes sn) \<and> same_map (ds_FileStamps (gob sn)) (ds_FileStamps sn)
    \<and> same_map (ds_GlobalInverted (gob sn)) (ds_GlobalInverted sn) \<and> same_map (ds_GlobalDefs (gob sn)) (ds_GlobalDefs sn)
    \<and> same_map (ds_GlobalRefs (gob sn)) (ds_GlobalRefs sn) \<and> same_map (ds_FileEdges (gob sn)) (ds_FileEdges sn))"

lemma same_map_Nil: "same_map m n \<Longrightarrow> m = [] \<longleftrightarrow> n = []"
  by (simp add: same_map_def flip: map_of_eq_empty_iff)

lemma same_map_keys: "same_map m n \<Longrightarrow> set (mkeys m) = set (mkeys n)"
  by (metis dom_map_of_conv_image_fst same_map_def set_map)

lemma load_index_fields:
  "ix_postings (load_index lower sn) = ds_FilePostings sn" "ix_defs (load_index lower sn) = ds_FileDefs sn"
  "ix_refs (load_index lower sn) = ds_FileRefs sn" "ix_imps (load_index lower sn) = ds_FileImps sn"
  "ix_hashes (load_index lower sn) = ds_FileHashes sn" "ix_stamps (load_index lower sn) = ds_FileStamps sn"
  "ix_edges (load_index lower sn) = ds_FileEdges sn"
  by (simp_all add: load_index_def Let_def rebuildGlobalFromFiles_def)

text \<open>The index that is loaded after a save.\<close>

definition reloaded :: "(durableSnap \<Rightarrow> durableSnap) \<Rightarrow> (string \<Rightarrow> string) \<Rightarrow> string \<Rightarrow> string \<Rightarrow> int \<Rightarrow> Index \<Rightarrow> Index" where
  "reloaded gob lower rt head now i = load_index lower (gob (save_snap rt head now i))"

lemma reloaded_maps:
  assumes "gob_faithful gob"
  shows "same_map (ix_postings (reloaded gob lower rt head now i)) (ix_postings i)" "same_map (ix_defs (reloaded gob lower rt head now i)) (ix_defs i)"
    "same_map (ix_refs (reloaded gob lower rt head now i)) (ix_refs i)" "same_map (ix_imps (reloaded gob lower rt head now i)) (ix_imps i)"
    "same_map (ix_hashes (reloaded gob lower rt head now i)) (ix_hashes i)" "same_map (ix_stamps (reloaded gob lower rt head now i)) (ix_stamps i)"
    "same_map (ix_edges (reloaded gob lower rt head now i)) (ix_edges i)"
proof -
  note g = assms[unfolded gob_faithful_def, rule_format, of "save_snap rt head now i"]
  have f: "ds_FilePostings (save_snap rt head now i) = ix_postings i" "ds_FileDefs (save_snap rt head now i) = ix_defs i"
    "ds_FileRefs (save_snap rt head now i) = ix_refs i" "ds_FileImps (save_snap rt head now i) = ix_imps i"
    "ds_FileHashes (save_snap rt head now i) = ix_hashes i" "ds_FileStamps (save_snap rt head now i) = ix_stamps i"
    "ds_FileEdges (save_snap rt head now i) = ix_edges i" by (simp_all add: save_snap_def)
  from g show "same_map (ix_postings (reloaded gob lower rt head now i)) (ix_postings i)" "same_map (ix_defs (reloaded gob lower rt head now i)) (ix_defs i)"
    "same_map (ix_refs (reloaded gob lower rt head now i)) (ix_refs i)" "same_map (ix_imps (reloaded gob lower rt head now i)) (ix_imps i)"
    "same_map (ix_hashes (reloaded gob lower rt head now i)) (ix_hashes i)" "same_map (ix_stamps (reloaded gob lower rt head now i)) (ix_stamps i)"
    "same_map (ix_edges (reloaded gob lower rt head now i)) (ix_edges i)"
    unfolding reloaded_def load_index_fields f by simp_all
qed

lemma load_index_of:
  assumes "gob_faithful gob" "index_of ex S i"
  shows "index_of ex S (reloaded gob lower rt head now i)"
  using reloaded_maps[OF assms(1), of lower rt head now i] assms(2)
  by (simp add: index_of_def entry_ok_def wf_files_def same_map_def)

lemma load_imports:
  assumes "gob_faithful gob"
  shows "set (mget0 [] (sg_imports (ix_symbols (reloaded gob lower rt head now i))) f) =
    {p. p \<noteq> [] \<and> f \<noteq> [] \<and> (\<exists>ds. mget (ix_imps i) f = Some ds \<and> p \<in> set ds)}"
proof -
  let ?sn = "gob (save_snap rt head now i)"
  have "same_map (ds_FileImps ?sn) (ix_imps i)" using reloaded_maps(4)[OF assms, of lower rt head now i] by (simp add: reloaded_def load_index_fields)
  then have imps: "(f, ds) \<in> set (ds_FileImps ?sn) \<longleftrightarrow> mget (ix_imps i) f = Some ds" for ds
    by (metis mget_set same_map_def)
  show ?thesis unfolding imps[symmetric]
    by (simp add: reloaded_def load_index_def Let_def rebuildGlobalFromFiles_def rebuild_symbols_def
        imports_fold_files symbol_fold_frames newSymbolGraph_def newEmptyIndex_def mget0_def[of "[]" "[]"])
qed

lemma reloaded_persisted:
  assumes "gob_faithful gob" "ix_inverted i \<noteq> []"
  shows "mget (ix_inverted (reloaded gob lower rt head now i)) = mget (ix_inverted i)"
    "set (ix_files (reloaded gob lower rt head now i)) = set (mkeys (ix_postings i))"
    "mget (sg_defs (ix_symbols (reloaded gob lower rt head now i))) = mget (sg_defs (ix_symbols i))"
    "mget (sg_refs (ix_symbols (reloaded gob lower rt head now i))) = mget (sg_refs (ix_symbols i))"
proof -
  let ?sn = "gob (save_snap rt head now i)"
  note g = assms(1)[unfolded gob_faithful_def, rule_format, of "save_snap rt head now i"]
  have m: "same_map (ds_GlobalInverted ?sn) (ix_inverted i)" "same_map (ds_GlobalDefs ?sn) (sg_defs (ix_symbols i))"
    "same_map (ds_GlobalRefs ?sn) (sg_refs (ix_symbols i))" "same_map (ds_FilePostings ?sn) (ix_postings i)" using g by (simp_all add: save_snap_def)
  have ne: "ds_GlobalInverted ?sn \<noteq> []" using same_map_Nil[OF m(1)] assms(2) by simp
  have "ix_inverted (reloaded gob lower rt head now i) = ds_GlobalInverted ?sn"
    "set (ix_files (reloaded gob lower rt head now i)) = set (mkeys (ds_FilePostings ?sn))"
    "sg_defs (ix_symbols (reloaded gob lower rt head now i)) = ds_GlobalDefs ?sn"
    "sg_refs (ix_symbols (reloaded gob lower rt head now i)) = ds_GlobalRefs ?sn"
    using ne by (simp_all add: reloaded_def load_index_def Let_def symbol_fold_frames)
  then show "mget (ix_inverted (reloaded gob lower rt head now i)) = mget (ix_inverted i)"
    "set (ix_files (reloaded gob lower rt head now i)) = set (mkeys (ix_postings i))"
    "mget (sg_defs (ix_symbols (reloaded gob lower rt head now i))) = mget (sg_defs (ix_symbols i))"
    "mget (sg_refs (ix_symbols (reloaded gob lower rt head now i))) = mget (sg_refs (ix_symbols i))"
    using m same_map_keys[OF m(4)] by (simp_all add: same_map_def del: set_map)
qed

lemma reloaded_rebuilt:
  assumes "gob_faithful gob" "index_of ex S i" "ix_inverted i = []"
  shows "globals_of lower (reloaded gob lower rt head now i)"
proof -
  let ?sn = "gob (save_snap rt head now i)"
  let ?e = "newEmptyIndex\<lparr>ix_postings := ds_FilePostings ?sn, ix_defs := ds_FileDefs ?sn, ix_refs := ds_FileRefs ?sn,
      ix_imps := ds_FileImps ?sn, ix_hashes := ds_FileHashes ?sn, ix_stamps := ds_FileStamps ?sn, ix_edges := ds_FileEdges ?sn\<rparr>"
  have "same_map (ds_GlobalInverted ?sn) (ix_inverted i)"
    using assms(1)[unfolded gob_faithful_def, rule_format, of "save_snap rt head now i"] by (simp add: save_snap_def)
  then have "reloaded gob lower rt head now i = rebuildGlobalFromFiles lower ?e"
    using assms(3) same_map_Nil by (auto simp: reloaded_def load_index_def Let_def)
  moreover have "index_of ex S ?e"
    using load_index_of[OF assms(1,2), of lower rt head now] by (simp add: index_of_def entry_ok_def wf_files_def reloaded_def load_index_fields)
  moreover have "set (ix_files ?e) \<subseteq> dom S" by (simp add: newEmptyIndex_def)
  ultimately show ?thesis using globals_of_rebuild by metis
qed

lemma load_globals:
  assumes "gob_faithful gob" "index_of ex S i" "globals_of lower i"
  shows "globals_of lower (reloaded gob lower rt head now i)"
proof (cases "ix_inverted i = []")
  case False
  let ?l = "reloaded gob lower rt head now i"
  note p = reloaded_persisted[OF assms(1) False, of lower rt head now]
  note m = reloaded_maps[OF assms(1), of lower rt head now i]
  have same: "mget2 (ix_inverted ?l) = mget2 (ix_inverted i)" "mget0 [] (sg_defs (ix_symbols ?l)) = mget0 [] (sg_defs (ix_symbols i))"
    "mget0 [] (sg_refs (ix_symbols ?l)) = mget0 [] (sg_refs (ix_symbols i))" "mget (ix_postings ?l) = mget (ix_postings i)"
    "mget (ix_defs ?l) = mget (ix_defs i)" "mget (ix_refs ?l) = mget (ix_refs i)" "mget (ix_imps ?l) = mget (ix_imps i)"
    "set (mkeys (ix_postings ?l)) = set (mkeys (ix_postings i))"
    using p m same_map_keys[OF m(1)] by (simp_all add: mget2_def mget0_def fun_eq_iff same_map_def del: set_map)
  show ?thesis
    using assms(3) by (simp only: globals_of_def same p(2) load_imports[OF assms(1)] mem_Collect_eq simp_thms)
qed (rule reloaded_rebuilt[OF assms(1,2)])

lemma ensure_globals_ok:
  assumes "index_of ex S i" "globals_of lower i"
  shows "index_of ex S (ensure_globals lower i)" "globals_of lower (ensure_globals lower i)"
proof -
  have files: "set (ix_files i) \<subseteq> dom S"
    using assms(2) by (simp only: globals_of_def index_of_keys[OF assms(1)])
  show "index_of ex S (ensure_globals lower i)" using assms(1) by (simp add: ensure_globals_def)
  show "globals_of lower (ensure_globals lower i)"
    using assms globals_of_rebuild[OF assms(1) files] by (simp add: ensure_globals_def)
qed

text \<open>C28.  Save and Load round-trip: an index with well-formed per-file maps and
  global structures that follow from them is loaded back as an equivalent index,
  whether Load takes the persisted globals or rebuilds them.  Assumed of the gob codec: every
  map of the snapshot is read back with the same contents, in whatever order.\<close>

theorem save_load_roundtrip:
  assumes "gob_faithful gob" "index_of ex S i" "globals_of (ex_lower ex) i"
    and "Save (ex_lower ex) path rt head now fails (Some i) fs = (fs', True)"
  shows "\<exists>l m. Load gob (ex_lower ex) fs' = Some (l, m) \<and> index_equiv l i \<and> dm_Root m = rt \<and> dm_GitHead m = head"
proof -
  let ?i = "ensure_globals (ex_lower ex) i"
  note e = ensure_globals_ok[OF assms(2,3)]
  have p: "gob_path fs' = Gob (save_snap rt head now ?i)" by (rule Save_path[OF assms(4)])
  have "index_equiv (reloaded gob (ex_lower ex) rt head now ?i) i"
    by (rule index_of_determines[OF load_index_of[OF assms(1) e(1)] assms(2) load_globals[OF assms(1) e] assms(3)])
  moreover have "ds_Meta (gob (save_snap rt head now ?i)) = new_meta rt head now ?i"
    using assms(1) by (simp add: gob_faithful_def save_snap_def)
  ultimately show ?thesis by (simp add: Load_def p reloaded_def new_meta_def)
qed

definition no_gob :: gobfs where
  "no_gob = \<lparr>gob_path = NoGob, gob_tmp = BadGob, gob_synced = False, gob_disk = [NoGob], gob_dirsync = True\<rparr>"

lemma sample_path: "trim_space ''i.gob'' = ''i.gob''"
  by (rule trim_space_id) (simp_all add: graphic_def)

definition sample_gobcodec :: "durableSnap \<Rightarrow> durableSnap" where
  "sample_gobcodec sn = \<lparr>ds_Meta = ds_Meta sn, ds_FilePostings = rev (AList.clearjunk (ds_FilePostings sn)),
     ds_FileDefs = rev (AList.clearjunk (ds_FileDefs sn)), ds_FileRefs = rev (AList.clearjunk (ds_FileRefs sn)),
     ds_FileImps = rev (AList.clearjunk (ds_FileImps sn)), ds_FileHashes = rev (AList.clearjunk (ds_FileHashes sn)),
     ds_FileStamps = rev (AList.clearjunk (ds_FileStamps sn)), ds_GlobalInverted = rev (AList.clearjunk (ds_GlobalInverted sn)),
     ds_GlobalDefs = rev (AList.clearjunk (ds_GlobalDefs sn)), ds_GlobalRefs = rev (AList.clearjunk (ds_GlobalRefs sn)),
     ds_FileEdges = rev (AList.clearjunk (ds_FileEdges sn))\<rparr>"

lemma same_map_rev: "same_map (rev (AList.clearjunk m)) m"
proof -
  have d: "distinct (mkeys (AList.clearjunk m))" by (rule distinct_clearjunk)
  have "mget (rev (AList.clearjunk m)) k = mget (AList.clearjunk m) k" for k
    using d by (metis (no_types, lifting) distinct_rev map_of_eq_None_iff map_of_eq_Some_iff option.exhaust rev_map set_rev)
  then show ?thesis using d by (simp add: same_map_def wf_map_def fun_eq_iff map_of_clearjunk flip: rev_map)
qed

lemma sample_gobcodec_ok: "gob_faithful sample_gobcodec"
  by (simp add: gob_faithful_def sample_gobcodec_def same_map_rev)

theorem save_load_roundtrip_witness:
  "\<exists>i fs' l m. index_of sample_ex sample_snap i \<and> ix_inverted i \<noteq> []
    \<and> Save (ex_lower sample_ex) ''i.gob'' ''/w'' ''h'' 5 (\<lambda>s. False) (Some i) no_gob = (fs', True)
    \<and> Load sample_gobcodec (ex_lower sample_ex) fs' = Some (l, m) \<and> index_equiv l i \<and> dm_Root m = ''/w''"
proof -
  obtain i where i: "index_of sample_ex sample_snap i" "globals_of (ex_lower sample_ex) i"
    using crawl_fresh_correct[OF sample_wf(1)[of 1 "''go''"] sample_wf(2), of "\<lambda>xs. [xs]" sample_ex 1 0]
    unfolding sample_snap_def by auto
  have "indexableFile \<lparr>fi_regular = True, fi_size = 2, fi_mtime = 1\<rparr>" "path_ext ''a.go'' \<in> set extOK" by code_simp+
  then have "sample_snap ''a.go'' \<noteq> None"
    by (simp add: sample_snap_def snap_of_def crawl_paths_def sample_os_def child_path_def crawl_keep_def sample_ex_def)
  then obtain b st where b: "sample_snap ''a.go'' = Some (b, st)" by auto
  then have "b = ''go''" using sample_snap_Some by blast
  moreover have "mget (tokenFreq sample_ex ''go'') ''go'' \<noteq> None" by code_simp
  ultimately have "mget2 (ix_inverted i) ''go'' ''a.go'' \<noteq> None"
    using i b by (simp add: globals_of_def index_of_def entry_ok_def)
  then have ne: "ix_inverted i \<noteq> []" by auto
  obtain fs' where sv: "Save (ex_lower sample_ex) ''i.gob'' ''/w'' ''h'' 5 (\<lambda>s. False) (Some i) no_gob = (fs', True)"
    by (simp add: Save_def save_index_def sample_path Let_def save_steps_def)
  from save_load_roundtrip[OF sample_gobcodec_ok i sv] ne i(1) sv show ?thesis by blast
qed


section \<open>The warm path\<close>

text \<open>The tree holds plain source files: every walked source file is regular and
  within the size bound, and \<^verbatim>\<open>os.Stat\<close> agrees with the walk.\<close>

definition plain_tree :: "extractor \<Rightarrow> osenv \<Rightarrow> (string \<Rightarrow> bool \<Rightarrow> bool) \<Rightarrow> bool" where
  "plain_tree ex os ig \<longleftrightarrow>
    (\<forall>(rel, info) \<in> set (walk ig (\<lambda>_. False) (\<lambda>rel info. ex_lower ex (path_ext rel) \<in> set extOK)
        (os_name os) ''.'' (os_tree os)). indexableFile info \<and> os_stat os rel = Some info)"

text \<open>The directories below a node, with their base name and their path.\<close>

fun dir_paths :: "string \<Rightarrow> node \<Rightarrow> (string \<times> string) list" where
  "dir_paths rel (Dir ents) =
    concat (map (\<lambda>(n, c). (case c of Dir _ \<Rightarrow> [(n, child_path rel n)] | _ \<Rightarrow> [])
      @ dir_paths (child_path rel n) c) ents)"
| "dir_paths rel (File info) = []"
| "dir_paths rel Unreadable = []"

text \<open>The ignore rules cover the directories of the tree that the census skips by
  name (the default patterns do, unless a repository negates them).\<close>

definition skips_ignored :: "(string \<Rightarrow> bool \<Rightarrow> bool) \<Rightarrow> node \<Rightarrow> bool" where
  "skips_ignored ig nd \<longleftrightarrow> (\<forall>(n, p) \<in> set (dir_paths ''.'' nd). n \<in> set skipDir \<longrightarrow> ig p True)"

lemma walk_skip_ignored:
  assumes "\<And>n p. (n, p) \<in> set (dir_paths rel nd) \<Longrightarrow> sk n \<Longrightarrow> ig p True" "\<not> sk name"
  shows "walk ig sk kp name rel nd = walk ig (\<lambda>_. False) kp name rel nd"
  using assms
proof (induction ig sk kp name rel nd rule: walk.induct)
  case (2 ig sk kp name rel ents)
  show ?case
  proof (cases "ig rel True")
    case False
    have "walk ig sk kp n (child_path rel n) c = walk ig (\<lambda>_. False) kp n (child_path rel n) c"
      if nc: "(n, c) \<in> set ents" for n c
    proof (cases "sk n \<and> (\<exists>es. c = Dir es)")
      case True
      then have "ig (child_path rel n) True" using "2.prems"(1) nc by fastforce
      with True show ?thesis by auto
    next
      case notdir: False
      show ?thesis
      proof (cases "sk n")
        case True
        with notdir show ?thesis by (cases c) auto
      next
        case False
        have "ig p True" if "(m, p) \<in> set (dir_paths (child_path rel n) c)" "sk m" for m p
          using "2.prems"(1) nc that by fastforce
        with False show ?thesis using "2.IH"[OF _ nc refl] \<open>\<not> ig rel True\<close> "2.prems"(2) by blast
      qed
    qed
    with False "2.prems"(2) show ?thesis by (auto intro!: arg_cong[of _ _ concat])
  qed simp
qed simp_all

lemma walk_keep_all:
  assumes "\<And>p i. kp' p i \<Longrightarrow> kp p i" "\<forall>(p, i) \<in> set (walk ig sk kp name rel nd). kp' p i"
  shows "walk ig sk kp' name rel nd = walk ig sk kp name rel nd"
  using assms
proof (induction ig sk kp name rel nd rule: walk.induct)
  case (2 ig sk kp name rel ents)
  show ?case
  proof (cases "ig rel True \<or> sk name")
    case False
    then have "walk ig sk kp' n (child_path rel n) c = walk ig sk kp n (child_path rel n) c"
      if "(n, c) \<in> set ents" for n c
      using "2.IH"[OF False that refl "2.prems"(1)] "2.prems"(2) that by fastforce
    with False show ?thesis by (auto intro!: arg_cong[of _ _ concat])
  qed simp
qed (auto split: if_splits)

lemma walk_kept: "(p, i) \<in> set (walk ig sk kp name rel nd) \<Longrightarrow> kp p i"
  by (induction ig sk kp name rel nd rule: walk.induct) (auto split: if_splits)

lemma walk_weaken:
  "(p, i) \<in> set (walk ig sk kp name rel nd) \<Longrightarrow> (\<And>p i. kp p i \<Longrightarrow> kp' p i)
    \<Longrightarrow> (p, i) \<in> set (walk ig sk kp' name rel nd)"
  by (induction ig sk kp name rel nd rule: walk.induct) (force split: if_splits)+

lemma fold_mput_fresh:
  "distinct (mkeys m @ map fst l) \<Longrightarrow>
    fold (\<lambda>(rel, info). mput rel (f info)) l m = m @ map (\<lambda>(rel, info). (rel, f info)) l"
proof (induction l arbitrary: m)
  case (Cons x l)
  obtain r i where x: "x = (r, i)" by force
  with Cons.prems have "mput r (f i) m = m @ [(r, f i)]" by (intro mput_fresh) simp
  with Cons.IH[of "m @ [(r, f i)]"] Cons.prems x show ?case by simp
qed simp

lemma live_stamps_eq:
  assumes "wf_node (os_tree os)" "skips_ignored ig (os_tree os)" "plain_tree ex os ig" "live_stamps ex os ig \<noteq> []"
  obtains l where "live_stamps ex os ig = map (\<lambda>(r, i). (r, stamp_of i)) l" "distinct (map fst l)"
    "map fst l = crawl_paths ex os ig" "\<forall>(r, i) \<in> set l. os_stat os r = Some i"
proof -
  let ?src = "\<lambda>rel info. ex_lower ex (path_ext rel) \<in> set extOK"
  let ?l = "walk ig (\<lambda>_. False) ?src (os_name os) ''.'' (os_tree os)"
  have "live_stamps ex os ig = fold (\<lambda>(rel, info). mput rel (stamp_of info)) ?l []"
  proof -
    let ?w = "walk ig (\<lambda>name. name \<in> set skipDir) ?src (os_name os) ''.'' (os_tree os)"
    have skip: "ig p True" if "(n, p) \<in> set (dir_paths ''.'' (os_tree os))" "n \<in> set skipDir" for n p
      using assms(2) that unfolding skips_ignored_def by blast
    have "?w = [] \<or> ?w = ?l"
    proof (cases "os_name os \<in> set skipDir")
      case True
      then show ?thesis by (cases "os_tree os") auto
    next
      case False
      then have "?w = ?l" by (intro walk_skip_ignored) (auto dest: skip)
      then show ?thesis by blast
    qed
    moreover have "?w \<noteq> []" using assms(4) by (auto simp: live_stamps_def)
    ultimately have "?w = ?l" by blast
    then show ?thesis by (simp only: live_stamps_def)
  qed
  moreover have d: "distinct (map fst ?l)" by (rule walk_distinct[OF assms(1)]) simp
  moreover have "crawl_paths ex os ig = map fst ?l"
  proof -
    have src: "ex_lower ex (path_ext p) \<in> set extOK" if "(p, i) \<in> set (walk ig sk ?src name rel nd)" for p i sk name rel nd
      using that by (rule walk_kept)
    have "walk ig (\<lambda>_. False) (crawl_keep ex) (os_name os) ''.'' (os_tree os) = ?l"
      by (rule walk_keep_all) (use assms(3) src in \<open>auto simp: crawl_keep_def plain_tree_def\<close>)
    then show ?thesis by (simp add: crawl_paths_def)
  qed
  moreover have "\<forall>(r, i) \<in> set ?l. os_stat os r = Some i" using assms(3) by (auto simp: plain_tree_def)
  ultimately show thesis using that fold_mput_fresh[of "[]" ?l stamp_of] by simp
qed

lemma stamps_match_same:
  assumes "wf_node (os_tree os)" "os_ignores os = Inr ig" "skips_ignored ig (os_tree os)" "plain_tree ex os ig"
    and p: "index_of ex B p" and hs: "honest_stamps B os" and m: "stAllStampsMatch ex os p"
  shows "snap_of os (crawl_paths ex os ig) = B"
proof -
  have "live_stamps ex os ig \<noteq> []"
    using m assms(2) by (auto simp: stAllStampsMatch_def Let_def split: if_splits)
  then obtain l where l: "live_stamps ex os ig = map (\<lambda>(r, i). (r, stamp_of i)) l" "distinct (map fst l)"
    "map fst l = crawl_paths ex os ig" "\<forall>(r, i) \<in> set l. os_stat os r = Some i"
    using live_stamps_eq[OF assms(1,3,4)] by blast
  let ?live = "live_stamps ex os ig"
  have keys: "set (mkeys ?live) = set (crawl_paths ex os ig)" "distinct (mkeys ?live)"
    using l(2) unfolding l(1) l(3)[symmetric] by (simp_all add: comp_def case_prod_beta)
  have st: "mget (ix_stamps p) rel = map_option snd (B rel)" for rel
    using p by (simp add: index_of_def entry_ok_def)
  have wf: "wf_map (ix_stamps p)" using p by (simp add: index_of_def wf_files_def)
  have len: "length ?live = length (ix_stamps p)"
    and all: "(rel, old) \<in> set (ix_stamps p) \<Longrightarrow> \<exists>s. mget ?live rel = Some s \<and> StampEqual old s" for rel old
    using m assms(2) by (auto simp: stAllStampsMatch_def Let_def list_all_iff split: if_splits option.splits)
  have domB: "dom B = set (mkeys (ix_stamps p))"
  proof (rule set_eqI)
    fix rel
    show "rel \<in> dom B \<longleftrightarrow> rel \<in> set (mkeys (ix_stamps p))"
      using st[of rel] mget_None_iff[of "ix_stamps p" rel] by (cases "B rel") auto
  qed
  have sub: "set (mkeys (ix_stamps p)) \<subseteq> set (mkeys ?live)"
  proof
    fix rel
    assume "rel \<in> set (mkeys (ix_stamps p))"
    then obtain old where "(rel, old) \<in> set (ix_stamps p)" by auto
    from all[OF this] show "rel \<in> set (mkeys ?live)" using mget_Some_key by fast
  qed
  have "set (mkeys (ix_stamps p)) = set (mkeys ?live)"
  proof (rule card_subset_eq[OF _ sub])
    show "card (set (mkeys (ix_stamps p))) = card (set (mkeys ?live))"
      using distinct_card[of "mkeys (ix_stamps p)"] distinct_card[OF keys(2)] wf len
      unfolding wf_map_def by (simp only: length_map)
  qed simp
  with domB keys(1) have dom: "dom B = set (crawl_paths ex os ig)" by simp
  show ?thesis
  proof
    fix rel
    show "snap_of os (crawl_paths ex os ig) rel = B rel"
    proof (cases "B rel")
      case None
      then have "rel \<notin> set (crawl_paths ex os ig)" unfolding dom[symmetric] by (simp add: domIff)
      with None show ?thesis by (simp add: snap_of_def)
    next
      case (Some bs)
      obtain b old where bs: "bs = (b, old)" by force
      have "mget (ix_stamps p) rel = Some old" using st Some bs by simp
      then obtain s where s: "mget ?live rel = Some s" "StampEqual old s" using all mget_set[OF wf] by blast
      then obtain i where i: "(rel, i) \<in> set l" "s = stamp_of i" unfolding l(1) by (auto dest!: map_of_SomeD)
      with l(4) have stat: "os_stat os rel = Some i" by auto
      with hs Some bs s(2) i(2) have "os_read os rel = Some b" unfolding honest_stamps_def by blast
      moreover have "old = s" using s(2) by (cases old; cases s) (simp add: StampEqual_def)
      moreover have "rel \<in> set (crawl_paths ex os ig)" using dom Some by auto
      ultimately show ?thesis using stat Some bs i(2) by (simp add: snap_of_def)
    qed
  qed
qed


section \<open>OpenOrRefresh\<close>

text \<open>What a client of the index relies on: the per-file maps, the inverted index
  and the file list are those of the given snapshot.\<close>

definition answers :: "extractor \<Rightarrow> snapshot \<Rightarrow> Index \<Rightarrow> bool" where
  "answers ex S i \<longleftrightarrow> index_of ex S i \<and> set (ix_files i) = dom S
    \<and> (\<forall>tok path. mget2 (ix_inverted i) tok path =
         Option.bind (mget (ix_postings i) path) (\<lambda>fp. mget fp tok))"

lemma answersI: "index_of ex S i \<Longrightarrow> globals_of lower i \<Longrightarrow> answers ex S i"
  by (simp add: answers_def globals_of_def index_of_keys del: set_map)

lemma answers_ensure:
  assumes "answers ex S i"
  shows "answers ex S (ensure_globals (ex_lower ex) i)"
proof (cases "ix_inverted i = []")
  case True
  have "globals_of (ex_lower ex) (rebuildGlobalFromFiles (ex_lower ex) i)"
    by (rule globals_of_rebuild) (use assms in \<open>auto simp: answers_def\<close>)
  with assms have "answers ex S (rebuildGlobalFromFiles (ex_lower ex) i)"
    by (intro answersI) (simp_all add: answers_def)
  with True show ?thesis by (simp add: ensure_globals_def)
next
  case False
  with assms show ?thesis by (simp add: ensure_globals_def)
qed

lemma answers_reloaded:
  assumes "gob_faithful gob" "answers ex S i"
  shows "answers ex S (reloaded gob (ex_lower ex) rt head now i)"
proof (cases "ix_inverted i = []")
  case True
  have "index_of ex S i" using assms(2) by (simp add: answers_def)
  then show ?thesis using answersI load_index_of reloaded_rebuilt assms(1) True by metis
next
  case False
  let ?l = "reloaded gob (ex_lower ex) rt head now i"
  have i: "index_of ex S i" using assms(2) by (simp add: answers_def)
  note p = reloaded_persisted[OF assms(1) False, of "ex_lower ex" rt head now]
  have "mget2 (ix_inverted ?l) = mget2 (ix_inverted i)" "mget (ix_postings ?l) = mget (ix_postings i)"
    using p(1) reloaded_maps(1)[OF assms(1), of "ex_lower ex" rt head now i] by (simp_all add: mget2_def fun_eq_iff same_map_def)
  then show ?thesis using assms(2) load_index_of[OF assms(1) i] p(2) index_of_keys[OF i] by (simp add: answers_def del: set_map)
qed

text \<open>The durable file holds an index of a snapshot.\<close>

definition durable_for :: "(durableSnap \<Rightarrow> durableSnap) \<Rightarrow> extractor \<Rightarrow> snapshot \<Rightarrow> DurableMeta \<Rightarrow> gobfs \<Rightarrow> bool" where
  "durable_for gob ex S m fs \<longleftrightarrow> (\<exists>l. Load gob (ex_lower ex) fs = Some (l, m) \<and> answers ex S l)"

lemma save_index_answers:
  assumes "gob_faithful gob" "answers ex S i" "save_index (ex_lower ex) path rt head now fails i fs = (i', fs', ok)"
  shows "answers ex S i' \<and> (ok \<longrightarrow> durable_for gob ex S (new_meta rt head now i') fs')"
proof (cases "trim_space path = [] \<or> fails MakeDir \<or> fails LockFile")
  case True
  then show ?thesis using assms(2,3) by (auto simp: save_index_def)
next
  case False
  then have i': "i' = ensure_globals (ex_lower ex) i" "run_save (save_snap rt head now i') fails save_steps fs = (fs', ok)"
    using assms(3) by (auto simp: save_index_def Let_def)
  have a: "answers ex S i'" unfolding i'(1) by (rule answers_ensure[OF assms(2)])
  have "durable_for gob ex S (new_meta rt head now i') fs'" if ok
  proof -
    have p: "gob_path fs' = Gob (save_snap rt head now i')" using i'(2) that run_save_path by simp
    have "ds_Meta (gob (save_snap rt head now i')) = new_meta rt head now i'" using assms(1) by (simp add: gob_faithful_def save_snap_def)
    then show ?thesis using answers_reloaded[OF assms(1) a, of rt head now] by (simp add: durable_for_def Load_def p reloaded_def)
  qed
  with a show ?thesis by simp
qed

lemma ensureHashes_noop:
  assumes "answers ex S i"
  shows "ensureHashes ex os lstat i = i"
proof -
  have "mget (ix_hashes i) rel \<noteq> None \<and> mget (ix_stamps i) rel \<noteq> None" if "rel \<in> set (ix_files i)" for rel
  proof -
    have "S rel \<noteq> None" using assms that by (auto simp: answers_def)
    then show ?thesis using assms by (simp add: answers_def index_of_def entry_ok_def)
  qed
  then have "fold (ensure_one ex os lstat) fs i = i" if "set fs \<subseteq> set (ix_files i)" for fs
    using that by (induction fs) (auto simp: ensure_one_def)
  then show ?thesis by (simp add: ensureHashes_def)
qed

text \<open>What a call returns and leaves behind.\<close>

definition refreshed :: "(durableSnap \<Rightarrow> durableSnap) \<Rightarrow> extractor \<Rightarrow> snapshot \<Rightarrow> refresh_result \<times> gobfs \<Rightarrow> bool" where
  "refreshed gob ex S r \<longleftrightarrow> (\<exists>i. rr_index (fst r) = Some i \<and> answers ex S i)
    \<and> (rr_wrote (fst r) \<longrightarrow> durable_for gob ex S (rr_meta (fst r)) (snd r))"

lemma refresh_full_answers:
  assumes "wf_node (os_tree os)" "os_ignores os = Inr ig" "plain_tree ex os ig"
    and "\<And>xs. mset (concat (re_dirs env xs)) = mset xs"
    and "length (crawl_paths ex os ig) \<le> MaxIndexableFiles" and gob: "gob_faithful gob"
  shows "refreshed gob ex (snap_of os (crawl_paths ex os ig)) (refresh_full ex os env w fs)"
proof -
  let ?paths = "crawl_paths ex os ig"
  have "dir_snap os ?paths = snap_of os ?paths"
  proof (rule dir_snap_agrees)
    fix rel info
    assume "rel \<in> set ?paths" "os_stat os rel = Some info"
    then obtain i where "(rel, i) \<in> set (walk ig (\<lambda>_. False) (crawl_keep ex) (os_name os) ''.'' (os_tree os))"
      by (auto simp: crawl_paths_def)
    then have "(rel, i) \<in> set (walk ig (\<lambda>_. False) (\<lambda>rel info. ex_lower ex (path_ext rel) \<in> set extOK)
        (os_name os) ''.'' (os_tree os))"
      by (rule walk_weaken) (simp add: crawl_keep_def)
    with assms(3) \<open>os_stat os rel = Some info\<close> show "indexableFile info"
      by (auto simp: plain_tree_def)
  qed
  then obtain i st where i: "CrawlDir ex os (re_dirs env) w (re_dur env) = Inr (i, st)"
    "answers ex (snap_of os ?paths) i"
    using crawl_dir_correct[OF assms(1,2,4) refl, of ex w "re_dur env"] assms(5)
    by (auto simp: answers_def inv_ok_def)
  obtain i' fs' ok where sv: "save_into ex env i fs = (i', fs', ok)" by (metis prod_cases3)
  from save_index_answers[OF gob i(2) sv] show ?thesis
    by (simp add: refreshed_def refresh_full_def i(1) ensureHashes_noop[OF i(2)] sv)
qed

lemma refresh_delta_answers:
  assumes "wf_node (os_tree os)" "os_ignores os = Inr ig"
    and "\<And>xs. mset (concat (re_items env xs)) = mset xs"
    and "index_of ex B p" "honest_stamps B os" "collision_free ex B os" and gob: "gob_faithful gob"
  shows "refreshed gob ex (snap_of os (crawl_paths ex os ig)) (refresh_delta ex os env w p m fs)"
proof -
  obtain i st hs where i: "CrawlDeltaFrom ex os (re_items env) w None (Some p) (re_dur env) = Inr (i, st, hs)"
    "index_of ex (snap_of os (crawl_paths ex os ig)) i" "globals_of (ex_lower ex) i"
    using crawl_delta_correct[OF assms(1-6), of w "re_dur env"] by blast
  have a: "answers ex (snap_of os (crawl_paths ex os ig)) i" by (rule answersI[OF i(2,3)])
  obtain i' fs' ok where sv: "save_into ex env i fs = (i', fs', ok)" by (metis prod_cases3)
  from save_index_answers[OF gob a sv] a show ?thesis
    by (simp add: refreshed_def refresh_delta_def i(1) sv)
qed


definition sample_repo :: "int \<Rightarrow> string \<Rightarrow> osenv" where
  "sample_repo t b = (sample_os t b)\<lparr>os_ignores := Inr (\<lambda>rel dir. dir \<and> rel \<noteq> ''.'')\<rparr>"

definition sample_env :: refresh_env where
  "sample_env = \<lparr>re_path = ''i.gob'', re_root = ''/w'', re_canon = (\<lambda>r. Some r), re_head = ''h'', re_now = 5,
     re_fails = (\<lambda>s. s = RemoveStale), re_lstat = (\<lambda>_. None), re_dirs = (\<lambda>xs. [xs]),
     re_items = (\<lambda>xs. [xs]), re_dur = 0\<rparr>"

lemma sample_repo_ok:
  "wf_node (os_tree (sample_repo t b))" "os_ignores (sample_repo t b) = Inr (\<lambda>rel dir. dir \<and> rel \<noteq> ''.'')"
  "skips_ignored (\<lambda>rel dir. dir \<and> rel \<noteq> ''.'') (os_tree (sample_repo t b))"
  "plain_tree sample_ex (sample_repo t b) (\<lambda>rel dir. dir \<and> rel \<noteq> ''.'')"
  by (auto simp: sample_repo_def sample_os_def skips_ignored_def skipDir_def child_path_def
        plain_tree_def indexableFile_def MaxIndexableFileBytes_def append_eq_Cons_conv)


text \<open>A refresh that only sees deletions counts nothing as changed, so the durable
  file keeps the deleted entries: what it leaves on disk is the old snapshot.\<close>

lemma deletion_only_refresh_unsaved:
  assumes "CrawlDeltaFrom ex os (re_items env) w None (Some p) (re_dur env) = Inr (i, st, hs)"
    and "st_Changed st = 0" "st_Unchanged st > 0" "dm_GitHead m = re_head env" "dm_Schema m \<in> set known_schemas"
  shows "snd (refresh_delta ex os env w p m fs) = fs \<and> \<not> rr_wrote (fst (refresh_delta ex os env w p m fs))"
  using assms by (simp add: refresh_delta_def Let_def)


section \<open>The cache is transparent\<close>

text \<open>The cache holds what some earlier file with the same identity contained.\<close>

definition cache_ok :: "(durableSnap \<Rightarrow> durableSnap) \<Rightarrow> (string \<Rightarrow> string) \<Rightarrow> (gobfs \<Rightarrow> (int \<times> int) option) \<Rightarrow> cachedIndex option \<Rightarrow> bool" where
  "cache_ok gob lower ident cache \<longleftrightarrow>
    (\<forall>e. cache = Some e \<longrightarrow>
      (\<exists>fs. ident fs = Some (ci_ident e) \<and> Load gob lower fs = Some (ci_index e, ci_meta e)))"

text \<open>C39.  The in-process cache is transparent: as long as a file identity (size and
  modification time) determines the file's content and a file whose identity is
  the same before and after a read did not change during it, \<^verbatim>\<open>loadCached\<close>
  returns what \<^verbatim>\<open>Load\<close> would return for a state of the file during the call,
  and the cache it leaves is again consistent, also after an invalidation.\<close>

theorem loadCached_transparent:
  assumes "cache_ok gob lower ident cache"
    and "\<And>a b. ident a \<noteq> None \<Longrightarrow> ident a = ident b \<Longrightarrow> gob_path a = gob_path b"
    and "ident fs2 = ident fs0 \<Longrightarrow> ident fs1 = ident fs0"
  shows "fst (loadCached gob lower (ident fs0) (ident fs2) fs1 cache) \<in> {Load gob lower fs0, Load gob lower fs1}
    \<and> cache_ok gob lower ident (snd (loadCached gob lower (ident fs0) (ident fs2) fs1 cache))
    \<and> cache_ok gob lower ident (invalidateCachedIndex cache)"
proof -
  have inv: "cache_ok gob lower ident (invalidateCachedIndex cache)"
    by (simp add: cache_ok_def invalidateCachedIndex_def)
  show ?thesis
  proof (cases "ident fs0")
    case None
    then show ?thesis using assms(1) inv by (simp add: loadCached_def)
  next
    case (Some id0)
    show ?thesis
    proof (cases "case cache of None \<Rightarrow> False | Some e \<Rightarrow> ci_ident e = id0")
      case True
      then obtain e where e: "cache = Some e" "ci_ident e = id0" by (auto split: option.splits)
      with assms(1) obtain fs where fs: "ident fs = Some id0" "Load gob lower fs = Some (ci_index e, ci_meta e)"
        by (auto simp: cache_ok_def)
      have "gob_path fs = gob_path fs0" by (rule assms(2)) (simp_all add: fs(1) Some)
      with fs(2) have "Load gob lower fs0 = Some (ci_index e, ci_meta e)" by (simp add: Load_def)
      with Some True e assms(1) inv show ?thesis by (simp add: loadCached_def)
    next
      case False
      have new: "ident fs1 = Some id0" if "ident fs2 = Some id0" using that assms(3) Some by simp
      show ?thesis
      proof (cases "Load gob lower fs1")
        case None
        with False Some assms(1) inv show ?thesis by (simp add: loadCached_def)
      next
        case (Some im)
        obtain i m where im: "im = (i, m)" by force
        have "cache_ok gob lower ident (Some \<lparr>ci_index = i, ci_meta = m, ci_ident = id0\<rparr>)" if "ident fs2 = Some id0"
          using new[OF that] Some im by (auto simp: cache_ok_def)
        with False Some im \<open>ident fs0 = Some id0\<close> assms(1) inv show ?thesis by (simp add: loadCached_def)
      qed
    qed
  qed
qed

definition sample_gob :: gobfs where
  "sample_gob = no_gob\<lparr>gob_path := Gob (save_snap ''/w'' [] 0 newEmptyIndex)\<rparr>"

theorem loadCached_transparent_witness:
  "fst (loadCached id (\<lambda>s. s) (Some (1, 2)) (Some (1, 2)) sample_gob None) = Load id (\<lambda>s. s) sample_gob"
proof -
  define ident :: "gobfs \<Rightarrow> (int \<times> int) option"
    where "ident = (\<lambda>fs. if gob_path fs = gob_path sample_gob then Some (1, 2) else None)"
  have here: "ident sample_gob = Some (1, 2)" by (simp add: ident_def)
  have "gob_path a = gob_path b" if "ident a \<noteq> None" "ident a = ident b" for a b
    using that unfolding ident_def by (metis option.distinct(1))
  moreover have "cache_ok id (\<lambda>s. s) ident None" by (simp add: cache_ok_def)
  ultimately have "fst (loadCached id (\<lambda>s. s) (ident sample_gob) (ident sample_gob) sample_gob None)
      \<in> {Load id (\<lambda>s. s) sample_gob, Load id (\<lambda>s. s) sample_gob}"
    using loadCached_transparent[of id "\<lambda>s. s" ident None sample_gob sample_gob sample_gob] by blast
  then show ?thesis unfolding here by blast
qed

end
