(* ===== verification/Watch_Loop.thy ===== *)
theory Watch_Loop
  imports Refresh_Queue Crawl_Index
begin

text \<open>
  The two index watchers (\<^verbatim>\<open>watch_fs.go\<close>, \<^verbatim>\<open>watch.go\<close>).  The select
  loop of \<^verbatim>\<open>WatchFS\<close> is a step function over its local variables, driven by
  the received value: a file system event, a watcher error, a tick, a closed
  channel or the end of the context.  The outcome of \<^verbatim>\<open>OpenOrRefresh\<close>, the
  clock, the ignore rules and \<^verbatim>\<open>os.Stat\<close> are part of the received value or
  arguments.  Proved: accepted changes stay queued until a refresh that began
  after them succeeds, a due tick refreshes, and back-off is bounded.
\<close>

section \<open>Options\<close>

record WatchOptions =
  wo_Interval :: int
  wo_Debounce :: int
  wo_QueueSize :: int
  wo_RetryInitial :: int
  wo_RetryMax :: int
  wo_MaxCycles :: int

definition fs_debounce :: "WatchOptions \<Rightarrow> int" where
  "fs_debounce opt = (if wo_Debounce opt \<le> 0 then 300 * 1000000 else wo_Debounce opt)"

definition poll_interval :: "WatchOptions \<Rightarrow> int" where
  "poll_interval opt = (if wo_Interval opt \<le> 0 then 1000000000 else wo_Interval opt)"


section \<open>WatchFS\<close>

text \<open>The directories given to the kernel watcher.\<close>

fun watch_dirs :: "(string \<Rightarrow> bool \<Rightarrow> bool) \<Rightarrow> string \<Rightarrow> node \<Rightarrow> string list" where
  "watch_dirs ignored rel (Dir ents) =
    (if ignored rel True then []
     else if rel \<noteq> ''.'' \<and> count_list rel CHR ''/'' > 3 then []
     else rel # concat (map (\<lambda>(n, c). watch_dirs ignored (child_path rel n) c) ents))"
| "watch_dirs ignored rel (File info) = []"
| "watch_dirs ignored rel Unreadable = []"

record watch_state =
  ws_queue :: refreshQueue
  ws_dirtyAt :: "go_time option"
  ws_retryAt :: "go_time option"
  ws_retryCount :: int
  ws_cycles :: int

definition init_watch :: "WatchOptions \<Rightarrow> watch_state" where
  "init_watch opt = \<lparr>ws_queue = newRefreshQueue (wo_QueueSize opt), ws_dirtyAt = None,
     ws_retryAt = None, ws_retryCount = 0, ws_cycles = 0\<rparr>"

text \<open>The closure \<^verbatim>\<open>refresh\<close>: \<open>ok\<close> says whether \<^verbatim>\<open>OpenOrRefresh\<close> succeeded,
  \<open>now\<close> is the clock after it.  The loop is the only goroutine that touches the
  queue, so no event is enqueued between \<^verbatim>\<open>begin\<close> and \<^verbatim>\<open>commit\<close>.\<close>

definition watch_refresh :: "WatchOptions \<Rightarrow> go_time \<Rightarrow> bool \<Rightarrow> watch_state \<Rightarrow> watch_state" where
  "watch_refresh opt now ok s =
    (let version = fst (queue_begin (ws_queue s))
     in if \<not> ok
        then (let n = ws_retryCount s + 1
              in s\<lparr>ws_retryCount := n,
                   ws_retryAt := Some (now + retryDelay n (wo_RetryInitial opt) (wo_RetryMax opt))\<rparr>)
        else (let (q, committed) = commit version (ws_queue s)
              in s\<lparr>ws_queue := q, ws_retryCount := 0, ws_retryAt := None,
                   ws_dirtyAt := (if committed then None else Some now),
                   ws_cycles := ws_cycles s + 1\<rparr>))"

record fs_event =
  fe_name :: string
  fe_change :: bool
    \<comment> \<open>write, create, remove or rename\<close>
  fe_rel :: "string option"
  fe_isDir :: bool
    \<comment> \<open>\<^verbatim>\<open>os.Stat\<close> succeeds and finds a directory\<close>

datatype watch_input =
    CtxDone
  | Event fs_event go_time
  | WatchError go_time
  | ChannelClosed
  | Tick go_time go_time bool
    \<comment> \<open>the tick, the clock after the refresh it may start, and that refresh's outcome\<close>

datatype watch_exit = ExitCtx | ExitClosed | ExitCycles

definition ignore_file :: "string \<Rightarrow> bool" where
  "ignore_file name \<longleftrightarrow> path_base name \<in> {''.gitignore'', ''.dockerignore''}
    \<or> path_base name = ''exclude'' \<and> str_contains name ''/.git/info/''"

text \<open>What an event puts into the queue: nothing, a full rescan (the empty name)
  or its path.\<close>

definition event_entry :: "(string \<Rightarrow> string) \<Rightarrow> (string \<Rightarrow> bool \<Rightarrow> bool) \<Rightarrow> fs_event \<Rightarrow> string option" where
  "event_entry lower ignored ev =
    (if \<not> fe_change ev then None
     else (case fe_rel ev of
             None \<Rightarrow> None
           | Some rel \<Rightarrow>
               if ignored rel False then None
               else if fe_isDir ev then (if ignored rel True then None else Some [])
               else (let ext = lower (path_ext (fe_name ev))
                     in if \<not> ignore_file (fe_name ev) \<and> ext \<noteq> [] \<and> ext \<notin> set extOK then None
                        else Some (fe_name ev))))"

definition tick_due :: "WatchOptions \<Rightarrow> go_time \<Rightarrow> watch_state \<Rightarrow> bool" where
  "tick_due opt now s \<longleftrightarrow>
    pending (ws_queue s)
    \<and> (case ws_dirtyAt s of None \<Rightarrow> False | Some d \<Rightarrow> now - d \<ge> fs_debounce opt)
    \<and> (case ws_retryAt s of None \<Rightarrow> True | Some r \<Rightarrow> now \<ge> r)"

definition cycles_done :: "WatchOptions \<Rightarrow> watch_state \<Rightarrow> bool" where
  "cycles_done opt s \<longleftrightarrow> ws_retryCount s = 0 \<and> wo_MaxCycles opt > 0 \<and> ws_cycles s \<ge> wo_MaxCycles opt"

definition mark_dirty :: "string \<Rightarrow> go_time \<Rightarrow> watch_state \<Rightarrow> watch_state" where
  "mark_dirty path now s = s\<lparr>ws_queue := enqueue path (ws_queue s), ws_dirtyAt := Some now\<rparr>"

fun watch_step :: "(string \<Rightarrow> string) \<Rightarrow> (string \<Rightarrow> bool \<Rightarrow> bool) \<Rightarrow> WatchOptions \<Rightarrow> watch_input
    \<Rightarrow> watch_state \<Rightarrow> watch_exit option \<times> watch_state" where
  "watch_step lower ignored opt CtxDone s = (Some ExitCtx, s)"
| "watch_step lower ignored opt ChannelClosed s = (Some ExitClosed, s)"
| "watch_step lower ignored opt (Event ev now) s =
    (None, case event_entry lower ignored ev of None \<Rightarrow> s | Some p \<Rightarrow> mark_dirty p now s)"
| "watch_step lower ignored opt (WatchError now) s = (None, mark_dirty [] now s)"
| "watch_step lower ignored opt (Tick now after ok) s =
    (if \<not> tick_due opt now s then (None, s)
     else (let s' = watch_refresh opt after ok s
           in (if cycles_done opt s' then Some ExitCycles else None, s')))"

text \<open>The select loop on a sequence of received values; it stops at the first
  return.\<close>

fun watch_run :: "(string \<Rightarrow> string) \<Rightarrow> (string \<Rightarrow> bool \<Rightarrow> bool) \<Rightarrow> WatchOptions \<Rightarrow> watch_input list
    \<Rightarrow> watch_state \<Rightarrow> watch_exit option \<times> watch_state" where
  "watch_run lower ignored opt [] s = (None, s)"
| "watch_run lower ignored opt (i # is) s =
    (case watch_step lower ignored opt i s of
       (Some e, s') \<Rightarrow> (Some e, s')
     | (None, s') \<Rightarrow> watch_run lower ignored opt is s')"

text \<open>The initial cycle before the loop.\<close>

definition watch_start :: "WatchOptions \<Rightarrow> go_time \<Rightarrow> bool \<Rightarrow> watch_exit option \<times> watch_state" where
  "watch_start opt now ok =
    (let s = watch_refresh opt now ok (init_watch opt)
     in (if cycles_done opt s then Some ExitCycles else None, s))"


section \<open>WatchPoll\<close>

record poll_state =
  ps_cycles :: int
  ps_dirtySince :: "go_time option"
  ps_retryAt :: "go_time option"
  ps_retryCount :: int

definition init_poll :: poll_state where
  "init_poll = \<lparr>ps_cycles = 0, ps_dirtySince = None, ps_retryAt = None, ps_retryCount = 0\<rparr>"

text \<open>What a tick finds on disk: \<open>None\<close> when the index cannot be loaded, else
  whether it is fresh.\<close>

definition poll_refresh :: "WatchOptions \<Rightarrow> go_time \<Rightarrow> bool \<Rightarrow> poll_state \<Rightarrow> poll_state" where
  "poll_refresh opt now ok s =
    (if \<not> ok
     then (let n = ps_retryCount s + 1
           in s\<lparr>ps_retryCount := n,
                ps_retryAt := Some (now + retryDelay n (wo_RetryInitial opt) (wo_RetryMax opt))\<rparr>)
     else s\<lparr>ps_dirtySince := None, ps_retryAt := None, ps_retryCount := 0, ps_cycles := ps_cycles s + 1\<rparr>)"

definition poll_exit :: "WatchOptions \<Rightarrow> poll_state \<Rightarrow> bool" where
  "poll_exit opt s \<longleftrightarrow> wo_MaxCycles opt > 0 \<and> ps_cycles s \<ge> wo_MaxCycles opt"

definition poll_tick :: "WatchOptions \<Rightarrow> go_time \<Rightarrow> bool option \<Rightarrow> bool \<Rightarrow> poll_state \<Rightarrow> bool \<times> poll_state" where
  "poll_tick opt now fresh ok s =
    (case fresh of
       Some True \<Rightarrow> (let s' = s\<lparr>ps_cycles := ps_cycles s + 1\<rparr> in (poll_exit opt s', s'))
     | Some False \<Rightarrow>
         (let d = (case ps_dirtySince s of None \<Rightarrow> now | Some d \<Rightarrow> d);
              s' = s\<lparr>ps_dirtySince := Some d\<rparr>
          in if now - d < fs_debounce opt \<or> (case ps_retryAt s of None \<Rightarrow> False | Some r \<Rightarrow> now < r)
             then (False, s')
             else (let s'' = poll_refresh opt now ok s' in (ok \<and> poll_exit opt s'', s'')))
     | None \<Rightarrow> (let s'' = poll_refresh opt now ok s in (ok \<and> poll_exit opt s'', s'')))"


section \<open>Reachable states and the changes they still owe\<close>

text \<open>The set of changes that were accepted and not yet covered by a refresh (the
  entries queued since the last successful one), and whether the last refresh failed.\<close>

fun owed :: "(string \<Rightarrow> string) \<Rightarrow> (string \<Rightarrow> bool \<Rightarrow> bool) \<Rightarrow> WatchOptions \<Rightarrow> watch_input
    \<Rightarrow> watch_state \<Rightarrow> string set \<Rightarrow> string set" where
  "owed lower ignored opt (Event ev now) s D =
    (case event_entry lower ignored ev of None \<Rightarrow> D | Some p \<Rightarrow> insert p D)"
| "owed lower ignored opt (WatchError now) s D = insert [] D"
| "owed lower ignored opt (Tick now after ok) s D = (if tick_due opt now s \<and> ok then {} else D)"
| "owed lower ignored opt _ s D = D"

fun last_failed :: "WatchOptions \<Rightarrow> watch_input \<Rightarrow> watch_state \<Rightarrow> bool \<Rightarrow> bool" where
  "last_failed opt (Tick now after ok) s failed = (if tick_due opt now s then \<not> ok else failed)"
| "last_failed opt _ s failed = failed"

inductive watch_reach :: "(string \<Rightarrow> string) \<Rightarrow> (string \<Rightarrow> bool \<Rightarrow> bool) \<Rightarrow> WatchOptions
    \<Rightarrow> watch_state \<Rightarrow> string set \<Rightarrow> bool \<Rightarrow> bool"
  for lower ignored opt where
  start: "watch_start opt now ok = (None, s) \<Longrightarrow> watch_reach lower ignored opt s {} (\<not> ok)"
| step: "watch_reach lower ignored opt s D failed \<Longrightarrow> watch_step lower ignored opt i s = (e, s')
    \<Longrightarrow> watch_reach lower ignored opt s' (owed lower ignored opt i s D) (last_failed opt i s failed)"

definition watch_inv :: "watch_state \<Rightarrow> string set \<Rightarrow> bool \<Rightarrow> bool" where
  "watch_inv s D failed \<longleftrightarrow> rq_inv (ws_queue s) \<and> covers (ws_queue s) D
    \<and> (pending (ws_queue s) \<longleftrightarrow> D \<noteq> {}) \<and> (ws_dirtyAt s \<noteq> None \<longleftrightarrow> D \<noteq> {})
    \<and> 0 \<le> ws_retryCount s \<and> (ws_retryAt s \<noteq> None \<longleftrightarrow> failed) \<and> (0 < ws_retryCount s \<longleftrightarrow> failed)"

lemma watch_inv_refresh:
  assumes "watch_inv s D failed"
  shows "watch_inv (watch_refresh opt now ok s) (if ok then {} else D) (\<not> ok)"
proof (cases ok)
  case True
  have "rq_inv (fst (commit (rq_version (ws_queue s)) (ws_queue s)))"
    using assms by (simp add: watch_inv_def del: commit_current)
  with True show ?thesis
    by (simp add: watch_refresh_def queue_begin_def watch_inv_def covers_def pending_def)
next
  case False
  with assms show ?thesis by (simp add: watch_refresh_def watch_inv_def Let_def)
qed

lemma watch_inv_dirty: "watch_inv s D failed \<Longrightarrow> watch_inv (mark_dirty p now s) (insert p D) failed"
  by (simp add: watch_inv_def mark_dirty_def covers_enqueue pending_enqueue)

lemma watch_inv_init: "watch_inv (init_watch opt) {} False"
  by (simp add: watch_inv_def init_watch_def covers_def)

lemma watch_inv_step:
  assumes "watch_inv s D failed"
  shows "watch_inv (snd (watch_step lower ignored opt i s)) (owed lower ignored opt i s D) (last_failed opt i s failed)"
  using assms watch_inv_refresh[OF assms, of opt _ True] watch_inv_refresh[OF assms, of opt _ False]
  by (cases i) (auto simp: watch_inv_dirty Let_def split: option.splits)

lemma watch_reach_inv: "watch_reach lower ignored opt s D failed \<Longrightarrow> watch_inv s D failed"
proof (induction rule: watch_reach.induct)
  case (start now ok s)
  then have "s = watch_refresh opt now ok (init_watch opt)"
    by (simp add: watch_start_def Let_def split: if_splits)
  with watch_inv_refresh[OF watch_inv_init, of opt now ok opt] show ?case by (cases ok) simp_all
next
  case (step s D failed i e s')
  from watch_inv_step[OF step.IH, of lower ignored opt i] step.hyps(2) show ?case by simp
qed

lemma watch_idle_or_due:
  assumes "watch_inv s D failed"
  shows "tick_due opt now s \<longleftrightarrow> D \<noteq> {} \<and> (\<forall>d. ws_dirtyAt s = Some d \<longrightarrow> d + fs_debounce opt \<le> now)
    \<and> (\<forall>r. ws_retryAt s = Some r \<longrightarrow> r \<le> now)"
  using assms by (cases "ws_dirtyAt s") (auto simp: watch_inv_def tick_due_def split: option.splits)


section \<open>Properties\<close>

text \<open>C10.  The file watcher never drops an accepted change: in every reachable
  state of its loop, whatever the events, errors, ticks and refresh outcomes were,
  the queue covers every change accepted since the last successful refresh (by its
  path or by a full rescan), the queue is pending and the debounce clock runs
  exactly when such a change exists, a back-off deadline is set, and the count of
  failures is positive, exactly when the last refresh failed, and the queue is within
  its capacity.\<close>

theorem watch_covers_changes:
  assumes "watch_reach lower ignored opt s D failed"
  shows "covers (ws_queue s) D \<and> (pending (ws_queue s) = (D \<noteq> {})) \<and> ((ws_dirtyAt s = None) = (D = {}))
    \<and> ((ws_retryAt s \<noteq> None) = failed) \<and> ((0 < ws_retryCount s) = failed) \<and> int (depth (ws_queue s)) \<le> rq_capacity (ws_queue s)"
  using watch_reach_inv[OF assms] by (auto simp: watch_inv_def rq_inv_def depth_def)

definition sample_opt :: WatchOptions where
  "sample_opt = \<lparr>wo_Interval = 0, wo_Debounce = 10, wo_QueueSize = 2, wo_RetryInitial = 5,
     wo_RetryMax = 100, wo_MaxCycles = 0\<rparr>"

definition sample_event :: fs_event where
  "sample_event = \<lparr>fe_name = ''/w/a.go'', fe_change = True, fe_rel = Some ''a.go'', fe_isDir = False\<rparr>"

lemma sample_entry: "event_entry (\<lambda>s. s) (\<lambda>r d. False) sample_event = Some ''/w/a.go''"
  by (simp add: event_entry_def sample_event_def ignore_file_def path_ext_def path_components_def extOK_def)

definition sample_watch :: watch_state where
  "sample_watch = mark_dirty ''/w/a.go'' 7 (watch_refresh sample_opt 1 True (init_watch sample_opt))"

lemma sample_watch_reach:
  "watch_reach (\<lambda>s. s) (\<lambda>r d. False) sample_opt sample_watch {''/w/a.go''} False"
proof -
  let ?s = "watch_refresh sample_opt 1 True (init_watch sample_opt)"
  have "watch_start sample_opt 1 True = (None, ?s)"
    by (simp add: watch_start_def Let_def cycles_done_def sample_opt_def)
  then have "watch_reach (\<lambda>s. s) (\<lambda>r d. False) sample_opt ?s {} (\<not> True)" by (rule watch_reach.start)
  from watch_reach.step[OF this, of "Event sample_event 7"] show ?thesis
    by (simp add: sample_entry sample_watch_def)
qed

text \<open>The same run after a refresh that failed.\<close>

definition sample_retry :: watch_state where
  "sample_retry = watch_refresh sample_opt 21 False sample_watch"

lemma sample_retry_reach:
  "watch_reach (\<lambda>s. s) (\<lambda>r d. False) sample_opt sample_retry {''/w/a.go''} True"
proof -
  have due: "tick_due sample_opt 20 sample_watch"
    unfolding watch_idle_or_due[OF watch_reach_inv[OF sample_watch_reach]]
    by (simp add: sample_watch_def mark_dirty_def watch_refresh_def init_watch_def fs_debounce_def sample_opt_def
        queue_begin_def Let_def)
  have "watch_step (\<lambda>s. s) (\<lambda>r d. False) sample_opt (Tick 20 21 False) sample_watch = (None, sample_retry)"
    using due by (simp add: Let_def sample_retry_def cycles_done_def sample_opt_def)
  from watch_reach.step[OF sample_watch_reach this] show ?thesis using due by simp
qed

theorem watch_covers_changes_witness:
  "covers (ws_queue sample_retry) {''/w/a.go''} \<and> pending (ws_queue sample_retry) \<and> ws_retryAt sample_retry \<noteq> None"
  using watch_covers_changes[OF sample_retry_reach] by simp

text \<open>C40.  A due tick makes progress: when some accepted change is outstanding,
  a tick that comes a debounce interval after the last change and not before the
  back-off deadline starts a refresh.  If it succeeds, nothing is outstanding, the
  failure count and the back-off deadline are reset and a cycle is counted; if it
  fails, the change stays outstanding and the new deadline lies in the future by at most the maximal
  delay.  A tick that is not due changes nothing.\<close>

theorem watch_due_tick_progress:
  assumes "watch_reach lower ignored opt s D failed"
  shows "let due = (D \<noteq> {} \<and> (\<forall>d. ws_dirtyAt s = Some d \<longrightarrow> d + fs_debounce opt \<le> now) \<and> (\<forall>r. ws_retryAt s = Some r \<longrightarrow> r \<le> now));
      s' = snd (watch_step lower ignored opt (Tick now after ok) s)
    in if \<not> due then watch_step lower ignored opt (Tick now after ok) s = (None, s)
       else if ok then \<not> pending (ws_queue s') \<and> ws_dirtyAt s' = None \<and> ws_retryAt s' = None \<and> ws_retryCount s' = 0
         \<and> ws_cycles s' = ws_cycles s + 1
       else pending (ws_queue s') \<and> ws_queue s' = ws_queue s \<and> ws_dirtyAt s' = ws_dirtyAt s \<and> ws_cycles s' = ws_cycles s
         \<and> ws_retryCount s' = ws_retryCount s + 1
         \<and> (\<exists>r. ws_retryAt s' = Some r \<and> after < r
            \<and> r \<le> after + retry_maximum (wo_RetryInitial opt) (wo_RetryMax opt))"
proof (cases "tick_due opt now s")
  case True
  have inv: "watch_inv s D failed" by (rule watch_reach_inv[OF assms])
  have pend: "pending (ws_queue s)" using True by (simp add: tick_due_def)
  have "\<not> pending (ws_queue (watch_refresh opt after True s))" "ws_dirtyAt (watch_refresh opt after True s) = None"
    using watch_inv_refresh[OF inv, of opt after True] by (simp_all add: watch_inv_def)
  then show ?thesis
    using True watch_idle_or_due[OF inv, of opt now] pend retryDelay_bounds
    by (simp add: Let_def watch_refresh_def queue_begin_def)
next
  case False
  then show ?thesis using watch_idle_or_due[OF watch_reach_inv[OF assms], of opt now] by (simp add: Let_def)
qed

theorem watch_due_tick_progress_witness:
  "let s' = snd (watch_step (\<lambda>s. s) (\<lambda>r d. False) sample_opt (Tick 40 41 True) sample_retry)
   in \<not> pending (ws_queue s') \<and> ws_retryAt s' = None \<and> ws_retryCount s' = 0"
proof -
  have "\<forall>d. ws_dirtyAt sample_retry = Some d \<longrightarrow> d + fs_debounce sample_opt \<le> 40"
    "\<forall>r. ws_retryAt sample_retry = Some r \<longrightarrow> r \<le> 40"
    by (simp_all add: sample_retry_def sample_watch_def mark_dirty_def watch_refresh_def init_watch_def fs_debounce_def
        sample_opt_def queue_begin_def Let_def retryDelay_def retry_initial_def retry_maximum_def retry_loop.simps)
  then show ?thesis using watch_due_tick_progress[OF sample_retry_reach, of 40 41 True] by (simp add: Let_def)
qed

text \<open>The failure of the initial cycle is not queued: with nothing in the queue no
  tick starts a refresh, so it is retried only after some event arrives.\<close>

lemma initial_failure_waits_for_event:
  "watch_start opt now False = (None, s)
    \<Longrightarrow> watch_run lower ignored opt (map (\<lambda>(t, a). Tick t a True) ts) s = (None, s)"
proof (induction ts)
  case (Cons t ts)
  then have "\<not> tick_due opt x s" for x
    by (auto simp: watch_start_def watch_refresh_def init_watch_def tick_due_def Let_def)
  with Cons show ?case by (cases t) simp
qed simp

text \<open>Every directory given to the kernel watcher is unignored and at most four
  components deep.\<close>

lemma watch_dirs_bounded:
  "d \<in> set (watch_dirs ignored rel nd) \<Longrightarrow> \<not> ignored d True \<and> (d = ''.'' \<or> count_list d CHR ''/'' \<le> 3)"
  by (induction ignored rel nd rule: watch_dirs.induct) (auto split: if_splits)

lemma poll_refreshes_when_due:
  assumes "ps_dirtySince s = Some d" "d + fs_debounce opt \<le> now" "\<And>r. ps_retryAt s = Some r \<Longrightarrow> r \<le> now"
  shows "snd (poll_tick opt now (Some False) ok s) = poll_refresh opt now ok s"
proof -
  have "s\<lparr>ps_dirtySince := Some d\<rparr> = s" using assms(1) by (cases s) simp
  moreover have "snd (poll_tick opt now (Some False) ok s) = poll_refresh opt now ok (s\<lparr>ps_dirtySince := Some d\<rparr>)"
    using assms by (auto simp: poll_tick_def Let_def split: option.splits)
  ultimately show ?thesis by (simp only:)
qed

end
