(* ===== verification/Repo_Ignore.thy ===== *)
theory Repo_Ignore
  imports Durable_Index Watch_Loop
begin

text \<open>
  The ignore policy (\<^verbatim>\<open>repoignore/ignore.go\<close>): reading the ignore files, the
  translation of a pattern into a regular expression and the decision for a path.

  A compiled expression is a list of \<open>piece\<close>s, one per construct that
  \<^verbatim>\<open>compile\<close> writes, and \<open>re_match\<close> is Go's meaning of these constructs on the
  runes of the path: the dot does not match a newline, a negated class does.
  A bracket expression whose body the regular-expression parser does not read as
  one class (an empty body, a lone negation or a nested POSIX class, which make it
  swallow the text that follows) is left to the argument \<open>rx\<close>.
\<close>

section \<open>Expressions\<close>

datatype piece =
    Lit nat
  | NotSlash
  | StarSeg
  | DotStar
  | DirsOpt
  | TailOpt
  | Class bool "(nat \<times> nat) list"

abbreviation slash :: nat where "slash \<equiv> 47"
abbreviation newline :: nat where "newline \<equiv> 10"

fun weight :: "piece \<Rightarrow> nat" where
  "weight DirsOpt = 3"
| "weight TailOpt = 3"
| "weight _ = 1"

function re_match :: "piece list \<Rightarrow> nat list \<Rightarrow> bool" where
  "re_match [] s = (s = [])"
| "re_match (Lit c # ps) s = (case s of [] \<Rightarrow> False | x # xs \<Rightarrow> x = c \<and> re_match ps xs)"
| "re_match (NotSlash # ps) s = (case s of [] \<Rightarrow> False | x # xs \<Rightarrow> x \<noteq> slash \<and> re_match ps xs)"
| "re_match (Class neg rs # ps) s =
    (case s of [] \<Rightarrow> False
     | x # xs \<Rightarrow> (list_ex (\<lambda>(lo, hi). lo \<le> x \<and> x \<le> hi) rs \<noteq> neg) \<and> re_match ps xs)"
| "re_match (StarSeg # ps) s =
    (re_match ps s \<or> (case s of [] \<Rightarrow> False | x # xs \<Rightarrow> x \<noteq> slash \<and> re_match (StarSeg # ps) xs))"
| "re_match (DotStar # ps) s =
    (re_match ps s \<or> (case s of [] \<Rightarrow> False | x # xs \<Rightarrow> x \<noteq> newline \<and> re_match (DotStar # ps) xs))"
| "re_match (DirsOpt # ps) s = (re_match ps s \<or> re_match (DotStar # Lit slash # ps) s)"
| "re_match (TailOpt # ps) s = (re_match ps s \<or> re_match (Lit slash # DotStar # ps) s)"
  by pat_completeness auto
termination
  by (relation "measures [\<lambda>(ps, s). sum_list (map weight ps), \<lambda>(ps, s). length s]") auto


lemma re_match_star_simps [simp]:
  "re_match (StarSeg # ps) [] = re_match ps []"
  "re_match (StarSeg # ps) (x # xs) = (re_match ps (x # xs) \<or> x \<noteq> slash \<and> re_match (StarSeg # ps) xs)"
  "re_match (DotStar # ps) [] = re_match ps []"
  "re_match (DotStar # ps) (x # xs) = (re_match ps (x # xs) \<or> x \<noteq> newline \<and> re_match (DotStar # ps) xs)"
  by (simp_all)

declare re_match.simps(5,6) [simp del]


section \<open>Patterns\<close>

text \<open>The items of a bracket body: single runes and ranges; a range whose ends are
  out of order does not compile.\<close>

fun class_items :: "nat list \<Rightarrow> (nat \<times> nat) list option" where
  "class_items [] = Some []"
| "class_items (lo # d # hi # rest) =
    (if d = 45
     then (if hi < lo then None else map_option (Cons (lo, hi)) (class_items rest))
     else map_option (Cons (lo, lo)) (class_items (d # hi # rest)))"
| "class_items (lo # rest) = map_option (Cons (lo, lo)) (class_items rest)"

text \<open>The body after the source's rewriting of a leading exclamation mark.\<close>

definition class_body :: "string \<Rightarrow> string" where
  "class_body cl = (if has_prefix cl ''!'' then CHR ''^'' # drop 1 cl else cl)"

definition odd_class :: "string \<Rightarrow> bool" where
  "odd_class b \<longleftrightarrow> b = [] \<or> b = ''^'' \<or> str_contains b ''[:''"

definition class_piece :: "string \<Rightarrow> piece option" where
  "class_piece b =
    (if \<not> valid_utf8 b then None
     else if has_prefix b ''^''
     then map_option (Class True) (class_items (map fst (runes_of (drop 1 b))))
     else map_option (Class False) (class_items (map fst (runes_of b))))"

datatype compiled = Expr "piece list" | Broken | Odd

definition then_piece :: "piece option \<Rightarrow> compiled \<Rightarrow> compiled" where
  "then_piece p r =
    (case r of Odd \<Rightarrow> Odd | Broken \<Rightarrow> Broken
     | Expr ps \<Rightarrow> (case p of None \<Rightarrow> Broken | Some q \<Rightarrow> Expr (q # ps)))"

text \<open>The loop of \<^verbatim>\<open>compile\<close> over the bytes of the pattern.\<close>

function glob :: "string \<Rightarrow> compiled" where
  "glob [] = Expr []"
| "glob (c # s) =
    (if c = CHR ''*'' then
       (if has_prefix s ''*/'' then then_piece (Some DirsOpt) (glob (drop 2 s))
        else if has_prefix s ''*'' then then_piece (Some DotStar) (glob (drop 1 s))
        else then_piece (Some StarSeg) (glob s))
     else if c = CHR ''?'' then then_piece (Some NotSlash) (glob s)
     else if c = CHR ''['' then
       (if CHR '']'' \<notin> set s then then_piece (Some (Lit (byte c))) (glob s)
        else (let b = class_body (takeWhile (\<lambda>x. x \<noteq> CHR '']'') s);
                  rest = drop 1 (dropWhile (\<lambda>x. x \<noteq> CHR '']'') s)
              in if odd_class b then Odd else then_piece (class_piece b) (glob rest)))
     else then_piece (Some (Lit (byte c))) (glob s))"
  by pat_completeness auto
termination
  by (relation "measure length") (auto simp: less_Suc_eq_le le_diff_conv intro: le_SucI length_dropWhile_le)

datatype matcher = Pieces "piece list" | OddPattern string bool | Never

definition compile :: "string \<Rightarrow> bool \<Rightarrow> matcher" where
  "compile pattern rooted =
    (let anchored = (rooted \<or> CHR ''/'' \<in> set pattern)
     in case glob pattern of
          Odd \<Rightarrow> OddPattern pattern rooted
        | Expr ps \<Rightarrow> Pieces ((if anchored then [] else [DirsOpt]) @ ps @ [TailOpt])
        | Broken \<Rightarrow>
            if valid_utf8 pattern
            then Pieces ((if rooted then [] else [DirsOpt]) @ map Lit (map fst (runes_of pattern)) @ [TailOpt])
            else Never)"

fun matches :: "(string \<Rightarrow> bool \<Rightarrow> nat list \<Rightarrow> bool) \<Rightarrow> matcher \<Rightarrow> nat list \<Rightarrow> bool" where
  "matches rx (Pieces ps) s = re_match ps s"
| "matches rx (OddPattern p rooted) s = rx p rooted s"
| "matches rx Never s = False"


section \<open>Rules\<close>

record rule =
  ru_pattern :: matcher
  ru_negated :: bool
  ru_dirOnly :: bool

definition trim_prefix :: "string \<Rightarrow> string \<Rightarrow> string" where
  "trim_prefix p s = (if has_prefix s p then drop (length p) s else s)"

definition trim_suffix :: "string \<Rightarrow> string \<Rightarrow> string" where
  "trim_suffix p s = (if has_suffix s p then take (length s - length p) s else s)"

definition add_rule :: "string \<Rightarrow> rule list \<Rightarrow> rule list" where
  "add_rule raw rules =
    (let p0 = trim_space raw
     in if p0 = [] \<or> has_prefix p0 ''#'' then rules
        else (let negated = has_prefix p0 ''!'';
                  p1 = trim_prefix ''!'' p0;
                  p2 = map (\<lambda>c. if c = CHR 0x5C then CHR ''/'' else c) p1;
                  dirOnly = has_suffix p2 ''/'';
                  rooted = has_prefix p2 ''/'';
                  p3 = trim_suffix ''/'' (trim_prefix ''/'' (trim_prefix ''./'' p2))
              in if p3 = [] then rules
                 else rules @ [\<lparr>ru_pattern = compile p3 rooted, ru_negated = negated, ru_dirOnly = dirOnly\<rparr>]))"

definition defaultPatterns :: "string list" where
  "defaultPatterns =
    [''.git/'', ''.sentra/'', ''.ouroboros/'', ''.idea/'', ''.vscode/'',
     ''node_modules/'', ''vendor/'', ''target/'', ''dist/'', ''build/'', ''out/'',
     ''coverage/'', ''__pycache__/'', ''.cache/'', ''.pytest_cache/'', ''.mypy_cache/'',
     ''.ruff_cache/'', ''.next/'', ''.nuxt/'', ''.turbo/'', ''.nx/'', ''.venv/'', ''venv/'',
     ''bazel-*/'', ''.DS_Store'', ''.env'', ''.env.*'', ''*.pyc'', ''*.pyo'', ''*.log'',
     ''*.map'']"

definition maxIgnoreLineBytes :: nat where
  "maxIgnoreLineBytes = 8 * 2 ^ 20"

text \<open>An ignore file: missing, unreadable (with the error) or its content.\<close>

datatype ignore_file_state = Missing | Unreadable_file string | Content string

definition addFile :: "ignore_file_state \<Rightarrow> rule list \<Rightarrow> string + rule list" where
  "addFile f rules =
    (case f of
       Missing \<Rightarrow> Inr rules
     | Unreadable_file err \<Rightarrow> Inl err
     | Content s \<Rightarrow>
         (let (ls, ok) = scan_lines maxIgnoreLineBytes s
          in if ok then Inr (fold add_rule ls rules) else Inl ''token too long''))"

definition default_rules :: "rule list" where
  "default_rules = fold add_rule defaultPatterns []"

fun add_files :: "ignore_file_state list \<Rightarrow> rule list \<Rightarrow> string + rule list" where
  "add_files [] rules = Inr rules"
| "add_files (f # fs) rules =
    (case addFile f rules of Inl e \<Rightarrow> Inl e | Inr rs \<Rightarrow> add_files fs rs)"

definition Load_ignores :: "ignore_file_state \<Rightarrow> ignore_file_state \<Rightarrow> ignore_file_state \<Rightarrow> string + rule list" where
  "Load_ignores gitignore dockerignore exclude = add_files [gitignore, dockerignore, exclude] default_rules"

definition rule_step :: "(string \<Rightarrow> bool \<Rightarrow> nat list \<Rightarrow> bool) \<Rightarrow> string \<Rightarrow> bool \<Rightarrow> rule \<Rightarrow> bool \<Rightarrow> bool" where
  "rule_step rx path isDir r ignored =
    (if ru_dirOnly r \<and> \<not> isDir \<and> CHR ''/'' \<notin> set path then ignored
     else if matches rx (ru_pattern r) (map fst (runes_of path)) then \<not> ru_negated r
     else ignored)"

definition Ignored :: "(string \<Rightarrow> bool \<Rightarrow> nat list \<Rightarrow> bool) \<Rightarrow> rule list \<Rightarrow> string \<Rightarrow> bool \<Rightarrow> bool" where
  "Ignored rx rules path0 isDir =
    (let path = path_clean path0
     in if path = ''.'' \<or> path = [] then False
        else fold (rule_step rx path isDir) rules False)"


section \<open>What an expression matches\<close>

lemma re_match_lits: "re_match (map Lit w @ ps) s \<longleftrightarrow> (\<exists>t. s = w @ t \<and> re_match ps t)"
  by (induction w arbitrary: s) (auto split: list.splits)

lemma re_match_Lit: "re_match (Lit c # ps) s \<longleftrightarrow> (\<exists>t. s = c # t \<and> re_match ps t)"
  by (cases s) auto

lemma re_match_DotStar:
  "re_match (DotStar # ps) s \<longleftrightarrow> (\<exists>a b. s = a @ b \<and> newline \<notin> set a \<and> re_match ps b)"
proof (induction s)
  case (Cons x s)
  show ?case
  proof
    assume "re_match (DotStar # ps) (x # s)"
    then consider "re_match ps (x # s)" | "x \<noteq> newline" "re_match (DotStar # ps) s" by auto
    then show "\<exists>a b. x # s = a @ b \<and> newline \<notin> set a \<and> re_match ps b"
    proof cases
      case 1
      then show ?thesis by (intro exI[of _ "[]"] exI[of _ "x # s"]) simp
    next
      case 2
      with Cons obtain a b where "s = a @ b" "newline \<notin> set a" "re_match ps b" by blast
      with 2 show ?thesis by (intro exI[of _ "x # a"] exI[of _ b]) simp
    qed
  next
    assume "\<exists>a b. x # s = a @ b \<and> newline \<notin> set a \<and> re_match ps b"
    then obtain a b where ab: "x # s = a @ b" "newline \<notin> set a" "re_match ps b" by blast
    then show "re_match (DotStar # ps) (x # s)" using Cons.IH by (cases a) auto
  qed
qed simp

lemma re_match_DirsOpt:
  "re_match (DirsOpt # ps) s \<longleftrightarrow>
    re_match ps s \<or> (\<exists>a b. s = a @ slash # b \<and> newline \<notin> set a \<and> re_match ps b)"
  unfolding re_match.simps(7) re_match_DotStar re_match_Lit by blast

lemma re_match_TailOpt: "re_match [TailOpt] s \<longleftrightarrow> s = [] \<or> (\<exists>t. s = slash # t \<and> newline \<notin> set t)"
  unfolding re_match.simps(1,8) re_match_DotStar re_match_Lit by auto

definition plain_name :: "string \<Rightarrow> bool" where
  "plain_name w \<longleftrightarrow> w \<noteq> [] \<and>
    list_all (\<lambda>c. byte c < 0x80 \<and> c \<notin> {CHR ''*'', CHR ''?'', CHR ''['', CHR ''/''}) w"

lemma glob_plain: "plain_name w \<Longrightarrow> glob w = Expr (map Lit (map byte w))"
proof -
  have "list_all (\<lambda>c. c \<notin> {CHR ''*'', CHR ''?'', CHR ''[''}) w \<Longrightarrow> glob w = Expr (map Lit (map byte w))"
    by (induction w) (simp_all add: then_piece_def)
  then show "plain_name w \<Longrightarrow> ?thesis" by (auto simp: plain_name_def list_all_iff)
qed

lemma compile_plain:
  assumes "plain_name w"
  shows "compile w False = Pieces (DirsOpt # map Lit (map byte w) @ [TailOpt])"
proof -
  have "CHR ''/'' \<notin> set w" using assms by (auto simp: plain_name_def list_all_iff)
  then show ?thesis by (simp add: compile_def glob_plain[OF assms])
qed

lemma newline_free: "CHR 0x0A \<notin> set s \<Longrightarrow> newline \<notin> fst ` set (runes_of s)"
proof
  assume nl: "CHR 0x0A \<notin> set s" "newline \<in> fst ` set (runes_of s)"
  then obtain x where "x \<in> set s" "byte x = newline" using ascii_rune_byte by fastforce
  moreover from \<open>byte x = newline\<close> have "x = char_of newline" by (metis byte_def char_of_char)
  moreover have "char_of newline = CHR 0x0A" by code_simp
  ultimately show False using nl(1) by simp
qed

text \<open>A path that contains a plain name as a component matches its pattern.\<close>

lemma plain_component_matches:
  assumes w: "plain_name w" and p: "p = pre @ w @ post"
    and pre: "pre = [] \<or> (\<exists>a. pre = a @ ''/'')" and post: "post = [] \<or> (\<exists>b. post = CHR ''/'' # b)"
    and nl: "CHR 0x0A \<notin> set p"
  shows "matches rx (compile w False) (map fst (runes_of p))"
proof -
  have slash_byte: "byte (CHR ''/'') = slash" by (simp add: byte_def)
  have ascii: "list_all (\<lambda>c. byte c < 0x80) w" using w by (simp add: plain_name_def list_all_iff)
  have split: "runes_of (u @ CHR ''/'' # v) = runes_of u @ (slash, ''/'') # runes_of v" for u v
    using runes_of_append_ascii[of "CHR ''/''" u v] runes_of_ascii_Cons[of "CHR ''/''" v]
    by (simp add: slash_byte)
  have tail: "\<exists>t. map fst (runes_of (w @ post)) = map byte w @ t \<and> re_match [TailOpt] t"
    using post
  proof
    assume "post = []"
    then show ?thesis using runes_of_ascii[OF ascii] by (auto simp: re_match_TailOpt simp del: re_match.simps)
  next
    assume "\<exists>b. post = CHR ''/'' # b"
    then obtain b where b: "post = CHR ''/'' # b" by blast
    with nl p have "newline \<notin> set (map fst (runes_of b))" using newline_free[of b] by simp
    then show ?thesis using runes_of_ascii[OF ascii] by (simp add: b split re_match_TailOpt del: re_match.simps)
  qed
  then have body: "re_match (map Lit (map byte w) @ [TailOpt]) (map fst (runes_of (w @ post)))"
    unfolding re_match_lits .
  show ?thesis
    using pre
  proof
    assume "pre = []"
    with body show ?thesis by (simp add: p compile_plain[OF w] re_match_DirsOpt del: re_match.simps)
  next
    assume "\<exists>a. pre = a @ ''/''"
    then obtain a where a: "pre = a @ ''/''" by blast
    with nl p have "newline \<notin> set (map fst (runes_of a))" using newline_free[of a] by simp
    moreover have "map fst (runes_of p) = map fst (runes_of a) @ slash # map fst (runes_of (w @ post))"
      by (simp add: p a split)
    ultimately show ?thesis
      unfolding compile_plain[OF w] matches.simps re_match_DirsOpt using body by blast
  qed
qed


text \<open>And no other path does: the runes that match are the bytes of the name.\<close>

lemma ascii_rune_bytes: "(r, bs) \<in> set (runes_of s) \<Longrightarrow> r < 0x80 \<Longrightarrow> \<exists>x. bs = [x] \<and> byte x = r"
proof (induction s rule: runes_of.induct)
  case (2 a s)
  show ?case
  proof (cases "(r, bs) = (first_rune (a # s), take (rune_width (a # s)) (a # s))")
    case True
    then have "chunk_ok bs" "r = chunk_rune bs"
      using "2.prems"(2) by (auto simp: first_rune_def Let_def rune_error_def split: if_splits)
    then show ?thesis using chunk_rune_ascii "2.prems"(2) by auto
  next
    case False
    then show ?thesis using 2 by auto
  qed
qed simp

lemma slash_rune: "(slash, bs) \<in> set (runes_of s) \<Longrightarrow> bs = ''/''"
proof -
  assume "(slash, bs) \<in> set (runes_of s)"
  then obtain x where x: "bs = [x]" "byte x = slash" using ascii_rune_bytes[of slash bs s] by auto
  then have "x = char_of slash" by (metis byte_def char_of_char)
  moreover have "char_of slash = CHR ''/''" by code_simp
  ultimately show "bs = ''/''" using x(1) by simp
qed

lemma runes_bytes:
  assumes "set rs \<subseteq> set (runes_of s)" "map fst rs = map byte w" "list_all (\<lambda>c. byte c < 0x80) w"
  shows "concat (map snd rs) = w"
  using assms
proof (induction rs arbitrary: w)
  case (Cons r rs)
  then obtain c v where w: "w = c # v" by (cases w) auto
  obtain k bs where r: "r = (k, bs)" by (cases r)
  have k: "k = byte c" "k < 0x80" "(k, bs) \<in> set (runes_of s)" using Cons.prems by (auto simp: w r)
  obtain x where "bs = [x]" "byte x = byte c" using ascii_rune_bytes[OF k(3,2)] k(1) by blast
  then have "bs = [c]" by (simp add: byte_def)
  moreover have "concat (map snd rs) = v" by (rule Cons.IH) (use Cons.prems in \<open>auto simp: w\<close>)
  ultimately show ?case by (simp add: r w)
qed simp

lemma runes_split:
  assumes "map fst (runes_of p) = x @ y"
  obtains u v where "p = concat (map snd u) @ concat (map snd v)" "map fst u = x" "map fst v = y"
    "set u \<subseteq> set (runes_of p)" "set v \<subseteq> set (runes_of p)"
proof -
  let ?u = "take (length x) (runes_of p)" and ?v = "drop (length x) (runes_of p)"
  have "concat (map snd ?u) @ concat (map snd ?v) = concat (map snd (?u @ ?v))" unfolding map_append concat_append ..
  then have "p = concat (map snd ?u) @ concat (map snd ?v)" by (simp only: append_take_drop_id concat_runes_of)
  moreover have "map fst ?u = x" "map fst ?v = y" using assms by (simp_all flip: take_map drop_map)
  moreover have "set ?u \<subseteq> set (runes_of p)" "set ?v \<subseteq> set (runes_of p)" by (rule set_take_subset, rule set_drop_subset)
  ultimately show thesis by (rule that)
qed

text \<open>Where the name ends: the path ends, or a slash follows.\<close>

definition starts_name :: "string \<Rightarrow> string \<Rightarrow> bool" where
  "starts_name w q \<longleftrightarrow> q = w \<or> (\<exists>b. q = w @ CHR ''/'' # b)"

lemma plain_tail:
  assumes w: "plain_name w" and rs: "map fst rs = map byte w @ t" "re_match [TailOpt] t" "set rs \<subseteq> set (runes_of s)"
  shows "starts_name w (concat (map snd rs))"
proof -
  have ascii: "list_all (\<lambda>c. byte c < 0x80) w" using w by (simp add: plain_name_def list_all_iff)
  define u v where "u = take (length w) rs" and "v = drop (length w) rs"
  have uv: "rs = u @ v" "map fst u = map byte w" "map fst v = t"
    using rs(1) by (simp_all add: u_def v_def flip: take_map drop_map)
  have sub: "set u \<subseteq> set (runes_of s)" "set v \<subseteq> set (runes_of s)" using rs(3) by (auto simp: uv(1))
  have u: "concat (map snd u) = w" by (rule runes_bytes[OF sub(1) uv(2) ascii])
  from rs(2) consider "t = []" | t' where "t = slash # t'" unfolding re_match_TailOpt by blast
  then show ?thesis
  proof cases
    case 1
    then show ?thesis using u uv by (simp add: starts_name_def)
  next
    case 2
    then obtain bs v' where v: "v = (slash, bs) # v'" using uv(3) by (cases v) auto
    then have "bs = ''/''" using slash_rune[of bs s] sub(2) by auto
    then show ?thesis using u uv(1) v by (simp add: starts_name_def)
  qed
qed

lemma split_on_append: "split_on c (a @ c # b) = split_on c a @ split_on c b"
  by (induction a) (auto split: list.splits)

lemma starts_name_component:
  assumes "plain_name w" "starts_name w q"
  shows "w \<in> set (split_on CHR ''/'' (a @ CHR ''/'' # q))" "w \<in> set (split_on CHR ''/'' q)"
proof -
  have "CHR ''/'' \<notin> set w" using assms(1) by (auto simp: plain_name_def list_all_iff)
  then show "w \<in> set (split_on CHR ''/'' q)" using assms(2) by (auto simp: starts_name_def split_on_append)
  then show "w \<in> set (split_on CHR ''/'' (a @ CHR ''/'' # q))" by (simp add: split_on_append)
qed

lemma plain_matches_component:
  assumes w: "plain_name w" and m: "matches rx (compile w False) (map fst (runes_of p))"
  shows "w \<in> set (path_components p)"
proof -
  let ?body = "map Lit (map byte w) @ [TailOpt]"
  have "re_match (DirsOpt # ?body) (map fst (runes_of p))" using m by (simp only: compile_plain[OF w] matches.simps append_Cons append_Nil)
  then consider "re_match ?body (map fst (runes_of p))"
    | a b where "map fst (runes_of p) = a @ slash # b" "re_match ?body b" unfolding re_match_DirsOpt by blast
  then show ?thesis
  proof cases
    case 1
    then obtain t where "map fst (runes_of p) = map byte w @ t" "re_match [TailOpt] t" unfolding re_match_lits by blast
    from plain_tail[OF w this subset_refl] starts_name_component(2)[OF w] show ?thesis by (simp add: path_components_def)
  next
    case 2
    then obtain t where t: "b = map byte w @ t" "re_match [TailOpt] t" unfolding re_match_lits by blast
    obtain u v :: "(nat \<times> string) list" where
      uv: "p = concat (map snd u) @ concat (map snd v)" and "map fst u = a" and fv: "map fst v = slash # b"
      and "set u \<subseteq> set (runes_of p)" and sv: "set v \<subseteq> set (runes_of p)"
      by (rule runes_split[OF 2(1)])
    obtain bs v' where v: "v = (slash, bs) # v'" "map fst v' = b" using fv by (cases v) auto
    then have "bs = ''/''" using slash_rune[of bs p] sv by auto
    then have p: "p = concat (map snd u) @ CHR ''/'' # concat (map snd v')" using uv by (simp add: v(1))
    have "set v' \<subseteq> set (runes_of p)" using sv by (auto simp: v(1))
    from plain_tail[OF w _ t(2) this] v(2) t(1) have "starts_name w (concat (map snd v'))" by simp
    from starts_name_component(1)[OF w this] show ?thesis unfolding path_components_def by (subst p)
  qed
qed


section \<open>Components of a path\<close>

text \<open>Splitting a path at one of its components.\<close>

lemma join_split_at:
  assumes "w \<in> set cs"
  obtains pre post where "join_with ''/'' cs = pre @ w @ post"
    "pre = [] \<or> (\<exists>a. pre = a @ ''/'')" "post = [] \<or> (\<exists>b. post = CHR ''/'' # b)"
proof -
  have "\<exists>pre post. join_with ''/'' cs = pre @ w @ post
    \<and> (pre = [] \<or> (\<exists>a. pre = a @ ''/'')) \<and> (post = [] \<or> (\<exists>b. post = CHR ''/'' # b))"
    using assms
  proof (induction cs)
    case (Cons c cs)
    show ?case
    proof (cases "c = w")
      case True
      then show ?thesis
        by (cases cs) (auto intro: exI[of _ "[]"] simp: join_with_Cons)
    next
      case False
      with Cons obtain pre post where pp: "join_with ''/'' cs = pre @ w @ post"
        "pre = [] \<or> (\<exists>a. pre = a @ ''/'')" "post = [] \<or> (\<exists>b. post = CHR ''/'' # b)" by auto
      have "join_with ''/'' (c # cs) = (c @ ''/'' @ pre) @ w @ post"
        using pp(1) False Cons.prems by (cases cs) auto
      moreover have "\<exists>a. c @ ''/'' @ pre = a @ ''/''"
        using pp(2) by (metis append.assoc append_Nil2)
      ultimately show ?thesis using pp(3) by blast
    qed
  qed simp
  with that show thesis by blast
qed


section \<open>Decisions\<close>

definition rule_applies :: "(string \<Rightarrow> bool \<Rightarrow> nat list \<Rightarrow> bool) \<Rightarrow> string \<Rightarrow> bool \<Rightarrow> rule \<Rightarrow> bool" where
  "rule_applies rx path d r \<longleftrightarrow> (\<not> ru_dirOnly r \<or> d \<or> CHR ''/'' \<in> set path)
    \<and> matches rx (ru_pattern r) (map fst (runes_of path))"

lemma rule_step_alt: "rule_step rx path d r b = (if rule_applies rx path d r then \<not> ru_negated r else b)"
  by (auto simp: rule_step_def rule_applies_def)

lemma fold_rule_last:
  "fold (rule_step rx path d) rules b =
    (case filter (rule_applies rx path d) (rev rules) of [] \<Rightarrow> b | r # _ \<Rightarrow> \<not> ru_negated r)"
  by (induction rules rule: rev_induct) (simp_all add: rule_step_alt)

lemma fold_rule_monotone:
  "\<forall>r \<in> set rs. \<not> ru_negated r \<Longrightarrow> fold (rule_step rx path d) rs True"
  by (induction rs) (simp_all add: rule_step_alt)

definition default_dirs :: "string list" where
  "default_dirs = map butlast (take 23 defaultPatterns)"

definition dir_rule :: "string \<Rightarrow> rule" where
  "dir_rule w = \<lparr>ru_pattern = compile w False, ru_negated = False, ru_dirOnly = True\<rparr>"

lemma add_rule_shape:
  "\<exists>rs. add_rule raw rules = rules @ rs \<and> (\<forall>r \<in> set rs. ru_negated r = has_prefix (trim_space raw) ''!'')"
  by (simp add: add_rule_def Let_def)

lemma fold_add_rule_shape:
  "\<forall>raw \<in> set raws. \<not> has_prefix (trim_space raw) ''!'' \<Longrightarrow>
    \<exists>rs. fold add_rule raws rules = rules @ rs \<and> (\<forall>r \<in> set rs. \<not> ru_negated r)"
proof (induction raws arbitrary: rules)
  case (Cons raw raws)
  obtain r1 where r1: "add_rule raw rules = rules @ r1" "\<forall>r \<in> set r1. \<not> ru_negated r"
    using add_rule_shape[of raw rules] Cons.prems by auto
  obtain r2 where "fold add_rule raws (rules @ r1) = (rules @ r1) @ r2" "\<forall>r \<in> set r2. \<not> ru_negated r"
    using Cons.IH[of "rules @ r1"] Cons.prems by auto
  with r1 show ?case by (intro exI[of _ "r1 @ r2"]) auto
qed simp

definition dir_word :: "string \<Rightarrow> bool" where
  "dir_word w \<longleftrightarrow> plain_name w \<and> list_all graphic w \<and> CHR 0x5C \<notin> set w \<and> hd w \<notin> {CHR ''#'', CHR ''!''}
    \<and> w \<noteq> ''.''"

text \<open>A line of an ignore file that is a plain name, possibly negated and possibly ending in a
  slash, and the rule it becomes.\<close>

record plain_line =
  pl_negated :: bool
  pl_name :: string
  pl_dirOnly :: bool

definition line_text :: "plain_line \<Rightarrow> string" where
  "line_text l = (if pl_negated l then ''!'' else []) @ pl_name l @ (if pl_dirOnly l then ''/'' else [])"

lemma add_rule_line:
  assumes "dir_word (pl_name l)"
  shows "add_rule (line_text l) rules =
    rules @ [\<lparr>ru_pattern = compile (pl_name l) False, ru_negated = pl_negated l, ru_dirOnly = pl_dirOnly l\<rparr>]"
proof -
  obtain c v where w: "pl_name l = c # v" using assms by (cases "pl_name l") (auto simp: dir_word_def plain_name_def)
  let ?w = "c # v" and ?e = "if pl_dirOnly l then ''/'' else []"
  have g: "list_all graphic ?w" "graphic (CHR ''/'')" "graphic (CHR ''!'')" using assms by (auto simp: dir_word_def w graphic_def)
  have c: "c \<noteq> CHR ''#''" "c \<noteq> CHR ''!''" "c \<noteq> CHR ''/''" and v: "c = CHR ''.'' \<Longrightarrow> v \<noteq> []"
    and s: "CHR ''/'' \<notin> set ?w" and b: "CHR 0x5C \<notin> set ?w"
    using assms by (auto simp: dir_word_def w plain_name_def list_all_iff)
  have gl: "graphic (last ?w)" using g(1) by (metis last_in_set list.distinct(1) list_all_iff)
  have lt: "line_text l = (if pl_negated l then ''!'' else []) @ ?w @ ?e" by (simp add: line_text_def w)
  have trim: "trim_space (line_text l) = line_text l"
    unfolding lt by (rule trim_space_id) (use g gl in \<open>auto\<close>)
  have conv: "map (\<lambda>c. if c = CHR 0x5C then CHR ''/'' else c) (?w @ ?e) = ?w @ ?e"
    using b by (auto intro: map_idI)
  have neg: "has_prefix (line_text l) ''!'' = pl_negated l" "has_prefix (line_text l) ''#'' = False" "line_text l \<noteq> []"
    using c by (simp_all add: lt has_prefix_def)
  have p1: "trim_prefix ''!'' (line_text l) = ?w @ ?e" unfolding trim_prefix_def neg(1) by (simp add: lt)
  have pre: "has_prefix (?w @ ?e) ''/'' = False" using c by (simp add: has_prefix_def)
  have dot: "has_prefix (?w @ ?e) ''./'' = False" using v s by (cases v) (auto simp: has_prefix_def)
  have suf: "has_suffix (?w @ ?e) ''/'' = pl_dirOnly l"
  proof (cases "pl_dirOnly l")
    case False
    have "last ?w \<noteq> CHR ''/''" using s by (metis last_in_set list.distinct(1))
    then show ?thesis using False by (cases "rev ?w") (auto simp: has_suffix_def has_prefix_def simp flip: hd_rev)
  qed (simp add: has_suffix_def has_prefix_def)
  have strip: "trim_prefix q (?w @ ?e) = ?w @ ?e" if "has_prefix (?w @ ?e) q = False" for q
    using that by (simp only: trim_prefix_def if_False)
  have tail: "trim_suffix ''/'' (?w @ ?e) = ?w" unfolding trim_suffix_def suf by simp
  show ?thesis
    unfolding add_rule_def Let_def trim p1 neg conv strip[OF dot] strip[OF pre] pre tail suf
    by (simp add: neg w)
qed

lemma add_rule_dir:
  assumes "dir_word w"
  shows "add_rule (w @ ''/'') rules = rules @ [dir_rule w]"
  using add_rule_line[of "\<lparr>pl_negated = False, pl_name = w, pl_dirOnly = True\<rparr>" rules] assms by (simp add: line_text_def dir_rule_def)

lemma default_dirs_words: "list_all dir_word default_dirs"
  by (simp add: default_dirs_def defaultPatterns_def dir_word_def plain_name_def graphic_def byte_def)

lemma fold_add_dirs:
  "list_all dir_word ws \<Longrightarrow> fold add_rule (map (\<lambda>w. w @ ''/'') ws) rules = rules @ map dir_rule ws"
  by (induction ws arbitrary: rules) (simp_all add: add_rule_dir)

lemma default_rules_split:
  obtains rs where "default_rules = map dir_rule default_dirs @ rs" "\<forall>r \<in> set rs. \<not> ru_negated r"
proof -
  let ?rest = "drop 23 defaultPatterns"
  have "defaultPatterns = map (\<lambda>w. w @ ''/'') default_dirs @ ?rest"
    by (simp add: default_dirs_def defaultPatterns_def)
  then have d: "default_rules = fold add_rule ?rest (map dir_rule default_dirs)"
    unfolding default_rules_def using fold_add_dirs[OF default_dirs_words, of "[]"]
    by (metis append_Nil comp_apply fold_append)
  have "\<forall>raw \<in> set ?rest. raw \<noteq> [] \<and> graphic (hd raw) \<and> graphic (last raw) \<and> hd raw \<noteq> CHR ''!''"
    by (simp add: defaultPatterns_def graphic_def)
  then have "\<forall>raw \<in> set ?rest. \<not> has_prefix (trim_space raw) ''!''"
    using trim_space_id by (auto simp: has_prefix_iff)
  from fold_add_rule_shape[OF this] that d show thesis by metis
qed

lemma default_dir_ignored:
  assumes user: "\<forall>r \<in> set user. \<not> ru_negated r" and p: "clean_names (path_components p)"
    and nl: "CHR 0x0A \<notin> set p" and w: "w \<in> set (path_components p)" "w \<in> set default_dirs"
    and d: "d \<or> CHR ''/'' \<in> set p"
  shows "Ignored rx (default_rules @ user) p d"
proof -
  obtain rs where rs: "default_rules = map dir_rule default_dirs @ rs" "\<forall>r \<in> set rs. \<not> ru_negated r"
    using default_rules_split by blast
  obtain u v where uv: "default_dirs = u @ w # v" using w(2) by (meson split_list)
  have plain: "plain_name w" using default_dirs_words w(2) by (auto simp: list_all_iff dir_word_def)
  have "join_with ''/'' (path_components p) = p" by (simp add: path_components_def)
  then obtain pre post where "p = pre @ w @ post"
    "pre = [] \<or> (\<exists>a. pre = a @ ''/'')" "post = [] \<or> (\<exists>b. post = CHR ''/'' # b)"
    using join_split_at[OF w(1)] by metis
  then have "matches rx (compile w False) (map fst (runes_of p))"
    using plain_component_matches[OF plain _ _ _ nl] by blast
  then have app: "rule_applies rx p d (dir_rule w)" using d by (auto simp: rule_applies_def dir_rule_def)
  let ?tail = "map dir_rule v @ rs @ user"
  have "fold (rule_step rx p d) ?tail True"
    by (rule fold_rule_monotone) (use rs(2) user in \<open>auto simp: dir_rule_def\<close>)
  moreover have "rule_step rx p d (dir_rule w) b = True" for b
    using app by (simp add: rule_step_alt dir_rule_def)
  ultimately have "fold (rule_step rx p d) (default_rules @ user) False"
    by (simp add: rs(1) uv)
  then show ?thesis using path_clean_id[OF p] by (simp add: Ignored_def Let_def)
qed


section \<open>The paths of a tree\<close>

fun names_ok :: "node \<Rightarrow> bool" where
  "names_ok (Dir ents) = list_all (\<lambda>(n, c). n \<noteq> ''..'' \<and> CHR 0x0A \<notin> set n \<and> names_ok c) ents"
| "names_ok _ = True"

definition good_path :: "string \<Rightarrow> bool" where
  "good_path p \<longleftrightarrow> clean_names (path_components p) \<and> CHR 0x0A \<notin> set p"

lemma child_path_good:
  assumes "rel = ''.'' \<or> good_path rel" "n \<noteq> []" "n \<noteq> ''.''" "n \<noteq> ''..''" "CHR ''/'' \<notin> set n" "CHR 0x0A \<notin> set n"
  shows "good_path (child_path rel n)" "last (path_components (child_path rel n)) = n"
  using assms by (auto simp: good_path_def child_path_def path_components_def clean_names_def split_on_append)

lemma dir_paths_good:
  assumes "wf_node nd" "names_ok nd" "rel = ''.'' \<or> good_path rel" "(n, p) \<in> set (dir_paths rel nd)"
  shows "good_path p \<and> last (path_components p) = n"
  using assms
proof (induction rel nd rule: dir_paths.induct)
  case (1 rel ents)
  then obtain m c where mc: "(m, c) \<in> set ents" "(n, p) = (m, child_path rel m) \<or> (n, p) \<in> set (dir_paths (child_path rel m) c)"
    by (auto split: node.splits)
  have m: "m \<noteq> []" "m \<noteq> ''.''" "m \<noteq> ''..''" "CHR ''/'' \<notin> set m" "CHR 0x0A \<notin> set m" "wf_node c" "names_ok c"
    using "1.prems"(1,2) mc(1) by (auto simp: list_all_iff)
  note good = child_path_good[OF "1.prems"(3) m(1-5)]
  from mc(2) show ?case
  proof
    assume "(n, p) = (m, child_path rel m)"
    with good show ?thesis by simp
  next
    assume "(n, p) \<in> set (dir_paths (child_path rel m) c)"
    with "1.IH"[OF mc(1) refl] m(6,7) good show ?thesis by blast
  qed
qed auto

lemma walk_path_good:
  assumes "wf_node nd" "names_ok nd" "(p, i) \<in> set (walk ig sk kp name rel nd)" "good_path rel"
  shows "good_path p"
  using assms
proof (induction ig sk kp name rel nd rule: walk.induct)
  case (2 ig sk kp name rel ents)
  from "2.prems"(3) have go: "\<not> (ig rel True \<or> sk name)" by (auto split: if_splits)
  then obtain m c where mc: "(m, c) \<in> set ents" "(p, i) \<in> set (walk ig sk kp m (child_path rel m) c)"
    using "2.prems"(3) by auto
  have m: "m \<noteq> []" "m \<noteq> ''.''" "m \<noteq> ''..''" "CHR ''/'' \<notin> set m" "CHR 0x0A \<notin> set m" "wf_node c" "names_ok c"
    using "2.prems"(1,2) mc(1) by (auto simp: list_all_iff)
  have "good_path (child_path rel m)" using child_path_good[OF _ m(1-5)] "2.prems"(4) by blast
  with "2.IH"[OF go mc(1) refl m(6,7) mc(2)] show ?case .
qed (auto split: if_splits)

lemma walk_root_good:
  assumes "wf_node nd" "names_ok nd" "(p, i) \<in> set (walk ig sk kp name ''.'' nd)" "p \<noteq> ''.''"
  shows "good_path p"
proof (cases nd)
  case (Dir ents)
  then obtain m c where mc: "(m, c) \<in> set ents" "(p, i) \<in> set (walk ig sk kp m (child_path ''.'' m) c)"
    using assms(3) by (auto split: if_splits)
  have m: "m \<noteq> []" "m \<noteq> ''.''" "m \<noteq> ''..''" "CHR ''/'' \<notin> set m" "CHR 0x0A \<notin> set m" "wf_node c" "names_ok c"
    using assms(1,2) mc(1) by (auto simp: list_all_iff Dir)
  show ?thesis using walk_path_good[OF m(6,7) mc(2)] child_path_good[OF _ m(1-5), of "''.''"] by blast
qed (use assms in \<open>auto split: if_splits\<close>)

lemma walk_not_ignored: "(p, i) \<in> set (walk ig sk kp name rel nd) \<Longrightarrow> \<not> ig p False"
  by (induction ig sk kp name rel nd rule: walk.induct) (auto split: if_splits)


section \<open>Properties\<close>

definition line_rule :: "plain_line \<Rightarrow> rule" where
  "line_rule l = \<lparr>ru_pattern = compile (pl_name l) False, ru_negated = pl_negated l, ru_dirOnly = pl_dirOnly l\<rparr>"

lemma fold_add_lines: "\<forall>l \<in> set ls. dir_word (pl_name l) \<Longrightarrow> fold add_rule (map line_text ls) rules = rules @ map line_rule ls"
  by (induction ls arbitrary: rules) (simp_all add: add_rule_line line_rule_def)

text \<open>Whether a plain line speaks of a path.\<close>

definition line_applies :: "string \<Rightarrow> bool \<Rightarrow> plain_line \<Rightarrow> bool" where
  "line_applies p isDir l \<longleftrightarrow> pl_name l \<in> set (path_components p) \<and> (pl_dirOnly l \<longrightarrow> isDir \<or> 1 < length (path_components p))"

lemma component_count: "1 < length (path_components p) \<longleftrightarrow> CHR ''/'' \<in> set p"
proof
  assume "1 < length (path_components p)"
  then show "CHR ''/'' \<in> set p" by (rule contrapos_pp) (simp add: path_components_def)
next
  assume "CHR ''/'' \<in> set p"
  then obtain a b where "p = a @ CHR ''/'' # b" by (meson split_list)
  moreover have "0 < length (split_on CHR ''/'' a)" "0 < length (split_on CHR ''/'' b)" by simp_all
  ultimately show "1 < length (path_components p)" by (simp only: path_components_def split_on_append length_append)
qed

lemma line_rule_applies:
  assumes "dir_word (pl_name l)" "CHR 0x0A \<notin> set p"
  shows "rule_applies rx p d (line_rule l) = line_applies p d l"
proof -
  have w: "plain_name (pl_name l)" using assms(1) by (simp add: dir_word_def)
  have "matches rx (compile (pl_name l) False) (map fst (runes_of p))" if c: "pl_name l \<in> set (path_components p)"
  proof -
    have "join_with ''/'' (path_components p) = p" by (simp add: path_components_def)
    then obtain pre post where "p = pre @ pl_name l @ post"
      "pre = [] \<or> (\<exists>a. pre = a @ ''/'')" "post = [] \<or> (\<exists>b. post = CHR ''/'' # b)"
      using join_split_at[OF c] by metis
    then show ?thesis using plain_component_matches[OF w _ _ _ assms(2)] by blast
  qed
  then have "matches rx (compile (pl_name l) False) (map fst (runes_of p)) \<longleftrightarrow> pl_name l \<in> set (path_components p)"
    using plain_matches_component[OF w] by blast
  then show ?thesis unfolding rule_applies_def line_applies_def component_count by (auto simp: line_rule_def)
qed


definition sample_lines :: "plain_line list" where
  "sample_lines = [\<lparr>pl_negated = False, pl_name = ''tmp'', pl_dirOnly = True\<rparr>, \<lparr>pl_negated = True, pl_name = ''keep'', pl_dirOnly = False\<rparr>]"


text \<open>So a line that ends in a slash hides a file of that name in a subdirectory, where no
  directory is concerned; it spares such a file only at the root.\<close>

lemma dir_line_hides_nested_file:
  assumes "dir_word w" "good_path (a @ ''/'' @ w)"
  shows "Ignored rx (add_rule (w @ ''/'') []) (a @ ''/'' @ w) False" "\<not> Ignored rx (add_rule (w @ ''/'') []) w False"
proof -
  let ?l = "\<lparr>pl_negated = False, pl_name = w, pl_dirOnly = True\<rparr>"
  have s: "CHR ''/'' \<notin> set w" using assms(1) by (auto simp: dir_word_def plain_name_def list_all_iff)
  have nl: "CHR 0x0A \<notin> set w" using assms(2) by (simp add: good_path_def)
  have c: "path_components (a @ CHR ''/'' # w) = path_components a @ [w]" "path_components w = [w]" "path_components a \<noteq> []"
    using s by (simp_all add: path_components_def split_on_append)
  have g: "good_path w" "good_path (a @ CHR ''/'' # w)" using assms(2) nl by (auto simp: good_path_def clean_names_def c)
  have r: "add_rule (w @ ''/'') [] = [line_rule ?l]"
    using add_rule_line[of ?l "[]"] assms(1) by (simp add: line_text_def line_rule_def)
  have "Ignored rx [line_rule ?l] q False = line_applies q False ?l" if q: "good_path q" for q
  proof -
    have "path_clean q = q" "q \<noteq> ''.''" "q \<noteq> []" "CHR 0x0A \<notin> set q"
      using q path_clean_id[of q] by (auto simp: good_path_def clean_names_def path_components_def)
    then show ?thesis using line_rule_applies[of ?l q rx False] assms(1) by (simp add: Ignored_def rule_step_alt) (simp add: line_rule_def)
  qed
  with g show "Ignored rx (add_rule (w @ ''/'') []) (a @ ''/'' @ w) False" "\<not> Ignored rx (add_rule (w @ ''/'') []) w False"
    by (simp_all add: r line_applies_def c)
qed

text \<open>Built-in exclusions are effective: whatever further ignore rules a
  repository adds, as long as none of them is a negation, no path that a crawl
  collects lies below a directory with one of the built-in names (version control,
  dependencies, build output, caches), at any depth, and the rules cover every
  directory that the stamp census of the warm path skips by name.  File names are
  assumed to contain no newline.\<close>

theorem builtin_dirs_never_crawled:
  assumes "wf_node (os_tree os)" "names_ok (os_tree os)" "\<forall>r \<in> set user. \<not> ru_negated r"
  shows "skips_ignored (Ignored rx (default_rules @ user)) (os_tree os)
    \<and> (\<Union>p \<in> set (crawl_paths ex os (Ignored rx (default_rules @ user))). set (butlast (path_components p)))
        \<inter> set default_dirs = {}"
proof -
  let ?ig = "Ignored rx (default_rules @ user)"
  have skip: "w \<in> set default_dirs" if "w \<in> set skipDir" for w
    using that by (auto simp: skipDir_def default_dirs_def defaultPatterns_def)
  have "?ig p True" if np: "(n, p) \<in> set (dir_paths ''.'' (os_tree os))" and n: "n \<in> set skipDir" for n p
  proof -
    have g: "good_path p" "last (path_components p) = n" using dir_paths_good[OF assms(1,2) _ np] by auto
    then have "n \<in> set (path_components p)" by (metis last_in_set path_components_def split_on_nonempty)
    with default_dir_ignored[OF assms(3) _ _ _ skip[OF n]] g(1) show ?thesis by (simp add: good_path_def)
  qed
  moreover have False if p: "p \<in> set (crawl_paths ex os ?ig)"
    and w: "w \<in> set (butlast (path_components p))" "w \<in> set default_dirs" for p w
  proof -
    obtain i where i: "(p, i) \<in> set (walk ?ig (\<lambda>_. False) (crawl_keep ex) (os_name os) ''.'' (os_tree os))"
      using p by (auto simp: crawl_paths_def)
    have sl: "CHR ''/'' \<in> set p"
      using w(1) by (cases "CHR ''/'' \<in> set p") (simp_all add: path_components_def)
    then have "p \<noteq> ''.''" by auto
    then have "good_path p" by (rule walk_root_good[OF assms(1,2) i])
    moreover have "w \<in> set (path_components p)" using w(1) by (rule in_set_butlastD)
    ultimately have "?ig p False" using default_dir_ignored[OF assms(3) _ _ _ w(2)] sl by (simp add: good_path_def)
    with walk_not_ignored[OF i] show False by blast
  qed
  ultimately show ?thesis unfolding skips_ignored_def by blast
qed

definition sample_tree :: osenv where
  "sample_tree = (sample_os 1 ''go'')\<lparr>os_tree := Dir
     [(''node_modules'', Dir [(''x.js'', File \<lparr>fi_regular = True, fi_size = 3, fi_mtime = 0\<rparr>)]),
      (''a.go'', File \<lparr>fi_regular = True, fi_size = 2, fi_mtime = 1\<rparr>)]\<rparr>"

theorem builtin_dirs_never_crawled_witness:
  "skips_ignored (Ignored (\<lambda>_ _ _. False) default_rules) (os_tree sample_tree)
    \<and> wf_node (os_tree sample_tree) \<and> names_ok (os_tree sample_tree)"
  using builtin_dirs_never_crawled[of sample_tree "[]" "\<lambda>_ _ _. False" sample_ex]
  by (simp add: sample_tree_def)

text \<open>Consequences for the watcher: with the built-in rules it never reacts to
  \<^verbatim>\<open>.git/info/exclude\<close>, although it has a branch for that file.\<close>

lemma exclude_change_unseen:
  assumes "\<forall>r \<in> set user. \<not> ru_negated r" "fe_rel ev = Some ''.git/info/exclude''"
  shows "event_entry lower (Ignored rx (default_rules @ user)) ev = None"
proof -
  have "Ignored rx (default_rules @ user) ''.git/info/exclude'' False"
    by (rule default_dir_ignored[OF assms(1), of _ "''.git''"])
      (simp_all add: clean_names_def path_components_def default_dirs_def defaultPatterns_def)
  with assms(2) show ?thesis by (simp add: event_entry_def)
qed

text \<open>A byte of a pattern above 0x7F becomes a code point of its own, so a name
  outside ASCII does not match the path it spells.\<close>

lemma non_ascii_pattern_misses:
  "\<not> matches rx (compile (map char_of [100, 195, 169 :: nat]) False)
      (map fst (runes_of (map char_of [100, 195, 169 :: nat])))"
  by code_simp

end
