(* ===== verification/Contracts.thy ===== *)
theory Contracts
  imports Text_Bound Go_Maps
begin

text \<open>
  The vocabulary shared by the authority components: the identifier, digest and
  receipt records of \<^verbatim>\<open>services/internal/contracts\<close>, decimal and hexadecimal
  text, the length-prefixed key encoding and the NUL-joined key encoding, with the
  facts that make keys unambiguous.  SHA-256 is an argument of the definitions
  that use it.
\<close>

section \<open>Records\<close>

record Identifier =
  Namespace :: string
  IdValue :: string

record Digest =
  Algorithm :: string
  Hex :: string

record Receipt =
  OperationID :: Identifier
  Status :: string
  ReasonCode :: string
  Watermark :: "64 word"

record PeerCredentials =
  pc_UID :: "32 word"
  pc_GID :: "32 word"
  pc_PID :: "32 word"

record MappedIdentityFact =
  mi_Principal :: Identifier
  mi_Tenant :: Identifier
  mi_Session :: Identifier
  mi_Credentials :: PeerCredentials

record PolicyRequest =
  pr_Action :: string
  pr_Resource :: Identifier
  pr_RevocationEpoch :: "64 word"

record PolicyDecision =
  pd_Allowed :: bool
  pd_Receipt :: Receipt
  pd_RevocationEpoch :: "64 word"

definition zero_id :: Identifier where
  "zero_id = \<lparr>Namespace = [], IdValue = []\<rparr>"

definition zero_credentials :: PeerCredentials where
  "zero_credentials = \<lparr>pc_UID = 0, pc_GID = 0, pc_PID = 0\<rparr>"

definition zero_receipt :: Receipt where
  "zero_receipt = \<lparr>OperationID = zero_id, Status = [], ReasonCode = [], Watermark = 0\<rparr>"

definition zero_digest :: Digest where
  "zero_digest = \<lparr>Algorithm = [], Hex = []\<rparr>"


section \<open>Decimal text\<close>

definition digit :: "nat \<Rightarrow> char" where
  "digit n = char_of (48 + n)"

fun dec :: "nat \<Rightarrow> string" where
  "dec n = (if n < 10 then [digit n] else dec (n div 10) @ [digit (n mod 10)])"

definition dec_int :: "int \<Rightarrow> string" where
  "dec_int i = (if i < 0 then CHR ''-'' # dec (nat (- i)) else dec (nat i))"

definition is_digit :: "char \<Rightarrow> bool" where
  "is_digit c \<longleftrightarrow> 48 \<le> (of_char c :: nat) \<and> (of_char c :: nat) \<le> 57"

definition undigit :: "char \<Rightarrow> nat" where
  "undigit c = of_char c - 48"

definition undec :: "string \<Rightarrow> nat" where
  "undec s = foldl (\<lambda>n c. 10 * n + undigit c) 0 s"

declare dec.simps [simp del]

lemma digit_props: "n < 10 \<Longrightarrow> is_digit (digit n)" "n < 10 \<Longrightarrow> undigit (digit n) = n"
  by (simp_all add: digit_def is_digit_def undigit_def)

lemma dec_digits: "list_all is_digit (dec n)"
  by (induction n rule: dec.induct) (subst dec.simps, auto simp: digit_props)

lemma dec_nonempty [simp]: "dec n \<noteq> []"
  by (subst dec.simps) simp

lemma undec_dec [simp]: "undec (dec n) = n"
proof (induction n rule: dec.induct)
  case (1 n)
  show ?case
  proof (cases "n < 10")
    case True
    then show ?thesis by (subst dec.simps) (simp add: undec_def digit_props)
  next
    case False
    then show ?thesis using 1 by (subst dec.simps) (simp add: undec_def digit_props)
  qed
qed

lemma dec_inject [simp]: "dec m = dec n \<longleftrightarrow> m = n"
  by (metis undec_dec)

lemma dec_no: "\<not> is_digit c \<Longrightarrow> c \<notin> set (dec n)"
  using dec_digits[of n] by (auto simp: list_all_iff)

lemma dec_int_inject [simp]: "dec_int i = dec_int j \<longleftrightarrow> i = j"
proof -
  have minus: "CHR ''-'' \<notin> set (dec n)" for n by (rule dec_no) (simp add: is_digit_def)
  have neg: "CHR ''-'' # s = dec n \<longleftrightarrow> False" "dec n = CHR ''-'' # s \<longleftrightarrow> False" for n s
    using minus[of n] by (metis list.set_intros(1))+
  show ?thesis by (auto simp: dec_int_def neg)
qed

lemma dec_int_no: "\<not> is_digit c \<Longrightarrow> c \<noteq> CHR ''-'' \<Longrightarrow> c \<notin> set (dec_int i)"
  by (simp add: dec_int_def dec_no)


section \<open>Composite keys\<close>

definition encodeComposite :: "string list \<Rightarrow> string" where
  "encodeComposite parts = concat (map (\<lambda>p. dec (length p) @ '':'' @ p) parts)"

lemma split_at_mark:
  assumes "c \<notin> set a" "c \<notin> set b" "a @ c # s = b @ c # t"
  shows "a = b \<and> s = t"
proof -
  have "takeWhile (\<lambda>x. x \<noteq> c) (a @ c # s) = a" "takeWhile (\<lambda>x. x \<noteq> c) (b @ c # t) = b"
    using assms(1,2) by (auto simp: takeWhile_append)
  with assms(3) show ?thesis by auto
qed

lemma encodeComposite_inject [simp]: "encodeComposite xs = encodeComposite ys \<longleftrightarrow> xs = ys"
proof
  assume "encodeComposite xs = encodeComposite ys"
  then show "xs = ys"
  proof (induction xs arbitrary: ys)
    case Nil
    then show ?case by (cases ys) (auto simp: encodeComposite_def)
  next
    case (Cons x xs)
    then obtain y ys' where ys: "ys = y # ys'" by (cases ys) (auto simp: encodeComposite_def)
    have col: "CHR '':'' \<notin> set (dec n)" for n by (rule dec_no) (simp add: is_digit_def)
    have "dec (length x) @ CHR '':'' # (x @ encodeComposite xs) = dec (length y) @ CHR '':'' # (y @ encodeComposite ys')"
      using Cons.prems by (simp add: ys encodeComposite_def)
    from split_at_mark[OF col col this] have "length x = length y" "x @ encodeComposite xs = y @ encodeComposite ys'"
      by simp_all
    then have "x = y" "encodeComposite xs = encodeComposite ys'" by simp_all
    with Cons.IH ys show ?case by simp
  qed
qed simp

abbreviation NUL :: char where "NUL \<equiv> CHR 0x00"

definition nul_join :: "string list \<Rightarrow> string" where
  "nul_join parts = join_with [NUL] parts"

definition nul_free :: "string \<Rightarrow> bool" where
  "nul_free s \<longleftrightarrow> NUL \<notin> set s"

lemma nul_join_inject:
  assumes "xs \<noteq> []" "ys \<noteq> []" "list_all nul_free xs" "list_all nul_free ys"
  shows "nul_join xs = nul_join ys \<longleftrightarrow> xs = ys"
proof -
  have "split_on NUL (nul_join zs) = zs" if "zs \<noteq> []" "list_all nul_free zs" for zs
    unfolding nul_join_def using that by (intro split_join) (auto simp: nul_free_def list_all_iff)
  from this[OF assms(1,3)] this[OF assms(2,4)] show ?thesis by metis
qed

text \<open>All but the last part may be assumed free of the separator.\<close>

lemma nul_join_snoc_inject:
  assumes "length xs = length ys" "list_all nul_free xs" "list_all nul_free ys"
  shows "nul_join (xs @ [u]) = nul_join (ys @ [v]) \<longleftrightarrow> xs = ys \<and> u = v"
proof
  assume "nul_join (xs @ [u]) = nul_join (ys @ [v])"
  with assms show "xs = ys \<and> u = v"
  proof (induction xs ys rule: list_induct2)
    case (Cons x xs y ys)
    then have "x @ NUL # nul_join (xs @ [u]) = y @ NUL # nul_join (ys @ [v])"
      by (simp add: nul_join_def join_with_Cons)
    moreover have "NUL \<notin> set x" "NUL \<notin> set y" using Cons.prems by (simp_all add: nul_free_def)
    ultimately have "x = y" "nul_join (xs @ [u]) = nul_join (ys @ [v])" using split_at_mark by metis+
    with Cons show ?case by simp
  qed (simp add: nul_join_def)
qed simp


section \<open>Hexadecimal text\<close>

definition hex_val :: "char \<Rightarrow> nat option" where
  "hex_val c =
    (let n = of_char c :: nat
     in if 48 \<le> n \<and> n \<le> 57 then Some (n - 48)
        else if 97 \<le> n \<and> n \<le> 102 then Some (n - 87)
        else if 65 \<le> n \<and> n \<le> 70 then Some (n - 55)
        else None)"

fun hex_decode :: "string \<Rightarrow> nat list option" where
  "hex_decode [] = Some []"
| "hex_decode [c] = None"
| "hex_decode (a # b # s) =
    (case (hex_val a, hex_val b, hex_decode s) of
       (Some x, Some y, Some r) \<Rightarrow> Some ((16 * x + y) # r) | _ \<Rightarrow> None)"

definition hex_char :: "nat \<Rightarrow> char" where
  "hex_char n = (if n < 10 then char_of (48 + n) else char_of (87 + n))"

definition hex_encode :: "nat list \<Rightarrow> string" where
  "hex_encode bs = concat (map (\<lambda>b. [hex_char (b div 16), hex_char (b mod 16)]) bs)"

definition lower_hex :: "char \<Rightarrow> bool" where
  "lower_hex c \<longleftrightarrow> (let n = of_char c :: nat in 48 \<le> n \<and> n \<le> 57 \<or> 97 \<le> n \<and> n \<le> 102)"

text \<open>\<^verbatim>\<open>validDigest\<close> and its copies.\<close>

definition validDigest :: "Digest \<Rightarrow> bool" where
  "validDigest d \<longleftrightarrow> Algorithm d = ''sha256'' \<and> length (Hex d) = 64
    \<and> (case hex_decode (Hex d) of None \<Rightarrow> False | Some bs \<Rightarrow> hex_encode bs = Hex d)"

lemma char_of_diff: "(of_char c :: nat) = n \<Longrightarrow> char_of n = c"
  by auto

lemma hex_char_val:
  assumes "hex_val c = Some x"
  shows "x < 16 \<and> (hex_char x = c \<longleftrightarrow> lower_hex c)"
proof -
  let ?n = "of_char c :: nat"
  consider "48 \<le> ?n" "?n \<le> 57" "x = ?n - 48" | "97 \<le> ?n" "?n \<le> 102" "x = ?n - 87"
    | "65 \<le> ?n" "?n \<le> 70" "x = ?n - 55"
    using assms by (auto simp: hex_val_def Let_def split: if_splits)
  then show ?thesis
  proof cases
    case 1
    then have "x < 10" "48 + x = ?n" by linarith+
    then have "hex_char x = c" unfolding hex_char_def by (simp only: if_True if_False char_of_char)
    moreover have "lower_hex c" using 1(1,2) by (simp add: lower_hex_def Let_def)
    ultimately show ?thesis using \<open>x < 10\<close> by simp
  next
    case 2
    then have "\<not> x < 10" "x < 16" "87 + x = ?n" by linarith+
    then have "hex_char x = c" unfolding hex_char_def by (simp only: if_True if_False char_of_char)
    moreover have "lower_hex c" using 2(1,2) by (simp add: lower_hex_def Let_def)
    ultimately show ?thesis using \<open>x < 16\<close> by simp
  next
    case 3
    have "hex_char x \<noteq> c"
    proof
      assume eq: "hex_char x = c"
      have "10 \<le> x" "x \<le> 15" using 3 by simp_all
      then have "(of_char (hex_char x) :: nat) = 87 + x" by (simp add: hex_char_def)
      with 3 eq show False by simp
    qed
    with 3 show ?thesis by (simp add: lower_hex_def Let_def)
  qed
qed

lemma lower_hex_val: "lower_hex c \<Longrightarrow> hex_val c \<noteq> None"
  by (auto simp: lower_hex_def hex_val_def Let_def)

lemma canonical_hex:
  "(case hex_decode s of None \<Rightarrow> False | Some bs \<Rightarrow> hex_encode bs = s) \<longleftrightarrow> even (length s) \<and> list_all lower_hex s"
proof (induction s rule: hex_decode.induct)
  case (3 a b s)
  show ?case
  proof (cases "hex_val a = None \<or> hex_val b = None")
    case True
    then show ?thesis using lower_hex_val[of a] lower_hex_val[of b] by (auto split: option.splits)
  next
    case False
    then obtain x y where xy: "hex_val a = Some x" "hex_val b = Some y" by auto
    note hx = hex_char_val[OF xy(1)] and hy = hex_char_val[OF xy(2)]
    have "(16 * x + y) div 16 = x" "(16 * x + y) mod 16 = y" using hy by simp_all
    with 3 hx hy xy show ?thesis by (auto simp: hex_encode_def split: option.splits)
  qed
qed (simp_all add: hex_encode_def)

lemma validDigest_iff:
  "validDigest d \<longleftrightarrow> Algorithm d = ''sha256'' \<and> length (Hex d) = 64 \<and> list_all lower_hex (Hex d)"
  using canonical_hex[of "Hex d"] by (auto simp: validDigest_def)

end
