(* ===== verification/Audit_Chain.thy ===== *)
theory Audit_Chain
  imports Contracts
begin

text \<open>
  The hash-linked audit chain (\<^verbatim>\<open>brain/internal/audit/chain.go\<close>).  The digest
  function (SHA-256 in hexadecimal) is the argument \<open>sha\<close>.  Proved: a verified
  chain is determined by its last digest, so no entry can be changed, removed,
  inserted or reordered without changing it.
\<close>

section \<open>Definitions\<close>

record EventMetadata =
  em_Sequence :: "64 word"
  em_EventID :: string
  em_Tenant :: string
  em_AggregateType :: string
  em_AggregateID :: string
  em_AggregateVersion :: "64 word"
  em_CommandID :: string
  em_PayloadDigest :: string
  em_OccurredAtMs :: int

record Entry =
  en_Metadata :: EventMetadata
  en_Previous :: string
  en_Digest :: string

definition validMetadata :: "EventMetadata \<Rightarrow> bool" where
  "validMetadata m \<longleftrightarrow> em_Sequence m > 0 \<and> em_EventID m \<noteq> [] \<and> em_Tenant m \<noteq> []
    \<and> em_AggregateType m \<noteq> [] \<and> em_AggregateID m \<noteq> [] \<and> em_AggregateVersion m > 0
    \<and> em_CommandID m \<noteq> [] \<and> em_PayloadDigest m \<noteq> [] \<and> em_OccurredAtMs m > 0"

definition meta_fields :: "EventMetadata \<Rightarrow> string list" where
  "meta_fields m = [''v1'', dec (unat (em_Sequence m)), em_EventID m, em_Tenant m, em_AggregateType m,
     em_AggregateID m, dec (unat (em_AggregateVersion m)), em_CommandID m, em_PayloadDigest m,
     dec_int (em_OccurredAtMs m)]"

definition material :: "EventMetadata \<Rightarrow> string \<Rightarrow> string" where
  "material m previous = nul_join (meta_fields m @ [previous])"

definition audit_Next :: "(string \<Rightarrow> string) \<Rightarrow> EventMetadata \<Rightarrow> string \<Rightarrow> string option" where
  "audit_Next sha m previous = (if \<not> validMetadata m then None else Some (sha (material m previous)))"

text \<open>The loop of \<^verbatim>\<open>Verify\<close>: the sequence number of the entry before and the
  digest so far.\<close>

fun verify_from :: "(string \<Rightarrow> string) \<Rightarrow> 64 word option \<Rightarrow> string \<Rightarrow> Entry list \<Rightarrow> bool" where
  "verify_from sha before previous [] = True"
| "verify_from sha before previous (e # es) =
    (if (case before of None \<Rightarrow> False | Some n \<Rightarrow> em_Sequence (en_Metadata e) \<le> n) then False
     else if en_Previous e \<noteq> previous then False
     else (case audit_Next sha (en_Metadata e) previous of
             None \<Rightarrow> False
           | Some d \<Rightarrow> if en_Digest e \<noteq> d then False
                        else verify_from sha (Some (em_Sequence (en_Metadata e))) (en_Digest e) es))"

definition Verify :: "(string \<Rightarrow> string) \<Rightarrow> Entry list \<Rightarrow> bool" where
  "Verify sha es = verify_from sha None [] es"


section \<open>One link at a time\<close>

definition head_digest :: "Entry list \<Rightarrow> string" where
  "head_digest es = (if es = [] then [] else en_Digest (last es))"

definition link_ok :: "(string \<Rightarrow> string) \<Rightarrow> 64 word option \<Rightarrow> string \<Rightarrow> Entry \<Rightarrow> bool" where
  "link_ok sha before previous e \<longleftrightarrow>
    (\<forall>n. before = Some n \<longrightarrow> n < em_Sequence (en_Metadata e)) \<and> en_Previous e = previous
    \<and> audit_Next sha (en_Metadata e) previous = Some (en_Digest e)"

lemma verify_from_Cons:
  "verify_from sha before previous (e # es) \<longleftrightarrow>
    link_ok sha before previous e \<and> verify_from sha (Some (em_Sequence (en_Metadata e))) (en_Digest e) es"
  by (auto simp: link_ok_def split: option.splits)

lemma verify_from_snoc:
  "verify_from sha before previous (es @ [e]) \<longleftrightarrow>
    verify_from sha before previous es
    \<and> link_ok sha (if es = [] then before else Some (em_Sequence (en_Metadata (last es))))
        (if es = [] then previous else en_Digest (last es)) e"
  by (induction es arbitrary: before previous)
    (simp_all add: verify_from_Cons del: verify_from.simps(2))

lemma Verify_snoc:
  "Verify sha (es @ [e]) \<longleftrightarrow> Verify sha es
    \<and> link_ok sha (if es = [] then None else Some (em_Sequence (en_Metadata (last es)))) (head_digest es) e"
  by (simp add: Verify_def verify_from_snoc head_digest_def)

text \<open>Metadata without NUL bytes is determined by the digested text.\<close>

definition meta_nul_free :: "EventMetadata \<Rightarrow> bool" where
  "meta_nul_free m \<longleftrightarrow> list_all nul_free [em_EventID m, em_Tenant m, em_AggregateType m, em_AggregateID m,
     em_CommandID m, em_PayloadDigest m]"

lemma material_inject:
  assumes "meta_nul_free m" "meta_nul_free n" "material m p = material n q"
  shows "m = n \<and> p = q"
proof -
  have d: "nul_free (dec k)" for k by (simp add: nul_free_def dec_no is_digit_def)
  have i: "nul_free (dec_int k)" for k by (simp add: nul_free_def dec_int_no is_digit_def)
  have "list_all nul_free (meta_fields m)" "list_all nul_free (meta_fields n)"
    using assms(1,2) d i by (simp_all add: meta_fields_def meta_nul_free_def) (simp_all add: nul_free_def)
  then have "meta_fields m = meta_fields n \<and> p = q"
    using assms(3) nul_join_snoc_inject[of "meta_fields m" "meta_fields n" p q]
    by (simp add: material_def meta_fields_def)
  then show ?thesis by (cases m, cases n) (simp add: meta_fields_def word_unat_eq_iff)
qed


section \<open>Property\<close>

definition materials :: "Entry list \<Rightarrow> string set" where
  "materials es = (\<lambda>e. material (en_Metadata e) (en_Previous e)) ` set es"

text \<open>C11.  The audit chain is tamper-evident: two chains that both verify and end
  in the same digest are equal entry by entry, of the same length and order, as
  long as no two of the digested texts that occur in them collide and the metadata
  strings contain no NUL byte.  So changing, deleting, inserting or reordering an
  entry of a verified chain either fails verification or changes the last digest.\<close>

theorem audit_chain_tamper_evident:
  assumes "Verify sha xs" "Verify sha ys" "head_digest xs = head_digest ys"
    and "inj_on sha (materials xs \<union> materials ys)" "\<forall>t. sha t \<noteq> []"
    and "\<forall>e \<in> set xs \<union> set ys. meta_nul_free (en_Metadata e)"
  shows "xs = ys"
  using assms
proof (induction xs arbitrary: ys rule: rev_induct)
  case Nil
  show ?case
  proof (cases ys rule: rev_cases)
    case (snoc fs f)
    with Nil.prems have "link_ok sha (if fs = [] then None else Some (em_Sequence (en_Metadata (last fs)))) (head_digest fs) f"
      by (simp add: Verify_snoc)
    then have "en_Digest f \<noteq> []" using Nil.prems(5) by (auto simp: link_ok_def audit_Next_def split: if_splits)
    with Nil.prems(3) snoc show ?thesis by (simp add: head_digest_def)
  qed simp
next
  case (snoc e es)
  have e: "link_ok sha (if es = [] then None else Some (em_Sequence (en_Metadata (last es)))) (head_digest es) e"
    using snoc.prems(1) by (simp add: Verify_snoc)
  then have de: "en_Digest e = sha (material (en_Metadata e) (en_Previous e))" "en_Previous e = head_digest es"
    by (auto simp: link_ok_def audit_Next_def split: if_splits)
  show ?case
  proof (cases ys rule: rev_cases)
    case Nil
    with snoc.prems(3,5) de show ?thesis by (simp add: head_digest_def)
  next
    case ys: (snoc fs f)
    have "link_ok sha (if fs = [] then None else Some (em_Sequence (en_Metadata (last fs)))) (head_digest fs) f"
      using snoc.prems(2) by (simp add: Verify_snoc ys)
    then have df: "en_Digest f = sha (material (en_Metadata f) (en_Previous f))" "en_Previous f = head_digest fs"
      by (auto simp: link_ok_def audit_Next_def split: if_splits)
    have same: "en_Digest e = en_Digest f" using snoc.prems(3) by (simp add: head_digest_def ys)
    then have "sha (material (en_Metadata e) (en_Previous e)) = sha (material (en_Metadata f) (en_Previous f))"
      unfolding de(1) df(1) .
    then have "material (en_Metadata e) (en_Previous e) = material (en_Metadata f) (en_Previous f)"
      by (rule inj_onD[OF snoc.prems(4)]) (simp_all add: materials_def ys)
    then have m: "en_Metadata e = en_Metadata f" "en_Previous e = en_Previous f"
      using material_inject snoc.prems(6) by (auto simp: ys)
    have "es = fs"
    proof (rule snoc.IH)
      show "inj_on sha (materials es \<union> materials fs)"
        by (rule inj_on_subset[OF snoc.prems(4)]) (auto simp: materials_def ys)
    qed (use snoc.prems m(2) de(2) df(2) ys in \<open>simp_all add: Verify_snoc\<close>)
    with m same show ?thesis by (cases e, cases f) (simp add: ys)
  qed
qed

definition sample_meta :: EventMetadata where
  "sample_meta = \<lparr>em_Sequence = 1, em_EventID = ''e'', em_Tenant = ''t'', em_AggregateType = ''a'',
     em_AggregateID = ''i'', em_AggregateVersion = 1, em_CommandID = ''c'', em_PayloadDigest = ''d'',
     em_OccurredAtMs = 5\<rparr>"

definition sample_chain :: "Entry list" where
  "sample_chain = [\<lparr>en_Metadata = sample_meta, en_Previous = [], en_Digest = CHR ''x'' # material sample_meta []\<rparr>]"

definition forged_chain :: "Entry list" where
  "forged_chain = map (\<lambda>e. e\<lparr>en_Metadata := (en_Metadata e)\<lparr>em_PayloadDigest := ''forged''\<rparr>\<rparr>) sample_chain"

theorem audit_chain_tamper_evident_witness:
  "Verify (Cons CHR ''x'') sample_chain \<and> head_digest forged_chain = head_digest sample_chain
    \<and> \<not> Verify (Cons CHR ''x'') forged_chain"
proof -
  have v: "Verify (Cons CHR ''x'') sample_chain"
    by (simp add: Verify_def sample_chain_def audit_Next_def validMetadata_def sample_meta_def word_gt_0)
  have h: "head_digest forged_chain = head_digest sample_chain"
    by (simp add: forged_chain_def sample_chain_def head_digest_def)
  have n: "\<forall>e \<in> set sample_chain \<union> set forged_chain. meta_nul_free (en_Metadata e)"
    by (simp add: sample_chain_def forged_chain_def sample_meta_def meta_nul_free_def nul_free_def)
  have "sample_chain \<noteq> forged_chain" by (simp add: sample_chain_def forged_chain_def sample_meta_def)
  then have "\<not> Verify (Cons CHR ''x'') forged_chain"
    using audit_chain_tamper_evident[OF v _ h[symmetric] _ _ n] by auto
  with v h show ?thesis by blast
qed

end
