(* ===== verification/Event_Kernel.thy ===== *)
theory Event_Kernel
  imports Contracts "HOL-Library.Multiset"
begin

text \<open>
  The reaction kernel (\<^verbatim>\<open>brain/internal/eventkernel/kernel.go\<close>): the registry
  of versioned reactions and the bounded, ordered evaluation of a batch.
  Reactions are functions from events to an error or a list of commands.
\<close>

section \<open>Definitions\<close>

record KEvent =
  ke_ID :: string
  ke_Type :: string
  ke_AggregateType :: string
  ke_AggregateID :: string
  ke_AggregateVersion :: "64 word"
  ke_SchemaVersion :: "64 word"
  ke_PayloadDigest :: string

record KCommand =
  kc_Type :: string
  kc_AggregateType :: string
  kc_AggregateID :: string
  kc_PayloadDigest :: string

datatype kernel_error = ErrInvalidEvent | ErrReactionLimit | ErrReaction string

type_synonym reaction = "KEvent \<Rightarrow> string + KCommand list"

type_synonym registry = "string \<times> 64 word \<Rightarrow> reaction option"

definition NewRegistry :: registry where
  "NewRegistry = (\<lambda>_. None)"

text \<open>The reaction argument is \<open>None\<close> for a nil function.\<close>

definition Register :: "registry \<Rightarrow> string \<Rightarrow> 64 word \<Rightarrow> reaction option \<Rightarrow> kernel_error + registry" where
  "Register r eventType version reaction =
    (case reaction of
       None \<Rightarrow> Inl ErrInvalidEvent
     | Some f \<Rightarrow>
         if eventType = [] \<or> version \<noteq> 1 then Inl ErrInvalidEvent
         else if r (eventType, version) \<noteq> None then Inl ErrInvalidEvent
         else Inr (r((eventType, version) \<mapsto> f)))"

definition validateEvent :: "KEvent \<Rightarrow> bool" where
  "validateEvent e \<longleftrightarrow> \<not> (ke_ID e = [] \<or> ke_Type e = [] \<or> ke_Type e \<noteq> ke_AggregateType e
    \<or> ke_AggregateID e = [] \<or> ke_AggregateVersion e = 0 \<or> ke_SchemaVersion e \<noteq> 1 \<or> ke_PayloadDigest e = [])"

definition command_ok :: "KCommand \<Rightarrow> bool" where
  "command_ok c \<longleftrightarrow> kc_Type c \<noteq> [] \<and> kc_AggregateType c \<noteq> [] \<and> kc_AggregateID c \<noteq> [] \<and> kc_PayloadDigest c \<noteq> []"

definition command_key :: "KCommand \<Rightarrow> string" where
  "command_key c = nul_join [kc_Type c, kc_AggregateType c, kc_AggregateID c, kc_PayloadDigest c]"

fun react_loop :: "registry \<Rightarrow> nat \<Rightarrow> KCommand list \<Rightarrow> KEvent list \<Rightarrow> kernel_error + KCommand list" where
  "react_loop r maxCommands commands [] = Inr commands"
| "react_loop r maxCommands commands (e # es) =
    (if \<not> validateEvent e then Inl ErrInvalidEvent
     else (case r (ke_Type e, ke_SchemaVersion e) of
             None \<Rightarrow> react_loop r maxCommands commands es
           | Some f \<Rightarrow>
               (case f e of
                  Inl err \<Rightarrow> Inl (ErrReaction err)
                | Inr emitted \<Rightarrow>
                    if length commands + length emitted > maxCommands then Inl ErrReactionLimit
                    else if \<not> list_all command_ok emitted then Inl ErrInvalidEvent
                    else react_loop r maxCommands (commands @ sort_key command_key emitted) es)))"

definition React :: "registry \<Rightarrow> KEvent list \<Rightarrow> nat \<Rightarrow> kernel_error + KCommand list" where
  "React r events maxCommands =
    (if maxCommands = 0 then Inl ErrReactionLimit else react_loop r maxCommands [] events)"


section \<open>Properties\<close>

definition command_nul_free :: "KCommand \<Rightarrow> bool" where
  "command_nul_free c \<longleftrightarrow>
    list_all nul_free [kc_Type c, kc_AggregateType c, kc_AggregateID c, kc_PayloadDigest c]"

lemma command_key_inj: "inj_on command_key {c. command_nul_free c}"
proof (rule inj_onI)
  fix c d
  assume "c \<in> {c. command_nul_free c}" "d \<in> {c. command_nul_free c}" "command_key c = command_key d"
  then have "[kc_Type c, kc_AggregateType c, kc_AggregateID c, kc_PayloadDigest c] =
      [kc_Type d, kc_AggregateType d, kc_AggregateID d, kc_PayloadDigest d]"
    unfolding command_key_def mem_Collect_eq command_nul_free_def by (subst (asm) nul_join_inject) auto
  then show "c = d" by (cases c, cases d) simp
qed

lemma sort_commands_perm:
  assumes "mset xs = mset ys" "\<forall>c \<in> set xs. command_nul_free c"
  shows "sort_key command_key xs = sort_key command_key ys"
proof (rule sort_key_inj_key_eq)
  show "inj_on command_key (set xs)" by (rule inj_on_subset[OF command_key_inj]) (use assms(2) in auto)
qed (use assms(1) in simp_all)

text \<open>The emissions of one event under two registries agree up to order.\<close>

definition same_emissions :: "registry \<Rightarrow> registry \<Rightarrow> KEvent \<Rightarrow> bool" where
  "same_emissions r r' e \<longleftrightarrow>
    (case (r (ke_Type e, ke_SchemaVersion e), r' (ke_Type e, ke_SchemaVersion e)) of
       (None, None) \<Rightarrow> True
     | (Some f, Some g) \<Rightarrow>
         (case (f e, g e) of
            (Inl a, Inl b) \<Rightarrow> a = b
          | (Inr xs, Inr ys) \<Rightarrow> mset xs = mset ys \<and> list_all command_nul_free xs
          | _ \<Rightarrow> False)
     | _ \<Rightarrow> False)"

text \<open>C35.  A batch is evaluated deterministically: the order in which reactions
  emit their commands does not matter.  If two registries emit, event by event,
  the same commands up to order (with fields free of NUL bytes), every batch gives
  the same commands in the same order, or the same error, under every bound.\<close>

theorem react_ignores_emission_order:
  assumes "list_all (same_emissions r r') events"
  shows "React r events n = React r' events n"
proof -
  have "react_loop r n cs events = react_loop r' n cs events" for cs
    using assms
  proof (induction events arbitrary: cs)
    case (Cons e es)
    have same: "same_emissions r r' e" using Cons.prems by simp
    show ?case
    proof (cases "r (ke_Type e, ke_SchemaVersion e)")
      case None
      with same have "r' (ke_Type e, ke_SchemaVersion e) = None"
        by (auto simp: same_emissions_def split: option.splits)
      with None Cons show ?thesis by simp
    next
      case (Some f)
      with same obtain g where g: "r' (ke_Type e, ke_SchemaVersion e) = Some g"
        by (auto simp: same_emissions_def split: option.splits)
      show ?thesis
      proof (cases "f e")
        case (Inl err)
        with same Some g have "g e = Inl err" by (auto simp: same_emissions_def split: sum.splits)
        with Inl Some g show ?thesis by simp
      next
        case (Inr xs)
        with same Some g obtain ys where ys: "g e = Inr ys" "mset xs = mset ys" "list_all command_nul_free xs"
          by (auto simp: same_emissions_def split: sum.splits)
        have "sort_key command_key xs = sort_key command_key ys"
          using ys(2,3) by (intro sort_commands_perm) (simp_all add: list_all_iff)
        moreover have "length xs = length ys" "set xs = set ys"
          using ys(2) by (auto dest: mset_eq_length mset_eq_setD)
        ultimately show ?thesis
          using Cons Some g Inr ys(1) by (simp add: list_all_iff)
      qed
    qed
  qed simp
  then show ?thesis by (simp add: React_def)
qed

definition sample_command :: "string \<Rightarrow> KCommand" where
  "sample_command t = \<lparr>kc_Type = t, kc_AggregateType = ''a'', kc_AggregateID = ''1'', kc_PayloadDigest = ''d''\<rparr>"

definition sample_kevent :: KEvent where
  "sample_kevent = \<lparr>ke_ID = ''e'', ke_Type = ''a'', ke_AggregateType = ''a'', ke_AggregateID = ''1'',
     ke_AggregateVersion = 1, ke_SchemaVersion = 1, ke_PayloadDigest = ''d''\<rparr>"

definition sample_registry :: "string list \<Rightarrow> registry" where
  "sample_registry ts = NewRegistry((''a'', 1) \<mapsto> (\<lambda>_. Inr (map sample_command ts)))"

theorem react_ignores_emission_order_witness:
  "React (sample_registry [''p'', ''q'']) [sample_kevent] 5 = React (sample_registry [''q'', ''p'']) [sample_kevent] 5"
  by (rule react_ignores_emission_order)
    (simp add: same_emissions_def sample_registry_def sample_kevent_def command_nul_free_def
       sample_command_def nul_free_def)

text \<open>The commands an event contributes.\<close>

definition emitted_by :: "registry \<Rightarrow> KEvent \<Rightarrow> KCommand list" where
  "emitted_by r e =
    (case r (ke_Type e, ke_SchemaVersion e) of
       None \<Rightarrow> []
     | Some f \<Rightarrow> (case f e of Inl _ \<Rightarrow> [] | Inr xs \<Rightarrow> sort_key command_key xs))"

lemma react_loop_result:
  "react_loop r n cs events = Inr out \<Longrightarrow> length cs \<le> n \<Longrightarrow> list_all command_ok cs \<Longrightarrow>
    out = cs @ concat (map (emitted_by r) events) \<and> length out \<le> n \<and> list_all command_ok out
    \<and> list_all validateEvent events"
proof (induction events arbitrary: cs)
  case (Cons e es)
  show ?case
  proof (cases "r (ke_Type e, ke_SchemaVersion e)")
    case None
    with Cons show ?thesis by (auto simp: emitted_by_def split: if_splits)
  next
    case (Some f)
    then obtain xs where xs: "f e = Inr xs" "length cs + length xs \<le> n" "list_all command_ok xs"
      "react_loop r n (cs @ sort_key command_key xs) es = Inr out" "validateEvent e"
      using Cons.prems by (auto split: if_splits sum.splits)
    have "list_all command_ok (cs @ sort_key command_key xs)"
      using xs(3) Cons.prems(3) by (auto simp: list_all_iff)
    moreover have "emitted_by r e = sort_key command_key xs" using xs(1) Some by (simp add: emitted_by_def)
    ultimately show ?thesis using Cons.IH[OF xs(4)] xs(2,5) by auto
  qed
qed simp

text \<open>C36.  A batch respects its bound and its input order: when \<^verbatim>\<open>React\<close> returns
  commands, every event was valid, there are at most the allowed number of
  commands, each is well formed, and they are the sorted emissions of the events,
  concatenated in the caller's order.\<close>

theorem react_bounded_in_order:
  assumes "React r events n = Inr out"
  shows "length out \<le> n \<and> list_all command_ok out \<and> list_all validateEvent events
    \<and> out = concat (map (emitted_by r) events)"
  using assms react_loop_result[of r n "[]" events out] by (auto simp: React_def split: if_splits)

theorem react_bounded_in_order_witness:
  "React (sample_registry [''q'', ''p'']) [sample_kevent] 2 = Inr (map sample_command [''p'', ''q''])
    \<and> length (map sample_command [''p'', ''q'']) \<le> 2"
proof -
  have "React (sample_registry [''q'', ''p'']) [sample_kevent] 2 = Inr (map sample_command [''p'', ''q''])"
    by (simp add: React_def sample_registry_def sample_kevent_def validateEvent_def sample_command_def
          command_ok_def command_key_def nul_join_def less_list_code less_char_def)
  with react_bounded_in_order[OF this] show ?thesis by blast
qed

end
