(* ===== verification/Evidence_Ledger.thy ===== *)
theory Evidence_Ledger
  imports Contracts
begin

text \<open>
  The evidence ledger (\<^verbatim>\<open>brain/internal/evidenceledger/ledger.go\<close>).  The
  interface \<^verbatim>\<open>Repository\<close> is the record of operations \<open>repository\<close>; the
  ledger's operations take one as argument, as \<^verbatim>\<open>Ledger\<close> holds one.  What the
  ledger relies on is the locale \<open>evidence_repository\<close>; the in-memory repository
  of the package is its interpretation.
\<close>

section \<open>Data\<close>

datatype ledger_error = LErrInvalid | LErrNotFound | LErrConflict

record ERecord =
  er_Tenant :: Identifier
  er_Brain :: Identifier
  er_Evidence :: Identifier
  er_Artifact :: Identifier
  er_Generation :: "64 word"
  er_Anchor :: string
  er_Digest :: Digest

record Lineage =
  li_Tenant :: Identifier
  li_Brain :: Identifier
  li_Parent :: Identifier
  li_Child :: Identifier
  li_Relation :: string

definition validateID :: "Identifier \<Rightarrow> string \<Rightarrow> bool" where
  "validateID i namespace \<longleftrightarrow> \<not> (Namespace i \<noteq> namespace \<or> IdValue i = [] \<or> length (IdValue i) > 512)"

definition validateRecord :: "ERecord \<Rightarrow> bool" where
  "validateRecord r \<longleftrightarrow> validDigest (er_Digest r)
    \<and> validateID (er_Tenant r) ''tenant'' \<and> validateID (er_Brain r) ''brain''
    \<and> validateID (er_Evidence r) ''evidence'' \<and> validateID (er_Artifact r) ''artifact''
    \<and> er_Generation r \<noteq> 0 \<and> er_Anchor r \<noteq> [] \<and> length (er_Anchor r) \<le> 4096"

definition validateEdge :: "Lineage \<Rightarrow> bool" where
  "validateEdge l \<longleftrightarrow> \<not> (\<not> validateID (li_Tenant l) ''tenant'' \<or> \<not> validateID (li_Brain l) ''brain''
    \<or> \<not> validateID (li_Parent l) ''evidence'' \<or> \<not> validateID (li_Child l) ''evidence''
    \<or> li_Relation l = [] \<or> length (li_Relation l) > 128 \<or> li_Parent l = li_Child l)"

definition valid_scope :: "Identifier \<Rightarrow> Identifier \<Rightarrow> Identifier \<Rightarrow> bool" where
  "valid_scope t b e \<longleftrightarrow> validateID t ''tenant'' \<and> validateID b ''brain'' \<and> validateID e ''evidence''"


section \<open>The ledger over a repository\<close>

record 's repository =
  rp_Put :: "ERecord \<Rightarrow> 's \<Rightarrow> (ledger_error + bool) \<times> 's"
  rp_Get :: "Identifier \<Rightarrow> Identifier \<Rightarrow> Identifier \<Rightarrow> 's \<Rightarrow> ledger_error + ERecord"
  rp_PutLineage :: "Lineage \<Rightarrow> 's \<Rightarrow> (ledger_error + bool) \<times> 's"
  rp_Lineage :: "Identifier \<Rightarrow> Identifier \<Rightarrow> Identifier \<Rightarrow> 's \<Rightarrow> Lineage list"
  rp_Tombstone :: "Identifier \<Rightarrow> Identifier \<Rightarrow> Identifier \<Rightarrow> 's \<Rightarrow> ledger_error option \<times> 's"

definition Admit :: "'s repository \<Rightarrow> ERecord \<Rightarrow> 's \<Rightarrow> (ledger_error + bool) \<times> 's" where
  "Admit R r s = (if \<not> validateRecord r then (Inl LErrInvalid, s) else rp_Put R r s)"

definition ledger_Read :: "'s repository \<Rightarrow> Identifier \<Rightarrow> Identifier \<Rightarrow> Identifier \<Rightarrow> 's \<Rightarrow> ledger_error + ERecord" where
  "ledger_Read R t b e s = (if \<not> valid_scope t b e then Inl LErrInvalid else rp_Get R t b e s)"

definition Link :: "'s repository \<Rightarrow> Lineage \<Rightarrow> 's \<Rightarrow> (ledger_error + bool) \<times> 's" where
  "Link R l s = (if \<not> validateEdge l then (Inl LErrInvalid, s) else rp_PutLineage R l s)"

definition Related :: "'s repository \<Rightarrow> Identifier \<Rightarrow> Identifier \<Rightarrow> Identifier \<Rightarrow> 's \<Rightarrow> ledger_error + Lineage list" where
  "Related R t b e s = (case ledger_Read R t b e s of Inl err \<Rightarrow> Inl err | Inr _ \<Rightarrow> Inr (rp_Lineage R t b e s))"

definition ledger_Tombstone :: "'s repository \<Rightarrow> Identifier \<Rightarrow> Identifier \<Rightarrow> Identifier \<Rightarrow> 's
    \<Rightarrow> ledger_error option \<times> 's" where
  "ledger_Tombstone R t b e s = (if \<not> valid_scope t b e then (Some LErrInvalid, s) else rp_Tombstone R t b e s)"


section \<open>The in-memory repository\<close>

record memoryRecord =
  me_record :: ERecord
  me_tombstoned :: bool

record MemoryRepository =
  mr_records :: "string \<rightharpoonup> memoryRecord"
  mr_edges :: "(string, Lineage) gomap"

definition NewMemoryRepository :: MemoryRepository where
  "NewMemoryRepository = \<lparr>mr_records = Map.empty, mr_edges = []\<rparr>"

definition recordKey :: "Identifier \<Rightarrow> Identifier \<Rightarrow> Identifier \<Rightarrow> string" where
  "recordKey t b e = encodeComposite [IdValue t, IdValue b, IdValue e]"

definition edgeKey :: "Lineage \<Rightarrow> string" where
  "edgeKey l = encodeComposite [IdValue (li_Tenant l), IdValue (li_Brain l), IdValue (li_Parent l),
     IdValue (li_Child l), li_Relation l]"

definition mem_Put :: "ERecord \<Rightarrow> MemoryRepository \<Rightarrow> (ledger_error + bool) \<times> MemoryRepository" where
  "mem_Put r s =
    (let key = recordKey (er_Tenant r) (er_Brain r) (er_Evidence r)
     in case mr_records s key of
          Some existing \<Rightarrow> if me_record existing = r then (Inr False, s) else (Inl LErrConflict, s)
        | None \<Rightarrow> (Inr True, s\<lparr>mr_records := (mr_records s)(key \<mapsto> \<lparr>me_record = r, me_tombstoned = False\<rparr>)\<rparr>))"

definition mem_Get :: "Identifier \<Rightarrow> Identifier \<Rightarrow> Identifier \<Rightarrow> MemoryRepository \<Rightarrow> ledger_error + ERecord" where
  "mem_Get t b e s =
    (case mr_records s (recordKey t b e) of
       None \<Rightarrow> Inl LErrNotFound
     | Some m \<Rightarrow> if me_tombstoned m then Inl LErrNotFound else Inr (me_record m))"

definition mem_readable :: "Identifier \<Rightarrow> Identifier \<Rightarrow> Identifier \<Rightarrow> MemoryRepository \<Rightarrow> bool" where
  "mem_readable t b e s =
    (case mr_records s (recordKey t b e) of None \<Rightarrow> False | Some m \<Rightarrow> \<not> me_tombstoned m)"

definition mem_PutLineage :: "Lineage \<Rightarrow> MemoryRepository \<Rightarrow> (ledger_error + bool) \<times> MemoryRepository" where
  "mem_PutLineage l s =
    (if \<not> (mem_readable (li_Tenant l) (li_Brain l) (li_Parent l) s
          \<and> mem_readable (li_Tenant l) (li_Brain l) (li_Child l) s)
     then (Inl LErrNotFound, s)
     else (case mget (mr_edges s) (edgeKey l) of
             Some existing \<Rightarrow> if existing = l then (Inr False, s) else (Inl LErrConflict, s)
           | None \<Rightarrow> (Inr True, s\<lparr>mr_edges := mput (edgeKey l) l (mr_edges s)\<rparr>)))"

definition touches :: "Identifier \<Rightarrow> Identifier \<Rightarrow> Identifier \<Rightarrow> Lineage \<Rightarrow> bool" where
  "touches t b e l \<longleftrightarrow> li_Tenant l = t \<and> li_Brain l = b \<and> (li_Parent l = e \<or> li_Child l = e)"

definition mem_Lineage :: "Identifier \<Rightarrow> Identifier \<Rightarrow> Identifier \<Rightarrow> MemoryRepository \<Rightarrow> Lineage list" where
  "mem_Lineage t b e s = filter (touches t b e) (map snd (mr_edges s))"

definition mem_Tombstone :: "Identifier \<Rightarrow> Identifier \<Rightarrow> Identifier \<Rightarrow> MemoryRepository
    \<Rightarrow> ledger_error option \<times> MemoryRepository" where
  "mem_Tombstone t b e s =
    (let key = recordKey t b e
     in case mr_records s key of
          None \<Rightarrow> (Some LErrNotFound, s)
        | Some m \<Rightarrow>
            (None, s\<lparr>mr_records := (mr_records s)(key \<mapsto> m\<lparr>me_tombstoned := True\<rparr>),
                    mr_edges := filter (\<lambda>(k, l). \<not> touches t b e l) (mr_edges s)\<rparr>))"

definition mem_repo :: "MemoryRepository repository" where
  "mem_repo = \<lparr>rp_Put = mem_Put, rp_Get = mem_Get, rp_PutLineage = mem_PutLineage,
     rp_Lineage = mem_Lineage, rp_Tombstone = mem_Tombstone\<rparr>"


section \<open>Operation sequences\<close>

datatype ledger_op =
    OpAdmit ERecord
  | OpLink Lineage
  | OpTombstone Identifier Identifier Identifier

fun ledger_step :: "'s repository \<Rightarrow> ledger_op \<Rightarrow> 's \<Rightarrow> 's" where
  "ledger_step R (OpAdmit r) s = snd (Admit R r s)"
| "ledger_step R (OpLink l) s = snd (Link R l s)"
| "ledger_step R (OpTombstone t b e) s = snd (ledger_Tombstone R t b e s)"

definition ledger_run :: "'s repository \<Rightarrow> ledger_op list \<Rightarrow> 's \<Rightarrow> 's" where
  "ledger_run R ops s = fold (ledger_step R) ops s"


section \<open>What the ledger relies on\<close>

text \<open>\<open>dead\<close> marks the scopes that were tombstoned.  The laws hold for validated
  arguments, which is what the ledger passes on.\<close>

locale evidence_repository =
  fixes R :: "'s repository"
    and inv :: "'s \<Rightarrow> bool"
    and dead :: "Identifier \<Rightarrow> Identifier \<Rightarrow> Identifier \<Rightarrow> 's \<Rightarrow> bool"
  assumes inv_put: "inv s \<Longrightarrow> validateRecord r \<Longrightarrow> inv (snd (rp_Put R r s))"
    and inv_link: "inv s \<Longrightarrow> validateEdge l \<Longrightarrow> inv (snd (rp_PutLineage R l s))"
    and inv_tomb: "inv s \<Longrightarrow> valid_scope t b e \<Longrightarrow> inv (snd (rp_Tombstone R t b e s))"
    and get_put: "inv s \<Longrightarrow> validateRecord r \<Longrightarrow> valid_scope t b e \<Longrightarrow>
      rp_Get R t b e (snd (rp_Put R r s)) =
        (if (t, b, e) = (er_Tenant r, er_Brain r, er_Evidence r) \<and> fst (rp_Put R r s) = Inr True
         then Inr r else rp_Get R t b e s)"
    and get_link: "rp_Get R t b e (snd (rp_PutLineage R l s)) = rp_Get R t b e s"
    and get_tomb: "inv s \<Longrightarrow> valid_scope t b e \<Longrightarrow> valid_scope t' b' e' \<Longrightarrow> (t', b', e') \<noteq> (t, b, e) \<Longrightarrow>
      rp_Get R t b e (snd (rp_Tombstone R t' b' e' s)) = rp_Get R t b e s"
    and put_fresh: "inv s \<Longrightarrow> validateRecord r \<Longrightarrow> fst (rp_Put R r s) = Inr True \<Longrightarrow>
      rp_Get R (er_Tenant r) (er_Brain r) (er_Evidence r) s = Inl LErrNotFound"
    and put_dead: "inv s \<Longrightarrow> validateRecord r \<Longrightarrow> dead (er_Tenant r) (er_Brain r) (er_Evidence r) s \<Longrightarrow>
      fst (rp_Put R r s) \<noteq> Inr True"
    and dead_put: "dead t b e s \<Longrightarrow> dead t b e (snd (rp_Put R r s))"
    and dead_link: "dead t b e s \<Longrightarrow> dead t b e (snd (rp_PutLineage R l s))"
    and dead_tomb: "dead t b e s \<Longrightarrow> dead t b e (snd (rp_Tombstone R t' b' e' s))"
    and tomb_dead: "fst (rp_Tombstone R t b e s) = None \<Longrightarrow> dead t b e (snd (rp_Tombstone R t b e s))"
    and get_dead: "dead t b e s \<Longrightarrow> rp_Get R t b e s = Inl LErrNotFound"
    and lineage_readable: "inv s \<Longrightarrow> l \<in> set (rp_Lineage R t b x s) \<Longrightarrow> e = li_Parent l \<or> e = li_Child l \<Longrightarrow>
      \<exists>r. rp_Get R (li_Tenant l) (li_Brain l) e s = Inr r"
    and lineage_scope: "l \<in> set (rp_Lineage R t b x s) \<Longrightarrow> li_Tenant l = t \<and> li_Brain l = b"
begin

lemma step_inv: "inv s \<Longrightarrow> inv (ledger_step R op s)"
  by (cases op) (auto simp: Admit_def Link_def ledger_Tombstone_def inv_put inv_link inv_tomb)

lemma run_inv: "inv s \<Longrightarrow> inv (ledger_run R ops s)"
  by (induction ops arbitrary: s) (auto simp: ledger_run_def step_inv)

lemma step_read:
  assumes "inv s" "ledger_Read R t b e s = Inr r" "op \<noteq> OpTombstone t b e"
  shows "ledger_Read R t b e (ledger_step R op s) = Inr r"
proof -
  have v: "valid_scope t b e" "rp_Get R t b e s = Inr r" using assms(2) by (auto simp: ledger_Read_def split: if_splits)
  show ?thesis
  proof (cases op)
    case (OpAdmit r')
    have "\<not> ((t, b, e) = (er_Tenant r', er_Brain r', er_Evidence r') \<and> fst (rp_Put R r' s) = Inr True)"
      if "validateRecord r'"
      using put_fresh[OF assms(1) that] v(2) by auto
    with OpAdmit v get_put[OF assms(1) _ v(1), of r'] show ?thesis by (auto simp: Admit_def ledger_Read_def)
  next
    case (OpLink l)
    with v show ?thesis by (simp add: Link_def ledger_Read_def get_link)
  next
    case (OpTombstone t' b' e')
    with v assms(3) get_tomb[OF assms(1) v(1), of t' b' e'] show ?thesis
      by (auto simp: ledger_Tombstone_def ledger_Read_def)
  qed
qed

lemma run_read:
  assumes "inv s" "ledger_Read R t b e s = Inr r" "OpTombstone t b e \<notin> set ops"
  shows "ledger_Read R t b e (ledger_run R ops s) = Inr r"
  using assms by (induction ops arbitrary: s) (auto simp: ledger_run_def step_inv step_read)

lemma run_dead: "dead t b e s \<Longrightarrow> dead t b e (ledger_run R ops s)"
proof (induction ops arbitrary: s)
  case (Cons op ops)
  have "dead t b e (ledger_step R op s)"
    using Cons.prems by (cases op) (auto simp: Admit_def Link_def ledger_Tombstone_def dead_put dead_link dead_tomb)
  with Cons.IH show ?case by (simp add: ledger_run_def)
qed (simp add: ledger_run_def)

lemma dead_unreadable:
  assumes "dead t b e s" "valid_scope t b e"
  shows "ledger_Read R t b e s = Inl LErrNotFound" "Related R t b e s = Inl LErrNotFound"
  using get_dead[OF assms(1)] assms(2) by (simp_all add: ledger_Read_def Related_def)

lemma dead_unrelated:
  assumes "inv s" "dead t b e s" "Related R t b x s = Inr ls" "l \<in> set ls"
  shows "e \<notin> {li_Parent l, li_Child l}"
proof
  assume e: "e \<in> {li_Parent l, li_Child l}"
  have l: "l \<in> set (rp_Lineage R t b x s)" using assms(3,4) by (auto simp: Related_def split: sum.splits)
  with lineage_scope[OF l] lineage_readable[OF assms(1) l, of e] e get_dead[OF assms(2)] show False by auto
qed

lemma admit_idempotent:
  assumes "inv s" "ledger_Read R (er_Tenant r) (er_Brain r) (er_Evidence r) s = Inr r'"
  shows "fst (Admit R r s) \<noteq> Inr True"
  using put_fresh[OF assms(1), of r] assms(2) by (auto simp: Admit_def ledger_Read_def split: if_splits)

end


section \<open>The in-memory repository keeps the laws\<close>

lemma identifier_eq: "Namespace i = Namespace j \<Longrightarrow> IdValue i = IdValue j \<Longrightarrow> i = j" for i j :: Identifier
  by (cases i, cases j) simp

lemma recordKey_inject:
  assumes "valid_scope t b e" "valid_scope t' b' e'"
  shows "recordKey t b e = recordKey t' b' e' \<longleftrightarrow> t = t' \<and> b = b' \<and> e = e'"
  using assms by (auto simp: recordKey_def valid_scope_def validateID_def intro!: identifier_eq)

definition mem_inv :: "MemoryRepository \<Rightarrow> bool" where
  "mem_inv s \<longleftrightarrow> wf_map (mr_edges s)
    \<and> (\<forall>k m. mr_records s k = Some m \<longrightarrow> validateRecord (me_record m))
    \<and> (\<forall>l \<in> snd ` set (mr_edges s). validateEdge l
        \<and> mem_readable (li_Tenant l) (li_Brain l) (li_Parent l) s
        \<and> mem_readable (li_Tenant l) (li_Brain l) (li_Child l) s)"

definition mem_dead :: "Identifier \<Rightarrow> Identifier \<Rightarrow> Identifier \<Rightarrow> MemoryRepository \<Rightarrow> bool" where
  "mem_dead t b e s \<longleftrightarrow> (\<exists>m. mr_records s (recordKey t b e) = Some m \<and> me_tombstoned m)"

lemma record_scope: "validateRecord r \<Longrightarrow> valid_scope (er_Tenant r) (er_Brain r) (er_Evidence r)"
  by (simp add: validateRecord_def valid_scope_def)

lemma edge_scope:
  "validateEdge l \<Longrightarrow> valid_scope (li_Tenant l) (li_Brain l) (li_Parent l)"
  "validateEdge l \<Longrightarrow> valid_scope (li_Tenant l) (li_Brain l) (li_Child l)"
  by (simp_all add: validateEdge_def valid_scope_def)

lemma mem_put_readable: "mem_readable t b e s \<Longrightarrow> mem_readable t b e (snd (mem_Put r s))"
  by (auto simp: mem_readable_def mem_Put_def Let_def split: option.splits if_splits)

lemma mem_inv_put: "mem_inv s \<Longrightarrow> validateRecord r \<Longrightarrow> mem_inv (snd (mem_Put r s))"
proof -
  assume a: "mem_inv s" "validateRecord r"
  have "mr_edges (snd (mem_Put r s)) = mr_edges s" by (simp add: mem_Put_def Let_def split: option.splits)
  moreover have "validateRecord (me_record m)" if "mr_records (snd (mem_Put r s)) k = Some m" for k m
    using that a by (auto simp: mem_Put_def mem_inv_def Let_def split: option.splits if_splits)
  ultimately show ?thesis using a mem_put_readable by (auto simp: mem_inv_def)
qed

lemma mem_inv_link:
  assumes "mem_inv s" "validateEdge l"
  shows "mem_inv (snd (mem_PutLineage l s))"
proof -
  have same: "mem_readable t b e (snd (mem_PutLineage l s)) = mem_readable t b e s" for t b e
    by (simp add: mem_readable_def mem_PutLineage_def split: option.splits)
  have "mr_records (snd (mem_PutLineage l s)) = mr_records s"
    by (simp add: mem_PutLineage_def split: option.splits)
  moreover have "snd ` set (mr_edges (snd (mem_PutLineage l s))) \<subseteq> snd ` set (mr_edges s) \<union>
      (if mem_readable (li_Tenant l) (li_Brain l) (li_Parent l) s
         \<and> mem_readable (li_Tenant l) (li_Brain l) (li_Child l) s then {l} else {})"
    using mput_subset[of "edgeKey l" l "mr_edges s"] by (auto simp: mem_PutLineage_def split: option.splits)
  moreover have "wf_map (mr_edges (snd (mem_PutLineage l s)))"
    using assms(1) by (auto simp: mem_PutLineage_def mem_inv_def split: option.splits)
  ultimately show ?thesis using assms unfolding mem_inv_def same by (fastforce split: if_splits)
qed


lemma mem_inv_tomb:
  assumes "mem_inv s" "valid_scope t b e"
  shows "mem_inv (snd (mem_Tombstone t b e s))"
proof (cases "mr_records s (recordKey t b e)")
  case None
  with assms show ?thesis by (simp add: mem_Tombstone_def)
next
  case (Some m)
  let ?s = "snd (mem_Tombstone t b e s)"
  have edges: "mr_edges ?s = filter (\<lambda>(k, l). \<not> touches t b e l) (mr_edges s)"
    and records: "mr_records ?s = (mr_records s)(recordKey t b e \<mapsto> m\<lparr>me_tombstoned := True\<rparr>)"
    using Some by (simp_all add: mem_Tombstone_def Let_def)
  have keep: "mem_readable t' b' e' ?s"
    if "mem_readable t' b' e' s" "valid_scope t' b' e'" "(t', b', e') \<noteq> (t, b, e)" for t' b' e'
    using that recordKey_inject[OF that(2) assms(2)] by (auto simp: mem_readable_def records)
  have "validateEdge l \<and> mem_readable (li_Tenant l) (li_Brain l) (li_Parent l) ?s
      \<and> mem_readable (li_Tenant l) (li_Brain l) (li_Child l) ?s" if "l \<in> snd ` set (mr_edges ?s)" for l
  proof -
    have l: "l \<in> snd ` set (mr_edges s)" "\<not> touches t b e l" using that by (auto simp: edges)
    then have "validateEdge l" "mem_readable (li_Tenant l) (li_Brain l) (li_Parent l) s"
      "mem_readable (li_Tenant l) (li_Brain l) (li_Child l) s" using assms(1) by (auto simp: mem_inv_def)
    with l(2) keep edge_scope show ?thesis by (auto simp: touches_def)
  qed
  moreover have "validateRecord (me_record x)" if "mr_records ?s k = Some x" for k x
    using that assms(1) Some by (auto simp: records mem_inv_def split: if_splits)
  moreover have "wf_map (mr_edges ?s)"
    using assms(1) by (auto simp: edges mem_inv_def wf_map_def distinct_map_filter)
  ultimately show ?thesis by (simp add: mem_inv_def)
qed

interpretation mem: evidence_repository mem_repo mem_inv mem_dead
proof
  show "mem_inv s \<Longrightarrow> validateRecord r \<Longrightarrow> mem_inv (snd (rp_Put mem_repo r s))" for s r
    by (simp add: mem_repo_def mem_inv_put)
  show "mem_inv s \<Longrightarrow> validateEdge l \<Longrightarrow> mem_inv (snd (rp_PutLineage mem_repo l s))" for s l
    by (simp add: mem_repo_def mem_inv_link)
  show "mem_inv s \<Longrightarrow> valid_scope t b e \<Longrightarrow> mem_inv (snd (rp_Tombstone mem_repo t b e s))" for s t b e
    by (simp add: mem_repo_def mem_inv_tomb)
next
  fix s r t b e
  assume "validateRecord r" "valid_scope t b e"
  then show "rp_Get mem_repo t b e (snd (rp_Put mem_repo r s)) =
        (if (t, b, e) = (er_Tenant r, er_Brain r, er_Evidence r) \<and> fst (rp_Put mem_repo r s) = Inr True
         then Inr r else rp_Get mem_repo t b e s)"
    using recordKey_inject[OF _ record_scope, of t b e r]
    by (auto simp: mem_repo_def mem_Get_def mem_Put_def Let_def split: option.splits)
next
  fix s t b e t' b' e'
  assume "valid_scope t b e" "valid_scope t' b' e'" "(t', b', e') \<noteq> (t, b, e)"
  then show "rp_Get mem_repo t b e (snd (rp_Tombstone mem_repo t' b' e' s)) = rp_Get mem_repo t b e s"
    using recordKey_inject[of t b e t' b' e']
    by (auto simp: mem_repo_def mem_Get_def mem_Tombstone_def Let_def split: option.splits)
next
  fix s l t b x e
  assume "mem_inv s" "l \<in> set (rp_Lineage mem_repo t b x s)" "e = li_Parent l \<or> e = li_Child l"
  then have "mem_readable (li_Tenant l) (li_Brain l) e s"
    by (auto simp: mem_repo_def mem_Lineage_def mem_inv_def)
  then show "\<exists>r. rp_Get mem_repo (li_Tenant l) (li_Brain l) e s = Inr r"
    by (auto simp: mem_repo_def mem_Get_def mem_readable_def split: option.splits)
qed (auto simp: mem_repo_def mem_Get_def mem_Put_def mem_PutLineage_def
       mem_Tombstone_def mem_Lineage_def mem_dead_def touches_def Let_def split: option.splits if_splits)


section \<open>Properties\<close>

lemma new_inv [simp]: "mem_inv NewMemoryRepository"
  by (simp add: mem_inv_def NewMemoryRepository_def)

lemma mem_readmit:
  assumes "ledger_Read mem_repo t b e s = Inr r" "validateRecord r'"
    and "(er_Tenant r', er_Brain r', er_Evidence r') = (t, b, e)"
  shows "Admit mem_repo r' s = (if r' = r then Inr False else Inl LErrConflict, s)"
  using assms by (auto simp: ledger_Read_def Admit_def mem_repo_def mem_Get_def mem_Put_def Let_def
      split: if_splits option.splits)

text \<open>C37.  Evidence is immutable: once a record can be read, every sequence of
  admissions, links and tombstones of other records, valid or not, leaves exactly
  that record readable; admitting it again changes nothing and reports that it was
  not new, and admitting a different record for its scope is a conflict.\<close>

theorem evidence_immutable:
  assumes "s = ledger_run mem_repo before NewMemoryRepository"
    and "ledger_Read mem_repo t b e s = Inr r" "OpTombstone t b e \<notin> set ops"
    and "validateRecord r'" "(er_Tenant r', er_Brain r', er_Evidence r') = (t, b, e)"
  shows "ledger_Read mem_repo t b e (ledger_run mem_repo ops s) = Inr r
    \<and> Admit mem_repo r' (ledger_run mem_repo ops s) =
        (if r' = r then Inr False else Inl LErrConflict, ledger_run mem_repo ops s)"
proof -
  have "mem_inv s" unfolding assms(1) by (rule mem.run_inv) simp
  from mem.run_read[OF this assms(2,3)] show ?thesis using mem_readmit[OF _ assms(4,5)] by blast
qed

definition sample_id :: "string \<Rightarrow> string \<Rightarrow> Identifier" where
  "sample_id n v = \<lparr>Namespace = n, IdValue = v\<rparr>"

definition sample_record :: "string \<Rightarrow> string \<Rightarrow> ERecord" where
  "sample_record ev anchor = \<lparr>er_Tenant = sample_id ''tenant'' ''t'', er_Brain = sample_id ''brain'' ''b'',
     er_Evidence = sample_id ''evidence'' ev, er_Artifact = sample_id ''artifact'' ''a'', er_Generation = 1,
     er_Anchor = anchor, er_Digest = \<lparr>Algorithm = ''sha256'', Hex = replicate 64 CHR ''0''\<rparr>\<rparr>"

lemma sample_record_valid: "ev \<noteq> [] \<Longrightarrow> length ev \<le> 512 \<Longrightarrow> anchor \<noteq> [] \<Longrightarrow> length anchor \<le> 4096 \<Longrightarrow>
    validateRecord (sample_record ev anchor)"
  by (simp add: validateRecord_def sample_record_def validDigest_iff validateID_def sample_id_def
      list_all_iff lower_hex_def)

lemma sample_run_read:
  "ledger_Read mem_repo (sample_id ''tenant'' ''t'') (sample_id ''brain'' ''b'') (sample_id ''evidence'' ''e'')
    (ledger_run mem_repo [OpAdmit (sample_record ''e'' ''x'')] NewMemoryRepository) = Inr (sample_record ''e'' ''x'')"
  using sample_record_valid[of "''e''" "''x''"]
  by (simp add: ledger_run_def Admit_def ledger_Read_def mem_repo_def mem_Put_def mem_Get_def NewMemoryRepository_def
      sample_record_def valid_scope_def validateID_def sample_id_def)

theorem evidence_immutable_witness:
  "fst (Admit mem_repo (sample_record ''e'' ''y'')
      (ledger_run mem_repo [OpAdmit (sample_record ''f'' ''x'')]
        (ledger_run mem_repo [OpAdmit (sample_record ''e'' ''x'')] NewMemoryRepository))) = Inl LErrConflict"
  using evidence_immutable[OF refl sample_run_read, of "[OpAdmit (sample_record ''f'' ''x'')]" "sample_record ''e'' ''y''"]
    sample_record_valid[of "''e''" "''y''"]
  by (simp add: sample_record_def)

text \<open>C22.  A tombstone is immediate and final: after \<^verbatim>\<open>Tombstone\<close> succeeds for a
  scope, under every further sequence of operations (a new admission for the same
  scope included) the record stays unreadable, its lineage stays unreadable, and no
  lineage that can be read mentions it.\<close>

theorem tombstone_is_final:
  assumes "s = ledger_run mem_repo before NewMemoryRepository"
    and "ledger_Tombstone mem_repo t b e s = (None, s')" "final = ledger_run mem_repo ops s'"
  shows "ledger_Read mem_repo t b e final = Inl LErrNotFound \<and> Related mem_repo t b e final = Inl LErrNotFound
    \<and> (\<forall>x ls. Related mem_repo t b x final = Inr ls \<longrightarrow> list_all (\<lambda>l. e \<notin> {li_Parent l, li_Child l}) ls)"
proof -
  have v: "valid_scope t b e" using assms(2) by (auto simp: ledger_Tombstone_def split: if_splits)
  then have "fst (rp_Tombstone mem_repo t b e s) = None" "s' = snd (rp_Tombstone mem_repo t b e s)"
    using assms(2) by (simp_all add: ledger_Tombstone_def)
  then have "mem_dead t b e s'" using mem.tomb_dead by blast
  then have dead: "mem_dead t b e final" unfolding assms(3) by (rule mem.run_dead)
  have "mem_inv s'"
    using mem.step_inv[of s "OpTombstone t b e"] mem.run_inv[of NewMemoryRepository before] assms(1,2) by simp
  then have inv: "mem_inv final" unfolding assms(3) by (rule mem.run_inv)
  show ?thesis
    using mem.dead_unreadable[OF dead v] mem.dead_unrelated[OF inv dead] by (auto simp: list_all_iff)
qed

theorem tombstone_is_final_witness:
  "\<exists>s'. ledger_Tombstone mem_repo (sample_id ''tenant'' ''t'') (sample_id ''brain'' ''b'') (sample_id ''evidence'' ''e'')
      (ledger_run mem_repo [OpAdmit (sample_record ''e'' ''x'')] NewMemoryRepository) = (None, s')
    \<and> ledger_Read mem_repo (sample_id ''tenant'' ''t'') (sample_id ''brain'' ''b'') (sample_id ''evidence'' ''e'')
        (ledger_run mem_repo [OpAdmit (sample_record ''e'' ''x'')] s') = Inl LErrNotFound"
proof -
  let ?s = "ledger_run mem_repo [OpAdmit (sample_record ''e'' ''x'')] NewMemoryRepository"
  let ?T = "ledger_Tombstone mem_repo (sample_id ''tenant'' ''t'') (sample_id ''brain'' ''b'') (sample_id ''evidence'' ''e'') ?s"
  have "fst ?T = None"
    using sample_run_read
    by (auto simp: ledger_Tombstone_def ledger_Read_def mem_repo_def mem_Get_def mem_Tombstone_def Let_def
        split: if_splits option.splits)
  then have t: "?T = (None, snd ?T)" by (metis prod.collapse)
  from tombstone_is_final[OF refl t refl] t show ?thesis by blast
qed

end
