(* ===== verification/Capability.thy ===== *)
theory Capability
  imports Contracts
begin

text \<open>
  Capability grants (\<^verbatim>\<open>broker/internal/capability/grant.go\<close>): validation,
  attenuation and the check of one use.  A zero expiry time is \<open>None\<close>; limits
  and usages are maps from dimension names to 64-bit counts.  Proved: a grant
  derived by any number of attenuations authorises nothing that its root does not
  authorise.
\<close>

section \<open>Definitions\<close>

record Grant =
  g_ID :: string
  g_IDNamespace :: string
  g_Principal :: Identifier
  g_Tenant :: Identifier
  g_PolicyDigest :: Digest
  g_Actions :: "string list"
  g_Resources :: "Identifier list"
  g_AllowedPaths :: "string list"
  g_Limits :: "(string, 64 word) gomap"
  g_Fence :: "64 word"
  g_RevocationEpoch :: "64 word"
  g_ExpiresAt :: "go_time option"
  g_Nonce :: string

record UseRequest =
  u_Action :: string
  u_Resource :: Identifier
  u_Fence :: "64 word"
  u_RevocationEpoch :: "64 word"
  u_Nonce :: string
  u_Path :: string
  u_Usage :: "(string, 64 word) gomap"
  u_Now :: go_time

definition grant_validate :: "Grant \<Rightarrow> go_time \<Rightarrow> bool" where
  "grant_validate g now \<longleftrightarrow>
    \<not> (g_ID g = [] \<or> g_IDNamespace g \<noteq> ''grant'' \<or> \<not> validDigest (g_PolicyDigest g)
       \<or> g_Nonce g = [] \<or> Namespace (g_Principal g) \<noteq> ''principal'' \<or> IdValue (g_Principal g) = []
       \<or> Namespace (g_Tenant g) \<noteq> ''tenant'' \<or> IdValue (g_Tenant g) = []
       \<or> g_Actions g = [] \<or> g_Resources g = [] \<or> g_Fence g = 0
       \<or> (case g_ExpiresAt g of None \<Rightarrow> True | Some e \<Rightarrow> \<not> now < e))
    \<and> list_all (\<lambda>a. \<not> (a = [] \<or> str_contains a ''*'' \<or> str_contains a ''delegate'')) (g_Actions g)
    \<and> list_all (\<lambda>r. \<not> (Namespace r = [] \<or> IdValue r = [] \<or> str_contains (IdValue r) ''*'')) (g_Resources g)
    \<and> list_all (\<lambda>p. \<not> (p = [] \<or> p = ''.'' \<or> is_abs_path p \<or> has_prefix p ''../'' \<or> path_clean p \<noteq> p))
        (g_AllowedPaths g)
    \<and> list_all (\<lambda>(name, lm). \<not> (name = [] \<or> lm = 0)) (g_Limits g)"

definition stringsSubset :: "string list \<Rightarrow> string list \<Rightarrow> bool" where
  "stringsSubset children parents = list_all (\<lambda>c. c \<in> set parents) children"

definition resourcesSubset :: "Identifier list \<Rightarrow> Identifier list \<Rightarrow> bool" where
  "resourcesSubset children parents = list_all (\<lambda>c. c \<in> set parents) children"

definition at_or_under :: "string \<Rightarrow> string \<Rightarrow> bool" where
  "at_or_under p q \<longleftrightarrow> p = q \<or> has_prefix p (q @ ''/'')"

definition constrainedPathsSubset :: "string list \<Rightarrow> string list \<Rightarrow> bool" where
  "constrainedPathsSubset children parents =
    (if parents = [] then children = []
     else if children = [] then False
     else list_all (\<lambda>c. list_ex (at_or_under c) parents) children)"

definition constrainedLimitsSubset :: "(string, 64 word) gomap \<Rightarrow> (string, 64 word) gomap \<Rightarrow> bool" where
  "constrainedLimitsSubset children parents =
    (if parents = [] then children = []
     else if children = [] then False
     else list_all (\<lambda>(name, c). case mget parents name of None \<Rightarrow> False | Some p \<Rightarrow> \<not> c > p) children)"

definition pathUseAllowed :: "string \<Rightarrow> string list \<Rightarrow> bool" where
  "pathUseAllowed requested allowed =
    (if allowed = [] then requested = []
     else if requested = [] then False
     else if is_abs_path requested \<or> has_prefix requested ''../'' \<or> path_clean requested \<noteq> requested then False
     else list_ex (at_or_under requested) allowed)"

definition usageAllowed :: "(string, 64 word) gomap \<Rightarrow> (string, 64 word) gomap \<Rightarrow> bool" where
  "usageAllowed usage limits =
    (if limits = [] then usage = []
     else if length usage \<noteq> length limits then False
     else list_all (\<lambda>(name, used). case mget limits name of
            None \<Rightarrow> False | Some maximum \<Rightarrow> \<not> (name = [] \<or> used > maximum)) usage)"

text \<open>\<^verbatim>\<open>cloneGrant\<close> copies slices and maps, which are values here.\<close>

definition Attenuate :: "Grant \<Rightarrow> Grant \<Rightarrow> go_time \<Rightarrow> Grant option" where
  "Attenuate parent child now =
    (if \<not> grant_validate parent now \<or> \<not> grant_validate child now \<or> g_ID child = g_ID parent
        \<or> g_Principal child \<noteq> g_Principal parent \<or> g_Tenant child \<noteq> g_Tenant parent
        \<or> g_Fence child \<noteq> g_Fence parent \<or> g_RevocationEpoch child \<noteq> g_RevocationEpoch parent
        \<or> (case (g_ExpiresAt child, g_ExpiresAt parent) of
             (Some c, Some p) \<Rightarrow> c > p | (Some c, None) \<Rightarrow> True | (None, _) \<Rightarrow> False)
        \<or> \<not> stringsSubset (g_Actions child) (g_Actions parent)
        \<or> \<not> resourcesSubset (g_Resources child) (g_Resources parent)
        \<or> \<not> constrainedPathsSubset (g_AllowedPaths child) (g_AllowedPaths parent)
        \<or> \<not> constrainedLimitsSubset (g_Limits child) (g_Limits parent)
     then None else Some child)"

definition AuthorizeUse :: "Grant \<Rightarrow> MappedIdentityFact \<Rightarrow> UseRequest \<Rightarrow> bool" where
  "AuthorizeUse g who u \<longleftrightarrow>
    \<not> (\<not> grant_validate g (u_Now u) \<or> mi_Principal who \<noteq> g_Principal g \<or> mi_Tenant who \<noteq> g_Tenant g
       \<or> u_Action u = [] \<or> u_Action u \<notin> set (g_Actions g) \<or> u_Resource u \<notin> set (g_Resources g)
       \<or> u_Fence u = 0 \<or> u_Fence u \<noteq> g_Fence g \<or> u_RevocationEpoch u \<noteq> g_RevocationEpoch g
       \<or> u_Nonce u = [] \<or> u_Nonce u \<noteq> g_Nonce g \<or> \<not> pathUseAllowed (u_Path u) (g_AllowedPaths g)
       \<or> \<not> usageAllowed (u_Usage u) (g_Limits g))"


section \<open>Each dimension is monotone\<close>

lemma at_or_under_trans: "at_or_under p q \<Longrightarrow> at_or_under q r \<Longrightarrow> at_or_under p r"
  by (auto simp: at_or_under_def has_prefix_iff)

lemma path_mono:
  assumes "constrainedPathsSubset cs ps" "pathUseAllowed req cs"
  shows "pathUseAllowed req ps"
proof (cases "ps = []")
  case True
  with assms show ?thesis by (simp add: constrainedPathsSubset_def)
next
  case False
  with assms have cs: "cs \<noteq> []" "\<forall>c \<in> set cs. \<exists>p \<in> set ps. at_or_under c p"
    by (auto simp: constrainedPathsSubset_def list_all_iff list_ex_iff split: if_splits)
  with assms(2) obtain c where c: "c \<in> set cs" "at_or_under req c"
    by (auto simp: pathUseAllowed_def list_ex_iff split: if_splits)
  with cs(2) obtain p where "p \<in> set ps" "at_or_under req p" using at_or_under_trans by blast
  with assms(2) cs(1) False show ?thesis by (auto simp: pathUseAllowed_def list_ex_iff split: if_splits)
qed

text \<open>A usage completed with zeros for further dimensions.\<close>

definition zero_extends :: "(string, 64 word) gomap \<Rightarrow> (string, 64 word) gomap \<Rightarrow> bool" where
  "zero_extends u v \<longleftrightarrow> wf_map v \<and> (\<forall>n x. mget u n = Some x \<longrightarrow> mget v n = Some x)
    \<and> (\<forall>n x. mget v n = Some x \<longrightarrow> mget u n = Some x \<or> x = 0)"

lemma zero_extends_trans: "zero_extends u v \<Longrightarrow> zero_extends v w \<Longrightarrow> zero_extends u w"
  unfolding zero_extends_def by blast

definition pad :: "(string, 64 word) gomap \<Rightarrow> (string, 64 word) gomap \<Rightarrow> (string, 64 word) gomap" where
  "pad usage limits = map (\<lambda>(n, _). (n, mget0 0 usage n)) limits"

lemma mget_pad: "mget (pad usage limits) n = map_option (\<lambda>_. mget0 0 usage n) (mget limits n)"
  by (induction limits) (auto simp: pad_def)

lemma usageAllowedD:
  assumes "usageAllowed u cl" "(n, x) \<in> set u"
  shows "cl \<noteq> []" "\<exists>m. mget cl n = Some m \<and> x \<le> m"
proof -
  show ne: "cl \<noteq> []" using assms by (auto simp: usageAllowed_def)
  then have "list_all (\<lambda>(n, x). case mget cl n of None \<Rightarrow> False | Some m \<Rightarrow> \<not> (n = [] \<or> x > m)) u"
    using assms(1) by (simp add: usageAllowed_def split: if_split_asm)
  with assms(2) have "case mget cl n of None \<Rightarrow> False | Some m \<Rightarrow> \<not> (n = [] \<or> x > m)"
    unfolding list_all_iff by fast
  then show "\<exists>m. mget cl n = Some m \<and> x \<le> m" by (auto simp: not_less split: option.split_asm)
qed

lemma constrainedLimitsD:
  assumes "constrainedLimitsSubset cl pl" "(n, m) \<in> set cl"
  shows "\<exists>p. mget pl n = Some p \<and> m \<le> p"
proof -
  have "list_all (\<lambda>(n, m). case mget pl n of None \<Rightarrow> False | Some p \<Rightarrow> \<not> m > p) cl"
    using assms by (cases "pl = []") (auto simp: constrainedLimitsSubset_def split: if_split_asm)
  with assms(2) have "case mget pl n of None \<Rightarrow> False | Some p \<Rightarrow> \<not> m > p"
    unfolding list_all_iff by fast
  then show ?thesis by (auto simp: not_less split: option.split_asm)
qed

lemma usage_mono:
  assumes "constrainedLimitsSubset cl pl" "usageAllowed u cl" "wf_map u" "wf_map pl" "[] \<notin> set (mkeys pl)"
  shows "usageAllowed (pad u pl) pl" "zero_extends u (pad u pl)"
proof -
  have key: "mget pl n \<noteq> None \<and> x \<le> the (mget pl n)" if nx: "(n, x) \<in> set u" for n x
  proof -
    obtain m where m: "mget cl n = Some m" "x \<le> m" using usageAllowedD(2)[OF assms(2) nx] by blast
    obtain p where "mget pl n = Some p" "m \<le> p"
      using constrainedLimitsD[OF assms(1) map_of_SomeD[OF m(1)]] by blast
    with m(2) show ?thesis by simp
  qed
  have pl: "list_all (\<lambda>(n, used). case mget pl n of None \<Rightarrow> False | Some mx \<Rightarrow> \<not> (n = [] \<or> used > mx)) (pad u pl)"
  proof -
    have "mget pl n = Some mx \<and> n \<noteq> [] \<and> mget0 0 u n \<le> mx" if "(n, mx) \<in> set pl" for n mx
    proof -
      have n: "mget pl n = Some mx" using that assms(4) by (simp add: mget_set)
      moreover have "n \<noteq> []" using that assms(5) by force
      moreover have "mget0 0 u n \<le> mx"
        using key[of n] n by (auto simp: mget0_def split: option.splits dest!: map_of_SomeD)
      ultimately show ?thesis by blast
    qed
    then show ?thesis by (fastforce simp: list_all_iff pad_def)
  qed
  then show "usageAllowed (pad u pl) pl"
  proof (cases "pl = []")
    case True
    then show ?thesis by (simp add: usageAllowed_def pad_def)
  next
    case False
    have "length (pad u pl) = length pl" by (simp add: pad_def)
    with pl False show ?thesis by (simp add: usageAllowed_def)
  qed
  have "mkeys (pad u pl) = mkeys pl" by (simp add: pad_def comp_def case_prod_beta)
  then have "wf_map (pad u pl)" using assms(4) by (simp add: wf_map_def)
  moreover have "mget (pad u pl) n = Some x" if "mget u n = Some x" for n x
    using key[of n x] that map_of_SomeD[OF that] by (auto simp: mget_pad mget0_def)
  moreover have "mget u n = Some x \<or> x = 0" if "mget (pad u pl) n = Some x" for n x
    using that by (auto simp: mget_pad mget0_def split: option.splits)
  ultimately show "zero_extends u (pad u pl)" unfolding zero_extends_def by blast
qed



section \<open>Derivation\<close>

text \<open>A grant obtained from a root by any number of attenuations, each at its own
  time.\<close>

inductive derived :: "Grant \<Rightarrow> Grant \<Rightarrow> bool" for origin where
  self: "derived origin origin"
| attenuate: "derived origin g \<Longrightarrow> Attenuate g c now = Some c' \<Longrightarrow> wf_map (g_Limits c) \<Longrightarrow> derived origin c'"

lemma attenuate_authorizes:
  assumes "Attenuate g c now = Some c'" "AuthorizeUse c' who u" "wf_map (u_Usage u)" "wf_map (g_Limits g)"
  shows "\<exists>v. zero_extends (u_Usage u) v \<and> AuthorizeUse g who (u\<lparr>u_Nonce := g_Nonce g, u_Usage := v\<rparr>)"
proof -
  have c: "c' = c" "grant_validate g now" "grant_validate c now" "g_Principal c = g_Principal g"
    "g_Tenant c = g_Tenant g" "g_Fence c = g_Fence g" "g_RevocationEpoch c = g_RevocationEpoch g"
    "stringsSubset (g_Actions c) (g_Actions g)" "resourcesSubset (g_Resources c) (g_Resources g)"
    "constrainedPathsSubset (g_AllowedPaths c) (g_AllowedPaths g)"
    "constrainedLimitsSubset (g_Limits c) (g_Limits g)"
    using assms(1) by (simp_all add: Attenuate_def split: if_splits)
  have exp: "grant_validate g (u_Now u)"
  proof -
    have "grant_validate c (u_Now u)" using assms(2) c(1) by (simp add: AuthorizeUse_def)
    then obtain e where e: "g_ExpiresAt c = Some e" "u_Now u < e"
      by (auto simp: grant_validate_def split: option.splits)
    obtain p where p: "g_ExpiresAt g = Some p" using c(2) by (auto simp: grant_validate_def split: option.splits)
    have "e \<le> p" using assms(1) e(1) p by (simp add: Attenuate_def split: if_splits)
    with c(2) e(2) p show ?thesis by (simp add: grant_validate_def)
  qed
  have lim: "[] \<notin> set (mkeys (g_Limits g))"
    using c(2) by (auto simp: grant_validate_def list_all_iff)
  have u: "u_Action u \<in> set (g_Actions g)" "u_Resource u \<in> set (g_Resources g)"
    "pathUseAllowed (u_Path u) (g_AllowedPaths g)" "usageAllowed (u_Usage u) (g_Limits c)"
    using assms(2) c path_mono[OF c(10)]
    by (auto simp: AuthorizeUse_def stringsSubset_def resourcesSubset_def list_all_iff)
  have "g_Nonce g \<noteq> []" using c(2) by (simp add: grant_validate_def)
  with assms(2) c exp u usage_mono[OF c(11) u(4) assms(3,4) lim] show ?thesis
    by (intro exI[of _ "pad (u_Usage u) (g_Limits g)"]) (simp add: AuthorizeUse_def)
qed

text \<open>C19.  Delegation never widens authority: if a grant that was derived from a
  root by any chain of attenuations authorises a use, the root authorises the same
  use by the same identity at the same time, under its own nonce and with the
  metered dimensions that were dropped on the way reported as zero.\<close>

theorem derived_grant_never_widens:
  assumes "derived origin g" "wf_map (g_Limits origin)" "AuthorizeUse g who u" "wf_map (u_Usage u)"
  shows "\<exists>v. zero_extends (u_Usage u) v \<and> AuthorizeUse origin who (u\<lparr>u_Nonce := g_Nonce origin, u_Usage := v\<rparr>)"
  using assms
proof (induction arbitrary: u rule: derived.induct)
  case self
  have "u\<lparr>u_Nonce := g_Nonce origin\<rparr> = u" using self.prems(2) by (simp add: AuthorizeUse_def)
  moreover have "zero_extends (u_Usage u) (u_Usage u)" using self.prems(3) by (simp add: zero_extends_def)
  ultimately show ?case using self.prems(2) by (intro exI[of _ "u_Usage u"]) simp
next
  case (attenuate g c now c')
  have wf: "wf_map (g_Limits g)"
    using attenuate.hyps(1) attenuate.prems(1)
  proof (cases rule: derived.cases)
    case (attenuate g' c'' now')
    then show ?thesis by (auto simp: Attenuate_def split: if_splits)
  qed simp
  obtain v where v: "zero_extends (u_Usage u) v" "AuthorizeUse g who (u\<lparr>u_Nonce := g_Nonce g, u_Usage := v\<rparr>)"
    using attenuate_authorizes[OF attenuate.hyps(2) attenuate.prems(2,3) wf] by blast
  then have "wf_map v" by (simp add: zero_extends_def)
  with attenuate.IH[OF attenuate.prems(1) v(2)] obtain w where
    "zero_extends v w" "AuthorizeUse origin who (u\<lparr>u_Nonce := g_Nonce origin, u_Usage := w\<rparr>)" by auto
  with v(1) zero_extends_trans show ?case by blast
qed

definition sample_grant :: "string \<Rightarrow> string list \<Rightarrow> (string, 64 word) gomap \<Rightarrow> Grant" where
  "sample_grant name paths limits = \<lparr>g_ID = name, g_IDNamespace = ''grant'',
     g_Principal = \<lparr>Namespace = ''principal'', IdValue = ''p''\<rparr>, g_Tenant = \<lparr>Namespace = ''tenant'', IdValue = ''t''\<rparr>,
     g_PolicyDigest = \<lparr>Algorithm = ''sha256'', Hex = replicate 64 CHR ''0''\<rparr>, g_Actions = [''read''],
     g_Resources = [\<lparr>Namespace = ''repo'', IdValue = ''r''\<rparr>], g_AllowedPaths = paths, g_Limits = limits,
     g_Fence = 1, g_RevocationEpoch = 0, g_ExpiresAt = Some 10, g_Nonce = name\<rparr>"

definition sample_use :: UseRequest where
  "sample_use = \<lparr>u_Action = ''read'', u_Resource = \<lparr>Namespace = ''repo'', IdValue = ''r''\<rparr>, u_Fence = 1,
     u_RevocationEpoch = 0, u_Nonce = ''c'', u_Path = ''a/b/x'', u_Usage = [(''cpu'', 2)], u_Now = 3\<rparr>"

definition sample_who :: MappedIdentityFact where
  "sample_who = \<lparr>mi_Principal = \<lparr>Namespace = ''principal'', IdValue = ''p''\<rparr>,
     mi_Tenant = \<lparr>Namespace = ''tenant'', IdValue = ''t''\<rparr>, mi_Session = zero_id,
     mi_Credentials = zero_credentials\<rparr>"

lemma list_all_replicate: "list_all P (replicate n x) \<longleftrightarrow> n = 0 \<or> P x"
  by (induction n) auto

lemmas grant_eval = list_all_replicate sample_grant_def grant_validate_def validDigest_iff lower_hex_def has_prefix_def
  is_abs_path_def path_clean_def clean_stack_def path_components_def

theorem derived_grant_never_widens_witness:
  "\<exists>v. zero_extends [(''cpu'', 2)] v
    \<and> AuthorizeUse (sample_grant ''r'' [''a''] [(''cpu'', 5), (''tok'', 9)]) sample_who
        (sample_use\<lparr>u_Nonce := ''r'', u_Usage := v\<rparr>)"
proof -
  let ?r = "sample_grant ''r'' [''a''] [(''cpu'', 5), (''tok'', 9)]" and ?c = "sample_grant ''c'' [''a/b''] [(''cpu'', 3)]"
  have att: "Attenuate ?r ?c 1 = Some ?c"
    by (simp add: Attenuate_def grant_eval stringsSubset_def resourcesSubset_def constrainedPathsSubset_def
        constrainedLimitsSubset_def at_or_under_def)
  have "wf_map (g_Limits ?c)" by (simp add: sample_grant_def wf_map_def)
  then have "derived ?r ?c" by (rule derived.attenuate[OF derived.self att])
  moreover have "AuthorizeUse ?c sample_who sample_use"
    by (simp add: AuthorizeUse_def grant_eval sample_who_def sample_use_def pathUseAllowed_def usageAllowed_def
        at_or_under_def)
  ultimately show ?thesis
    using derived_grant_never_widens[of ?r ?c sample_who sample_use]
    by (simp add: sample_grant_def sample_use_def wf_map_def)
qed

text \<open>The shape check for parent traversal looks for the prefix \<^verbatim>\<open>../\<close>, which the
  parent directory itself does not have.\<close>

lemma parent_directory_accepted:
  "pathUseAllowed ''..'' [''..''] \<and> grant_validate (sample_grant ''r'' [''..''] []) 1"
  by (simp add: pathUseAllowed_def grant_eval at_or_under_def)

end
