(* ===== verification/Candidate_Edits.thy ===== *)
theory Candidate_Edits
  imports Contracts
begin

text \<open>
  The candidate edit set (\<^verbatim>\<open>broker/internal/factory/changeset/changeset.go\<close>):
  the rule for repository-relative paths, the rule for one edit and the rule for a
  set of edits.  Operations and languages are strings, as in the source, and
  SHA-256 in hexadecimal is the argument \<open>sha\<close>.
\<close>

section \<open>Definitions\<close>

definition MaxEdits :: nat where "MaxEdits = 64"
definition MaxPathBytes :: nat where "MaxPathBytes = 4096"

definition OpAdd :: string where "OpAdd = ''add''"
definition OpModify :: string where "OpModify = ''modify''"
definition OpDelete :: string where "OpDelete = ''delete''"
definition OpRename :: string where "OpRename = ''rename''"

lemmas op_defs = OpAdd_def OpModify_def OpDelete_def OpRename_def

record Edit =
  ed_Path :: string
  ed_OldPath :: string
  ed_Op :: string
  ed_Lang :: string
  ed_BeforeDigest :: Digest
  ed_AfterDigest :: Digest
  ed_NewContent :: string

definition DigestBytes :: "(string \<Rightarrow> string) \<Rightarrow> string \<Rightarrow> Digest" where
  "DigestBytes sha content = \<lparr>Algorithm = ''sha256'', Hex = sha content\<rparr>"

definition validLanguage :: "string \<Rightarrow> bool" where
  "validLanguage l \<longleftrightarrow> l \<in> {''go'', ''typescript'', ''python'', ''rust'', ''java''}"

definition ValidatePath :: "string \<Rightarrow> bool" where
  "ValidatePath v \<longleftrightarrow>
    \<not> (v = [] \<or> length v > MaxPathBytes \<or> \<not> valid_utf8 v \<or> is_abs_path v
       \<or> CHR 0x5C \<in> set v \<or> path_clean v \<noteq> v)
    \<and> list_all (\<lambda>s. \<not> (s = [] \<or> s = ''.'' \<or> s = ''..'')) (split_on CHR ''/'' v)
    \<and> list_all (\<lambda>(r, bs). \<not> (r < 0x20 \<or> r = 0x7F)) (runes_of v)"

definition ValidateEdit :: "(string \<Rightarrow> string) \<Rightarrow> Edit \<Rightarrow> bool" where
  "ValidateEdit sha e =
    (if \<not> ValidatePath (ed_Path e) then False
     else if ed_Op e \<in> {OpAdd, OpModify, OpDelete} \<and> ed_OldPath e \<noteq> [] then False
     else if ed_Op e = OpRename \<and> (ed_OldPath e = [] \<or> ed_OldPath e = ed_Path e) then False
     else if ed_Op e = OpRename \<and> \<not> ValidatePath (ed_OldPath e) then False
     else if ed_Op e \<notin> {OpAdd, OpModify, OpDelete, OpRename} then False
     else if \<not> validLanguage (ed_Lang e) then False
     else (let hasBefore = (Hex (ed_BeforeDigest e) \<noteq> []); hasAfter = (Hex (ed_AfterDigest e) \<noteq> [])
           in if ed_Op e = OpAdd \<and> (hasBefore \<or> \<not> hasAfter) then False
              else if ed_Op e = OpDelete \<and> (\<not> hasBefore \<or> hasAfter) then False
              else if ed_Op e \<in> {OpModify, OpRename} \<and> (\<not> hasBefore \<or> \<not> hasAfter) then False
              else if hasBefore \<and> \<not> validDigest (ed_BeforeDigest e) then False
              else if hasAfter \<and> \<not> validDigest (ed_AfterDigest e) then False
              else if ed_Op e = OpDelete then ed_NewContent e = []
              else DigestBytes sha (ed_NewContent e) = ed_AfterDigest e))"

definition preimage :: "Edit \<Rightarrow> string" where
  "preimage e = (if ed_Op e = OpRename then ed_OldPath e else ed_Path e)"

fun validate_loop :: "(string \<Rightarrow> string) \<Rightarrow> string set \<Rightarrow> string set \<Rightarrow> Edit list \<Rightarrow> bool" where
  "validate_loop sha post pre [] = True"
| "validate_loop sha post pre (e # es) =
    (if \<not> ValidateEdit sha e then False
     else if ed_Path e \<in> post then False
     else if ed_Op e = OpAdd then validate_loop sha (insert (ed_Path e) post) pre es
     else if preimage e \<in> pre then False
     else validate_loop sha (insert (ed_Path e) post) (insert (preimage e) pre) es)"

definition Validate :: "(string \<Rightarrow> string) \<Rightarrow> Edit list \<Rightarrow> bool" where
  "Validate sha edits =
    (if edits = [] \<or> length edits > MaxEdits then False else validate_loop sha {} {} edits)"


section \<open>Paths\<close>

lemma validate_path_clean: "ValidatePath v \<Longrightarrow> clean_names (path_components v)"
  using clean_components[of v] by (auto simp: ValidatePath_def path_components_def list_all_iff)

text \<open>The checks for an absolute and for a normalised path follow from the check of
  the segments.\<close>

lemma validate_path_iff:
  "ValidatePath v \<longleftrightarrow> clean_names (path_components v) \<and> length v \<le> MaxPathBytes \<and> valid_utf8 v
    \<and> CHR 0x5C \<notin> set v \<and> list_all (\<lambda>(r, bs). 0x20 \<le> r \<and> r \<noteq> 0x7F) (runes_of v)"
proof (cases "clean_names (path_components v)")
  case True
  then have "list_all (\<lambda>s. \<not> (s = [] \<or> s = ''.'' \<or> s = ''..'')) (split_on CHR ''/'' v)"
    by (auto simp: clean_names_def path_components_def list_all_iff)
  with True path_clean_id[OF True] show ?thesis by (auto simp: ValidatePath_def not_less list_all_iff)
next
  case False
  with validate_path_clean show ?thesis by blast
qed


section \<open>Edit sets\<close>

lemma validate_loop_iff:
  "validate_loop sha post pre es \<longleftrightarrow>
    list_all (ValidateEdit sha) es
    \<and> distinct (map ed_Path es) \<and> set (map ed_Path es) \<inter> post = {}
    \<and> distinct (map preimage (filter (\<lambda>e. ed_Op e \<noteq> OpAdd) es))
    \<and> set (map preimage (filter (\<lambda>e. ed_Op e \<noteq> OpAdd) es)) \<inter> pre = {}"
  by (induction sha post pre es rule: validate_loop.induct) auto

text \<open>The edit-set validation is exactly its specification: an edit set is
  accepted iff it has between one and 64 edits, each edit is valid on its own, no
  two edits write the same path and no two edits consume the same existing file.\<close>

theorem validate_edit_set_iff:
  "Validate sha es = (1 \<le> length es \<and> length es \<le> MaxEdits \<and> list_all (ValidateEdit sha) es
    \<and> distinct (map ed_Path es) \<and> distinct (map preimage (filter (\<lambda>e. ed_Op e \<noteq> OpAdd) es)))"
  by (auto simp: Validate_def validate_loop_iff Suc_le_eq)

lemma valid_edit_paths:
  assumes "ValidateEdit sha e"
  shows "ValidatePath (ed_Path e)" "ed_Op e \<noteq> OpAdd \<Longrightarrow> ValidatePath (preimage e)"
    "ed_Op e \<in> {OpAdd, OpModify, OpDelete, OpRename}" "ed_Op e = OpRename \<Longrightarrow> preimage e \<noteq> ed_Path e"
  using assms by (auto simp: ValidateEdit_def preimage_def split: if_splits)

lemma valid_edit_content:
  assumes "ValidateEdit sha e" "ed_Op e \<noteq> OpDelete"
  shows "sha (ed_NewContent e) = Hex (ed_AfterDigest e)"
proof -
  have "DigestBytes sha (ed_NewContent e) = ed_AfterDigest e"
    using assms by (simp add: ValidateEdit_def Let_def split: if_split_asm)
  from arg_cong[OF this, of Hex] show ?thesis by (simp add: DigestBytes_def)
qed

text \<open>C38.  An accepted edit set stays inside the repository and carries what it
  declares: every path it reads or writes is a relative path of plain names (no
  empty, dot or dot-dot segment between slashes, no backslash, no control character,
  valid UTF-8, at most 4096 bytes), and the content of every file it writes has the declared digest.\<close>

theorem accepted_edits_are_confined:
  assumes "Validate sha es" "e \<in> set es" "v = ed_Path e \<or> ed_Op e \<noteq> OpAdd \<and> v = preimage e"
  shows "(\<forall>seg \<in> set (split_on CHR ''/'' v). seg \<noteq> [] \<and> seg \<noteq> ''.'' \<and> seg \<noteq> ''..'')
    \<and> CHR 0x5C \<notin> set v \<and> (\<forall>(r, bs) \<in> set (runes_of v). 0x20 \<le> r \<and> r \<noteq> 0x7F) \<and> valid_utf8 v \<and> length v \<le> MaxPathBytes
    \<and> (ed_Op e = OpDelete \<or> sha (ed_NewContent e) = Hex (ed_AfterDigest e))"
proof -
  have e: "ValidateEdit sha e"
    using assms by (auto simp: Validate_def validate_loop_iff list_all_iff split: if_splits)
  then have v: "ValidatePath v" using valid_edit_paths(1,2)[OF e] assms(3) by blast
  then have "list_all (\<lambda>s. s \<noteq> [] \<and> s \<noteq> ''.'' \<and> s \<noteq> ''..'') (split_on CHR ''/'' v)" by (simp add: ValidatePath_def)
  then show ?thesis
    using v valid_edit_content[OF e] unfolding validate_path_iff by (auto simp: list_all_iff)
qed

definition sample_edit :: Edit where
  "sample_edit = \<lparr>ed_Path = ''a/b.go'', ed_OldPath = [], ed_Op = OpAdd, ed_Lang = ''go'',
     ed_BeforeDigest = zero_digest, ed_AfterDigest = \<lparr>Algorithm = ''sha256'', Hex = replicate 64 CHR ''0''\<rparr>,
     ed_NewContent = ''x''\<rparr>"

lemma sample_edit_valid: "Validate (\<lambda>_. replicate 64 CHR ''0'') [sample_edit]"
proof -
  have "list_all (\<lambda>c. byte c < 0x80) ''a/b.go''" by (simp add: byte_def)
  then have "runes_of ''a/b.go'' = map (\<lambda>c. (byte c, [c])) ''a/b.go''"
    by (simp add: runes_of_ascii_Cons byte_def del: runes_of.simps(2))
  then have "ValidatePath ''a/b.go''"
    by (simp add: ValidatePath_def MaxPathBytes_def valid_utf8_def is_abs_path_def has_prefix_def
        path_clean_def clean_stack_def path_components_def byte_def)
  moreover have "list_all lower_hex (replicate 64 CHR ''0'')" by (simp add: list_all_iff lower_hex_def)
  ultimately show ?thesis
    by (simp add: Validate_def MaxEdits_def ValidateEdit_def sample_edit_def op_defs validLanguage_def
        zero_digest_def validDigest_iff DigestBytes_def)
qed

theorem accepted_edits_are_confined_witness:
  "Validate (\<lambda>_. replicate 64 CHR ''0'') [sample_edit] \<and> ''..'' \<notin> set (split_on CHR ''/'' (ed_Path sample_edit))
    \<and> CHR 0x5C \<notin> set (ed_Path sample_edit) \<and> replicate 64 CHR ''0'' = Hex (ed_AfterDigest sample_edit)"
proof -
  have "ed_Op sample_edit \<noteq> OpDelete" by (simp add: sample_edit_def op_defs)
  then show ?thesis
    using accepted_edits_are_confined[OF sample_edit_valid, of sample_edit "ed_Path sample_edit"] sample_edit_valid
    by auto
qed

end
