(* ===== verification/Effect_Broker.thy ===== *)
theory Effect_Broker
  imports Candidate_Edits
begin

text \<open>
  The effect broker (\<^verbatim>\<open>broker/internal/factory/effects/effects.go\<close>): grant
  validation, the current-policy check of one effect and its idempotent execution.
  The clock, the fence registry and the policy are the environment \<open>benv\<close> of one
  check; SHA-256 is the argument \<open>sha\<close>.

  \<open>Execute\<close> is the sequential reading of the method.  Its interleavings are the
  step relation \<open>bstep\<close>: the two critical sections under the broker's lock
  (claiming the key, recording the receipt) are atomic, authorization and the
  mutation run outside it, and any number of calls overlap.
\<close>

section \<open>Data\<close>

record Lease =
  ls_LeaseID :: Identifier
  ls_Holder :: Identifier
  ls_Fence :: "64 word"
  ls_ExpiresAt :: "go_time option"

record LeafGrant =
  lg_GrantID :: Identifier
  lg_Initiator :: Identifier
  lg_Tenant :: Identifier
  lg_TaskID :: Identifier
  lg_RunID :: Identifier
  lg_Lease :: Lease
  lg_Actions :: "string list"
  lg_Resources :: "Identifier list"
  lg_RepositoryGitOID :: string
  lg_AllowedPaths :: "string list"
  lg_Nonce :: string
  lg_RevocationEpoch :: "64 word"
  lg_ExpiresAt :: "go_time option"
  lg_PolicyDigest :: Digest
  lg_CommandFence :: "64 word"

record Scope =
  sc_OwnedPaths :: "string list"
  sc_ForbiddenPaths :: "string list"
  sc_BaseGitOID :: string

record Leaf =
  lf_Identity :: MappedIdentityFact
  lf_Grant :: LeafGrant
  lf_Scope :: Scope

record EffectRequest =
  rq_Action :: string
  rq_Path :: string
  rq_Resource :: Identifier
  rq_IdempotencyKey :: string
  rq_Now :: "go_time option"

datatype denial =
    IdentityMismatch | GrantMalformed | BaseMismatch | EscapePathScope | EscapeForbiddenPath
  | EscapePathShape | EscapeDispatch | EscapeEffectKind | StaleLease | StaleFence | StaleEpoch
  | PolicyDenied | IdempotencyConflict

fun reason :: "denial \<Rightarrow> string" where
  "reason IdentityMismatch = ''identity_mismatch''"
| "reason GrantMalformed = ''grant_malformed''"
| "reason BaseMismatch = ''base_mismatch''"
| "reason EscapePathScope = ''escape_path_scope''"
| "reason EscapeForbiddenPath = ''escape_forbidden_path''"
| "reason EscapePathShape = ''escape_path_shape''"
| "reason EscapeDispatch = ''escape_dispatch''"
| "reason EscapeEffectKind = ''escape_effect_kind''"
| "reason StaleLease = ''stale_lease''"
| "reason StaleFence = ''stale_fence''"
| "reason StaleEpoch = ''stale_epoch''"
| "reason PolicyDenied = ''policy_denied''"
| "reason IdempotencyConflict = ''idempotency_conflict''"

definition IsEscape :: "denial \<Rightarrow> bool" where
  "IsEscape d = has_prefix (reason d) ''escape_''"

definition ActionFileRead :: string where "ActionFileRead = ''file.read''"
definition ActionFileWrite :: string where "ActionFileWrite = ''file.write''"
definition ActionDispatch :: string where "ActionDispatch = ''factory.dispatch''"
definition ActionTaskCreate :: string where "ActionTaskCreate = ''factory.task.create''"

lemmas action_defs = ActionFileRead_def ActionFileWrite_def ActionDispatch_def ActionTaskCreate_def


section \<open>Authorization\<close>

definition lower_alnum :: "nat \<Rightarrow> bool" where
  "lower_alnum r \<longleftrightarrow> 97 \<le> r \<and> r \<le> 122 \<or> 48 \<le> r \<and> r \<le> 57"

definition validAction :: "string \<Rightarrow> bool" where
  "validAction a \<longleftrightarrow>
    \<not> (a = [] \<or> length a > 128 \<or> str_contains a ''*'')
    \<and> list_all (\<lambda>(r, bs). lower_alnum r \<or> r \<in> {46, 95, 58, 45}) (runes_of a)
    \<and> 97 \<le> byte (hd a) \<and> byte (hd a) \<le> 122"

definition validGitOID :: "string \<Rightarrow> bool" where
  "validGitOID v \<longleftrightarrow> (length v = 40 \<or> length v = 64)
    \<and> list_all (\<lambda>(r, bs). 48 \<le> r \<and> r \<le> 57 \<or> 97 \<le> r \<and> r \<le> 102) (runes_of v)"

definition expired :: "go_time \<Rightarrow> go_time option \<Rightarrow> bool" where
  "expired now t = (case t of None \<Rightarrow> True | Some e \<Rightarrow> \<not> now < e)"

definition ValidateLeafGrant :: "LeafGrant \<Rightarrow> go_time \<Rightarrow> denial option" where
  "ValidateLeafGrant g now =
    (if Namespace (lg_GrantID g) \<noteq> ''grant'' \<or> IdValue (lg_GrantID g) = []
        \<or> Namespace (lg_Initiator g) \<noteq> ''principal'' \<or> IdValue (lg_Initiator g) = []
        \<or> Namespace (lg_Tenant g) \<noteq> ''tenant'' \<or> IdValue (lg_Tenant g) = []
        \<or> lg_Nonce g = [] \<or> lg_CommandFence g = 0 \<or> expired now (lg_ExpiresAt g)
        \<or> Algorithm (lg_PolicyDigest g) \<noteq> ''sha256'' \<or> length (Hex (lg_PolicyDigest g)) \<noteq> 64
        \<or> lg_Actions g = [] \<or> lg_Resources g = []
     then Some GrantMalformed
     else if Namespace (ls_LeaseID (lg_Lease g)) \<noteq> ''lease'' \<or> IdValue (ls_LeaseID (lg_Lease g)) = []
        \<or> ls_Holder (lg_Lease g) \<noteq> lg_Initiator g \<or> ls_Fence (lg_Lease g) = 0
        \<or> expired now (ls_ExpiresAt (lg_Lease g))
     then Some GrantMalformed
     else if \<not> validGitOID (lg_RepositoryGitOID g) then Some GrantMalformed
     else if \<not> list_all (\<lambda>a. \<not> (\<not> validAction a \<or> a = ActionDispatch \<or> a = ActionTaskCreate)) (lg_Actions g)
     then Some GrantMalformed
     else if \<not> distinct (lg_Actions g) then Some GrantMalformed
     else if \<not> list_all (\<lambda>r. \<not> (Namespace r = [] \<or> IdValue r = [] \<or> str_contains (IdValue r) ''*'')) (lg_Resources g)
     then Some GrantMalformed
     else if \<not> list_all ValidatePath (lg_AllowedPaths g) then Some GrantMalformed
     else None)"

definition withinAny :: "string \<Rightarrow> string list \<Rightarrow> bool" where
  "withinAny v ps = list_ex (\<lambda>p. v = p \<or> has_prefix v (p @ ''/'')) ps"

definition authorizePath :: "Leaf \<Rightarrow> string \<Rightarrow> denial option" where
  "authorizePath leaf p =
    (if \<not> ValidatePath p \<or> is_abs_path p then Some EscapePathShape
     else if withinAny p (sc_ForbiddenPaths (lf_Scope leaf)) then Some EscapeForbiddenPath
     else if \<not> withinAny p (sc_OwnedPaths (lf_Scope leaf)) \<or> \<not> withinAny p (lg_AllowedPaths (lf_Grant leaf))
     then Some EscapePathScope
     else None)"

text \<open>One check's environment: the clock (\<open>None\<close> is the zero time), the fence
  registry and the policy port (\<open>None\<close> is an error).\<close>

record benv =
  be_clock :: "go_time option"
  be_fences :: "Identifier \<Rightarrow> (64 word \<times> go_time) option"
  be_policy :: "MappedIdentityFact \<Rightarrow> PolicyRequest \<Rightarrow> PolicyDecision option"

definition authorizeLeaf :: "benv \<Rightarrow> Leaf \<Rightarrow> EffectRequest \<Rightarrow> denial option" where
  "authorizeLeaf env leaf req =
    (case be_clock env of
       None \<Rightarrow> Some GrantMalformed
     | Some now \<Rightarrow>
         if mi_Principal (lf_Identity leaf) \<noteq> lg_Initiator (lf_Grant leaf)
            \<or> mi_Tenant (lf_Identity leaf) \<noteq> lg_Tenant (lf_Grant leaf) then Some IdentityMismatch
         else (case ValidateLeafGrant (lf_Grant leaf) now of
            Some d \<Rightarrow> Some d
          | None \<Rightarrow>
         if sc_BaseGitOID (lf_Scope leaf) \<noteq> lg_RepositoryGitOID (lf_Grant leaf) then Some BaseMismatch
         else if rq_Action req = ActionDispatch \<or> rq_Action req = ActionTaskCreate then Some EscapeDispatch
         else if rq_Action req \<noteq> ActionFileRead \<and> rq_Action req \<noteq> ActionFileWrite then Some EscapeEffectKind
         else if rq_Action req \<notin> set (lg_Actions (lf_Grant leaf)) then Some PolicyDenied
         else (case authorizePath leaf (rq_Path req) of
            Some d \<Rightarrow> Some d
          | None \<Rightarrow>
         (case be_fences env (ls_LeaseID (lg_Lease (lf_Grant leaf))) of
            None \<Rightarrow> Some StaleLease
          | Some (fence, leaseExpiry) \<Rightarrow>
         if \<not> now < leaseExpiry then Some StaleLease
         else if fence \<noteq> ls_Fence (lg_Lease (lf_Grant leaf)) then Some StaleFence
         else (let resource = (if Namespace (rq_Resource req) = [] then hd (lg_Resources (lf_Grant leaf))
                               else rq_Resource req)
               in if resource \<notin> set (lg_Resources (lf_Grant leaf)) then Some PolicyDenied
                  else (case be_policy env (lf_Identity leaf)
                          \<lparr>pr_Action = rq_Action req, pr_Resource = resource,
                           pr_RevocationEpoch = lg_RevocationEpoch (lf_Grant leaf)\<rparr> of
                     None \<Rightarrow> Some PolicyDenied
                   | Some pd \<Rightarrow>
                       if \<not> pd_Allowed pd then Some PolicyDenied
                       else if pd_RevocationEpoch pd \<noteq> lg_RevocationEpoch (lf_Grant leaf) then Some StaleEpoch
                       else None))))))"

definition effect_request :: "string \<Rightarrow> string \<Rightarrow> EffectRequest" where
  "effect_request action p = \<lparr>rq_Action = action, rq_Path = p, rq_Resource = zero_id, rq_IdempotencyKey = [], rq_Now = None\<rparr>"

definition AuthorizeMutation :: "benv \<Rightarrow> benv \<Rightarrow> Leaf \<Rightarrow> Edit \<Rightarrow> denial option" where
  "AuthorizeMutation env env' leaf edit =
    (case authorizeLeaf env leaf (effect_request ActionFileWrite (ed_Path edit)) of
       Some d \<Rightarrow> Some d
     | None \<Rightarrow>
         if ed_Op edit = OpRename
         then authorizeLeaf env' leaf (effect_request ActionFileWrite (ed_OldPath edit))
         else None)"


section \<open>Execution\<close>

record executedEffect =
  ee_requestDigest :: Digest
  ee_receipt :: Receipt

type_synonym broker = "string \<rightharpoonup> executedEffect"

definition requestDigest :: "(string \<Rightarrow> string) \<Rightarrow> Leaf \<Rightarrow> EffectRequest \<Rightarrow> Digest" where
  "requestDigest sha leaf req = DigestBytes sha (nul_join
     [''ouroboros.stage05.effect-request.v1'', IdValue (lg_GrantID (lf_Grant leaf)), rq_Action req, rq_Path req,
      Namespace (rq_Resource req), IdValue (rq_Resource req), rq_IdempotencyKey req])"

definition effect_key :: "Leaf \<Rightarrow> EffectRequest \<Rightarrow> string" where
  "effect_key leaf req = nul_join
     [IdValue (lg_Tenant (lf_Grant leaf)), IdValue (lg_GrantID (lf_Grant leaf)), rq_IdempotencyKey req]"

definition rejected :: "EffectRequest \<Rightarrow> string \<Rightarrow> Receipt" where
  "rejected req code = \<lparr>OperationID = \<lparr>Namespace = ''effect'', IdValue = rq_IdempotencyKey req\<rparr>,
     Status = ''rejected'', ReasonCode = code, Watermark = 0\<rparr>"

definition completed :: "EffectRequest \<Rightarrow> Receipt" where
  "completed req = (rejected req ''allowed'')\<lparr>Status := ''completed''\<rparr>"

text \<open>The first critical section: what was recorded, and the broker with the key
  claimed.\<close>

definition claim :: "string \<Rightarrow> Digest \<Rightarrow> broker \<Rightarrow> executedEffect option \<times> broker" where
  "claim key d b =
    (case b key of
       Some r \<Rightarrow> (Some r, b)
     | None \<Rightarrow> (None, b(key \<mapsto> \<lparr>ee_requestDigest = d, ee_receipt = zero_receipt\<rparr>)))"

text \<open>The answer to a call that found the key recorded.\<close>

definition replay :: "EffectRequest \<Rightarrow> Digest \<Rightarrow> executedEffect \<Rightarrow> Receipt \<times> denial option" where
  "replay req d r =
    (if ee_requestDigest r \<noteq> d \<or> Status (ee_receipt r) = []
     then (rejected req (reason IdempotencyConflict), Some IdempotencyConflict)
     else (ee_receipt r, None))"

definition record_done :: "string \<Rightarrow> Digest \<Rightarrow> EffectRequest \<Rightarrow> broker \<Rightarrow> broker" where
  "record_done key d req b = b(key \<mapsto> \<lparr>ee_requestDigest = d, ee_receipt = completed req\<rparr>)"

datatype effect_error = Denied denial | MutationFailed string

text \<open>The whole call when no other call interferes; \<open>mutation\<close> is the error of the
  mutation, if any, and the last component says whether it ran.\<close>

definition Execute :: "(string \<Rightarrow> string) \<Rightarrow> benv \<Rightarrow> Leaf \<Rightarrow> EffectRequest \<Rightarrow> string option \<Rightarrow> broker
    \<Rightarrow> (Receipt \<times> effect_error option) \<times> broker \<times> bool" where
  "Execute sha env leaf req mutation b =
    (if rq_IdempotencyKey req = [] then ((rejected req (reason PolicyDenied), Some (Denied PolicyDenied)), b, False)
     else (case authorizeLeaf env leaf req of
             Some d \<Rightarrow> ((rejected req (reason d), Some (Denied d)), b, False)
           | None \<Rightarrow>
               (let d = requestDigest sha leaf req; key = effect_key leaf req; (found, b') = claim key d b
                in case found of
                     Some r \<Rightarrow> (map_prod (\<lambda>x. x) (map_option Denied) (replay req d r), b', False)
                   | None \<Rightarrow>
                       (case mutation of
                          Some e \<Rightarrow> ((rejected req (reason PolicyDenied), Some (MutationFailed e)), b', True)
                        | None \<Rightarrow> ((completed req, None), record_done key d req b', True)))))"


section \<open>Overlapping calls\<close>

datatype phase = Start | Authorized | Claimed | Mutated | Finished Receipt "effect_error option"

text \<open>The log of mutations is a ghost: the keys in the order in which mutations ran.\<close>

record bstate =
  bs_broker :: broker
  bs_phase :: "nat \<Rightarrow> phase"
  bs_log :: "(string \<times> nat) list"

definition binit :: bstate where
  "binit = \<lparr>bs_broker = Map.empty, bs_phase = (\<lambda>_. Start), bs_log = []\<rparr>"

definition set_phase :: "nat \<Rightarrow> phase \<Rightarrow> bstate \<Rightarrow> bstate" where
  "set_phase i p s = s\<lparr>bs_phase := (bs_phase s)(i := p)\<rparr>"

inductive bstep :: "(string \<Rightarrow> string) \<Rightarrow> (nat \<Rightarrow> Leaf \<times> EffectRequest) \<Rightarrow> bstate \<Rightarrow> bstate \<Rightarrow> bool"
  for sha calls where
  no_key: "bs_phase s i = Start \<Longrightarrow> calls i = (leaf, req) \<Longrightarrow> rq_IdempotencyKey req = [] \<Longrightarrow>
    bstep sha calls s (set_phase i (Finished (rejected req (reason PolicyDenied)) (Some (Denied PolicyDenied))) s)"
| denied: "bs_phase s i = Start \<Longrightarrow> calls i = (leaf, req) \<Longrightarrow> authorizeLeaf env leaf req = Some d \<Longrightarrow>
    bstep sha calls s (set_phase i (Finished (rejected req (reason d)) (Some (Denied d))) s)"
| authorized: "bs_phase s i = Start \<Longrightarrow> calls i = (leaf, req) \<Longrightarrow> rq_IdempotencyKey req \<noteq> [] \<Longrightarrow>
    authorizeLeaf env leaf req = None \<Longrightarrow> bstep sha calls s (set_phase i Authorized s)"
| found: "bs_phase s i = Authorized \<Longrightarrow> calls i = (leaf, req) \<Longrightarrow>
    claim (effect_key leaf req) (requestDigest sha leaf req) (bs_broker s) = (Some r, b) \<Longrightarrow>
    replay req (requestDigest sha leaf req) r = (rc, d) \<Longrightarrow>
    bstep sha calls s (set_phase i (Finished rc (map_option Denied d)) (s\<lparr>bs_broker := b\<rparr>))"
| claimed: "bs_phase s i = Authorized \<Longrightarrow> calls i = (leaf, req) \<Longrightarrow>
    claim (effect_key leaf req) (requestDigest sha leaf req) (bs_broker s) = (None, b) \<Longrightarrow>
    bstep sha calls s (set_phase i Claimed (s\<lparr>bs_broker := b\<rparr>))"
| mutated: "bs_phase s i = Claimed \<Longrightarrow> calls i = (leaf, req) \<Longrightarrow>
    bstep sha calls s (set_phase i Mutated (s\<lparr>bs_log := (effect_key leaf req, i) # bs_log s\<rparr>))"
| failed: "bs_phase s i = Claimed \<Longrightarrow> calls i = (leaf, req) \<Longrightarrow>
    bstep sha calls s (set_phase i (Finished (rejected req (reason PolicyDenied)) (Some (MutationFailed e)))
      (s\<lparr>bs_log := (effect_key leaf req, i) # bs_log s\<rparr>))"
| recorded: "bs_phase s i = Mutated \<Longrightarrow> calls i = (leaf, req) \<Longrightarrow>
    bstep sha calls s (set_phase i (Finished (completed req) None)
      (s\<lparr>bs_broker := record_done (effect_key leaf req) (requestDigest sha leaf req) req (bs_broker s)\<rparr>))"

definition breach :: "(string \<Rightarrow> string) \<Rightarrow> (nat \<Rightarrow> Leaf \<times> EffectRequest) \<Rightarrow> bstate \<Rightarrow> bool" where
  "breach sha calls s \<longleftrightarrow> (bstep sha calls)\<^sup>*\<^sup>* binit s"

definition key_of :: "(nat \<Rightarrow> Leaf \<times> EffectRequest) \<Rightarrow> nat \<Rightarrow> string" where
  "key_of calls i = effect_key (fst (calls i)) (snd (calls i))"

definition ran :: "bstate \<Rightarrow> string \<Rightarrow> bool" where
  "ran s k \<longleftrightarrow> k \<in> fst ` set (bs_log s)"

definition binv :: "(nat \<Rightarrow> Leaf \<times> EffectRequest) \<Rightarrow> bstate \<Rightarrow> bool" where
  "binv calls s \<longleftrightarrow>
    distinct (map fst (bs_log s))
    \<and> (\<forall>k i. (k, i) \<in> set (bs_log s) \<longrightarrow> k = key_of calls i)
    \<and> (\<forall>k. ran s k \<longrightarrow> bs_broker s k \<noteq> None)
    \<and> (\<forall>i. bs_phase s i \<in> {Claimed, Mutated} \<longrightarrow> bs_broker s (key_of calls i) \<noteq> None)
    \<and> (\<forall>i. bs_phase s i = Claimed \<longrightarrow> \<not> ran s (key_of calls i))
    \<and> (\<forall>i. bs_phase s i = Mutated \<longrightarrow> ran s (key_of calls i))
    \<and> (\<forall>i j. bs_phase s i \<in> {Claimed, Mutated} \<and> bs_phase s j \<in> {Claimed, Mutated}
        \<and> key_of calls i = key_of calls j \<longrightarrow> i = j)
    \<and> (\<forall>k e. bs_broker s k = Some e \<and> Status (ee_receipt e) \<noteq> [] \<longrightarrow> ran s k \<and> Status (ee_receipt e) = ''completed'')
    \<and> (\<forall>i r. bs_phase s i = Finished r None \<longrightarrow> ran s (key_of calls i) \<and> Status r = ''completed'')"

lemma binv_init: "binv calls binit"
  by (simp add: binv_def binit_def ran_def)

lemma claim_None: "claim k d b = (None, b') \<longleftrightarrow> b k = None \<and> b' = b(k \<mapsto> \<lparr>ee_requestDigest = d, ee_receipt = zero_receipt\<rparr>)"
  by (auto simp: claim_def split: option.splits)

lemma claim_Some: "claim k d b = (Some r, b') \<longleftrightarrow> b k = Some r \<and> b' = b"
  by (auto simp: claim_def split: option.splits)

lemma ran_simps [simp]:
  "ran (set_phase i p s) k = ran s k" "ran (s\<lparr>bs_broker := b\<rparr>) k = ran s k"
  "ran (s\<lparr>bs_log := (k', i) # bs_log s\<rparr>) k = (k = k' \<or> ran s k)"
  "bs_broker (set_phase i p s) = bs_broker s" "bs_log (set_phase i p s) = bs_log s"
  "bs_phase (set_phase i p s) j = (if j = i then p else bs_phase s j)"
  by (auto simp: ran_def set_phase_def)

lemma binv_step: "bstep sha calls s s' \<Longrightarrow> binv calls s \<Longrightarrow> binv calls s'"
proof (induction rule: bstep.induct)
  case (found s i leaf req r b rc d)
  have "b = bs_broker s" "bs_broker s (key_of calls i) = Some r"
    using found(2,3) by (auto simp: claim_Some key_of_def)
  moreover have "Status (ee_receipt r) \<noteq> [] \<and> rc = ee_receipt r" if "d = None"
    using found(4) that by (auto simp: replay_def split: if_splits)
  ultimately show ?case using found(5) by (auto simp: binv_def)
next
  case (claimed s i leaf req b)
  have k: "key_of calls i = effect_key leaf req" using claimed(2) by (simp add: key_of_def)
  have b: "bs_broker s (key_of calls i) = None" "b = (bs_broker s)(key_of calls i \<mapsto>
      \<lparr>ee_requestDigest = requestDigest sha leaf req, ee_receipt = zero_receipt\<rparr>)"
    using claimed(3) by (simp_all add: claim_None k)
  have nr: "\<not> ran s (key_of calls i)" using claimed(4) b(1) by (auto simp: binv_def)
  have "key_of calls j \<noteq> key_of calls i" if "bs_phase s j \<in> {Claimed, Mutated}" for j
    using claimed(4) b(1) that by (auto simp: binv_def)
  then have held: "i = j" if "bs_phase s j \<in> {Claimed, Mutated} \<or> i = j" "key_of calls i = key_of calls j" for j
    using that by metis
  show ?case
    unfolding binv_def b(2)
    apply (intro conjI)
    subgoal using claimed(4) by (simp add: binv_def)
    subgoal using claimed(4) by (simp add: binv_def)
    subgoal using claimed(4) by (simp add: binv_def)
    subgoal using claimed(4) by (simp add: binv_def)
    subgoal using claimed(4) nr by (simp add: binv_def)
    subgoal using claimed(4) by (simp add: binv_def)
    subgoal using claimed(4) held by (simp add: binv_def) metis
    subgoal using claimed(4) by (auto simp: binv_def zero_receipt_def)
    subgoal using claimed(4) by (simp add: binv_def)
    done
next
  case (mutated s i leaf req)
  have k: "effect_key leaf req = key_of calls i" using mutated(2) by (simp add: key_of_def)
  have "key_of calls i \<notin> fst ` set (bs_log s)"
    using mutated(1,3) by (auto simp: binv_def simp flip: ran_def)
  with mutated(1,3) show ?case by (auto simp: binv_def k)
next
  case (failed s i leaf req e)
  have k: "effect_key leaf req = key_of calls i" using failed(2) by (simp add: key_of_def)
  have "key_of calls i \<notin> fst ` set (bs_log s)"
    using failed(1,3) by (auto simp: binv_def simp flip: ran_def)
  with failed(1,3) show ?case by (auto simp: binv_def k)
next
  case (recorded s i leaf req)
  have "key_of calls i = effect_key leaf req" using recorded(2) by (simp add: key_of_def)
  with recorded show ?case by (auto simp: binv_def record_done_def completed_def)
qed (auto simp: binv_def)

lemma breach_inv: "breach sha calls s \<Longrightarrow> binv calls s"
  unfolding breach_def by (induction rule: rtranclp_induct) (auto simp: binv_init binv_step)


section \<open>Properties\<close>

text \<open>C2.  Every effect runs at most once, whatever the interleaving: for any number
  of overlapping calls, with policies, fences and clocks changing between them,
  each idempotency key (within its tenant and grant) has at most one execution of
  a mutation, an execution belongs to a call with that key, and a call reports
  success only if the mutation for its key has run.\<close>

theorem effect_runs_at_most_once:
  assumes "breach sha calls s"
  shows "distinct (map fst (bs_log s)) \<and> (\<forall>(k, i) \<in> set (bs_log s). k = key_of calls i)
    \<and> (\<forall>i r. bs_phase s i = Finished r None \<longrightarrow> Status r = ''completed'' \<and> key_of calls i \<in> fst ` set (bs_log s))"
  using breach_inv[OF assms] by (auto simp: binv_def ran_def)

definition grant0 :: LeafGrant where
  "grant0 = \<lparr>lg_GrantID = \<lparr>Namespace = ''grant'', IdValue = ''g''\<rparr>,
     lg_Initiator = \<lparr>Namespace = ''principal'', IdValue = ''p''\<rparr>, lg_Tenant = \<lparr>Namespace = ''tenant'', IdValue = ''t''\<rparr>,
     lg_TaskID = zero_id, lg_RunID = zero_id,
     lg_Lease = \<lparr>ls_LeaseID = \<lparr>Namespace = ''lease'', IdValue = ''l''\<rparr>,
       ls_Holder = \<lparr>Namespace = ''principal'', IdValue = ''p''\<rparr>, ls_Fence = 3, ls_ExpiresAt = Some 100\<rparr>,
     lg_Actions = [ActionFileWrite], lg_Resources = [\<lparr>Namespace = ''repo'', IdValue = ''r''\<rparr>],
     lg_RepositoryGitOID = replicate 40 CHR ''a'', lg_AllowedPaths = [''src''], lg_Nonce = ''n'',
     lg_RevocationEpoch = 2, lg_ExpiresAt = Some 100,
     lg_PolicyDigest = \<lparr>Algorithm = ''sha256'', Hex = replicate 64 CHR ''0''\<rparr>, lg_CommandFence = 1\<rparr>"

definition leaf0 :: Leaf where
  "leaf0 = \<lparr>lf_Identity = \<lparr>mi_Principal = \<lparr>Namespace = ''principal'', IdValue = ''p''\<rparr>,
       mi_Tenant = \<lparr>Namespace = ''tenant'', IdValue = ''t''\<rparr>, mi_Session = zero_id, mi_Credentials = zero_credentials\<rparr>,
     lf_Grant = grant0,
     lf_Scope = \<lparr>sc_OwnedPaths = [''src''], sc_ForbiddenPaths = [''src/x''], sc_BaseGitOID = replicate 40 CHR ''a''\<rparr>\<rparr>"

definition request0 :: EffectRequest where
  "request0 = \<lparr>rq_Action = ActionFileWrite, rq_Path = ''src/a'', rq_Resource = zero_id, rq_IdempotencyKey = ''k'',
     rq_Now = None\<rparr>"

definition env0 :: benv where
  "env0 = \<lparr>be_clock = Some 5, be_fences = (\<lambda>_. Some (3, 100)),
     be_policy = (\<lambda>_ _. Some \<lparr>pd_Allowed = True, pd_Receipt = zero_receipt, pd_RevocationEpoch = 2\<rparr>)\<rparr>"

lemma ascii_path: "list_all (\<lambda>c. 0x20 \<le> byte c \<and> byte c < 0x7F) v \<Longrightarrow>
    valid_utf8 v \<and> list_all (\<lambda>(r, bs). 0x20 \<le> r \<and> r \<noteq> 0x7F) (runes_of v)"
  by (induction v) (auto simp: valid_utf8_def runes_of_ascii_Cons simp del: runes_of.simps(2))

lemma runes_replicate: "byte c < 0x80 \<Longrightarrow> runes_of (replicate n c) = replicate n (byte c, [c])"
  by (induction n) (simp_all add: runes_of_ascii_Cons del: runes_of.simps(2))

lemma authorized0: "authorizeLeaf env0 leaf0 request0 = None"
proof -
  have p: "ValidatePath ''src''" "ValidatePath ''src/a''"
    using ascii_path[of "''src''"] ascii_path[of "''src/a''"]
    by (simp_all add: validate_path_iff clean_names_def path_components_def MaxPathBytes_def byte_def)
  have oid: "validGitOID (replicate 40 CHR ''a'')"
    using runes_replicate[of "CHR ''a''" 40] by (simp add: validGitOID_def byte_def list_all_iff)
  have act: "validAction ''file.write''"
    by (simp add: validAction_def runes_of_ascii_Cons byte_def has_prefix_def lower_alnum_def del: runes_of.simps(2))
  show ?thesis
    using p oid act
    by (simp add: authorizeLeaf_def env0_def leaf0_def grant0_def request0_def ValidateLeafGrant_def expired_def
        action_defs has_prefix_def authorizePath_def withinAny_def is_abs_path_def zero_id_def)
qed

theorem effect_runs_at_most_once_witness:
  "\<exists>s. breach (\<lambda>x. x) (\<lambda>_. (leaf0, request0)) s \<and> bs_phase s 0 = Mutated \<and> bs_phase s 1 = Authorized
    \<and> distinct (map fst (bs_log s))"
proof -
  let ?c = "\<lambda>_. (leaf0, request0)" and ?k = "effect_key leaf0 request0"
  let ?s1 = "set_phase 0 Authorized binit" let ?s2 = "set_phase 1 Authorized ?s1"
  let ?b = "(Map.empty :: broker)(?k \<mapsto> \<lparr>ee_requestDigest = requestDigest (\<lambda>x. x) leaf0 request0, ee_receipt = zero_receipt\<rparr>)"
  let ?s3 = "set_phase 0 Claimed (?s2\<lparr>bs_broker := ?b\<rparr>)"
  let ?s4 = "set_phase 0 Mutated (?s3\<lparr>bs_log := (?k, 0) # bs_log ?s3\<rparr>)"
  have key: "rq_IdempotencyKey request0 \<noteq> []" by (simp add: request0_def)
  have start: "bs_phase binit i = Start" "bs_broker binit = Map.empty" for i by (simp_all add: binit_def)
  have s1: "bstep (\<lambda>x. x) ?c binit ?s1" by (rule bstep.authorized[OF start(1) refl key authorized0])
  have s2: "bstep (\<lambda>x. x) ?c ?s1 ?s2"
    by (rule bstep.authorized[OF _ refl key authorized0]) (simp add: start)
  have s3: "bstep (\<lambda>x. x) ?c ?s2 ?s3" by (rule bstep.claimed[OF _ refl]) (simp_all add: claim_None start)
  have s4: "bstep (\<lambda>x. x) ?c ?s3 ?s4" by (rule bstep.mutated[OF _ refl]) simp
  have r: "breach (\<lambda>x. x) ?c ?s4" unfolding breach_def
    by (rule rtranclp.rtrancl_into_rtrancl[OF rtranclp.rtrancl_into_rtrancl[OF
          rtranclp.rtrancl_into_rtrancl[OF r_into_rtranclp[of "bstep (\<lambda>x. x) ?c", OF s1] s2] s3] s4])
  have "bs_phase ?s4 0 = Mutated" "bs_phase ?s4 1 = Authorized" by simp_all
  with r conjunct1[OF effect_runs_at_most_once[OF r]] show ?thesis by blast
qed

text \<open>C33.  Nothing is authorised beyond the grant: when the check of an effect
  passes, the caller is the grant's initiator in its tenant, the grant and its lease
  have not expired by the broker's own clock, the action is a file action of the
  grant (never dispatch or task creation), the path is a clean relative path inside
  the owned scope and the granted paths and outside every forbidden path, the lease
  fence is the registry's current one, and the current policy allows the action on
  a resource of the grant at the grant's revocation epoch.  The time a caller
  supplies plays no role.\<close>

theorem authorized_effect_is_in_scope:
  assumes "authorizeLeaf env leaf req = None"
  shows "let g = lf_Grant leaf; sc = lf_Scope leaf in
    mi_Principal (lf_Identity leaf) = lg_Initiator g \<and> mi_Tenant (lf_Identity leaf) = lg_Tenant g
    \<and> rq_Action req \<in> {ActionFileRead, ActionFileWrite} \<inter> set (lg_Actions g)
    \<and> clean_names (path_components (rq_Path req)) \<and> \<not> withinAny (rq_Path req) (sc_ForbiddenPaths sc)
    \<and> withinAny (rq_Path req) (sc_OwnedPaths sc) \<and> withinAny (rq_Path req) (lg_AllowedPaths g)
    \<and> (\<exists>now fence e pd r. be_clock env = Some now \<and> \<not> expired now (lg_ExpiresAt g)
        \<and> \<not> expired now (ls_ExpiresAt (lg_Lease g))
        \<and> be_fences env (ls_LeaseID (lg_Lease g)) = Some (fence, e) \<and> now < e \<and> fence = ls_Fence (lg_Lease g)
        \<and> r \<in> set (lg_Resources g) \<and> pd_Allowed pd \<and> pd_RevocationEpoch pd = lg_RevocationEpoch g
        \<and> be_policy env (lf_Identity leaf) \<lparr>pr_Action = rq_Action req, pr_Resource = r,
            pr_RevocationEpoch = lg_RevocationEpoch g\<rparr> = Some pd)
    \<and> authorizeLeaf env leaf (req\<lparr>rq_Now := t\<rparr>) = None"
proof -
  obtain now where now: "be_clock env = Some now"
    using assms by (auto simp: authorizeLeaf_def split: option.splits)
  have v: "ValidateLeafGrant (lf_Grant leaf) now = None" and ap: "authorizePath leaf (rq_Path req) = None"
    using assms now by (auto simp: authorizeLeaf_def split: option.split_asm if_split_asm)
  have paths: "clean_names (path_components (rq_Path req))" "\<not> withinAny (rq_Path req) (sc_ForbiddenPaths (lf_Scope leaf))"
    "withinAny (rq_Path req) (sc_OwnedPaths (lf_Scope leaf))" "withinAny (rq_Path req) (lg_AllowedPaths (lf_Grant leaf))"
    using ap validate_path_clean by (auto simp: authorizePath_def split: if_split_asm)
  have ids: "mi_Principal (lf_Identity leaf) = lg_Initiator (lf_Grant leaf)"
    "mi_Tenant (lf_Identity leaf) = lg_Tenant (lf_Grant leaf)"
    "rq_Action req \<in> {ActionFileRead, ActionFileWrite}" "rq_Action req \<in> set (lg_Actions (lf_Grant leaf))"
    using assms now v by (auto simp: authorizeLeaf_def split: if_split_asm)
  have exp: "\<not> expired now (lg_ExpiresAt (lf_Grant leaf))" "\<not> expired now (ls_ExpiresAt (lg_Lease (lf_Grant leaf)))"
    using v by (auto simp: ValidateLeafGrant_def split: if_split_asm)
  have rest: "\<exists>fence e pd r. be_fences env (ls_LeaseID (lg_Lease (lf_Grant leaf))) = Some (fence, e) \<and> now < e
        \<and> fence = ls_Fence (lg_Lease (lf_Grant leaf))
        \<and> r \<in> set (lg_Resources (lf_Grant leaf)) \<and> pd_Allowed pd \<and> pd_RevocationEpoch pd = lg_RevocationEpoch (lf_Grant leaf)
        \<and> be_policy env (lf_Identity leaf) \<lparr>pr_Action = rq_Action req, pr_Resource = r,
            pr_RevocationEpoch = lg_RevocationEpoch (lf_Grant leaf)\<rparr> = Some pd"
    using assms now v ap ids
    by (auto simp: authorizeLeaf_def Let_def split: if_split_asm option.split_asm; blast)
  have same: "rq_Action (req\<lparr>rq_Now := t\<rparr>) = rq_Action req" "rq_Path (req\<lparr>rq_Now := t\<rparr>) = rq_Path req"
    "rq_Resource (req\<lparr>rq_Now := t\<rparr>) = rq_Resource req" by simp_all
  have "authorizeLeaf env leaf (req\<lparr>rq_Now := t\<rparr>) = authorizeLeaf env leaf req"
    unfolding authorizeLeaf_def same by (rule refl)
  with assms have "authorizeLeaf env leaf (req\<lparr>rq_Now := t\<rparr>) = None" by simp
  with now paths ids exp rest show ?thesis unfolding Let_def by blast
qed

theorem authorized_effect_is_in_scope_witness:
  "withinAny (rq_Path request0) (lg_AllowedPaths (lf_Grant leaf0))"
  using authorized_effect_is_in_scope[OF authorized0] by (simp add: Let_def)

text \<open>C34.  A retry returns the original receipt: after a call succeeded, the same
  request, authorised again under whatever the policy then is, gets the same receipt
  without running the mutation and without changing the broker; a different request
  under the same key, or a retry of a call whose mutation failed, is refused as a
  conflict and does not run either.\<close>

theorem effect_replay:
  assumes "b (effect_key leaf req) = None" "rq_IdempotencyKey req \<noteq> []" "authorizeLeaf env leaf req = None"
    and "authorizeLeaf env' leaf' req' = None" "effect_key leaf' req' = effect_key leaf req" "rq_IdempotencyKey req' \<noteq> []"
  shows "let b1 = fst (snd (Execute sha env leaf req m b))
    in Execute sha env' leaf' req' m' b1 =
      (if m = None \<and> requestDigest sha leaf' req' = requestDigest sha leaf req
       then ((completed req, None), b1, False)
       else ((rejected req' (reason IdempotencyConflict), Some (Denied IdempotencyConflict)), b1, False))"
  using assms
  by (cases m) (simp_all add: Execute_def claim_def replay_def record_done_def zero_receipt_def completed_def Let_def)

theorem effect_replay_witness:
  "Execute (\<lambda>x. x) env0 leaf0 request0 None (fst (snd (Execute (\<lambda>x. x) env0 leaf0 request0 None Map.empty)))
    = ((completed request0, None), fst (snd (Execute (\<lambda>x. x) env0 leaf0 request0 None Map.empty)), False)"
  using effect_replay[of Map.empty leaf0 request0 env0 env0 leaf0 request0 "\<lambda>x. x" None None] authorized0
  by (simp add: Let_def request0_def)

end
