(* ===== verification/Handover.thy ===== *)
theory Handover
  imports Contracts
begin

text \<open>
  Handing a running task from one execution realm to another
  (\<^verbatim>\<open>services/broker/internal/handover\<close>): checkpoints and their seal (\<^verbatim>\<open>types.go\<close>),
  the coordinator with its fence, its state machine and its single completion
  (\<^verbatim>\<open>coordinator.go\<close>), and the two realm adapters (\<^verbatim>\<open>executors.go\<close>).

  Every critical section of the coordinator's mutex is one function on its state.
  \<open>ResumeTarget\<close> is the sequential composition of its sections; the step relation
  \<open>hstep\<close> interleaves the sections of any number of overlapping calls.  SHA-256 (as
  hexadecimal text) and the clock are arguments.
\<close>

section \<open>Checkpoints\<close>

datatype handover_error = HDenied | HRejected | HStaleFence | HDuplicate | HIncompatibleRealm | HRevoked
  | HExecutor string

type_synonym RealmKind = string

definition RealmLocal :: RealmKind where "RealmLocal = ''local''"
definition RealmModal :: RealmKind where "RealmModal = ''modal''"

record Checkpoint =
  cp_TaskID :: string
  cp_WorkflowVersion :: string
  cp_BundleDigest :: string
  cp_MailboxCursor :: "64 word"
  cp_CompletedSteps :: "string list"
  cp_CapabilityReqs :: "string list"
  cp_CreatedUnderFence :: "64 word"
  cp_CheckpointDigest :: string
  cp_CreatedAt :: go_time
  cp_Metadata :: "(string, string) gomap"

definition hexUint :: "64 word \<Rightarrow> string" where
  "hexUint v = hex_encode (map (\<lambda>k. unat (drop_bit k v) mod 256) [56, 48, 40, 32, 24, 16, 8, 0])"

definition seal_payload :: "Checkpoint \<Rightarrow> string" where
  "seal_payload c =
    cp_TaskID c @ ''|'' @ cp_WorkflowVersion c @ ''|'' @ cp_BundleDigest c @ ''|''
    @ hexUint (cp_MailboxCursor c) @ ''|'' @ hexUint (cp_CreatedUnderFence c)
    @ concat (map (\<lambda>s. ''|'' @ s) (cp_CompletedSteps c))
    @ concat (map (\<lambda>req. ''|cap:'' @ req) (cp_CapabilityReqs c))
    @ concat (map (\<lambda>k. ''|meta:'' @ k @ ''='' @ mget0 [] (cp_Metadata c) k) (sort (mkeys (cp_Metadata c))))"

definition SealCheckpoint :: "(string \<Rightarrow> string) \<Rightarrow> Checkpoint \<Rightarrow> Checkpoint" where
  "SealCheckpoint sha c = c\<lparr>cp_CheckpointDigest := sha (seal_payload c)\<rparr>"


section \<open>The coordinator\<close>

datatype HandoverState = StateRunningSource | StateQuiescing | StatePrepared | StateFenceAdvanced
  | StateReplaying | StateRunningTarget | StateCompleted | StatePaused | StateCancelled

record CompletionReceipt =
  cr_TaskID :: string
  cr_Fence :: "64 word"
  cr_Realm :: RealmKind
  cr_Attempt :: nat
  cr_ResultDigest :: string
  cr_CommittedAt :: go_time

record CleanupReceipt =
  cl_WorkspacesRemoved :: "string list"
  cl_ModalAppsClosed :: "string list"
  cl_BundlesPurged :: "string list"
  cl_Complete :: bool

record Coordinator =
  co_taskID :: string
  co_fence :: "64 word"
  co_state :: HandoverState
  co_checkpoint :: "Checkpoint option"
  co_completion :: "CompletionReceipt option"
  co_revoked :: bool
  co_cleaning :: bool
  co_targetActive :: bool
  co_allowed :: "(RealmKind, bool) gomap"
  co_attempts :: nat
  co_cleanups :: "CleanupReceipt list"

definition NewCoordinator :: "string \<Rightarrow> Coordinator" where
  "NewCoordinator taskID = \<lparr>co_taskID = taskID, co_fence = 1, co_state = StateRunningSource,
     co_checkpoint = None, co_completion = None, co_revoked = False, co_cleaning = False,
     co_targetActive = False, co_allowed = [(RealmLocal, True), (RealmModal, True)],
     co_attempts = 0, co_cleanups = []\<rparr>"

definition co_Checkpoint :: "(string \<Rightarrow> string) \<Rightarrow> go_time \<Rightarrow> string \<Rightarrow> string list \<Rightarrow> Coordinator
    \<Rightarrow> (handover_error + Checkpoint) \<times> Coordinator" where
  "co_Checkpoint sha now bundleDigest steps c =
    (if co_revoked c then (Inl HRevoked, c)
     else if co_state c \<noteq> StateRunningSource \<and> co_state c \<noteq> StateQuiescing then (Inl HRejected, c)
     else (let cp = SealCheckpoint sha \<lparr>cp_TaskID = co_taskID c, cp_WorkflowVersion = ''wf-1'',
                 cp_BundleDigest = bundleDigest, cp_MailboxCursor = 1, cp_CompletedSteps = steps,
                 cp_CapabilityReqs = [''compute.pure''], cp_CreatedUnderFence = co_fence c,
                 cp_CheckpointDigest = [], cp_CreatedAt = now, cp_Metadata = []\<rparr>
           in (Inr cp, c\<lparr>co_checkpoint := Some cp, co_state := StatePrepared\<rparr>)))"

definition Transfer :: "RealmKind \<Rightarrow> Coordinator \<Rightarrow> handover_error option \<times> Coordinator" where
  "Transfer target c =
    (if co_revoked c then (Some HRevoked, c)
     else if co_state c \<noteq> StatePrepared then (Some HRejected, c)
     else if \<not> mget0 False (co_allowed c) target then (Some HIncompatibleRealm, c)
     else if target \<noteq> RealmModal then (Some HIncompatibleRealm, c)
     else if co_checkpoint c = None then (Some HRejected, c)
     else (None, c\<lparr>co_fence := co_fence c + 1, co_state := StateFenceAdvanced\<rparr>))"

text \<open>The first section of \<^verbatim>\<open>ResumeTarget\<close>: an answer, or the run to start.\<close>

datatype resume_begun =
    Answer "CompletionReceipt option" handover_error
  | Start_run Checkpoint "64 word" nat

definition resume_begin :: "Coordinator \<Rightarrow> resume_begun \<times> Coordinator" where
  "resume_begin c =
    (if co_revoked c then (Answer None HRevoked, c)
     else if co_cleaning c then (Answer None HRejected, c)
     else (case co_completion c of
             Some r \<Rightarrow> (Answer (Some r) HDuplicate, c)
           | None \<Rightarrow>
               if co_state c \<notin> {StateFenceAdvanced, StateReplaying, StateRunningTarget, StatePaused}
               then (Answer None HRejected, c)
               else (case co_checkpoint c of
                       None \<Rightarrow> (Answer None HRejected, c)
                     | Some cp \<Rightarrow>
                         (Start_run cp (co_fence c) (co_attempts c + 1),
                          c\<lparr>co_attempts := co_attempts c + 1, co_state := StateRunningTarget,
                            co_targetActive := True\<rparr>))))"

text \<open>The section after the executor returned.\<close>

definition resume_end :: "bool \<Rightarrow> Coordinator \<Rightarrow> Coordinator" where
  "resume_end failed c =
    (let c = c\<lparr>co_targetActive := False\<rparr>
     in if failed \<and> \<not> co_revoked c \<and> co_completion c = None
           \<and> co_state c \<noteq> StateCompleted \<and> co_state c \<noteq> StateCancelled
        then c\<lparr>co_state := StatePaused\<rparr> else c)"

definition commit :: "go_time \<Rightarrow> 64 word \<Rightarrow> RealmKind \<Rightarrow> nat \<Rightarrow> string \<Rightarrow> Coordinator
    \<Rightarrow> (CompletionReceipt option \<times> handover_error option) \<times> Coordinator" where
  "commit now fence realm attempt result c =
    (if co_revoked c then ((None, Some HRevoked), c)
     else if fence \<noteq> co_fence c then ((None, Some HStaleFence), c)
     else (case co_completion c of
             Some r \<Rightarrow> ((Some r, Some HDuplicate), c)
           | None \<Rightarrow>
               (let r = \<lparr>cr_TaskID = co_taskID c, cr_Fence = fence, cr_Realm = realm, cr_Attempt = attempt,
                         cr_ResultDigest = result, cr_CommittedAt = now\<rparr>
                in ((Some r, None), c\<lparr>co_completion := Some r, co_state := StateCompleted\<rparr>))))"

definition CommitUnderFence :: "go_time \<Rightarrow> 64 word \<Rightarrow> RealmKind \<Rightarrow> string \<Rightarrow> Coordinator
    \<Rightarrow> (CompletionReceipt option \<times> handover_error option) \<times> Coordinator" where
  "CommitUnderFence now fence realm result c = commit now fence realm 0 result c"

definition Revoke :: "Coordinator \<Rightarrow> Coordinator" where
  "Revoke c = c\<lparr>co_revoked := True, co_state := StateCancelled\<rparr>"


section \<open>Executors\<close>

text \<open>What the coordinator calls: an executor acts on a state of its own.\<close>

record 'e executor =
  ex_Realm :: RealmKind
  ex_Run :: "Checkpoint \<Rightarrow> 64 word \<Rightarrow> nat \<Rightarrow> 'e \<Rightarrow> (string + string) \<times> 'e"
  ex_Cleanup :: "string \<Rightarrow> 'e \<Rightarrow> CleanupReceipt \<times> 'e"

definition no_cleanup :: CleanupReceipt where
  "no_cleanup = \<lparr>cl_WorkspacesRemoved = [], cl_ModalAppsClosed = [], cl_BundlesPurged = [], cl_Complete = True\<rparr>"

record LocalExecutor =
  le_workspaces :: "string \<rightharpoonup> string"
  le_failNext :: bool

definition NewLocalExecutor :: LocalExecutor where
  "NewLocalExecutor = \<lparr>le_workspaces = Map.empty, le_failNext = False\<rparr>"

definition local_FailNext :: "LocalExecutor \<Rightarrow> LocalExecutor" where
  "local_FailNext e = e\<lparr>le_failNext := True\<rparr>"

definition local_Run :: "(string \<Rightarrow> string) \<Rightarrow> Checkpoint \<Rightarrow> 64 word \<Rightarrow> nat \<Rightarrow> LocalExecutor
    \<Rightarrow> (string + string) \<times> LocalExecutor" where
  "local_Run sha cp fence attempt e =
    (if le_failNext e then (Inl ''local transient failure'', e\<lparr>le_failNext := False\<rparr>)
     else (Inr (sha (cp_BundleDigest cp @ ''|local|'' @ hexUint fence)),
           e\<lparr>le_workspaces := (le_workspaces e)(cp_TaskID cp \<mapsto>
               ''local-ws-'' @ cp_TaskID cp @ ''-f'' @ dec (unat fence) @ ''-a'' @ dec attempt)\<rparr>))"

definition local_Cleanup :: "string \<Rightarrow> LocalExecutor \<Rightarrow> CleanupReceipt \<times> LocalExecutor" where
  "local_Cleanup taskID e =
    (let e' = e\<lparr>le_workspaces := (le_workspaces e)(taskID := None)\<rparr>
     in case le_workspaces e taskID of
          None \<Rightarrow> (no_cleanup, e')
        | Some ws \<Rightarrow> (no_cleanup\<lparr>cl_WorkspacesRemoved := [ws]\<rparr>, e'))"

definition local_executor :: "(string \<Rightarrow> string) \<Rightarrow> LocalExecutor executor" where
  "local_executor sha = \<lparr>ex_Realm = RealmLocal, ex_Run = local_Run sha, ex_Cleanup = local_Cleanup\<rparr>"

record ModalExecutor =
  me_apps :: "string \<rightharpoonup> string"
  me_failNext :: bool
  me_mode :: string

definition NewModalExecutor :: "string \<Rightarrow> ModalExecutor" where
  "NewModalExecutor smoke_mode =
    \<lparr>me_apps = Map.empty, me_failNext = False, me_mode = (if smoke_mode = [] then ''hermetic'' else smoke_mode)\<rparr>"

definition modal_FailNext :: "ModalExecutor \<Rightarrow> ModalExecutor" where
  "modal_FailNext e = e\<lparr>me_failNext := True\<rparr>"

definition modal_Run :: "(string \<Rightarrow> string) \<Rightarrow> Checkpoint \<Rightarrow> 64 word \<Rightarrow> nat \<Rightarrow> ModalExecutor
    \<Rightarrow> (string + string) \<times> ModalExecutor" where
  "modal_Run sha cp fence attempt e =
    (if me_failNext e then (Inl ''modal transient failure'', e\<lparr>me_failNext := False\<rparr>)
     else (Inr (sha (cp_BundleDigest cp @ ''|modal|'' @ hexUint fence)),
           e\<lparr>me_apps := (me_apps e)(cp_TaskID cp \<mapsto> ''ouroboros-stage13-handover-'' @ cp_TaskID cp)\<rparr>))"

definition modal_Cleanup :: "string \<Rightarrow> ModalExecutor \<Rightarrow> CleanupReceipt \<times> ModalExecutor" where
  "modal_Cleanup taskID e =
    (let e' = e\<lparr>me_apps := (me_apps e)(taskID := None)\<rparr>
     in case me_apps e taskID of
          None \<Rightarrow> (no_cleanup, e')
        | Some app \<Rightarrow> (no_cleanup\<lparr>cl_ModalAppsClosed := [app]\<rparr>, e'))"

definition modal_executor :: "(string \<Rightarrow> string) \<Rightarrow> ModalExecutor executor" where
  "modal_executor sha = \<lparr>ex_Realm = RealmModal, ex_Run = modal_Run sha, ex_Cleanup = modal_Cleanup\<rparr>"

text \<open>\<^verbatim>\<open>ResumeTarget\<close> when no other call interferes.\<close>

definition ResumeTarget :: "'e executor \<Rightarrow> go_time \<Rightarrow> Coordinator \<times> 'e
    \<Rightarrow> (CompletionReceipt option \<times> handover_error option) \<times> Coordinator \<times> 'e" where
  "ResumeTarget ex now = (\<lambda>(c, e).
    (case resume_begin c of
       (Answer r err, c') \<Rightarrow> ((r, Some err), c', e)
     | (Start_run cp fence attempt, c') \<Rightarrow>
         (case ex_Run ex cp fence attempt e of
            (Inl msg, e') \<Rightarrow> ((None, Some (HExecutor msg)), resume_end True c', e')
          | (Inr result, e') \<Rightarrow>
              (let (ans, c'') = commit now fence (ex_Realm ex) attempt result (resume_end False c')
               in (ans, c'', e')))))"

text \<open>\<^verbatim>\<open>Cleanup\<close>: closing the coordinator to new runs, the test that ends the wait, and
  the work after it.\<close>

definition cleanup_begin :: "Coordinator \<Rightarrow> Coordinator" where
  "cleanup_begin c = c\<lparr>co_cleaning := True\<rparr>"

definition cleanup_may_go :: "Coordinator \<Rightarrow> bool" where
  "cleanup_may_go c \<longleftrightarrow> \<not> co_targetActive c"

definition merge_cleanup :: "CleanupReceipt \<Rightarrow> CleanupReceipt \<Rightarrow> CleanupReceipt" where
  "merge_cleanup s t = \<lparr>cl_WorkspacesRemoved = cl_WorkspacesRemoved s @ cl_WorkspacesRemoved t,
     cl_ModalAppsClosed = cl_ModalAppsClosed s @ cl_ModalAppsClosed t,
     cl_BundlesPurged = cl_BundlesPurged s @ cl_BundlesPurged t,
     cl_Complete = (cl_Complete s \<and> cl_Complete t)\<rparr>"

definition cleanup_end :: "CleanupReceipt \<Rightarrow> Coordinator \<Rightarrow> Coordinator" where
  "cleanup_end r c = c\<lparr>co_cleanups := co_cleanups c @ [r]\<rparr>"

text \<open>\<^verbatim>\<open>Cleanup\<close> when no run is in flight.\<close>

definition Cleanup :: "'s executor \<Rightarrow> 't executor \<Rightarrow> Coordinator \<times> 's \<times> 't
    \<Rightarrow> CleanupReceipt \<times> Coordinator \<times> 's \<times> 't" where
  "Cleanup source target = (\<lambda>(c, es, et).
    let c' = cleanup_begin c;
        (s, es') = ex_Cleanup source (co_taskID c') es;
        (t, et') = ex_Cleanup target (co_taskID c') et;
        merged = merge_cleanup s t
    in (merged, cleanup_end merged c', es', et'))"


section \<open>Overlapping calls\<close>

text \<open>\<open>RRunning\<close> is the unlocked stretch in which the executor runs, \<open>RReturned\<close> the one
  before the commit.\<close>

datatype rphase =
    RIdle
  | RRunning Checkpoint "64 word" nat
  | RReturned "64 word" nat string
  | RDone "CompletionReceipt option" "handover_error option"

datatype cphase = CIdle | CWaiting | CTearing | CDone

text \<open>The log of commits that succeeded is a ghost.\<close>

record hsys =
  hs_co :: Coordinator
  hs_run :: "nat \<Rightarrow> rphase"
  hs_clean :: "nat \<Rightarrow> cphase"
  hs_log :: "CompletionReceipt list"

definition hinit :: "string \<Rightarrow> hsys" where
  "hinit taskID = \<lparr>hs_co = NewCoordinator taskID, hs_run = (\<lambda>_. RIdle), hs_clean = (\<lambda>_. CIdle), hs_log = []\<rparr>"

definition log_commit :: "CompletionReceipt option \<times> handover_error option \<Rightarrow> CompletionReceipt list
    \<Rightarrow> CompletionReceipt list" where
  "log_commit ans lg = (case ans of (Some r, None) \<Rightarrow> r # lg | _ \<Rightarrow> lg)"

text \<open>\<open>T\<close> is the set of callers of \<open>ResumeTarget\<close>; a caller whose call has returned may
  call again, so a caller is one thread that retries as often as it likes.  Every call
  of \<open>Cleanup\<close> has a number of its own.\<close>

inductive hstep :: "(string \<Rightarrow> string) \<Rightarrow> nat set \<Rightarrow> hsys \<Rightarrow> hsys \<Rightarrow> bool" for sha T where
  h_checkpoint: "co_Checkpoint sha now d steps (hs_co s) = (r, c) \<Longrightarrow> hstep sha T s (s\<lparr>hs_co := c\<rparr>)"
| h_transfer: "Transfer realm (hs_co s) = (r, c) \<Longrightarrow> hstep sha T s (s\<lparr>hs_co := c\<rparr>)"
| h_answer: "i \<in> T \<Longrightarrow> hs_run s i = RIdle \<Longrightarrow> resume_begin (hs_co s) = (Answer r e, c) \<Longrightarrow>
    hstep sha T s (s\<lparr>hs_co := c, hs_run := (hs_run s)(i := RDone r (Some e))\<rparr>)"
| h_start: "i \<in> T \<Longrightarrow> hs_run s i = RIdle \<Longrightarrow> resume_begin (hs_co s) = (Start_run cp f a, c) \<Longrightarrow>
    hstep sha T s (s\<lparr>hs_co := c, hs_run := (hs_run s)(i := RRunning cp f a)\<rparr>)"
| h_failed: "hs_run s i = RRunning cp f a \<Longrightarrow>
    hstep sha T s (s\<lparr>hs_co := resume_end True (hs_co s),
      hs_run := (hs_run s)(i := RDone None (Some (HExecutor msg)))\<rparr>)"
| h_returned: "hs_run s i = RRunning cp f a \<Longrightarrow>
    hstep sha T s (s\<lparr>hs_co := resume_end False (hs_co s), hs_run := (hs_run s)(i := RReturned f a result)\<rparr>)"
| h_commit: "hs_run s i = RReturned f a result \<Longrightarrow> commit now f realm a result (hs_co s) = ((r, e), c) \<Longrightarrow>
    hstep sha T s (s\<lparr>hs_co := c, hs_run := (hs_run s)(i := RDone r e), hs_log := log_commit (r, e) (hs_log s)\<rparr>)"
| h_again: "hs_run s i = RDone r e \<Longrightarrow> hstep sha T s (s\<lparr>hs_run := (hs_run s)(i := RIdle)\<rparr>)"
| h_commit_under: "CommitUnderFence now f realm result (hs_co s) = ((r, e), c) \<Longrightarrow>
    hstep sha T s (s\<lparr>hs_co := c, hs_log := log_commit (r, e) (hs_log s)\<rparr>)"
| h_revoke: "hstep sha T s (s\<lparr>hs_co := Revoke (hs_co s)\<rparr>)"
| h_cleanup: "hs_clean s j = CIdle \<Longrightarrow>
    hstep sha T s (s\<lparr>hs_co := cleanup_begin (hs_co s), hs_clean := (hs_clean s)(j := CWaiting)\<rparr>)"
| h_cleanup_go: "hs_clean s j = CWaiting \<Longrightarrow> cleanup_may_go (hs_co s) \<Longrightarrow>
    hstep sha T s (s\<lparr>hs_clean := (hs_clean s)(j := CTearing)\<rparr>)"
| h_cleanup_cancelled: "hs_clean s j = CWaiting \<Longrightarrow> hstep sha T s (s\<lparr>hs_clean := (hs_clean s)(j := CDone)\<rparr>)"
| h_cleanup_end: "hs_clean s j = CTearing \<Longrightarrow>
    hstep sha T s (s\<lparr>hs_co := cleanup_end r (hs_co s), hs_clean := (hs_clean s)(j := CDone)\<rparr>)"

definition hreach :: "(string \<Rightarrow> string) \<Rightarrow> nat set \<Rightarrow> string \<Rightarrow> hsys \<Rightarrow> bool" where
  "hreach sha T taskID s \<longleftrightarrow> (hstep sha T)\<^sup>*\<^sup>* (hinit taskID) s"

text \<open>The coordinator's invariant: before the transfer the fence is 1 and the state is
  one of the source's; resumable states have fence 2 and no completion; a
  completion carries the current fence and leaves only the terminal states.\<close>

abbreviation source_states :: "HandoverState set" where
  "source_states \<equiv> {StateRunningSource, StateQuiescing, StatePrepared}"

abbreviation target_states :: "HandoverState set" where
  "target_states \<equiv> {StateFenceAdvanced, StateReplaying, StateRunningTarget, StatePaused}"

definition co_inv :: "Coordinator \<Rightarrow> bool" where
  "co_inv c \<longleftrightarrow>
    (co_state c \<in> source_states \<longrightarrow> co_fence c = 1)
    \<and> (co_state c \<in> target_states \<longrightarrow> co_fence c = 2)
    \<and> (co_fence c = 1 \<or> co_fence c = 2)
    \<and> (co_state c = StateCancelled \<longrightarrow> co_revoked c)
    \<and> (co_state c = StateCompleted \<longrightarrow> co_completion c \<noteq> None)
    \<and> (\<forall>r. co_completion c = Some r \<longrightarrow> cr_Fence r = co_fence c \<and> cr_TaskID r = co_taskID c
          \<and> co_state c \<in> {StateCompleted, StateCancelled})"

definition hinv :: "hsys \<Rightarrow> bool" where
  "hinv s \<longleftrightarrow> co_inv (hs_co s)
    \<and> (\<forall>i cp f a. hs_run s i = RRunning cp f a \<longrightarrow> f = 2 \<and> co_fence (hs_co s) = 2)
    \<and> (\<forall>i f a x. hs_run s i = RReturned f a x \<longrightarrow> f = 2 \<and> co_fence (hs_co s) = 2)
    \<and> (\<forall>i r e. hs_run s i = RDone (Some r) e \<longrightarrow> co_completion (hs_co s) = Some r)
    \<and> hs_log s = (case co_completion (hs_co s) of None \<Rightarrow> [] | Some r \<Rightarrow> [r])"

lemma hinv_init: "hinv (hinit taskID)"
  by (simp add: hinv_def hinit_def co_inv_def NewCoordinator_def)

text \<open>How each section acts on what the invariant reads.\<close>

lemma Checkpoint_inv:
  assumes "co_Checkpoint sha now d steps c = (r, c')" "co_inv c"
  shows "co_inv c' \<and> co_fence c' = co_fence c \<and> co_completion c' = co_completion c \<and> co_revoked c' = co_revoked c"
  using assms
  by (cases "co_state c"; cases "co_revoked c"; cases "co_completion c")
    (simp_all add: co_Checkpoint_def co_inv_def Let_def, auto)

lemma Transfer_inv:
  assumes "Transfer realm c = (r, c')" "co_inv c"
  shows "co_inv c' \<and> (co_fence c' = co_fence c \<or> co_fence c = 1 \<and> co_fence c' = 2 \<and> co_completion c = None)
    \<and> co_completion c' = co_completion c \<and> co_revoked c' = co_revoked c"
  using assms
  by (cases "co_state c"; cases "co_revoked c"; cases "co_completion c")
    (auto simp: Transfer_def co_inv_def split: if_split_asm)

lemma resume_begin_inv:
  assumes "resume_begin c = (x, c')" "co_inv c"
  shows "co_inv c' \<and> co_fence c' = co_fence c \<and> co_completion c' = co_completion c \<and> co_revoked c' = co_revoked c
    \<and> (\<forall>cp f a. x = Start_run cp f a \<longrightarrow> f = 2 \<and> co_fence c = 2)
    \<and> (\<forall>r e. x = Answer (Some r) e \<longrightarrow> co_completion c = Some r)"
  using assms
  by (cases "co_state c"; cases "co_revoked c"; cases "co_completion c")
    (auto simp: resume_begin_def co_inv_def split: if_split_asm option.split_asm)

lemma resume_end_inv:
  assumes "co_inv c" "co_fence c = 2"
  shows "co_inv (resume_end b c) \<and> co_fence (resume_end b c) = 2 \<and> co_completion (resume_end b c) = co_completion c
    \<and> co_revoked (resume_end b c) = co_revoked c"
  using assms
  by (cases "co_state c"; cases "co_revoked c"; cases "co_completion c") (simp_all add: resume_end_def co_inv_def Let_def)

lemma commit_inv:
  assumes "commit now f realm a x c = ((r, e), c')" "co_inv c"
  shows "co_inv c' \<and> co_fence c' = co_fence c \<and> co_revoked c' = co_revoked c
    \<and> (r = None \<and> e \<noteq> None \<and> c' = c \<or> (\<exists>q. r = Some q \<and> co_completion c = Some q \<and> e \<noteq> None \<and> c' = c)
       \<or> (\<exists>q. r = Some q \<and> e = None \<and> co_completion c = None \<and> co_completion c' = Some q \<and> \<not> co_revoked c))"
  using assms
  apply (cases "co_state c"; cases "co_revoked c"; cases "co_completion c")
  apply (auto simp: commit_def co_inv_def Let_def split: if_split_asm)
  apply metis+
  done

lemma hinv_step: "hstep sha T s s' \<Longrightarrow> hinv s \<Longrightarrow> hinv s'"
proof (induction rule: hstep.induct)
  case (h_checkpoint now d steps s r c)
  then show ?case using Checkpoint_inv[OF h_checkpoint(1)] by (auto simp: hinv_def)
next
  case (h_transfer realm s r c)
  then have "co_inv c" "co_completion c = co_completion (hs_co s)" "co_fence (hs_co s) = 2 \<longrightarrow> co_fence c = 2"
    using Transfer_inv[OF h_transfer(1)] by (auto simp: hinv_def)
  with h_transfer(2) show ?case by (simp add: hinv_def)
next
  case (h_answer i s r e c)
  then show ?case using resume_begin_inv[OF h_answer(3)] by (auto simp: hinv_def)
next
  case (h_start i s cp f a c)
  then show ?case using resume_begin_inv[OF h_start(3)] by (auto simp: hinv_def)
next
  case (h_failed s i cp f a msg)
  then have "co_inv (hs_co s)" "co_fence (hs_co s) = 2" "f = 2" by (auto simp: hinv_def)
  then show ?case using resume_end_inv[of "hs_co s" True] h_failed by (simp add: hinv_def)
next
  case (h_returned s i cp f a result)
  then have "co_inv (hs_co s)" "co_fence (hs_co s) = 2" "f = 2" by (auto simp: hinv_def)
  then show ?case using resume_end_inv[of "hs_co s" False] h_returned by (simp add: hinv_def)
next
  case (h_commit s i f a result now realm r e c)
  then have "co_inv (hs_co s)" by (simp add: hinv_def)
  note ci = commit_inv[OF h_commit(2) this]
  then consider "r = None" "e \<noteq> None" "c = hs_co s" | q where "r = Some q" "co_completion (hs_co s) = Some q" "e \<noteq> None" "c = hs_co s"
    | q where "r = Some q" "e = None" "co_completion (hs_co s) = None" "co_completion c = Some q" by blast
  then show ?case using ci h_commit(1,3)
    by cases (simp add: hinv_def log_commit_def split: option.splits, blast?)+
next
  case (h_commit_under now f realm result s r e c)
  then have "co_inv (hs_co s)" by (simp add: hinv_def)
  note ci = commit_inv[OF h_commit_under(1)[unfolded CommitUnderFence_def] this]
  then consider "r = None" "e \<noteq> None" "c = hs_co s" | q where "r = Some q" "co_completion (hs_co s) = Some q" "e \<noteq> None" "c = hs_co s"
    | q where "r = Some q" "e = None" "co_completion (hs_co s) = None" "co_completion c = Some q" by blast
  then show ?case using ci h_commit_under(2)
    by cases (simp add: hinv_def log_commit_def split: option.splits, blast?)+
next
  case (h_revoke s)
  then show ?case by (auto simp: hinv_def co_inv_def Revoke_def)
qed (auto simp: hinv_def co_inv_def cleanup_begin_def cleanup_end_def)

lemma hinv_steps: "(hstep sha T)\<^sup>*\<^sup>* s s' \<Longrightarrow> hinv s \<Longrightarrow> hinv s'"
  by (induction rule: rtranclp_induct) (auto simp: hinv_step)

lemma hreach_inv: "hreach sha T taskID s \<Longrightarrow> hinv s"
  using hinv_steps hinv_init unfolding hreach_def by blast

text \<open>What no step undoes.\<close>

definition settled :: "Coordinator \<Rightarrow> Coordinator \<Rightarrow> bool" where
  "settled c c' \<longleftrightarrow> (co_fence c = 2 \<longrightarrow> co_fence c' = 2) \<and> (co_revoked c \<longrightarrow> co_revoked c')
    \<and> (\<forall>r. co_completion c = Some r \<longrightarrow> co_completion c' = Some r)
    \<and> (co_revoked c \<longrightarrow> co_completion c' = co_completion c)"

lemma settled_refl: "settled c c"
  by (simp add: settled_def)

lemma settled_trans: "settled a b \<Longrightarrow> settled b c \<Longrightarrow> settled a c"
  unfolding settled_def by metis

lemma settled_step: "hstep sha T s s' \<Longrightarrow> hinv s \<Longrightarrow> settled (hs_co s) (hs_co s')"
proof (induction rule: hstep.induct)
  case (h_checkpoint now d steps s r c)
  then show ?case using Checkpoint_inv[OF h_checkpoint(1)] by (simp add: hinv_def settled_def)
next
  case (h_transfer realm s r c)
  then show ?case using Transfer_inv[OF h_transfer(1)] by (auto simp: hinv_def settled_def)
next
  case (h_answer i s r e c)
  then show ?case using resume_begin_inv[OF h_answer(3)] by (simp add: hinv_def settled_def)
next
  case (h_start i s cp f a c)
  then show ?case using resume_begin_inv[OF h_start(3)] by (simp add: hinv_def settled_def)
next
  case (h_commit s i f a result now realm r e c)
  then show ?case using commit_inv[OF h_commit(2)] by (auto simp: hinv_def settled_def)
next
  case (h_commit_under now f realm result s r e c)
  then show ?case using commit_inv[of now f realm 0 result "hs_co s" r e c]
    by (auto simp: hinv_def settled_def CommitUnderFence_def)
qed (auto simp: settled_def resume_end_def Let_def Revoke_def cleanup_begin_def cleanup_end_def)

lemma settled_steps:
  assumes "(hstep sha T)\<^sup>*\<^sup>* s s'" "hinv s"
  shows "settled (hs_co s) (hs_co s')"
  using assms
proof (induction rule: rtranclp_induct)
  case base
  show ?case by (rule settled_refl)
next
  case (step y z)
  have "hinv y" using hinv_steps step.hyps(1) step.prems by blast
  then show ?case using settled_step[OF step.hyps(2)] step.IH[OF step.prems] settled_trans by blast
qed

text \<open>With a single caller of \<open>ResumeTarget\<close>, however often it retries, the active flag is exact, and no run
  starts while resources are being removed.\<close>

definition solo_inv :: "hsys \<Rightarrow> bool" where
  "solo_inv s \<longleftrightarrow> (\<forall>i. i \<noteq> 0 \<longrightarrow> hs_run s i = RIdle)
    \<and> (co_targetActive (hs_co s) \<longleftrightarrow> (\<exists>cp f a. hs_run s 0 = RRunning cp f a))
    \<and> ((\<exists>j. hs_clean s j \<noteq> CIdle) \<longrightarrow> co_cleaning (hs_co s))
    \<and> ((\<exists>j. hs_clean s j = CTearing) \<longrightarrow> \<not> co_targetActive (hs_co s))"

lemma section_flags:
  "co_Checkpoint sha now d steps c = (r, c') \<Longrightarrow> co_targetActive c' = co_targetActive c \<and> co_cleaning c' = co_cleaning c"
  "Transfer realm c = (r', c') \<Longrightarrow> co_targetActive c' = co_targetActive c \<and> co_cleaning c' = co_cleaning c"
  "resume_begin c = (Answer q e, c') \<Longrightarrow> c' = c"
  "resume_begin c = (Start_run cp f a, c') \<Longrightarrow> co_targetActive c' \<and> co_cleaning c' = co_cleaning c \<and> \<not> co_cleaning c"
  "commit now f realm a x c = (y, c') \<Longrightarrow> co_targetActive c' = co_targetActive c \<and> co_cleaning c' = co_cleaning c"
  by (auto simp: co_Checkpoint_def Transfer_def resume_begin_def commit_def Let_def split: if_splits option.splits)

lemma solo_step: "hstep sha {0} s s' \<Longrightarrow> solo_inv s \<Longrightarrow> solo_inv s'"
proof (induction rule: hstep.induct)
  case (h_checkpoint now d steps s r c)
  then show ?case using section_flags(1)[OF h_checkpoint(1)] by (auto simp: solo_inv_def)
next
  case (h_transfer realm s r c)
  then show ?case using section_flags(2)[OF h_transfer(1)] by (auto simp: solo_inv_def)
next
  case (h_answer i s r e c)
  then show ?case using section_flags(3)[OF h_answer(3)] by (auto simp: solo_inv_def)
next
  case (h_start i s cp f a c)
  then show ?case using section_flags(4)[OF h_start(3)] by (auto simp: solo_inv_def)
next
  case (h_failed s i cp f a msg)
  then have "i = 0" unfolding solo_inv_def by (metis rphase.distinct(1))
  with h_failed show ?case by (auto simp: solo_inv_def resume_end_def Let_def)
next
  case (h_returned s i cp f a result)
  then have "i = 0" unfolding solo_inv_def by (metis rphase.distinct(1))
  with h_returned show ?case by (auto simp: solo_inv_def resume_end_def Let_def)
next
  case (h_commit s i f a result now realm r e c)
  then have "i = 0" unfolding solo_inv_def by (metis rphase.distinct(3))
  with h_commit show ?case using section_flags(5)[OF h_commit(2)] by (auto simp: solo_inv_def)
next
  case (h_commit_under now f realm result s r e c)
  then show ?case using section_flags(5)[OF h_commit_under(1)[unfolded CommitUnderFence_def]] by (auto simp: solo_inv_def)
next
  case (h_cleanup_go s j)
  then show ?case by (auto simp: solo_inv_def cleanup_may_go_def)
next
  case (h_cleanup_cancelled s j)
  then show ?case by (auto simp: solo_inv_def)
qed (auto simp: solo_inv_def Revoke_def cleanup_begin_def cleanup_end_def)

lemma solo_reach: "hreach sha {0} taskID s \<Longrightarrow> solo_inv s"
  unfolding hreach_def
proof (induction rule: rtranclp_induct)
  case base
  show ?case by (simp add: solo_inv_def hinit_def NewCoordinator_def)
next
  case (step y z)
  then show ?case using solo_step by blast
qed


section \<open>What the executors promise\<close>

definition resumable :: "Coordinator \<Rightarrow> bool" where
  "resumable c \<longleftrightarrow> \<not> co_revoked c \<and> \<not> co_cleaning c \<and> co_completion c = None \<and> co_state c \<in> target_states
    \<and> co_checkpoint c \<noteq> None"

text \<open>A successful run yields a digest of the checkpoint and the fence alone (so a
  retry cannot change the result); cleaning a task removes what it holds, reports it
  and leaves the other tasks alone.\<close>

locale realm_executor =
  fixes ex :: "'e executor" and digest :: "Checkpoint \<Rightarrow> 64 word \<Rightarrow> string" and holds :: "'e \<Rightarrow> string set"
  assumes run_digest: "ex_Run ex cp f a e = (Inr x, e') \<Longrightarrow> x = digest cp f"
    and run_holds: "ex_Run ex cp f a e = (y, e') \<Longrightarrow> holds e' \<subseteq> insert (cp_TaskID cp) (holds e)"
    and cleanup_removes: "ex_Cleanup ex t e = (r, e') \<Longrightarrow> holds e' = holds e - {t}"
    and cleanup_reports: "ex_Cleanup ex t e = (r, e') \<Longrightarrow>
      cl_Complete r \<and> (t \<in> holds e \<longleftrightarrow> cl_WorkspacesRemoved r @ cl_ModalAppsClosed r \<noteq> [])"
begin

lemma resume_outcome:
  assumes "resumable c" "co_checkpoint c = Some cp" "ResumeTarget ex now (c, e) = (ans, c', e')"
  shows "(\<exists>msg. ans = (None, Some (HExecutor msg)) \<and> resumable c' \<and> co_attempts c' = co_attempts c + 1
            \<and> co_checkpoint c' = Some cp \<and> co_fence c' = co_fence c \<and> co_taskID c' = co_taskID c)
    \<or> (\<exists>r. ans = (Some r, None) \<and> co_completion c' = Some r \<and> co_state c' = StateCompleted
            \<and> \<not> co_revoked c' \<and> \<not> co_cleaning c'
            \<and> r = \<lparr>cr_TaskID = co_taskID c, cr_Fence = co_fence c, cr_Realm = ex_Realm ex,
                    cr_Attempt = co_attempts c + 1, cr_ResultDigest = digest cp (co_fence c), cr_CommittedAt = now\<rparr>)"
proof -
  let ?c1 = "c\<lparr>co_attempts := co_attempts c + 1, co_state := StateRunningTarget, co_targetActive := True\<rparr>"
  have b: "resume_begin c = (Start_run cp (co_fence c) (co_attempts c + 1), ?c1)"
    using assms(1,2) by (simp add: resume_begin_def resumable_def)
  obtain y e1 where run: "ex_Run ex cp (co_fence c) (co_attempts c + 1) e = (y, e1)" by fastforce
  show ?thesis
  proof (cases y)
    case (Inl msg)
    then have "ans = (None, Some (HExecutor msg))" "c' = resume_end True ?c1"
      using assms(3) b run by (simp_all add: ResumeTarget_def)
    then show ?thesis using assms(1,2) by (simp add: resume_end_def resumable_def Let_def)
  next
    case (Inr x)
    then have "x = digest cp (co_fence c)" using run run_digest by blast
    moreover have "(ans, c') = commit now (co_fence c) (ex_Realm ex) (co_attempts c + 1) x (resume_end False ?c1)"
      using assms(3) b run Inr by (simp add: ResumeTarget_def split: prod.splits)
    ultimately show ?thesis using assms(1) by (simp add: commit_def resume_end_def resumable_def Let_def)
  qed
qed

lemma resume_again:
  assumes "co_completion c = Some r" "\<not> co_revoked c" "\<not> co_cleaning c"
  shows "ResumeTarget ex now (c, e) = ((Some r, Some HDuplicate), c, e)"
  using assms by (simp add: ResumeTarget_def resume_begin_def)

end

interpretation lx: realm_executor "local_executor sha" "\<lambda>cp f. sha (cp_BundleDigest cp @ ''|local|'' @ hexUint f)"
    "\<lambda>e. dom (le_workspaces e)" for sha
  by unfold_locales
    (auto simp: local_executor_def local_Run_def local_Cleanup_def no_cleanup_def Let_def split: if_splits option.splits)

interpretation mx: realm_executor "modal_executor sha" "\<lambda>cp f. sha (cp_BundleDigest cp @ ''|modal|'' @ hexUint f)"
    "\<lambda>e. dom (me_apps e)" for sha
  by unfold_locales
    (auto simp: modal_executor_def modal_Run_def modal_Cleanup_def no_cleanup_def Let_def split: if_splits option.splits)


section \<open>Properties\<close>

lemma commit_refused:
  assumes "co_inv c" "co_fence c = 2"
  shows "CommitUnderFence now 1 realm x c \<in> {((None, Some HStaleFence), c), ((None, Some HRevoked), c)}"
  using assms by (simp add: CommitUnderFence_def commit_def)

text \<open>C9.  A task completes exactly once.  For any number of overlapping resumes,
  explicit commits, revocations and cleanups: at most one commit ever succeeds; the
  recorded completion is that commit, carries the current fence, is never replaced
  by a later step, and is the receipt every caller that got one was given; a
  revocation stops further commits; and once the transfer has advanced the fence the
  source's commits under the old fence are refused from then on.\<close>

theorem handover_completes_once:
  assumes "hreach sha T taskID s" "(hstep sha T)\<^sup>*\<^sup>* s s'"
  shows "(hs_log s' = [] \<and> co_completion (hs_co s') = None
        \<or> (\<exists>r. hs_log s' = [r] \<and> co_completion (hs_co s') = Some r \<and> cr_Fence r = co_fence (hs_co s')))
    \<and> (\<forall>i r e. hs_run s' i = RDone (Some r) e \<longrightarrow> hs_log s' = [r])
    \<and> (hs_log s \<noteq> [] \<or> co_revoked (hs_co s) \<longrightarrow> hs_log s' = hs_log s)
    \<and> (co_fence (hs_co s) = 2 \<longrightarrow> (\<forall>now realm x. CommitUnderFence now 1 realm x (hs_co s')
          \<in> {((None, Some HStaleFence), hs_co s'), ((None, Some HRevoked), hs_co s')}))"
proof -
  have i: "hinv s" by (rule hreach_inv[OF assms(1)])
  then have i': "hinv s'" using hinv_steps[OF assms(2)] by blast
  have st: "settled (hs_co s) (hs_co s')" by (rule settled_steps[OF assms(2) i])
  have log: "hs_log s' = (case co_completion (hs_co s') of None \<Rightarrow> [] | Some r \<Rightarrow> [r])"
    "hs_log s = (case co_completion (hs_co s) of None \<Rightarrow> [] | Some r \<Rightarrow> [r])"
    using i i' by (simp_all add: hinv_def)
  have inv: "co_inv (hs_co s')" using i' by (simp add: hinv_def)
  have 1: "hs_log s' = [] \<and> co_completion (hs_co s') = None
      \<or> (\<exists>r. hs_log s' = [r] \<and> co_completion (hs_co s') = Some r \<and> cr_Fence r = co_fence (hs_co s'))"
    using log(1) inv by (cases "co_completion (hs_co s')") (simp_all add: co_inv_def)
  have 2: "\<forall>i r e. hs_run s' i = RDone (Some r) e \<longrightarrow> hs_log s' = [r]"
    using i' by (auto simp: hinv_def)
  have 3: "hs_log s \<noteq> [] \<or> co_revoked (hs_co s) \<longrightarrow> hs_log s' = hs_log s"
    using st log by (cases "co_completion (hs_co s)") (simp_all add: settled_def)
  have 4: "co_fence (hs_co s) = 2 \<Longrightarrow> CommitUnderFence now 1 realm x (hs_co s')
      \<in> {((None, Some HStaleFence), hs_co s'), ((None, Some HRevoked), hs_co s')}" for now realm x
    using st inv by (intro commit_refused) (simp_all add: settled_def)
  from 1 2 3 4 show ?thesis by blast
qed

definition transferred :: "(string \<Rightarrow> string) \<Rightarrow> go_time \<Rightarrow> string \<Rightarrow> string list \<Rightarrow> string \<Rightarrow> Coordinator" where
  "transferred sha now d steps taskID = snd (Transfer RealmModal (snd (co_Checkpoint sha now d steps (NewCoordinator taskID))))"

lemma transferred_facts:
  "resumable (transferred sha now d steps t)" "co_fence (transferred sha now d steps t) = 2"
  "co_attempts (transferred sha now d steps t) = 0" "co_taskID (transferred sha now d steps t) = t"
  "\<exists>cp. co_checkpoint (transferred sha now d steps t) = Some cp \<and> cp_BundleDigest cp = d"
  by (simp_all add: transferred_def resumable_def Transfer_def co_Checkpoint_def NewCoordinator_def SealCheckpoint_def
      RealmModal_def RealmLocal_def mget0_def Let_def)

lemma transferred_reach:
  "(hstep sha T)\<^sup>*\<^sup>* (hinit t) ((hinit t)\<lparr>hs_co := transferred sha now d steps t\<rparr>)"
proof -
  let ?c = "snd (co_Checkpoint sha now d steps (NewCoordinator t))"
  let ?s = "(hinit t)\<lparr>hs_co := ?c\<rparr>"
  have co: "hs_co (hinit t) = NewCoordinator t" by (simp add: hinit_def)
  have 1: "hstep sha T (hinit t) ?s"
    by (rule hstep.h_checkpoint[of sha now d steps _ "fst (co_Checkpoint sha now d steps (NewCoordinator t))"]) (simp add: co)
  have "hstep sha T ?s (?s\<lparr>hs_co := transferred sha now d steps t\<rparr>)"
    by (rule hstep.h_transfer[of RealmModal _ "fst (Transfer RealmModal ?c)"]) (simp add: transferred_def)
  with 1 show ?thesis by simp
qed

theorem handover_completes_once_witness:
  "hreach (\<lambda>x. x) {0} ''t'' ((hinit ''t'')\<lparr>hs_co := transferred (\<lambda>x. x) 0 ''d'' [] ''t''\<rparr>)
    \<and> CommitUnderFence 5 1 RealmLocal ''x'' (transferred (\<lambda>x. x) 0 ''d'' [] ''t'')
      = ((None, Some HStaleFence), transferred (\<lambda>x. x) 0 ''d'' [] ''t'')"
proof -
  let ?s = "(hinit ''t'')\<lparr>hs_co := transferred (\<lambda>x. x) 0 ''d'' [] ''t''\<rparr>"
  have r: "hreach (\<lambda>x. x) {0} ''t'' ?s" unfolding hreach_def by (rule transferred_reach)
  have "\<not> co_revoked (hs_co ?s)" using transferred_facts(1) by (simp add: resumable_def)
  moreover have "CommitUnderFence 5 1 RealmLocal ''x'' (hs_co ?s)
      \<in> {((None, Some HStaleFence), hs_co ?s), ((None, Some HRevoked), hs_co ?s)}"
    using handover_completes_once[OF r rtranclp.rtrancl_refl] transferred_facts(2)[of "\<lambda>x. x" 0 "''d''" "[]" "''t''"]
    by simp
  ultimately show ?thesis using r transferred_facts(2)[of "\<lambda>x. x" 0 "''d''" "[]" "''t''"]
    by (auto simp: CommitUnderFence_def commit_def split: if_splits)
qed

text \<open>The operator's retries against the Modal adapter; the flag says whether a
  transient failure is injected before the call.\<close>

fun modal_resumes :: "(string \<Rightarrow> string) \<Rightarrow> (go_time \<times> bool) list \<Rightarrow> Coordinator \<times> ModalExecutor
    \<Rightarrow> (CompletionReceipt option \<times> handover_error option) list" where
  "modal_resumes sha [] _ = []"
| "modal_resumes sha ((now, inject) # xs) (c, e) =
    (let (ans, c', e') = ResumeTarget (modal_executor sha) now (c, if inject then modal_FailNext e else e)
     in ans # modal_resumes sha xs (c', e'))"

lemma modal_resume_failing:
  assumes "resumable c" "co_checkpoint c = Some cp" "me_failNext e"
  shows "ResumeTarget (modal_executor sha) now (c, e) = ((None, Some (HExecutor ''modal transient failure'')),
      c\<lparr>co_attempts := co_attempts c + 1, co_state := StatePaused, co_targetActive := False\<rparr>, e\<lparr>me_failNext := False\<rparr>)"
  using assms by (simp add: ResumeTarget_def resume_begin_def resumable_def modal_executor_def modal_Run_def resume_end_def Let_def)

lemma modal_resumes_done:
  assumes "co_completion c = Some r" "\<not> co_revoked c" "\<not> co_cleaning c"
  shows "modal_resumes sha xs (c, e) = replicate (length xs) (Some r, Some HDuplicate)"
proof (induction xs arbitrary: e)
  case (Cons x xs)
  obtain now inject where x: "x = (now, inject)" by fastforce
  show ?case using Cons mx.resume_again[OF assms] by (simp add: x)
qed simp

lemma modal_resumes_answers:
  assumes "resumable c" "co_checkpoint c = Some cp" "\<not> me_failNext e"
  shows "modal_resumes sha xs (c, e) =
    (let k = length (takeWhile snd xs)
     in replicate k (None, Some (HExecutor ''modal transient failure'')) @
        (case drop k xs of
           [] \<Rightarrow> []
         | (now, _) # rest \<Rightarrow>
             (let r = \<lparr>cr_TaskID = co_taskID c, cr_Fence = co_fence c, cr_Realm = RealmModal,
                       cr_Attempt = co_attempts c + k + 1,
                       cr_ResultDigest = sha (cp_BundleDigest cp @ ''|modal|'' @ hexUint (co_fence c)),
                       cr_CommittedAt = now\<rparr>
              in (Some r, None) # replicate (length rest) (Some r, Some HDuplicate))))"
  using assms
proof (induction xs arbitrary: c e)
  case (Cons x xs)
  obtain now inject where x: "x = (now, inject)" by fastforce
  show ?case
  proof (cases inject)
    case True
    let ?c = "c\<lparr>co_attempts := co_attempts c + 1, co_state := StatePaused, co_targetActive := False\<rparr>"
    let ?e = "(modal_FailNext e)\<lparr>me_failNext := False\<rparr>"
    have r: "resumable ?c" "co_checkpoint ?c = Some cp" using Cons.prems by (simp_all add: resumable_def)
    have "ResumeTarget (modal_executor sha) now (c, modal_FailNext e)
        = ((None, Some (HExecutor ''modal transient failure'')), ?c, ?e)"
      by (rule modal_resume_failing[OF Cons.prems(1,2)]) (simp add: modal_FailNext_def)
    moreover have "\<not> me_failNext ?e" by simp
    ultimately show ?thesis using Cons.IH[OF r, of ?e] True by (simp add: x Let_def split: list.split prod.split)
  next
    case False
    obtain ans c' e' where o: "ResumeTarget (modal_executor sha) now (c, e) = (ans, c', e')" by (metis prod_cases3)
    have ok: "\<And>msg. ans \<noteq> (None, Some (HExecutor msg))"
      using o Cons.prems
      by (auto simp: ResumeTarget_def resume_begin_def resumable_def modal_executor_def modal_Run_def commit_def Let_def
          split: if_splits option.splits)
    have "ex_Realm (modal_executor sha) = RealmModal" by (simp add: modal_executor_def)
    with mx.resume_outcome[OF Cons.prems(1,2) o] ok show ?thesis
      using modal_resumes_done[of c' _ sha xs e'] o False by (auto simp: x Let_def)
  qed
qed simp

text \<open>C31.  Retrying a handed-over task is safe and makes progress.  After the
  checkpoint and the transfer, a sequence of resumes in which the first k fail
  transiently reports those failures, then exactly one completion, made under
  fence 2 by attempt k+1 with a digest that depends only on the bundle and the fence;
  every later resume returns that same receipt as a duplicate.\<close>

theorem handover_retry_progress:
  "modal_resumes sha xs (transferred sha t0 bundle steps task, NewModalExecutor mode) =
    (let k = length (takeWhile snd xs)
     in replicate k (None, Some (HExecutor ''modal transient failure'')) @
        (case drop k xs of
           [] \<Rightarrow> []
         | (now, _) # rest \<Rightarrow>
             (let r = \<lparr>cr_TaskID = task, cr_Fence = 2, cr_Realm = RealmModal, cr_Attempt = k + 1,
                       cr_ResultDigest = sha (bundle @ ''|modal|'' @ hexUint 2), cr_CommittedAt = now\<rparr>
              in (Some r, None) # replicate (length rest) (Some r, Some HDuplicate))))"
proof -
  let ?c = "transferred sha t0 bundle steps task"
  obtain cp where cp: "co_checkpoint ?c = Some cp" "cp_BundleDigest cp = bundle" using transferred_facts(5) by blast
  show ?thesis
    using modal_resumes_answers[OF transferred_facts(1) cp(1), of "NewModalExecutor mode" sha xs]
    by (simp add: transferred_facts cp(2) NewModalExecutor_def Let_def split: list.split prod.split)
qed

text \<open>A retry: the first run fails, the caller calls again, and the cleanup asked for
  during the second run waits until that run has returned.\<close>

lemma retried_then_torn:
  "\<exists>s. hreach sha {0} t s \<and> co_attempts (hs_co s) = 2 \<and> hs_clean s 0 = CTearing"
proof -
  let ?T = "{0 :: nat}"
  define c where "c = transferred sha 0 ''d'' [] t"
  define c1 where "c1 = c\<lparr>co_attempts := 1, co_state := StateRunningTarget, co_targetActive := True\<rparr>"
  define c2 where "c2 = resume_end True c1"
  define c3 where "c3 = c2\<lparr>co_attempts := 2, co_state := StateRunningTarget, co_targetActive := True\<rparr>"
  obtain cp where cp: "co_checkpoint c = Some cp" using transferred_facts(5) unfolding c_def by blast
  note tf = transferred_facts(1,2,3)[of sha 0 "''d''" "[]" t, folded c_def]
  have b: "resume_begin c = (Start_run cp 2 1, c1)"
    using tf cp by (simp add: resume_begin_def resumable_def c1_def)
  have b2: "resume_begin c2 = (Start_run cp 2 2, c3)"
    using tf cp by (simp add: resume_begin_def resumable_def c1_def c2_def c3_def resume_end_def Let_def)
  define s0 where "s0 = (hinit t)\<lparr>hs_co := c\<rparr>"
  define s1 where "s1 = s0\<lparr>hs_co := c1, hs_run := (hs_run s0)(0 := RRunning cp 2 1)\<rparr>"
  define s2 where "s2 = s1\<lparr>hs_co := resume_end True (hs_co s1), hs_run := (hs_run s1)(0 := RDone None (Some (HExecutor [])))\<rparr>"
  define s3 where "s3 = s2\<lparr>hs_run := (hs_run s2)(0 := RIdle)\<rparr>"
  define s4 where "s4 = s3\<lparr>hs_co := c3, hs_run := (hs_run s3)(0 := RRunning cp 2 2)\<rparr>"
  define s5 where "s5 = s4\<lparr>hs_co := cleanup_begin (hs_co s4), hs_clean := (hs_clean s4)(0 := CWaiting)\<rparr>"
  define s6 where "s6 = s5\<lparr>hs_co := resume_end False (hs_co s5), hs_run := (hs_run s5)(0 := RReturned 2 2 [])\<rparr>"
  define s7 where "s7 = s6\<lparr>hs_clean := (hs_clean s6)(0 := CTearing)\<rparr>"
  note ds = s0_def s1_def s2_def s3_def s4_def s5_def s6_def
  have 0: "(hstep sha ?T)\<^sup>*\<^sup>* (hinit t) s0" unfolding s0_def c_def by (rule transferred_reach)
  have 1: "hstep sha ?T s0 s1" unfolding s1_def
    by (rule hstep.h_start) (use b in \<open>simp_all add: s0_def hinit_def\<close>)
  have 2: "hstep sha ?T s1 s2" unfolding s2_def by (rule hstep.h_failed[of _ _ cp 2 1]) (simp add: s1_def)
  have 3: "hstep sha ?T s2 s3" unfolding s3_def by (rule hstep.h_again) (simp add: s2_def)
  have 4: "hstep sha ?T s3 s4" unfolding s4_def
    by (rule hstep.h_start) (use b2 in \<open>simp_all add: ds c2_def\<close>)
  have 5: "hstep sha ?T s4 s5" unfolding s5_def by (rule hstep.h_cleanup) (simp add: ds hinit_def)
  have 6: "hstep sha ?T s5 s6" unfolding s6_def by (rule hstep.h_returned[of _ _ cp 2 2]) (simp add: s4_def s5_def)
  have 7: "hstep sha ?T s6 s7" unfolding s7_def
    by (rule hstep.h_cleanup_go) (simp_all add: s5_def s6_def cleanup_may_go_def resume_end_def Let_def)
  have "(hstep sha ?T)\<^sup>*\<^sup>* s0 s7"
    using 1 2 3 4 5 6 7 by (meson converse_rtranclp_into_rtranclp r_into_rtranclp)
  with 0 have "hreach sha ?T t s7" unfolding hreach_def by (rule rtranclp_trans)
  moreover have "co_attempts (hs_co s7) = 2"
    by (simp add: s7_def s6_def s5_def s4_def c3_def resume_end_def cleanup_begin_def Let_def)
  moreover have "hs_clean s7 0 = CTearing" by (simp add: s7_def)
  ultimately show ?thesis by blast
qed

text \<open>C32.  Cleanup does not race with a run, as long as \<open>ResumeTarget\<close> has one caller,
  which calls again only after its previous call has returned (any number of
  retries, with checkpoints, transfers, explicit commits, revocations and any number
  of overlapping cleanups in between): no target run is in flight while resources are
  being removed, and none starts from the moment a cleanup has begun, since every
  later call is answered without changing the coordinator.\<close>

theorem cleanup_waits_for_run:
  assumes "hreach sha {0} taskID s" "hs_clean s j \<noteq> CIdle"
  shows "(hs_clean s j = CTearing \<longrightarrow> (\<forall>i cp f a. hs_run s i \<noteq> RRunning cp f a))
    \<and> (\<forall>x c. resume_begin (hs_co s) = (x, c) \<longrightarrow> (\<exists>r e. x = Answer r e) \<and> c = hs_co s)"
proof -
  have i: "solo_inv s" by (rule solo_reach[OF assms(1)])
  then have cl: "co_cleaning (hs_co s)" using assms(2) by (auto simp: solo_inv_def)
  have "hs_run s i \<noteq> RRunning cp f a" if t: "hs_clean s j = CTearing" for i cp f a
  proof (cases "i = 0")
    case True
    have "\<not> co_targetActive (hs_co s)" using i t by (auto simp: solo_inv_def)
    with i True show ?thesis by (auto simp: solo_inv_def)
  qed (use i in \<open>auto simp: solo_inv_def\<close>)
  then show ?thesis using cl by (auto simp: resume_begin_def split: if_splits)
qed

lemma hstep_cleanup_torn:
  assumes "hs_clean s 0 = CIdle" "\<not> co_targetActive (hs_co s)"
  shows "(hstep sha T)\<^sup>*\<^sup>* s (s\<lparr>hs_co := cleanup_begin (hs_co s), hs_clean := (hs_clean s)(0 := CTearing)\<rparr>)"
proof -
  let ?s1 = "s\<lparr>hs_co := cleanup_begin (hs_co s), hs_clean := (hs_clean s)(0 := CWaiting)\<rparr>"
  have "hstep sha T s ?s1" by (rule hstep.h_cleanup[OF assms(1)])
  moreover have "hstep sha T ?s1 (?s1\<lparr>hs_clean := (hs_clean ?s1)(0 := CTearing)\<rparr>)"
    by (rule hstep.h_cleanup_go) (use assms(2) in \<open>simp_all add: cleanup_may_go_def cleanup_begin_def\<close>)
  ultimately have "(hstep sha T)\<^sup>*\<^sup>* s (?s1\<lparr>hs_clean := (hs_clean ?s1)(0 := CTearing)\<rparr>)" by (simp add: converse_rtranclp_into_rtranclp)
  then show ?thesis by simp
qed

theorem cleanup_waits_for_run_witness:
  "\<exists>s. hreach (\<lambda>x. x) {0} ''t'' s \<and> co_attempts (hs_co s) = 2 \<and> hs_clean s 0 = CTearing
    \<and> (\<forall>i cp f a. hs_run s i \<noteq> RRunning cp f a) \<and> snd (resume_begin (hs_co s)) = hs_co s"
proof -
  obtain s where s: "hreach (\<lambda>x. x) {0} ''t'' s" "co_attempts (hs_co s) = 2" "hs_clean s 0 = CTearing"
    using retried_then_torn by blast
  have ne: "hs_clean s 0 \<noteq> CIdle" using s(3) by simp
  from cleanup_waits_for_run[OF s(1) ne] s show ?thesis
    by (intro exI[of _ s]) (simp, metis prod.collapse)
qed

text \<open>With two overlapping callers the wait is not enough: the first run that returns
  clears the active flag while the second is still in flight.\<close>

lemma cleanup_races_with_second_run:
  "\<exists>s cp. hreach sha {0, 1} t s \<and> hs_clean s 0 = CTearing \<and> hs_run s 1 = RRunning cp 2 2"
proof -
  let ?T = "{0, 1 :: nat}"
  define c where "c = transferred sha 0 ''d'' [] t"
  define s0 where "s0 = (hinit t)\<lparr>hs_co := c\<rparr>"
  define c1 where "c1 = c\<lparr>co_attempts := 1, co_state := StateRunningTarget, co_targetActive := True\<rparr>"
  define c2 where "c2 = c1\<lparr>co_attempts := 2\<rparr>"
  obtain cp where cp: "co_checkpoint c = Some cp" using transferred_facts(5) unfolding c_def by blast
  have b: "resume_begin c = (Start_run cp 2 1, c1)" "resume_begin c1 = (Start_run cp 2 2, c2)"
    using transferred_facts(1,2,3)[of sha 0 "''d''" "[]" t] cp
    by (simp_all add: resume_begin_def resumable_def c1_def c2_def flip: c_def)
  define s1 where "s1 = s0\<lparr>hs_co := c1, hs_run := (hs_run s0)(0 := RRunning cp 2 1)\<rparr>"
  define s2 where "s2 = s1\<lparr>hs_co := c2, hs_run := (hs_run s1)(1 := RRunning cp 2 2)\<rparr>"
  define s3 where "s3 = s2\<lparr>hs_co := resume_end True (hs_co s2), hs_run := (hs_run s2)(0 := RDone None (Some (HExecutor [])))\<rparr>"
  have 1: "hstep sha ?T s0 s1" unfolding s1_def
    by (rule hstep.h_start) (use b(1) in \<open>simp_all add: s0_def hinit_def\<close>)
  have 2: "hstep sha ?T s1 s2" unfolding s2_def
    by (rule hstep.h_start) (use b(2) in \<open>simp_all add: s0_def s1_def hinit_def\<close>)
  have 3: "hstep sha ?T s2 s3" unfolding s3_def
    by (rule hstep.h_failed[of _ _ cp 2 1]) (simp add: s2_def s1_def)
  have 0: "(hstep sha ?T)\<^sup>*\<^sup>* (hinit t) s0" unfolding s0_def c_def by (rule transferred_reach)
  have r: "(hstep sha ?T)\<^sup>*\<^sup>* (hinit t) s3"
    by (rule rtranclp.rtrancl_into_rtrancl[OF rtranclp.rtrancl_into_rtrancl[OF
          rtranclp.rtrancl_into_rtrancl[OF 0 1] 2] 3])
  have f: "hs_clean s3 0 = CIdle" "\<not> co_targetActive (hs_co s3)" "hs_run s3 1 = RRunning cp 2 2"
    by (simp_all add: s3_def s2_def s1_def s0_def hinit_def resume_end_def Let_def)
  define s4 where "s4 = s3\<lparr>hs_co := cleanup_begin (hs_co s3), hs_clean := (hs_clean s3)(0 := CTearing)\<rparr>"
  have "hreach sha ?T t s4" unfolding hreach_def s4_def
    using rtranclp_trans[OF r hstep_cleanup_torn[OF f(1,2)]] by blast
  moreover have "hs_clean s4 0 = CTearing" "hs_run s4 1 = RRunning cp 2 2" using f(3) by (simp_all add: s4_def)
  ultimately show ?thesis by blast
qed

text \<open>The seal does not separate a completed step from a capability requirement: two
  checkpoints with different requirements have the same digest.\<close>

lemma seal_ambiguous:
  assumes "cp_CapabilityReqs c = [''compute.pure'']" "cp_CompletedSteps c = []"
  shows "cp_CheckpointDigest (SealCheckpoint sha (c\<lparr>cp_CapabilityReqs := [], cp_CompletedSteps := [''cap:compute.pure'']\<rparr>))
    = cp_CheckpointDigest (SealCheckpoint sha c)"
  using assms by (simp add: SealCheckpoint_def seal_payload_def)

end
