(* ===== verification/Authz.thy ===== *)
theory Authz
  imports Contracts
begin

text \<open>
  Relationship policy (\<^verbatim>\<open>services/broker/internal/authz\<close>) and the mapping of peers to
  identities (\<^verbatim>\<open>services/broker/internal/identity\<close>): the in-process evaluator with its
  tuples and deny epochs (\<^verbatim>\<open>evaluator.go\<close>), and the OpenFGA adapter that mirrors the
  tuples locally and asks a remote server (\<^verbatim>\<open>client.go\<close>).  The remote server is an
  argument; what is assumed of it is stated as \<open>openfga_ok\<close>.
\<close>

section \<open>Tuples\<close>

record Tuple =
  t_Object :: string
  t_Relation :: string
  t_User :: string

definition splitEntity :: "string \<Rightarrow> string \<times> string \<times> bool" where
  "splitEntity v =
    (let entityType = takeWhile (\<lambda>c. c \<noteq> CHR '':'') v; rest = dropWhile (\<lambda>c. c \<noteq> CHR '':'') v;
         entityID = tl rest
     in (entityType, entityID, rest \<noteq> [] \<and> entityType \<noteq> [] \<and> entityID \<noteq> []))"

definition containsColon :: "string \<Rightarrow> bool" where
  "containsColon v = snd (snd (splitEntity v))"

definition validTuple :: "Tuple \<Rightarrow> bool" where
  "validTuple t \<longleftrightarrow> t_Object t \<noteq> [] \<and> t_Relation t \<noteq> [] \<and> t_User t \<noteq> []
    \<and> containsColon (t_Object t) \<and> containsColon (t_User t)"

fun index_byte :: "char \<Rightarrow> string \<Rightarrow> int" where
  "index_byte c [] = -1"
| "index_byte c (x # xs) = (if x = c then 0 else let i = index_byte c xs in if i < 0 then -1 else i + 1)"

definition ParseTuple :: "string \<Rightarrow> Tuple option" where
  "ParseTuple v =
    (let hash = index_byte CHR ''#'' v; atp = index_byte CHR ''@'' v
     in if hash \<le> 0 \<or> atp \<le> hash + 1 \<or> atp = int (length v) - 1 then None
        else (let t = \<lparr>t_Object = take (nat hash) v,
                       t_Relation = drop (nat hash + 1) (take (nat atp) v),
                       t_User = drop (nat atp + 1) v\<rparr>
              in if validTuple t then Some t else None))"


section \<open>The evaluator\<close>

text \<open>The tuple set is kept as its list of keys, the epochs as a map with zero default.\<close>

record Evaluator =
  ev_tuples :: "Tuple list"
  ev_epochs :: "(string, 64 word) gomap"

definition NewEvaluator :: Evaluator where
  "NewEvaluator = \<lparr>ev_tuples = [], ev_epochs = []\<rparr>"

definition epoch_of :: "Evaluator \<Rightarrow> string \<Rightarrow> 64 word" where
  "epoch_of e tenant = mget0 0 (ev_epochs e) tenant"

definition has :: "Evaluator \<Rightarrow> string \<Rightarrow> string \<Rightarrow> string \<Rightarrow> bool" where
  "has e object relation user \<longleftrightarrow> \<lparr>t_Object = object, t_Relation = relation, t_User = user\<rparr> \<in> set (ev_tuples e)"

definition relatedObjects :: "Evaluator \<Rightarrow> string \<Rightarrow> string \<Rightarrow> string \<Rightarrow> string list" where
  "relatedObjects e object relation q =
    sort (map t_User (filter (\<lambda>t. t_Object t = object \<and> t_Relation t = relation
        \<and> length (t_User t) > length q \<and> take (length q) (t_User t) = q) (ev_tuples e)))"

definition owningTenant :: "Evaluator \<Rightarrow> string \<Rightarrow> string option" where
  "owningTenant e object =
    (case splitEntity object of (entityType, entityID, ok) \<Rightarrow>
       if \<not> ok then None
       else if entityType = ''tenant'' then Some entityID
       else (let brains = (if entityType = ''evidence'' then Some (relatedObjects e object ''brain'' ''brain:'')
                           else if entityType \<noteq> ''brain'' then None else Some [object])
             in case brains of
                  None \<Rightarrow> None
                | Some bs \<Rightarrow>
                    (case remdups (concat (map (\<lambda>brain. concat (map (\<lambda>tenant.
                         case splitEntity tenant of (_, tenantID, valid) \<Rightarrow> if valid then [tenantID] else [])
                         (relatedObjects e brain ''tenant'' ''tenant:''))) bs)) of
                       [tenant] \<Rightarrow> Some tenant
                     | _ \<Rightarrow> None)))"

definition ev_Write :: "Tuple \<Rightarrow> Evaluator \<Rightarrow> bool \<times> Evaluator" where
  "ev_Write t e =
    (if \<not> validTuple t then (False, e)
     else (True, if t \<in> set (ev_tuples e) then e else e\<lparr>ev_tuples := t # ev_tuples e\<rparr>))"

definition ev_Delete :: "Tuple \<Rightarrow> Evaluator \<Rightarrow> (string \<times> 64 word) option \<times> Evaluator" where
  "ev_Delete t e =
    (if \<not> validTuple t then (None, e)
     else if t \<notin> set (ev_tuples e) then (None, e)
     else (case owningTenant e (t_Object t) of
             None \<Rightarrow> (None, e)
           | Some tenant \<Rightarrow>
               (let n = epoch_of e tenant + 1
                in (Some (tenant, n),
                    e\<lparr>ev_tuples := removeAll t (ev_tuples e), ev_epochs := mput tenant n (ev_epochs e)\<rparr>))))"

definition ev_SetEpoch :: "string \<Rightarrow> 64 word \<Rightarrow> Evaluator \<Rightarrow> bool \<times> Evaluator" where
  "ev_SetEpoch tenant epoch e =
    (if tenant = [] then (False, e)
     else if epoch < epoch_of e tenant then (False, e)
     else (True, e\<lparr>ev_epochs := mput tenant epoch (ev_epochs e)\<rparr>))"

definition ev_Epoch :: "string \<Rightarrow> Evaluator \<Rightarrow> 64 word option" where
  "ev_Epoch tenant e = (if tenant = [] then None else Some (epoch_of e tenant))"

definition deniedReceipt :: Receipt where
  "deniedReceipt = \<lparr>OperationID = \<lparr>Namespace = ''authorization'', IdValue = ''current-check''\<rparr>,
     Status = ''rejected'', ReasonCode = ''not_found_or_denied'', Watermark = 0\<rparr>"

definition denied_at :: "64 word \<Rightarrow> PolicyDecision" where
  "denied_at n = \<lparr>pd_Allowed = False, pd_Receipt = deniedReceipt, pd_RevocationEpoch = n\<rparr>"

definition allowed_at :: "64 word \<Rightarrow> PolicyDecision" where
  "allowed_at n = \<lparr>pd_Allowed = True,
     pd_Receipt = deniedReceipt\<lparr>Status := ''completed'', ReasonCode := ''allowed''\<rparr>, pd_RevocationEpoch = n\<rparr>"

definition identity_ok :: "MappedIdentityFact \<Rightarrow> bool" where
  "identity_ok who \<longleftrightarrow> Namespace (mi_Principal who) = ''principal'' \<and> IdValue (mi_Principal who) \<noteq> []
    \<and> Namespace (mi_Tenant who) = ''tenant'' \<and> IdValue (mi_Tenant who) \<noteq> []"

definition user_of :: "MappedIdentityFact \<Rightarrow> string" where
  "user_of who = ''user:'' @ IdValue (mi_Principal who)"

definition evidence_object :: "string \<Rightarrow> string" where
  "evidence_object v = ''evidence:'' @ v"

definition brain_object :: "string \<Rightarrow> string" where
  "brain_object v = ''brain:'' @ v"

definition tenant_object :: "string \<Rightarrow> string" where
  "tenant_object v = ''tenant:'' @ v"

definition ev_Check :: "MappedIdentityFact \<Rightarrow> PolicyRequest \<Rightarrow> Evaluator \<Rightarrow> PolicyDecision" where
  "ev_Check who req e =
    (if \<not> identity_ok who \<or> Namespace (pr_Resource req) \<noteq> ''evidence'' \<or> IdValue (pr_Resource req) = []
     then denied_at 0
     else (let current = epoch_of e (IdValue (mi_Tenant who)); user = user_of who
           in if pr_RevocationEpoch req \<noteq> current then denied_at current
              else if pr_Action req \<notin> {''artifact.read'', ''artifact.admit'', ''artifact.delete''} then denied_at current
              else if list_ex (\<lambda>brain. has e brain ''tenant'' (tenant_object (IdValue (mi_Tenant who)))
                      \<and> (if pr_Action req = ''artifact.read'' then has e brain ''owner'' user \<or> has e brain ''viewer'' user
                         else has e brain ''owner'' user))
                    (relatedObjects e (evidence_object (IdValue (pr_Resource req))) ''brain'' ''brain:'')
              then allowed_at current else denied_at current))"

definition owner_actions :: "string list" where
  "owner_actions = [''source.add'', ''source.reconcile'', ''source.revoke'',
     ''factory.admit'', ''factory.cancel'', ''file.read'', ''file.write'']"

definition reader_actions :: "string list" where
  "reader_actions = [''source.status'', ''source.search'', ''query'', ''hydrate'', ''emit'']"

definition ev_CheckSource :: "MappedIdentityFact \<Rightarrow> string \<Rightarrow> Identifier \<Rightarrow> Evaluator \<Rightarrow> PolicyDecision" where
  "ev_CheckSource who action brain e =
    (if \<not> identity_ok who \<or> Namespace brain \<noteq> ''brain'' \<or> IdValue brain = [] then denied_at 0
     else (let current = epoch_of e (IdValue (mi_Tenant who)); brainObject = brain_object (IdValue brain); user = user_of who
           in if \<not> has e brainObject ''tenant'' (tenant_object (IdValue (mi_Tenant who))) then denied_at current
              else (let owner = has e brainObject ''owner'' user
                    in if action \<in> set owner_actions then (if owner then allowed_at current else denied_at current)
                       else if action \<in> set reader_actions
                       then (if owner \<or> has e brainObject ''viewer'' user then allowed_at current else denied_at current)
                       else denied_at current)))"

definition evidenceInTenant :: "Evaluator \<Rightarrow> string \<Rightarrow> string \<Rightarrow> bool" where
  "evidenceInTenant e evidenceObject tenant \<longleftrightarrow> tenant \<noteq> []
    \<and> list_ex (\<lambda>brain. has e brain ''tenant'' (tenant_object tenant)) (relatedObjects e evidenceObject ''brain'' ''brain:'')"

definition brainInTenant :: "Evaluator \<Rightarrow> string \<Rightarrow> string \<Rightarrow> bool" where
  "brainInTenant e brainObject tenant \<longleftrightarrow> tenant \<noteq> [] \<and> has e brainObject ''tenant'' (tenant_object tenant)"


section \<open>The OpenFGA adapter\<close>

text \<open>The remote server: a transactional write and a check that may fail.\<close>

record 'r remote =
  r_Write :: "Tuple list \<Rightarrow> Tuple list \<Rightarrow> 'r \<Rightarrow> bool \<times> 'r"
  r_Check :: "string \<Rightarrow> string \<Rightarrow> string \<Rightarrow> 'r \<Rightarrow> bool option"

record 'r Client =
  cl_local :: Evaluator
  cl_remote :: 'r

definition NewClient :: "'r \<Rightarrow> 'r Client" where
  "NewClient r = \<lparr>cl_local = NewEvaluator, cl_remote = r\<rparr>"

definition client_Write :: "'r remote \<Rightarrow> Tuple \<Rightarrow> 'r Client \<Rightarrow> bool \<times> 'r Client" where
  "client_Write srv t c =
    (if \<not> validTuple t then (False, c)
     else (case r_Write srv [t] [] (cl_remote c) of
             (False, r) \<Rightarrow> (False, c\<lparr>cl_remote := r\<rparr>)
           | (True, r) \<Rightarrow> (let (ok, e) = ev_Write t (cl_local c) in (ok, c\<lparr>cl_remote := r, cl_local := e\<rparr>))))"

definition client_Delete :: "'r remote \<Rightarrow> Tuple \<Rightarrow> 'r Client \<Rightarrow> (string \<times> 64 word) option \<times> 'r Client" where
  "client_Delete srv t c =
    (if \<not> validTuple t then (None, c)
     else if t \<notin> set (ev_tuples (cl_local c)) then (None, c)
     else if owningTenant (cl_local c) (t_Object t) = None then (None, c)
     else (case r_Write srv [] [t] (cl_remote c) of
             (False, r) \<Rightarrow> (None, c\<lparr>cl_remote := r\<rparr>)
           | (True, r) \<Rightarrow> (let (x, e) = ev_Delete t (cl_local c) in (x, c\<lparr>cl_remote := r, cl_local := e\<rparr>))))"

definition client_SetEpoch :: "string \<Rightarrow> 64 word \<Rightarrow> 'r Client \<Rightarrow> bool \<times> 'r Client" where
  "client_SetEpoch tenant n c = (let (ok, e) = ev_SetEpoch tenant n (cl_local c) in (ok, c\<lparr>cl_local := e\<rparr>))"

definition client_Epoch :: "string \<Rightarrow> 'r Client \<Rightarrow> 64 word option" where
  "client_Epoch tenant c = ev_Epoch tenant (cl_local c)"

definition evidenceRelationForAction :: "string \<Rightarrow> string option" where
  "evidenceRelationForAction action =
    (if action = ''artifact.read'' then Some ''reader''
     else if action = ''artifact.admit'' then Some ''admittor''
     else if action = ''artifact.delete'' then Some ''deleter''
     else None)"

definition brainRelationForSourceAction :: "string \<Rightarrow> string option" where
  "brainRelationForSourceAction action =
    (if action \<in> set owner_actions then Some ''writer''
     else if action \<in> set reader_actions then Some ''reader''
     else None)"

text \<open>The second component of an answer says whether the remote check failed.\<close>

definition client_Check :: "'r remote \<Rightarrow> MappedIdentityFact \<Rightarrow> PolicyRequest \<Rightarrow> 'r Client \<Rightarrow> PolicyDecision \<times> bool" where
  "client_Check srv who req c =
    (if \<not> identity_ok who \<or> Namespace (pr_Resource req) \<noteq> ''evidence'' \<or> IdValue (pr_Resource req) = []
     then (denied_at 0, False)
     else (case ev_Epoch (IdValue (mi_Tenant who)) (cl_local c) of
             None \<Rightarrow> (denied_at 0, False)
           | Some current \<Rightarrow>
               if pr_RevocationEpoch req \<noteq> current then (denied_at current, False)
               else (case evidenceRelationForAction (pr_Action req) of
                       None \<Rightarrow> (denied_at current, False)
                     | Some relation \<Rightarrow>
                         (let evidence = evidence_object (IdValue (pr_Resource req))
                          in if \<not> evidenceInTenant (cl_local c) evidence (IdValue (mi_Tenant who))
                             then (denied_at current, False)
                             else (case r_Check srv (user_of who) relation evidence (cl_remote c) of
                                     None \<Rightarrow> (denied_at current, True)
                                   | Some True \<Rightarrow> (allowed_at current, False)
                                   | Some False \<Rightarrow> (denied_at current, False))))))"

definition client_CheckSource :: "'r remote \<Rightarrow> MappedIdentityFact \<Rightarrow> string \<Rightarrow> Identifier \<Rightarrow> 'r Client
    \<Rightarrow> PolicyDecision \<times> bool" where
  "client_CheckSource srv who action brain c =
    (if \<not> identity_ok who \<or> Namespace brain \<noteq> ''brain'' \<or> IdValue brain = [] then (denied_at 0, False)
     else (case ev_Epoch (IdValue (mi_Tenant who)) (cl_local c) of
             None \<Rightarrow> (denied_at 0, False)
           | Some current \<Rightarrow>
               (let brainObject = brain_object (IdValue brain)
                in if \<not> brainInTenant (cl_local c) brainObject (IdValue (mi_Tenant who)) then (denied_at current, False)
                   else (case brainRelationForSourceAction action of
                           None \<Rightarrow> (denied_at current, False)
                         | Some relation \<Rightarrow>
                             (case r_Check srv (user_of who) relation brainObject (cl_remote c) of
                                None \<Rightarrow> (denied_at current, True)
                              | Some True \<Rightarrow> (allowed_at current, False)
                              | Some False \<Rightarrow> (denied_at current, False))))))"


section \<open>Peer identity\<close>

record Mapper =
  mp_uid :: "32 word"
  mp_principal :: Identifier
  mp_tenant :: Identifier

definition validID :: "Identifier \<Rightarrow> string \<Rightarrow> bool" where
  "validID i namespace \<longleftrightarrow> Namespace i = namespace \<and> IdValue i \<noteq> []"

definition NewMapper :: "32 word \<Rightarrow> Identifier \<Rightarrow> Identifier \<Rightarrow> Mapper option" where
  "NewMapper uid prin tenant =
    (if \<not> validID prin ''principal'' \<or> \<not> validID tenant ''tenant'' then None
     else Some \<lparr>mp_uid = uid, mp_principal = prin, mp_tenant = tenant\<rparr>)"

definition Map_peer :: "Mapper \<Rightarrow> PeerCredentials \<Rightarrow> Identifier \<Rightarrow> MappedIdentityFact option" where
  "Map_peer m credentials session =
    (if pc_UID credentials \<noteq> mp_uid m \<or> pc_PID credentials = 0 \<or> \<not> validID session ''session'' then None
     else Some \<lparr>mi_Principal = mp_principal m, mi_Tenant = mp_tenant m, mi_Session = session,
                mi_Credentials = credentials\<rparr>)"

definition CrossCheckCommand :: "MappedIdentityFact \<Rightarrow> Identifier \<Rightarrow> Identifier \<Rightarrow> Identifier \<Rightarrow> bool" where
  "CrossCheckCommand who bodyPrincipal bodyTenant bodySession \<longleftrightarrow>
    \<not> (\<not> validID (mi_Principal who) ''principal'' \<or> \<not> validID (mi_Tenant who) ''tenant''
       \<or> \<not> validID (mi_Session who) ''session'' \<or> bodyPrincipal \<noteq> mi_Principal who
       \<or> bodyTenant \<noteq> mi_Tenant who \<or> bodySession \<noteq> mi_Session who)"

definition CrossCheckStatus :: "MappedIdentityFact \<Rightarrow> Identifier \<Rightarrow> bool" where
  "CrossCheckStatus who requestedSession \<longleftrightarrow>
    \<not> (\<not> validID (mi_Session who) ''session'' \<or> requestedSession \<noteq> mi_Session who)"


section \<open>Facts about the evaluator\<close>

lemma relatedObjects_iff:
  "u \<in> set (relatedObjects e object relation q) \<longleftrightarrow> has e object relation u \<and> length u > length q \<and> take (length q) u = q"
proof
  assume "u \<in> set (relatedObjects e object relation q)"
  then obtain t where "t \<in> set (ev_tuples e)" "t_Object t = object" "t_Relation t = relation" "t_User t = u"
    "length u > length q" "take (length q) u = q"
    by (auto simp: relatedObjects_def)
  moreover from this have "t = \<lparr>t_Object = object, t_Relation = relation, t_User = u\<rparr>"
    by (intro Tuple.equality) simp_all
  ultimately show "has e object relation u \<and> length u > length q \<and> take (length q) u = q"
    by (simp add: has_def)
next
  assume "has e object relation u \<and> length u > length q \<and> take (length q) u = q"
  then show "u \<in> set (relatedObjects e object relation q)"
    by (force simp: relatedObjects_def has_def)
qed

definition brain_of_evidence :: "Evaluator \<Rightarrow> string \<Rightarrow> string \<Rightarrow> bool" where
  "brain_of_evidence e ev brain \<longleftrightarrow> has e (evidence_object ev) ''brain'' brain \<and> length brain > length ''brain:''
    \<and> take (length ''brain:'') brain = ''brain:''"

lemma evidence_brains:
  "list_ex P (relatedObjects e (evidence_object ev) ''brain'' ''brain:'') \<longleftrightarrow> (\<exists>b. brain_of_evidence e ev b \<and> P b)"
  unfolding list_ex_iff Bex_def relatedObjects_iff brain_of_evidence_def by blast

lemma ev_Check_allowed:
  "pd_Allowed (ev_Check who req e) \<longleftrightarrow>
    identity_ok who \<and> Namespace (pr_Resource req) = ''evidence'' \<and> IdValue (pr_Resource req) \<noteq> []
    \<and> pr_RevocationEpoch req = epoch_of e (IdValue (mi_Tenant who))
    \<and> pr_Action req \<in> {''artifact.read'', ''artifact.admit'', ''artifact.delete''}
    \<and> (\<exists>brain. brain_of_evidence e (IdValue (pr_Resource req)) brain \<and> has e brain ''tenant'' (tenant_object (IdValue (mi_Tenant who)))
         \<and> (has e brain ''owner'' (user_of who) \<or> pr_Action req = ''artifact.read'' \<and> has e brain ''viewer'' (user_of who)))"
  by (auto simp: ev_Check_def denied_at_def allowed_at_def Let_def evidence_brains)

lemma ev_Check_decision:
  "ev_Check who req e = denied_at 0 \<or> ev_Check who req e =
    (if pd_Allowed (ev_Check who req e) then allowed_at (epoch_of e (IdValue (mi_Tenant who)))
     else denied_at (epoch_of e (IdValue (mi_Tenant who))))"
  by (simp add: ev_Check_def denied_at_def allowed_at_def Let_def)

lemma ev_Write_epoch: "epoch_of (snd (ev_Write t e)) = epoch_of e"
  by (auto simp: ev_Write_def epoch_of_def fun_eq_iff)

lemma ev_Delete_epoch:
  "ev_Delete t e = (Some (tenant, n), e') \<Longrightarrow> n = epoch_of e tenant + 1 \<and> epoch_of e' = (epoch_of e)(tenant := n)"
  "ev_Delete t e = (None, e') \<Longrightarrow> e' = e"
  by (auto simp: ev_Delete_def epoch_of_def fun_eq_iff Let_def split: if_splits option.splits)

lemma ev_SetEpoch_epoch:
  "ev_SetEpoch tenant n e = (ok, e') \<Longrightarrow>
    (if ok then epoch_of e tenant \<le> n \<and> epoch_of e' = (epoch_of e)(tenant := n) else e' = e)"
  by (auto simp: ev_SetEpoch_def epoch_of_def fun_eq_iff split: if_splits)

lemma ev_tuples_write: "set (ev_tuples (snd (ev_Write t e))) = (if validTuple t then insert t (set (ev_tuples e)) else set (ev_tuples e))"
  by (auto simp: ev_Write_def)


section \<open>The two stores agree\<close>

text \<open>The checked-in relationship model the server evaluates: evidence inherits reader,
  admittor and deleter from its brains; the owner of a brain reads and writes, a viewer
  reads.\<close>

definition in_tuples :: "Tuple set \<Rightarrow> string \<Rightarrow> string \<Rightarrow> string \<Rightarrow> bool" where
  "in_tuples S object relation user \<longleftrightarrow> \<lparr>t_Object = object, t_Relation = relation, t_User = user\<rparr> \<in> S"

definition brain_grants :: "Tuple set \<Rightarrow> string \<Rightarrow> string \<Rightarrow> string \<Rightarrow> bool" where
  "brain_grants S user relation brain \<longleftrightarrow>
    (if relation = ''reader'' then in_tuples S brain ''owner'' user \<or> in_tuples S brain ''viewer'' user
     else in_tuples S brain ''owner'' user)"

definition model_check :: "Tuple set \<Rightarrow> string \<Rightarrow> string \<Rightarrow> string \<Rightarrow> bool" where
  "model_check S user relation object \<longleftrightarrow>
    (has_prefix object ''evidence:'' \<and> relation \<in> {''reader'', ''admittor'', ''deleter''}
       \<and> (\<exists>t \<in> S. t_Object t = object \<and> t_Relation t = ''brain'' \<and> has_prefix (t_User t) ''brain:''
            \<and> brain_grants S user relation (t_User t)))
    \<or> (has_prefix object ''brain:'' \<and> relation \<in> {''reader'', ''writer''} \<and> brain_grants S user relation object)"

text \<open>Documented behaviour of a reachable server: a write of a tuple that the model admits and
  that the store does not hold succeeds and is applied; a write of any other tuple is
  rejected and changes nothing; removing a tuple that is held succeeds; and a check answers
  according to the model over the written tuples.  \<open>admits\<close> says which tuples have a relation
  and a type of user that the model defines.\<close>

definition openfga_ok :: "(Tuple \<Rightarrow> bool) \<Rightarrow> 'r remote \<Rightarrow> ('r \<Rightarrow> Tuple set) \<Rightarrow> bool" where
  "openfga_ok admits srv view \<longleftrightarrow>
    (\<forall>t r. admits t \<and> t \<notin> view r \<longrightarrow> (\<exists>r'. r_Write srv [t] [] r = (True, r') \<and> view r' = insert t (view r)))
    \<and> (\<forall>t r. \<not> admits t \<or> t \<in> view r \<longrightarrow> (\<exists>r'. r_Write srv [t] [] r = (False, r') \<and> view r' = view r))
    \<and> (\<forall>t r. t \<in> view r \<longrightarrow> (\<exists>r'. r_Write srv [] [t] r = (True, r') \<and> view r' = view r - {t}))
    \<and> (\<forall>user relation object r. r_Check srv user relation object r = Some (model_check (view r) user relation object))"

datatype store_op = OpWrite Tuple | OpRemove Tuple | OpEpoch string "64 word"

text \<open>Both stores driven by the same operations, with the answers.\<close>

fun ev_op :: "store_op \<Rightarrow> Evaluator \<Rightarrow> (bool \<times> (string \<times> 64 word) option) \<times> Evaluator" where
  "ev_op (OpWrite t) e = (let (ok, e') = ev_Write t e in ((ok, None), e'))"
| "ev_op (OpRemove t) e = (let (x, e') = ev_Delete t e in ((x \<noteq> None, x), e'))"
| "ev_op (OpEpoch tenant n) e = (let (ok, e') = ev_SetEpoch tenant n e in ((ok, None), e'))"

fun client_op :: "'r remote \<Rightarrow> store_op \<Rightarrow> 'r Client \<Rightarrow> (bool \<times> (string \<times> 64 word) option) \<times> 'r Client" where
  "client_op srv (OpWrite t) c = (let (ok, c') = client_Write srv t c in ((ok, None), c'))"
| "client_op srv (OpRemove t) c = (let (x, c') = client_Delete srv t c in ((x \<noteq> None, x), c'))"
| "client_op srv (OpEpoch tenant n) c = (let (ok, c') = client_SetEpoch tenant n c in ((ok, None), c'))"

fun ev_ops :: "store_op list \<Rightarrow> Evaluator \<Rightarrow> (bool \<times> (string \<times> 64 word) option) list \<times> Evaluator" where
  "ev_ops [] e = ([], e)"
| "ev_ops (x # xs) e = (let (a, e') = ev_op x e; (as, e'') = ev_ops xs e' in (a # as, e''))"

fun client_ops :: "'r remote \<Rightarrow> store_op list \<Rightarrow> 'r Client \<Rightarrow> (bool \<times> (string \<times> 64 word) option) list \<times> 'r Client" where
  "client_ops srv [] c = ([], c)"
| "client_ops srv (x # xs) c = (let (a, c') = client_op srv x c; (as, c'') = client_ops srv xs c' in (a # as, c''))"

text \<open>The answers that the adapter gives, by the state of the evaluator: a repeated write is an
  error of the server, while the evaluator accepts it; every other answer is the same.\<close>

fun repeated :: "store_op \<Rightarrow> Evaluator \<Rightarrow> bool" where
  "repeated (OpWrite t) e = (validTuple t \<and> t \<in> set (ev_tuples e))"
| "repeated _ e = False"

fun adapter_answers :: "store_op list \<Rightarrow> Evaluator \<Rightarrow> (bool \<times> (string \<times> 64 word) option) list" where
  "adapter_answers [] e = []"
| "adapter_answers (x # xs) e =
    (if repeated x e then (False, None) else fst (ev_op x e)) # adapter_answers xs (snd (ev_op x e))"

text \<open>Every valid tuple that the operations write is one that the model admits.\<close>

fun admitted :: "(Tuple \<Rightarrow> bool) \<Rightarrow> store_op \<Rightarrow> bool" where
  "admitted admits (OpWrite t) = (validTuple t \<longrightarrow> admits t)"
| "admitted admits _ = True"

definition in_sync :: "('r \<Rightarrow> Tuple set) \<Rightarrow> Evaluator \<Rightarrow> 'r Client \<Rightarrow> bool" where
  "in_sync view e c \<longleftrightarrow> cl_local c = e \<and> view (cl_remote c) = set (ev_tuples e) \<and> list_all validTuple (ev_tuples e)"

lemma openfga_okD:
  assumes "openfga_ok admits srv view"
  shows "admits t \<Longrightarrow> t \<notin> view r \<Longrightarrow> \<exists>r'. r_Write srv [t] [] r = (True, r') \<and> view r' = insert t (view r)"
    "\<not> admits t \<or> t \<in> view r \<Longrightarrow> \<exists>r'. r_Write srv [t] [] r = (False, r') \<and> view r' = view r"
    "t \<in> view r \<Longrightarrow> \<exists>r'. r_Write srv [] [t] r = (True, r') \<and> view r' = view r - {t}"
    "r_Check srv user relation object r = Some (model_check (view r) user relation object)"
  using assms unfolding openfga_ok_def by simp_all

lemma in_syncD:
  assumes "in_sync view e c"
  shows "cl_local c = e" "view (cl_remote c) = set (ev_tuples e)" "list_all validTuple (ev_tuples e)"
  using assms by (simp_all add: in_sync_def)

lemma sync_write:
  assumes "openfga_ok admits srv view" "in_sync view e c" "validTuple t \<longrightarrow> admits t"
  shows "fst (client_Write srv t c) = (fst (ev_Write t e) \<and> t \<notin> set (ev_tuples e))
    \<and> in_sync view (snd (ev_Write t e)) (snd (client_Write srv t c))"
proof (cases "validTuple t")
  case True
  show ?thesis
  proof (cases "t \<in> set (ev_tuples e)")
    case False
    then have "t \<notin> view (cl_remote c)" by (simp add: in_syncD(2)[OF assms(2)])
    then obtain r' where r: "r_Write srv [t] [] (cl_remote c) = (True, r')" "view r' = insert t (view (cl_remote c))"
      using openfga_okD(1)[OF assms(1)] True assms(3) by blast
    with True False show ?thesis
      by (simp add: client_Write_def ev_Write_def in_sync_def in_syncD[OF assms(2)])
  next
    case held: True
    then have "t \<in> view (cl_remote c)" by (simp add: in_syncD(2)[OF assms(2)])
    then obtain r' where r: "r_Write srv [t] [] (cl_remote c) = (False, r')" "view r' = view (cl_remote c)"
      using openfga_okD(2)[OF assms(1), of t] by blast
    with True held show ?thesis
      by (simp add: client_Write_def ev_Write_def in_sync_def in_syncD[OF assms(2)])
  qed
qed (simp add: client_Write_def ev_Write_def assms(2))

lemma sync_delete:
  assumes "openfga_ok admits srv view" "in_sync view e c"
  shows "fst (client_Delete srv t c) = fst (ev_Delete t e) \<and> in_sync view (snd (ev_Delete t e)) (snd (client_Delete srv t c))"
proof (cases "validTuple t \<and> t \<in> set (ev_tuples e) \<and> owningTenant e (t_Object t) \<noteq> None")
  case True
  then have "t \<in> view (cl_remote c)" using assms(2) by (simp add: in_sync_def)
  with assms(1) obtain r' where r: "r_Write srv [] [t] (cl_remote c) = (True, r')" "view r' = view (cl_remote c) - {t}"
    using openfga_okD(3)[OF assms(1)] by blast
  moreover obtain tenant where "owningTenant e (t_Object t) = Some tenant" using True by blast
  moreover have "list_all validTuple (removeAll t (ev_tuples e))" using in_syncD(3)[OF assms(2)] by (simp add: list_all_iff)
  ultimately show ?thesis using True
    by (simp add: client_Delete_def ev_Delete_def in_sync_def in_syncD[OF assms(2)] Let_def)
next
  case False
  then have "client_Delete srv t c = (None, c)" "ev_Delete t e = (None, e)"
    by (auto simp: client_Delete_def ev_Delete_def in_syncD[OF assms(2)])
  then show ?thesis by (simp add: assms(2))
qed

lemma sync_op:
  assumes "openfga_ok admits srv view" "in_sync view e c" "admitted admits x"
  shows "fst (client_op srv x c) = (if repeated x e then (False, None) else fst (ev_op x e))
    \<and> in_sync view (snd (ev_op x e)) (snd (client_op srv x c))"
proof (cases x)
  case (OpWrite t)
  then show ?thesis using sync_write[OF assms(1,2), of t] assms(3)
    by (cases "validTuple t") (auto simp: case_prod_beta Let_def ev_Write_def)
next
  case (OpRemove t)
  then show ?thesis using sync_delete[OF assms(1,2)] by (simp add: case_prod_beta Let_def)
next
  case (OpEpoch tenant n)
  then show ?thesis
    by (simp add: client_SetEpoch_def ev_SetEpoch_def in_sync_def in_syncD[OF assms(2)] case_prod_beta Let_def)
qed

lemma sync_ops:
  assumes "openfga_ok admits srv view" "in_sync view e c" "list_all (admitted admits) xs"
  shows "fst (client_ops srv xs c) = adapter_answers xs e \<and> in_sync view (snd (ev_ops xs e)) (snd (client_ops srv xs c))"
  using assms(2,3)
proof (induction xs arbitrary: e c)
  case (Cons x xs)
  have x: "admitted admits x" "list_all (admitted admits) xs" using Cons.prems(2) by simp_all
  have o: "fst (client_op srv x c) = (if repeated x e then (False, None) else fst (ev_op x e))"
    "in_sync view (snd (ev_op x e)) (snd (client_op srv x c))"
    using sync_op[OF assms(1) Cons.prems(1) x(1)] by blast+
  with Cons.IH[OF o(2) x(2)] show ?case by (simp add: case_prod_beta Let_def)
qed simp

lemma valid_brain_user:
  assumes "validTuple t" "has_prefix (t_User t) ''brain:''"
  shows "length (t_User t) > length ''brain:''"
proof -
  obtain v where v: "t_User t = ''brain:'' @ v" using assms(2) by (auto simp: has_prefix_iff)
  have "v \<noteq> []" using assms(1) by (auto simp: v validTuple_def containsColon_def splitEntity_def Let_def)
  then show ?thesis by (simp add: v)
qed

lemma brain_grants_has:
  "in_sync view e c \<Longrightarrow> in_tuples (view (cl_remote c)) x r u \<longleftrightarrow> has e x r u"
  by (simp add: in_syncD in_tuples_def has_def)

lemma model_check_evidence:
  assumes "in_sync view e c" "relation \<in> {''reader'', ''admittor'', ''deleter''}"
  shows "model_check (view (cl_remote c)) user relation (evidence_object ev) \<longleftrightarrow>
    (\<exists>b. brain_of_evidence e ev b \<and> brain_grants (view (cl_remote c)) user relation b)"
proof -
  have eq: "(\<exists>t \<in> set (ev_tuples e). t_Object t = evidence_object ev \<and> t_Relation t = ''brain'' \<and> has_prefix (t_User t) ''brain:''
        \<and> P (t_User t)) \<longleftrightarrow> (\<exists>b. brain_of_evidence e ev b \<and> P b)" for P
  proof
    assume "\<exists>t \<in> set (ev_tuples e). t_Object t = evidence_object ev \<and> t_Relation t = ''brain'' \<and> has_prefix (t_User t) ''brain:'' \<and> P (t_User t)"
    then obtain t where t: "t \<in> set (ev_tuples e)" "t_Object t = evidence_object ev" "t_Relation t = ''brain''"
      "has_prefix (t_User t) ''brain:''" "P (t_User t)" by blast
    have "validTuple t" using t(1) assms(1) by (simp add: in_sync_def list_all_iff)
    moreover have "t = \<lparr>t_Object = evidence_object ev, t_Relation = ''brain'', t_User = t_User t\<rparr>"
      using t(2,3) by (intro Tuple.equality) simp_all
    ultimately have "brain_of_evidence e ev (t_User t)"
      using t(1,4) valid_brain_user[of t] by (simp add: brain_of_evidence_def has_def has_prefix_def)
    with t(5) show "\<exists>b. brain_of_evidence e ev b \<and> P b" by blast
  next
    assume "\<exists>b. brain_of_evidence e ev b \<and> P b"
    then obtain b where "brain_of_evidence e ev b" "P b" by blast
    then show "\<exists>t \<in> set (ev_tuples e). t_Object t = evidence_object ev \<and> t_Relation t = ''brain''
        \<and> has_prefix (t_User t) ''brain:'' \<and> P (t_User t)"
      by (intro bexI[of _ "\<lparr>t_Object = evidence_object ev, t_Relation = ''brain'', t_User = b\<rparr>"])
        (simp_all add: brain_of_evidence_def has_def has_prefix_def)
  qed
  have "has_prefix (evidence_object ev) ''evidence:''" "\<not> has_prefix (evidence_object ev) ''brain:''"
    by (simp_all add: evidence_object_def has_prefix_def)
  then show ?thesis
    using assms(2) eq[of "brain_grants (view (cl_remote c)) user relation"] assms(1)
    unfolding model_check_def in_sync_def by simp
qed

lemma check_agrees:
  assumes ok: "openfga_ok admits srv view" and sync: "in_sync view e c"
    and scoped: "\<And>b. brain_of_evidence e (IdValue (pr_Resource req)) b \<Longrightarrow> has e b ''tenant'' (tenant_object (IdValue (mi_Tenant who)))"
  shows "client_Check srv who req c = (ev_Check who req e, False)"
proof -
  let ?ev = "IdValue (pr_Resource req)" and ?t = "IdValue (mi_Tenant who)" and ?S = "view (cl_remote c)"
  have loc: "cl_local c = e" by (rule in_syncD(1)[OF sync])
  consider (bad) "\<not> identity_ok who \<or> Namespace (pr_Resource req) \<noteq> ''evidence'' \<or> ?ev = []"
    | (stale) "pr_RevocationEpoch req \<noteq> epoch_of e ?t" "identity_ok who" "Namespace (pr_Resource req) = ''evidence''" "?ev \<noteq> []"
    | (act) "pr_Action req \<notin> {''artifact.read'', ''artifact.admit'', ''artifact.delete''}" "pr_RevocationEpoch req = epoch_of e ?t"
        "identity_ok who" "Namespace (pr_Resource req) = ''evidence''" "?ev \<noteq> []"
    | (ok) "pr_Action req \<in> {''artifact.read'', ''artifact.admit'', ''artifact.delete''}" "pr_RevocationEpoch req = epoch_of e ?t"
        "identity_ok who" "Namespace (pr_Resource req) = ''evidence''" "?ev \<noteq> []"
    by blast
  then show ?thesis
  proof cases
    case bad
    then show ?thesis by (auto simp: client_Check_def ev_Check_def)
  next
    case stale
    then show ?thesis by (simp add: client_Check_def ev_Check_def loc ev_Epoch_def identity_ok_def)
  next
    case act
    then show ?thesis by (simp add: client_Check_def ev_Check_def loc ev_Epoch_def identity_ok_def evidenceRelationForAction_def)
  next
    case ok
    obtain relation where rel: "evidenceRelationForAction (pr_Action req) = Some relation"
        "relation \<in> {''reader'', ''admittor'', ''deleter''}" "relation = ''reader'' \<longleftrightarrow> pr_Action req = ''artifact.read''"
      using ok(1) by (auto simp: evidenceRelationForAction_def)
    have t: "?t \<noteq> []" using ok(3) by (simp add: identity_ok_def)
    have chk: "r_Check srv (user_of who) relation (evidence_object ?ev) (cl_remote c)
        = Some (\<exists>b. brain_of_evidence e ?ev b \<and> brain_grants ?S (user_of who) relation b)"
      using openfga_okD(4)[OF assms(1)] model_check_evidence[OF sync rel(2)] by simp
    have gr: "brain_grants ?S (user_of who) relation b \<longleftrightarrow>
        (if pr_Action req = ''artifact.read'' then has e b ''owner'' (user_of who) \<or> has e b ''viewer'' (user_of who)
         else has e b ''owner'' (user_of who))" for b
      using rel(3) by (simp add: brain_grants_def brain_grants_has[OF sync])
    have inT: "evidenceInTenant e (evidence_object ?ev) ?t \<longleftrightarrow> (\<exists>b. brain_of_evidence e ?ev b)"
      using scoped t by (auto simp: evidenceInTenant_def evidence_brains)
    show ?thesis
      using ok rel(1) t chk gr inT scoped
      by (auto simp: client_Check_def ev_Check_def loc ev_Epoch_def Let_def evidence_brains split: bool.splits)
  qed
qed

lemma check_source_agrees:
  assumes ok: "openfga_ok admits srv view" and sync: "in_sync view e c"
  shows "client_CheckSource srv who action brain c = (ev_CheckSource who action brain e, False)"
proof -
  let ?t = "IdValue (mi_Tenant who)" and ?S = "view (cl_remote c)" and ?b = "brain_object (IdValue brain)"
  have loc: "cl_local c = e" by (rule in_syncD(1)[OF sync])
  have pre: "has_prefix ?b ''brain:''" "\<not> has_prefix ?b ''evidence:''" by (simp_all add: brain_object_def has_prefix_def)
  have chk: "r_Check srv (user_of who) relation ?b (cl_remote c) = Some (brain_grants ?S (user_of who) relation ?b)"
    if "relation \<in> {''reader'', ''writer''}" for relation
    using openfga_okD(4)[OF ok] pre that by (simp add: model_check_def)
  have gr: "brain_grants ?S (user_of who) ''writer'' ?b \<longleftrightarrow> has e ?b ''owner'' (user_of who)"
    "brain_grants ?S (user_of who) ''reader'' ?b \<longleftrightarrow> has e ?b ''owner'' (user_of who) \<or> has e ?b ''viewer'' (user_of who)"
    by (simp_all add: brain_grants_def brain_grants_has[OF sync])
  show ?thesis
    using chk[of "''reader''"] chk[of "''writer''"] gr
    by (auto simp: client_CheckSource_def ev_CheckSource_def loc ev_Epoch_def brainInTenant_def
        brainRelationForSourceAction_def identity_ok_def Let_def split: bool.splits)
qed


section \<open>Properties\<close>

text \<open>C25.  The two policy stores are interchangeable.  Let the in-process evaluator and the
  OpenFGA adapter be driven by the same writes, removals and epoch changes from empty, over a
  reachable server that admits the written tuples and answers by the checked-in relationship
  model.  Then the adapter gives the evaluator's answer to every operation except a write of a
  tuple that is already held, which the server rejects and the evaluator accepts, and
  afterwards both give the same decision, receipt and epoch for every source check, and for
  every evidence check whose evidence is linked only to brains of the caller's tenant.\<close>

theorem dual_run_agrees:
  assumes "openfga_ok admits srv view" "view r0 = {}" "list_all (admitted admits) ops"
    and "\<And>b. brain_of_evidence (snd (ev_ops ops NewEvaluator)) (IdValue (pr_Resource req)) b \<Longrightarrow>
      has (snd (ev_ops ops NewEvaluator)) b ''tenant'' (tenant_object (IdValue (mi_Tenant who)))"
  shows "fst (client_ops srv ops (NewClient r0)) = adapter_answers ops NewEvaluator
    \<and> client_Check srv who req (snd (client_ops srv ops (NewClient r0))) = (ev_Check who req (snd (ev_ops ops NewEvaluator)), False)
    \<and> client_CheckSource srv who action brain (snd (client_ops srv ops (NewClient r0)))
      = (ev_CheckSource who action brain (snd (ev_ops ops NewEvaluator)), False)"
proof -
  have "in_sync view NewEvaluator (NewClient r0)" using assms(2) by (simp add: in_sync_def NewClient_def NewEvaluator_def)
  note s = sync_ops[OF assms(1) this assms(3)]
  from s check_agrees[OF assms(1) conjunct2[OF s] assms(4)] check_source_agrees[OF assms(1) conjunct2[OF s]]
  show ?thesis by blast
qed

text \<open>When the answer to a write is lost after the server applied it, the adapter does not mirror
  the tuple, and every repetition of the write is rejected, so that it never does.\<close>

lemma lost_write_never_mirrored:
  assumes "openfga_ok admits srv view" "t \<in> view (cl_remote c)"
  shows "\<not> fst (client_Write srv t c)" "cl_local (snd (client_Write srv t c)) = cl_local c"
    "t \<in> view (cl_remote (snd (client_Write srv t c)))"
proof -
  obtain r' where "r_Write srv [t] [] (cl_remote c) = (False, r')" "view r' = view (cl_remote c)"
    using openfga_okD(2)[OF assms(1), of t] assms(2) by blast
  then show "\<not> fst (client_Write srv t c)" "cl_local (snd (client_Write srv t c)) = cl_local c"
    "t \<in> view (cl_remote (snd (client_Write srv t c)))" using assms(2) by (simp_all add: client_Write_def)
qed

text \<open>A server with a model that defines the four relations.\<close>

definition sample_admits :: "Tuple \<Rightarrow> bool" where
  "sample_admits t \<longleftrightarrow> t_Relation t \<in> {''brain'', ''tenant'', ''owner'', ''viewer''}"

definition sample_server :: "Tuple set remote" where
  "sample_server = \<lparr>r_Write = (\<lambda>ws ds S. if list_all (\<lambda>t. sample_admits t \<and> t \<notin> S) ws \<and> set ds \<subseteq> S then (True, (S \<union> set ws) - set ds) else (False, S)),
     r_Check = (\<lambda>user relation object S. Some (model_check S user relation object))\<rparr>"

lemma sample_server_ok: "openfga_ok sample_admits sample_server (\<lambda>S. S)"
  by (auto simp: openfga_ok_def sample_server_def)

definition tup :: "string \<Rightarrow> string \<Rightarrow> string \<Rightarrow> Tuple" where
  "tup a b c = \<lparr>t_Object = a, t_Relation = b, t_User = c\<rparr>"

definition sample_ops :: "store_op list" where
  "sample_ops = [OpWrite (tup ''evidence:e'' ''brain'' ''brain:b''), OpWrite (tup ''brain:b'' ''tenant'' ''tenant:t''),
     OpWrite (tup ''brain:b'' ''viewer'' ''user:u''), OpWrite (tup ''brain:b'' ''viewer'' ''user:u'')]"

definition sample_identity :: MappedIdentityFact where
  "sample_identity = \<lparr>mi_Principal = \<lparr>Namespace = ''principal'', IdValue = ''u''\<rparr>,
     mi_Tenant = \<lparr>Namespace = ''tenant'', IdValue = ''t''\<rparr>, mi_Session = zero_id, mi_Credentials = zero_credentials\<rparr>"

definition sample_read :: PolicyRequest where
  "sample_read = \<lparr>pr_Action = ''artifact.read'', pr_Resource = \<lparr>Namespace = ''evidence'', IdValue = ''e''\<rparr>, pr_RevocationEpoch = 0\<rparr>"

lemma valid_colon: "c \<noteq> [] \<Longrightarrow> CHR '':'' \<notin> set c \<Longrightarrow> v \<noteq> [] \<Longrightarrow> containsColon (c @ CHR '':'' # v)"
  by (simp add: containsColon_def splitEntity_def Let_def takeWhile_append dropWhile_append)

lemma sample_state: "ev_tuples (snd (ev_ops sample_ops NewEvaluator)) =
    [tup ''brain:b'' ''viewer'' ''user:u'', tup ''brain:b'' ''tenant'' ''tenant:t'', tup ''evidence:e'' ''brain'' ''brain:b'']
  \<and> epoch_of (snd (ev_ops sample_ops NewEvaluator)) x = 0"
  by (simp add: sample_ops_def ev_Write_def NewEvaluator_def tup_def validTuple_def containsColon_def splitEntity_def
      Let_def epoch_of_def mget0_def)

theorem dual_run_agrees_witness:
  "client_Check sample_server sample_identity sample_read (snd (client_ops sample_server sample_ops (NewClient {})))
    = (allowed_at 0, False)
   \<and> map fst (fst (client_ops sample_server sample_ops (NewClient {}))) = [True, True, True, False]"
proof -
  let ?e = "snd (ev_ops sample_ops NewEvaluator)"
  have scoped: "has ?e b ''tenant'' (tenant_object (IdValue (mi_Tenant sample_identity)))"
    if "brain_of_evidence ?e (IdValue (pr_Resource sample_read)) b" for b
    using that
    by (auto simp: brain_of_evidence_def has_def sample_state tup_def evidence_object_def tenant_object_def sample_identity_def)
  have "ev_Check sample_identity sample_read ?e = allowed_at 0"
  proof -
    have "brain_of_evidence ?e ''e'' ''brain:b''"
      by (simp add: brain_of_evidence_def has_def sample_state tup_def evidence_object_def)
    moreover have "has ?e ''brain:b'' ''tenant'' ''tenant:t''" "has ?e ''brain:b'' ''viewer'' ''user:u''"
      by (simp_all add: has_def sample_state tup_def)
    ultimately show ?thesis
      using conjunct2[OF sample_state, of "''t''"]
      by (auto simp: ev_Check_def sample_identity_def sample_read_def identity_ok_def user_of_def tenant_object_def
          evidence_brains Let_def)
  qed
  moreover have adm: "list_all (admitted sample_admits) sample_ops" by (simp add: sample_ops_def sample_admits_def tup_def)
  moreover have "map fst (adapter_answers sample_ops NewEvaluator) = [True, True, True, False]"
    by (simp add: sample_ops_def ev_Write_def NewEvaluator_def tup_def validTuple_def containsColon_def splitEntity_def Let_def)
  ultimately show ?thesis
    using dual_run_agrees[of sample_admits sample_server "\<lambda>S. S" "{}" sample_ops sample_read sample_identity, OF sample_server_ok refl adm scoped]
    by simp
qed

text \<open>The evidence condition is needed: evidence linked to a second brain, of another
  tenant, lets the remote store allow a read that the evaluator denies.\<close>

definition crossing_ops :: "store_op list" where
  "crossing_ops = [OpWrite (tup ''evidence:e'' ''brain'' ''brain:b''), OpWrite (tup ''brain:b'' ''tenant'' ''tenant:t''),
     OpWrite (tup ''evidence:e'' ''brain'' ''brain:x''), OpWrite (tup ''brain:x'' ''tenant'' ''tenant:other''),
     OpWrite (tup ''brain:x'' ''viewer'' ''user:u'')]"

lemma crossing_state:
  "set (ev_tuples (snd (ev_ops crossing_ops NewEvaluator))) =
    {tup ''evidence:e'' ''brain'' ''brain:b'', tup ''brain:b'' ''tenant'' ''tenant:t'', tup ''evidence:e'' ''brain'' ''brain:x'',
     tup ''brain:x'' ''tenant'' ''tenant:other'', tup ''brain:x'' ''viewer'' ''user:u''}"
  "epoch_of (snd (ev_ops crossing_ops NewEvaluator)) y = 0"
  by (auto simp: crossing_ops_def ev_Write_def NewEvaluator_def tup_def validTuple_def containsColon_def splitEntity_def
      Let_def epoch_of_def mget0_def)

lemma cross_tenant_divergence:
  "pd_Allowed (fst (client_Check sample_server sample_identity sample_read
      (snd (client_ops sample_server crossing_ops (NewClient {})))))
  \<and> \<not> pd_Allowed (ev_Check sample_identity sample_read (snd (ev_ops crossing_ops NewEvaluator)))"
proof -
  let ?e = "snd (ev_ops crossing_ops NewEvaluator)" and ?c = "snd (client_ops sample_server crossing_ops (NewClient {}))"
  have sync: "in_sync (\<lambda>S. S) ?e ?c"
    by (rule conjunct2[OF sync_ops[OF sample_server_ok]])
      (simp_all add: in_sync_def NewClient_def NewEvaluator_def crossing_ops_def sample_admits_def tup_def)
  note h = has_def crossing_state tup_def
  have brains: "brain_of_evidence ?e ''e'' b \<longleftrightarrow> b = ''brain:b'' \<or> b = ''brain:x''" for b
    by (auto simp: brain_of_evidence_def h evidence_object_def)
  have hs: "has ?e ''brain:b'' ''tenant'' ''tenant:t''" "has ?e ''brain:x'' ''viewer'' ''user:u''"
    "\<not> has ?e ''brain:x'' ''tenant'' ''tenant:t''" "\<not> has ?e ''brain:b'' ''owner'' ''user:u''" "\<not> has ?e ''brain:b'' ''viewer'' ''user:u''"
    by (simp_all add: h)
  have "r_Check sample_server ''user:u'' ''reader'' (evidence_object ''e'') (cl_remote ?c) = Some True"
    using openfga_okD(4)[OF sample_server_ok] model_check_evidence[OF sync, of "''reader''" "''user:u''" "''e''"] brains hs(2)
    by (simp add: brain_grants_def brain_grants_has[OF sync]) blast
  moreover have "evidenceInTenant ?e (evidence_object ''e'') ''t''"
    using brains hs(1) by (auto simp: evidenceInTenant_def evidence_brains tenant_object_def)
  ultimately have "pd_Allowed (fst (client_Check sample_server sample_identity sample_read ?c))"
    using crossing_state(2)[of "''t''"]
    by (simp add: client_Check_def sample_identity_def sample_read_def identity_ok_def user_of_def in_syncD(1)[OF sync]
        ev_Epoch_def evidenceRelationForAction_def Let_def allowed_at_def)
  moreover have "\<not> pd_Allowed (ev_Check sample_identity sample_read ?e)"
    using brains hs by (auto simp: ev_Check_allowed sample_identity_def sample_read_def user_of_def tenant_object_def)
  ultimately show ?thesis by blast
qed

text \<open>Deny epochs are 64-bit counters that wrap: after an epoch was set to the largest
  value, the next removal returns the tenant to epoch 0, and grants issued at epoch 0
  are current again.\<close>

lemma epoch_wraps:
  assumes "ev_Delete t e = (Some (tenant, n), e')" "epoch_of e tenant = - 1"
  shows "epoch_of e' tenant = 0"
  using ev_Delete_epoch(1)[OF assms(1)] assms(2) by simp

end
