(* ===== verification/Local_Authority.thy ===== *)
theory Local_Authority
  imports Capability Authz
begin

text \<open>
  The local authority broker (\<^verbatim>\<open>services/broker/localauthority/facade.go\<close>): peer
  mapping, issued grants and current policy combined in one authorisation.  The broker
  is written against the policy-store interface of \<^verbatim>\<open>authz/store.go\<close>, so its
  operations take a record of store operations and the locale \<open>relationship_store\<close>
  states what the broker relies on; it is interpreted for the in-process adapter and
  for the OpenFGA client.  Nil and empty slices of a grant are identified.
\<close>

section \<open>Policy stores\<close>

record 'p store =
  s_Write :: "Tuple \<Rightarrow> 'p \<Rightarrow> bool \<times> 'p"
  s_Delete :: "Tuple \<Rightarrow> 'p \<Rightarrow> (string \<times> 64 word) option \<times> 'p"
  s_SetEpoch :: "string \<Rightarrow> 64 word \<Rightarrow> 'p \<Rightarrow> bool \<times> 'p"
  s_Epoch :: "string \<Rightarrow> 'p \<Rightarrow> 64 word option"
  s_Check :: "MappedIdentityFact \<Rightarrow> PolicyRequest \<Rightarrow> 'p \<Rightarrow> PolicyDecision \<times> bool"
  s_CheckSource :: "MappedIdentityFact \<Rightarrow> string \<Rightarrow> Identifier \<Rightarrow> 'p \<Rightarrow> PolicyDecision \<times> bool"

definition InProcessAdapter :: "Evaluator store" where
  "InProcessAdapter = \<lparr>s_Write = ev_Write, s_Delete = ev_Delete, s_SetEpoch = ev_SetEpoch, s_Epoch = ev_Epoch,
     s_Check = (\<lambda>who req e. (ev_Check who req e, False)),
     s_CheckSource = (\<lambda>who action brain e. (ev_CheckSource who action brain e, False))\<rparr>"

definition openfga_store :: "'r remote \<Rightarrow> 'r Client store" where
  "openfga_store srv = \<lparr>s_Write = client_Write srv, s_Delete = client_Delete srv, s_SetEpoch = client_SetEpoch,
     s_Epoch = client_Epoch, s_Check = client_Check srv, s_CheckSource = client_CheckSource srv\<rparr>"


section \<open>The broker\<close>

text \<open>The zero \<^verbatim>\<open>time.Time\<close>: the first instant of year 1, in nanoseconds from 1970.\<close>

definition zero_time :: go_time where
  "zero_time = -62135596800000000000"

record Config =
  cf_UID :: "32 word"
  cf_Principal :: Identifier
  cf_Tenant :: Identifier
  cf_Session :: Identifier

record 'p authority =
  au_mapper :: Mapper
  au_policy :: 'p
  au_session :: Identifier
  au_grants :: "string \<rightharpoonup> Grant"

record Decision =
  de_Allowed :: bool
  de_ReasonCode :: string
  de_RevocationEpoch :: "64 word"

definition NewWithStore :: "Config \<Rightarrow> 'p \<Rightarrow> 'p authority option" where
  "NewWithStore config store =
    (if Namespace (cf_Session config) \<noteq> ''session'' \<or> IdValue (cf_Session config) = [] then None
     else (case NewMapper (cf_UID config) (cf_Principal config) (cf_Tenant config) of
             None \<Rightarrow> None
           | Some m \<Rightarrow> Some \<lparr>au_mapper = m, au_policy = store, au_session = cf_Session config, au_grants = Map.empty\<rparr>))"

text \<open>\<^verbatim>\<open>reflect.DeepEqual\<close> on grants: limits are compared as maps.\<close>

definition same_limits :: "(string, 64 word) gomap \<Rightarrow> (string, 64 word) gomap \<Rightarrow> bool" where
  "same_limits m m' \<longleftrightarrow> list_all (\<lambda>k. mget m k = mget m' k) (mkeys m @ mkeys m')"

definition same_grant :: "Grant \<Rightarrow> Grant \<Rightarrow> bool" where
  "same_grant g h \<longleftrightarrow> g\<lparr>g_Limits := []\<rparr> = h\<lparr>g_Limits := []\<rparr> \<and> same_limits (g_Limits g) (g_Limits h)"

definition RegisterGrant :: "Grant \<Rightarrow> go_time \<Rightarrow> 'p authority \<Rightarrow> bool \<times> 'p authority" where
  "RegisterGrant g now b =
    (if \<not> grant_validate g now then (False, b)
     else (case au_grants b (g_ID g) of
             Some existing \<Rightarrow>
               if \<not> same_grant existing g then (False, b)
               else (True, b\<lparr>au_grants := (au_grants b)(g_ID g \<mapsto> g)\<rparr>)
           | None \<Rightarrow> (True, b\<lparr>au_grants := (au_grants b)(g_ID g \<mapsto> g)\<rparr>)))"

definition MapPeer :: "'p authority \<Rightarrow> PeerCredentials \<Rightarrow> MappedIdentityFact option" where
  "MapPeer b credentials = Map_peer (au_mapper b) credentials (au_session b)"

definition AddRelationship :: "'p store \<Rightarrow> string \<Rightarrow> 'p authority \<Rightarrow> bool \<times> 'p authority" where
  "AddRelationship st v b =
    (case ParseTuple v of
       None \<Rightarrow> (False, b)
     | Some t \<Rightarrow> (let (ok, p) = s_Write st t (au_policy b) in (ok, b\<lparr>au_policy := p\<rparr>)))"

definition RemoveRelationship :: "'p store \<Rightarrow> string \<Rightarrow> 'p authority \<Rightarrow> 64 word option \<times> 'p authority" where
  "RemoveRelationship st v b =
    (case ParseTuple v of
       None \<Rightarrow> (None, b)
     | Some t \<Rightarrow> (let (x, p) = s_Delete st t (au_policy b) in (map_option snd x, b\<lparr>au_policy := p\<rparr>)))"

definition SetRevocationEpoch :: "'p store \<Rightarrow> string \<Rightarrow> 64 word \<Rightarrow> 'p authority \<Rightarrow> bool \<times> 'p authority" where
  "SetRevocationEpoch st tenant n b = (let (ok, p) = s_SetEpoch st tenant n (au_policy b) in (ok, b\<lparr>au_policy := p\<rparr>))"

definition RevocationEpoch :: "'p store \<Rightarrow> Identifier \<Rightarrow> 'p authority \<Rightarrow> 64 word option" where
  "RevocationEpoch st tenant b =
    (if Namespace tenant \<noteq> ''tenant'' \<or> IdValue tenant = [] then None else s_Epoch st (IdValue tenant) (au_policy b))"

definition denied_decision :: "64 word \<Rightarrow> Decision" where
  "denied_decision n = \<lparr>de_Allowed = False, de_ReasonCode = ''not_found_or_denied'', de_RevocationEpoch = n\<rparr>"

definition allowed_decision :: "64 word \<Rightarrow> Decision" where
  "allowed_decision n = \<lparr>de_Allowed = True, de_ReasonCode = ''allowed'', de_RevocationEpoch = n\<rparr>"

text \<open>The error result is \<^verbatim>\<open>ErrDenied\<close> exactly when the decision does not allow.\<close>

definition AuthorizeSource :: "'p store \<Rightarrow> MappedIdentityFact \<Rightarrow> string \<Rightarrow> Identifier \<Rightarrow> 'p authority \<Rightarrow> Decision" where
  "AuthorizeSource st who action brain b =
    (let (policy, err) = s_CheckSource st who action brain (au_policy b)
     in if err \<or> \<not> pd_Allowed policy then denied_decision (pd_RevocationEpoch policy)
        else allowed_decision (pd_RevocationEpoch policy))"

definition issuedGrant :: "'p authority \<Rightarrow> string \<Rightarrow> Grant option" where
  "issuedGrant b i = (if i = [] then None else au_grants b i)"

definition au_Authorize :: "'p store \<Rightarrow> MappedIdentityFact \<Rightarrow> Grant \<Rightarrow> UseRequest \<Rightarrow> 'p authority \<Rightarrow> Decision" where
  "au_Authorize st who g u b =
    (case issuedGrant b (g_ID g) of
       None \<Rightarrow> denied_decision (u_RevocationEpoch u)
     | Some issued \<Rightarrow>
         if u_Now u = zero_time \<or> \<not> same_grant issued g \<or> \<not> AuthorizeUse issued who u
         then denied_decision (u_RevocationEpoch u)
         else (let (policy, err) = s_Check st who \<lparr>pr_Action = u_Action u, pr_Resource = u_Resource u,
                     pr_RevocationEpoch = u_RevocationEpoch u\<rparr> (au_policy b)
               in if err \<or> \<not> pd_Allowed policy then denied_decision (pd_RevocationEpoch policy)
                  else allowed_decision (pd_RevocationEpoch policy)))"

datatype authority_op =
    AuRegister Grant go_time
  | AuAdd string
  | AuRemove string
  | AuEpoch string "64 word"

fun au_step :: "'p store \<Rightarrow> authority_op \<Rightarrow> 'p authority \<Rightarrow> 'p authority" where
  "au_step st (AuRegister g now) b = snd (RegisterGrant g now b)"
| "au_step st (AuAdd v) b = snd (AddRelationship st v b)"
| "au_step st (AuRemove v) b = snd (RemoveRelationship st v b)"
| "au_step st (AuEpoch tenant n) b = snd (SetRevocationEpoch st tenant n b)"

definition au_run :: "'p store \<Rightarrow> authority_op list \<Rightarrow> 'p authority \<Rightarrow> 'p authority" where
  "au_run st ops b = fold (au_step st) ops b"


text \<open>Runs in which no removal finds the tenant's counter at its largest value.\<close>

fun never_wraps :: "'p store \<Rightarrow> ('p \<Rightarrow> 64 word) \<Rightarrow> authority_op list \<Rightarrow> 'p authority \<Rightarrow> bool" where
  "never_wraps st ep [] b = True"
| "never_wraps st ep (x # xs) b \<longleftrightarrow>
    (case x of AuRemove v \<Rightarrow> ep (au_policy b) \<noteq> - 1 | _ \<Rightarrow> True) \<and> never_wraps st ep xs (au_step st x b)"


section \<open>What the broker relies on\<close>

lemma word_succ_le: "(x :: 'a::len word) \<noteq> - 1 \<Longrightarrow> x \<le> x + 1"
  by (metis (no_types, opaque_lifting) add.commute eq_neg_iff_add_eq_0 le_SucI nat_le_linear not_less_eq_eq unatSuc word_le_nat_alt)

locale relationship_store =
  fixes st :: "'p store" and now_epoch :: "'p \<Rightarrow> string \<Rightarrow> 64 word"
  assumes write_keeps: "s_Write st t p = (ok, p') \<Longrightarrow> now_epoch p' = now_epoch p"
    and delete_advances: "s_Delete st t p = (Some (tenant, n), p') \<Longrightarrow>
      n = now_epoch p tenant + 1 \<and> now_epoch p' = (now_epoch p)(tenant := n)"
    and delete_refused: "s_Delete st t p = (None, p') \<Longrightarrow> now_epoch p' = now_epoch p"
    and epoch_set: "s_SetEpoch st tenant n p = (True, p') \<Longrightarrow> now_epoch p tenant \<le> n \<and> now_epoch p' = (now_epoch p)(tenant := n)"
    and epoch_refused: "s_SetEpoch st tenant n p = (False, p') \<Longrightarrow> now_epoch p' = now_epoch p"
    and check_current: "s_Check st who req p = (d, err) \<Longrightarrow> pd_Allowed d \<Longrightarrow>
      pr_RevocationEpoch req = now_epoch p (IdValue (mi_Tenant who))"
begin

lemma step_epoch_mono:
  assumes "case x of AuRemove v \<Rightarrow> now_epoch (au_policy b) tenant \<noteq> - 1 | _ \<Rightarrow> True"
  shows "now_epoch (au_policy b) tenant \<le> now_epoch (au_policy (au_step st x b)) tenant"
proof (cases x)
  case (AuRegister g now)
  then show ?thesis by (simp add: RegisterGrant_def split: option.split)
next
  case (AuAdd v)
  show ?thesis
  proof (cases "ParseTuple v")
    case (Some t)
    obtain ok p where "s_Write st t (au_policy b) = (ok, p)" by fastforce
    then show ?thesis using write_keeps[of t "au_policy b" ok p] AuAdd Some by (simp add: AddRelationship_def)
  qed (simp add: AuAdd AddRelationship_def)
next
  case (AuRemove v)
  then have lim: "now_epoch (au_policy b) tenant \<noteq> - 1" using assms by simp
  show ?thesis
  proof (cases "ParseTuple v")
    case (Some t)
    obtain y p where d: "s_Delete st t (au_policy b) = (y, p)" by fastforce
    then have s: "au_step st x b = b\<lparr>au_policy := p\<rparr>" using AuRemove Some by (simp add: RemoveRelationship_def)
    show ?thesis
    proof (cases y)
      case None
      then show ?thesis using delete_refused[of t "au_policy b" p] d s by simp
    next
      case (Some z)
      obtain w n where "z = (w, n)" by fastforce
      then have "now_epoch p = (now_epoch (au_policy b))(w := now_epoch (au_policy b) w + 1)"
        using delete_advances[of t "au_policy b" w n p] d Some by auto
      moreover have "now_epoch (au_policy b) tenant \<le> now_epoch (au_policy b) tenant + 1"
        by (rule word_succ_le[OF lim])
      ultimately show ?thesis using s by auto
    qed
  qed (simp add: AuRemove RemoveRelationship_def)
next
  case (AuEpoch w n)
  obtain ok p where e: "s_SetEpoch st w n (au_policy b) = (ok, p)" by fastforce
  then have "au_step st x b = b\<lparr>au_policy := p\<rparr>" using AuEpoch by (simp add: SetRevocationEpoch_def)
  then show ?thesis using epoch_set[of w n "au_policy b" p] epoch_refused[of w n "au_policy b" p] e
    by (cases ok) simp_all
qed

lemma run_epoch_mono:
  "never_wraps st (\<lambda>p. now_epoch p tenant) ops b \<Longrightarrow> now_epoch (au_policy b) tenant \<le> now_epoch (au_policy (au_run st ops b)) tenant"
proof (induction ops arbitrary: b)
  case (Cons x xs)
  then have "now_epoch (au_policy b) tenant \<le> now_epoch (au_policy (au_step st x b)) tenant"
    "now_epoch (au_policy (au_step st x b)) tenant \<le> now_epoch (au_policy (au_run st xs (au_step st x b))) tenant"
    using step_epoch_mono by simp_all
  then show ?case using order_trans by (simp add: au_run_def)
qed (simp add: au_run_def)

lemma authorize_current:
  assumes "de_Allowed (au_Authorize st who g u b)"
  shows "\<exists>issued. au_grants b (g_ID g) = Some issued \<and> same_grant issued g \<and> AuthorizeUse issued who u
    \<and> g_RevocationEpoch g = now_epoch (au_policy b) (IdValue (g_Tenant g))
    \<and> pd_Allowed (fst (s_Check st who \<lparr>pr_Action = u_Action u, pr_Resource = u_Resource u,
          pr_RevocationEpoch = u_RevocationEpoch u\<rparr> (au_policy b)))"
proof -
  let ?req = "\<lparr>pr_Action = u_Action u, pr_Resource = u_Resource u, pr_RevocationEpoch = u_RevocationEpoch u\<rparr>"
  obtain issued where i: "au_grants b (g_ID g) = Some issued" "same_grant issued g" "AuthorizeUse issued who u"
    "pd_Allowed (fst (s_Check st who ?req (au_policy b)))"
    using assms
    by (auto simp: au_Authorize_def issuedGrant_def denied_decision_def case_prod_beta Let_def
        split: option.split_asm if_split_asm)
  have "u_RevocationEpoch u = now_epoch (au_policy b) (IdValue (mi_Tenant who))"
    using check_current[of who ?req "au_policy b"] i(4) by (cases "s_Check st who ?req (au_policy b)") simp
  moreover have "mi_Tenant who = g_Tenant issued" "u_RevocationEpoch u = g_RevocationEpoch issued"
    using i(3) by (auto simp: AuthorizeUse_def)
  moreover have "g_Tenant issued = g_Tenant g" "g_RevocationEpoch issued = g_RevocationEpoch g"
  proof -
    have eq: "issued\<lparr>g_Limits := []\<rparr> = g\<lparr>g_Limits := []\<rparr>" using i(2) by (simp add: same_grant_def)
    from arg_cong[where f = g_Tenant, OF eq] show "g_Tenant issued = g_Tenant g" by simp
    from arg_cong[where f = g_RevocationEpoch, OF eq] show "g_RevocationEpoch issued = g_RevocationEpoch g" by simp
  qed
  ultimately show ?thesis using i by auto
qed

lemma stale_grant_denied:
  assumes "g_RevocationEpoch g < now_epoch (au_policy b) (IdValue (g_Tenant g))"
    and "never_wraps st (\<lambda>p. now_epoch p (IdValue (g_Tenant g))) ops b"
  shows "\<not> de_Allowed (au_Authorize st who g u (au_run st ops b))"
proof
  assume "de_Allowed (au_Authorize st who g u (au_run st ops b))"
  then have "g_RevocationEpoch g = now_epoch (au_policy (au_run st ops b)) (IdValue (g_Tenant g))"
    using authorize_current by blast
  with assms(1) run_epoch_mono[OF assms(2)] show False by simp
qed

end

interpretation inproc: relationship_store InProcessAdapter epoch_of
proof unfold_locales
  fix who req p d err
  assume "s_Check InProcessAdapter who req p = (d, err)" "pd_Allowed d"
  then show "pr_RevocationEpoch req = epoch_of p (IdValue (mi_Tenant who))"
    by (simp add: InProcessAdapter_def) (metis ev_Check_allowed)
next
  fix t p tenant n p'
  assume "s_Delete InProcessAdapter t p = (Some (tenant, n), p')"
  then show "n = epoch_of p tenant + 1 \<and> epoch_of p' = (epoch_of p)(tenant := n)"
    using ev_Delete_epoch(1)[of t p tenant n p'] by (simp add: InProcessAdapter_def)
next
  fix t p ok p'
  assume "s_Write InProcessAdapter t p = (ok, p')"
  then show "epoch_of p' = epoch_of p" using ev_Write_epoch[of t p] by (simp add: InProcessAdapter_def)
next
  fix t p p'
  assume "s_Delete InProcessAdapter t p = (None, p')"
  then show "epoch_of p' = epoch_of p" using ev_Delete_epoch(2)[of t p p'] by (simp add: InProcessAdapter_def)
next
  fix tenant n p p'
  assume "s_SetEpoch InProcessAdapter tenant n p = (True, p')"
  then show "epoch_of p tenant \<le> n \<and> epoch_of p' = (epoch_of p)(tenant := n)"
    using ev_SetEpoch_epoch[of tenant n p True p'] by (simp add: InProcessAdapter_def)
next
  fix tenant n p p'
  assume "s_SetEpoch InProcessAdapter tenant n p = (False, p')"
  then show "epoch_of p' = epoch_of p" using ev_SetEpoch_epoch[of tenant n p False p'] by (simp add: InProcessAdapter_def)
qed

lemma client_Check_current:
  "pd_Allowed (fst (client_Check srv who req c)) \<Longrightarrow> pr_RevocationEpoch req = epoch_of (cl_local c) (IdValue (mi_Tenant who))"
  by (auto simp: client_Check_def denied_at_def ev_Epoch_def Let_def split: if_split_asm option.split_asm)

interpretation fga: relationship_store "openfga_store srv" "\<lambda>c. epoch_of (cl_local c)" for srv
proof unfold_locales
  fix who req p d err
  assume "s_Check (openfga_store srv) who req p = (d, err)" "pd_Allowed d"
  then show "pr_RevocationEpoch req = epoch_of (cl_local p) (IdValue (mi_Tenant who))"
    using client_Check_current[of srv who req p] by (simp add: openfga_store_def)
next
  fix t p tenant n p'
  assume "s_Delete (openfga_store srv) t p = (Some (tenant, n), p')"
  then obtain e where "ev_Delete t (cl_local p) = (Some (tenant, n), e)" "cl_local p' = e"
    by (auto simp: openfga_store_def client_Delete_def split: if_split_asm prod.split_asm bool.split_asm)
  then show "n = epoch_of (cl_local p) tenant + 1 \<and> epoch_of (cl_local p') = (epoch_of (cl_local p))(tenant := n)"
    using ev_Delete_epoch(1) by blast
next
  fix t p ok p'
  assume "s_Write (openfga_store srv) t p = (ok, p')"
  then show "epoch_of (cl_local p') = epoch_of (cl_local p)"
    using ev_Write_epoch[of t "cl_local p"]
    by (auto simp: openfga_store_def client_Write_def split: if_split_asm prod.split_asm bool.split_asm)
next
  fix t p p'
  assume "s_Delete (openfga_store srv) t p = (None, p')"
  then show "epoch_of (cl_local p') = epoch_of (cl_local p)"
    using ev_Delete_epoch(2)[of t "cl_local p"]
    by (auto simp: openfga_store_def client_Delete_def split: if_split_asm prod.split_asm bool.split_asm)
next
  fix tenant n p p'
  assume "s_SetEpoch (openfga_store srv) tenant n p = (True, p')"
  then show "epoch_of (cl_local p) tenant \<le> n \<and> epoch_of (cl_local p') = (epoch_of (cl_local p))(tenant := n)"
    using ev_SetEpoch_epoch[of tenant n "cl_local p" True]
    by (auto simp: openfga_store_def client_SetEpoch_def split: prod.split_asm)
next
  fix tenant n p p'
  assume "s_SetEpoch (openfga_store srv) tenant n p = (False, p')"
  then show "epoch_of (cl_local p') = epoch_of (cl_local p)"
    using ev_SetEpoch_epoch[of tenant n "cl_local p" False]
    by (auto simp: openfga_store_def client_SetEpoch_def split: prod.split_asm)
qed


section \<open>Properties\<close>

text \<open>C23.  Revocation is immediate and lasting, with either policy store: a grant whose
  epoch is below its tenant's current deny epoch is denied every use, now and after any
  later registrations, relationship changes and epoch changes, as long as no removal
  wraps the 64-bit counter.\<close>

theorem revoked_grant_stays_denied:
  assumes "g_RevocationEpoch g < epoch_of (au_policy b) (IdValue (g_Tenant g))"
    and "never_wraps InProcessAdapter (\<lambda>e. epoch_of e (IdValue (g_Tenant g))) ops b"
    and "g_RevocationEpoch g < epoch_of (cl_local (au_policy c)) (IdValue (g_Tenant g))"
    and "never_wraps (openfga_store srv) (\<lambda>x. epoch_of (cl_local x) (IdValue (g_Tenant g))) ops c"
  shows "\<not> de_Allowed (au_Authorize InProcessAdapter who g u (au_run InProcessAdapter ops b))
    \<and> \<not> de_Allowed (au_Authorize (openfga_store srv) who g u (au_run (openfga_store srv) ops c))"
  using inproc.stale_grant_denied[OF assms(1,2)] fga.stale_grant_denied[OF assms(3,4)] by blast

definition epoch_broker :: "'p \<Rightarrow> 'p authority" where
  "epoch_broker p = \<lparr>au_mapper = \<lparr>mp_uid = 1, mp_principal = zero_id, mp_tenant = zero_id\<rparr>, au_policy = p,
     au_session = zero_id, au_grants = Map.empty\<rparr>"

definition advanced :: Evaluator where
  "advanced = snd (ev_SetEpoch ''t'' 7 NewEvaluator)"

lemma advanced_epoch: "epoch_of advanced ''t'' = 7"
  by (simp add: advanced_def ev_SetEpoch_def NewEvaluator_def epoch_of_def mget0_def)

theorem revoked_grant_stays_denied_witness:
  "\<not> de_Allowed (au_Authorize InProcessAdapter sample_who (sample_grant ''g'' [] []) sample_use
      (au_run InProcessAdapter [AuEpoch ''t'' 9] (epoch_broker advanced)))"
proof -
  let ?g = "sample_grant ''g'' [] []"
  have g: "IdValue (g_Tenant ?g) = ''t''" "g_RevocationEpoch ?g < 7" by (simp_all add: sample_grant_def)
  show ?thesis
    using revoked_grant_stays_denied[of ?g "epoch_broker advanced" "[AuEpoch ''t'' 9]"
        "epoch_broker \<lparr>cl_local = advanced, cl_remote = {}\<rparr>" sample_server]
    by (simp add: g advanced_epoch epoch_broker_def)
qed

lemma use_conditions:
  assumes "AuthorizeUse g who u"
  shows "mi_Principal who = g_Principal g" "mi_Tenant who = g_Tenant g"
    "u_Action u \<in> set (g_Actions g)" "u_Resource u \<in> set (g_Resources g)"
    "u_Fence u \<noteq> 0" "u_Fence u = g_Fence g" "u_Nonce u \<noteq> []" "u_Nonce u = g_Nonce g" "u_RevocationEpoch u = g_RevocationEpoch g"
    "\<exists>expires. g_ExpiresAt g = Some expires \<and> u_Now u < expires"
    "if g_AllowedPaths g = [] then u_Path u = [] else \<exists>p \<in> set (g_AllowedPaths g). u_Path u = p \<or> has_prefix (u_Path u) (p @ ''/'')"
    "\<forall>(name, used) \<in> set (u_Usage u). \<exists>maximum. mget (g_Limits g) name = Some maximum \<and> used \<le> maximum"
proof -
  show "mi_Principal who = g_Principal g" "mi_Tenant who = g_Tenant g"
    "u_Action u \<in> set (g_Actions g)" "u_Resource u \<in> set (g_Resources g)"
    "u_Fence u \<noteq> 0" "u_Fence u = g_Fence g" "u_Nonce u \<noteq> []" "u_Nonce u = g_Nonce g" "u_RevocationEpoch u = g_RevocationEpoch g"
    using assms by (simp_all add: AuthorizeUse_def)
  have "grant_validate g (u_Now u)" "pathUseAllowed (u_Path u) (g_AllowedPaths g)" "usageAllowed (u_Usage u) (g_Limits g)"
    using assms by (simp_all add: AuthorizeUse_def)
  then show "\<exists>expires. g_ExpiresAt g = Some expires \<and> u_Now u < expires"
    "if g_AllowedPaths g = [] then u_Path u = [] else \<exists>p \<in> set (g_AllowedPaths g). u_Path u = p \<or> has_prefix (u_Path u) (p @ ''/'')"
    "\<forall>(name, used) \<in> set (u_Usage u). \<exists>maximum. mget (g_Limits g) name = Some maximum \<and> used \<le> maximum"
    by (auto simp: grant_validate_def pathUseAllowed_def usageAllowed_def at_or_under_def list_all_iff list_ex_iff not_less
        split: option.split_asm if_split_asm)
qed

text \<open>C26.  Nothing is authorised without all three authorities agreeing, with the in-process
  relationship store.  When the broker allows a use, the presented grant is the one
  registered under its id, the caller is its principal and tenant, the action and the
  resource are among the granted ones, the fence and the nonce are the grant's and not zero,
  the grant has not expired, the path is at or under a granted one (or there is none on
  either side), every dimension of the usage is limited by the grant and within its limit,
  the epoch of the grant and of the request is the tenant's current one, and the relationship
  facts current at that moment link the evidence to a brain of the caller's tenant that the
  caller owns, or views when the action is a read.\<close>

theorem authorize_needs_every_authority:
  assumes "de_Allowed (au_Authorize InProcessAdapter who g u b)"
  shows "\<exists>issued expires brain. au_grants b (g_ID g) = Some issued \<and> same_grant issued g
    \<and> mi_Principal who = g_Principal issued \<and> mi_Tenant who = g_Tenant issued
    \<and> u_Action u \<in> set (g_Actions issued) \<and> u_Resource u \<in> set (g_Resources issued)
    \<and> u_Fence u \<noteq> 0 \<and> u_Fence u = g_Fence issued \<and> u_Nonce u \<noteq> [] \<and> u_Nonce u = g_Nonce issued
    \<and> g_ExpiresAt issued = Some expires \<and> u_Now u < expires
    \<and> (if g_AllowedPaths issued = [] then u_Path u = []
       else \<exists>p \<in> set (g_AllowedPaths issued). u_Path u = p \<or> has_prefix (u_Path u) (p @ ''/''))
    \<and> (\<forall>(name, used) \<in> set (u_Usage u). \<exists>maximum. mget (g_Limits issued) name = Some maximum \<and> used \<le> maximum)
    \<and> g_RevocationEpoch g = epoch_of (au_policy b) (IdValue (g_Tenant g))
    \<and> u_RevocationEpoch u = epoch_of (au_policy b) (IdValue (mi_Tenant who))
    \<and> brain_of_evidence (au_policy b) (IdValue (u_Resource u)) brain
    \<and> has (au_policy b) brain ''tenant'' (tenant_object (IdValue (mi_Tenant who)))
    \<and> (has (au_policy b) brain ''owner'' (user_of who)
       \<or> u_Action u = ''artifact.read'' \<and> has (au_policy b) brain ''viewer'' (user_of who))"
proof -
  obtain issued where i: "au_grants b (g_ID g) = Some issued" "same_grant issued g" "AuthorizeUse issued who u"
    "g_RevocationEpoch g = epoch_of (au_policy b) (IdValue (g_Tenant g))"
    "pd_Allowed (ev_Check who \<lparr>pr_Action = u_Action u, pr_Resource = u_Resource u,
        pr_RevocationEpoch = u_RevocationEpoch u\<rparr> (au_policy b))"
    using inproc.authorize_current[OF assms] by (auto simp: InProcessAdapter_def)
  note c = use_conditions[OF i(3)]
  obtain expires where e: "g_ExpiresAt issued = Some expires" "u_Now u < expires" using c(10) by blast
  from i(5)[unfolded ev_Check_allowed] obtain brain where
    "u_RevocationEpoch u = epoch_of (au_policy b) (IdValue (mi_Tenant who))" "brain_of_evidence (au_policy b) (IdValue (u_Resource u)) brain"
    "has (au_policy b) brain ''tenant'' (tenant_object (IdValue (mi_Tenant who)))"
    "has (au_policy b) brain ''owner'' (user_of who) \<or> u_Action u = ''artifact.read'' \<and> has (au_policy b) brain ''viewer'' (user_of who)" by auto
  then show ?thesis using i(1,2,4) c(1-8,11,12) e
    by (intro exI[of _ issued] exI[of _ expires] exI[of _ brain] conjI)
qed

definition reader_grant :: Grant where
  "reader_grant = (sample_grant ''n'' [] [])\<lparr>g_Principal := mi_Principal sample_identity,
     g_Actions := [''artifact.read''], g_Resources := [\<lparr>Namespace = ''evidence'', IdValue = ''e''\<rparr>]\<rparr>"

definition reader_use :: UseRequest where
  "reader_use = sample_use\<lparr>u_Action := ''artifact.read'', u_Resource := \<lparr>Namespace = ''evidence'', IdValue = ''e''\<rparr>,
     u_Nonce := ''n'', u_Path := [], u_Usage := []\<rparr>"

definition reader_broker :: "Evaluator authority" where
  "reader_broker = (epoch_broker (snd (ev_ops sample_ops NewEvaluator)))\<lparr>au_grants := [''n'' \<mapsto> reader_grant]\<rparr>"

lemma reader_allowed: "de_Allowed (au_Authorize InProcessAdapter sample_identity reader_grant reader_use reader_broker)"
proof -
  let ?e = "snd (ev_ops sample_ops NewEvaluator)"
  have use: "AuthorizeUse reader_grant sample_identity reader_use"
    by (simp add: AuthorizeUse_def reader_grant_def reader_use_def grant_eval sample_identity_def sample_use_def
        pathUseAllowed_def usageAllowed_def)
  have "brain_of_evidence ?e ''e'' ''brain:b'' \<and> has ?e ''brain:b'' ''tenant'' ''tenant:t'' \<and> has ?e ''brain:b'' ''viewer'' ''user:u''"
    by (simp add: brain_of_evidence_def has_def sample_state tup_def evidence_object_def)
  then have "pd_Allowed (ev_Check sample_identity \<lparr>pr_Action = ''artifact.read'',
      pr_Resource = \<lparr>Namespace = ''evidence'', IdValue = ''e''\<rparr>, pr_RevocationEpoch = 0\<rparr> ?e)"
    using conjunct2[OF sample_state, of "''t''"]
    by (auto simp: ev_Check_allowed sample_identity_def identity_ok_def user_of_def tenant_object_def)
  moreover have "same_grant reader_grant reader_grant" by (simp add: same_grant_def same_limits_def list_all_iff)
  moreover have "g_ID reader_grant = ''n''" by (simp add: reader_grant_def sample_grant_def)
  moreover have "u_Now reader_use \<noteq> zero_time" "u_Action reader_use = ''artifact.read''" "u_RevocationEpoch reader_use = 0"
    "u_Resource reader_use = \<lparr>Namespace = ''evidence'', IdValue = ''e''\<rparr>"
    by (simp_all add: reader_use_def sample_use_def zero_time_def)
  ultimately show ?thesis
    using use by (simp add: au_Authorize_def issuedGrant_def reader_broker_def epoch_broker_def InProcessAdapter_def
        allowed_decision_def)
qed

theorem authorize_needs_every_authority_witness:
  "\<exists>issued brain. au_grants reader_broker ''n'' = Some issued \<and> u_Nonce reader_use = g_Nonce issued \<and> u_Fence reader_use = g_Fence issued
    \<and> u_Path reader_use = [] \<and> brain_of_evidence (au_policy reader_broker) ''e'' brain
    \<and> has (au_policy reader_broker) brain ''tenant'' ''tenant:t''
    \<and> (has (au_policy reader_broker) brain ''owner'' ''user:u'' \<or> has (au_policy reader_broker) brain ''viewer'' ''user:u'')"
proof -
  have f: "g_ID reader_grant = ''n''" "u_Resource reader_use = \<lparr>Namespace = ''evidence'', IdValue = ''e''\<rparr>"
    "mi_Tenant sample_identity = \<lparr>Namespace = ''tenant'', IdValue = ''t''\<rparr>" "user_of sample_identity = ''user:u''" "u_Path reader_use = []"
    by (simp_all add: reader_grant_def sample_grant_def reader_use_def sample_identity_def user_of_def)
  show ?thesis using authorize_needs_every_authority[OF reader_allowed] unfolding f tenant_object_def by auto
qed

end
