(* ===== verification/Candidate_Store.thy ===== *)
theory Candidate_Store
  imports Effect_Broker
begin

text \<open>
  The exact-base candidate store
  (\<^verbatim>\<open>services/broker/internal/factory/gitcandidate/gitcandidate.go\<close>).  A candidate is a
  directory tree hydrated by Git at a pinned base; an edit set is applied to it file by
  file, and any failure removes the whole directory, as far as \<^verbatim>\<open>os.RemoveAll\<close> can.

  A tree is a finite map from component lists to directories, files and symbolic
  links.  Operations that the kernel would carry out through a link have the outcome
  \<open>FEscape\<close>, so that not escaping is a statement about the code.  Git is an argument:
  resolving the base, hydrating the tree, staging and writing the tree, and so is what
  \<^verbatim>\<open>os.RemoveAll\<close> leaves of a directory.
\<close>

section \<open>Trees\<close>

datatype cnode = CDir | CFile string string | CLink string
  \<comment> \<open>a file has a mode and a content, a link a target\<close>

type_synonym cfs = "(string list, cnode) gomap"

datatype lstat_result = LFound cnode | LNotExist | LRefused

datatype 'a fs_result = FOk 'a | FFail | FEscape

definition segments :: "string \<Rightarrow> string list" where
  "segments p = split_on CHR ''/'' p"

fun lstat_walk :: "cfs \<Rightarrow> string list \<Rightarrow> string list \<Rightarrow> lstat_result" where
  "lstat_walk fs cur [] = (case mget fs cur of None \<Rightarrow> LNotExist | Some n \<Rightarrow> LFound n)"
| "lstat_walk fs cur (s # ss) =
    (case mget fs (cur @ [s]) of
       None \<Rightarrow> LNotExist
     | Some (CLink _) \<Rightarrow> LRefused
     | Some n \<Rightarrow> if ss \<noteq> [] \<and> n \<noteq> CDir then LRefused else lstat_walk fs (cur @ [s]) ss)"

definition lstatNoSymlink :: "cfs \<Rightarrow> string list \<Rightarrow> lstat_result" where
  "lstatNoSymlink fs ss = lstat_walk fs [] ss"

definition readCandidateFile :: "cfs \<Rightarrow> string \<Rightarrow> nat \<Rightarrow> string option" where
  "readCandidateFile fs p maxBytes =
    (case lstatNoSymlink fs (segments p) of
       LFound (CFile _ content) \<Rightarrow> if length content > maxBytes then None else Some content
     | _ \<Rightarrow> None)"

text \<open>\<^verbatim>\<open>os.MkdirAll\<close> from the root of the tree, \<^verbatim>\<open>os.WriteFile\<close>, \<^verbatim>\<open>os.Remove\<close> and \<^verbatim>\<open>os.Rename\<close>.\<close>

fun mkdir_all :: "string list \<Rightarrow> string list \<Rightarrow> cfs \<Rightarrow> cfs fs_result" where
  "mkdir_all cur [] fs = FOk fs"
| "mkdir_all cur (s # ss) fs =
    (case mget fs (cur @ [s]) of
       None \<Rightarrow> mkdir_all (cur @ [s]) ss (mput (cur @ [s]) CDir fs)
     | Some CDir \<Rightarrow> mkdir_all (cur @ [s]) ss fs
     | Some (CFile _ _) \<Rightarrow> FFail
     | Some (CLink _) \<Rightarrow> FEscape)"

definition write_file :: "string \<Rightarrow> string list \<Rightarrow> string \<Rightarrow> cfs \<Rightarrow> cfs fs_result" where
  "write_file newMode p content fs =
    (case mget fs p of
       None \<Rightarrow> FOk (mput p (CFile newMode content) fs)
     | Some (CFile m _) \<Rightarrow> FOk (mput p (CFile m content) fs)
     | Some CDir \<Rightarrow> FFail
     | Some (CLink _) \<Rightarrow> FEscape)"

definition remove_path :: "string list \<Rightarrow> cfs \<Rightarrow> cfs fs_result" where
  "remove_path p fs =
    (case mget fs p of
       None \<Rightarrow> FFail
     | Some CDir \<Rightarrow> if list_ex (\<lambda>q. q \<noteq> p \<and> take (length p) q = p) (mkeys fs) then FFail else FOk (mdel p fs)
     | Some _ \<Rightarrow> FOk (mdel p fs))"

definition rename_path :: "string list \<Rightarrow> string list \<Rightarrow> cfs \<Rightarrow> cfs fs_result" where
  "rename_path p q fs =
    (case mget fs p of
       Some (CFile m c) \<Rightarrow> (case mget fs q of Some CDir \<Rightarrow> FFail | _ \<Rightarrow> FOk (mput q (CFile m c) (mdel p fs)))
     | _ \<Rightarrow> FFail)"

fun fs_bind :: "'a fs_result \<Rightarrow> ('a \<Rightarrow> 'b fs_result) \<Rightarrow> 'b fs_result" where
  "fs_bind (FOk x) f = f x"
| "fs_bind FFail f = FFail"
| "fs_bind FEscape f = FEscape"

definition writeCandidateFile :: "string \<Rightarrow> cfs \<Rightarrow> string \<Rightarrow> string \<Rightarrow> nat \<Rightarrow> cfs fs_result" where
  "writeCandidateFile newMode fs p content maxBytes =
    (if length content > maxBytes then FFail
     else (let ss = segments p
           in if length ss > 1 \<and> lstatNoSymlink fs (butlast ss) = LRefused then FFail
              else fs_bind (mkdir_all [] (butlast ss) fs) (write_file newMode ss content)))"


section \<open>Applying edits\<close>

record store_config =
  sc_MaxFiles :: nat
  sc_MaxFileBytes :: nat
  sc_MaxTotalBytes :: nat
  sc_newMode :: string

definition verifyPreimage :: "(string \<Rightarrow> string) \<Rightarrow> store_config \<Rightarrow> cfs \<Rightarrow> string \<Rightarrow> Digest \<Rightarrow> bool" where
  "verifyPreimage sha cfg fs p before =
    (case readCandidateFile fs p (sc_MaxFileBytes cfg) of
       None \<Rightarrow> False
     | Some content \<Rightarrow> DigestBytes sha content = before)"

definition applyOne :: "(string \<Rightarrow> string) \<Rightarrow> store_config \<Rightarrow> cfs \<Rightarrow> Edit \<Rightarrow> cfs fs_result" where
  "applyOne sha cfg fs e =
    (if ed_Op e = OpAdd then
       (if lstatNoSymlink fs (segments (ed_Path e)) \<noteq> LNotExist then FFail
        else writeCandidateFile (sc_newMode cfg) fs (ed_Path e) (ed_NewContent e) (sc_MaxFileBytes cfg))
     else if ed_Op e = OpModify then
       (if \<not> verifyPreimage sha cfg fs (ed_Path e) (ed_BeforeDigest e) then FFail
        else writeCandidateFile (sc_newMode cfg) fs (ed_Path e) (ed_NewContent e) (sc_MaxFileBytes cfg))
     else if ed_Op e = OpDelete then
       (if \<not> verifyPreimage sha cfg fs (ed_Path e) (ed_BeforeDigest e) then FFail
        else remove_path (segments (ed_Path e)) fs)
     else if ed_Op e = OpRename then
       (if \<not> verifyPreimage sha cfg fs (ed_OldPath e) (ed_BeforeDigest e) then FFail
        else if lstatNoSymlink fs (segments (ed_Path e)) \<noteq> LNotExist then FFail
        else fs_bind (mkdir_all [] (butlast (segments (ed_Path e))) fs)
               (\<lambda>fs1. fs_bind (rename_path (segments (ed_OldPath e)) (segments (ed_Path e)) fs1)
                 (\<lambda>fs2. writeCandidateFile (sc_newMode cfg) fs2 (ed_Path e) (ed_NewContent e) (sc_MaxFileBytes cfg))))
     else FFail)"

datatype apply_error = EInvalidInput | EGit | EBase | EApply | EDenied denial | EConflict | ELimit
  | EInvalidEdits | EEscaped

text \<open>\<open>ctx\<close> says whether the context is still live before the n-th mutation and \<open>auth\<close>
  is the authorizer's answer for it.\<close>

fun apply_edits :: "(string \<Rightarrow> string) \<Rightarrow> store_config \<Rightarrow> (nat \<Rightarrow> bool) \<Rightarrow> (nat \<Rightarrow> Edit \<Rightarrow> denial option) \<Rightarrow> nat
    \<Rightarrow> Edit list \<Rightarrow> cfs \<Rightarrow> nat \<times> (apply_error + cfs)" where
  "apply_edits sha cfg ctx auth n [] fs = (n, Inr fs)"
| "apply_edits sha cfg ctx auth n (e # es) fs =
    (if \<not> ctx n then (n, Inl EApply)
     else (case auth n e of
             Some d \<Rightarrow> (n, Inl (EDenied d))
           | None \<Rightarrow>
               (case applyOne sha cfg fs e of
                  FOk fs' \<Rightarrow> apply_edits sha cfg ctx auth (n + 1) es fs'
                | FFail \<Rightarrow> (n, Inl EApply)
                | FEscape \<Rightarrow> (n, Inl EEscaped))))"

definition postimages_ok :: "(string \<Rightarrow> string) \<Rightarrow> store_config \<Rightarrow> Edit list \<Rightarrow> cfs \<Rightarrow> bool" where
  "postimages_ok sha cfg es fs = list_all (\<lambda>e. ed_Op e = OpDelete \<or>
     (case readCandidateFile fs (ed_Path e) (sc_MaxFileBytes cfg) of
        None \<Rightarrow> False
      | Some content \<Rightarrow> DigestBytes sha content = ed_AfterDigest e)) es"

record inventoryRecord =
  ir_path :: string
  ir_mode :: string
  ir_size :: nat
  ir_digest :: string

fun inventory_record :: "(string \<Rightarrow> string) \<Rightarrow> string list \<times> cnode \<Rightarrow> inventoryRecord list" where
  "inventory_record sha (p, CDir) = []"
| "inventory_record sha (p, CFile m c) =
    [\<lparr>ir_path = join_with ''/'' p, ir_mode = m, ir_size = length c, ir_digest = sha c\<rparr>]"
| "inventory_record sha (p, CLink t) =
    [\<lparr>ir_path = join_with ''/'' p, ir_mode = ''Lrwxrwxrwx'', ir_size = 0, ir_digest = ''symlink:'' @ sha t\<rparr>]"

definition inventory :: "(string \<Rightarrow> string) \<Rightarrow> string \<Rightarrow> nat \<Rightarrow> nat \<Rightarrow> cfs \<Rightarrow> inventoryRecord list option" where
  "inventory sha excludeTop maxFiles maxTotal fs =
    (let records = concat (map (inventory_record sha)
           (filter (\<lambda>(p, _). p \<noteq> [] \<and> (excludeTop = [] \<or> hd p \<noteq> excludeTop)) fs))
     in if sum_list (map ir_size records) > maxTotal \<or> length records > maxFiles then None
        else Some (sort_key ir_path records))"

definition writeField :: "string \<Rightarrow> string" where
  "writeField v = dec (length v) @ '':'' @ v @ '';''"

definition write_fields :: "string list \<Rightarrow> string" where
  "write_fields vs = concat (map writeField vs)"

definition PostImageDigest :: "(string \<Rightarrow> string) \<Rightarrow> store_config \<Rightarrow> cfs \<Rightarrow> Digest option" where
  "PostImageDigest sha cfg fs =
    map_option (\<lambda>rs. DigestBytes sha (write_fields (concat (map (\<lambda>r. [ir_path r, ir_mode r, ir_digest r]) rs))))
      (inventory sha ''.git'' (sc_MaxFiles cfg) (sc_MaxTotalBytes cfg) fs)"

record Attestation =
  at_Digest :: Digest
  at_Files :: nat
  at_Bytes :: nat

definition AttestCanonical :: "(string \<Rightarrow> string) \<Rightarrow> store_config \<Rightarrow> cfs \<Rightarrow> Attestation option" where
  "AttestCanonical sha cfg canonical =
    map_option (\<lambda>rs. \<lparr>at_Digest = DigestBytes sha (write_fields
          (concat (map (\<lambda>r. [ir_path r, ir_mode r, dec (ir_size r), ir_digest r]) rs))),
        at_Files = length rs, at_Bytes = sum_list (map ir_size rs)\<rparr>)
      (inventory sha [] (sc_MaxFiles cfg) (sc_MaxTotalBytes cfg) canonical)"

definition isGitOID :: "string \<Rightarrow> bool" where
  "isGitOID v \<longleftrightarrow> (length v = 40 \<or> length v = 64)
    \<and> (case hex_decode v of None \<Rightarrow> False | Some bs \<Rightarrow> length bs * 2 = length v \<and> list_all lower_hex v)"


section \<open>The store\<close>

record git_env =
  gi_resolve :: "string \<Rightarrow> string option"
  gi_gitdir :: bool
  gi_id :: "string option"
  gi_hydrate :: "string \<Rightarrow> cfs option"
  gi_head :: "string option"
  gi_clean :: bool
  gi_add :: "cfs \<Rightarrow> bool"
  gi_writeTree :: "cfs \<Rightarrow> string option"
  gi_removeAll :: "nat \<Rightarrow> cfs option"
    \<comment> \<open>what is left of the candidate after a removal while it is begun (0), applied (1) or
      discarded (2): nothing, or some tree when the removal failed\<close>

datatype CandidateState = StateApplied | StateRejected

record RollbackReceipt =
  rr_Receipt :: Receipt
  rr_CandidateID :: string
  rr_BaseGitOID :: string
  rr_ChangeSetDigest :: Digest
  rr_DiscardedEdits :: nat
  rr_FailedEditIndex :: int

record Outcome =
  oc_State :: CandidateState
  oc_CandidateID :: string
  oc_BaseGitOID :: string
  oc_ChangeSetDigest :: Digest
  oc_PostImageDigest :: Digest
  oc_PostImageTreeOID :: string
  oc_Rollback :: "RollbackReceipt option"

record recordedOutcome =
  ro_requestDigest :: Digest
  ro_outcome :: "Outcome option"
  ro_inFlight :: string

record Candidate =
  ca_ID :: string
  ca_Base :: string

text \<open>The recorded outcomes, and the candidate directories that exist.\<close>

record Store =
  so_seen :: "(string, recordedOutcome) gomap"
  so_dirs :: "string \<rightharpoonup> cfs"

definition remove_candidate :: "git_env \<Rightarrow> nat \<Rightarrow> string \<Rightarrow> Store \<Rightarrow> Store" where
  "remove_candidate git n i s =
    (if so_dirs s i = None then s else s\<lparr>so_dirs := (so_dirs s)(i := gi_removeAll git n)\<rparr>)"

text \<open>A failure after the directory was made removes it again.\<close>

definition Begin :: "git_env \<Rightarrow> string \<Rightarrow> Store \<Rightarrow> (apply_error + Candidate) \<times> Store" where
  "Begin git base s =
    (if \<not> isGitOID base then (Inl EInvalidInput, s)
     else if map_option trim_space (gi_resolve git base) \<noteq> Some base then (Inl EBase, s)
     else if \<not> gi_gitdir git then (Inl EGit, s)
     else (case gi_id git of
             None \<Rightarrow> (Inl EGit, s)
           | Some i \<Rightarrow>
               if so_dirs s i \<noteq> None then (Inl EGit, s)
               else (case gi_hydrate git base of
                       None \<Rightarrow> (Inl EGit, remove_candidate git 0 i (s\<lparr>so_dirs := (so_dirs s)(i \<mapsto> [])\<rparr>))
                     | Some tree \<Rightarrow>
                         if map_option trim_space (gi_head git) \<noteq> Some base \<or> \<not> gi_clean git
                         then (Inl EGit, remove_candidate git 0 i (s\<lparr>so_dirs := (so_dirs s)(i \<mapsto> tree)\<rparr>))
                         else (Inr \<lparr>ca_ID = i, ca_Base = base\<rparr>, s\<lparr>so_dirs := (so_dirs s)(i \<mapsto> tree)\<rparr>))))"

record ApplyRequest =
  ar_ChangeSetID :: string
  ar_IdempotencyKey :: string
  ar_Tenant :: Identifier
  ar_Principal :: Identifier
  ar_Edits :: "Edit list"

definition replayKey :: "ApplyRequest \<Rightarrow> string" where
  "replayKey r = IdValue (ar_Tenant r) @ [NUL] @ IdValue (ar_Principal r) @ [NUL] @ ar_IdempotencyKey r"

definition digestApplyRequest :: "(string \<Rightarrow> string) \<Rightarrow> string \<Rightarrow> ApplyRequest \<Rightarrow> Digest" where
  "digestApplyRequest sha base r = DigestBytes sha (write_fields
    ([''ouroboros.stage05.apply-request.v1'', base, IdValue (ar_Tenant r), IdValue (ar_Principal r),
      ar_ChangeSetID r, ar_IdempotencyKey r]
     @ concat (map (\<lambda>e. [ed_Path e, ed_OldPath e, ed_Op e, ed_Lang e, Hex (ed_BeforeDigest e), Hex (ed_AfterDigest e)])
         (ar_Edits r))))"

definition ChangeSetDigest :: "(string \<Rightarrow> string) \<Rightarrow> string \<Rightarrow> Edit list \<Rightarrow> Digest" where
  "ChangeSetDigest sha base es = DigestBytes sha (write_fields
    ([''ouroboros.stage05.change-set.v1'', base]
     @ concat (map (\<lambda>e. [ed_Path e, ed_OldPath e, ed_Op e, Hex (ed_BeforeDigest e), Hex (ed_AfterDigest e)]) es)))"

definition candidateInFlight :: "Store \<Rightarrow> string \<Rightarrow> bool" where
  "candidateInFlight s i = list_ex (\<lambda>(k, r). ro_outcome r = None \<and> ro_inFlight r = i) (so_seen s)"

definition ReasonApplyFailed :: string where "ReasonApplyFailed = ''candidate_apply_failed''"
definition ReasonEscapeDenied :: string where "ReasonEscapeDenied = ''candidate_escape_denied''"
definition ReasonRejected :: string where "ReasonRejected = ''candidate_rejected''"

definition rollback :: "Candidate \<Rightarrow> string \<Rightarrow> Digest \<Rightarrow> nat \<Rightarrow> int \<Rightarrow> RollbackReceipt" where
  "rollback c code d discarded failedIndex = \<lparr>rr_Receipt = \<lparr>OperationID = \<lparr>Namespace = ''candidate'', IdValue = ca_ID c\<rparr>,
       Status = ''rejected'', ReasonCode = code, Watermark = 0\<rparr>,
     rr_CandidateID = ca_ID c, rr_BaseGitOID = ca_Base c, rr_ChangeSetDigest = d,
     rr_DiscardedEdits = discarded, rr_FailedEditIndex = failedIndex\<rparr>"

definition rejected_outcome :: "Candidate \<Rightarrow> Digest \<Rightarrow> RollbackReceipt \<Rightarrow> Outcome" where
  "rejected_outcome c d r = \<lparr>oc_State = StateRejected, oc_CandidateID = ca_ID c, oc_BaseGitOID = ca_Base c,
     oc_ChangeSetDigest = d, oc_PostImageDigest = zero_digest, oc_PostImageTreeOID = [], oc_Rollback = Some r\<rparr>"

text \<open>\<^verbatim>\<open>applyAll\<close> on the tree of a candidate: the number of edits executed, and the
  post-image facts with the resulting tree or the error.\<close>

definition applyAll :: "(string \<Rightarrow> string) \<Rightarrow> store_config \<Rightarrow> git_env \<Rightarrow> (nat \<Rightarrow> bool) \<Rightarrow> (nat \<Rightarrow> Edit \<Rightarrow> denial option)
    \<Rightarrow> Edit list \<Rightarrow> cfs \<Rightarrow> nat \<times> (apply_error + Digest \<times> string \<times> cfs)" where
  "applyAll sha cfg git ctx auth es fs =
    (case apply_edits sha cfg ctx auth 0 es fs of
       (n, Inl err) \<Rightarrow> (n, Inl err)
     | (n, Inr fs') \<Rightarrow>
         if \<not> postimages_ok sha cfg es fs' then (n, Inl EApply)
         else if \<not> gi_add git fs' then (n, Inl EGit)
         else (case gi_writeTree git fs' of
                 None \<Rightarrow> (n, Inl EGit)
               | Some out \<Rightarrow>
                   if \<not> isGitOID (trim_space out) then (n, Inl EGit)
                   else (case PostImageDigest sha cfg fs' of
                           None \<Rightarrow> (n, Inl ELimit)
                         | Some d \<Rightarrow> (n, Inr (d, trim_space out, fs')))))"

definition apply_request_ok :: "ApplyRequest \<Rightarrow> bool" where
  "apply_request_ok r \<longleftrightarrow> \<not> (ar_ChangeSetID r = [] \<or> ar_IdempotencyKey r = []
     \<or> Namespace (ar_Tenant r) \<noteq> ''tenant'' \<or> IdValue (ar_Tenant r) = []
     \<or> Namespace (ar_Principal r) \<noteq> ''principal'' \<or> IdValue (ar_Principal r) = []
     \<or> ar_Edits r = [] \<or> length (ar_Edits r) > MaxEdits)"

text \<open>The whole call when no other application of the store interferes.  A candidate
  directory that has disappeared reads as an empty tree.\<close>

definition Apply :: "(string \<Rightarrow> string) \<Rightarrow> store_config \<Rightarrow> git_env \<Rightarrow> (nat \<Rightarrow> bool) \<Rightarrow> (nat \<Rightarrow> Edit \<Rightarrow> denial option)
    \<Rightarrow> Candidate \<Rightarrow> ApplyRequest \<Rightarrow> Store \<Rightarrow> (Outcome option \<times> apply_error option) \<times> Store" where
  "Apply sha cfg git ctx auth c r s =
    (if \<not> apply_request_ok r then ((None, Some EInvalidInput), s)
     else (let key = replayKey r; d = digestApplyRequest sha (ca_Base c) r; es = ar_Edits r;
               setDigest = ChangeSetDigest sha (ca_Base c) es
           in if \<not> Validate sha es then
                (if candidateInFlight s (ca_ID c) then ((None, Some EConflict), s)
                 else ((Some (rejected_outcome c zero_digest (rollback c ReasonRejected setDigest 0 (- 1))),
                        Some EInvalidEdits), remove_candidate git 1 (ca_ID c) s))
              else (case mget (so_seen s) key of
                      Some rec \<Rightarrow>
                        (let s' = (if ca_ID c \<noteq> (case ro_outcome rec of None \<Rightarrow> [] | Some oc \<Rightarrow> oc_CandidateID oc)
                                      \<and> ca_ID c \<noteq> ro_inFlight rec
                                   then remove_candidate git 1 (ca_ID c) s else s)
                         in if ro_requestDigest rec \<noteq> d \<or> ro_outcome rec = None then ((None, Some EConflict), s')
                            else ((ro_outcome rec, None), s'))
                    | None \<Rightarrow>
                        (case applyAll sha cfg git ctx auth es (case so_dirs s (ca_ID c) of None \<Rightarrow> [] | Some fs \<Rightarrow> fs) of
                           (n, Inl err) \<Rightarrow>
                             (let oc = rejected_outcome c setDigest (rollback c ReasonApplyFailed setDigest n (int n))
                              in ((Some oc, Some err),
                                  (remove_candidate git 1 (ca_ID c) s)\<lparr>so_seen := mput key
                                     \<lparr>ro_requestDigest = d, ro_outcome = Some oc, ro_inFlight = []\<rparr> (so_seen s)\<rparr>))
                         | (n, Inr (post, tree, fs')) \<Rightarrow>
                             (let oc = \<lparr>oc_State = StateApplied, oc_CandidateID = ca_ID c, oc_BaseGitOID = ca_Base c,
                                        oc_ChangeSetDigest = setDigest, oc_PostImageDigest = post,
                                        oc_PostImageTreeOID = tree, oc_Rollback = None\<rparr>
                              in ((Some oc, None),
                                  s\<lparr>so_dirs := (so_dirs s)(ca_ID c \<mapsto> fs'),
                                    so_seen := mput key \<lparr>ro_requestDigest = d, ro_outcome = Some oc, ro_inFlight = []\<rparr>
                                      (so_seen s)\<rparr>))))))"

definition Discard :: "git_env \<Rightarrow> Candidate \<Rightarrow> string \<Rightarrow> Digest \<Rightarrow> Store \<Rightarrow> (RollbackReceipt \<times> apply_error option) \<times> Store" where
  "Discard git c code d s =
    (let s' = remove_candidate git 2 (ca_ID c) s
     in ((rollback c code d 0 (- 1), if so_dirs s' (ca_ID c) \<noteq> None then Some EGit else None), s'))"

definition candidate_ReadFile :: "store_config \<Rightarrow> Candidate \<Rightarrow> string \<Rightarrow> Store \<Rightarrow> string option" where
  "candidate_ReadFile cfg c p s =
    (if \<not> ValidatePath p then None
     else (case so_dirs s (ca_ID c) of None \<Rightarrow> None | Some fs \<Rightarrow> readCandidateFile fs p (sc_MaxFileBytes cfg)))"


section \<open>Trees are closed under parents\<close>

definition is_dir :: "cfs \<Rightarrow> string list \<Rightarrow> bool" where
  "is_dir fs p \<longleftrightarrow> p = [] \<or> mget fs p = Some CDir"

definition wf_tree :: "cfs \<Rightarrow> bool" where
  "wf_tree fs \<longleftrightarrow> mget fs [] = None \<and> (\<forall>p. p \<noteq> [] \<and> mget fs p \<noteq> None \<longrightarrow> is_dir fs (butlast p))"

lemma wf_treeD: "wf_tree fs \<Longrightarrow> p \<noteq> [] \<Longrightarrow> mget fs p = Some n \<Longrightarrow> is_dir fs (butlast p)"
  by (simp add: wf_tree_def)

lemma below_non_dir:
  assumes "wf_tree fs" "\<not> is_dir fs p" "q \<noteq> []"
  shows "mget fs (p @ q) = None"
  using assms(3)
proof (induction q rule: rev_induct)
  case (snoc x q)
  have "\<not> is_dir fs (p @ q)"
  proof (cases "q = []")
    case False
    then have "mget fs (p @ q) = None" by (rule snoc.IH)
    moreover have "p \<noteq> []" using assms(2) by (auto simp: is_dir_def)
    ultimately show ?thesis by (simp add: is_dir_def)
  qed (simp add: assms(2))
  then show ?case using wf_treeD[OF assms(1), of "p @ q @ [x]"] by (cases "mget fs (p @ q @ [x])") (simp_all add: butlast_append)
qed simp

fun dir_chain :: "string list \<Rightarrow> string list \<Rightarrow> string list list" where
  "dir_chain cur [] = []"
| "dir_chain cur (s # ss) = (cur @ [s]) # dir_chain (cur @ [s]) ss"

lemma dir_chain_append: "q \<in> set (dir_chain cur ss) \<Longrightarrow> \<exists>r. r \<noteq> [] \<and> q = cur @ r \<and> length r \<le> length ss"
proof (induction cur ss rule: dir_chain.induct)
  case (2 cur s ss)
  then consider "q = cur @ [s]" | "q \<in> set (dir_chain (cur @ [s]) ss)" by auto
  then show ?case
  proof cases
    case 2
    with "2.IH" obtain r where "r \<noteq> []" "q = (cur @ [s]) @ r" "length r \<le> length ss" by blast
    then show ?thesis by (intro exI[of _ "s # r"]) simp
  qed simp
qed simp

lemma dir_chain_parent: "q \<in> set (dir_chain cur ss) \<Longrightarrow> butlast q = cur \<or> butlast q \<in> set (dir_chain cur ss)"
  by (induction cur ss rule: dir_chain.induct) auto

lemma dir_chain_full: "ss \<noteq> [] \<Longrightarrow> cur @ ss \<in> set (dir_chain cur ss)"
proof (induction cur ss rule: dir_chain.induct)
  case (2 cur s ss)
  then show ?case by (cases "ss = []") simp_all
qed simp

lemma lstat_found:
  "lstat_walk fs cur ss = LFound n \<Longrightarrow> mget fs (cur @ ss) = Some n"
  by (induction fs cur ss rule: lstat_walk.induct) (auto split: option.splits cnode.splits if_splits)

lemma lstat_missing:
  assumes "wf_tree fs" "ss \<noteq> []"
  shows "lstat_walk fs cur ss = LNotExist \<Longrightarrow> mget fs (cur @ ss) = None"
  using assms
proof (induction fs cur ss rule: lstat_walk.induct)
  case (2 fs cur s ss)
  show ?case
  proof (cases "mget fs (cur @ [s])")
    case None
    then have "\<not> is_dir fs (cur @ [s])" by (simp add: is_dir_def)
    with below_non_dir[OF "2.prems"(2) this, of ss] None show ?thesis by (cases "ss = []") simp_all
  next
    case (Some n)
    show ?thesis
    proof (cases "ss = []")
      case True
      with 2(2-) Some show ?thesis by (cases n) simp_all
    next
      case False
      with "2.IH" "2.prems" Some show ?thesis by (cases n) (simp_all split: if_splits)
    qed
  qed
qed simp

lemma lstat_no_link:
  assumes "wf_tree fs"
  shows "lstat_walk fs cur ss \<noteq> LRefused \<Longrightarrow> q \<in> set (dir_chain cur ss) \<Longrightarrow> mget fs q \<noteq> Some (CLink t)"
  using assms
proof (induction fs cur ss rule: lstat_walk.induct)
  case (2 fs cur s ss)
  show ?case
  proof (cases "mget fs (cur @ [s])")
    case None
    then have "\<not> is_dir fs (cur @ [s])" by (simp add: is_dir_def)
    note below = below_non_dir[OF "2.prems"(3) this]
    from "2.prems"(2) consider "q = cur @ [s]" | r where "r \<noteq> []" "q = (cur @ [s]) @ r"
      using dir_chain_append[of q "cur @ [s]" ss] by auto
    then show ?thesis using None below by cases simp_all
  next
    case (Some n)
    with "2.prems"(1) have n: "n = CDir \<or> ss = []" "\<And>u. n \<noteq> CLink u" "lstat_walk fs (cur @ [s]) ss \<noteq> LRefused"
      by (auto split: cnode.splits if_splits)
    from "2.prems"(2) consider "q = cur @ [s]" | "q \<in> set (dir_chain (cur @ [s]) ss)" by auto
    then show ?thesis
    proof cases
      case 1
      then show ?thesis using Some n(2) by simp
    next
      case 2
      show ?thesis
      proof (cases n)
        case CDir
        with Some n(3) 2 "2.prems"(3) "2.IH"(1) show ?thesis by simp
      next
        case (CFile m c)
        with n(1) 2 show ?thesis by simp
      next
        case (CLink u)
        with n(2) show ?thesis by blast
      qed
    qed
  qed
qed simp

lemma mkdir_all_ok:
  assumes "mkdir_all cur ss fs = FOk fs'"
  shows "mget fs' q = (if q \<in> set (dir_chain cur ss) then Some CDir else mget fs q)"
    and "q \<in> set (dir_chain cur ss) \<Longrightarrow> mget fs q = None \<or> mget fs q = Some CDir"
  using assms
proof (induction cur ss fs rule: mkdir_all.induct)
  case (2 cur s ss fs)
  {
    case 1
    then show ?case using "2.IH" by (auto split: option.splits cnode.splits if_splits)
  next
    case 2
    then show ?case using "2.IH" by (auto split: option.splits cnode.splits if_splits)
  }
qed simp_all

lemma mkdir_all_escape:
  assumes "mkdir_all cur ss fs = FEscape"
  shows "\<exists>q \<in> set (dir_chain cur ss). \<exists>t. mget fs q = Some (CLink t)"
  using assms
proof (induction cur ss fs rule: mkdir_all.induct)
  case (2 cur s ss fs)
  then show ?case by (auto split: option.splits cnode.splits if_splits)
qed simp

lemma mkdir_all_wf:
  assumes "mkdir_all cur ss fs = FOk fs'" "wf_tree fs" "is_dir fs cur"
  shows "wf_tree fs'"
proof -
  note m = mkdir_all_ok[OF assms(1)]
  have ne: "[] \<notin> set (dir_chain cur ss)" using dir_chain_append by fastforce
  have "is_dir fs' (butlast p)" if "p \<noteq> []" "mget fs' p \<noteq> None" for p
  proof (cases "p \<in> set (dir_chain cur ss)")
    case True
    then consider "butlast p = cur" | "butlast p \<in> set (dir_chain cur ss)" using dir_chain_parent by blast
    then show ?thesis using assms(3) m(1) by cases (auto simp: is_dir_def)
  next
    case False
    then have "is_dir fs (butlast p)" using that m(1) assms(2) by (simp add: wf_tree_def)
    then show ?thesis using m(1) by (auto simp: is_dir_def)
  qed
  moreover have "mget fs' [] = None" using m(1)[of "[]"] ne assms(2) by (simp add: wf_tree_def)
  ultimately show ?thesis by (simp add: wf_tree_def)
qed

lemma wf_put_file:
  assumes "wf_tree fs" "p \<noteq> []" "is_dir fs (butlast p)" "mget fs p \<noteq> Some CDir"
  shows "wf_tree (mput p (CFile m c) fs)"
proof -
  have nd: "\<not> is_dir fs p" using assms(2,4) by (simp add: is_dir_def)
  have "is_dir (mput p (CFile m c) fs) (butlast q)" if q: "q \<noteq> []" "mget (mput p (CFile m c) fs) q \<noteq> None" for q
  proof (cases "q = p")
    case True
    have "butlast p \<noteq> p" using assms(2) by (metis append_butlast_last_id append_self_conv not_Cons_self2)
    then show ?thesis using assms(3) True by (simp add: is_dir_def)
  next
    case False
    then have d: "is_dir fs (butlast q)" using q assms(1) by (simp add: wf_tree_def)
    then have "butlast q \<noteq> p" using nd by blast
    with d show ?thesis by (simp add: is_dir_def)
  qed
  then show ?thesis using assms(1,2) by (simp add: wf_tree_def)
qed

lemma wf_del:
  assumes "wf_tree fs" "mget fs p \<noteq> Some CDir" "p \<noteq> []"
  shows "wf_tree (mdel p fs)"
proof -
  have nd: "\<not> is_dir fs p" using assms(2,3) by (simp add: is_dir_def)
  have "is_dir (mdel p fs) (butlast q)" if q: "q \<noteq> []" "mget (mdel p fs) q \<noteq> None" for q
  proof -
    have d: "is_dir fs (butlast q)" using q assms(1) by (simp add: wf_tree_def split: if_splits)
    then have "butlast q \<noteq> p" using nd by blast
    with d show ?thesis by (simp add: is_dir_def)
  qed
  then show ?thesis using assms(1) by (simp add: wf_tree_def)
qed

text \<open>What a tree holds: the contents of files and the targets of links.\<close>

definition content_at :: "cfs \<Rightarrow> string list \<Rightarrow> (string + string) option" where
  "content_at fs p = (case mget fs p of Some (CFile m c) \<Rightarrow> Some (Inl c) | Some (CLink t) \<Rightarrow> Some (Inr t) | _ \<Rightarrow> None)"

lemma content_mkdir:
  assumes "mkdir_all cur ss fs = FOk fs'"
  shows "content_at fs' = content_at fs"
proof
  fix q
  show "content_at fs' q = content_at fs q"
    using mkdir_all_ok[OF assms, of q] by (auto simp: content_at_def split: option.split)
qed

lemma segments_ne [simp]: "segments p \<noteq> []"
  by (simp add: segments_def)

lemma chain_excludes: "ss \<noteq> [] \<Longrightarrow> ss \<notin> set (dir_chain [] (butlast ss))"
  using dir_chain_append[of ss "[]" "butlast ss"] by (cases ss rule: rev_cases) auto

lemma mkdir_parent:
  assumes "mkdir_all [] (butlast ss) fs = FOk fs1" "wf_tree fs" "ss \<noteq> []"
  shows "wf_tree fs1" "is_dir fs1 (butlast ss)" "mget fs1 ss = mget fs ss"
proof -
  show "wf_tree fs1" by (rule mkdir_all_wf[OF assms(1,2)]) (simp add: is_dir_def)
  show "is_dir fs1 (butlast ss)"
  proof (cases "butlast ss = []")
    case False
    then have "butlast ss \<in> set (dir_chain [] (butlast ss))" using dir_chain_full[of "butlast ss" "[]"] by simp
    then show ?thesis using mkdir_all_ok(1)[OF assms(1), of "butlast ss"] by (simp add: is_dir_def)
  qed (simp add: is_dir_def)
  show "mget fs1 ss = mget fs ss" using mkdir_all_ok(1)[OF assms(1), of ss] chain_excludes[OF assms(3)] by simp
qed

lemma mkdir_no_escape:
  assumes "wf_tree fs" "lstatNoSymlink fs ps \<noteq> LRefused"
  shows "mkdir_all [] ps fs \<noteq> FEscape"
  using mkdir_all_escape[of "[]" ps fs] lstat_no_link[OF assms(1)] assms(2) unfolding lstatNoSymlink_def by blast

lemma write_candidate:
  assumes wf: "wf_tree fs" and free: "mget fs (segments p) = None \<or> (\<exists>m c. mget fs (segments p) = Some (CFile m c))"
  shows "writeCandidateFile nm fs p content mx \<noteq> FEscape"
    and "writeCandidateFile nm fs p content mx = FOk fs' \<Longrightarrow>
      wf_tree fs' \<and> content_at fs' = (content_at fs)(segments p \<mapsto> Inl content) \<and> length content \<le> mx"
proof -
  let ?ss = "segments p"
  have esc: "mkdir_all [] (butlast ?ss) fs \<noteq> FEscape" if "\<not> (length ?ss > 1 \<and> lstatNoSymlink fs (butlast ?ss) = LRefused)"
  proof (cases "length ?ss > 1")
    case True
    with that mkdir_no_escape[OF wf] show ?thesis by blast
  next
    case False
    then have "butlast ?ss = []" using segments_ne[of p] by (cases ?ss rule: rev_cases) auto
    then show ?thesis by simp
  qed
  have step: "write_file nm ?ss content fs1 \<noteq> FEscape \<and>
      (\<forall>fs'. write_file nm ?ss content fs1 = FOk fs' \<longrightarrow> wf_tree fs' \<and> content_at fs' = (content_at fs)(?ss \<mapsto> Inl content))"
    if m: "mkdir_all [] (butlast ?ss) fs = FOk fs1" for fs1
  proof -
    note mp = mkdir_parent[OF m wf segments_ne]
    have cn: "content_at fs1 = content_at fs" by (rule content_mkdir[OF m])
    from free mp(3) consider "mget fs1 ?ss = None" | md c where "mget fs1 ?ss = Some (CFile md c)" by auto
    then obtain md where w: "write_file nm ?ss content fs1 = FOk (mput ?ss (CFile md content) fs1)"
      "mget fs1 ?ss \<noteq> Some CDir" by cases (auto simp: write_file_def)
    have "wf_tree (mput ?ss (CFile md content) fs1)" by (rule wf_put_file[OF mp(1) segments_ne mp(2) w(2)])
    moreover have "content_at (mput ?ss (CFile md content) fs1) = (content_at fs)(?ss \<mapsto> Inl content)"
      using cn by (auto simp: content_at_def fun_eq_iff)
    ultimately show ?thesis using w(1) by simp
  qed
  show "writeCandidateFile nm fs p content mx \<noteq> FEscape"
    using esc step by (cases "mkdir_all [] (butlast ?ss) fs") (auto simp: writeCandidateFile_def Let_def)
  show "writeCandidateFile nm fs p content mx = FOk fs' \<Longrightarrow>
      wf_tree fs' \<and> content_at fs' = (content_at fs)(?ss \<mapsto> Inl content) \<and> length content \<le> mx"
    using step by (cases "mkdir_all [] (butlast ?ss) fs") (auto simp: writeCandidateFile_def Let_def split: if_splits)
qed

text \<open>One edit, as an update of the contents.\<close>

definition edit_contents :: "Edit \<Rightarrow> (string list \<Rightarrow> (string + string) option) \<Rightarrow> string list \<Rightarrow> (string + string) option" where
  "edit_contents e F =
    (if ed_Op e = OpDelete then F(segments (ed_Path e) := None)
     else if ed_Op e = OpRename then F(segments (ed_OldPath e) := None, segments (ed_Path e) \<mapsto> Inl (ed_NewContent e))
     else F(segments (ed_Path e) \<mapsto> Inl (ed_NewContent e)))"

lemma preimage_file:
  assumes "verifyPreimage sha cfg fs p d"
  shows "\<exists>m c. mget fs (segments p) = Some (CFile m c) \<and> DigestBytes sha c = d \<and> content_at fs (segments p) = Some (Inl c)"
proof -
  obtain m c where "lstatNoSymlink fs (segments p) = LFound (CFile m c)" "DigestBytes sha c = d"
    using assms
    by (auto simp: verifyPreimage_def readCandidateFile_def split: option.split_asm lstat_result.split_asm
        cnode.split_asm if_split_asm)
  moreover from this have "mget fs (segments p) = Some (CFile m c)"
    using lstat_found[of fs "[]" "segments p"] by (simp add: lstatNoSymlink_def)
  ultimately show ?thesis by (simp add: content_at_def)
qed

lemma missing_path: "wf_tree fs \<Longrightarrow> lstatNoSymlink fs (segments p) = LNotExist \<Longrightarrow> mget fs (segments p) = None"
  using lstat_missing[of fs "segments p" "[]"] by (simp add: lstatNoSymlink_def)

lemma dir_chain_butlast: "set (dir_chain cur (butlast ss)) \<subseteq> set (dir_chain cur ss)"
  by (induction cur ss rule: dir_chain.induct) auto

lemma rename_step:
  assumes wf: "wf_tree fs" and old: "mget fs p = Some (CFile m c)" "p \<noteq> []" and new: "lstatNoSymlink fs q = LNotExist" "q \<noteq> []"
  shows "mkdir_all [] (butlast q) fs \<noteq> FEscape"
    and "mkdir_all [] (butlast q) fs = FOk fs1 \<Longrightarrow>
      \<exists>fs2. rename_path p q fs1 = FOk fs2 \<and> wf_tree fs2 \<and> mget fs2 q = Some (CFile m c)
        \<and> content_at fs2 = (content_at fs)(p := None, q \<mapsto> Inl c)"
proof -
  have "lstat_walk fs [] q \<noteq> LRefused" using new(1) by (simp add: lstatNoSymlink_def)
  then show "mkdir_all [] (butlast q) fs \<noteq> FEscape"
    using mkdir_all_escape[of "[]" "butlast q" fs] lstat_no_link[OF wf] dir_chain_butlast[of "[]" q] by blast
next
  assume m: "mkdir_all [] (butlast q) fs = FOk fs1"
  note mp = mkdir_parent[OF m wf new(2)]
  have qn: "mget fs q = None" using lstat_missing[OF wf new(2), of "[]"] new(1) by (simp add: lstatNoSymlink_def)
  have p1: "mget fs1 p = Some (CFile m c)"
    using mkdir_all_ok[OF m, of p] old(1) by (auto split: if_splits)
  have pq: "p \<noteq> q" using old(1) qn by auto
  let ?fs2 = "mput q (CFile m c) (mdel p fs1)"
  have "rename_path p q fs1 = FOk ?fs2" using p1 qn mp(3) by (simp add: rename_path_def)
  moreover have "wf_tree ?fs2"
  proof (rule wf_put_file)
    show "wf_tree (mdel p fs1)" by (rule wf_del[OF mp(1)]) (simp_all add: p1 old(2))
    show "is_dir (mdel p fs1) (butlast q)" using mp(2) p1 by (auto simp: is_dir_def)
    show "mget (mdel p fs1) q \<noteq> Some CDir" using qn mp(3) by simp
  qed (rule new(2))
  moreover have "content_at ?fs2 = (content_at fs)(p := None, q \<mapsto> Inl c)"
    using content_mkdir[OF m] by (auto simp: content_at_def fun_eq_iff)
  ultimately show "\<exists>fs2. rename_path p q fs1 = FOk fs2 \<and> wf_tree fs2 \<and> mget fs2 q = Some (CFile m c)
      \<and> content_at fs2 = (content_at fs)(p := None, q \<mapsto> Inl c)" by auto
qed

definition edit_pre :: "(string \<Rightarrow> string) \<Rightarrow> Edit \<Rightarrow> (string list \<Rightarrow> (string + string) option) \<Rightarrow> bool" where
  "edit_pre sha e F \<longleftrightarrow> (ed_Op e \<in> {OpAdd, OpRename} \<longrightarrow> F (segments (ed_Path e)) = None)
    \<and> (ed_Op e \<noteq> OpAdd \<longrightarrow> (\<exists>c. F (segments (preimage e)) = Some (Inl c) \<and> DigestBytes sha c = ed_BeforeDigest e))"

lemma apply_rename:
  assumes wf: "wf_tree fs" and op: "ed_Op e = OpRename"
  shows "applyOne sha cfg fs e \<noteq> FEscape"
    and "applyOne sha cfg fs e = FOk fs' \<Longrightarrow> wf_tree fs' \<and> content_at fs' = edit_contents e (content_at fs) \<and> edit_pre sha e (content_at fs)"
proof -
  let ?p = "segments (ed_OldPath e)" and ?q = "segments (ed_Path e)"
  have ops: "ed_Op e \<noteq> OpAdd" "ed_Op e \<noteq> OpModify" "ed_Op e \<noteq> OpDelete" using op by (simp_all add: op_defs)
  define guard where "guard \<longleftrightarrow> verifyPreimage sha cfg fs (ed_OldPath e) (ed_BeforeDigest e) \<and> lstatNoSymlink fs ?q = LNotExist"
  have run: "applyOne sha cfg fs e = (if \<not> guard then FFail else fs_bind (mkdir_all [] (butlast ?q) fs)
      (\<lambda>fs1. fs_bind (rename_path ?p ?q fs1)
        (\<lambda>fs2. writeCandidateFile (sc_newMode cfg) fs2 (ed_Path e) (ed_NewContent e) (sc_MaxFileBytes cfg))))"
    using op by (simp add: applyOne_def guard_def op_defs)
  show "applyOne sha cfg fs e \<noteq> FEscape"
    and "applyOne sha cfg fs e = FOk fs' \<Longrightarrow> wf_tree fs' \<and> content_at fs' = edit_contents e (content_at fs) \<and> edit_pre sha e (content_at fs)"
  proof -
    have main: "applyOne sha cfg fs e \<noteq> FEscape \<and> (\<forall>fs'. applyOne sha cfg fs e = FOk fs' \<longrightarrow>
        wf_tree fs' \<and> content_at fs' = edit_contents e (content_at fs) \<and> edit_pre sha e (content_at fs))" if g: guard
    proof -
      obtain m c where old: "mget fs ?p = Some (CFile m c)" "DigestBytes sha c = ed_BeforeDigest e"
        "content_at fs ?p = Some (Inl c)"
        using g preimage_file unfolding guard_def by blast
      have new: "lstatNoSymlink fs ?q = LNotExist" using g by (simp add: guard_def)
      note rs = rename_step[OF wf old(1) segments_ne new segments_ne]
      have pre: "edit_pre sha e (content_at fs)"
        using missing_path[OF wf new] old(2,3) op by (simp add: edit_pre_def preimage_def content_at_def)
      show ?thesis
      proof (cases "mkdir_all [] (butlast ?q) fs")
        case (FOk fs1)
        then obtain fs2 where f2: "rename_path ?p ?q fs1 = FOk fs2" "wf_tree fs2" "mget fs2 ?q = Some (CFile m c)"
          "content_at fs2 = (content_at fs)(?p := None, ?q \<mapsto> Inl c)" using rs(2) by blast
        have "mget fs2 ?q = None \<or> (\<exists>m c. mget fs2 ?q = Some (CFile m c))" using f2(3) by blast
        note wc = write_candidate[OF f2(2) this]
        have eq: "applyOne sha cfg fs e = writeCandidateFile (sc_newMode cfg) fs2 (ed_Path e) (ed_NewContent e) (sc_MaxFileBytes cfg)"
          using run g FOk f2(1) by simp
        show ?thesis unfolding eq using wc pre f2(4) op ops by (auto simp: edit_contents_def)
      qed (use run g rs(1) in simp_all)
    qed
    show "applyOne sha cfg fs e \<noteq> FEscape" using main run by (cases guard) simp_all
    show "applyOne sha cfg fs e = FOk fs' \<Longrightarrow> wf_tree fs' \<and> content_at fs' = edit_contents e (content_at fs) \<and> edit_pre sha e (content_at fs)"
      using main run by (cases guard) auto
  qed
qed

lemma apply_one:
  assumes wf: "wf_tree fs"
  shows "applyOne sha cfg fs e \<noteq> FEscape"
    and "applyOne sha cfg fs e = FOk fs' \<Longrightarrow> wf_tree fs' \<and> content_at fs' = edit_contents e (content_at fs) \<and> edit_pre sha e (content_at fs)"
proof -
  have "applyOne sha cfg fs e \<noteq> FEscape \<and> (\<forall>fs'. applyOne sha cfg fs e = FOk fs' \<longrightarrow>
      wf_tree fs' \<and> content_at fs' = edit_contents e (content_at fs) \<and> edit_pre sha e (content_at fs))"
  proof (cases "ed_Op e = OpRename")
    case True
    then show ?thesis using apply_rename[OF wf True, of sha cfg] by blast
  next
    case nr: False
    consider (add) "ed_Op e = OpAdd" | (modify) "ed_Op e = OpModify" | (del) "ed_Op e = OpDelete"
      | (none) "ed_Op e \<notin> {OpAdd, OpModify, OpDelete, OpRename}" using nr by blast
    then show ?thesis
    proof cases
      case add
      show ?thesis
      proof (cases "lstatNoSymlink fs (segments (ed_Path e)) = LNotExist")
        case True
        note mp = missing_path[OF wf True]
        with write_candidate[OF wf disjI1[OF mp]] True add show ?thesis
          by (auto simp: applyOne_def edit_contents_def edit_pre_def content_at_def op_defs)
      qed (simp add: applyOne_def add)
    next
      case modify
      show ?thesis
      proof (cases "verifyPreimage sha cfg fs (ed_Path e) (ed_BeforeDigest e)")
        case True
        then obtain m c where old: "mget fs (segments (ed_Path e)) = Some (CFile m c)" "DigestBytes sha c = ed_BeforeDigest e"
          "content_at fs (segments (ed_Path e)) = Some (Inl c)" using preimage_file by blast
        then have "mget fs (segments (ed_Path e)) = None \<or> (\<exists>m c. mget fs (segments (ed_Path e)) = Some (CFile m c))" by blast
        with write_candidate[OF wf this] True modify old show ?thesis
          by (auto simp: applyOne_def edit_contents_def edit_pre_def preimage_def op_defs)
      qed (simp add: applyOne_def modify op_defs)
    next
      case del
      show ?thesis
      proof (cases "verifyPreimage sha cfg fs (ed_Path e) (ed_BeforeDigest e)")
        case True
        then obtain m c where old: "mget fs (segments (ed_Path e)) = Some (CFile m c)" "DigestBytes sha c = ed_BeforeDigest e"
          "content_at fs (segments (ed_Path e)) = Some (Inl c)" using preimage_file by blast
        have "wf_tree (mdel (segments (ed_Path e)) fs)" by (rule wf_del[OF wf]) (simp_all add: old(1))
        moreover have "content_at (mdel (segments (ed_Path e)) fs) = (content_at fs)(segments (ed_Path e) := None)"
          by (auto simp: content_at_def fun_eq_iff)
        ultimately show ?thesis using True del old
          by (simp add: applyOne_def edit_contents_def edit_pre_def preimage_def remove_path_def op_defs)
      qed (simp add: applyOne_def del op_defs)
    next
      case none
      then show ?thesis by (simp add: applyOne_def)
    qed
  qed
  then show "applyOne sha cfg fs e \<noteq> FEscape"
    and "applyOne sha cfg fs e = FOk fs' \<Longrightarrow> wf_tree fs' \<and> content_at fs' = edit_contents e (content_at fs) \<and> edit_pre sha e (content_at fs)"
    by blast+
qed

lemma apply_edits_ok:
  assumes "apply_edits sha cfg ctx auth n es fs = (k, Inr fs')" "wf_tree fs"
  shows "wf_tree fs' \<and> content_at fs' = fold edit_contents es (content_at fs) \<and> k = n + length es
    \<and> (\<forall>i < length es. auth (n + i) (es ! i) = None)"
  using assms
proof (induction es arbitrary: n fs)
  case (Cons e es)
  have a: "auth n e = None" and "ctx n" using Cons.prems(1) by (auto split: if_split_asm option.split_asm)
  then obtain fs1 where o: "applyOne sha cfg fs e = FOk fs1" "apply_edits sha cfg ctx auth (n + 1) es fs1 = (k, Inr fs')"
    using Cons.prems(1) by (auto split: fs_result.split_asm)
  note one = apply_one(2)[OF Cons.prems(2) o(1)]
  with Cons.IH[OF o(2)] have "wf_tree fs'" "content_at fs' = fold edit_contents (e # es) (content_at fs)"
    "k = n + length (e # es)" "\<forall>i < length es. auth (n + 1 + i) (es ! i) = None" by auto
  moreover from this(4) a have "\<forall>i < length (e # es). auth (n + i) ((e # es) ! i) = None"
    by (auto simp: less_Suc_eq_0_disj)
  ultimately show ?case by blast
qed simp

lemma apply_edits_fail:
  assumes "apply_edits sha cfg ctx auth n es fs = (k, Inl err)" "wf_tree fs"
  shows "err \<noteq> EEscaped \<and> k < n + length es"
  using assms
proof (induction es arbitrary: n fs)
  case (Cons e es)
  show ?case
  proof (cases "ctx n \<and> auth n e = None")
    case True
    show ?thesis
    proof (cases "applyOne sha cfg fs e")
      case (FOk fs1)
      with True Cons.prems have "apply_edits sha cfg ctx auth (n + 1) es fs1 = (k, Inl err)" by simp
      with Cons.IH[of "n + 1" fs1] apply_one(2)[OF Cons.prems(2) FOk] show ?thesis by simp
    qed (use True Cons.prems apply_one(1)[OF Cons.prems(2), of sha cfg e] in auto)
  qed (use Cons.prems in \<open>auto split: if_splits option.splits\<close>)
qed simp

lemma applyAll_ok:
  assumes "applyAll sha cfg git ctx auth es fs = (n, Inr (post, tree, fs'))" "wf_tree fs"
  shows "wf_tree fs' \<and> content_at fs' = fold edit_contents es (content_at fs) \<and> postimages_ok sha cfg es fs'
    \<and> PostImageDigest sha cfg fs' = Some post \<and> (\<forall>i < length es. auth i (es ! i) = None)"
proof -
  obtain k where "apply_edits sha cfg ctx auth 0 es fs = (k, Inr fs')" "postimages_ok sha cfg es fs'" "PostImageDigest sha cfg fs' = Some post"
    using assms(1)
    by (auto simp: applyAll_def split: prod.split_asm sum.split_asm if_split_asm option.split_asm)
  then show ?thesis using apply_edits_ok[of sha cfg ctx auth 0 es fs k fs'] assms(2) by simp
qed

lemma applyAll_fail:
  assumes "applyAll sha cfg git ctx auth es fs = (n, Inl err)" "wf_tree fs"
  shows "err \<noteq> EEscaped \<and> n \<le> length es"
proof (cases "apply_edits sha cfg ctx auth 0 es fs")
  case (Pair k x)
  show ?thesis
  proof (cases x)
    case (Inl e)
    then show ?thesis using apply_edits_fail[of sha cfg ctx auth 0 es fs k e] assms Pair by (auto simp: applyAll_def)
  next
    case (Inr fs')
    then show ?thesis using apply_edits_ok[of sha cfg ctx auth 0 es fs k fs'] assms Pair
      by (auto simp: applyAll_def split: if_splits option.splits)
  qed
qed


section \<open>What a set of edits does\<close>

definition produces :: "Edit \<Rightarrow> string list \<Rightarrow> bool" where
  "produces e p \<longleftrightarrow> ed_Op e \<noteq> OpDelete \<and> segments (ed_Path e) = p"

definition consumes :: "Edit \<Rightarrow> string list \<Rightarrow> bool" where
  "consumes e p \<longleftrightarrow> ed_Op e = OpDelete \<and> segments (ed_Path e) = p \<or> ed_Op e = OpRename \<and> segments (ed_OldPath e) = p"

text \<open>The result of an edit set on the contents of a tree, without an order: what is
  written is there, what is consumed and not written again is gone, the rest is as
  before.\<close>

definition edits_result :: "Edit list \<Rightarrow> (string list \<Rightarrow> (string + string) option) \<Rightarrow> (string list \<Rightarrow> (string + string) option) \<Rightarrow> bool" where
  "edits_result es F G \<longleftrightarrow>
    (\<forall>e \<in> set es. ed_Op e \<noteq> OpDelete \<longrightarrow> G (segments (ed_Path e)) = Some (Inl (ed_NewContent e)))
    \<and> (\<forall>p. (\<exists>e \<in> set es. consumes e p) \<and> (\<forall>e \<in> set es. \<not> produces e p) \<longrightarrow> G p = None)
    \<and> (\<forall>p. (\<forall>e \<in> set es. \<not> consumes e p \<and> \<not> produces e p) \<longrightarrow> G p = F p)"

lemma segments_inject: "segments p = segments q \<Longrightarrow> p = q"
  unfolding segments_def by (metis join_split)

lemma edit_other: "\<not> consumes e p \<Longrightarrow> \<not> produces e p \<Longrightarrow> edit_contents e F p = F p"
  by (auto simp: edit_contents_def consumes_def produces_def)

lemma edit_gone:
  assumes "\<not> produces e p" "F p = None \<or> consumes e p"
  shows "edit_contents e F p = None"
proof (cases "ed_Op e = OpDelete")
  case True
  then have "ed_Op e \<noteq> OpRename" by (simp add: op_defs)
  then show ?thesis using True assms(2) by (auto simp: edit_contents_def consumes_def)
next
  case False
  then have "segments (ed_Path e) \<noteq> p" using assms(1) by (simp add: produces_def)
  then show ?thesis using False assms(2) by (auto simp: edit_contents_def consumes_def)
qed

lemma fold_other:
  "(\<And>e. e \<in> set es \<Longrightarrow> \<not> consumes e p \<and> \<not> produces e p) \<Longrightarrow> fold edit_contents es F p = F p"
  by (induction es arbitrary: F) (auto simp: edit_other)

lemma fold_gone:
  "(\<And>e. e \<in> set es \<Longrightarrow> \<not> produces e p) \<Longrightarrow> F p = None \<or> (\<exists>e \<in> set es. consumes e p) \<Longrightarrow> fold edit_contents es F p = None"
proof (induction es arbitrary: F)
  case (Cons e es)
  have np: "\<not> produces e p" using Cons.prems(1)[of e] by simp
  show ?case
  proof (cases "F p = None \<or> consumes e p")
    case True
    then have "edit_contents e F p = None" by (rule edit_gone[OF np])
    then show ?thesis using Cons.IH[of "edit_contents e F"] Cons.prems(1) by simp
  next
    case False
    then have "\<exists>e \<in> set es. consumes e p" using Cons.prems(2) by auto
    then show ?thesis using Cons.IH[of "edit_contents e F"] Cons.prems(1) by simp
  qed
qed simp

lemma fold_produced:
  assumes "distinct (map ed_Path es)" "e \<in> set es" "ed_Op e \<noteq> OpDelete" "fold edit_contents es F (segments (ed_Path e)) \<noteq> None"
  shows "fold edit_contents es F (segments (ed_Path e)) = Some (Inl (ed_NewContent e))"
proof -
  let ?p = "segments (ed_Path e)"
  obtain a b where es: "es = a @ e # b" using assms(2) by (meson split_list)
  let ?G = "edit_contents e (fold edit_contents a F)"
  have G: "?G ?p = Some (Inl (ed_NewContent e))" using assms(3) by (simp add: edit_contents_def)
  have np: "\<not> produces x ?p" if "x \<in> set b" for x
  proof
    assume "produces x ?p"
    then have "ed_Path x = ed_Path e" using segments_inject by (simp add: produces_def)
    then have "ed_Path e \<in> set (map ed_Path b)" using that by (metis image_eqI list.set_map)
    then show False using assms(1) by (simp add: es)
  qed
  show ?thesis
  proof (cases "\<exists>x \<in> set b. consumes x ?p")
    case True
    then have "fold edit_contents b ?G ?p = None" using fold_gone[OF np] by blast
    then show ?thesis using assms(4) by (simp add: es)
  next
    case False
    then have "fold edit_contents b ?G ?p = ?G ?p" using np by (intro fold_other) blast
    then show ?thesis using G by (simp add: es)
  qed
qed

lemma fold_edits_result:
  assumes "distinct (map ed_Path es)" "\<And>e. e \<in> set es \<Longrightarrow> ed_Op e \<noteq> OpDelete \<Longrightarrow> fold edit_contents es F (segments (ed_Path e)) \<noteq> None"
  shows "edits_result es F (fold edit_contents es F)"
  unfolding edits_result_def
proof (intro conjI ballI allI impI)
  fix e assume "e \<in> set es" "ed_Op e \<noteq> OpDelete"
  then show "fold edit_contents es F (segments (ed_Path e)) = Some (Inl (ed_NewContent e))"
    using fold_produced[OF assms(1)] assms(2) by blast
next
  fix p assume "(\<exists>e \<in> set es. consumes e p) \<and> (\<forall>e \<in> set es. \<not> produces e p)"
  then show "fold edit_contents es F p = None" using fold_gone[of es p F] by blast
next
  fix p assume "\<forall>e \<in> set es. \<not> consumes e p \<and> \<not> produces e p"
  then show "fold edit_contents es F p = F p" using fold_other[of es p F] by blast
qed

lemma read_candidate:
  assumes "readCandidateFile fs p mx = Some c"
  shows "\<exists>m. mget fs (segments p) = Some (CFile m c)"
proof -
  obtain m where "lstat_walk fs [] (segments p) = LFound (CFile m c)"
    using assms
    by (auto simp: readCandidateFile_def lstatNoSymlink_def split: lstat_result.split_asm cnode.split_asm if_split_asm)
  from lstat_found[OF this] show ?thesis by simp
qed

lemma postimages_present:
  assumes "postimages_ok sha cfg es fs" "e \<in> set es" "ed_Op e \<noteq> OpDelete"
  shows "content_at fs (segments (ed_Path e)) \<noteq> None"
proof -
  obtain c where "readCandidateFile fs (ed_Path e) (sc_MaxFileBytes cfg) = Some c"
    using assms by (auto simp: postimages_ok_def list_all_iff split: option.split_asm)
  from read_candidate[OF this] show ?thesis by (auto simp: content_at_def)
qed


lemma apply_first_use:
  assumes "so_dirs s (ca_ID c) = Some fs" "wf_tree fs" "mget (so_seen s) (replayKey r) = None" "apply_request_ok r"
  shows "let res = Apply sha cfg git ctx auth c r s
    in (\<exists>oc fs'. fst res = (Some oc, None) \<and> oc_State oc = StateApplied \<and> oc_Rollback oc = None
          \<and> so_dirs (snd res) = (so_dirs s)(ca_ID c \<mapsto> fs')
          \<and> edits_result (ar_Edits r) (content_at fs) (content_at fs')
          \<and> PostImageDigest sha cfg fs' = Some (oc_PostImageDigest oc)
          \<and> (\<forall>i < length (ar_Edits r). auth i (ar_Edits r ! i) = None))
     \<or> (\<exists>oc rb err. fst res = (Some oc, Some err) \<and> err \<noteq> EEscaped \<and> oc_State oc = StateRejected
          \<and> oc_Rollback oc = Some rb \<and> rr_DiscardedEdits rb \<le> length (ar_Edits r)
          \<and> so_dirs (snd res) = (so_dirs s)(ca_ID c := gi_removeAll git 1))
     \<or> candidateInFlight s (ca_ID c) \<and> \<not> Validate sha (ar_Edits r) \<and> res = ((None, Some EConflict), s)"
proof -
  let ?es = "ar_Edits r"
  show ?thesis
  proof (cases "Validate sha ?es")
    case False
    then show ?thesis using assms
      by (simp add: Apply_def Let_def rejected_outcome_def rollback_def remove_candidate_def)
  next
    case True
    then have dist: "distinct (map ed_Path ?es)"
      unfolding Validate_def validate_loop_iff by (simp split: if_split_asm)
    obtain n x where run: "applyAll sha cfg git ctx auth ?es fs = (n, x)" by fastforce
    show ?thesis
    proof (cases x)
      case (Inl err)
      with run have f: "applyAll sha cfg git ctx auth ?es fs = (n, Inl err)" by simp
      note ff = applyAll_fail[OF f assms(2)]
      show ?thesis using assms True f ff
        by (simp add: Apply_def Let_def rejected_outcome_def rollback_def remove_candidate_def)
    next
      case (Inr y)
      obtain post tree fs' where "y = (post, tree, fs')" by (metis prod_cases3)
      with run Inr have f: "applyAll sha cfg git ctx auth ?es fs = (n, Inr (post, tree, fs'))" by simp
      have ok: "content_at fs' = fold edit_contents ?es (content_at fs)" "postimages_ok sha cfg ?es fs'"
        "\<forall>i < length ?es. auth i (?es ! i) = None" "PostImageDigest sha cfg fs' = Some post"
        using applyAll_ok[OF f assms(2)] by blast+
      have "edits_result ?es (content_at fs) (content_at fs')"
        unfolding ok(1) using fold_edits_result[OF dist] postimages_present[OF ok(2)] ok(1) by simp
      then show ?thesis using assms True f ok(3,4) by (simp add: Apply_def Let_def) blast
    qed
  qed
qed


section \<open>Properties\<close>


definition sample_config :: store_config where
  "sample_config = \<lparr>sc_MaxFiles = 10, sc_MaxFileBytes = 100, sc_MaxTotalBytes = 1000, sc_newMode = ''-rw-r--r--''\<rparr>"

definition sample_git :: git_env where
  "sample_git = \<lparr>gi_resolve = Some, gi_gitdir = True, gi_id = Some ''k'', gi_hydrate = (\<lambda>_. Some []),
     gi_head = Some (replicate 40 CHR ''a''), gi_clean = True, gi_add = (\<lambda>_. True),
     gi_writeTree = (\<lambda>_. Some (replicate 40 CHR ''a'')), gi_removeAll = (\<lambda>_. None)\<rparr>"

definition sample_store :: Store where
  "sample_store = \<lparr>so_seen = [], so_dirs = [''k'' \<mapsto> [], ''other'' \<mapsto> []]\<rparr>"

definition sample_candidate :: Candidate where
  "sample_candidate = \<lparr>ca_ID = ''k'', ca_Base = replicate 40 CHR ''a''\<rparr>"

definition sample_request :: ApplyRequest where
  "sample_request = \<lparr>ar_ChangeSetID = ''cs'', ar_IdempotencyKey = ''i'', ar_Tenant = \<lparr>Namespace = ''tenant'', IdValue = ''t''\<rparr>,
     ar_Principal = \<lparr>Namespace = ''principal'', IdValue = ''p''\<rparr>, ar_Edits = [sample_edit]\<rparr>"

abbreviation zero_sha :: "string \<Rightarrow> string" where "zero_sha \<equiv> \<lambda>_. replicate 64 CHR ''0''"

lemma sample_oid: "trim_space (replicate 40 CHR ''a'') = replicate 40 CHR ''a''" "isGitOID (replicate 40 CHR ''a'')"
proof -
  show "trim_space (replicate 40 CHR ''a'') = replicate 40 CHR ''a''" by (rule trim_space_id) (simp_all add: graphic_def)
  show "isGitOID (replicate 40 CHR ''a'')" by code_simp
qed

lemma sample_applyAll:
  assumes "auth 0 sample_edit = None"
  shows "\<exists>d t. applyAll zero_sha sample_config sample_git (\<lambda>_. True) auth [sample_edit] [] =
    (1, Inr (d, t, [([''a''], CDir), ([''a'', ''b.go''], CFile ''-rw-r--r--'' ''x'')]))"
proof -
  have one: "applyOne zero_sha sample_config [] sample_edit = FOk [([''a''], CDir), ([''a'', ''b.go''], CFile ''-rw-r--r--'' ''x'')]" by code_simp
  have post: "postimages_ok zero_sha sample_config [sample_edit] [([''a''], CDir), ([''a'', ''b.go''], CFile ''-rw-r--r--'' ''x'')]" by code_simp
  have dig: "PostImageDigest zero_sha sample_config [([''a''], CDir), ([''a'', ''b.go''], CFile ''-rw-r--r--'' ''x'')] \<noteq> None" by code_simp
  have git: "gi_add sample_git f" "gi_writeTree sample_git f = Some (replicate 40 CHR ''a'')" for f by (simp_all add: sample_git_def)
  show ?thesis using dig assms by (auto simp: applyAll_def one post git sample_oid)
qed


end
