(* ===== verification/Leaf_Runner.thy ===== *)
theory Leaf_Runner
  imports Candidate_Store
begin

text \<open>
  The sealed runner (\<^verbatim>\<open>services/broker/internal/factory/runner/runner.go\<close>) and its
  composition for the gateway (\<^verbatim>\<open>services/broker/localauthority/factory.go\<close>).

  A synthesizer reaches the outside only through three calls, so it is modelled as a
  program: a tree whose nodes are those calls, with the rest of the program a function
  of the answer.  Statements about all such programs are statements about any leaf,
  scripted or produced by a model.  The n-th authorisation of a run sees the n-th
  environment of a sequence, so policies, fences and the clock may change between any
  two calls.
\<close>

section \<open>The sealed surface\<close>

record LeafSpec =
  sp_RunID :: Identifier
  sp_NodeID :: string
  sp_OwnedPaths :: "string list"
  sp_ForbiddenPaths :: "string list"
  sp_BaseGitOID :: string
  sp_Identity :: MappedIdentityFact
  sp_Grant :: LeafGrant
  sp_ChangeSetID :: string
  sp_IdempotencyKey :: string
  sp_Now :: "go_time option"

record DenialRecord =
  dr_Action :: string
  dr_Path :: string
  dr_ReasonCode :: string

datatype RunState = RunCompleted | RunFailed

record Result =
  rs_State :: RunState
  rs_Outcome :: "Outcome option"
  rs_Rollback :: "RollbackReceipt option"
  rs_Denials :: "DenialRecord list"

text \<open>An error a surface call returns: a denial with its reason code, or another
  failure.\<close>

datatype synth_error = SynthDenied string | SynthFailed string

text \<open>The surface's state, with the number of authorisations made.\<close>

record surface =
  su_staged :: "Edit list"
  su_denials :: "DenialRecord list"
  su_time :: nat

record sealed_env =
  se_sha :: "string \<Rightarrow> string"
  se_config :: store_config
  se_envs :: "nat \<Rightarrow> benv"
  se_leaf :: Leaf
  se_candidate :: Candidate
  se_store :: Store

definition deny :: "string \<Rightarrow> string \<Rightarrow> string \<Rightarrow> surface \<Rightarrow> surface" where
  "deny action p code su =
    su\<lparr>su_denials := su_denials su @ [\<lparr>dr_Action = action, dr_Path = p, dr_ReasonCode = code\<rparr>]\<rparr>"

definition Propose :: "sealed_env \<Rightarrow> Edit \<Rightarrow> surface \<Rightarrow> synth_error option \<times> surface" where
  "Propose X e su =
    (if \<not> ValidateEdit (se_sha X) e then
       (let code = (if \<not> ValidatePath (ed_Path e) \<or> \<not> ValidatePath (ed_OldPath e) \<and> ed_Op e = OpRename
                    then reason EscapePathShape else ''invalid_edit'')
        in (Some (SynthDenied ''denied''), deny ActionFileWrite (ed_Path e) code su))
     else (case AuthorizeMutation (se_envs X (su_time su)) (se_envs X (su_time su + 1)) (se_leaf X) e of
             Some d \<Rightarrow> (Some (SynthDenied (reason d)),
                        (deny ActionFileWrite (ed_Path e) (reason d) su)\<lparr>su_time := su_time su + 2\<rparr>)
           | None \<Rightarrow> (None, su\<lparr>su_staged := su_staged su @ [e], su_time := su_time su + 2\<rparr>)))"

definition surface_request :: "sealed_env \<Rightarrow> string \<Rightarrow> string \<Rightarrow> EffectRequest" where
  "surface_request X action p = (effect_request action p)\<lparr>rq_Resource := hd (lg_Resources (lf_Grant (se_leaf X)))\<rparr>"

definition RequestEffect :: "sealed_env \<Rightarrow> string \<Rightarrow> string \<Rightarrow> surface \<Rightarrow> synth_error option \<times> surface" where
  "RequestEffect X action p su =
    (case authorizeLeaf (se_envs X (su_time su)) (se_leaf X) (surface_request X action p) of
       Some d \<Rightarrow> (Some (SynthDenied (reason d)), (deny action p (reason d) su)\<lparr>su_time := su_time su + 1\<rparr>)
     | None \<Rightarrow> (None, su\<lparr>su_time := su_time su + 1\<rparr>))"

definition surface_ReadFile :: "sealed_env \<Rightarrow> string \<Rightarrow> surface \<Rightarrow> (synth_error + string) \<times> surface" where
  "surface_ReadFile X p su =
    (case RequestEffect X ActionFileRead p su of
       (Some err, su') \<Rightarrow> (Inl err, su')
     | (None, su') \<Rightarrow>
         (case candidate_ReadFile (se_config X) (se_candidate X) p (se_store X) of
            None \<Rightarrow> (Inl (SynthFailed ''read''), su')
          | Some content \<Rightarrow> (Inr content, su')))"

text \<open>Leaf programs, ending with an error or not and a result of their own.\<close>

datatype 'a synth =
    SReturn "synth_error option" 'a
  | SPropose Edit "synth_error option \<Rightarrow> 'a synth"
  | SRead string "synth_error + string \<Rightarrow> 'a synth"
  | SEffect string string "synth_error option \<Rightarrow> 'a synth"

primrec run_synth :: "sealed_env \<Rightarrow> 'a synth \<Rightarrow> surface \<Rightarrow> (synth_error option \<times> 'a) \<times> surface" where
  "run_synth X (SReturn err x) = (\<lambda>su. ((err, x), su))"
| "run_synth X (SPropose e k) = (\<lambda>su. case Propose X e su of (r, su') \<Rightarrow> run_synth X (k r) su')"
| "run_synth X (SRead p k) = (\<lambda>su. case surface_ReadFile X p su of (r, su') \<Rightarrow> run_synth X (k r) su')"
| "run_synth X (SEffect action p k) = (\<lambda>su. case RequestEffect X action p su of (r, su') \<Rightarrow> run_synth X (k r) su')"


section \<open>Running a leaf\<close>

definition validateSpec :: "LeafSpec \<Rightarrow> bool" where
  "validateSpec sp \<longleftrightarrow>
    \<not> (Namespace (sp_RunID sp) \<noteq> ''run'' \<or> IdValue (sp_RunID sp) = []
       \<or> sp_NodeID sp = [] \<or> length (sp_NodeID sp) > 64
       \<or> sp_ChangeSetID sp = [] \<or> sp_IdempotencyKey sp = [] \<or> sp_Now sp = None
       \<or> sp_OwnedPaths sp = [] \<or> length (sp_OwnedPaths sp) > 64 \<or> length (sp_ForbiddenPaths sp) > 64
       \<or> length (sp_BaseGitOID sp) \<noteq> 40 \<and> length (sp_BaseGitOID sp) \<noteq> 64)
    \<and> list_all ValidatePath (sp_OwnedPaths sp) \<and> list_all ValidatePath (sp_ForbiddenPaths sp)
    \<and> (case sp_Now sp of None \<Rightarrow> False | Some now \<Rightarrow> ValidateLeafGrant (sp_Grant sp) now = None)
    \<and> lg_RepositoryGitOID (sp_Grant sp) = sp_BaseGitOID sp"

definition spec_leaf :: "LeafSpec \<Rightarrow> Leaf" where
  "spec_leaf sp = \<lparr>lf_Identity = sp_Identity sp, lf_Grant = sp_Grant sp,
     lf_Scope = \<lparr>sc_OwnedPaths = sp_OwnedPaths sp, sc_ForbiddenPaths = sp_ForbiddenPaths sp,
       sc_BaseGitOID = sp_BaseGitOID sp\<rparr>\<rparr>"

definition failClosed :: "RollbackReceipt option \<Rightarrow> DenialRecord list \<Rightarrow> Result" where
  "failClosed rb ds = \<lparr>rs_State = RunFailed, rs_Outcome = None, rs_Rollback = rb, rs_Denials = ds\<rparr>"

definition stagedDigest :: "(string \<Rightarrow> string) \<Rightarrow> LeafSpec \<Rightarrow> Edit list \<Rightarrow> Digest" where
  "stagedDigest sha sp staged = (if staged = [] then zero_digest else ChangeSetDigest sha (sp_BaseGitOID sp) staged)"

definition synth_reason :: "synth_error \<Rightarrow> string" where
  "synth_reason err = (case err of SynthDenied code \<Rightarrow> code | SynthFailed _ \<Rightarrow> reason PolicyDenied)"

definition discard_reason :: "DenialRecord list \<Rightarrow> string" where
  "discard_reason ds = (if list_ex (\<lambda>r. has_prefix (dr_ReasonCode r) ''escape_'') ds then ReasonEscapeDenied else ReasonRejected)"

datatype run_error = RInvalid | RApply apply_error

record world =
  wo_sha :: "string \<Rightarrow> string"
  wo_config :: store_config
  wo_git :: git_env
  wo_envs :: "nat \<Rightarrow> benv"
  wo_live :: "nat \<Rightarrow> bool"

definition admission_request :: "LeafSpec \<Rightarrow> EffectRequest" where
  "admission_request sp = \<lparr>rq_Action = ActionFileWrite, rq_Path = hd (sp_OwnedPaths sp),
     rq_Resource = hd (lg_Resources (sp_Grant sp)), rq_IdempotencyKey = [], rq_Now = sp_Now sp\<rparr>"

definition apply_request :: "LeafSpec \<Rightarrow> Edit list \<Rightarrow> ApplyRequest" where
  "apply_request sp staged = \<lparr>ar_ChangeSetID = sp_ChangeSetID sp, ar_IdempotencyKey = sp_IdempotencyKey sp,
     ar_Tenant = mi_Tenant (sp_Identity sp), ar_Principal = mi_Principal (sp_Identity sp), ar_Edits = staged\<rparr>"

text \<open>The authorizer bound to the leaf, from authorisation number \<open>t\<close> on.\<close>

definition bound_authorizer :: "(nat \<Rightarrow> benv) \<Rightarrow> Leaf \<Rightarrow> nat \<Rightarrow> nat \<Rightarrow> Edit \<Rightarrow> denial option" where
  "bound_authorizer envs leaf t i e = AuthorizeMutation (envs (t + 2 * i)) (envs (t + 2 * i + 1)) leaf e"

text \<open>What follows the application of the staged edits.\<close>

definition conclude :: "world \<Rightarrow> LeafSpec \<Rightarrow> Candidate \<Rightarrow> surface \<Rightarrow> (Outcome option \<times> apply_error option) \<times> Store
    \<Rightarrow> (Result \<times> run_error option) \<times> Store" where
  "conclude W sp c su = (\<lambda>((outcome, err), s).
    (case err of
       Some e \<Rightarrow>
         (case outcome of
            Some oc \<Rightarrow>
              (case oc_Rollback oc of
                 Some rb \<Rightarrow>
                   (let ds = su_denials su @ (case e of EDenied d \<Rightarrow>
                               [\<lparr>dr_Action = ActionFileWrite, dr_Path = [], dr_ReasonCode = reason d\<rparr>] | _ \<Rightarrow> [])
                    in (((failClosed (Some rb) ds)\<lparr>rs_Outcome := Some oc\<rparr>, None), s))
               | None \<Rightarrow>
                   (let ((rb, discardErr), s') = Discard (wo_git W) c ReasonRejected (stagedDigest (wo_sha W) sp (su_staged su)) s
                    in (((failClosed (Some rb) (su_denials su))\<lparr>rs_Outcome := Some oc\<rparr>,
                         Some (RApply (case discardErr of Some de \<Rightarrow> de | None \<Rightarrow> e))), s')))
          | None \<Rightarrow>
              (let ((rb, discardErr), s') = Discard (wo_git W) c ReasonRejected (stagedDigest (wo_sha W) sp (su_staged su)) s
               in ((failClosed (Some rb) (su_denials su), Some (RApply (case discardErr of Some de \<Rightarrow> de | None \<Rightarrow> e))), s')))
     | None \<Rightarrow>
         (case outcome of
            None \<Rightarrow> ((failClosed None (su_denials su), None), s)
          | Some oc \<Rightarrow>
              if oc_State oc \<noteq> StateApplied
              then (((failClosed (oc_Rollback oc) (su_denials su))\<lparr>rs_Outcome := Some oc\<rparr>, None), s)
              else ((\<lparr>rs_State = RunCompleted, rs_Outcome = Some oc, rs_Rollback = None, rs_Denials = su_denials su\<rparr>, None), s))))"

definition begin_surface :: surface where
  "begin_surface = \<lparr>su_staged = [], su_denials = [], su_time = 1\<rparr>"

text \<open>After the synthesizer returned: discard on any denial or error or when nothing was
  staged, apply otherwise.\<close>

definition finish_leaf :: "world \<Rightarrow> LeafSpec \<Rightarrow> Candidate \<Rightarrow> synth_error option \<Rightarrow> surface \<Rightarrow> Store
    \<Rightarrow> (Result \<times> run_error option) \<times> Store" where
  "finish_leaf W sp c synthErr su s =
    (if synthErr \<noteq> None \<or> su_denials su \<noteq> [] then
       (let ds = su_denials su @ (case synthErr of None \<Rightarrow> []
                   | Some err \<Rightarrow> [\<lparr>dr_Action = ''leaf.synthesize'', dr_Path = [], dr_ReasonCode = synth_reason err\<rparr>]);
            ((rb, discardErr), s') = Discard (wo_git W) c (discard_reason ds) (stagedDigest (wo_sha W) sp (su_staged su)) s
        in ((failClosed (Some rb) ds, map_option RApply discardErr), s'))
     else if su_staged su = [] then
       (let ((rb, discardErr), s') = Discard (wo_git W) c ReasonRejected zero_digest s
        in ((failClosed (Some rb) (su_denials su), map_option RApply discardErr), s'))
     else conclude W sp c su
       (Apply (wo_sha W) (wo_config W) (wo_git W) (wo_live W) (bound_authorizer (wo_envs W) (spec_leaf sp) (su_time su))
          c (apply_request sp (su_staged su)) s))"

definition RunLeaf :: "world \<Rightarrow> LeafSpec \<Rightarrow> 'a synth \<Rightarrow> Store \<Rightarrow> (run_error + Result \<times> run_error option \<times> 'a option) \<times> Store" where
  "RunLeaf W sp prog s =
    (if \<not> validateSpec sp then (Inl RInvalid, s)
     else (case authorizeLeaf (wo_envs W 0) (spec_leaf sp) (admission_request sp) of
             Some d \<Rightarrow> (Inr (failClosed None [\<lparr>dr_Action = ActionFileWrite, dr_Path = hd (sp_OwnedPaths sp),
                          dr_ReasonCode = reason d\<rparr>], None, None), s)
           | None \<Rightarrow>
               (case Begin (wo_git W) (sp_BaseGitOID sp) s of
                  (Inl err, s1) \<Rightarrow>
                    (Inr (failClosed None [\<lparr>dr_Action = ''candidate.begin'', dr_Path = sp_BaseGitOID sp,
                       dr_ReasonCode = reason (if err = EBase then BaseMismatch else PolicyDenied)\<rparr>], None, None), s1)
                | (Inr c, s1) \<Rightarrow>
                    (let X = \<lparr>se_sha = wo_sha W, se_config = wo_config W, se_envs = wo_envs W, se_leaf = spec_leaf sp,
                              se_candidate = c, se_store = s1\<rparr>;
                         ((synthErr, x), su) = run_synth X prog begin_surface;
                         ((res, err), s2) = finish_leaf W sp c synthErr su s1
                     in (Inr (res, err, Some x), s2)))))"

text \<open>The scripted synthesizer.\<close>

datatype step = StepPropose Edit | StepEffect string string | StepRead string | StepUnknown string

definition go_on :: "synth_error option \<Rightarrow> unit synth \<Rightarrow> unit synth" where
  "go_on err next = (case err of Some (SynthFailed m) \<Rightarrow> SReturn (Some (SynthFailed m)) () | _ \<Rightarrow> next)"

fun ScriptedSynthesizer :: "step list \<Rightarrow> unit synth" where
  "ScriptedSynthesizer [] = SReturn None ()"
| "ScriptedSynthesizer (StepPropose e # ss) = SPropose e (\<lambda>r. go_on r (ScriptedSynthesizer ss))"
| "ScriptedSynthesizer (StepEffect action p # ss) = SEffect action p (\<lambda>r. go_on r (ScriptedSynthesizer ss))"
| "ScriptedSynthesizer (StepRead p # ss) =
    SRead p (\<lambda>r. go_on (case r of Inl err \<Rightarrow> Some err | Inr _ \<Rightarrow> None) (ScriptedSynthesizer ss))"
| "ScriptedSynthesizer (StepUnknown k # ss) = SReturn (Some (SynthFailed k)) ()"

definition FixtureSynthesizer :: "Edit list \<Rightarrow> unit synth" where
  "FixtureSynthesizer edits = ScriptedSynthesizer (map StepPropose edits)"


section \<open>The factory composition\<close>

definition factoryMaxScriptEdits :: nat where "factoryMaxScriptEdits = 64"
definition factoryMaxProbePaths :: nat where "factoryMaxProbePaths = 64"

record FactoryEditDirective =
  fd_Op :: string
  fd_Path :: string
  fd_OldPath :: string

record FactoryLeafScript =
  fs_Edits :: "FactoryEditDirective list"
  fs_ProbePaths :: "string list"

record FactoryLeafGrant =
  fg_GrantID :: string
  fg_Initiator :: string
  fg_Tenant :: string
  fg_TaskID :: string
  fg_RunID :: string
  fg_LeaseID :: string
  fg_LeaseHolder :: string
  fg_LeaseFence :: "64 word"
  fg_LeaseExpiresAt :: "go_time option"
  fg_AllowedPaths :: "string list"
  fg_RepositoryGitOID :: string
  fg_Nonce :: string
  fg_RevocationEpoch :: "64 word"
  fg_ExpiresAt :: "go_time option"
  fg_PolicyDigestHex :: string
  fg_CommandFence :: "64 word"

record FactoryLeafSpec =
  ff_RunID :: string
  ff_NodeID :: string
  ff_OwnedPaths :: "string list"
  ff_ForbiddenPaths :: "string list"
  ff_BaseGitOID :: string
  ff_Identity :: MappedIdentityFact
  ff_Grant :: FactoryLeafGrant
  ff_ChangeSetID :: string
  ff_IdempotencyKey :: string
  ff_Now :: "go_time option"

definition runnerSpec :: "FactoryLeafSpec \<Rightarrow> LeafSpec option" where
  "runnerSpec f =
    (if ff_RunID f = [] \<or> ff_NodeID f = [] \<or> ff_OwnedPaths f = []
        \<or> length (ff_OwnedPaths f) > factoryMaxScriptEdits \<or> length (ff_ForbiddenPaths f) > factoryMaxProbePaths
        \<or> ff_BaseGitOID f = [] \<or> ff_ChangeSetID f = [] \<or> ff_IdempotencyKey f = [] \<or> ff_Now f = None
     then None
     else (let g = ff_Grant f
           in Some \<lparr>sp_RunID = \<lparr>Namespace = ''run'', IdValue = ff_RunID f\<rparr>, sp_NodeID = ff_NodeID f,
                    sp_OwnedPaths = ff_OwnedPaths f, sp_ForbiddenPaths = ff_ForbiddenPaths f,
                    sp_BaseGitOID = ff_BaseGitOID f, sp_Identity = ff_Identity f,
                    sp_Grant = \<lparr>lg_GrantID = \<lparr>Namespace = ''grant'', IdValue = fg_GrantID g\<rparr>,
                      lg_Initiator = \<lparr>Namespace = ''principal'', IdValue = fg_Initiator g\<rparr>,
                      lg_Tenant = \<lparr>Namespace = ''tenant'', IdValue = fg_Tenant g\<rparr>,
                      lg_TaskID = \<lparr>Namespace = ''factory-task'', IdValue = fg_TaskID g\<rparr>,
                      lg_RunID = \<lparr>Namespace = ''factory-run'', IdValue = fg_RunID g\<rparr>,
                      lg_Lease = \<lparr>ls_LeaseID = \<lparr>Namespace = ''lease'', IdValue = fg_LeaseID g\<rparr>,
                        ls_Holder = \<lparr>Namespace = ''principal'', IdValue = fg_LeaseHolder g\<rparr>,
                        ls_Fence = fg_LeaseFence g, ls_ExpiresAt = fg_LeaseExpiresAt g\<rparr>,
                      lg_Actions = [ActionFileRead, ActionFileWrite],
                      lg_Resources = [\<lparr>Namespace = ''tenant'', IdValue = fg_Tenant g\<rparr>],
                      lg_RepositoryGitOID = fg_RepositoryGitOID g, lg_AllowedPaths = fg_AllowedPaths g,
                      lg_Nonce = fg_Nonce g, lg_RevocationEpoch = fg_RevocationEpoch g, lg_ExpiresAt = fg_ExpiresAt g,
                      lg_PolicyDigest = \<lparr>Algorithm = ''sha256'', Hex = fg_PolicyDigestHex g\<rparr>,
                      lg_CommandFence = fg_CommandFence g\<rparr>,
                    sp_ChangeSetID = ff_ChangeSetID f, sp_IdempotencyKey = ff_IdempotencyKey f, sp_Now = ff_Now f\<rparr>))"

definition factoryLanguageForPath :: "string \<Rightarrow> string" where
  "factoryLanguageForPath p =
    (if has_suffix p ''.go'' then ''go''
     else if has_suffix p ''.ts'' then ''typescript''
     else if has_suffix p ''.py'' then ''python''
     else if has_suffix p ''.rs'' then ''rust''
     else if has_suffix p ''.java'' then ''java''
     else [])"

definition factoryPackageClause :: "string \<Rightarrow> string" where
  "factoryPackageClause p = (if has_suffix p ''.go'' then ''package main'' @ [CHR 0x0A] else [])"

definition marker :: "FactoryLeafSpec \<Rightarrow> string \<Rightarrow> string" where
  "marker f p = (if has_suffix p ''.py'' then ''#'' else ''//'') @ '' ouroboros-factory run='' @ ff_RunID f
     @ '' node='' @ ff_NodeID f @ '' path='' @ p @ [CHR 0x0A]"

definition deriveModify :: "FactoryLeafSpec \<Rightarrow> string \<Rightarrow> string \<Rightarrow> string" where
  "deriveModify f p base = base @ marker f p"

definition deriveAdd :: "FactoryLeafSpec \<Rightarrow> string \<Rightarrow> string" where
  "deriveAdd f p = marker f p @ factoryPackageClause p"

definition directive_ok :: "FactoryEditDirective \<Rightarrow> bool" where
  "directive_ok d \<longleftrightarrow>
    (if fd_Op d \<in> {''add'', ''delete'', ''modify''} then fd_OldPath d = []
     else if fd_Op d = ''rename'' then fd_OldPath d \<noteq> [] \<and> fd_OldPath d \<noteq> fd_Path d
     else False)
    \<and> factoryLanguageForPath (fd_Path d) \<noteq> []"

definition script_ok :: "FactoryLeafScript \<Rightarrow> bool" where
  "script_ok sc \<longleftrightarrow>
    \<not> (fs_Edits sc = [] \<and> fs_ProbePaths sc = [])
    \<and> \<not> (length (fs_Edits sc) > factoryMaxScriptEdits \<or> length (fs_ProbePaths sc) > factoryMaxProbePaths)
    \<and> list_all directive_ok (fs_Edits sc)"

definition probe_content :: string where
  "probe_content = ''ouroboros-factory-boundary-probe'' @ [CHR 0x0A]"

definition probe_edit :: "(string \<Rightarrow> string) \<Rightarrow> string \<Rightarrow> Edit" where
  "probe_edit sha p = \<lparr>ed_Path = p, ed_OldPath = [], ed_Op = OpModify, ed_Lang = ''go'',
     ed_BeforeDigest = DigestBytes sha [], ed_AfterDigest = DigestBytes sha probe_content, ed_NewContent = probe_content\<rparr>"

text \<open>\<^verbatim>\<open>buildEdit\<close> followed by the rest of the program.\<close>

definition buildEdit :: "(string \<Rightarrow> string) \<Rightarrow> FactoryLeafSpec \<Rightarrow> FactoryEditDirective
    \<Rightarrow> (synth_error + Edit \<Rightarrow> Edit list synth) \<Rightarrow> Edit list synth" where
  "buildEdit sha f d k =
    (let lang = factoryLanguageForPath (fd_Path d);
         edit = \<lparr>ed_Path = fd_Path d, ed_OldPath = [], ed_Op = [], ed_Lang = lang, ed_BeforeDigest = zero_digest,
                 ed_AfterDigest = zero_digest, ed_NewContent = []\<rparr>
     in if fd_Op d = ''add'' then
          (let content = deriveAdd f (fd_Path d)
           in k (Inr (edit\<lparr>ed_Op := OpAdd, ed_AfterDigest := DigestBytes sha content, ed_NewContent := content\<rparr>)))
        else if fd_Op d = ''delete'' then
          SRead (fd_Path d) (\<lambda>r. case r of Inl err \<Rightarrow> k (Inl err)
            | Inr base \<Rightarrow> k (Inr (edit\<lparr>ed_Op := OpDelete, ed_BeforeDigest := DigestBytes sha base\<rparr>)))
        else if fd_Op d = ''modify'' then
          SRead (fd_Path d) (\<lambda>r. case r of Inl err \<Rightarrow> k (Inl err)
            | Inr base \<Rightarrow> (let content = deriveModify f (fd_Path d) base
                in k (Inr (edit\<lparr>ed_Op := OpModify, ed_BeforeDigest := DigestBytes sha base,
                     ed_AfterDigest := DigestBytes sha content, ed_NewContent := content\<rparr>))))
        else if fd_Op d = ''rename'' then
          SRead (fd_OldPath d) (\<lambda>r. case r of Inl err \<Rightarrow> k (Inl err)
            | Inr base \<Rightarrow> (let content = deriveModify f (fd_Path d) base
                in k (Inr (edit\<lparr>ed_OldPath := fd_OldPath d, ed_Op := OpRename, ed_BeforeDigest := DigestBytes sha base,
                     ed_AfterDigest := DigestBytes sha content, ed_NewContent := content\<rparr>))))
        else k (Inl (SynthFailed ''invalid configuration'')))"

fun play_edits :: "(string \<Rightarrow> string) \<Rightarrow> FactoryLeafSpec \<Rightarrow> FactoryEditDirective list \<Rightarrow> Edit list \<Rightarrow> Edit list synth" where
  "play_edits sha f [] staged = SReturn None staged"
| "play_edits sha f (d # ds) staged =
    buildEdit sha f d (\<lambda>x. case x of
      Inl err \<Rightarrow> SReturn (Some err) staged
    | Inr e \<Rightarrow> SPropose e (\<lambda>r. case r of
        Some err \<Rightarrow> SReturn (Some err) staged
      | None \<Rightarrow> play_edits sha f ds (staged @ [e])))"

fun play_probes :: "(string \<Rightarrow> string) \<Rightarrow> string list \<Rightarrow> Edit list synth \<Rightarrow> Edit list synth" where
  "play_probes sha [] next = next"
| "play_probes sha (p # ps) next = SPropose (probe_edit sha p) (\<lambda>r. case r of
      Some (SynthFailed m) \<Rightarrow> SReturn (Some (SynthFailed m)) []
    | _ \<Rightarrow> play_probes sha ps next)"

definition factorySynthesizer :: "(string \<Rightarrow> string) \<Rightarrow> FactoryLeafSpec \<Rightarrow> FactoryLeafScript \<Rightarrow> Edit list synth" where
  "factorySynthesizer sha f sc = play_probes sha (fs_ProbePaths sc) (play_edits sha f (fs_Edits sc) [])"

datatype factory_error = FInvalidConfig | FDenied run_error

record FactoryLeafOutcome =
  fo_State :: RunState
  fo_Edits :: "Edit list"
  fo_Rollback :: "(string \<times> string \<times> nat \<times> int) option"
  fo_Denials :: "DenialRecord list"

definition ExecuteLeaf :: "world \<Rightarrow> FactoryLeafSpec \<Rightarrow> FactoryLeafScript \<Rightarrow> Store \<Rightarrow> (factory_error + FactoryLeafOutcome) \<times> Store" where
  "ExecuteLeaf W f sc s =
    (case runnerSpec f of
       None \<Rightarrow> (Inl FInvalidConfig, s)
     | Some sp \<Rightarrow>
         if \<not> script_ok sc then (Inl FInvalidConfig, s)
         else (case RunLeaf W sp (factorySynthesizer (wo_sha W) f sc) s of
                 (Inl err, s') \<Rightarrow> (Inl (FDenied err), s')
               | (Inr (res, Some err, x), s') \<Rightarrow> (Inl (FDenied err), s')
               | (Inr (res, None, x), s') \<Rightarrow>
                   (Inr \<lparr>fo_State = rs_State res, fo_Edits = (case x of None \<Rightarrow> [] | Some es \<Rightarrow> es),
                         fo_Rollback = map_option (\<lambda>rb. (ReasonCode (rr_Receipt rb), Hex (rr_ChangeSetDigest rb),
                           rr_DiscardedEdits rb, rr_FailedEditIndex rb)) (rs_Rollback res),
                         fo_Denials = rs_Denials res\<rparr>, s')))"


section \<open>Runs are confined\<close>

text \<open>A store in which an identifier has not been used.\<close>

definition fresh_id :: "Store \<Rightarrow> string \<Rightarrow> bool" where
  "fresh_id s i \<longleftrightarrow> i \<noteq> [] \<and> so_dirs s i = None \<and> list_all (\<lambda>(k, r). ro_inFlight r \<noteq> i
     \<and> (case ro_outcome r of None \<Rightarrow> True | Some oc \<Rightarrow> oc_CandidateID oc \<noteq> i)) (so_seen s)"

definition in_scope :: "LeafSpec \<Rightarrow> string \<Rightarrow> bool" where
  "in_scope sp p \<longleftrightarrow> withinAny p (sp_OwnedPaths sp) \<and> withinAny p (lg_AllowedPaths (sp_Grant sp))
    \<and> \<not> withinAny p (sp_ForbiddenPaths sp)"

lemma authorized_path:
  assumes "authorizeLeaf env (spec_leaf sp) req = None"
  shows "in_scope sp (rq_Path req)"
proof -
  have "authorizePath (spec_leaf sp) (rq_Path req) = None"
    using assms by (auto simp: authorizeLeaf_def split: option.split_asm if_split_asm)
  then show ?thesis by (auto simp: authorizePath_def in_scope_def spec_leaf_def split: if_split_asm)
qed

lemma authorized_edit:
  assumes "AuthorizeMutation env env' (spec_leaf sp) e = None" "consumes e q \<or> produces e q"
  shows "\<exists>p. q = segments p \<and> in_scope sp p"
proof -
  have 1: "in_scope sp (ed_Path e)"
    using assms(1) authorized_path[of env sp "effect_request ActionFileWrite (ed_Path e)"]
    by (auto simp: AuthorizeMutation_def effect_request_def split: option.split_asm)
  have 2: "in_scope sp (ed_OldPath e)" if "ed_Op e = OpRename"
    using assms(1) that authorized_path[of env' sp "effect_request ActionFileWrite (ed_OldPath e)"]
    by (auto simp: AuthorizeMutation_def effect_request_def split: option.split_asm)
  show ?thesis using assms(2) 1 2 by (auto simp: consumes_def produces_def)
qed

lemma changed_in_scope:
  assumes "edits_result es F G" "\<forall>i < length es. AuthorizeMutation (env i) (env' i) (spec_leaf sp) (es ! i) = None" "F q \<noteq> G q"
  shows "\<exists>p. q = segments p \<and> in_scope sp p"
proof -
  have "\<exists>e \<in> set es. consumes e q \<or> produces e q" using assms(1,3) unfolding edits_result_def by fastforce
  then obtain i where "i < length es" "consumes (es ! i) q \<or> produces (es ! i) q" by (metis in_set_conv_nth)
  with assms(2) authorized_edit show ?thesis by blast
qed

lemma apply_replay:
  assumes "mget (so_seen s) (replayKey r) = Some rec" "fresh_id s' (ca_ID c)" "so_seen s' = so_seen s"
    and "apply_request_ok r" "Validate sha (ar_Edits r)"
  shows "\<exists>x. (x = (None, Some EConflict) \<or> (\<exists>oc. x = (Some oc, None)))
    \<and> Apply sha cfg git ctx auth c r s = (x, remove_candidate git 1 (ca_ID c) s)"
proof -
  have "(replayKey r, rec) \<in> set (so_seen s')" using assms(1,3) by (simp add: map_of_SomeD)
  then have "ro_inFlight rec \<noteq> ca_ID c" "ca_ID c \<noteq> []"
    "case ro_outcome rec of None \<Rightarrow> True | Some oc \<Rightarrow> oc_CandidateID oc \<noteq> ca_ID c"
    using assms(2) by (auto simp: fresh_id_def list_all_iff)
  then show ?thesis using assms(1,4,5) by (cases "ro_outcome rec") (auto simp: Apply_def Let_def)
qed

lemma conclude_state:
  "rs_State (fst (fst (conclude W sp c su ((Some oc, None), s)))) = (if oc_State oc = StateApplied then RunCompleted else RunFailed)"
  "snd (conclude W sp c su ((Some oc, None), s)) = s"
  "rs_State (fst (fst (conclude W sp c su ((x, Some err), s)))) = RunFailed"
  "snd (conclude W sp c su ((None, Some err), s)) = remove_candidate (wo_git W) 2 (ca_ID c) s"
  "oc_Rollback oc = Some rb \<Longrightarrow> snd (conclude W sp c su ((Some oc, Some err), s)) = s"
  "rs_Denials (fst (fst (conclude W sp c su ((Some oc, None), s)))) = su_denials su"
  by (auto simp: conclude_def failClosed_def Discard_def Let_def split: option.split)

text \<open>Nothing is left of a candidate but what could not be removed.\<close>

definition cleared :: "git_env \<Rightarrow> string \<Rightarrow> Store \<Rightarrow> Store \<Rightarrow> bool" where
  "cleared git i s s' \<longleftrightarrow> so_dirs s' = so_dirs s
    \<or> (\<exists>n left. gi_removeAll git n = Some left \<and> so_dirs s' = (so_dirs s)(i \<mapsto> left))"

lemma removed_cleared:
  assumes "so_dirs s i = None" "so_dirs s1 = (so_dirs s)(i := y)"
  shows "cleared git i s (remove_candidate git n i s1)" "\<exists>y'. so_dirs (remove_candidate git n i s1) = (so_dirs s)(i := y')"
proof -
  have same: "(so_dirs s)(i := None) = so_dirs s" using assms(1) by (auto simp: fun_eq_iff)
  show "cleared git i s (remove_candidate git n i s1)"
    using assms(2) same by (cases "gi_removeAll git n") (auto simp: cleared_def remove_candidate_def)
  show "\<exists>y'. so_dirs (remove_candidate git n i s1) = (so_dirs s)(i := y')"
    using assms(2) by (auto simp: remove_candidate_def)
qed

lemma updated_cleared:
  assumes "so_dirs s i = None" "so_dirs s' = (so_dirs s)(i := gi_removeAll git n)"
  shows "cleared git i s s'"
proof -
  have "(so_dirs s)(i := None) = so_dirs s" using assms(1) by (auto simp: fun_eq_iff)
  then show ?thesis using assms(2) by (cases "gi_removeAll git n") (auto simp: cleared_def)
qed

lemma finish_confined:
  assumes fresh: "fresh_id s i" and s1: "s1 = s\<lparr>so_dirs := (so_dirs s)(i \<mapsto> tree)\<rparr>" and wf: "wf_tree tree"
    and c: "ca_ID c = i" and run: "finish_leaf W sp c synthErr su s1 = ((res, err), s2)"
  shows "rs_State res = RunFailed \<and> cleared (wo_git W) i s s2
    \<or> rs_State res = RunCompleted \<and> rs_Denials res = [] \<and> (cleared (wo_git W) i s s2
        \<or> (\<exists>fs'. so_dirs s2 = (so_dirs s)(i \<mapsto> fs')
            \<and> (\<forall>q. content_at tree q \<noteq> content_at fs' q \<longrightarrow> (\<exists>p. q = segments p \<and> in_scope sp p))))"
proof -
  let ?rm = "remove_candidate (wo_git W)"
  have none: "so_dirs s i = None" using fresh by (simp add: fresh_id_def)
  have d1: "so_dirs s1 = (so_dirs s)(i := Some tree)" by (simp add: s1)
  obtain y where y: "so_dirs (?rm 1 i s1) = (so_dirs s)(i := y)" using removed_cleared(2)[OF none d1] by blast
  note gone = removed_cleared(1)[OF none d1, of "wo_git W"] removed_cleared(1)[OF none y, of "wo_git W"]
  let ?r = "apply_request sp (su_staged su)"
  let ?auth = "bound_authorizer (wo_envs W) (spec_leaf sp) (su_time su)"
  let ?A = "Apply (wo_sha W) (wo_config W) (wo_git W) (wo_live W) ?auth c ?r s1"
  consider (early) "synthErr \<noteq> None \<or> su_denials su \<noteq> [] \<or> su_staged su = []"
    | (applied) "synthErr = None" "su_denials su = []" "su_staged su \<noteq> []" by blast
  then show ?thesis
  proof cases
    case early
    then have "rs_State res = RunFailed \<and> s2 = ?rm 2 i s1"
      using run by (auto simp: finish_leaf_def Discard_def failClosed_def Let_def c split: if_split_asm option.split_asm)
    then show ?thesis using gone(1) by simp
  next
    case applied
    then have eq: "conclude W sp c su ?A = ((res, err), s2)" using run by (simp add: finish_leaf_def)
    have inflight: "\<not> candidateInFlight s1 (ca_ID c)"
      using fresh by (auto simp: candidateInFlight_def fresh_id_def s1 c list_all_iff list_ex_iff)
    consider (bad) "\<not> apply_request_ok ?r" | (invalid) "apply_request_ok ?r" "\<not> Validate (wo_sha W) (ar_Edits ?r)"
        "mget (so_seen s1) (replayKey ?r) \<noteq> None"
      | (replay) rec where "apply_request_ok ?r" "Validate (wo_sha W) (ar_Edits ?r)" "mget (so_seen s1) (replayKey ?r) = Some rec"
      | (first) "apply_request_ok ?r" "mget (so_seen s1) (replayKey ?r) = None" by blast
    then show ?thesis
    proof cases
      case bad
      then have "?A = ((None, Some EInvalidInput), s1)" by (simp add: Apply_def)
      then show ?thesis using conclude_state(3)[of W sp c su None EInvalidInput s1] conclude_state(4)[of W sp c su EInvalidInput s1]
          eq gone(1) c by simp
    next
      case invalid
      then obtain oc rb where "?A = ((Some oc, Some EInvalidEdits), ?rm 1 i s1)" "oc_Rollback oc = Some rb"
        using inflight by (simp add: Apply_def Let_def rejected_outcome_def c)
      then show ?thesis
        using conclude_state(3)[of W sp c su "Some oc" EInvalidEdits "?rm 1 i s1"]
          conclude_state(5)[of oc rb W sp c su EInvalidEdits "?rm 1 i s1"] eq gone(1)
        by simp
    next
      case replay
      have "so_seen s = so_seen s1" by (simp add: s1)
      from apply_replay[OF replay(3) _ this replay(1,2)] fresh c
      obtain x where x: "x = (None, Some EConflict) \<or> (\<exists>oc. x = (Some oc, None))" "?A = (x, ?rm 1 i s1)" by metis
      from x(1) show ?thesis
      proof
        assume "x = (None, Some EConflict)"
        then show ?thesis using x(2) conclude_state(3)[of W sp c su None EConflict "?rm 1 i s1"]
            conclude_state(4)[of W sp c su EConflict "?rm 1 i s1"]
            eq gone(2) c by simp
      next
        assume "\<exists>oc. x = (Some oc, None)"
        then obtain oc where "x = (Some oc, None)" by blast
        then show ?thesis using x(2) conclude_state(1,2,6)[of W sp c su oc "?rm 1 i s1"] eq gone(1) applied(2)
          by (simp split: if_split_asm)
      qed
    next
      case first
      have dirs: "so_dirs s1 (ca_ID c) = Some tree" by (simp add: s1 c)
      from apply_first_use[OF dirs wf first(2,1), of "wo_sha W" "wo_config W" "wo_git W" "wo_live W" ?auth] inflight
      consider (ok) oc fs' where "fst ?A = (Some oc, None)" "oc_State oc = StateApplied" "so_dirs (snd ?A) = (so_dirs s1)(i \<mapsto> fs')"
          "edits_result (su_staged su) (content_at tree) (content_at fs')"
          "\<forall>k < length (su_staged su). ?auth k (su_staged su ! k) = None"
        | (failed) oc rb e where "fst ?A = (Some oc, Some e)" "oc_Rollback oc = Some rb" "so_dirs (snd ?A) = (so_dirs s1)(i := gi_removeAll (wo_git W) 1)"
        by (auto simp: Let_def c apply_request_def)
      then show ?thesis
      proof cases
        case ok
        then have A: "?A = ((Some oc, None), snd ?A)" by (metis prod.collapse)
        have "rs_State res = RunCompleted" "rs_Denials res = []" "s2 = snd ?A"
          using eq conclude_state(1,2,6)[of W sp c su oc "snd ?A"] ok(2) applied(2) by (simp_all flip: A)
        moreover have "\<exists>p. q = segments p \<and> in_scope sp p" if "content_at tree q \<noteq> content_at fs' q" for q
          by (rule changed_in_scope[OF ok(4) ok(5)[unfolded bound_authorizer_def] that])
        moreover have "(so_dirs s1)(i \<mapsto> fs') = (so_dirs s)(i \<mapsto> fs')" by (simp add: s1)
        ultimately show ?thesis using ok(3) by auto
      next
        case failed
        then have A: "?A = ((Some oc, Some e), snd ?A)" by (metis prod.collapse)
        have st: "rs_State res = RunFailed" "s2 = snd ?A"
          using eq conclude_state(3)[of W sp c su "Some oc" e "snd ?A"] conclude_state(5)[OF failed(2), of W sp c su e "snd ?A"]
          by (simp_all flip: A)
        have "so_dirs s2 = (so_dirs s)(i := gi_removeAll (wo_git W) 1)" using failed(3) by (simp add: st(2) s1)
        from updated_cleared[OF none this] st(1) show ?thesis by simp
      qed
    qed
  qed
qed

lemma Begin_ok:
  assumes "Begin git base s = (Inr c, s1)"
  shows "\<exists>tree. gi_id git = Some (ca_ID c) \<and> gi_hydrate git base = Some tree
    \<and> s1 = s\<lparr>so_dirs := (so_dirs s)(ca_ID c \<mapsto> tree)\<rparr>"
  using assms by (auto simp: Begin_def split: if_split_asm option.split_asm)

lemma Begin_failed:
  assumes "Begin git base s = (Inl err, s1)"
  shows "so_dirs s1 = so_dirs s \<or> (\<exists>i. gi_id git = Some i \<and> cleared git i s s1)"
proof -
  have "so_dirs s1 = so_dirs s \<or> (\<exists>i tree. gi_id git = Some i \<and> so_dirs s i = None
      \<and> s1 = remove_candidate git 0 i (s\<lparr>so_dirs := (so_dirs s)(i := Some tree)\<rparr>))"
    using assms by (auto simp: Begin_def split: if_split_asm option.split_asm)
  moreover have "cleared git i s (remove_candidate git 0 i (s\<lparr>so_dirs := (so_dirs s)(i := Some tree)\<rparr>))" if "so_dirs s i = None" for i tree
    by (rule removed_cleared(1)[OF that]) simp
  ultimately show ?thesis by blast
qed


text \<open>Denials are never dropped, and a proposal in a forbidden path is always denied; so a
  factory leaf that probes one of its forbidden paths cannot complete.\<close>

lemma surface_call_denials:
  "su_denials su \<noteq> [] \<Longrightarrow> su_denials (snd (Propose X e su)) \<noteq> []"
  "su_denials su \<noteq> [] \<Longrightarrow> su_denials (snd (RequestEffect X action p su)) \<noteq> []"
  "su_denials su \<noteq> [] \<Longrightarrow> su_denials (snd (surface_ReadFile X p su)) \<noteq> []"
  by (auto simp: Propose_def RequestEffect_def surface_ReadFile_def deny_def Let_def split: option.split)

lemma denials_kept: "su_denials su \<noteq> [] \<Longrightarrow> su_denials (snd (run_synth X prog su)) \<noteq> []"
proof (induction prog arbitrary: su)
  case (SPropose e k)
  then show ?case using surface_call_denials(1)[of su X e] by (cases "Propose X e su") auto
next
  case (SRead p k)
  then show ?case using surface_call_denials(3)[of su X p] by (cases "surface_ReadFile X p su") auto
next
  case (SEffect action p k)
  then show ?case using surface_call_denials(2)[of su X action p] by (cases "RequestEffect X action p su") auto
qed simp

lemma forbidden_proposal:
  assumes "se_leaf X = spec_leaf sp" "withinAny (ed_Path e) (sp_ForbiddenPaths sp)"
  shows "su_denials (snd (Propose X e su)) \<noteq> [] \<and> (\<exists>code. fst (Propose X e su) = Some (SynthDenied code))"
proof -
  have "AuthorizeMutation env env' (spec_leaf sp) e \<noteq> None" for env env'
    using assms(2) authorized_path[of env sp "effect_request ActionFileWrite (ed_Path e)"]
    by (auto simp: AuthorizeMutation_def effect_request_def in_scope_def split: option.split)
  from this[of "se_envs X (su_time su)" "se_envs X (su_time su + 1)"]
  show ?thesis using assms(1) by (auto simp: Propose_def deny_def Let_def split: option.split)
qed

lemma probes_denied:
  assumes "se_leaf X = spec_leaf sp" "p \<in> set ps" "withinAny p (sp_ForbiddenPaths sp)"
  shows "su_denials (snd (run_synth X (play_probes sha ps next) su)) \<noteq> []"
  using assms(2)
proof (induction ps arbitrary: su)
  case (Cons q ps)
  obtain r su' where q: "Propose X (probe_edit sha q) su = (r, su')" by fastforce
  have r: "r \<noteq> Some (SynthFailed m)" for m using q by (auto simp: Propose_def Let_def split: if_split_asm option.split_asm)
  then have eq: "run_synth X (play_probes sha (q # ps) next) su = run_synth X (play_probes sha ps next) su'"
    by (simp add: q split: option.split synth_error.split)
  show ?case
  proof (cases "q = p")
    case True
    then have "su_denials su' \<noteq> []" using forbidden_proposal[OF assms(1), of "probe_edit sha p" su] assms(3) q
      by (simp add: probe_edit_def)
    then show ?thesis unfolding eq by (rule denials_kept)
  next
    case False
    then show ?thesis unfolding eq using Cons by simp
  qed
qed simp

lemma finish_denied: "su_denials su \<noteq> [] \<Longrightarrow> rs_State (fst (fst (finish_leaf W sp c err su s))) = RunFailed"
  by (simp add: finish_leaf_def failClosed_def Let_def split: prod.split)

lemma probed_leaf_never_completes:
  assumes "p \<in> set (fs_ProbePaths sc)" "withinAny p (ff_ForbiddenPaths f)" "ExecuteLeaf W f sc s = (Inr oc, s')"
  shows "fo_State oc = RunFailed"
proof -
  obtain sp where sp: "runnerSpec f = Some sp" "sp_ForbiddenPaths sp = ff_ForbiddenPaths f"
    using assms(3) by (auto simp: ExecuteLeaf_def runnerSpec_def Let_def split: if_split_asm)
  have "rs_State res = RunFailed" if run: "RunLeaf W sp (factorySynthesizer (wo_sha W) f sc) s = (Inr (res, err, x), s2)" for res err x s2
  proof (cases "\<exists>c s1. Begin (wo_git W) (sp_BaseGitOID sp) s = (Inr c, s1) \<and> validateSpec sp
      \<and> authorizeLeaf (wo_envs W 0) (spec_leaf sp) (admission_request sp) = None")
    case True
    then obtain c s1 where b: "Begin (wo_git W) (sp_BaseGitOID sp) s = (Inr c, s1)" "validateSpec sp"
      "authorizeLeaf (wo_envs W 0) (spec_leaf sp) (admission_request sp) = None" by blast
    let ?X = "\<lparr>se_sha = wo_sha W, se_config = wo_config W, se_envs = wo_envs W, se_leaf = spec_leaf sp,
        se_candidate = c, se_store = s1\<rparr>"
    obtain e y su where sy: "run_synth ?X (factorySynthesizer (wo_sha W) f sc) begin_surface = ((e, y), su)" by (metis prod.collapse)
    have "su_denials su \<noteq> []"
      using probes_denied[of ?X sp p "fs_ProbePaths sc" "wo_sha W" "play_edits (wo_sha W) f (fs_Edits sc) []" begin_surface] assms sp sy
      by (simp add: factorySynthesizer_def)
    then have "rs_State (fst (fst (finish_leaf W sp c e su s1))) = RunFailed" by (rule finish_denied)
    then show ?thesis using run b sy by (simp add: RunLeaf_def split: prod.split_asm)
  next
    case False
    then show ?thesis using run by (auto simp: RunLeaf_def failClosed_def split: if_split_asm option.split_asm prod.split_asm sum.split_asm)
  qed
  then show ?thesis using assms(3) sp(1)
    by (auto simp: ExecuteLeaf_def split: if_split_asm prod.split_asm sum.split_asm option.split_asm)
qed


section \<open>Properties\<close>

text \<open>C12.  A sealed leaf stays in its scope.  Whatever program the leaf is, and however
  policy, fences and clock change during the run: a run that does not complete changes no
  other candidate directory and leaves none behind, unless \<^verbatim>\<open>os.RemoveAll\<close> failed on it; a run that
  completes had no denial, and its candidate differs from the exact base only in files
  whose path lies within the owned paths and the granted paths and outside every forbidden
  path (a replayed completion leaves no second candidate, with the same exception).
  Assumed: the random candidate name is new to the store, and the tree that Git checks out is
  closed under parent directories.\<close>

theorem sealed_leaf_stays_in_scope:
  assumes "RunLeaf W sp prog s = (out, s')"
    and "\<And>i. gi_id (wo_git W) = Some i \<Longrightarrow> fresh_id s i"
    and "\<And>tree. gi_hydrate (wo_git W) (sp_BaseGitOID sp) = Some tree \<Longrightarrow> wf_tree tree"
  shows "(\<forall>res err x. out = Inr (res, err, x) \<and> rs_State res = RunCompleted \<longrightarrow> rs_Denials res = []
        \<and> (\<exists>i. gi_id (wo_git W) = Some i \<and> (cleared (wo_git W) i s s'
            \<or> (\<exists>tree fs'. gi_hydrate (wo_git W) (sp_BaseGitOID sp) = Some tree \<and> so_dirs s' = (so_dirs s)(i \<mapsto> fs')
               \<and> (\<forall>q. content_at tree q \<noteq> content_at fs' q \<longrightarrow> (\<exists>p. q = segments p \<and> in_scope sp p))))))
    \<and> ((\<forall>res err x. out = Inr (res, err, x) \<longrightarrow> rs_State res = RunFailed) \<longrightarrow>
        so_dirs s' = so_dirs s \<or> (\<exists>i. gi_id (wo_git W) = Some i \<and> cleared (wo_git W) i s s'))"
proof -
  consider (invalid) "\<not> validateSpec sp" | (denied) d where "validateSpec sp"
        "authorizeLeaf (wo_envs W 0) (spec_leaf sp) (admission_request sp) = Some d"
    | (run) "validateSpec sp" "authorizeLeaf (wo_envs W 0) (spec_leaf sp) (admission_request sp) = None" by blast
  then show ?thesis
  proof cases
    case invalid
    then show ?thesis using assms(1) by (auto simp: RunLeaf_def)
  next
    case denied
    then show ?thesis using assms(1) by (auto simp: RunLeaf_def failClosed_def)
  next
    case run
    obtain b s1 where b: "Begin (wo_git W) (sp_BaseGitOID sp) s = (b, s1)" by fastforce
    show ?thesis
    proof (cases b)
      case (Inl err)
      then show ?thesis using assms(1) run b Begin_failed[of "wo_git W" "sp_BaseGitOID sp" s err s1]
        by (auto simp: RunLeaf_def failClosed_def)
    next
      case (Inr c)
      with b obtain tree where t: "gi_id (wo_git W) = Some (ca_ID c)" "gi_hydrate (wo_git W) (sp_BaseGitOID sp) = Some tree"
        "s1 = s\<lparr>so_dirs := (so_dirs s)(ca_ID c \<mapsto> tree)\<rparr>" using Begin_ok by blast
      let ?X = "\<lparr>se_sha = wo_sha W, se_config = wo_config W, se_envs = wo_envs W, se_leaf = spec_leaf sp,
          se_candidate = c, se_store = s1\<rparr>"
      obtain synthErr x su where sy: "run_synth ?X prog begin_surface = ((synthErr, x), su)" by (metis prod.collapse)
      obtain res err s2 where fin: "finish_leaf W sp c synthErr su s1 = ((res, err), s2)" by (metis prod.collapse)
      have out: "out = Inr (res, err, Some x)" "s' = s2" using assms(1) run b Inr sy fin by (simp_all add: RunLeaf_def)
      from finish_confined[OF assms(2)[OF t(1)] t(3) assms(3)[OF t(2)] refl fin] t(1,2) show ?thesis
        unfolding out by auto
    qed
  qed
qed

definition sample_leaf :: LeafSpec where
  "sample_leaf = \<lparr>sp_RunID = \<lparr>Namespace = ''run'', IdValue = ''r''\<rparr>, sp_NodeID = ''n'', sp_OwnedPaths = [''src''],
     sp_ForbiddenPaths = [''src/x''], sp_BaseGitOID = replicate 40 CHR ''a'', sp_Identity = lf_Identity leaf0,
     sp_Grant = grant0, sp_ChangeSetID = ''cs'', sp_IdempotencyKey = ''i'', sp_Now = Some 5\<rparr>"

definition sample_world :: world where
  "sample_world = \<lparr>wo_sha = (\<lambda>_. replicate 64 CHR ''0''), wo_config = sample_config,
     wo_git = sample_git\<lparr>gi_id := Some ''new''\<rparr>, wo_envs = (\<lambda>_. env0), wo_live = (\<lambda>_. True)\<rparr>"

definition leaf_edit :: "string \<Rightarrow> Edit" where
  "leaf_edit p = sample_edit\<lparr>ed_Path := p\<rparr>"

lemma sample_paths: "ValidatePath ''src''" "ValidatePath ''src/x''" "ValidatePath ''src/b.go''" "ValidatePath ''src/x/c.go''"
  using ascii_path[of "''src''"] ascii_path[of "''src/x''"] ascii_path[of "''src/b.go''"] ascii_path[of "''src/x/c.go''"]
  by (simp_all add: validate_path_iff clean_names_def path_components_def MaxPathBytes_def byte_def)

lemma sample_spec: "spec_leaf sample_leaf = leaf0" "validateSpec sample_leaf"
proof -
  show "spec_leaf sample_leaf = leaf0" by (simp add: spec_leaf_def sample_leaf_def leaf0_def)
  have "ValidateLeafGrant grant0 5 = None"
    using authorized0 by (auto simp: authorizeLeaf_def env0_def leaf0_def split: option.split_asm if_split_asm)
  then show "validateSpec sample_leaf" using sample_paths by (simp add: validateSpec_def sample_leaf_def grant0_def)
qed

lemma sample_authorized:
  assumes "p \<in> {''src'', ''src/b.go''}" "rq_Action req = ActionFileWrite" "rq_Path req = p" "rq_Resource req \<in> {zero_id, hd (lg_Resources grant0)}"
  shows "authorizeLeaf env0 leaf0 req = None"
proof -
  have g: "ValidateLeafGrant grant0 5 = None"
    using authorized0 by (auto simp: authorizeLeaf_def env0_def leaf0_def split: option.split_asm if_split_asm)
  have "authorizePath leaf0 p = None" using assms(1) sample_paths
    by (auto simp: authorizePath_def leaf0_def grant0_def withinAny_def has_prefix_def is_abs_path_def)
  then show ?thesis using assms(2-4) g
    by (auto simp: authorizeLeaf_def env0_def leaf0_def grant0_def action_defs zero_id_def)
qed

lemma sample_mutation: "AuthorizeMutation env0 env0 leaf0 (leaf_edit ''src/b.go'') = None"
  using sample_authorized[of "''src/b.go''" "effect_request ActionFileWrite ''src/b.go''"]
  by (simp add: AuthorizeMutation_def leaf_edit_def sample_edit_def effect_request_def op_defs)

lemma leaf_edit_valid: "ValidatePath p \<Longrightarrow> ValidateEdit zero_sha (leaf_edit p)" "ValidatePath p \<Longrightarrow> Validate zero_sha [leaf_edit p]"
proof -
  have "list_all lower_hex (replicate 64 CHR ''0'')" by (simp add: list_all_iff lower_hex_def)
  then show v: "ValidateEdit zero_sha (leaf_edit p)" if "ValidatePath p"
    using that by (simp add: ValidateEdit_def leaf_edit_def sample_edit_def op_defs validLanguage_def zero_digest_def validDigest_iff DigestBytes_def)
  show "Validate zero_sha [leaf_edit p]" if "ValidatePath p"
    using v[OF that] by (simp add: Validate_def MaxEdits_def)
qed

lemma sample_run_begin:
  "Begin (wo_git sample_world) (replicate 40 CHR ''a'') sample_store =
    (Inr \<lparr>ca_ID = ''new'', ca_Base = replicate 40 CHR ''a''\<rparr>, sample_store\<lparr>so_dirs := (so_dirs sample_store)(''new'' \<mapsto> [])\<rparr>)"
  by (simp add: Begin_def sample_world_def sample_git_def sample_oid) (simp add: sample_store_def)

lemma sample_leaf_applyAll:
  assumes "auth 0 (leaf_edit ''src/b.go'') = None"
  shows "\<exists>d t. applyAll zero_sha sample_config (wo_git sample_world) (\<lambda>_. True) auth [leaf_edit ''src/b.go''] [] =
    (1, Inr (d, t, [([''src''], CDir), ([''src'', ''b.go''], CFile ''-rw-r--r--'' ''x'')]))"
proof -
  let ?fs = "[([''src''], CDir), ([''src'', ''b.go''], CFile ''-rw-r--r--'' ''x'')]"
  have one: "applyOne zero_sha sample_config [] (leaf_edit ''src/b.go'') = FOk ?fs" by code_simp
  have post: "postimages_ok zero_sha sample_config [leaf_edit ''src/b.go''] ?fs" by code_simp
  have dig: "PostImageDigest zero_sha sample_config ?fs \<noteq> None" by code_simp
  have git: "gi_add (wo_git sample_world) f" "gi_writeTree (wo_git sample_world) f = Some (replicate 40 CHR ''a'')" for f
    by (simp_all add: sample_world_def sample_git_def)
  show ?thesis using dig assms by (auto simp: applyAll_def one post git sample_oid)
qed

text \<open>A leaf that writes a file it owns, and one that writes a forbidden one.\<close>

definition sample_program :: "string \<Rightarrow> unit synth" where
  "sample_program p = FixtureSynthesizer [leaf_edit p]"

abbreviation sample_run :: "string \<Rightarrow> (run_error + Result \<times> run_error option \<times> unit option) \<times> Store" where
  "sample_run p \<equiv> RunLeaf sample_world sample_leaf (sample_program p) sample_store"

definition sample_surface :: "string \<Rightarrow> (synth_error option \<times> unit) \<times> surface" where
  "sample_surface p = run_synth \<lparr>se_sha = zero_sha, se_config = sample_config, se_envs = (\<lambda>_. env0), se_leaf = leaf0,
     se_candidate = \<lparr>ca_ID = ''new'', ca_Base = replicate 40 CHR ''a''\<rparr>,
     se_store = sample_store\<lparr>so_dirs := (so_dirs sample_store)(''new'' \<mapsto> [])\<rparr>\<rparr> (sample_program p) begin_surface"

lemma sample_run_eq:
  "sample_run p = (case sample_surface p of ((synthErr, x), su) \<Rightarrow>
     (case finish_leaf sample_world sample_leaf \<lparr>ca_ID = ''new'', ca_Base = replicate 40 CHR ''a''\<rparr> synthErr su
        (sample_store\<lparr>so_dirs := (so_dirs sample_store)(''new'' \<mapsto> [])\<rparr>) of ((res, err), s2) \<Rightarrow> (Inr (res, err, Some x), s2)))"
proof -
  have "authorizeLeaf env0 leaf0 (admission_request sample_leaf) = None"
    by (rule sample_authorized[of "''src''"]) (simp_all add: admission_request_def sample_leaf_def)
  moreover have "wo_envs sample_world n = env0" "sp_BaseGitOID sample_leaf = replicate 40 CHR ''a''"
    "wo_sha sample_world = zero_sha" "wo_config sample_world = sample_config" for n by (simp_all add: sample_world_def sample_leaf_def)
  moreover have "wo_envs sample_world = (\<lambda>_. env0)" by (simp add: sample_world_def)
  ultimately show ?thesis
    by (simp add: RunLeaf_def sample_spec sample_run_begin sample_surface_def Let_def case_prod_beta)
qed

lemma sample_surface_owned:
  "\<exists>t. sample_surface ''src/b.go'' = ((None, ()), \<lparr>su_staged = [leaf_edit ''src/b.go''], su_denials = [], su_time = t\<rparr>)"
  using leaf_edit_valid(1)[OF sample_paths(3)] sample_mutation
  by (simp add: sample_surface_def sample_program_def FixtureSynthesizer_def Propose_def begin_surface_def go_on_def)

lemma sample_completes: "\<exists>res x s'. sample_run ''src/b.go'' = (Inr (res, None, x), s') \<and> rs_State res = RunCompleted
    \<and> so_dirs s' = (so_dirs sample_store)(''new'' \<mapsto> [([''src''], CDir), ([''src'', ''b.go''], CFile ''-rw-r--r--'' ''x'')])"
proof -
  obtain t where t: "sample_surface ''src/b.go'' = ((None, ()), \<lparr>su_staged = [leaf_edit ''src/b.go''], su_denials = [], su_time = t\<rparr>)"
    using sample_surface_owned by blast
  let ?auth = "bound_authorizer (\<lambda>_. env0) leaf0 t"
  have "?auth 0 (leaf_edit ''src/b.go'') = None" using sample_mutation by (simp add: bound_authorizer_def)
  from sample_leaf_applyAll[of ?auth, OF this] obtain d tr where A: "applyAll zero_sha sample_config (wo_git sample_world) (\<lambda>_. True) ?auth
      [leaf_edit ''src/b.go''] [] = (1, Inr (d, tr, [([''src''], CDir), ([''src'', ''b.go''], CFile ''-rw-r--r--'' ''x'')]))" by blast
  have W: "wo_sha sample_world = zero_sha" "wo_config sample_world = sample_config" "wo_live sample_world = (\<lambda>_. True)"
    "wo_envs sample_world = (\<lambda>_. env0)" by (simp_all add: sample_world_def)
  have ok: "apply_request_ok (apply_request sample_leaf [leaf_edit ''src/b.go''])"
    by (simp add: apply_request_ok_def apply_request_def sample_leaf_def leaf0_def MaxEdits_def)
  have es: "ar_Edits (apply_request sample_leaf [leaf_edit ''src/b.go'']) = [leaf_edit ''src/b.go'']" by (simp add: apply_request_def)
  have seen: "so_seen sample_store = []" by (simp add: sample_store_def)
  show ?thesis
    by (simp add: sample_run_eq t finish_leaf_def W sample_spec Apply_def ok es Let_def leaf_edit_valid(2)[OF sample_paths(3)] seen A conclude_def)
qed

lemma sample_surface_forbidden: "su_denials (snd (sample_surface ''src/x/c.go'')) \<noteq> []"
proof -
  define X where "X = \<lparr>se_sha = zero_sha, se_config = sample_config, se_envs = (\<lambda>_. env0), se_leaf = leaf0,
     se_candidate = \<lparr>ca_ID = ''new'', ca_Base = replicate 40 CHR ''a''\<rparr>,
     se_store = sample_store\<lparr>so_dirs := (so_dirs sample_store)(''new'' \<mapsto> [])\<rparr>\<rparr>"
  have leaf: "se_leaf X = spec_leaf sample_leaf" by (simp add: X_def sample_spec(1))
  have w: "withinAny (ed_Path (leaf_edit ''src/x/c.go'')) (sp_ForbiddenPaths sample_leaf)"
    by (simp add: leaf_edit_def sample_leaf_def withinAny_def has_prefix_def)
  obtain r su where p: "Propose X (leaf_edit ''src/x/c.go'') begin_surface = (r, su)" by fastforce
  then have "su_denials su \<noteq> []" using forbidden_proposal[OF leaf w, of begin_surface] by simp
  moreover have "snd (sample_surface ''src/x/c.go'') = su"
    unfolding sample_surface_def X_def[symmetric]
    by (simp add: sample_program_def FixtureSynthesizer_def p go_on_def split: option.split synth_error.split)
  ultimately show ?thesis by simp
qed

theorem sealed_leaf_stays_in_scope_witness:
  "(\<exists>res x s' fs'. sample_run ''src/b.go'' = (Inr (res, None, x), s') \<and> rs_State res = RunCompleted \<and> rs_Denials res = []
      \<and> so_dirs s' = (so_dirs sample_store)(''new'' \<mapsto> fs') \<and> content_at fs' [''src'', ''b.go''] = Some (Inl ''x''))
   \<and> (\<exists>res err x s'. sample_run ''src/x/c.go'' = (Inr (res, err, x), s') \<and> rs_State res = RunFailed \<and> so_dirs s' = so_dirs sample_store)"
proof -
  have id: "gi_id (wo_git sample_world) = Some ''new''" and tree: "gi_hydrate (wo_git sample_world) x = Some []"
    and rm: "gi_removeAll (wo_git sample_world) n = None" for x n
    by (simp_all add: sample_world_def sample_git_def)
  have fresh: "\<And>i. gi_id (wo_git sample_world) = Some i \<Longrightarrow> fresh_id sample_store i" by (auto simp: id fresh_id_def sample_store_def)
  have wf: "\<And>tr. gi_hydrate (wo_git sample_world) (sp_BaseGitOID sample_leaf) = Some tr \<Longrightarrow> wf_tree tr" by (auto simp: tree wf_tree_def)
  note T = sealed_leaf_stays_in_scope[OF _ fresh wf]
  obtain res x s' where c: "sample_run ''src/b.go'' = (Inr (res, None, x), s')" "rs_State res = RunCompleted"
    "so_dirs s' = (so_dirs sample_store)(''new'' \<mapsto> [([''src''], CDir), ([''src'', ''b.go''], CFile ''-rw-r--r--'' ''x'')])"
    using sample_completes by blast
  have "rs_Denials res = []" using T[OF c(1)] c(2) by blast
  moreover have "content_at [([''src''], CDir), ([''src'', ''b.go''], CFile ''-rw-r--r--'' ''x'')] [''src'', ''b.go''] = Some (Inl ''x'')"
    by (simp add: content_at_def)
  ultimately have 1: "\<exists>res x s' fs'. sample_run ''src/b.go'' = (Inr (res, None, x), s') \<and> rs_State res = RunCompleted \<and> rs_Denials res = []
      \<and> so_dirs s' = (so_dirs sample_store)(''new'' \<mapsto> fs') \<and> content_at fs' [''src'', ''b.go''] = Some (Inl ''x'')" using c by blast
  obtain e y su where su: "sample_surface ''src/x/c.go'' = ((e, y), su)" by (metis prod.collapse)
  then have "su_denials su \<noteq> []" using sample_surface_forbidden by simp
  note F = finish_denied[OF this, of sample_world sample_leaf "\<lparr>ca_ID = ''new'', ca_Base = replicate 40 CHR ''a''\<rparr>" e
      "sample_store\<lparr>so_dirs := (so_dirs sample_store)(''new'' \<mapsto> [])\<rparr>"]
  obtain res2 err2 s2 where f2: "finish_leaf sample_world sample_leaf \<lparr>ca_ID = ''new'', ca_Base = replicate 40 CHR ''a''\<rparr> e su
      (sample_store\<lparr>so_dirs := (so_dirs sample_store)(''new'' \<mapsto> [])\<rparr>) = ((res2, err2), s2)" by (metis prod.collapse)
  have r2: "sample_run ''src/x/c.go'' = (Inr (res2, err2, Some y), s2)" "rs_State res2 = RunFailed"
    using F by (simp_all add: sample_run_eq su f2)
  have "so_dirs s2 = so_dirs sample_store \<or> cleared (wo_git sample_world) ''new'' sample_store s2" using T[OF r2(1)] r2(2) id by auto
  then have "so_dirs s2 = so_dirs sample_store" by (auto simp: cleared_def rm)
  then show ?thesis using 1 r2 by blast
qed

end
