(* ===== verification/Top_K.thy ===== *)
theory Top_K
  imports Text_Bound "HOL-Library.Multiset"
begin

text \<open>
  Bounded selection of the best hits (\<^verbatim>\<open>services/brain/internal/hosted/hotlex_topk.go\<close>) and the
  order in which \<^verbatim>\<open>HotLex.Search\<close> (\<^verbatim>\<open>hotlex.go\<close>) ranks documents.

  Candidates are kept in an array heap with the worst one at its root; the array is a
  list updated by index.  A float is NaN or a number; of the numbers only the order
  matters, so they range over any linear order.  A Go map is enumerated in an order
  the program does not know, so the selection from a map takes that order as its
  argument and the properties hold for every one.
\<close>

section \<open>Scores and pruning\<close>

datatype 'f float64 = NaN | Num 'f

record 'f hotScored =
  hs_i :: nat
  hs_s :: "'f float64"

definition isNaN :: "'f float64 \<Rightarrow> bool" where
  "isNaN x \<longleftrightarrow> (case x of NaN \<Rightarrow> True | Num _ \<Rightarrow> False)"

text \<open>Comparisons with NaN are false.\<close>

definition float_less :: "('f::linorder) float64 \<Rightarrow> 'f float64 \<Rightarrow> bool" where
  "float_less x y \<longleftrightarrow> (case (x, y) of (Num a, Num b) \<Rightarrow> a < b | _ \<Rightarrow> False)"

definition hotScoreCompare :: "('f::linorder) float64 \<Rightarrow> 'f float64 \<Rightarrow> int" where
  "hotScoreCompare a b =
    (if isNaN a \<noteq> isNaN b then (if isNaN a then - 1 else 1)
     else if float_less b a then 1
     else if float_less a b then - 1
     else 0)"

record HotLexSearchStats =
  MatchedDocs :: nat
  PrunedTerms :: "string list"
  ProtectedTerms :: "string list"

definition hotTermIsIdentifier :: "(nat \<Rightarrow> bool) \<Rightarrow> string \<Rightarrow> bool" where
  "hotTermIsIdentifier isNumber term = list_ex (\<lambda>(r, bs). r = 0x5F \<or> isNumber r) (runes_of term)"

definition hotPruneStats :: "(nat \<Rightarrow> bool) \<Rightarrow> string \<Rightarrow> int \<Rightarrow> int \<Rightarrow> HotLexSearchStats \<Rightarrow> bool \<times> HotLexSearchStats" where
  "hotPruneStats isNumber term df maxDF stats =
    (if maxDF \<le> 0 \<or> df \<le> maxDF then (False, stats)
     else if hotTermIsIdentifier isNumber term
     then (False, stats\<lparr>ProtectedTerms := ProtectedTerms stats @ [term]\<rparr>)
     else (True, stats\<lparr>PrunedTerms := PrunedTerms stats @ [term]\<rparr>))"

text \<open>The order the searches pass to the selection: score down, chunk id up.\<close>

definition search_better :: "(nat \<Rightarrow> string) \<Rightarrow> ('f::linorder) hotScored \<Rightarrow> 'f hotScored \<Rightarrow> bool" where
  "search_better chunk_id a b =
    (let scoreOrder = hotScoreCompare (hs_s a) (hs_s b)
     in if scoreOrder \<noteq> 0 then scoreOrder > 0 else chunk_id (hs_i a) < chunk_id (hs_i b))"


section \<open>The heap\<close>

definition swap :: "'a list \<Rightarrow> nat \<Rightarrow> nat \<Rightarrow> 'a list" where
  "swap h i j = h[i := h ! j, j := h ! i]"

definition parent :: "nat \<Rightarrow> nat" where "parent i = (i - 1) div 2"

lemma parent_less: "0 < i \<Longrightarrow> parent i < i" by (simp add: parent_def)

function hotSiftUp :: "('a \<Rightarrow> 'a \<Rightarrow> bool) \<Rightarrow> 'a list \<Rightarrow> nat \<Rightarrow> 'a list" where
  "hotSiftUp better h i =
    (if i = 0 then h
     else if \<not> better (h ! parent i) (h ! i) then h
     else hotSiftUp better (swap h (parent i) i) (parent i))"
  by auto
termination by (relation "measure (\<lambda>(better, h, i). i)") (auto simp: parent_less)

text \<open>The worst of a node and its children.\<close>

definition worst_of :: "('a \<Rightarrow> 'a \<Rightarrow> bool) \<Rightarrow> 'a list \<Rightarrow> nat \<Rightarrow> nat" where
  "worst_of better h i =
    (let w = (if 2 * i + 1 < length h \<and> better (h ! i) (h ! (2 * i + 1)) then 2 * i + 1 else i)
     in if 2 * i + 2 < length h \<and> better (h ! w) (h ! (2 * i + 2)) then 2 * i + 2 else w)"

lemma worst_of_progress:
  assumes "worst_of better h i \<noteq> i"
  shows "i < worst_of better h i \<and> worst_of better h i < length h \<and> parent (worst_of better h i) = i"
  using assms by (auto simp: worst_of_def parent_def Let_def split: if_split_asm)

lemma length_swap [simp]: "length (swap h i j) = length h" by (simp add: swap_def)

function hotSiftDown :: "('a \<Rightarrow> 'a \<Rightarrow> bool) \<Rightarrow> 'a list \<Rightarrow> nat \<Rightarrow> 'a list" where
  "hotSiftDown better h i =
    (let w = worst_of better h i
     in if w = i then h else hotSiftDown better (swap h w i) w)"
  by auto
termination
proof (relation "measure (\<lambda>(better, h, i). length h - i)", goal_cases)
  case (2 better h i w)
  then show ?case using worst_of_progress[of better h i] by (simp add: diff_less_mono2)
qed simp

declare hotSiftUp.simps [simp del] hotSiftDown.simps [simp del]


section \<open>Selection\<close>

text \<open>\<^verbatim>\<open>sort.Slice\<close>.\<close>

fun insert_by :: "('a \<Rightarrow> 'a \<Rightarrow> bool) \<Rightarrow> 'a \<Rightarrow> 'a list \<Rightarrow> 'a list" where
  "insert_by better x [] = [x]"
| "insert_by better x (y # ys) = (if better y x then y # insert_by better x ys else x # y # ys)"

definition sort_slice :: "('a \<Rightarrow> 'a \<Rightarrow> bool) \<Rightarrow> 'a list \<Rightarrow> 'a list" where
  "sort_slice better xs = foldr (insert_by better) xs []"

definition heap_offer :: "('a \<Rightarrow> 'a \<Rightarrow> bool) \<Rightarrow> nat \<Rightarrow> 'a \<Rightarrow> 'a list \<Rightarrow> 'a list" where
  "heap_offer better limit c heap =
    (if length heap < limit then hotSiftUp better (heap @ [c]) (length heap)
     else if better c (heap ! 0) then hotSiftDown better (heap[0 := c]) 0
     else heap)"

definition hotTopK :: "('a \<Rightarrow> 'a \<Rightarrow> bool) \<Rightarrow> int \<Rightarrow> 'a list \<Rightarrow> 'a list" where
  "hotTopK better limit arr =
    (if limit \<le> 0 then []
     else if limit \<ge> int (length arr) then sort_slice better arr
     else sort_slice better (fold (heap_offer better (nat limit)) arr []))"

text \<open>The map's entries in the order the runtime enumerates them.\<close>

definition hotTopKMap :: "('f hotScored \<Rightarrow> 'f hotScored \<Rightarrow> bool) \<Rightarrow> int \<Rightarrow> (nat \<times> 'f float64) list \<Rightarrow> 'f hotScored list" where
  "hotTopKMap better limit scores =
    (let arr = map (\<lambda>(i, score). \<lparr>hs_i = i, hs_s = score\<rparr>) scores
     in if limit \<le> 0 then []
        else if limit \<ge> int (length scores) then hotTopK better limit arr
        else sort_slice better (fold (heap_offer better (nat limit)) arr []))"


section \<open>Sorting by a strict total order\<close>

definition strict_total_on :: "'a set \<Rightarrow> ('a \<Rightarrow> 'a \<Rightarrow> bool) \<Rightarrow> bool" where
  "strict_total_on A better \<longleftrightarrow>
    (\<forall>x \<in> A. \<not> better x x) \<and> (\<forall>x \<in> A. \<forall>y \<in> A. \<forall>z \<in> A. better x y \<longrightarrow> better y z \<longrightarrow> better x z)
    \<and> (\<forall>x \<in> A. \<forall>y \<in> A. x \<noteq> y \<longrightarrow> better x y \<or> better y x)"

lemma strict_total_onD:
  assumes "strict_total_on A better"
  shows "x \<in> A \<Longrightarrow> \<not> better x x"
    and "x \<in> A \<Longrightarrow> y \<in> A \<Longrightarrow> z \<in> A \<Longrightarrow> better x y \<Longrightarrow> better y z \<Longrightarrow> better x z"
    and "x \<in> A \<Longrightarrow> y \<in> A \<Longrightarrow> x \<noteq> y \<Longrightarrow> better x y \<or> better y x"
    and "x \<in> A \<Longrightarrow> y \<in> A \<Longrightarrow> better x y \<Longrightarrow> \<not> better y x"
  using assms unfolding strict_total_on_def by blast+

lemma strict_total_on_subset: "strict_total_on A better \<Longrightarrow> B \<subseteq> A \<Longrightarrow> strict_total_on B better"
  unfolding strict_total_on_def by blast

lemma mset_insert_by [simp]: "mset (insert_by better x ys) = add_mset x (mset ys)"
  by (induction ys) auto

lemma mset_sort_slice [simp]: "mset (sort_slice better xs) = mset xs"
  by (induction xs) (simp_all add: sort_slice_def)

lemma set_sort_slice [simp]: "set (sort_slice better xs) = set xs"
  by (metis mset_sort_slice set_mset_mset)

lemma set_insert_by [simp]: "set (insert_by better x ys) = insert x (set ys)"
  by (induction ys) auto

lemma sorted_insert_by:
  assumes "strict_total_on A better" "x \<in> A" "set ys \<subseteq> A" "x \<notin> set ys" "sorted_wrt better ys"
  shows "sorted_wrt better (insert_by better x ys)"
  using assms(3-5)
proof (induction ys)
  case (Cons y ys)
  show ?case
  proof (cases "better y x")
    case True
    then show ?thesis using Cons by auto
  next
    case False
    then have xy: "better x y" using Cons.prems strict_total_onD(3)[OF assms(1,2), of y] by auto
    moreover have "better x z" if "z \<in> set ys" for z
      using strict_total_onD(2)[OF assms(1,2), of y z] Cons.prems xy that by auto
    ultimately show ?thesis using Cons.prems False by auto
  qed
qed simp

lemma sorted_sort_slice:
  assumes "strict_total_on (set xs) better" "distinct xs"
  shows "sorted_wrt better (sort_slice better xs)"
  using assms
proof (induction xs)
  case (Cons x xs)
  have "strict_total_on (set xs) better" using Cons.prems(1) by (rule strict_total_on_subset) auto
  then have "sorted_wrt better (sort_slice better xs)" using Cons by simp
  then show ?case using sorted_insert_by[OF Cons.prems(1), of x "sort_slice better xs"] Cons.prems(2)
    by (simp add: sort_slice_def[of better "x # xs"] subset_insertI flip: sort_slice_def)
qed (simp add: sort_slice_def)

text \<open>There is only one sorted arrangement.\<close>

lemma sorted_unique_list:
  assumes "strict_total_on A better" "set xs \<subseteq> A" "mset xs = mset ys" "sorted_wrt better xs" "sorted_wrt better ys"
  shows "xs = ys"
  using assms(2-5)
proof (induction xs arbitrary: ys)
  case (Cons x xs)
  then obtain y ys' where ys: "ys = y # ys'" by (cases ys) auto
  have xy: "x = y"
  proof (rule ccontr)
    assume ne: "x \<noteq> y"
    have "set (x # xs) = set ys" using Cons.prems(2) by (metis set_mset_mset)
    then have "y \<in> set xs" "x \<in> set ys'" using ne ys by auto
    then have "better x y" "better y x" using Cons.prems(3,4) ys by auto
    moreover have "x \<in> A" "y \<in> A" using Cons.prems(1) \<open>y \<in> set xs\<close> by auto
    ultimately show False using strict_total_onD(4)[OF assms(1)] by blast
  qed
  then show ?case using Cons ys by auto
qed simp



section \<open>The heap keeps its order\<close>

definition heap_ordered :: "('a \<Rightarrow> 'a \<Rightarrow> bool) \<Rightarrow> 'a list \<Rightarrow> bool" where
  "heap_ordered better h \<longleftrightarrow> (\<forall>j. 0 < j \<and> j < length h \<longrightarrow> \<not> better (h ! parent j) (h ! j))"

text \<open>Order except between a node and its parent, and except between a node and its
  children.\<close>

definition ordered_but_up :: "('a \<Rightarrow> 'a \<Rightarrow> bool) \<Rightarrow> 'a list \<Rightarrow> nat \<Rightarrow> bool" where
  "ordered_but_up better h i \<longleftrightarrow>
    (\<forall>j. 0 < j \<and> j < length h \<and> j \<noteq> i \<longrightarrow> \<not> better (h ! parent j) (h ! j))
    \<and> (\<forall>j. 0 < j \<and> j < length h \<and> parent j = i \<and> 0 < i \<longrightarrow> \<not> better (h ! parent i) (h ! j))"

definition ordered_but_down :: "('a \<Rightarrow> 'a \<Rightarrow> bool) \<Rightarrow> 'a list \<Rightarrow> nat \<Rightarrow> bool" where
  "ordered_but_down better h i \<longleftrightarrow>
    (\<forall>j. 0 < j \<and> j < length h \<and> parent j \<noteq> i \<longrightarrow> \<not> better (h ! parent j) (h ! j))
    \<and> (\<forall>j. 0 < j \<and> j < length h \<and> parent j = i \<and> 0 < i \<longrightarrow> \<not> better (h ! parent i) (h ! j))"

lemma not_better_trans:
  assumes "strict_total_on A better" "x \<in> A" "y \<in> A" "z \<in> A" "\<not> better x y" "\<not> better y z"
  shows "\<not> better x z"
  using strict_total_onD(2)[OF assms(1,2,4,3)] strict_total_onD(3)[OF assms(1,3,4)] assms(5,6) by metis

lemma mset_swap [simp]: "i < length h \<Longrightarrow> j < length h \<Longrightarrow> mset (swap h i j) = mset h"
  unfolding swap_def by (rule mset_swap)

lemma set_swap: "i < length h \<Longrightarrow> j < length h \<Longrightarrow> set (swap h i j) = set h"
  by (metis mset_swap set_mset_mset)

lemma nth_swap: "i < length h \<Longrightarrow> j < length h \<Longrightarrow> k < length h \<Longrightarrow>
    swap h i j ! k = (if k = j then h ! i else if k = i then h ! j else h ! k)"
  by (simp add: swap_def nth_list_update)

lemma sift_up_step:
  assumes A: "strict_total_on A better" "set h \<subseteq> A" and inv: "ordered_but_up better h i"
    and i: "0 < i" "i < length h" and b: "better (h ! parent i) (h ! i)"
  shows "ordered_but_up better (swap h (parent i) i) (parent i)"
proof -
  let ?p = "parent i" and ?h = "swap h (parent i) i"
  have p: "?p < length h" "?p \<noteq> i" using parent_less[OF i(1)] i(2) by auto
  have inA: "k < length h \<Longrightarrow> h ! k \<in> A" for k using A(2) by auto
  note nth = nth_swap[OF p(1) i(2)]
  have anti: "\<not> better (h ! i) (h ! ?p)" using strict_total_onD(4)[OF A(1) inA inA b] p i by simp
  have one: "\<not> better (h ! parent j) (h ! j)" if "0 < j" "j < length h" "j \<noteq> i" for j
    using inv that unfolding ordered_but_up_def by blast
  have two: "\<not> better (h ! ?p) (h ! j)" if "0 < j" "j < length h" "parent j = i" for j
    using inv that i(1) unfolding ordered_but_up_def by blast
  have sib: "\<not> better (h ! i) (h ! j)" if "0 < j" "j < length h" "j \<noteq> i" "parent j = ?p" for j
    using not_better_trans[OF A(1) inA inA inA anti one[OF that(1-3), unfolded that(4)]] that p i by simp
  have "\<not> better (?h ! parent j) (?h ! j)" if j: "0 < j" "j < length h" "j \<noteq> ?p" for j
    using nth[of j] nth[of "parent j"] parent_less[OF j(1)] j anti one[of j] two[of j] sib[of j] by auto
  moreover have "\<not> better (?h ! parent ?p) (?h ! j)" if j: "0 < j" "j < length h" "parent j = ?p" "0 < ?p" for j
  proof -
    have g: "parent ?p < ?p" "?p < i" using parent_less j(4) i(1) by auto
    have up: "\<not> better (h ! parent ?p) (h ! ?p)" using one[OF j(4) p(1) p(2)] .
    have "\<not> better (h ! parent ?p) (h ! j)" if "j \<noteq> i"
      using not_better_trans[OF A(1) inA inA inA up one[OF j(1,2) that, unfolded j(3)]] j g p by simp
    then show ?thesis using nth[of j] nth[of "parent ?p"] up j g p parent_less[OF j(1)] by auto
  qed
  ultimately show ?thesis unfolding ordered_but_up_def by simp
qed

lemma sift_up_ok:
  assumes "strict_total_on A better" "set h \<subseteq> A" "ordered_but_up better h i" "i < length h"
  shows "heap_ordered better (hotSiftUp better h i) \<and> mset (hotSiftUp better h i) = mset h"
  using assms(2-4)
proof (induction i arbitrary: h rule: less_induct)
  case (less i)
  show ?case
  proof (cases "i = 0 \<or> \<not> better (h ! parent i) (h ! i)")
    case True
    then have "hotSiftUp better h i = h" by (subst hotSiftUp.simps) auto
    moreover have "heap_ordered better h" using True less.prems(2) unfolding heap_ordered_def ordered_but_up_def by blast
    ultimately show ?thesis by simp
  next
    case False
    then have i: "0 < i" "better (h ! parent i) (h ! i)" by auto
    then have p: "parent i < i" "parent i < length h" using parent_less less.prems(3) by (auto intro: less_trans)
    have "hotSiftUp better h i = hotSiftUp better (swap h (parent i) i) (parent i)" using i by (subst hotSiftUp.simps) auto
    moreover have "set (swap h (parent i) i) \<subseteq> A" using set_swap[OF p(2) less.prems(3)] less.prems(1) by simp
    ultimately show ?thesis
      using less.IH[OF p(1) _ sift_up_step[OF assms(1) less.prems(1,2) i(1) less.prems(3) i(2)]] p less.prems(3) by simp
  qed
qed

lemma children: "0 < j \<Longrightarrow> parent j = i \<longleftrightarrow> j = 2 * i + 1 \<or> j = 2 * i + 2"
  unfolding parent_def by presburger

lemma worst_of_ok:
  assumes "strict_total_on A better" "set h \<subseteq> A" "i < length h"
  shows "worst_of better h i \<noteq> i \<Longrightarrow> better (h ! i) (h ! worst_of better h i)"
    and "0 < j \<Longrightarrow> j < length h \<Longrightarrow> parent j = i \<Longrightarrow> \<not> better (h ! worst_of better h i) (h ! j)"
proof -
  have inA: "k < length h \<Longrightarrow> h ! k \<in> A" for k using assms(2) by auto
  note D = strict_total_onD[OF assms(1)]
  let ?l = "2 * i + 1" and ?r = "2 * i + 2"
  show "better (h ! i) (h ! worst_of better h i)" if "worst_of better h i \<noteq> i"
    using that D(2)[OF inA[OF assms(3)] inA[of ?l] inA[of ?r]] by (auto simp: worst_of_def Let_def split: if_split_asm)
  show "\<not> better (h ! worst_of better h i) (h ! j)" if j: "0 < j" "j < length h" "parent j = i"
  proof -
    have lr: "\<not> better (h ! ?r) (h ! ?l)" if "?r < length h" "better (h ! ?l) (h ! ?r) \<or> \<not> better (h ! i) (h ! ?l) \<and> better (h ! i) (h ! ?r)"
      using that D(2)[OF inA[OF assms(3)] inA[of ?r] inA[of ?l]] D(4)[OF inA[of ?l] inA[of ?r]] by auto
    have irr: "k < length h \<Longrightarrow> \<not> better (h ! k) (h ! k)" for k using D(1) inA by blast
    show ?thesis using j children[OF j(1), of i] lr irr[of j] by (auto simp: worst_of_def Let_def)
  qed
qed

lemma sift_down_step:
  assumes A: "strict_total_on A better" "set h \<subseteq> A" and inv: "ordered_but_down better h i"
    and i: "i < length h" and w: "worst_of better h i = w" "w \<noteq> i"
  shows "ordered_but_down better (swap h w i) w"
proof -
  let ?h = "swap h w i"
  have wi: "i < w" "w < length h" "parent w = i" using worst_of_progress[of better h i] w by auto
  have inA: "k < length h \<Longrightarrow> h ! k \<in> A" for k using A(2) by auto
  note nth = nth_swap[OF wi(2) i]
  have b: "better (h ! i) (h ! w)" using worst_of_ok(1)[OF A i] w by simp
  have anti: "\<not> better (h ! w) (h ! i)" using strict_total_onD(4)[OF A(1) inA[OF i] inA[OF wi(2)] b] .
  have kids: "\<not> better (h ! w) (h ! j)" if "0 < j" "j < length h" "parent j = i" for j
    using worst_of_ok(2)[OF A i that] w(1) by simp
  have one: "\<not> better (h ! parent j) (h ! j)" if "0 < j" "j < length h" "parent j \<noteq> i" for j
    using inv that unfolding ordered_but_down_def by blast
  have two: "\<not> better (h ! parent i) (h ! w)" if "0 < i"
    using inv that wi unfolding ordered_but_down_def by (metis gr_zeroI not_less_zero)
  have "\<not> better (?h ! parent j) (?h ! j)" if j: "0 < j" "j < length h" "parent j \<noteq> w" for j
    using nth[of j] nth[of "parent j"] parent_less[OF j(1)] j anti one[of j] two kids[of j] wi by auto
  moreover have "\<not> better (?h ! parent w) (?h ! j)" if j: "0 < j" "j < length h" "parent j = w" for j
    using nth[of j] nth[of i] parent_less[OF j(1)] j one[of j] wi i by auto
  ultimately show ?thesis unfolding ordered_but_down_def by simp
qed

lemma sift_down_ok:
  assumes "strict_total_on A better" "set h \<subseteq> A" "ordered_but_down better h i" "i < length h"
  shows "heap_ordered better (hotSiftDown better h i) \<and> mset (hotSiftDown better h i) = mset h"
  using assms(2-4)
proof (induction "length h - i" arbitrary: h i rule: less_induct)
  case less
  let ?w = "worst_of better h i"
  show ?case
  proof (cases "?w = i")
    case True
    then have "hotSiftDown better h i = h" by (subst hotSiftDown.simps) (simp add: Let_def)
    moreover have "heap_ordered better h"
      using less.prems(2) worst_of_ok(2)[OF assms(1) less.prems(1,3)] True
      unfolding heap_ordered_def ordered_but_down_def by simp metis
    ultimately show ?thesis by simp
  next
    case False
    note w = worst_of_progress[OF False]
    have "hotSiftDown better h i = hotSiftDown better (swap h ?w i) ?w"
      using False by (subst hotSiftDown.simps) (simp add: Let_def)
    moreover have "set (swap h ?w i) \<subseteq> A" using set_swap[of ?w h i] w less.prems(1,3) by simp
    ultimately show ?thesis
      using less.hyps[of "swap h ?w i" ?w] sift_down_step[OF assms(1) less.prems refl False] w less.prems(3)
      by (simp add: diff_less_mono2)
  qed
qed

lemma heap_root_worst:
  assumes "strict_total_on A better" "set h \<subseteq> A" "heap_ordered better h" "j < length h"
  shows "\<not> better (h ! 0) (h ! j)"
  using assms(4)
proof (induction j rule: less_induct)
  case (less j)
  have inA: "k < length h \<Longrightarrow> h ! k \<in> A" for k using assms(2) by auto
  show ?case
  proof (cases "j = 0")
    case True
    then show ?thesis using strict_total_onD(1)[OF assms(1) inA] less.prems by simp
  next
    case False
    then have p: "parent j < j" "parent j < length h" "0 < length h" using parent_less less.prems by (auto intro: less_trans)
    have "\<not> better (h ! parent j) (h ! j)" using assms(3) False less.prems unfolding heap_ordered_def by simp
    with less.IH[OF p(1,2)] show ?thesis using not_better_trans[OF assms(1) inA[OF p(3)] inA[OF p(2)] inA[OF less.prems]] by blast
  qed
qed


section \<open>Selecting the best\<close>

text \<open>After the candidates \<open>pre\<close> the heap holds the best of them.\<close>

definition selected :: "('a \<Rightarrow> 'a \<Rightarrow> bool) \<Rightarrow> nat \<Rightarrow> 'a set \<Rightarrow> 'a list \<Rightarrow> bool" where
  "selected better limit pre h \<longleftrightarrow> heap_ordered better h \<and> distinct h \<and> set h \<subseteq> pre \<and> length h = min limit (card pre)
    \<and> (\<forall>x \<in> pre - set h. \<forall>y \<in> set h. better y x)"

lemma selectedD:
  assumes "selected better limit pre h"
  shows "heap_ordered better h" "distinct h" "set h \<subseteq> pre" "length h = min limit (card pre)"
    and "x \<in> pre \<Longrightarrow> x \<notin> set h \<Longrightarrow> y \<in> set h \<Longrightarrow> better y x"
  using assms unfolding selected_def by blast+

lemma offer_selected:
  assumes A: "strict_total_on A better" "insert c pre \<subseteq> A" and fin: "finite pre" "c \<notin> pre" "0 < limit"
    and sel: "selected better limit pre h"
  shows "selected better limit (insert c pre) (heap_offer better limit c h)"
proof -
  note S = selectedD[OF sel]
  have hA: "set h \<subseteq> A" "c \<in> A" "c \<notin> set h" using S(3) A(2) fin(2) by auto
  have card: "card (insert c pre) = Suc (card pre)" using fin by simp
  show ?thesis
  proof (cases "length h < limit")
    case True
    then have len: "length h = card pre" using S(4) by simp
    then have all: "set h = pre" using S(2,3) fin(1) by (metis card_subset_eq distinct_card)
    have "\<not> better ((h @ [c]) ! parent j) ((h @ [c]) ! j)" if "0 < j" "j < length h" for j
      using S(1) that parent_less[OF that(1)] by (simp add: heap_ordered_def nth_append)
    moreover have "parent j \<noteq> length h" if "0 < j" "j < length (h @ [c])" for j
      using that parent_less[OF that(1)] by simp
    ultimately have "ordered_but_up better (h @ [c]) (length h)"
      unfolding ordered_but_up_def by (metis length_append_singleton less_Suc_eq)
    from sift_up_ok[OF A(1) _ this] hA
    have ok: "heap_ordered better (heap_offer better limit c h)" "mset (heap_offer better limit c h) = add_mset c (mset h)"
      using True by (simp_all add: heap_offer_def)
    then have "set (heap_offer better limit c h) = insert c pre" "length (heap_offer better limit c h) = Suc (length h)"
      using all by (metis set_mset_add_mset_insert set_mset_mset) (metis ok(2) size_add_mset size_mset)
    moreover have "distinct (heap_offer better limit c h)" using ok(2) S(2) hA(3)
      by (metis distinct.simps(2) mset.simps(2) mset_eq_imp_distinct_iff)
    ultimately show ?thesis using ok(1) len True unfolding selected_def card by simp
  next
    case False
    then have full: "length h = limit" using S(4) by simp
    then have ne: "h \<noteq> []" "h ! 0 \<in> set h" "limit \<le> card pre" using fin(3) S(4) by (auto simp: min_def split: if_split_asm)
    have root: "better y (h ! 0)" if "y \<in> set h" "y \<noteq> h ! 0" for y
    proof -
      obtain j where "j < length h" "y = h ! j" using \<open>y \<in> set h\<close> by (metis in_set_conv_nth)
      then have "\<not> better (h ! 0) y" using heap_root_worst[OF A(1) hA(1) S(1)] by simp
      then show ?thesis using strict_total_onD(3)[OF A(1)] that ne(2) hA(1) by blast
    qed
    show ?thesis
    proof (cases "better c (h ! 0)")
      case True
      let ?h = "h[0 := c]"
      have "ordered_but_down better ?h 0" using S(1) unfolding ordered_but_down_def heap_ordered_def
        by (auto simp: nth_list_update)
      moreover have "set ?h \<subseteq> A" using hA set_update_subset_insert[of h 0 c] by blast
      ultimately have ok: "heap_ordered better (heap_offer better limit c h)" "mset (heap_offer better limit c h) = mset ?h"
        using sift_down_ok[OF A(1), of ?h 0] True False ne(1) by (simp_all add: heap_offer_def)
      obtain x xs where h: "h = x # xs" using ne(1) by (cases h) auto
      have set': "set (heap_offer better limit c h) = insert c (set xs)" using ok(2) h by (metis list.simps(15) list_update_code(2) set_mset_mset)
      have "distinct (heap_offer better limit c h)" using ok(2) S(2) hA(3) h
        by (metis distinct.simps(2) list.set_intros(2) list_update_code(2) mset_eq_imp_distinct_iff)
      moreover have "length (heap_offer better limit c h) = limit" using ok(2) full by (metis length_list_update size_mset)
      moreover have "better y z" if z: "z \<in> insert c pre" "z \<notin> insert c (set xs)" and y: "y \<in> insert c (set xs)" for y z
      proof (cases "z = x")
        case zx: True
        then show ?thesis using y True root[of y] S(2) h by auto
      next
        case zx: False
        then have z': "z \<in> pre" "z \<notin> set h" using z h by auto
        have xz: "better x z" using S(5)[OF z', of x] h by simp
        show ?thesis
        proof (cases "y = c")
          case yc: True
          have "c \<in> A" "x \<in> A" "z \<in> A" using hA z' h A(2) by auto
          then show ?thesis using strict_total_onD(2)[OF A(1), of c x z] True xz h yc by simp
        next
          case False
          then show ?thesis using S(5)[OF z', of y] y h by simp
        qed
      qed
      moreover have "insert c (set xs) \<subseteq> insert c pre" using S(3) h by auto
      ultimately show ?thesis using ok(1) ne(3) unfolding selected_def card set' by auto
    next
      case nb: False
      then have same: "heap_offer better limit c h = h" using False by (simp add: heap_offer_def)
      have "better (h ! 0) c" using strict_total_onD(3)[OF A(1), of "h ! 0" c] nb ne(2) hA by auto
      then have "better y c" if "y \<in> set h" for y
        using root[OF that] strict_total_onD(2)[OF A(1), of y "h ! 0" c] that ne(2) hA by blast
      then show ?thesis using S ne(3) full unfolding selected_def card same by auto
    qed
  qed
qed

lemma fold_selected:
  assumes "strict_total_on A better" "pre \<union> set arr \<subseteq> A" "distinct arr" "pre \<inter> set arr = {}" "finite pre" "0 < limit"
    and "selected better limit pre h"
  shows "selected better limit (pre \<union> set arr) (fold (heap_offer better limit) arr h)"
  using assms(2-)
proof (induction arr arbitrary: pre h)
  case (Cons c arr)
  have "selected better limit (insert c pre) (heap_offer better limit c h)"
    using offer_selected[OF assms(1) _ Cons.prems(4) _ Cons.prems(5,6)] Cons.prems(1,3) by auto
  then show ?case using Cons.IH[of "insert c pre" "heap_offer better limit c h"] Cons.prems by simp
qed simp

lemma selected_is_top:
  assumes "strict_total_on (set arr) better" "distinct arr" "limit \<le> length arr" "selected better limit (set arr) h"
  shows "sort_slice better h = take limit (sort_slice better arr)"
proof -
  note S = selectedD[OF assms(4)]
  let ?rest = "filter (\<lambda>x. x \<notin> set h) arr"
  have sub: "strict_total_on (set h) better" "strict_total_on (set ?rest) better"
    using strict_total_on_subset[OF assms(1)] S(3) by auto
  have "distinct (h @ ?rest)" "set (h @ ?rest) = set arr" using S(2,3) assms(2) by auto
  then have m: "mset (sort_slice better h @ sort_slice better ?rest) = mset (sort_slice better arr)"
    using assms(2) set_eq_iff_mset_eq_distinct[of "h @ ?rest" arr] by (simp del: mset_filter)
  have "sorted_wrt better (sort_slice better h @ sort_slice better ?rest)"
    using sorted_sort_slice[OF sub(1) S(2)] sorted_sort_slice[OF sub(2)] assms(2) S(5) by (auto simp: sorted_wrt_append)
  from sorted_unique_list[OF assms(1) _ m this sorted_sort_slice[OF assms(1,2)]] S(3)
  have "sort_slice better arr = sort_slice better h @ sort_slice better ?rest" by auto
  moreover have "length (sort_slice better h) = limit"
    using S(4) assms(2,3) by (metis distinct_card min.absorb1 mset_sort_slice size_mset)
  ultimately show ?thesis by simp
qed

lemma length_sort_slice [simp]: "length (sort_slice better xs) = length xs"
  by (metis mset_sort_slice size_mset)

lemma heap_selection:
  assumes "strict_total_on (set arr) better" "distinct arr" "0 < limit" "limit \<le> length arr"
  shows "sort_slice better (fold (heap_offer better limit) arr []) = take limit (sort_slice better arr)"
proof -
  have "selected better limit {} []" by (simp add: selected_def heap_ordered_def)
  from fold_selected[OF assms(1) _ assms(2) _ _ assms(3) this]
  show ?thesis using selected_is_top[OF assms(1,2,4)] by simp
qed

text \<open>The score comparison is a total preorder with NaN last.\<close>

lemmas compare_defs = hotScoreCompare_def isNaN_def float_less_def

lemma compare_flip: "hotScoreCompare y x = - hotScoreCompare x y"
  by (cases x; cases y) (auto simp: compare_defs)

lemma compare_trans:
  "0 < hotScoreCompare x y \<Longrightarrow> 0 \<le> hotScoreCompare y z \<Longrightarrow> 0 < hotScoreCompare x z"
  "0 \<le> hotScoreCompare x y \<Longrightarrow> 0 < hotScoreCompare y z \<Longrightarrow> 0 < hotScoreCompare x z"
  "hotScoreCompare x y = 0 \<Longrightarrow> hotScoreCompare y z = 0 \<Longrightarrow> hotScoreCompare x z = 0"
  by (cases x; cases y; cases z; auto simp: compare_defs split: if_split_asm)+

lemma search_better_iff: "search_better chunk_id a b \<longleftrightarrow> 0 < hotScoreCompare (hs_s a) (hs_s b)
    \<or> hotScoreCompare (hs_s a) (hs_s b) = 0 \<and> chunk_id (hs_i a) < chunk_id (hs_i b)"
  by (auto simp: search_better_def Let_def)

lemma search_better_total:
  assumes "inj_on (chunk_id \<circ> hs_i) C"
  shows "strict_total_on C (search_better chunk_id)"
  unfolding strict_total_on_def
proof (intro conjI ballI impI)
  fix x y z assume "search_better chunk_id x y" "search_better chunk_id y z"
  then show "search_better chunk_id x z" unfolding search_better_iff
    using compare_trans[of "hs_s x" "hs_s y" "hs_s z"] by auto
next
  fix x y assume xy: "x \<in> C" "y \<in> C" "x \<noteq> y"
  then have "chunk_id (hs_i x) \<noteq> chunk_id (hs_i y)" using inj_onD[OF assms, of x y] by auto
  then show "search_better chunk_id x y \<or> search_better chunk_id y x"
    unfolding search_better_iff using compare_flip[of "hs_s y" "hs_s x"] by auto
next
  fix x assume "x \<in> C"
  then show "\<not> search_better chunk_id x x"
    unfolding search_better_iff using compare_flip[of "hs_s x" "hs_s x"] by auto
qed

lemma hotTopK_prefix:
  assumes "strict_total_on (set arr) better" "distinct arr"
  shows "hotTopK better limit arr = take (nat limit) (sort_slice better arr)"
  using heap_selection[OF assms, of "nat limit"] by (auto simp: hotTopK_def)

definition candidate :: "nat \<times> 'f float64 \<Rightarrow> 'f hotScored" where
  "candidate = (\<lambda>(i, score). \<lparr>hs_i = i, hs_s = score\<rparr>)"

lemma hotTopKMap_alt: "hotTopKMap better limit scores = hotTopK better limit (map candidate scores)"
  by (simp add: hotTopKMap_def hotTopK_def candidate_def)

lemma inj_candidate: "inj candidate"
  by (auto simp: inj_def candidate_def)

lemma candidates_ordered:
  assumes "distinct (map fst scores)" "inj_on chunk_id (fst ` set scores)"
  shows "strict_total_on (set (map candidate scores)) (search_better chunk_id)" "distinct (map candidate scores)"
proof -
  have "distinct (map (chunk_id \<circ> fst) scores)" using assms by (simp add: distinct_map comp_inj_on)
  moreover have "map (chunk_id \<circ> hs_i) (map candidate scores) = map (chunk_id \<circ> fst) scores"
    by (simp add: candidate_def split_beta)
  ultimately have d: "distinct (map (chunk_id \<circ> hs_i) (map candidate scores))" by (simp only:)
  then show "strict_total_on (set (map candidate scores)) (search_better chunk_id)"
    using search_better_total by (metis distinct_map)
  show "distinct (map candidate scores)" using d unfolding distinct_map[of "chunk_id \<circ> hs_i"] by blast
qed


section \<open>Properties\<close>

text \<open>C13.  Bounded selection is the full ranking cut off.  For scored documents with
  distinct chunk ids and any limit, the heap selection returns exactly the first entries
  of the fully sorted candidates (score down with NaN last, then chunk id up), and the
  result does not depend on the order in which the score map is enumerated.\<close>

theorem top_k_is_full_sort_prefix:
  assumes "distinct (map fst scores)" "inj_on chunk_id (fst ` set scores)" "mset scores' = mset scores"
  shows "hotTopKMap (search_better chunk_id) limit scores
      = take (nat limit) (sort_slice (search_better chunk_id) (map candidate scores))
    \<and> sorted_wrt (search_better chunk_id) (hotTopKMap (search_better chunk_id) limit scores)
    \<and> hotTopKMap (search_better chunk_id) limit scores' = hotTopKMap (search_better chunk_id) limit scores"
proof -
  note c = candidates_ordered[OF assms(1,2)]
  have "distinct (map fst scores')" "set scores' = set scores"
    using assms(1,3) by (metis mset_eq_imp_distinct_iff mset_map) (metis assms(3) set_mset_mset)
  note c' = candidates_ordered[OF this(1), of chunk_id, unfolded this(2), OF assms(2)]
  have s: "sorted_wrt (search_better chunk_id) (sort_slice (search_better chunk_id) (map candidate scores))"
    by (rule sorted_sort_slice[OF c])
  have "sort_slice (search_better chunk_id) (map candidate scores') = sort_slice (search_better chunk_id) (map candidate scores)"
    by (rule sorted_unique_list[OF c'(1) _ _ sorted_sort_slice[OF c'] s]) (simp_all add: assms(3))
  then show ?thesis using hotTopK_prefix[OF c] hotTopK_prefix[OF c'] s
    by (simp add: hotTopKMap_alt sorted_wrt_take)
qed

theorem top_k_is_full_sort_prefix_witness:
  "map hs_i (hotTopKMap (search_better (\<lambda>i. replicate i CHR ''a'')) 2
      [(1, Num (3::nat)), (2, NaN), (3, Num 5), (4, Num 3), (5, Num 1)]) = [3, 1]"
proof -
  have "inj_on (\<lambda>i. replicate i CHR ''a'') A" for A by (rule inj_onI) (metis length_replicate)
  from top_k_is_full_sort_prefix[OF _ this refl, of "[(1, Num (3::nat)), (2, NaN), (3, Num 5), (4, Num 3), (5, Num 1)]" 2]
  moreover have "\<not> replicate 4 CHR ''a'' < ''a''" by (simp add: eval_nat_numeral)
  ultimately show ?thesis by (simp add: candidate_def sort_slice_def search_better_iff compare_defs)
qed

end
