(* ===== verification/Source_Delta.thy ===== *)
theory Source_Delta
  imports Go_Maps
begin

text \<open>
  The difference between two source snapshots
  (\<^verbatim>\<open>services/brain/internal/ingestion/delta.go\<close>, with the records of \<^verbatim>\<open>types.go\<close>).

  \<open>deriveDelta\<close> merges two path-sorted file lists into removed, added and modified files and
  pairs removed with added files of equal blob and mode into renames.  The context is a
  function from the number of earlier polls to whether it is still live, so it may be
  cancelled at any poll.
\<close>

section \<open>Revisions and changes\<close>

datatype EntryKind = EntryFile | EntrySymlink

record FileRevision =
  fr_Path :: string
  fr_PathDigest :: string
  fr_Kind :: EntryKind
  fr_Mode :: string
  fr_SizeBytes :: int
  fr_BlobOID :: string
  fr_ContentDigest :: string
  fr_RevisionID :: string

datatype ChangeKind = ChangeAdd | ChangeModify | ChangeRename | ChangeDelete

record Change =
  ch_Kind :: ChangeKind
  ch_OldPath :: string
  ch_NewPath :: string
  ch_OldID :: string
  ch_NewID :: string

definition renameKey :: "FileRevision \<Rightarrow> string \<times> string" where
  "renameKey f = (fr_BlobOID f, fr_Mode f)"

definition modify_change :: "FileRevision \<Rightarrow> FileRevision \<Rightarrow> Change" where
  "modify_change oldFile newFile = \<lparr>ch_Kind = ChangeModify, ch_OldPath = fr_Path oldFile, ch_NewPath = fr_Path newFile,
     ch_OldID = fr_RevisionID oldFile, ch_NewID = fr_RevisionID newFile\<rparr>"

definition rename_change :: "FileRevision \<Rightarrow> FileRevision \<Rightarrow> Change" where
  "rename_change oldFile newFile = \<lparr>ch_Kind = ChangeRename, ch_OldPath = fr_Path oldFile, ch_NewPath = fr_Path newFile,
     ch_OldID = fr_RevisionID oldFile, ch_NewID = fr_RevisionID newFile\<rparr>"

definition delete_change :: "FileRevision \<Rightarrow> Change" where
  "delete_change oldFile = \<lparr>ch_Kind = ChangeDelete, ch_OldPath = fr_Path oldFile, ch_NewPath = [],
     ch_OldID = fr_RevisionID oldFile, ch_NewID = []\<rparr>"

definition add_change :: "FileRevision \<Rightarrow> Change" where
  "add_change newFile = \<lparr>ch_Kind = ChangeAdd, ch_OldPath = [], ch_NewPath = fr_Path newFile,
     ch_OldID = [], ch_NewID = fr_RevisionID newFile\<rparr>"


section \<open>Deriving the delta\<close>

text \<open>The number of polls afterwards, or cancelled.\<close>

definition checkDeltaContext :: "(nat \<Rightarrow> bool) \<Rightarrow> nat \<Rightarrow> nat \<Rightarrow> nat option" where
  "checkDeltaContext live index n =
    (if index mod 256 \<noteq> 0 then Some n else if live n then Some (Suc n) else None)"

text \<open>The merge, with the sum of both indices: removed, added and modified files.\<close>

type_synonym merged = "FileRevision list \<times> FileRevision list \<times> Change list \<times> nat"

fun merge_files :: "(nat \<Rightarrow> bool) \<Rightarrow> nat \<Rightarrow> nat \<Rightarrow> FileRevision list \<Rightarrow> FileRevision list \<Rightarrow> merged option" where
  "merge_files live index n [] [] = Some ([], [], [], n)"
| "merge_files live index n [] (newFile # next) =
    (case checkDeltaContext live index n of
       None \<Rightarrow> None
     | Some n' \<Rightarrow> map_option (\<lambda>(removed, added, modified, n). (removed, newFile # added, modified, n))
                   (merge_files live (index + 1) n' [] next))"
| "merge_files live index n (oldFile # previous) [] =
    (case checkDeltaContext live index n of
       None \<Rightarrow> None
     | Some n' \<Rightarrow> map_option (\<lambda>(removed, added, modified, n). (oldFile # removed, added, modified, n))
                   (merge_files live (index + 1) n' previous []))"
| "merge_files live index n (oldFile # previous) (newFile # next) =
    (case checkDeltaContext live index n of
       None \<Rightarrow> None
     | Some n' \<Rightarrow>
         if fr_Path oldFile < fr_Path newFile then
           map_option (\<lambda>(removed, added, modified, n). (oldFile # removed, added, modified, n))
             (merge_files live (index + 1) n' previous (newFile # next))
         else if fr_Path oldFile > fr_Path newFile then
           map_option (\<lambda>(removed, added, modified, n). (removed, newFile # added, modified, n))
             (merge_files live (index + 1) n' (oldFile # previous) next)
         else
           map_option (\<lambda>(removed, added, modified, n). (removed, added,
               if fr_RevisionID oldFile \<noteq> fr_RevisionID newFile then modify_change oldFile newFile # modified else modified, n))
             (merge_files live (index + 2) n' previous next))"

fun group_added :: "(nat \<Rightarrow> bool) \<Rightarrow> nat \<Rightarrow> nat \<Rightarrow> FileRevision list \<Rightarrow> (string \<times> string, nat list) gomap
    \<Rightarrow> ((string \<times> string, nat list) gomap \<times> nat) option" where
  "group_added live index n [] m = Some (m, n)"
| "group_added live index n (file # added) m =
    (case checkDeltaContext live index n of
       None \<Rightarrow> None
     | Some n' \<Rightarrow> group_added live (index + 1) n' added (mput (renameKey file) (mget0 [] m (renameKey file) @ [index]) m))"

text \<open>The pairing: renamed, deleted and the marked additions.\<close>

type_synonym paired = "Change list \<times> Change list \<times> bool list \<times> nat"

fun pair_removed :: "(nat \<Rightarrow> bool) \<Rightarrow> (string \<times> string, nat list) gomap \<Rightarrow> FileRevision list \<Rightarrow> nat \<Rightarrow> nat
    \<Rightarrow> (string \<times> string, nat) gomap \<Rightarrow> bool list \<Rightarrow> FileRevision list \<Rightarrow> paired option" where
  "pair_removed live addedByContent added index n nextByContent usedAdds [] = Some ([], [], usedAdds, n)"
| "pair_removed live addedByContent added index n nextByContent usedAdds (oldFile # removed) =
    (case checkDeltaContext live index n of
       None \<Rightarrow> None
     | Some n' \<Rightarrow>
         (let key = renameKey oldFile;
              candidates = mget0 [] addedByContent key;
              candidateIndex = mget0 0 nextByContent key
          in if candidateIndex < length candidates then
               (let addedIndex = candidates ! candidateIndex
                in map_option (\<lambda>(renamed, deleted, used, n). (rename_change oldFile (added ! addedIndex) # renamed, deleted, used, n))
                     (pair_removed live addedByContent added (index + 1) n' (mput key (candidateIndex + 1) nextByContent)
                        (usedAdds[addedIndex := True]) removed))
             else map_option (\<lambda>(renamed, deleted, used, n). (renamed, delete_change oldFile # deleted, used, n))
                    (pair_removed live addedByContent added (index + 1) n' nextByContent usedAdds removed)))"

fun collect_adds :: "(nat \<Rightarrow> bool) \<Rightarrow> nat \<Rightarrow> nat \<Rightarrow> bool list \<Rightarrow> FileRevision list \<Rightarrow> (Change list \<times> nat) option" where
  "collect_adds live index n usedAdds [] = Some ([], n)"
| "collect_adds live index n usedAdds (newFile # added) =
    (case checkDeltaContext live index n of
       None \<Rightarrow> None
     | Some n' \<Rightarrow> map_option (\<lambda>(changes, n). (if usedAdds ! index then changes else add_change newFile # changes, n))
                   (collect_adds live (index + 1) n' usedAdds added))"

definition deriveDelta :: "(nat \<Rightarrow> bool) \<Rightarrow> FileRevision list \<Rightarrow> FileRevision list \<Rightarrow> Change list option" where
  "deriveDelta live previous next =
    (case merge_files live 0 0 previous next of
       None \<Rightarrow> None
     | Some (removed, added, modified, n1) \<Rightarrow>
    (case group_added live 0 n1 added [] of
       None \<Rightarrow> None
     | Some (addedByContent, n2) \<Rightarrow>
    (case pair_removed live addedByContent added 0 n2 [] (replicate (length added) False) removed of
       None \<Rightarrow> None
     | Some (renamed, deleted, usedAdds, n3) \<Rightarrow>
    (case collect_adds live 0 n3 usedAdds added of
       None \<Rightarrow> None
     | Some (changes, n4) \<Rightarrow>
         if live n4 then Some (changes @ deleted @ modified @ renamed) else None))))"

definition equalFiles :: "FileRevision list \<Rightarrow> FileRevision list \<Rightarrow> bool" where
  "equalFiles left right \<longleftrightarrow> length left = length right \<and> list_all2 (=) left right"


section \<open>What a delta means\<close>

text \<open>A snapshot as the revision of each path.\<close>

definition revisions :: "FileRevision list \<Rightarrow> string \<Rightarrow> string option" where
  "revisions fs = map_of (map (\<lambda>f. (fr_Path f, fr_RevisionID f)) fs)"

text \<open>The entries a change moves: path, revision before, revision after.\<close>

definition moves :: "Change \<Rightarrow> (string \<times> string option \<times> string option) list" where
  "moves c = (case ch_Kind c of
      ChangeAdd \<Rightarrow> [(ch_NewPath c, None, Some (ch_NewID c))]
    | ChangeDelete \<Rightarrow> [(ch_OldPath c, Some (ch_OldID c), None)]
    | ChangeModify \<Rightarrow> [(ch_OldPath c, Some (ch_OldID c), Some (ch_NewID c))]
    | ChangeRename \<Rightarrow> [(ch_OldPath c, Some (ch_OldID c), None), (ch_NewPath c, None, Some (ch_NewID c))])"

fun apply_moves :: "(string \<times> string option \<times> string option) list \<Rightarrow> (string \<Rightarrow> string option) \<Rightarrow> (string \<Rightarrow> string option) option" where
  "apply_moves [] m = Some m"
| "apply_moves ((p, before, after) # es) m = (if m p = before then apply_moves es (m(p := after)) else None)"

text \<open>Replaying a delta fails when a path is not in the state the change says.\<close>

definition replay_delta :: "Change list \<Rightarrow> (string \<Rightarrow> string option) \<Rightarrow> (string \<Rightarrow> string option) option" where
  "replay_delta cs = apply_moves (concat (map moves cs))"

definition path_sorted :: "FileRevision list \<Rightarrow> bool" where
  "path_sorted fs \<longleftrightarrow> sorted_wrt (<) (map fr_Path fs)"

definition gone_move :: "FileRevision \<Rightarrow> string \<times> string option \<times> string option" where
  "gone_move f = (fr_Path f, Some (fr_RevisionID f), None)"

definition new_move :: "FileRevision \<Rightarrow> string \<times> string option \<times> string option" where
  "new_move f = (fr_Path f, None, Some (fr_RevisionID f))"

lemma moves_simps [simp]:
  "moves (add_change f) = [new_move f]"
  "moves (delete_change f) = [gone_move f]"
  "moves (modify_change f g) = [(fr_Path f, Some (fr_RevisionID f), Some (fr_RevisionID g))]"
  "moves (rename_change f g) = [gone_move f, new_move g]"
  by (simp_all add: moves_def add_change_def delete_change_def modify_change_def rename_change_def gone_move_def new_move_def)

lemma apply_moves_distinct:
  assumes "distinct (map fst es)" "\<forall>(p, a, b) \<in> set es. m p = a"
  shows "apply_moves es m = Some (\<lambda>p. case map_of es p of None \<Rightarrow> m p | Some (a, b) \<Rightarrow> b)"
  using assms
proof (induction es arbitrary: m)
  case (Cons e es)
  obtain p a b where e: "e = (p, a, b)" by (cases e)
  have "\<forall>(q, c, d) \<in> set es. (m(p := b)) q = c" using Cons.prems by (force simp: e)
  then have "apply_moves es (m(p := b)) = Some (\<lambda>q. case map_of es q of None \<Rightarrow> (m(p := b)) q | Some (a, b) \<Rightarrow> b)"
    using Cons.prems(1) by (intro Cons.IH) simp_all
  moreover have "map_of es p = None" using Cons.prems(1) by (simp add: e map_of_eq_None_iff)
  ultimately show ?case using Cons.prems(2) by (auto simp: e fun_eq_iff split: option.split)
qed simp

text \<open>A delta whose moves are exactly the paths on which two snapshots differ.\<close>

lemma replay_exact:
  assumes "distinct (map fst (concat (map moves cs)))"
    and "set (concat (map moves cs)) = {(p, R p, S p) | p. R p \<noteq> S p}"
  shows "replay_delta cs R = Some S"
proof -
  let ?es = "concat (map moves cs)"
  have "replay_delta cs R = Some (\<lambda>p. case map_of ?es p of None \<Rightarrow> R p | Some (a, b) \<Rightarrow> b)"
    unfolding replay_delta_def using assms by (intro apply_moves_distinct) auto
  moreover have "(case map_of ?es p of None \<Rightarrow> R p | Some (a, b) \<Rightarrow> b) = S p" for p
  proof (cases "map_of ?es p")
    case None
    then have "p \<notin> fst ` set ?es" by (simp add: map_of_eq_None_iff)
    then have "R p = S p" unfolding assms(2) by force
    then show ?thesis using None by simp
  next
    case (Some ab)
    then have "(p, ab) \<in> set ?es" by (rule map_of_SomeD)
    then show ?thesis using Some unfolding assms(2) by auto
  qed
  ultimately show ?thesis by simp
qed


section \<open>The merge finds the differences\<close>

text \<open>While the context is live every poll succeeds.\<close>

lemma check_live: "checkDeltaContext (\<lambda>_. True) index n = Some (if index mod 256 \<noteq> 0 then n else Suc n)"
  by (simp add: checkDeltaContext_def)

lemma path_sorted_Cons:
  "path_sorted (f # fs) \<longleftrightarrow> path_sorted fs \<and> (\<forall>g \<in> set fs. fr_Path f < fr_Path g)"
  by (auto simp: path_sorted_def)

lemma path_sorted_distinct: "path_sorted fs \<Longrightarrow> distinct (map fr_Path fs)"
  unfolding path_sorted_def by (induction fs) auto

definition absent_in :: "FileRevision list \<Rightarrow> FileRevision \<Rightarrow> bool" where
  "absent_in fs f \<longleftrightarrow> fr_Path f \<notin> fr_Path ` set fs"

text \<open>The moves of the modifications.\<close>

definition changed_moves :: "FileRevision list \<Rightarrow> FileRevision list \<Rightarrow> (string \<times> string option \<times> string option) set" where
  "changed_moves previous next = {(fr_Path f, Some (fr_RevisionID f), Some (fr_RevisionID g)) | f g.
     f \<in> set previous \<and> g \<in> set next \<and> fr_Path f = fr_Path g \<and> fr_RevisionID f \<noteq> fr_RevisionID g}"

lemma filter_absent_drop:
  assumes "\<forall>f \<in> set fs. fr_Path g < fr_Path f"
  shows "filter (absent_in (g # gs)) fs = filter (absent_in gs) fs"
  using assms by (intro filter_cong) (auto simp: absent_in_def)

lemma merge_live:
  assumes "path_sorted previous" "path_sorted next"
  shows "\<exists>modified n'. merge_files (\<lambda>_. True) index n previous next
      = Some (filter (absent_in next) previous, filter (absent_in previous) next, modified, n')
    \<and> set (concat (map moves modified)) = changed_moves previous next
    \<and> distinct (map fst (concat (map moves modified)))"
  using assms
proof (induction "\<lambda>_::nat. True" index n previous "next" rule: merge_files.induct)
  case (1 index n)
  then show ?case by (simp add: changed_moves_def)
next
  case (2 index n newFile nexts)
  then show ?case by (auto simp: check_live path_sorted_Cons changed_moves_def absent_in_def)
next
  case (3 index n oldFile previous)
  then show ?case by (auto simp: check_live path_sorted_Cons changed_moves_def absent_in_def)
next
  case (4 index n oldFile previous newFile nexts)
  let ?n = "if index mod 256 \<noteq> 0 then n else Suc n"
  have old: "\<forall>f \<in> set previous. fr_Path oldFile < fr_Path f" "path_sorted previous"
    and new: "\<forall>f \<in> set nexts. fr_Path newFile < fr_Path f" "path_sorted nexts"
    using "4.prems" by (simp_all add: path_sorted_Cons)
  consider (less) "fr_Path oldFile < fr_Path newFile" | (greater) "fr_Path newFile < fr_Path oldFile"
    | (same) "fr_Path oldFile = fr_Path newFile" by (rule linorder_less_linear[THEN disjE]) auto
  then show ?case
  proof cases
    case less
    have all: "\<forall>f \<in> set (newFile # nexts). fr_Path oldFile < fr_Path f" using less new by auto
    have "changed_moves (oldFile # previous) (newFile # nexts) = changed_moves previous (newFile # nexts)"
      using all by (fastforce simp: changed_moves_def)
    moreover have "absent_in (newFile # nexts) oldFile" using all by (force simp: absent_in_def)
    moreover note filter_absent_drop[OF all, of previous]
    ultimately show ?thesis using "4.hyps"(1)[OF check_live less old(2) "4.prems"(2)] less by (auto simp: check_live)
  next
    case greater
    have all: "\<forall>f \<in> set (oldFile # previous). fr_Path newFile < fr_Path f" using greater old by auto
    have ch: "changed_moves (oldFile # previous) (newFile # nexts) = changed_moves (oldFile # previous) nexts"
      using all by (fastforce simp: changed_moves_def)
    have a: "absent_in (oldFile # previous) newFile" using all by (force simp: absent_in_def)
    have ng: "\<not> fr_Path oldFile < fr_Path newFile" using greater by simp
    from "4.hyps"(2)[OF check_live ng greater "4.prems"(1) new(2)]
    obtain modified n' where m: "merge_files (\<lambda>_. True) (index + 1) ?n (oldFile # previous) nexts =
        Some (filter (absent_in nexts) (oldFile # previous), filter (absent_in (oldFile # previous)) nexts, modified, n')"
      "set (concat (map moves modified)) = changed_moves (oldFile # previous) nexts"
      "distinct (map fst (concat (map moves modified)))" by auto
    have r: "merge_files (\<lambda>_. True) index n (oldFile # previous) (newFile # nexts) =
        Some (filter (absent_in nexts) (oldFile # previous), newFile # filter (absent_in (oldFile # previous)) nexts, modified, n')"
      using m(1) ng greater by (simp add: check_live del: filter.simps)
    have f1: "filter (absent_in (newFile # nexts)) (oldFile # previous) = filter (absent_in nexts) (oldFile # previous)"
      by (rule filter_absent_drop[OF all])
    have f2: "filter (absent_in (oldFile # previous)) (newFile # nexts) = newFile # filter (absent_in (oldFile # previous)) nexts"
      using a by (simp only: filter.simps if_True)
    show ?thesis unfolding f1 f2 ch
      by (rule exI[of _ modified], rule exI[of _ n'], intro conjI) (rule r, rule m(2), rule m(3))
  next
    case same
    have ne: "\<forall>g \<in> set nexts. fr_Path g \<noteq> fr_Path newFile" "\<forall>f \<in> set previous. fr_Path f \<noteq> fr_Path newFile"
      using old(1) new(1) same by auto
    have ch: "changed_moves (oldFile # previous) (newFile # nexts) = changed_moves previous nexts \<union>
        (if fr_RevisionID oldFile \<noteq> fr_RevisionID newFile
         then {(fr_Path oldFile, Some (fr_RevisionID oldFile), Some (fr_RevisionID newFile))} else {})"
      using ne same by (auto simp: changed_moves_def) (rule exI[of _ oldFile], auto)
    have fresh: "fr_Path oldFile \<notin> fst ` changed_moves previous nexts" using ne(2) same by (auto simp: changed_moves_def)
    have f: "filter (absent_in (newFile # nexts)) previous = filter (absent_in nexts) previous"
      "filter (absent_in (oldFile # previous)) nexts = filter (absent_in previous) nexts"
      using old(1) new(1) same by (simp_all add: filter_absent_drop)
    have a: "\<not> absent_in (newFile # nexts) oldFile" "\<not> absent_in (oldFile # previous) newFile" using same by (simp_all add: absent_in_def)
    from "4.hyps"(3)[OF check_live _ _ old(2) new(2)] same
    obtain modified n' where m: "merge_files (\<lambda>_. True) (index + 2) ?n previous nexts =
        Some (filter (absent_in nexts) previous, filter (absent_in previous) nexts, modified, n')"
      "set (concat (map moves modified)) = changed_moves previous nexts" "distinct (map fst (concat (map moves modified)))" by auto
    have "fr_Path oldFile \<notin> set (map fst (concat (map moves modified)))" using fresh m(2) by (metis set_map)
    then show ?thesis using m same by (auto simp: check_live a f ch)
  qed
qed


section \<open>The pairing\<close>

lemma group_live:
  "\<exists>n'. group_added (\<lambda>_. True) index n added m = Some (fst (the (group_added (\<lambda>_. True) index n added m)), n')"
  by (induction added arbitrary: index n m) (simp_all add: check_live)

text \<open>The candidates of a key are the indices of its additions, in order.\<close>

lemma group_candidates:
  assumes "group_added (\<lambda>_. True) index n added m = Some (m', n')"
  shows "mget0 [] m' k = mget0 [] m k @ filter (\<lambda>i. renameKey (added ! (i - index)) = k) [index ..< index + length added]"
  using assms
proof (induction added arbitrary: index n m)
  case (Cons f added)
  let ?m = "mput (renameKey f) (mget0 [] m (renameKey f) @ [index]) m"
  have "mget0 [] m' k = mget0 [] ?m k @ filter (\<lambda>i. renameKey (added ! (i - Suc index)) = k) [Suc index ..< Suc index + length added]"
    using Cons.prems by (intro Cons.IH) (simp add: check_live)
  moreover have "filter (\<lambda>i. renameKey ((f # added) ! (i - index)) = k) [Suc index ..< Suc index + length added]
      = filter (\<lambda>i. renameKey (added ! (i - Suc index)) = k) [Suc index ..< Suc index + length added]"
    by (intro filter_cong) (auto simp: nth_Cons' diff_Suc_eq_diff_pred simp flip: One_nat_def intro: arg_cong)
  moreover have "[index ..< index + length (f # added)] = index # [Suc index ..< Suc index + length added]"
    by (simp add: upt_conv_Cons del: upt_Suc)
  ultimately show ?case by (auto simp del: upt_Suc)
qed simp

text \<open>The moves of the additions marked as used.\<close>

definition used_moves :: "FileRevision list \<Rightarrow> bool list \<Rightarrow> (string \<times> string option \<times> string option) multiset" where
  "used_moves added used = mset (map (\<lambda>i. new_move (added ! i)) (filter (\<lambda>i. used ! i) [0 ..< length added]))"

lemma used_moves_mark:
  assumes "i < length added" "length used = length added" "\<not> used ! i"
  shows "used_moves added (used[i := True]) = add_mset (new_move (added ! i)) (used_moves added used)"
proof -
  have "[0 ..< length added] = [0 ..< i] @ i # [Suc i ..< length added]"
    using assms(1) upt_add_eq_append[of 0 i "length added - i"] by (simp add: upt_conv_Cons)
  moreover have "filter (\<lambda>j. used[i := True] ! j) [0 ..< i] = filter ((!) used) [0 ..< i]"
    "filter (\<lambda>j. used[i := True] ! j) [Suc i ..< length added] = filter ((!) used) [Suc i ..< length added]"
    by (auto intro!: filter_cong)
  ultimately show ?thesis using assms by (simp add: used_moves_def)
qed

definition free_candidates :: "(string \<times> string, nat list) gomap \<Rightarrow> (string \<times> string, nat) gomap \<Rightarrow> bool list \<Rightarrow> bool" where
  "free_candidates abc nbc used \<longleftrightarrow> (\<forall>k j. mget0 0 nbc k \<le> j \<and> j < length (mget0 [] abc k) \<longrightarrow> \<not> used ! (mget0 [] abc k ! j))"

lemma pair_live:
  assumes cand: "\<And>k. mget0 [] abc k = filter (\<lambda>i. renameKey (added ! i) = k) [0 ..< length added]"
    and "free_candidates abc nbc used" "length used = length added"
  shows "\<exists>renamed deleted used' n'. pair_removed (\<lambda>_. True) abc added index n nbc used removed = Some (renamed, deleted, used', n')
    \<and> length used' = length added
    \<and> mset (concat (map moves renamed)) + mset (concat (map moves deleted)) + used_moves added used
        = mset (map gone_move removed) + used_moves added used'
    \<and> (\<forall>c \<in> set renamed. \<exists>f \<in> set removed. \<exists>g \<in> set added. renameKey f = renameKey g \<and> c = rename_change f g)"
  using assms(2,3)
proof (induction removed arbitrary: index n nbc used)
  case (Cons oldFile removed)
  let ?k = "renameKey oldFile" and ?n = "if index mod 256 \<noteq> 0 then n else Suc n"
  let ?ci = "mget0 0 nbc ?k"
  show ?case
  proof (cases "?ci < length (mget0 [] abc ?k)")
    case True
    let ?i = "mget0 [] abc ?k ! ?ci"
    have "?i \<in> set (mget0 [] abc ?k)" using True by simp
    then have i: "?i < length added" "renameKey (added ! ?i) = ?k" unfolding cand[of ?k] by auto
    have free: "\<not> used ! ?i" using Cons.prems(1) True unfolding free_candidates_def by blast
    have "\<not> used[?i := True] ! (mget0 [] abc k ! j)"
      if j: "mget0 0 (mput ?k (?ci + 1) nbc) k \<le> j" "j < length (mget0 [] abc k)" for k j
    proof -
      have le: "mget0 0 nbc k \<le> j" using j(1) by (auto split: if_split_asm)
      then have old: "\<not> used ! (mget0 [] abc k ! j)" using Cons.prems(1) j(2) unfolding free_candidates_def by blast
      have "mget0 [] abc k ! j \<noteq> ?i"
      proof
        assume same: "mget0 [] abc k ! j = ?i"
        have "mget0 [] abc k ! j \<in> set (mget0 [] abc k)" using j(2) by simp
        then have "renameKey (added ! (mget0 [] abc k ! j)) = k" unfolding cand[of k] by auto
        then have "k = ?k" using same i(2) by simp
        moreover have "distinct (mget0 [] abc k)" unfolding cand[of k] by simp
        ultimately have "j = ?ci" using same j(2) True by (simp add: nth_eq_iff_index_eq)
        then show False using j(1) \<open>k = ?k\<close> by simp
      qed
      then show ?thesis using old by simp
    qed
    then have "free_candidates abc (mput ?k (?ci + 1) nbc) (used[?i := True])" unfolding free_candidates_def by blast
    from Cons.IH[OF this, of "index + 1" ?n] Cons.prems(2)
    obtain renamed deleted used' n' where r: "pair_removed (\<lambda>_. True) abc added (index + 1) ?n (mput ?k (?ci + 1) nbc)
        (used[?i := True]) removed = Some (renamed, deleted, used', n')" "length used' = length added"
      "mset (concat (map moves renamed)) + mset (concat (map moves deleted)) + used_moves added (used[?i := True])
        = mset (map gone_move removed) + used_moves added used'"
      "\<forall>c \<in> set renamed. \<exists>f \<in> set removed. \<exists>g \<in> set added. renameKey f = renameKey g \<and> c = rename_change f g"
      by auto
    have "\<exists>g \<in> set added. renameKey oldFile = renameKey g \<and> rename_change oldFile (added ! ?i) = rename_change oldFile g"
      using i by (intro bexI[of _ "added ! ?i"]) simp_all
    then show ?thesis using r True
      by (auto simp: check_live Let_def used_moves_mark[OF i(1) Cons.prems(2) free])
  next
    case False
    from Cons.IH[OF Cons.prems, of "index + 1" ?n] False show ?thesis by (auto simp: check_live Let_def)
  qed
qed simp


lemma collect_live:
  "\<exists>changes n'. collect_adds (\<lambda>_. True) index n used added = Some (changes, n')
    \<and> concat (map moves changes) = map (\<lambda>i. new_move (added ! (i - index))) (filter (\<lambda>i. \<not> used ! i) [index ..< index + length added])"
proof (induction added arbitrary: index n)
  case (Cons f added)
  let ?n = "if index mod 256 \<noteq> 0 then n else Suc n"
  obtain changes n' where c: "collect_adds (\<lambda>_. True) (Suc index) ?n used added = Some (changes, n')"
    "concat (map moves changes) = map (\<lambda>i. new_move (added ! (i - Suc index))) (filter (\<lambda>i. \<not> used ! i) [Suc index ..< Suc index + length added])"
    using Cons.IH[of "Suc index" ?n] by blast
  have "[index ..< index + length (f # added)] = index # [Suc index ..< Suc index + length added]"
    by (simp add: upt_conv_Cons del: upt_Suc)
  moreover have "map (\<lambda>i. new_move ((f # added) ! (i - index))) (filter (\<lambda>i. \<not> used ! i) [Suc index ..< Suc index + length added])
      = map (\<lambda>i. new_move (added ! (i - Suc index))) (filter (\<lambda>i. \<not> used ! i) [Suc index ..< Suc index + length added])"
    by (intro map_cong) (auto simp: nth_Cons' diff_Suc_eq_diff_pred simp flip: One_nat_def intro: arg_cong)
  ultimately show ?case using c by (auto simp: check_live simp del: upt_Suc)
qed simp

lemma unused_and_used:
  "mset (map (\<lambda>i. new_move (added ! i)) (filter (\<lambda>i. \<not> used ! i) [0 ..< length added])) + used_moves added used
    = mset (map new_move added)"
proof -
  let ?f = "\<lambda>i. new_move (added ! i)"
  have "map new_move added = map ?f [0 ..< length added]" by (simp add: map_nth flip: map_map[unfolded comp_def])
  moreover have "image_mset ?f (mset (filter (\<lambda>i. \<not> used ! i) xs)) + image_mset ?f (mset (filter (\<lambda>i. used ! i) xs))
      = image_mset ?f (mset xs)" for xs by (induction xs) auto
  ultimately show ?thesis unfolding used_moves_def by (simp only: mset_map)
qed

lemma change_kinds [simp]:
  "ch_Kind (add_change f) = ChangeAdd" "ch_Kind (delete_change f) = ChangeDelete" "ch_Kind (modify_change f g) = ChangeModify"
  by (simp_all add: add_change_def delete_change_def modify_change_def)

lemma merge_kinds:
  "merge_files live index n previous next = Some (r, a, modified, n') \<Longrightarrow> c \<in> set modified \<Longrightarrow> ch_Kind c = ChangeModify"
  by (induction live index n previous "next" arbitrary: r a modified n' rule: merge_files.induct)
    (auto split: option.split_asm if_split_asm)

lemma pair_kinds:
  "pair_removed live abc added index n nbc used removed = Some (renamed, deleted, used', n') \<Longrightarrow> c \<in> set deleted
    \<Longrightarrow> ch_Kind c = ChangeDelete"
  by (induction removed arbitrary: index n nbc used renamed deleted)
    (auto simp: Let_def split: option.split_asm if_split_asm)

lemma collect_kinds:
  "collect_adds live index n used added = Some (changes, n') \<Longrightarrow> c \<in> set changes \<Longrightarrow> ch_Kind c = ChangeAdd"
  by (induction added arbitrary: index n changes) (auto split: option.split_asm if_split_asm)

text \<open>All moves of a delta: one for each removed, added and modified file.\<close>

lemma delta_moves:
  assumes "path_sorted previous" "path_sorted next"
  shows "\<exists>cs modified. deriveDelta (\<lambda>_. True) previous next = Some cs
    \<and> mset (concat (map moves cs)) = mset (map gone_move (filter (absent_in next) previous)
        @ map new_move (filter (absent_in previous) next) @ concat (map moves modified))
    \<and> set (concat (map moves modified)) = changed_moves previous next
    \<and> distinct (map fst (concat (map moves modified)))
    \<and> (\<forall>c \<in> set cs. ch_Kind c = ChangeRename \<longrightarrow>
         (\<exists>f \<in> set previous. \<exists>g \<in> set next. renameKey f = renameKey g \<and> c = rename_change f g))"
proof -
  let ?rem = "filter (absent_in next) previous" and ?add = "filter (absent_in previous) next"
  obtain modified n1 where m: "merge_files (\<lambda>_. True) 0 0 previous next = Some (?rem, ?add, modified, n1)"
    "set (concat (map moves modified)) = changed_moves previous next" "distinct (map fst (concat (map moves modified)))"
    using merge_live[OF assms, of 0 0] by blast
  obtain abc n2 where g: "group_added (\<lambda>_. True) 0 n1 ?add [] = Some (abc, n2)" using group_live by blast
  have cand: "mget0 [] abc k = filter (\<lambda>i. renameKey (?add ! i) = k) [0 ..< length ?add]" for k
    using group_candidates[OF g, of k] by (simp add: mget0_def)
  let ?none = "replicate (length ?add) False"
  have "free_candidates abc [] ?none" unfolding free_candidates_def cand
    by (auto simp: nth_replicate dest!: nth_mem)
  from pair_live[OF cand this, of 0 n2 ?rem]
  obtain renamed deleted used n3 where q: "pair_removed (\<lambda>_. True) abc ?add 0 n2 [] ?none ?rem = Some (renamed, deleted, used, n3)"
    "mset (concat (map moves renamed)) + mset (concat (map moves deleted)) + used_moves ?add ?none = mset (map gone_move ?rem) + used_moves ?add used"
    "\<forall>c \<in> set renamed. \<exists>f \<in> set ?rem. \<exists>g \<in> set ?add. renameKey f = renameKey g \<and> c = rename_change f g" by auto
  obtain changes n4 where a: "collect_adds (\<lambda>_. True) 0 n3 used ?add = Some (changes, n4)"
    "concat (map moves changes) = map (\<lambda>i. new_move (?add ! i)) (filter (\<lambda>i. \<not> used ! i) [0 ..< length ?add])"
    using collect_live[of 0 n3 used ?add] by auto
  have none: "used_moves ?add ?none = {#}" by (simp add: used_moves_def)
  let ?cs = "changes @ deleted @ modified @ renamed"
  have "deriveDelta (\<lambda>_. True) previous next = Some ?cs" by (simp add: deriveDelta_def m(1) g q(1) a(1))
  moreover have "mset (concat (map moves ?cs)) = mset (map gone_move ?rem @ map new_move ?add @ concat (map moves modified))"
  proof -
    have "mset (concat (map moves renamed)) + mset (concat (map moves deleted)) = mset (map gone_move ?rem) + used_moves ?add used"
      using q(2) none by simp
    moreover have "mset (concat (map moves changes)) + used_moves ?add used = mset (map new_move ?add)"
      using unused_and_used[of ?add used] a(2) by simp
    moreover have "mset (concat (map moves ?cs)) = mset (concat (map moves changes)) + (mset (concat (map moves renamed))
        + mset (concat (map moves deleted))) + mset (concat (map moves modified))" by (simp add: ac_simps)
    ultimately show ?thesis by (simp only: mset_append) (simp add: ac_simps)
  qed
  moreover have "\<exists>f \<in> set previous. \<exists>g \<in> set next. renameKey f = renameKey g \<and> c = rename_change f g"
    if c: "c \<in> set ?cs" "ch_Kind c = ChangeRename" for c
  proof -
    have "c \<in> set renamed" using c merge_kinds[OF m(1)] pair_kinds[OF q(1)] collect_kinds[OF a(1)] by auto
    then show ?thesis using q(3) by fastforce
  qed
  ultimately show ?thesis using m(2,3) by blast
qed


section \<open>Replay\<close>

lemma revisions_None: "revisions fs p = None \<longleftrightarrow> p \<notin> fr_Path ` set fs"
  by (simp add: revisions_def map_of_eq_None_iff image_image)

lemma revisions_Some:
  assumes "path_sorted fs"
  shows "revisions fs p = Some r \<longleftrightarrow> (\<exists>f \<in> set fs. fr_Path f = p \<and> fr_RevisionID f = r)"
proof -
  have "distinct (map fst (map (\<lambda>f. (fr_Path f, fr_RevisionID f)) fs))"
    using path_sorted_distinct[OF assms] by (simp add: comp_def)
  then show ?thesis unfolding revisions_def by (auto simp: map_of_eq_Some_iff)
qed

lemma delta_move_set:
  assumes "path_sorted previous" "path_sorted next"
  shows "set (map gone_move (filter (absent_in next) previous) @ map new_move (filter (absent_in previous) next))
      \<union> changed_moves previous next
    = {(p, revisions previous p, revisions next p) | p. revisions previous p \<noteq> revisions next p}" (is "?L = ?R")
proof -
  have one: "revisions previous (fr_Path f) = Some (fr_RevisionID f)" if "f \<in> set previous" for f
    using revisions_Some[OF assms(1)] that by blast
  have two: "revisions next (fr_Path f) = Some (fr_RevisionID f)" if "f \<in> set next" for f
    using revisions_Some[OF assms(2)] that by blast
  have absent: "absent_in fs f \<longleftrightarrow> revisions fs (fr_Path f) = None" for fs f
    unfolding absent_in_def revisions_None ..
  have "e \<in> ?R" if "e \<in> ?L" for e
    using that one two by (force simp: gone_move_def new_move_def absent changed_moves_def)
  moreover have "(p, revisions previous p, revisions next p) \<in> ?L" if ne: "revisions previous p \<noteq> revisions next p" for p
  proof (cases "revisions previous p")
    case None
    then obtain r where "revisions next p = Some r" using ne by force
    then obtain g where "g \<in> set next" "fr_Path g = p" "fr_RevisionID g = r" using revisions_Some[OF assms(2)] by blast
    then show ?thesis using None two[of g] by (force simp: new_move_def absent)
  next
    case (Some r)
    then obtain f where f: "f \<in> set previous" "fr_Path f = p" "fr_RevisionID f = r" using revisions_Some[OF assms(1)] by blast
    show ?thesis
    proof (cases "revisions next p")
      case None
      then show ?thesis using f Some by (force simp: gone_move_def absent)
    next
      case later: (Some r')
      then obtain g where "g \<in> set next" "fr_Path g = p" "fr_RevisionID g = r'" using revisions_Some[OF assms(2)] by blast
      then show ?thesis using f ne Some later by (force simp: changed_moves_def)
    qed
  qed
  ultimately show ?thesis by blast
qed

lemma distinct_three:
  "distinct xs \<Longrightarrow> distinct ys \<Longrightarrow> distinct zs \<Longrightarrow> set xs \<subseteq> A \<Longrightarrow> set xs \<inter> B = {} \<Longrightarrow> set ys \<subseteq> B \<Longrightarrow>
    set ys \<inter> A = {} \<Longrightarrow> set zs \<subseteq> A \<inter> B \<Longrightarrow> distinct (xs @ ys @ zs)"
  by (simp add: distinct_append) blast

lemma delta_replays:
  assumes "path_sorted previous" "path_sorted next"
  shows "\<exists>cs. deriveDelta (\<lambda>_. True) previous next = Some cs \<and> replay_delta cs (revisions previous) = Some (revisions next)
    \<and> (\<forall>c \<in> set cs. ch_Kind c = ChangeRename \<longrightarrow>
         (\<exists>f \<in> set previous. \<exists>g \<in> set next. renameKey f = renameKey g \<and> c = rename_change f g))"
proof -
  let ?rem = "filter (absent_in next) previous" and ?add = "filter (absent_in previous) next"
  obtain cs modified where d: "deriveDelta (\<lambda>_. True) previous next = Some cs"
    "mset (concat (map moves cs)) = mset (map gone_move ?rem @ map new_move ?add @ concat (map moves modified))"
    "set (concat (map moves modified)) = changed_moves previous next" "distinct (map fst (concat (map moves modified)))"
    "\<forall>c \<in> set cs. ch_Kind c = ChangeRename \<longrightarrow> (\<exists>f \<in> set previous. \<exists>g \<in> set next. renameKey f = renameKey g \<and> c = rename_change f g)"
    using delta_moves[OF assms] by blast
  let ?all = "map gone_move ?rem @ map new_move ?add @ concat (map moves modified)"
  have paths: "map fst (map gone_move ?rem) = map fr_Path ?rem" "map fst (map new_move ?add) = map fr_Path ?add"
    by (simp_all add: gone_move_def new_move_def)
  have mod: "set (map fst (concat (map moves modified))) \<subseteq> fr_Path ` set previous \<inter> fr_Path ` set next"
    unfolding set_map d(3) by (auto simp: changed_moves_def) (metis image_eqI)
  have away: "fr_Path ` set ?rem \<inter> fr_Path ` set next = {}" "fr_Path ` set ?add \<inter> fr_Path ` set previous = {}"
    "fr_Path ` set ?rem \<subseteq> fr_Path ` set previous" "fr_Path ` set ?add \<subseteq> fr_Path ` set next" by (auto simp: absent_in_def)
  have "distinct (map fr_Path ?rem)" "distinct (map fr_Path ?add)"
    using path_sorted_distinct[OF assms(1)] path_sorted_distinct[OF assms(2)] by (simp_all add: distinct_map_filter)
  then have "distinct (map fst ?all)" unfolding map_append paths
    by (rule distinct_three[OF _ _ d(4) _ _ _ _ mod]) (simp_all only: set_map away)
  then have "distinct (map fst (concat (map moves cs)))" using d(2) by (metis mset_eq_imp_distinct_iff mset_map)
  moreover have "set (concat (map moves cs)) = {(p, revisions previous p, revisions next p) | p. revisions previous p \<noteq> revisions next p}"
    unfolding mset_eq_setD[OF d(2)] delta_move_set[OF assms, symmetric] by (simp only: set_append d(3) Un_assoc)
  ultimately have "replay_delta cs (revisions previous) = Some (revisions next)" by (rule replay_exact)
  with d(1,5) show ?thesis by blast
qed

text \<open>A delta derived under a context that might have been cancelled is the same one.\<close>

lemma merge_any: "merge_files live index n previous next = Some (r, a, m, n') \<Longrightarrow>
    \<exists>k'. merge_files (\<lambda>_. True) index k previous next = Some (r, a, m, k')"
proof (induction live index n previous "next" arbitrary: k r a m n' rule: merge_files.induct)
  case (4 live index n oldFile previous newFile nexts)
  let ?k = "if index mod 256 \<noteq> 0 then k else Suc k"
  from "4.prems" obtain n1 where n1: "checkDeltaContext live index n = Some n1" by (auto split: option.split_asm)
  consider (less) "fr_Path oldFile < fr_Path newFile" | (greater) "\<not> fr_Path oldFile < fr_Path newFile" "fr_Path newFile < fr_Path oldFile"
    | (same) "\<not> fr_Path oldFile < fr_Path newFile" "\<not> fr_Path newFile < fr_Path oldFile" by blast
  then show ?case
  proof cases
    case less
    then show ?thesis using "4.prems" n1 "4.IH"(1)[OF n1 less, of _ _ _ _ ?k] by (force simp: check_live)
  next
    case greater
    then show ?thesis using "4.prems" n1 "4.IH"(2)[OF n1 greater, of _ _ _ _ ?k] by (force simp: check_live)
  next
    case same
    with "4.prems" n1 obtain m' n2 where e: "merge_files live (index + 2) n1 previous nexts = Some (r, a, m', n2)"
      "m = (if fr_RevisionID oldFile \<noteq> fr_RevisionID newFile then modify_change oldFile newFile # m' else m')" by auto
    obtain k' where "merge_files (\<lambda>_. True) (index + 2) ?k previous nexts = Some (r, a, m', k')"
      using "4.IH"(3)[OF n1 same e(1)] by blast
    then show ?thesis using same e(2) by (simp add: check_live)
  qed
qed (force simp: check_live split: option.split_asm)+

lemma group_any: "group_added live index n added m = Some (x, n') \<Longrightarrow> \<exists>k'. group_added (\<lambda>_. True) index k added m = Some (x, k')"
  by (induction added arbitrary: index n m k) (auto simp: check_live split: option.split_asm)

lemma pair_any: "pair_removed live abc added index n nbc used removed = Some (r, d, u, n') \<Longrightarrow>
    \<exists>k'. pair_removed (\<lambda>_. True) abc added index k nbc used removed = Some (r, d, u, k')"
proof (induction removed arbitrary: index n nbc used k r d)
  case (Cons oldFile removed)
  then show ?case by (force simp: check_live Let_def split: option.split_asm if_split_asm)
qed simp

lemma collect_any: "collect_adds live index n used added = Some (c, n') \<Longrightarrow>
    \<exists>k'. collect_adds (\<lambda>_. True) index k used added = Some (c, k')"
proof (induction added arbitrary: index n k c)
  case (Cons f added)
  then show ?case by (force simp: check_live split: option.split_asm)
qed simp

lemma derive_any:
  assumes "deriveDelta live previous next = Some cs"
  shows "deriveDelta (\<lambda>_. True) previous next = Some cs"
proof -
  from assms obtain r a m n1 abc n2 ren del u n3 c n4 where
    "merge_files live 0 0 previous next = Some (r, a, m, n1)" "group_added live 0 n1 a [] = Some (abc, n2)"
    "pair_removed live abc a 0 n2 [] (replicate (length a) False) r = Some (ren, del, u, n3)"
    "collect_adds live 0 n3 u a = Some (c, n4)" "cs = c @ del @ m @ ren"
    by (auto simp: deriveDelta_def split: option.split_asm if_split_asm)
  moreover obtain k1 where "merge_files (\<lambda>_. True) 0 0 previous next = Some (r, a, m, k1)" using merge_any[OF calculation(1)] by blast
  moreover obtain k2 where "group_added (\<lambda>_. True) 0 k1 a [] = Some (abc, k2)" using group_any[OF calculation(2)] by blast
  moreover obtain k3 where "pair_removed (\<lambda>_. True) abc a 0 k2 [] (replicate (length a) False) r = Some (ren, del, u, k3)"
    using pair_any[OF calculation(3)] by blast
  moreover obtain k4 where "collect_adds (\<lambda>_. True) 0 k3 u a = Some (c, k4)" using collect_any[OF calculation(4)] by blast
  ultimately show ?thesis by (simp add: deriveDelta_def)
qed


section \<open>Properties\<close>

text \<open>C17.  A delta replays.  For two snapshots in path order the derivation succeeds unless
  the context is cancelled, and then, whenever it succeeds: applying the delta to the
  first snapshot never meets a path that is not as the change says and ends exactly at
  the second snapshot, and each rename joins a file of the first with a file of the
  second of equal blob and mode.\<close>

theorem delta_replays_to_next:
  assumes "path_sorted previous" "path_sorted next"
  shows "deriveDelta (\<lambda>_. True) previous next \<noteq> None
    \<and> (\<forall>live cs. deriveDelta live previous next = Some cs \<longrightarrow>
        replay_delta cs (revisions previous) = Some (revisions next)
        \<and> (\<forall>c \<in> set cs. ch_Kind c = ChangeRename \<longrightarrow>
             (\<exists>f \<in> set previous. \<exists>g \<in> set next. renameKey f = renameKey g \<and> c = rename_change f g)))"
proof -
  obtain cs where cs: "deriveDelta (\<lambda>_. True) previous next = Some cs" "replay_delta cs (revisions previous) = Some (revisions next)"
    "\<forall>c \<in> set cs. ch_Kind c = ChangeRename \<longrightarrow> (\<exists>f \<in> set previous. \<exists>g \<in> set next. renameKey f = renameKey g \<and> c = rename_change f g)"
    using delta_replays[OF assms] by blast
  have "cs' = cs" if "deriveDelta live previous next = Some cs'" for live cs' using derive_any[OF that] cs(1) by simp
  then show ?thesis using cs by blast
qed

definition sample_file :: "string \<Rightarrow> string \<Rightarrow> FileRevision" where
  "sample_file p blob = \<lparr>fr_Path = p, fr_PathDigest = p, fr_Kind = EntryFile, fr_Mode = ''100644'', fr_SizeBytes = 1,
     fr_BlobOID = blob, fr_ContentDigest = blob, fr_RevisionID = p @ blob\<rparr>"

theorem delta_replays_to_next_witness:
  "\<exists>cs. deriveDelta (\<lambda>_. True) [sample_file ''a'' ''1'', sample_file ''b'' ''2''] [sample_file ''b'' ''3'', sample_file ''c'' ''1''] = Some cs
    \<and> map ch_Kind cs = [ChangeModify, ChangeRename]
    \<and> replay_delta cs (revisions [sample_file ''a'' ''1'', sample_file ''b'' ''2'']) = Some (revisions [sample_file ''b'' ''3'', sample_file ''c'' ''1''])"
proof -
  let ?p = "[sample_file ''a'' ''1'', sample_file ''b'' ''2'']" and ?q = "[sample_file ''b'' ''3'', sample_file ''c'' ''1'']"
  have "path_sorted ?p" "path_sorted ?q" by (simp_all add: path_sorted_def sample_file_def)
  note T = delta_replays_to_next[OF this]
  obtain cs where cs: "deriveDelta (\<lambda>_. True) ?p ?q = Some cs" using conjunct1[OF T] by (auto simp only:)
  have "map ch_Kind cs = [ChangeModify, ChangeRename]"
    using cs by (auto simp: deriveDelta_def check_live sample_file_def renameKey_def mget0_def Let_def modify_change_def rename_change_def)
  with cs conjunct1[OF conjunct2[OF T, rule_format, OF cs]] show ?thesis by (intro exI[of _ cs] conjI)
qed

end
