(* ===== verification/Text_Fields.thy ===== *)
theory Text_Fields
  imports Text_Bound
begin

text \<open>
  White space as \<^verbatim>\<open>unicode.IsSpace\<close> sees it, \<^verbatim>\<open>strings.Fields\<close>, and decimal
  parsing as \<^verbatim>\<open>strconv.ParseInt(s, 10, 64)\<close> does it.
\<close>

definition is_space :: "nat \<Rightarrow> bool" where
  "is_space r \<longleftrightarrow> 9 \<le> r \<and> r \<le> 13 \<or> r \<in> {0x20, 0x85, 0xA0, 0x1680, 0x2028, 0x2029, 0x202F, 0x205F, 0x3000}
     \<or> 0x2000 \<le> r \<and> r \<le> 0x200A"

fun fields_of :: "(nat \<times> string) list \<Rightarrow> string \<Rightarrow> string list" where
  "fields_of [] cur = (if cur = [] then [] else [cur])"
| "fields_of ((r, bs) # rs) cur =
    (if is_space r then (if cur = [] then fields_of rs [] else cur # fields_of rs [])
     else fields_of rs (cur @ bs))"

definition Fields :: "string \<Rightarrow> string list" where
  "Fields s = fields_of (runes_of s) []"

definition digit_value :: "char \<Rightarrow> nat option" where
  "digit_value c = (let n = of_char c :: nat in if 48 \<le> n \<and> n \<le> 57 then Some (n - 48) else None)"

fun digits_value :: "nat \<Rightarrow> string \<Rightarrow> nat option" where
  "digits_value acc [] = Some acc"
| "digits_value acc (c # s) = (case digit_value c of None \<Rightarrow> None | Some d \<Rightarrow> digits_value (10 * acc + d) s)"

definition ParseInt :: "string \<Rightarrow> int option" where
  "ParseInt s =
    (let (neg, body) = (case s of [] \<Rightarrow> (False, [])
                        | c # t \<Rightarrow> if c = CHR ''-'' then (True, t) else if c = CHR ''+'' then (False, t) else (False, s))
     in if body = [] then None
        else (case digits_value 0 body of
                None \<Rightarrow> None
              | Some v \<Rightarrow> if neg then (if int v \<le> 2 ^ 63 then Some (- int v) else None)
                          else if int v < 2 ^ 63 then Some (int v) else None))"

end
