(* ===== verification/Source_Snapshot.thy ===== *)
theory Source_Snapshot
  imports Source_Delta Contracts Text_Fields
begin

text \<open>
  Reading one committed snapshot (\<^verbatim>\<open>services/brain/internal/ingestion/git.go\<close>, \<^verbatim>\<open>policy.go\<close>).

  Git is an argument: what its four commands print for an object, or an error.  The
  hash is the argument \<open>sha\<close>, giving lowercase hexadecimal text.  Modelled are the
  bounds on the output, the parsing of the listing and of the object batch, the ignore
  policy, the filters and the identities derived for files, snapshot and manifest.
\<close>

section \<open>Configuration and identities\<close>

datatype ingest_error = IInvalidInput | IUnsupportedPolicy | IOutOfRoot | IStaleGeneration | IRevoked | ITombstoned
  | IGit | ILimit | IConflict | ICancelled

record ingest_policy =
  ip_UseGitIgnore :: bool
  ip_UseOuroborosIgnore :: bool
  ip_Symlinks :: string

record ingest_config =
  ic_TenantID :: string
  ic_BrainID :: string
  ic_RepositoryID :: string
  ic_ConfigurationDigest :: string
  ic_Policy :: ingest_policy
  ic_CommandTimeout :: int
  ic_MaxFiles :: int
  ic_MaxPathBytes :: int
  ic_MaxFileBytes :: int
  ic_MaxTotalBytes :: int
  ic_MaxIdempotencyRecords :: int

definition isGitOID :: "string \<Rightarrow> bool" where
  "isGitOID v \<longleftrightarrow> (length v = 40 \<or> length v = 64)
    \<and> (case hex_decode v of None \<Rightarrow> False | Some bs \<Rightarrow> length bs * 2 = length v \<and> list_all lower_hex v)"

definition isDigest :: "string \<Rightarrow> bool" where
  "isDigest v \<longleftrightarrow> length v = 64 \<and> isGitOID v"

definition validIdentifier :: "string \<Rightarrow> bool" where
  "validIdentifier v \<longleftrightarrow> \<not> (v = [] \<or> length v > 255 \<or> \<not> valid_utf8 v \<or> trim_space v \<noteq> v)
    \<and> list_all (\<lambda>(r, bs). \<not> (r < 0x20 \<or> r = 0x7F)) (runes_of v)"

text \<open>A field is preceded by its length in eight bytes, the most significant first.\<close>

definition length_bytes :: "nat \<Rightarrow> string" where
  "length_bytes n = map (\<lambda>i. char_of (n div 256 ^ (7 - i) mod 256)) [0 ..< 8]"

definition writeIdentityField :: "string \<Rightarrow> string" where
  "writeIdentityField v = length_bytes (length v) @ v"

definition identity :: "(string \<Rightarrow> string) \<Rightarrow> string \<Rightarrow> string list \<Rightarrow> string" where
  "identity sha domain cols = sha (concat (map writeIdentityField (domain # cols)))"

definition validateRepositoryPath :: "string \<Rightarrow> int \<Rightarrow> ingest_error option" where
  "validateRepositoryPath v maxBytes =
    (if int (length v) > maxBytes then Some ILimit
     else if v = [] \<or> \<not> valid_utf8 v \<or> is_abs_path v \<or> CHR 0x5C \<in> set v \<or> path_clean v \<noteq> v then Some IOutOfRoot
     else if list_ex (\<lambda>s. s = [] \<or> s = ''.'' \<or> s = ''..'') (split_on CHR ''/'' v) then Some IOutOfRoot
     else if list_ex (\<lambda>(r, bs). r < 0x20 \<or> r = 0x7F) (runes_of v) then Some IOutOfRoot
     else None)"

definition bool_text :: "bool \<Rightarrow> string" where
  "bool_text b = (if b then ''true'' else ''false'')"


section \<open>The ignore policy\<close>

record ignoreRule =
  ru_pattern :: string
  ru_directory :: bool

record ignorePolicy =
  po_rules :: "ignoreRule list"
  po_digest :: string

definition RecordWithoutFollow :: string where "RecordWithoutFollow = ''record_without_follow''"

text \<open>\<^verbatim>\<open>path.Match\<close> on one segment.  A rule has no brackets and no backslash, so the only
  wildcards are the star and the question mark, and no pattern is malformed.\<close>

fun seg_match :: "nat list \<Rightarrow> nat list \<Rightarrow> bool" where
  "seg_match [] s = (s = [])"
| "seg_match (p # ps) [] = (p = 0x2A \<and> seg_match ps [])"
| "seg_match (p # ps) (c # s) =
    (if p = 0x2A then seg_match ps (c # s) \<or> seg_match (p # ps) s
     else (p = 0x3F \<or> p = c) \<and> seg_match ps s)"

definition path_match :: "string \<Rightarrow> string \<Rightarrow> bool" where
  "path_match pattern v = seg_match (map fst (runes_of pattern)) (map fst (runes_of v))"

definition parseIgnoreRule :: "string \<Rightarrow> int \<Rightarrow> ignoreRule option" where
  "parseIgnoreRule v maxPathBytes =
    (if has_prefix v ''!'' \<or> str_contains v ''**'' \<or> has_prefix v ''/''
        \<or> list_ex (\<lambda>c. c \<in> {CHR 0x5C, CHR ''['', CHR '']''}) v \<or> trim_space v \<noteq> v
     then None
     else (let directory = has_suffix v ''/''; pattern = (if directory then butlast v else v)
           in if validateRepositoryPath pattern maxPathBytes \<noteq> None then None
              else Some \<lparr>ru_pattern = pattern, ru_directory = directory\<rparr>))"

text \<open>\<^verbatim>\<open>strings.ReplaceAll\<close> of a carriage return with a newline.\<close>

fun unix_lines :: "string \<Rightarrow> string" where
  "unix_lines (c # d # s) = (if c = CHR 0x0D \<and> d = CHR 0x0A then CHR 0x0A # unix_lines s else c # unix_lines (d # s))"
| "unix_lines s = s"

fun parse_rules :: "string list \<Rightarrow> int \<Rightarrow> ignoreRule list option" where
  "parse_rules [] maxPathBytes = Some []"
| "parse_rules (line # ls) maxPathBytes =
    (if line = [] \<or> has_prefix line ''#'' then parse_rules ls maxPathBytes
     else (case parseIgnoreRule line maxPathBytes of
             None \<Rightarrow> None
           | Some r \<Rightarrow> map_option ((#) r) (parse_rules ls maxPathBytes)))"

definition parseIgnoreFile :: "string \<Rightarrow> int \<Rightarrow> ignoreRule list option" where
  "parseIgnoreFile contents maxPathBytes =
    (if contents = [] then Some []
     else if NUL \<in> set contents then None
     else parse_rules (split_on CHR 0x0A (unix_lines contents)) maxPathBytes)"

definition rule_fields :: "string \<Rightarrow> ignoreRule list \<Rightarrow> string list" where
  "rule_fields name rules = concat (map (\<lambda>r. [name, ru_pattern r, bool_text (ru_directory r)]) rules)"

text \<open>One of the two rule files: its rules and the fields hashed for it.\<close>

definition rule_file :: "string \<Rightarrow> bool \<Rightarrow> (string, string) gomap \<Rightarrow> int \<Rightarrow> (ignoreRule list \<times> string list) option" where
  "rule_file name enabled files maxPathBytes =
    (if \<not> enabled then Some ([], [bool_text enabled])
     else map_option (\<lambda>rules. (rules, bool_text enabled # rule_fields name rules))
            (parseIgnoreFile (mget0 [] files name) maxPathBytes))"

definition parseIgnorePolicy :: "(string \<Rightarrow> string) \<Rightarrow> ingest_policy \<Rightarrow> (string, string) gomap \<Rightarrow> int \<Rightarrow> ingest_error + ignorePolicy" where
  "parseIgnorePolicy sha policy files maxPathBytes =
    (if ip_Symlinks policy \<noteq> RecordWithoutFollow then Inl IUnsupportedPolicy
     else (case rule_file ''.gitignore'' (ip_UseGitIgnore policy) files maxPathBytes of
             None \<Rightarrow> Inl IUnsupportedPolicy
           | Some (rules, fs) \<Rightarrow>
               (case rule_file ''.ouroborosignore'' (ip_UseOuroborosIgnore policy) files maxPathBytes of
                  None \<Rightarrow> Inl IUnsupportedPolicy
                | Some (rules', fs') \<Rightarrow>
                    Inr \<lparr>po_rules = rules @ rules',
                         po_digest = identity sha ''ouroboros.stage03.ignore-policy.v1'' (ip_Symlinks policy # fs @ fs')\<rparr>)))"

definition rule_matches :: "ignoreRule \<Rightarrow> string list \<Rightarrow> bool" where
  "rule_matches rule segments =
    (let ruleSegments = split_on CHR ''/'' (ru_pattern rule)
     in if ru_directory rule \<and> length segments \<le> length ruleSegments then False
        else if \<not> ru_directory rule \<and> length segments \<noteq> length ruleSegments then False
        else list_all (\<lambda>(p, s). path_match p s) (zip ruleSegments segments))"

definition ignores :: "ignorePolicy \<Rightarrow> string \<Rightarrow> bool" where
  "ignores policy name = list_ex (\<lambda>rule. rule_matches rule (split_on CHR ''/'' name)) (po_rules policy)"


section \<open>The tree and its blobs\<close>

record gitEntry =
  gt_path :: string
  gt_mode :: string
  gt_oid :: string
  gt_size :: int

record Manifest =
  mf_Digest :: string
  mf_PolicyDigest :: string
  mf_Files :: "FileRevision list"

record snapshot =
  sn_id :: string
  sn_commit :: string
  sn_tree :: string
  sn_manifest :: Manifest

text \<open>What the commands print: the commit and the tree a name resolves to, the listing of
  a tree, and the batch output for an input.\<close>

record git_repo =
  gx_commit :: "string \<Rightarrow> ingest_error + string"
  gx_tree :: "string \<Rightarrow> ingest_error + string"
  gx_list :: "string \<Rightarrow> ingest_error + string"
  gx_cat :: "string \<Rightarrow> ingest_error + string"

definition run_git :: "int \<Rightarrow> ingest_error + string \<Rightarrow> ingest_error + string" where
  "run_git maxOutput r =
    (case r of Inl err \<Rightarrow> Inl err | Inr output \<Rightarrow> if int (length output) > maxOutput then Inl ILimit else Inr output)"

text \<open>\<^verbatim>\<open>bytes.Cut\<close> at a character.\<close>

definition cut_at :: "char \<Rightarrow> string \<Rightarrow> (string \<times> string) option" where
  "cut_at c s = (if c \<in> set s then Some (takeWhile (\<lambda>d. d \<noteq> c) s, tl (dropWhile (\<lambda>d. d \<noteq> c) s)) else None)"

definition parse_entry :: "int \<Rightarrow> string \<Rightarrow> ingest_error + gitEntry" where
  "parse_entry maxPathBytes rec =
    (case cut_at CHR 0x09 rec of
       None \<Rightarrow> Inl IGit
     | Some (metadata, name) \<Rightarrow>
         (let cols = Fields metadata
          in if length cols \<noteq> 4 \<or> cols ! 1 \<noteq> ''blob'' \<or> \<not> isGitOID (cols ! 2) then Inl IUnsupportedPolicy
             else if cols ! 0 \<notin> {''100644'', ''100755'', ''120000''} then Inl IUnsupportedPolicy
             else (case validateRepositoryPath name maxPathBytes of
                     Some err \<Rightarrow> Inl err
                   | None \<Rightarrow>
                       if CHR ''/'' \<in> set name \<and> path_base name \<in> {''.gitignore'', ''.ouroborosignore''} then Inl IUnsupportedPolicy
                       else (case ParseInt (cols ! 3) of
                               None \<Rightarrow> Inl IGit
                             | Some sz \<Rightarrow>
                                 if sz < 0 then Inl IGit
                                 else Inr \<lparr>gt_path = name, gt_mode = cols ! 0, gt_oid = cols ! 2, gt_size = sz\<rparr>))))"

fun parse_entries :: "ingest_config \<Rightarrow> nat \<Rightarrow> string list \<Rightarrow> ingest_error + gitEntry list" where
  "parse_entries cfg n [] = Inr []"
| "parse_entries cfg n (rec # rs) =
    (if rec = [] then parse_entries cfg n rs
     else (case parse_entry (ic_MaxPathBytes cfg) rec of
             Inl err \<Rightarrow> Inl err
           | Inr e \<Rightarrow>
               if int (Suc n) > ic_MaxFiles cfg then Inl ILimit
               else (case parse_entries cfg (Suc n) rs of Inl err \<Rightarrow> Inl err | Inr es \<Rightarrow> Inr (e # es))))"

definition parseTree :: "ingest_config \<Rightarrow> string \<Rightarrow> ingest_error + gitEntry list" where
  "parseTree cfg output =
    (case parse_entries cfg 0 (split_on NUL output) of
       Inl err \<Rightarrow> Inl err
     | Inr es \<Rightarrow> Inr (sort_key gt_path es))"

fun read_objects :: "ingest_config \<Rightarrow> (string, int) gomap \<Rightarrow> string list \<Rightarrow> string \<Rightarrow> (string, string) gomap option" where
  "read_objects cfg unique [] output = (if output = [] then Some [] else None)"
| "read_objects cfg unique (oid # oids) output =
    (case cut_at CHR 0x0A output of
       None \<Rightarrow> None
     | Some (header, rest) \<Rightarrow>
         (let cols = Fields header
          in if length cols \<noteq> 3 \<or> cols ! 0 \<noteq> oid \<or> cols ! 1 \<noteq> ''blob'' then None
             else (case ParseInt (cols ! 2) of
                     None \<Rightarrow> None
                   | Some sz \<Rightarrow>
                       if sz \<noteq> mget0 0 unique oid \<or> sz > ic_MaxFileBytes cfg then None
                       else if sz < 0 \<or> length rest \<le> nat sz \<or> rest ! nat sz \<noteq> CHR 0x0A then None
                       else map_option (mput oid (take (nat sz) rest))
                              (read_objects cfg unique oids (drop (Suc (nat sz)) rest)))))"

definition readBlobs :: "git_repo \<Rightarrow> ingest_config \<Rightarrow> gitEntry list \<Rightarrow> int \<Rightarrow> ingest_error + (string, string) gomap" where
  "readBlobs git cfg entries totalBytes =
    (let unique = fold (\<lambda>e. mput (gt_oid e) (gt_size e)) entries [];
         oids = sort (mkeys unique)
     in if oids = [] then Inr []
        else (case run_git (totalBytes + int (length oids) * 160 + 1) (gx_cat git (join_with [CHR 0x0A] oids @ [CHR 0x0A])) of
                Inl err \<Rightarrow> Inl err
              | Inr output \<Rightarrow> (case read_objects cfg unique oids output of None \<Rightarrow> Inl IGit | Some blobs \<Rightarrow> Inr blobs)))"

fun wanted_ignores :: "ingest_config \<Rightarrow> int \<Rightarrow> gitEntry list \<Rightarrow> ingest_error + gitEntry list \<times> int" where
  "wanted_ignores cfg tot [] = Inr ([], tot)"
| "wanted_ignores cfg tot (e # es) =
    (if gt_path e = ''.gitignore'' \<and> ip_UseGitIgnore (ic_Policy cfg)
        \<or> gt_path e = ''.ouroborosignore'' \<and> ip_UseOuroborosIgnore (ic_Policy cfg) then
       (if gt_mode e = ''120000'' then Inl IUnsupportedPolicy
        else if gt_size e > ic_MaxFileBytes cfg \<or> tot > ic_MaxTotalBytes cfg - gt_size e then Inl ILimit
        else (case wanted_ignores cfg (tot + gt_size e) es of Inl err \<Rightarrow> Inl err | Inr (ws, t) \<Rightarrow> Inr (e # ws, t)))
     else wanted_ignores cfg tot es)"

definition readIgnoreFiles :: "git_repo \<Rightarrow> ingest_config \<Rightarrow> gitEntry list \<Rightarrow> ingest_error + (string, string) gomap" where
  "readIgnoreFiles git cfg entries =
    (case wanted_ignores cfg 0 entries of
       Inl err \<Rightarrow> Inl err
     | Inr (wanted, tot) \<Rightarrow>
         (case readBlobs git cfg wanted tot of
            Inl err \<Rightarrow> Inl err
          | Inr blobs \<Rightarrow> Inr (fold (\<lambda>e. mput (gt_path e) (mget0 [] blobs (gt_oid e))) wanted [])))"

fun filterEntries :: "ignorePolicy \<Rightarrow> ingest_config \<Rightarrow> int \<Rightarrow> gitEntry list \<Rightarrow> ingest_error + gitEntry list \<times> int" where
  "filterEntries policy cfg tot [] = Inr ([], tot)"
| "filterEntries policy cfg tot (e # es) =
    (if ignores policy (gt_path e) then filterEntries policy cfg tot es
     else if gt_size e > ic_MaxFileBytes cfg \<or> tot > ic_MaxTotalBytes cfg - gt_size e then Inl ILimit
     else (case filterEntries policy cfg (tot + gt_size e) es of Inl err \<Rightarrow> Inl err | Inr (ins, t) \<Rightarrow> Inr (e # ins, t)))"

definition file_revision :: "(string \<Rightarrow> string) \<Rightarrow> string \<Rightarrow> string \<Rightarrow> gitEntry \<Rightarrow> FileRevision" where
  "file_revision sha sourceID contents e =
    \<lparr>fr_Path = gt_path e, fr_PathDigest = sha (gt_path e),
     fr_Kind = (if gt_mode e = ''120000'' then EntrySymlink else EntryFile), fr_Mode = gt_mode e, fr_SizeBytes = gt_size e,
     fr_BlobOID = gt_oid e, fr_ContentDigest = sha contents,
     fr_RevisionID = identity sha ''ouroboros.stage03.source-revision.v1'' [sourceID, sha (gt_path e), gt_oid e, gt_mode e]\<rparr>"

fun file_revisions :: "(string \<Rightarrow> string) \<Rightarrow> string \<Rightarrow> (string, string) gomap \<Rightarrow> gitEntry list \<Rightarrow> FileRevision list option" where
  "file_revisions sha sourceID blobs [] = Some []"
| "file_revisions sha sourceID blobs (e # es) =
    (case mget blobs (gt_oid e) of
       None \<Rightarrow> None
     | Some contents \<Rightarrow> map_option ((#) (file_revision sha sourceID contents e)) (file_revisions sha sourceID blobs es))"

text \<open>The snapshot assembled from the included entries.\<close>

definition make_snapshot :: "(string \<Rightarrow> string) \<Rightarrow> ingest_config \<Rightarrow> string \<Rightarrow> string \<Rightarrow> string \<Rightarrow> string \<Rightarrow> FileRevision list \<Rightarrow> snapshot" where
  "make_snapshot sha cfg sourceID commitOID treeOID policyDigest files =
    (let snapshotID = identity sha ''ouroboros.stage03.snapshot.v1'' [sourceID, commitOID, treeOID, policyDigest];
         manifestDigest = identity sha ''ouroboros.stage03.snapshot-manifest.v1''
           [ic_TenantID cfg, ic_BrainID cfg, sourceID, snapshotID, treeOID, policyDigest]
     in \<lparr>sn_id = snapshotID, sn_commit = commitOID, sn_tree = treeOID,
         sn_manifest = \<lparr>mf_Digest = manifestDigest, mf_PolicyDigest = policyDigest, mf_Files = files\<rparr>\<rparr>)"

definition readSnapshotAndBlobs :: "(string \<Rightarrow> string) \<Rightarrow> git_repo \<Rightarrow> ingest_config \<Rightarrow> string \<Rightarrow> string
    \<Rightarrow> ingest_error + snapshot \<times> (string, string) gomap" where
  "readSnapshotAndBlobs sha git cfg sourceID commitOID =
    (if \<not> isGitOID commitOID then Inl IInvalidInput
     else (case run_git 256 (gx_commit git commitOID) of Inl err \<Rightarrow> Inl err | Inr resolved \<Rightarrow>
       if trim_space resolved \<noteq> commitOID then Inl IGit
     else (case run_git 256 (gx_tree git commitOID) of Inl err \<Rightarrow> Inl err | Inr treeOutput \<Rightarrow>
       let treeOID = trim_space treeOutput
       in if \<not> isGitOID treeOID then Inl IGit
     else (case run_git (ic_MaxFiles cfg * (ic_MaxPathBytes cfg + 160) + 1) (gx_list git treeOID) of Inl err \<Rightarrow> Inl err | Inr listing \<Rightarrow>
     (case parseTree cfg listing of Inl err \<Rightarrow> Inl err | Inr entries \<Rightarrow>
     (case readIgnoreFiles git cfg entries of Inl err \<Rightarrow> Inl err | Inr ignoreBytes \<Rightarrow>
     (case parseIgnorePolicy sha (ic_Policy cfg) ignoreBytes (ic_MaxPathBytes cfg) of Inl err \<Rightarrow> Inl err | Inr policy \<Rightarrow>
     (case filterEntries policy cfg 0 entries of Inl err \<Rightarrow> Inl err | Inr (included, totalBytes) \<Rightarrow>
     (case readBlobs git cfg included totalBytes of Inl err \<Rightarrow> Inl err | Inr blobs \<Rightarrow>
     (case file_revisions sha sourceID blobs included of None \<Rightarrow> Inl IGit | Some files \<Rightarrow>
       Inr (make_snapshot sha cfg sourceID commitOID treeOID (po_digest policy) files, blobs)))))))))))"

definition readSnapshot :: "(string \<Rightarrow> string) \<Rightarrow> git_repo \<Rightarrow> ingest_config \<Rightarrow> string \<Rightarrow> string \<Rightarrow> ingest_error + snapshot" where
  "readSnapshot sha git cfg sourceID commitOID =
    (case readSnapshotAndBlobs sha git cfg sourceID commitOID of Inl err \<Rightarrow> Inl err | Inr (s, blobs) \<Rightarrow> Inr s)"


section \<open>What a snapshot is\<close>

lemma hex_decode_length: "hex_decode s = Some bs \<Longrightarrow> length bs * 2 = length s"
  by (induction s arbitrary: bs rule: hex_decode.induct) (auto split: option.split_asm)

lemma isGitOID_iff: "isGitOID v \<longleftrightarrow> (length v = 40 \<or> length v = 64) \<and> list_all lower_hex v"
proof (cases "list_all lower_hex v \<and> even (length v)")
  case True
  then obtain bs where "hex_decode v = Some bs" using canonical_hex[of v] by (auto split: option.split_asm)
  then show ?thesis using True hex_decode_length by (auto simp: isGitOID_def)
next
  case False
  then show ?thesis by (auto simp: isGitOID_def split: option.split)
qed

text \<open>A hash in the form the identities have.\<close>

definition hash_text :: "(string \<Rightarrow> string) \<Rightarrow> bool" where
  "hash_text sha \<longleftrightarrow> (\<forall>x. isDigest (sha x))"

lemma identity_digest: "hash_text sha \<Longrightarrow> isDigest (identity sha d fs)"
  by (simp add: hash_text_def identity_def)

definition snapshot_ok :: "string \<Rightarrow> snapshot \<Rightarrow> bool" where
  "snapshot_ok commitOID s \<longleftrightarrow> sn_commit s = commitOID \<and> isGitOID commitOID \<and> isGitOID (sn_tree s) \<and> isDigest (sn_id s)
    \<and> isDigest (mf_Digest (sn_manifest s)) \<and> isDigest (mf_PolicyDigest (sn_manifest s))"

lemma policy_digest: "parseIgnorePolicy sha p files n = Inr policy \<Longrightarrow> hash_text sha \<Longrightarrow> isDigest (po_digest policy)"
  by (auto simp: parseIgnorePolicy_def identity_digest split: if_split_asm option.split_asm)

lemma read_snapshot_ok:
  assumes "readSnapshot sha git cfg sourceID commitOID = Inr s" "hash_text sha"
  shows "snapshot_ok commitOID s"
proof -
  from assms(1) obtain treeOID policy files ib where "isGitOID commitOID" "isGitOID treeOID"
    "parseIgnorePolicy sha (ic_Policy cfg) ib (ic_MaxPathBytes cfg) = Inr policy"
    "s = make_snapshot sha cfg sourceID commitOID treeOID (po_digest policy) files"
    by (auto simp: readSnapshot_def readSnapshotAndBlobs_def Let_def split: if_split_asm sum.split_asm option.split_asm)
  then show ?thesis using policy_digest assms(2) by (auto simp: snapshot_ok_def make_snapshot_def Let_def identity_digest)
qed

end
