(* ===== verification/Source_Authority.thy ===== *)
theory Source_Authority
  imports Source_Snapshot "HOL-Library.Word"
begin

text \<open>
  The lifecycle of one ingested source (\<^verbatim>\<open>services/brain/internal/ingestion/authority.go\<close>), its
  checkpoints (\<^verbatim>\<open>state.go\<close>) and the bounded read of its content (\<^verbatim>\<open>hydration.go\<close>).

  The authority's mutex is released while git is read, so \<^verbatim>\<open>Admit\<close>, \<^verbatim>\<open>Reconcile\<close> and the
  replay of a recorded result are split at that point; a step relation interleaves the
  parts of any number of calls with each other and with the atomic operations.  A read
  may fail at any time; when it succeeds it is the snapshot of the commit.
  The checkpoint's JSON encoding is an argument.
\<close>

section \<open>State\<close>

record Generation =
  ge_ID :: string
  ge_Sequence :: "64 word"
  ge_SourceID :: string
  ge_SnapshotID :: string
  ge_CommitOID :: string
  ge_TreeOID :: string
  ge_Manifest :: Manifest
  ge_Delta :: "Change list"
  ge_ExpectedPreviousID :: string

datatype operationKind = operationAdmit | operationReconcile | operationRevoke | operationTombstone

record generationReceipt =
  gr_ID :: string
  gr_Sequence :: "64 word"
  gr_SnapshotID :: string
  gr_CommitOID :: string
  gr_TreeOID :: string
  gr_ManifestDigest :: string
  gr_PolicyDigest :: string
  gr_DeltaDigest :: string
  gr_ExpectedPreviousID :: string
  gr_PreviousCommitOID :: string

record operationRecord =
  or_Kind :: operationKind
  or_Signature :: string
  or_Result :: "generationReceipt option"
  or_cached :: "Generation option"

record source_authority =
  ia_config :: ingest_config
  ia_approvedRootID :: string
  ia_sourceID :: string
  ia_current :: "Generation option"
  ia_currentPreviousCommitOID :: string
  ia_operations :: "(string, operationRecord) gomap"
  ia_normalOperations :: int
  ia_pendingHints :: int
  ia_coverageLost :: bool
  ia_revoked :: bool
  ia_tombstoned :: bool

record Admission =
  ad_ExpectedCommitOID :: string
  ad_IdempotencyKey :: string

record ReconcileRequest =
  rc_ExpectedGenerationID :: string
  rc_ExpectedCommitOID :: string
  rc_TargetCommitOID :: string
  rc_IdempotencyKey :: string

record lifecycle_request =
  lr_ExpectedGenerationID :: string
  lr_IdempotencyKey :: string

datatype HintKind = HintAdd | HintModify | HintRemove | HintRename | HintOverflow | HintUnknown

record WatchHint =
  wh_Kind :: HintKind
  wh_Path :: string
  wh_OldPath :: string

record HydrationRequest =
  hr_ExpectedGenerationID :: string
  hr_MaxFiles :: int
  hr_MaxTotalBytes :: int

record HydratedFile =
  hf_Revision :: FileRevision
  hf_Content :: string

definition new_authority :: "(string \<Rightarrow> string) \<Rightarrow> ingest_config \<Rightarrow> source_authority" where
  "new_authority sha cfg =
    (let rootID = identity sha ''ouroboros.stage03.approved-root.v1'' [ic_ConfigurationDigest cfg]
     in \<lparr>ia_config = cfg, ia_approvedRootID = rootID,
         ia_sourceID = identity sha ''ouroboros.stage03.source.v1'' [ic_TenantID cfg, ic_BrainID cfg, ic_RepositoryID cfg, rootID],
         ia_current = None, ia_currentPreviousCommitOID = [], ia_operations = [], ia_normalOperations = 0, ia_pendingHints = 0,
         ia_coverageLost = False, ia_revoked = False, ia_tombstoned = False\<rparr>)"

definition maxConfiguredFiles :: int where "maxConfiguredFiles = 100000"
definition maxConfiguredPathBytes :: int where "maxConfiguredPathBytes = 4096"
definition maxConfiguredFileBytes :: int where "maxConfiguredFileBytes = 16777216"
definition maxConfiguredTotalBytes :: int where "maxConfiguredTotalBytes = 67108864"
definition maxBufferedGitOutputBytes :: int where "maxBufferedGitOutputBytes = 134217728"

text \<open>The checks of the configuration other than those of the two file system paths; the
  timeout is in nanoseconds.\<close>

definition validateConfig :: "ingest_config \<Rightarrow> bool" where
  "validateConfig cfg \<longleftrightarrow>
    validIdentifier (ic_TenantID cfg) \<and> validIdentifier (ic_BrainID cfg) \<and> validIdentifier (ic_RepositoryID cfg)
    \<and> isDigest (ic_ConfigurationDigest cfg) \<and> ip_Symlinks (ic_Policy cfg) = RecordWithoutFollow
    \<and> 0 < ic_CommandTimeout cfg \<and> ic_CommandTimeout cfg \<le> 10 * 60 * 1000000000
    \<and> 0 < ic_MaxFiles cfg \<and> ic_MaxFiles cfg \<le> maxConfiguredFiles
    \<and> 0 < ic_MaxPathBytes cfg \<and> ic_MaxPathBytes cfg \<le> maxConfiguredPathBytes
    \<and> 0 < ic_MaxFileBytes cfg \<and> ic_MaxFileBytes cfg \<le> maxConfiguredFileBytes
    \<and> 0 < ic_MaxTotalBytes cfg \<and> ic_MaxTotalBytes cfg \<le> maxConfiguredTotalBytes
    \<and> ic_MaxFileBytes cfg \<le> ic_MaxTotalBytes cfg
    \<and> ic_MaxFiles cfg * (ic_MaxPathBytes cfg + 160) + 1 \<le> maxBufferedGitOutputBytes
    \<and> 0 < ic_MaxIdempotencyRecords cfg \<and> ic_MaxIdempotencyRecords cfg \<le> 1000000"

text \<open>The root directory's checks are the argument: an error, or the root is the top level
  of a git working tree.\<close>

definition New :: "(string \<Rightarrow> string) \<Rightarrow> ingest_error option \<Rightarrow> ingest_config \<Rightarrow> ingest_error + source_authority" where
  "New sha rootErr cfg =
    (if \<not> validateConfig cfg then Inl IInvalidInput
     else (case rootErr of Some err \<Rightarrow> Inl err | None \<Rightarrow> Inr (new_authority sha cfg)))"


section \<open>Generations and receipts\<close>

definition generationFromSnapshot :: "(string \<Rightarrow> string) \<Rightarrow> string \<Rightarrow> 64 word \<Rightarrow> string \<Rightarrow> snapshot \<Rightarrow> Change list \<Rightarrow> Generation" where
  "generationFromSnapshot sha sourceID sequence previousID source delta =
    \<lparr>ge_ID = identity sha ''ouroboros.stage03.generation.v1''
       [sourceID, dec (unat sequence), previousID, mf_Digest (sn_manifest source)],
     ge_Sequence = sequence, ge_SourceID = sourceID, ge_SnapshotID = sn_id source, ge_CommitOID = sn_commit source,
     ge_TreeOID = sn_tree source, ge_Manifest = sn_manifest source, ge_Delta = delta, ge_ExpectedPreviousID = previousID\<rparr>"

definition kind_text :: "ChangeKind \<Rightarrow> string" where
  "kind_text k = (case k of ChangeAdd \<Rightarrow> ''add'' | ChangeModify \<Rightarrow> ''modify'' | ChangeRename \<Rightarrow> ''rename'' | ChangeDelete \<Rightarrow> ''delete'')"

definition digestChanges :: "(string \<Rightarrow> string) \<Rightarrow> Change list \<Rightarrow> string" where
  "digestChanges sha changes = identity sha ''ouroboros.stage03.generation-delta.v1''
     (concat (map (\<lambda>c. [kind_text (ch_Kind c), ch_OldPath c, ch_NewPath c, ch_OldID c, ch_NewID c]) changes))"

definition receiptFromGeneration :: "(string \<Rightarrow> string) \<Rightarrow> Generation \<Rightarrow> string \<Rightarrow> generationReceipt" where
  "receiptFromGeneration sha g previousCommitOID =
    \<lparr>gr_ID = ge_ID g, gr_Sequence = ge_Sequence g, gr_SnapshotID = ge_SnapshotID g, gr_CommitOID = ge_CommitOID g,
     gr_TreeOID = ge_TreeOID g, gr_ManifestDigest = mf_Digest (ge_Manifest g), gr_PolicyDigest = mf_PolicyDigest (ge_Manifest g),
     gr_DeltaDigest = digestChanges sha (ge_Delta g), gr_ExpectedPreviousID = ge_ExpectedPreviousID g,
     gr_PreviousCommitOID = previousCommitOID\<rparr>"

definition receiptMatchesGeneration :: "(string \<Rightarrow> string) \<Rightarrow> generationReceipt \<Rightarrow> Generation \<Rightarrow> bool" where
  "receiptMatchesGeneration sha rcpt g \<longleftrightarrow>
    gr_ID rcpt = ge_ID g \<and> gr_SnapshotID rcpt = ge_SnapshotID g \<and> gr_CommitOID rcpt = ge_CommitOID g
    \<and> gr_TreeOID rcpt = ge_TreeOID g \<and> gr_ManifestDigest rcpt = mf_Digest (ge_Manifest g)
    \<and> gr_PolicyDigest rcpt = mf_PolicyDigest (ge_Manifest g) \<and> gr_DeltaDigest rcpt = digestChanges sha (ge_Delta g)"

text \<open>A snapshot reader for one source: readSnapshot with its other arguments fixed.\<close>

type_synonym reader = "string \<Rightarrow> ingest_error + snapshot"

definition hydrateGeneration :: "(string \<Rightarrow> string) \<Rightarrow> reader \<Rightarrow> (nat \<Rightarrow> bool) \<Rightarrow> string \<Rightarrow> generationReceipt \<Rightarrow> ingest_error + Generation" where
  "hydrateGeneration sha scan live sourceID rcpt =
    (case scan (gr_CommitOID rcpt) of
       Inl err \<Rightarrow> Inl err
     | Inr s \<Rightarrow>
         (case (if gr_Sequence rcpt > 1 then
                  (case scan (gr_PreviousCommitOID rcpt) of
                     Inl err \<Rightarrow> Inl err
                   | Inr previous \<Rightarrow>
                       (case deriveDelta live (mf_Files (sn_manifest previous)) (mf_Files (sn_manifest s)) of
                          None \<Rightarrow> Inl ICancelled | Some delta \<Rightarrow> Inr delta))
                else Inr []) of
            Inl err \<Rightarrow> Inl err
          | Inr delta \<Rightarrow>
              (let g = generationFromSnapshot sha sourceID (gr_Sequence rcpt) (gr_ExpectedPreviousID rcpt) s delta
               in if \<not> receiptMatchesGeneration sha rcpt g then Inl IGit else Inr g)))"


section \<open>Operation records\<close>

definition denialError :: "source_authority \<Rightarrow> ingest_error option" where
  "denialError a = (if ia_tombstoned a then Some ITombstoned else if ia_revoked a then Some IRevoked else None)"

definition validateOperationInput :: "bool \<Rightarrow> string \<Rightarrow> ingest_error option" where
  "validateOperationInput live key =
    (if \<not> live then Some ICancelled
     else if key = [] \<or> length key > 512 \<or> trim_space key \<noteq> key then Some IInvalidInput
     else if list_ex (\<lambda>(r, bs). r < 0x20 \<or> r = 0x7F) (runes_of key) then Some IInvalidInput
     else None)"

definition checkOperation :: "(string \<Rightarrow> string) \<Rightarrow> source_authority \<Rightarrow> string \<Rightarrow> string \<Rightarrow> ingest_error + operationRecord option" where
  "checkOperation sha a key signature =
    (case mget (ia_operations a) (sha key) of
       None \<Rightarrow> Inr None
     | Some r \<Rightarrow> if or_Signature r \<noteq> signature then Inl IConflict else Inr (Some r))"

definition commitGenerationOperation :: "(string \<Rightarrow> string) \<Rightarrow> string \<Rightarrow> string \<Rightarrow> operationKind \<Rightarrow> Generation \<Rightarrow> string
    \<Rightarrow> source_authority \<Rightarrow> ingest_error + source_authority" where
  "commitGenerationOperation sha key signature kind g previousCommitOID a =
    (let new = (mget (ia_operations a) (sha key) = None)
     in if new \<and> ia_normalOperations a \<ge> ic_MaxIdempotencyRecords (ia_config a) then Inl ILimit
        else Inr (a\<lparr>ia_operations := mput (sha key) \<lparr>or_Kind = kind, or_Signature = signature,
                      or_Result = Some (receiptFromGeneration sha g previousCommitOID), or_cached = Some g\<rparr> (ia_operations a),
                    ia_normalOperations := ia_normalOperations a + (if new then 1 else 0)\<rparr>))"

definition commitLifecycleOperation :: "(string \<Rightarrow> string) \<Rightarrow> string \<Rightarrow> string \<Rightarrow> operationKind \<Rightarrow> source_authority \<Rightarrow> source_authority" where
  "commitLifecycleOperation sha key signature kind a =
    a\<lparr>ia_operations := mput (sha key) \<lparr>or_Kind = kind, or_Signature = signature, or_Result = None, or_cached = None\<rparr> (ia_operations a)\<rparr>"

text \<open>A call returns, or releases the mutex to read a snapshot or to rebuild a receipt.\<close>

datatype reply = Reply "ingest_error + Generation" | NeedScan | NeedHydrate generationReceipt

definition replay_begin :: "operationRecord \<Rightarrow> reply" where
  "replay_begin r =
    (case or_Result r of
       None \<Rightarrow> Reply (Inl IConflict)
     | Some rcpt \<Rightarrow> (case or_cached r of Some g \<Rightarrow> Reply (Inr g) | None \<Rightarrow> NeedHydrate rcpt))"

definition replay_end :: "(string \<Rightarrow> string) \<Rightarrow> string \<Rightarrow> string \<Rightarrow> ingest_error + Generation \<Rightarrow> source_authority \<Rightarrow> reply \<times> source_authority" where
  "replay_end sha key signature hydrated a =
    (case denialError a of
       Some err \<Rightarrow> (Reply (Inl err), a)
     | None \<Rightarrow>
         (case hydrated of
            Inl err \<Rightarrow> (Reply (Inl err), a)
          | Inr g \<Rightarrow>
              (case checkOperation sha a key signature of
                 Inl err \<Rightarrow> (Reply (Inl err), a)
               | Inr None \<Rightarrow> (Reply (Inl IConflict), a)
               | Inr (Some r) \<Rightarrow>
                   if or_Result r = None then (Reply (Inl IConflict), a)
                   else (Reply (Inr g), a\<lparr>ia_operations := mput (sha key) (r\<lparr>or_cached := Some g\<rparr>) (ia_operations a)\<rparr>))))"


section \<open>Admission and reconciliation\<close>

definition admit_signature :: "(string \<Rightarrow> string) \<Rightarrow> Admission \<Rightarrow> string" where
  "admit_signature sha req = identity sha ''ouroboros.stage03.admit-request.v1'' [ad_ExpectedCommitOID req]"

text \<open>What both parts of an admission do when a generation is already current.\<close>

definition admit_existing :: "(string \<Rightarrow> string) \<Rightarrow> Admission \<Rightarrow> Generation \<Rightarrow> source_authority \<Rightarrow> reply \<times> source_authority" where
  "admit_existing sha req g a =
    (if ge_CommitOID g = ad_ExpectedCommitOID req then
       (case commitGenerationOperation sha (ad_IdempotencyKey req) (admit_signature sha req) operationAdmit g (ia_currentPreviousCommitOID a) a of
          Inl err \<Rightarrow> (Reply (Inl err), a)
        | Inr a' \<Rightarrow> (Reply (Inr g), a'))
     else (Reply (Inl IConflict), a))"

definition admit_begin :: "(string \<Rightarrow> string) \<Rightarrow> bool \<Rightarrow> Admission \<Rightarrow> source_authority \<Rightarrow> reply \<times> source_authority" where
  "admit_begin sha live req a =
    (case validateOperationInput live (ad_IdempotencyKey req) of Some err \<Rightarrow> (Reply (Inl err), a) | None \<Rightarrow>
     if \<not> isGitOID (ad_ExpectedCommitOID req) then (Reply (Inl IInvalidInput), a)
     else (case denialError a of Some err \<Rightarrow> (Reply (Inl err), a) | None \<Rightarrow>
     (case checkOperation sha a (ad_IdempotencyKey req) (admit_signature sha req) of
        Inl err \<Rightarrow> (Reply (Inl err), a)
      | Inr (Some r) \<Rightarrow> (replay_begin r, a)
      | Inr None \<Rightarrow> (case ia_current a of Some g \<Rightarrow> admit_existing sha req g a | None \<Rightarrow> (NeedScan, a)))))"

definition admit_end :: "(string \<Rightarrow> string) \<Rightarrow> Admission \<Rightarrow> ingest_error + snapshot \<Rightarrow> source_authority \<Rightarrow> reply \<times> source_authority" where
  "admit_end sha req scanned a =
    (case denialError a of Some err \<Rightarrow> (Reply (Inl err), a) | None \<Rightarrow>
     (case scanned of Inl err \<Rightarrow> (Reply (Inl err), a) | Inr s \<Rightarrow>
     (case checkOperation sha a (ad_IdempotencyKey req) (admit_signature sha req) of
        Inl err \<Rightarrow> (Reply (Inl err), a)
      | Inr (Some r) \<Rightarrow> (replay_begin r, a)
      | Inr None \<Rightarrow>
          (case ia_current a of
             Some g \<Rightarrow> admit_existing sha req g a
           | None \<Rightarrow>
               (let g = generationFromSnapshot sha (ia_sourceID a) 1 [] s []
                in (case commitGenerationOperation sha (ad_IdempotencyKey req) (admit_signature sha req) operationAdmit g [] a of
                      Inl err \<Rightarrow> (Reply (Inl err), a)
                    | Inr a' \<Rightarrow> (Reply (Inr g), a'\<lparr>ia_current := Some g, ia_currentPreviousCommitOID := []\<rparr>)))))))"

definition reconcile_signature :: "(string \<Rightarrow> string) \<Rightarrow> ReconcileRequest \<Rightarrow> string" where
  "reconcile_signature sha req = identity sha ''ouroboros.stage03.reconcile-request.v1''
     [rc_ExpectedGenerationID req, rc_ExpectedCommitOID req, rc_TargetCommitOID req]"

definition reconcile_begin :: "(string \<Rightarrow> string) \<Rightarrow> bool \<Rightarrow> ReconcileRequest \<Rightarrow> source_authority \<Rightarrow> reply \<times> source_authority" where
  "reconcile_begin sha live req a =
    (case validateOperationInput live (rc_IdempotencyKey req) of Some err \<Rightarrow> (Reply (Inl err), a) | None \<Rightarrow>
     if \<not> isDigest (rc_ExpectedGenerationID req) \<or> \<not> isGitOID (rc_ExpectedCommitOID req) \<or> \<not> isGitOID (rc_TargetCommitOID req)
     then (Reply (Inl IInvalidInput), a)
     else (case denialError a of Some err \<Rightarrow> (Reply (Inl err), a) | None \<Rightarrow>
     (case checkOperation sha a (rc_IdempotencyKey req) (reconcile_signature sha req) of
        Inl err \<Rightarrow> (Reply (Inl err), a)
      | Inr (Some r) \<Rightarrow> (replay_begin r, a)
      | Inr None \<Rightarrow>
          (case ia_current a of
             None \<Rightarrow> (Reply (Inl IStaleGeneration), a)
           | Some g \<Rightarrow>
               if ge_ID g \<noteq> rc_ExpectedGenerationID req \<or> ge_CommitOID g \<noteq> rc_ExpectedCommitOID req
               then (Reply (Inl IStaleGeneration), a)
               else if rc_TargetCommitOID req = rc_ExpectedCommitOID req then
                 (case commitGenerationOperation sha (rc_IdempotencyKey req) (reconcile_signature sha req) operationReconcile g
                         (ia_currentPreviousCommitOID a) a of
                    Inl err \<Rightarrow> (Reply (Inl err), a)
                  | Inr a' \<Rightarrow> (Reply (Inr g), a'\<lparr>ia_pendingHints := 0, ia_coverageLost := False\<rparr>))
               else (NeedScan, a)))))"

text \<open>The unlocked work of a reconciliation, from the generation current when it began.\<close>

definition reconcile_scan :: "reader \<Rightarrow> (nat \<Rightarrow> bool) \<Rightarrow> Generation \<Rightarrow> string \<Rightarrow> ingest_error + snapshot \<times> Change list" where
  "reconcile_scan scan live base target =
    (case scan target of
       Inl err \<Rightarrow> Inl err
     | Inr s \<Rightarrow> (case deriveDelta live (mf_Files (ge_Manifest base)) (mf_Files (sn_manifest s)) of
                   None \<Rightarrow> Inl ICancelled | Some delta \<Rightarrow> Inr (s, delta)))"

definition reconcile_end :: "(string \<Rightarrow> string) \<Rightarrow> ReconcileRequest \<Rightarrow> Generation \<Rightarrow> ingest_error + snapshot \<times> Change list
    \<Rightarrow> source_authority \<Rightarrow> reply \<times> source_authority" where
  "reconcile_end sha req base scanned a =
    (case denialError a of Some err \<Rightarrow> (Reply (Inl err), a) | None \<Rightarrow>
     (case scanned of Inl err \<Rightarrow> (Reply (Inl err), a) | Inr (s, delta) \<Rightarrow>
     (case checkOperation sha a (rc_IdempotencyKey req) (reconcile_signature sha req) of
        Inl err \<Rightarrow> (Reply (Inl err), a)
      | Inr (Some r) \<Rightarrow> (replay_begin r, a)
      | Inr None \<Rightarrow>
          (case ia_current a of
             None \<Rightarrow> (Reply (Inl IStaleGeneration), a)
           | Some cur \<Rightarrow>
               if ge_ID cur \<noteq> ge_ID base \<or> ge_CommitOID cur \<noteq> ge_CommitOID base then (Reply (Inl IStaleGeneration), a)
               else (let g = generationFromSnapshot sha (ia_sourceID a) (ge_Sequence base + 1) (ge_ID base) s delta
                     in (case commitGenerationOperation sha (rc_IdempotencyKey req) (reconcile_signature sha req) operationReconcile g
                                (ge_CommitOID base) a of
                           Inl err \<Rightarrow> (Reply (Inl err), a)
                         | Inr a' \<Rightarrow> (Reply (Inr g), a'\<lparr>ia_current := Some g, ia_currentPreviousCommitOID := ge_CommitOID base,
                                                         ia_pendingHints := 0, ia_coverageLost := False\<rparr>)))))))"

text \<open>The calls without interference.\<close>

definition hydrate_and_end :: "(string \<Rightarrow> string) \<Rightarrow> reader \<Rightarrow> (nat \<Rightarrow> bool) \<Rightarrow> string \<Rightarrow> string \<Rightarrow> reply \<times> source_authority
    \<Rightarrow> (ingest_error + Generation) \<times> source_authority" where
  "hydrate_and_end sha scan live key signature = (\<lambda>(r, a).
    (case r of
       Reply x \<Rightarrow> (x, a)
     | NeedScan \<Rightarrow> (Inl IGit, a)
     | NeedHydrate rcpt \<Rightarrow>
         (case replay_end sha key signature (hydrateGeneration sha scan live (ia_sourceID a) rcpt) a of
            (Reply x, a') \<Rightarrow> (x, a')
          | (_, a') \<Rightarrow> (Inl IGit, a'))))"

definition Admit :: "(string \<Rightarrow> string) \<Rightarrow> reader \<Rightarrow> (nat \<Rightarrow> bool) \<Rightarrow> Admission \<Rightarrow> source_authority \<Rightarrow> (ingest_error + Generation) \<times> source_authority" where
  "Admit sha scan live req a =
    (let begun = admit_begin sha (live 0) req a
     in hydrate_and_end sha scan live (ad_IdempotencyKey req) (admit_signature sha req)
          (if fst begun = NeedScan then admit_end sha req (scan (ad_ExpectedCommitOID req)) (snd begun) else begun))"

definition Reconcile :: "(string \<Rightarrow> string) \<Rightarrow> reader \<Rightarrow> (nat \<Rightarrow> bool) \<Rightarrow> ReconcileRequest \<Rightarrow> source_authority
    \<Rightarrow> (ingest_error + Generation) \<times> source_authority" where
  "Reconcile sha scan live req a =
    (let begun = reconcile_begin sha (live 0) req a
     in hydrate_and_end sha scan live (rc_IdempotencyKey req) (reconcile_signature sha req)
          (case (fst begun, ia_current a) of
             (NeedScan, Some base) \<Rightarrow> reconcile_end sha req base (reconcile_scan scan live base (rc_TargetCommitOID req)) (snd begun)
           | _ \<Rightarrow> begun))"


section \<open>Hints, revocation and deletion\<close>

fun hint_errors :: "int \<Rightarrow> WatchHint list \<Rightarrow> ingest_error option" where
  "hint_errors maxPathBytes [] = None"
| "hint_errors maxPathBytes (h # hs) =
    (if wh_Kind h = HintUnknown then Some IInvalidInput
     else if wh_Kind h = HintOverflow then
       (if wh_Path h \<noteq> [] \<or> wh_OldPath h \<noteq> [] then Some IInvalidInput else hint_errors maxPathBytes hs)
     else (case validateRepositoryPath (wh_Path h) maxPathBytes of
             Some err \<Rightarrow> Some err
           | None \<Rightarrow>
               if wh_Kind h = HintRename then
                 (case validateRepositoryPath (wh_OldPath h) maxPathBytes of Some err \<Rightarrow> Some err | None \<Rightarrow> hint_errors maxPathBytes hs)
               else if wh_OldPath h \<noteq> [] then Some IInvalidInput
               else hint_errors maxPathBytes hs))"

definition ObserveHints :: "WatchHint list \<Rightarrow> source_authority \<Rightarrow> ingest_error option \<times> source_authority" where
  "ObserveHints hints a =
    (case denialError a of Some err \<Rightarrow> (Some err, a) | None \<Rightarrow>
     if hints = [] then (Some IInvalidInput, a)
     else (case hint_errors (ic_MaxPathBytes (ia_config a)) hints of Some err \<Rightarrow> (Some err, a) | None \<Rightarrow>
       (let normalHints = int (length (filter (\<lambda>h. wh_Kind h \<noteq> HintOverflow) hints));
            overflow = list_ex (\<lambda>h. wh_Kind h = HintOverflow) hints
        in if normalHints > ic_MaxFiles (ia_config a) - ia_pendingHints a then (Some ILimit, a)
           else (None, a\<lparr>ia_pendingHints := ia_pendingHints a + normalHints, ia_coverageLost := ia_coverageLost a \<or> overflow\<rparr>))))"

definition revoke_signature :: "(string \<Rightarrow> string) \<Rightarrow> lifecycle_request \<Rightarrow> string" where
  "revoke_signature sha req = identity sha ''ouroboros.stage03.revoke-request.v1'' [lr_ExpectedGenerationID req]"

definition Revoke :: "(string \<Rightarrow> string) \<Rightarrow> bool \<Rightarrow> lifecycle_request \<Rightarrow> source_authority \<Rightarrow> ingest_error option \<times> source_authority" where
  "Revoke sha live req a =
    (case validateOperationInput live (lr_IdempotencyKey req) of Some err \<Rightarrow> (Some err, a) | None \<Rightarrow>
     if \<not> isDigest (lr_ExpectedGenerationID req) then (Some IInvalidInput, a)
     else (case checkOperation sha a (lr_IdempotencyKey req) (revoke_signature sha req) of
        Inl err \<Rightarrow> (Some err, a)
      | Inr (Some r) \<Rightarrow> (None, a)
      | Inr None \<Rightarrow>
          if ia_tombstoned a then (Some ITombstoned, a)
          else if ia_revoked a then (Some IRevoked, a)
          else if map_option ge_ID (ia_current a) \<noteq> Some (lr_ExpectedGenerationID req) then (Some IStaleGeneration, a)
          else (None, (commitLifecycleOperation sha (lr_IdempotencyKey req) (revoke_signature sha req) operationRevoke a)
                  \<lparr>ia_revoked := True, ia_pendingHints := 0, ia_coverageLost := False\<rparr>)))"

definition tombstone_signature :: "(string \<Rightarrow> string) \<Rightarrow> lifecycle_request \<Rightarrow> string" where
  "tombstone_signature sha req = identity sha ''ouroboros.stage03.tombstone-request.v1'' [lr_ExpectedGenerationID req]"

definition path_free :: "Generation \<Rightarrow> Generation" where
  "path_free g = g\<lparr>ge_Manifest := (ge_Manifest g)\<lparr>mf_Files := []\<rparr>, ge_Delta := []\<rparr>"

definition Tombstone :: "(string \<Rightarrow> string) \<Rightarrow> bool \<Rightarrow> lifecycle_request \<Rightarrow> source_authority \<Rightarrow> ingest_error option \<times> source_authority" where
  "Tombstone sha live req a =
    (case validateOperationInput live (lr_IdempotencyKey req) of Some err \<Rightarrow> (Some err, a) | None \<Rightarrow>
     if \<not> isDigest (lr_ExpectedGenerationID req) then (Some IInvalidInput, a)
     else (case checkOperation sha a (lr_IdempotencyKey req) (tombstone_signature sha req) of
        Inl err \<Rightarrow> (Some err, a)
      | Inr (Some r) \<Rightarrow> (None, a)
      | Inr None \<Rightarrow>
          if ia_tombstoned a then (Some ITombstoned, a)
          else if \<not> ia_revoked a \<or> map_option ge_ID (ia_current a) \<noteq> Some (lr_ExpectedGenerationID req) then (Some IStaleGeneration, a)
          else (None, (commitLifecycleOperation sha (lr_IdempotencyKey req) (tombstone_signature sha req) operationTombstone a)
                  \<lparr>ia_tombstoned := True, ia_current := map_option path_free (ia_current a)\<rparr>)))"

definition Current :: "source_authority \<Rightarrow> ingest_error + Generation" where
  "Current a = (case denialError a of Some err \<Rightarrow> Inl err
     | None \<Rightarrow> (case ia_current a of None \<Rightarrow> Inl IInvalidInput | Some g \<Rightarrow> Inr g))"

text \<open>A rescan of the current tree: it reads \<open>scanned\<close> while the state may have become \<open>a'\<close>.\<close>

definition Rebuild :: "bool \<Rightarrow> source_authority \<Rightarrow> (string \<Rightarrow> ingest_error + snapshot) \<Rightarrow> source_authority \<Rightarrow> ingest_error + Generation" where
  "Rebuild live a scan a' =
    (if \<not> live then Inl ICancelled
     else (case denialError a of Some err \<Rightarrow> Inl err | None \<Rightarrow>
     (case ia_current a of None \<Rightarrow> Inl IInvalidInput | Some base \<Rightarrow>
     (case denialError a' of Some err \<Rightarrow> Inl err | None \<Rightarrow>
     (case scan (ge_CommitOID base) of Inl err \<Rightarrow> Inl err | Inr s \<Rightarrow>
     (case ia_current a' of None \<Rightarrow> Inl IStaleGeneration | Some cur \<Rightarrow>
       if ge_ID cur \<noteq> ge_ID base \<or> ge_CommitOID cur \<noteq> ge_CommitOID base then Inl IStaleGeneration
       else if sn_tree s \<noteq> ge_TreeOID base \<or> mf_Digest (sn_manifest s) \<noteq> mf_Digest (ge_Manifest base)
               \<or> \<not> equalFiles (mf_Files (sn_manifest s)) (mf_Files (ge_Manifest base)) then Inl IGit
       else Inr (base\<lparr>ge_Manifest := sn_manifest s\<rparr>)))))))"


section \<open>Reading the current content\<close>

definition validateHydrationRequest :: "bool \<Rightarrow> ingest_config \<Rightarrow> HydrationRequest \<Rightarrow> ingest_error option" where
  "validateHydrationRequest live cfg req =
    (if \<not> isDigest (hr_ExpectedGenerationID req) \<or> hr_MaxFiles req \<le> 0 \<or> hr_MaxTotalBytes req \<le> 0 then Some IInvalidInput
     else if hr_MaxFiles req > ic_MaxFiles cfg \<or> hr_MaxTotalBytes req > ic_MaxTotalBytes cfg then Some ILimit
     else if \<not> live then Some ICancelled else None)"

fun size_bounds :: "int \<Rightarrow> int \<Rightarrow> FileRevision list \<Rightarrow> ingest_error option" where
  "size_bounds maxTotalBytes totalBytes [] = None"
| "size_bounds maxTotalBytes totalBytes (f # fs) =
    (if fr_SizeBytes f < 0 then Some IGit
     else if fr_SizeBytes f > maxTotalBytes - totalBytes then Some ILimit
     else size_bounds maxTotalBytes (totalBytes + fr_SizeBytes f) fs)"

definition validateHydrationBounds :: "FileRevision list \<Rightarrow> HydrationRequest \<Rightarrow> ingest_error option" where
  "validateHydrationBounds files req =
    (if int (length files) > hr_MaxFiles req then Some ILimit else size_bounds (hr_MaxTotalBytes req) 0 files)"

definition hydrationBase :: "HydrationRequest \<Rightarrow> source_authority \<Rightarrow> ingest_error + Generation" where
  "hydrationBase req a =
    (case denialError a of Some err \<Rightarrow> Inl err | None \<Rightarrow>
     (case ia_current a of None \<Rightarrow> Inl IInvalidInput | Some g \<Rightarrow>
       if ge_ID g \<noteq> hr_ExpectedGenerationID req then Inl IStaleGeneration
       else (case validateHydrationBounds (mf_Files (ge_Manifest g)) req of Some err \<Rightarrow> Inl err | None \<Rightarrow> Inr g)))"

definition snapshotMatchesGeneration :: "snapshot \<Rightarrow> Generation \<Rightarrow> bool" where
  "snapshotMatchesGeneration s g \<longleftrightarrow>
    sn_id s = ge_SnapshotID g \<and> sn_commit s = ge_CommitOID g \<and> sn_tree s = ge_TreeOID g
    \<and> mf_Digest (sn_manifest s) = mf_Digest (ge_Manifest g) \<and> mf_PolicyDigest (sn_manifest s) = mf_PolicyDigest (ge_Manifest g)
    \<and> equalFiles (mf_Files (sn_manifest s)) (mf_Files (ge_Manifest g))"

fun hydrate_files :: "(string \<Rightarrow> string) \<Rightarrow> (nat \<Rightarrow> bool) \<Rightarrow> (string, string) gomap \<Rightarrow> nat \<Rightarrow> FileRevision list \<Rightarrow> ingest_error + HydratedFile list" where
  "hydrate_files sha live blobs index [] = Inr []"
| "hydrate_files sha live blobs index (f # fs) =
    (if index mod 256 = 0 \<and> \<not> live (index div 256) then Inl ICancelled
     else (case mget blobs (fr_BlobOID f) of
             None \<Rightarrow> Inl IGit
           | Some content \<Rightarrow>
               if int (length content) \<noteq> fr_SizeBytes f \<or> sha content \<noteq> fr_ContentDigest f then Inl IGit
               else (case hydrate_files sha live blobs (index + 1) fs of
                       Inl err \<Rightarrow> Inl err
                     | Inr hs \<Rightarrow> Inr (\<lparr>hf_Revision = f, hf_Content = content\<rparr> # hs))))"

definition buildHydratedFiles :: "(string \<Rightarrow> string) \<Rightarrow> (nat \<Rightarrow> bool) \<Rightarrow> snapshot \<Rightarrow> (string, string) gomap \<Rightarrow> Generation
    \<Rightarrow> ingest_error + HydratedFile list" where
  "buildHydratedFiles sha live s blobs base =
    (if \<not> snapshotMatchesGeneration s base then Inl IGit else hydrate_files sha live blobs 0 (mf_Files (sn_manifest s)))"

text \<open>The read begins in state \<open>a\<close> and ends in state \<open>a'\<close>.\<close>

definition HydrateCurrent :: "(string \<Rightarrow> string) \<Rightarrow> (nat \<Rightarrow> bool) \<Rightarrow> HydrationRequest \<Rightarrow> source_authority
    \<Rightarrow> (string \<Rightarrow> ingest_error + snapshot \<times> (string, string) gomap) \<Rightarrow> source_authority \<Rightarrow> ingest_error + HydratedFile list" where
  "HydrateCurrent sha live req a scan a' =
    (case validateHydrationRequest (live 0) (ia_config a) req of Some err \<Rightarrow> Inl err | None \<Rightarrow>
     (case hydrationBase req a of Inl err \<Rightarrow> Inl err | Inr base \<Rightarrow>
     (case denialError a' of Some err \<Rightarrow> Inl err | None \<Rightarrow>
     (case scan (ge_CommitOID base) of Inl err \<Rightarrow> Inl err | Inr (s, blobs) \<Rightarrow>
     (case ia_current a' of None \<Rightarrow> Inl IStaleGeneration | Some cur \<Rightarrow>
       if ge_ID cur \<noteq> ge_ID base \<or> ge_CommitOID cur \<noteq> ge_CommitOID base then Inl IStaleGeneration
       else buildHydratedFiles sha (\<lambda>n. live (Suc n)) s blobs base)))))"


section \<open>Checkpoints\<close>

definition stateSchema :: string where "stateSchema = ''ouroboros.stage03.ingestion-state.v3''"

record persistedState =
  ps_Schema :: string
  ps_CheckpointDigest :: string
  ps_ConfigurationDigest :: string
  ps_ApprovedRootID :: string
  ps_SourceID :: string
  ps_Current :: "generationReceipt option"
  ps_Operations :: "(string, operationRecord) gomap"
  ps_PendingHints :: int
  ps_CoverageLost :: bool
  ps_Revoked :: bool
  ps_Tombstoned :: bool

definition cloneOperationRecord :: "operationRecord \<Rightarrow> operationRecord" where
  "cloneOperationRecord r = r\<lparr>or_cached := None\<rparr>"

definition clone_operations :: "(string, operationRecord) gomap \<Rightarrow> (string, operationRecord) gomap" where
  "clone_operations ops = map (\<lambda>(k, r). (k, cloneOperationRecord r)) ops"

text \<open>An encoding of states into some type of bytes, and the text of those bytes.  The package
  uses \<^verbatim>\<open>encoding/json\<close>, which does not write the unexported field \<^verbatim>\<open>cached\<close> of a record and
  writes the keys of a map in sorted order, so that what it reads back is the \<open>json_view\<close> of
  the state.  It reads back a valid state, whose strings are digests, object names and
  constants; strings that are not UTF-8 would not survive.\<close>

record 'b codec =
  cd_encode :: "persistedState \<Rightarrow> 'b"
  cd_decode :: "'b \<Rightarrow> persistedState option"
  cd_text :: "'b \<Rightarrow> string"

definition digestPersistedState :: "(string \<Rightarrow> string) \<Rightarrow> 'b codec \<Rightarrow> persistedState \<Rightarrow> string" where
  "digestPersistedState sha codec st = identity sha ''ouroboros.stage03.ingestion-checkpoint.v1''
     [cd_text codec (cd_encode codec (st\<lparr>ps_CheckpointDigest := []\<rparr>))]"

definition validateGenerationReceipt :: "generationReceipt \<Rightarrow> bool" where
  "validateGenerationReceipt rcpt \<longleftrightarrow>
    isDigest (gr_ID rcpt) \<and> gr_Sequence rcpt \<noteq> 0 \<and> isDigest (gr_SnapshotID rcpt) \<and> isGitOID (gr_CommitOID rcpt)
    \<and> isGitOID (gr_TreeOID rcpt) \<and> isDigest (gr_ManifestDigest rcpt) \<and> isDigest (gr_PolicyDigest rcpt) \<and> isDigest (gr_DeltaDigest rcpt)
    \<and> (if gr_Sequence rcpt = 1 then gr_ExpectedPreviousID rcpt = [] \<and> gr_PreviousCommitOID rcpt = []
       else isDigest (gr_ExpectedPreviousID rcpt) \<and> isGitOID (gr_PreviousCommitOID rcpt))"

definition normal_kind :: "operationRecord \<Rightarrow> bool" where
  "normal_kind r \<longleftrightarrow> or_Kind r = operationAdmit \<or> or_Kind r = operationReconcile"

definition count_ops :: "(operationRecord \<Rightarrow> bool) \<Rightarrow> (string, operationRecord) gomap \<Rightarrow> nat" where
  "count_ops P ops = length (filter (\<lambda>(k, r). P r) ops)"

definition record_ok :: "operationRecord \<Rightarrow> bool" where
  "record_ok r \<longleftrightarrow> isDigest (or_Signature r)
    \<and> (if normal_kind r then (case or_Result r of None \<Rightarrow> False | Some rcpt \<Rightarrow> validateGenerationReceipt rcpt) else or_Result r = None)"

text \<open>A normal operation recorded the current receipt, or the one before it.\<close>

definition records_receipt :: "generationReceipt \<Rightarrow> operationRecord \<Rightarrow> bool" where
  "records_receipt cur r \<longleftrightarrow> normal_kind r \<and> or_Result r = Some cur"

definition records_previous :: "generationReceipt \<Rightarrow> operationRecord \<Rightarrow> bool" where
  "records_previous cur r \<longleftrightarrow> normal_kind r
    \<and> (case or_Result r of None \<Rightarrow> False
       | Some rcpt \<Rightarrow> gr_ID rcpt = gr_ExpectedPreviousID cur \<and> gr_Sequence rcpt = gr_Sequence cur - 1
           \<and> gr_CommitOID rcpt = gr_PreviousCommitOID cur)"

definition validatePersistedState :: "(string \<Rightarrow> string) \<Rightarrow> 'b codec \<Rightarrow> int \<Rightarrow> int \<Rightarrow> persistedState \<Rightarrow> bool" where
  "validatePersistedState sha codec maxOperations maxHints st \<longleftrightarrow>
    ps_Schema st = stateSchema \<and> isDigest (ps_CheckpointDigest st) \<and> isDigest (ps_ConfigurationDigest st)
    \<and> isDigest (ps_ApprovedRootID st) \<and> isDigest (ps_SourceID st)
    \<and> 0 \<le> ps_PendingHints st \<and> ps_PendingHints st \<le> maxHints
    \<and> int (length (ps_Operations st)) \<le> maxOperations + 2 \<and> (ps_Tombstoned st \<longrightarrow> ps_Revoked st)
    \<and> (case ps_Current st of None \<Rightarrow> True | Some cur \<Rightarrow> validateGenerationReceipt cur)
    \<and> list_all (\<lambda>(k, r). isDigest k \<and> record_ok r) (ps_Operations st)
    \<and> count_ops (\<lambda>r. or_Kind r = operationRevoke) (ps_Operations st) \<le> 1
    \<and> count_ops (\<lambda>r. or_Kind r = operationTombstone) (ps_Operations st) \<le> 1
    \<and> int (count_ops normal_kind (ps_Operations st)) \<le> maxOperations
    \<and> (case ps_Current st of
         None \<Rightarrow> ps_Operations st = [] \<and> \<not> ps_Revoked st \<and> \<not> ps_Tombstoned st \<and> ps_PendingHints st = 0 \<and> \<not> ps_CoverageLost st
       | Some cur \<Rightarrow> list_ex (\<lambda>(k, r). records_receipt cur r) (ps_Operations st)
           \<and> ps_Revoked st = (count_ops (\<lambda>r. or_Kind r = operationRevoke) (ps_Operations st) = 1)
           \<and> ps_Tombstoned st = (count_ops (\<lambda>r. or_Kind r = operationTombstone) (ps_Operations st) = 1)
           \<and> (gr_Sequence cur > 1 \<longrightarrow> list_ex (\<lambda>(k, r). records_previous cur r) (ps_Operations st)))
    \<and> ps_CheckpointDigest st = digestPersistedState sha codec st"

definition checkpoint_state :: "(string \<Rightarrow> string) \<Rightarrow> source_authority \<Rightarrow> persistedState" where
  "checkpoint_state sha a =
    \<lparr>ps_Schema = stateSchema, ps_CheckpointDigest = [], ps_ConfigurationDigest = ic_ConfigurationDigest (ia_config a),
     ps_ApprovedRootID = ia_approvedRootID a, ps_SourceID = ia_sourceID a,
     ps_Current = map_option (\<lambda>g. receiptFromGeneration sha g (ia_currentPreviousCommitOID a)) (ia_current a),
     ps_Operations = clone_operations (ia_operations a), ps_PendingHints = ia_pendingHints a, ps_CoverageLost = ia_coverageLost a,
     ps_Revoked = ia_revoked a, ps_Tombstoned = ia_tombstoned a\<rparr>"

definition json_view :: "persistedState \<Rightarrow> persistedState" where
  "json_view st = st\<lparr>ps_Operations := sort_key fst (clone_operations (ps_Operations st))\<rparr>"

definition json_codec :: "(string \<Rightarrow> string) \<Rightarrow> ingest_config \<Rightarrow> 'b codec \<Rightarrow> bool" where
  "json_codec sha cfg codec \<longleftrightarrow> (\<forall>st. cd_encode codec (json_view st) = cd_encode codec st)
    \<and> (\<forall>st. wf_map (ps_Operations st)
        \<and> validatePersistedState sha codec (ic_MaxIdempotencyRecords cfg) (ic_MaxFiles cfg) st
        \<longrightarrow> cd_decode codec (cd_encode codec st) = Some (json_view st))"

definition MarshalBinary :: "(string \<Rightarrow> string) \<Rightarrow> 'b codec \<Rightarrow> source_authority \<Rightarrow> ingest_error + 'b" where
  "MarshalBinary sha codec a =
    (let st = (checkpoint_state sha a)\<lparr>ps_CheckpointDigest := digestPersistedState sha codec (checkpoint_state sha a)\<rparr>
     in if \<not> validatePersistedState sha codec (ic_MaxIdempotencyRecords (ia_config a)) (ic_MaxFiles (ia_config a)) st
        then Inl IInvalidInput
        else Inr (cd_encode codec st))"

definition generationFromReceiptPathFree :: "string \<Rightarrow> generationReceipt \<Rightarrow> Generation" where
  "generationFromReceiptPathFree sourceID rcpt =
    \<lparr>ge_ID = gr_ID rcpt, ge_Sequence = gr_Sequence rcpt, ge_SourceID = sourceID, ge_SnapshotID = gr_SnapshotID rcpt,
     ge_CommitOID = gr_CommitOID rcpt, ge_TreeOID = gr_TreeOID rcpt,
     ge_Manifest = \<lparr>mf_Digest = gr_ManifestDigest rcpt, mf_PolicyDigest = gr_PolicyDigest rcpt, mf_Files = []\<rparr>,
     ge_Delta = [], ge_ExpectedPreviousID = gr_ExpectedPreviousID rcpt\<rparr>"

definition Restore :: "(string \<Rightarrow> string) \<Rightarrow> 'b codec \<Rightarrow> reader \<Rightarrow> (nat \<Rightarrow> bool) \<Rightarrow> ingest_error option \<Rightarrow> ingest_config \<Rightarrow> 'b
    \<Rightarrow> ingest_error + source_authority" where
  "Restore sha codec scan live rootErr cfg encoded =
    (case New sha rootErr cfg of Inl err \<Rightarrow> Inl err | Inr a \<Rightarrow>
     (case cd_decode codec encoded of None \<Rightarrow> Inl IInvalidInput | Some st \<Rightarrow>
       if \<not> validatePersistedState sha codec (ic_MaxIdempotencyRecords cfg) (ic_MaxFiles cfg) st then Inl IInvalidInput
       else if ps_ConfigurationDigest st \<noteq> ic_ConfigurationDigest cfg \<or> ps_ApprovedRootID st \<noteq> ia_approvedRootID a
               \<or> ps_SourceID st \<noteq> ia_sourceID a then Inl IInvalidInput
       else (let a1 = a\<lparr>ia_operations := ps_Operations st, ia_normalOperations := int (count_ops normal_kind (ps_Operations st)),
                        ia_pendingHints := ps_PendingHints st, ia_coverageLost := ps_CoverageLost st, ia_revoked := ps_Revoked st,
                        ia_tombstoned := ps_Tombstoned st\<rparr>
             in (case ps_Current st of
                   None \<Rightarrow> Inr a1
                 | Some cur \<Rightarrow>
                     (let a2 = a1\<lparr>ia_currentPreviousCommitOID := gr_PreviousCommitOID cur\<rparr>
                      in if ps_Revoked st then Inr (a2\<lparr>ia_current := Some (generationFromReceiptPathFree (ia_sourceID a) cur)\<rparr>)
                         else (case hydrateGeneration sha scan live (ia_sourceID a) cur of
                                 Inl err \<Rightarrow> Inl err
                               | Inr g \<Rightarrow> Inr (a2\<lparr>ia_current := Some g\<rparr>)))))))"


section \<open>Interleaved calls\<close>

datatype pending = Idle
  | AdmitScan Admission | AdmitHydrate Admission generationReceipt
  | ReconcileScan ReconcileRequest Generation | ReconcileHydrate ReconcileRequest generationReceipt

text \<open>The authority, the state of each caller, and the generations returned so far, each
  with whether the source was still active.\<close>

record isys =
  is_auth :: source_authority
  is_calls :: "nat \<Rightarrow> pending"
  is_returned :: "(Generation \<times> bool) list"

definition iinit :: "(string \<Rightarrow> string) \<Rightarrow> ingest_config \<Rightarrow> isys" where
  "iinit sha cfg = \<lparr>is_auth = new_authority sha cfg, is_calls = (\<lambda>_. Idle), is_returned = []\<rparr>"

definition settle :: "nat \<Rightarrow> pending \<Rightarrow> (generationReceipt \<Rightarrow> pending) \<Rightarrow> reply \<times> source_authority \<Rightarrow> isys \<Rightarrow> isys" where
  "settle i scanning hydrating = (\<lambda>(r, a) s.
    s\<lparr>is_auth := a,
      is_calls := (is_calls s)(i := (case r of Reply _ \<Rightarrow> Idle | NeedScan \<Rightarrow> scanning | NeedHydrate rcpt \<Rightarrow> hydrating rcpt)),
      is_returned := (case r of Reply (Inr g) \<Rightarrow> (g, denialError a = None) # is_returned s | _ \<Rightarrow> is_returned s)\<rparr>)"

definition unlocked :: "ingest_error + 'a \<Rightarrow> ingest_error + 'a \<Rightarrow> bool" where
  "unlocked r result \<longleftrightarrow> r = result \<or> (\<exists>err. r = Inl err)"

inductive istep :: "(string \<Rightarrow> string) \<Rightarrow> reader \<Rightarrow> isys \<Rightarrow> isys \<Rightarrow> bool" for sha scan where
  admit: "is_calls s i = Idle \<Longrightarrow>
    istep sha scan s (settle i (AdmitScan req) (AdmitHydrate req) (admit_begin sha live req (is_auth s)) s)"
| admit_scanned: "is_calls s i = AdmitScan req \<Longrightarrow> unlocked r (scan (ad_ExpectedCommitOID req)) \<Longrightarrow>
    istep sha scan s (settle i Idle (AdmitHydrate req) (admit_end sha req r (is_auth s)) s)"
| admit_hydrated: "is_calls s i = AdmitHydrate req rcpt \<Longrightarrow>
    unlocked h (hydrateGeneration sha scan lives (ia_sourceID (is_auth s)) rcpt) \<Longrightarrow>
    istep sha scan s (settle i Idle (\<lambda>_. Idle) (replay_end sha (ad_IdempotencyKey req) (admit_signature sha req) h (is_auth s)) s)"
| reconcile: "is_calls s i = Idle \<Longrightarrow>
    istep sha scan s (settle i (case ia_current (is_auth s) of None \<Rightarrow> Idle | Some base \<Rightarrow> ReconcileScan req base) (ReconcileHydrate req)
      (reconcile_begin sha live req (is_auth s)) s)"
| reconcile_scanned: "is_calls s i = ReconcileScan req base \<Longrightarrow>
    unlocked r (reconcile_scan scan lives base (rc_TargetCommitOID req)) \<Longrightarrow>
    istep sha scan s (settle i Idle (ReconcileHydrate req) (reconcile_end sha req base r (is_auth s)) s)"
| reconcile_hydrated: "is_calls s i = ReconcileHydrate req rcpt \<Longrightarrow>
    unlocked h (hydrateGeneration sha scan lives (ia_sourceID (is_auth s)) rcpt) \<Longrightarrow>
    istep sha scan s (settle i Idle (\<lambda>_. Idle) (replay_end sha (rc_IdempotencyKey req) (reconcile_signature sha req) h (is_auth s)) s)"
| revoke: "istep sha scan s (s\<lparr>is_auth := snd (Revoke sha live lreq (is_auth s))\<rparr>)"
| tombstone: "istep sha scan s (s\<lparr>is_auth := snd (Tombstone sha live lreq (is_auth s))\<rparr>)"
| hints: "istep sha scan s (s\<lparr>is_auth := snd (ObserveHints hs (is_auth s))\<rparr>)"

definition ireach :: "(string \<Rightarrow> string) \<Rightarrow> reader \<Rightarrow> ingest_config \<Rightarrow> isys \<Rightarrow> bool" where
  "ireach sha scan cfg s \<longleftrightarrow> (istep sha scan)\<^sup>*\<^sup>* (iinit sha cfg) s"


section \<open>The invariant\<close>

text \<open>What reading a snapshot guarantees (\<open>read_snapshot_ok\<close>).\<close>

definition reader_ok :: "reader \<Rightarrow> bool" where
  "reader_ok scan \<longleftrightarrow> (\<forall>c s. scan c = Inr s \<longrightarrow> snapshot_ok c s)"

text \<open>A generation is the one its commit and its predecessor's commit determine.\<close>

definition generation_of :: "(string \<Rightarrow> string) \<Rightarrow> reader \<Rightarrow> string \<Rightarrow> Generation \<Rightarrow> string \<Rightarrow> bool" where
  "generation_of sha scan sid g prev \<longleftrightarrow> ge_Sequence g \<noteq> 0 \<and>
    (\<exists>s. scan (ge_CommitOID g) = Inr s \<and>
      (if ge_Sequence g = 1 then prev = [] \<and> g = generationFromSnapshot sha sid 1 [] s []
       else \<exists>s0 delta. scan prev = Inr s0 \<and> isDigest (ge_ExpectedPreviousID g)
         \<and> deriveDelta (\<lambda>_. True) (mf_Files (sn_manifest s0)) (mf_Files (sn_manifest s)) = Some delta
         \<and> g = generationFromSnapshot sha sid (ge_Sequence g) (ge_ExpectedPreviousID g) s delta))"

definition recorded :: "(operationRecord \<Rightarrow> bool) \<Rightarrow> source_authority \<Rightarrow> bool" where
  "recorded P a \<longleftrightarrow> list_ex (\<lambda>(k, r). P r) (clone_operations (ia_operations a))"

definition published :: "(string \<Rightarrow> string) \<Rightarrow> reader \<Rightarrow> source_authority \<Rightarrow> Generation \<Rightarrow> string \<Rightarrow> bool" where
  "published sha scan a g prev \<longleftrightarrow> generation_of sha scan (ia_sourceID a) g prev \<and> int (unat (ge_Sequence g)) \<le> ia_normalOperations a
    \<and> recorded (records_receipt (receiptFromGeneration sha g prev)) a
    \<and> (ge_Sequence g \<noteq> 1 \<longrightarrow> recorded (records_previous (receiptFromGeneration sha g prev)) a)"

definition base_inv :: "(string \<Rightarrow> string) \<Rightarrow> source_authority \<Rightarrow> bool" where
  "base_inv sha a \<longleftrightarrow> validateConfig (ia_config a)
    \<and> ia_approvedRootID a = ia_approvedRootID (new_authority sha (ia_config a))
    \<and> ia_sourceID a = ia_sourceID (new_authority sha (ia_config a))
    \<and> 0 \<le> ia_pendingHints a \<and> ia_pendingHints a \<le> ic_MaxFiles (ia_config a)"

definition ops_inv :: "source_authority \<Rightarrow> bool" where
  "ops_inv a \<longleftrightarrow> (let ops = clone_operations (ia_operations a) in
     wf_map ops \<and> list_all (\<lambda>(k, r). isDigest k \<and> record_ok r) ops
     \<and> ia_normalOperations a = int (count_ops normal_kind ops)
     \<and> ia_normalOperations a \<le> ic_MaxIdempotencyRecords (ia_config a)
     \<and> count_ops (\<lambda>r. or_Kind r = operationRevoke) ops = (if ia_revoked a then 1 else 0)
     \<and> count_ops (\<lambda>r. or_Kind r = operationTombstone) ops = (if ia_tombstoned a then 1 else 0)
     \<and> (ia_tombstoned a \<longrightarrow> ia_revoked a))"

definition current_inv :: "(string \<Rightarrow> string) \<Rightarrow> reader \<Rightarrow> source_authority \<Rightarrow> bool" where
  "current_inv sha scan a \<longleftrightarrow> (case ia_current a of
      None \<Rightarrow> ia_operations a = [] \<and> ia_currentPreviousCommitOID a = []
    | Some g \<Rightarrow> \<exists>g0. published sha scan a g0 (ia_currentPreviousCommitOID a) \<and> g = (if ia_tombstoned a then path_free g0 else g0))"

definition ainv :: "(string \<Rightarrow> string) \<Rightarrow> reader \<Rightarrow> source_authority \<Rightarrow> bool" where
  "ainv sha scan a \<longleftrightarrow> base_inv sha a \<and> ops_inv a \<and> current_inv sha scan a"

subsection \<open>Records\<close>

lemma clone_fresh: "mget ops k = None \<Longrightarrow> clone_operations (mput k r ops) = clone_operations ops @ [(k, cloneOperationRecord r)]"
  by (induction ops) (auto simp: clone_operations_def split: if_split_asm)

lemma clone_cached: "mget ops k = Some r \<Longrightarrow> clone_operations (mput k (r\<lparr>or_cached := c\<rparr>) ops) = clone_operations ops"
  by (induction ops) (auto simp: clone_operations_def cloneOperationRecord_def split: if_split_asm)

lemma clone_keys: "map fst (clone_operations ops) = map fst ops"
  by (induction ops) (auto simp: clone_operations_def)

lemma clone_wf: "wf_map (clone_operations ops) = wf_map ops"
  unfolding wf_map_def clone_keys ..

lemma clone_idem [simp]: "clone_operations (clone_operations ops) = clone_operations ops"
  by (induction ops) (auto simp: clone_operations_def cloneOperationRecord_def)

lemma count_append [simp]: "count_ops P (ops @ [(k, r)]) = count_ops P ops + (if P r then 1 else 0)"
  by (simp add: count_ops_def)

lemma count_split: "count_ops normal_kind ops + count_ops (\<lambda>r. or_Kind r = operationRevoke) ops
    + count_ops (\<lambda>r. or_Kind r = operationTombstone) ops = length ops"
proof (induction ops)
  case (Cons x ops)
  then show ?case by (cases "or_Kind (snd x)") (auto simp: count_ops_def normal_kind_def split_beta)
qed (simp add: count_ops_def)

lemma receipt_simps [simp]:
  "gr_ID (receiptFromGeneration sha g p) = ge_ID g" "gr_Sequence (receiptFromGeneration sha g p) = ge_Sequence g"
  "gr_CommitOID (receiptFromGeneration sha g p) = ge_CommitOID g"
  "gr_ExpectedPreviousID (receiptFromGeneration sha g p) = ge_ExpectedPreviousID g"
  "gr_PreviousCommitOID (receiptFromGeneration sha g p) = p"
  by (simp_all add: receiptFromGeneration_def)

lemma generation_receipt_ok:
  assumes "hash_text sha" "reader_ok scan" "generation_of sha scan sid g prev"
  shows "validateGenerationReceipt (receiptFromGeneration sha g prev)"
proof -
  obtain s where s: "scan (ge_CommitOID g) = Inr s" using assms(3) unfolding generation_of_def by blast
  then have ok: "snapshot_ok (ge_CommitOID g) s" using assms(2) unfolding reader_ok_def by blast
  show ?thesis
  proof (cases "ge_Sequence g = 1")
    case True
    then have "prev = []" "g = generationFromSnapshot sha sid 1 [] s []" using assms(3) s unfolding generation_of_def by auto
    then show ?thesis using ok identity_digest[OF assms(1)]
      by (simp add: validateGenerationReceipt_def receiptFromGeneration_def generationFromSnapshot_def snapshot_ok_def digestChanges_def)
  next
    case False
    then obtain s0 delta where d: "scan prev = Inr s0" "isDigest (ge_ExpectedPreviousID g)"
      "g = generationFromSnapshot sha sid (ge_Sequence g) (ge_ExpectedPreviousID g) s delta" "ge_Sequence g \<noteq> 0"
      using assms(3) s unfolding generation_of_def by auto
    have "isGitOID prev" using d(1) assms(2) unfolding reader_ok_def snapshot_ok_def by blast
    moreover have "isDigest (ge_ID g)" "ge_SnapshotID g = sn_id s" "ge_TreeOID g = sn_tree s" "ge_Manifest g = sn_manifest s"
      using arg_cong[OF d(3), of ge_ID] arg_cong[OF d(3), of ge_SnapshotID] arg_cong[OF d(3), of ge_TreeOID]
        arg_cong[OF d(3), of ge_Manifest] identity_digest[OF assms(1)] by (simp_all add: generationFromSnapshot_def)
    ultimately show ?thesis using ok d(2,4) False identity_digest[OF assms(1)]
      by (simp add: validateGenerationReceipt_def receiptFromGeneration_def snapshot_ok_def digestChanges_def)
  qed
qed


subsection \<open>Committing\<close>

text \<open>Records are only added; a replay may fill in a record's cached generation.\<close>

definition grows :: "source_authority \<Rightarrow> source_authority \<Rightarrow> bool" where
  "grows a a' \<longleftrightarrow> (\<exists>xs. clone_operations (ia_operations a') = clone_operations (ia_operations a) @ xs)
    \<and> ia_normalOperations a \<le> ia_normalOperations a' \<and> ia_sourceID a' = ia_sourceID a"

lemma grows_refl [simp]: "grows a a"
  by (simp add: grows_def)

lemma recorded_grows: "grows a a' \<Longrightarrow> recorded P a \<Longrightarrow> recorded P a'"
  by (auto simp: grows_def recorded_def)

lemma published_grows: "grows a a' \<Longrightarrow> published sha scan a g prev \<Longrightarrow> published sha scan a' g prev"
  unfolding published_def using recorded_grows by (auto simp: grows_def)

lemma denial_None: "denialError a = None \<longleftrightarrow> \<not> ia_tombstoned a \<and> \<not> ia_revoked a"
  by (simp add: denialError_def)

lemma commit_ok:
  assumes H: "hash_text sha" "reader_ok scan" and inv: "ainv sha scan a" and live: "denialError a = None"
    and fresh: "mget (ia_operations a) (sha key) = None" and kind: "kind = operationAdmit \<or> kind = operationReconcile"
    and com: "commitGenerationOperation sha key sig kind g prev a = Inr a'" and sig: "isDigest sig"
    and gen: "generation_of sha scan (ia_sourceID a) g prev" and seq: "int (unat (ge_Sequence g)) \<le> ia_normalOperations a + 1"
    and prev: "ge_Sequence g \<noteq> 1 \<Longrightarrow> recorded (records_previous (receiptFromGeneration sha g prev)) a"
    and h: "0 \<le> h" "h \<le> ic_MaxFiles (ia_config a)"
  shows "let b = a'\<lparr>ia_current := Some g, ia_currentPreviousCommitOID := prev, ia_pendingHints := h, ia_coverageLost := c\<rparr>
    in ainv sha scan b \<and> grows a b \<and> denialError b = None"
proof -
  let ?b = "a'\<lparr>ia_current := Some g, ia_currentPreviousCommitOID := prev, ia_pendingHints := h, ia_coverageLost := c\<rparr>"
  let ?r = "\<lparr>or_Kind = kind, or_Signature = sig, or_Result = Some (receiptFromGeneration sha g prev), or_cached = Some g\<rparr>"
  have lim: "\<not> ia_normalOperations a \<ge> ic_MaxIdempotencyRecords (ia_config a)"
    and a': "a' = a\<lparr>ia_operations := mput (sha key) ?r (ia_operations a), ia_normalOperations := ia_normalOperations a + 1\<rparr>"
    using com fresh by (simp_all add: commitGenerationOperation_def Let_def split: if_split_asm)
  have ops: "clone_operations (ia_operations ?b) = clone_operations (ia_operations a) @ [(sha key, cloneOperationRecord ?r)]"
    using clone_fresh[OF fresh] by (simp add: a')
  have kept: "ia_config ?b = ia_config a" "ia_revoked ?b = ia_revoked a" "ia_tombstoned ?b = ia_tombstoned a"
    "ia_sourceID ?b = ia_sourceID a" "ia_approvedRootID ?b = ia_approvedRootID a" "ia_normalOperations ?b = ia_normalOperations a + 1"
    by (simp_all add: a')
  have new: "normal_kind (cloneOperationRecord ?r)" "or_Kind (cloneOperationRecord ?r) \<noteq> operationRevoke"
    "or_Kind (cloneOperationRecord ?r) \<noteq> operationTombstone" "record_ok (cloneOperationRecord ?r)"
    "records_receipt (receiptFromGeneration sha g prev) (cloneOperationRecord ?r)"
    using kind sig generation_receipt_ok[OF H gen]
    by (auto simp: cloneOperationRecord_def normal_kind_def record_ok_def records_receipt_def)
  have "sha key \<notin> set (map fst (clone_operations (ia_operations a)))" using fresh unfolding clone_keys by (simp add: map_of_eq_None_iff)
  moreover have "isDigest (sha key)" using H(1) by (simp add: hash_text_def)
  ultimately have o: "ops_inv ?b" using inv lim new unfolding ainv_def ops_inv_def Let_def ops kept by (auto simp: wf_map_def)
  have g: "grows a ?b" unfolding grows_def ops kept by simp
  have "recorded (records_receipt (receiptFromGeneration sha g prev)) ?b" unfolding recorded_def ops using new(5) by simp
  moreover have "ge_Sequence g \<noteq> 1 \<longrightarrow> recorded (records_previous (receiptFromGeneration sha g prev)) ?b"
    using prev recorded_grows[OF g] by blast
  ultimately have "published sha scan ?b g prev" using gen seq unfolding published_def kept by simp
  then have "current_inv sha scan ?b" using live by (simp add: current_inv_def denial_None a')
  moreover have "base_inv sha ?b" using inv h by (simp add: ainv_def base_inv_def a')
  moreover have "denialError ?b = None" using live by (simp add: denial_None a')
  ultimately show ?thesis using o g by (simp add: ainv_def Let_def)
qed

subsection \<open>Each part of a call\<close>

definition part_ok :: "(string \<Rightarrow> string) \<Rightarrow> reader \<Rightarrow> source_authority \<Rightarrow> reply \<times> source_authority \<Rightarrow> bool" where
  "part_ok sha scan a x \<longleftrightarrow> ainv sha scan (snd x) \<and> grows a (snd x)
    \<and> (\<forall>g. fst x = Reply (Inr g) \<longrightarrow> denialError (snd x) = None)"

lemma part_ok_same: "ainv sha scan a \<Longrightarrow> (\<And>g. r = Reply (Inr g) \<Longrightarrow> denialError a = None) \<Longrightarrow> part_ok sha scan a (r, a)"
  by (simp add: part_ok_def)

lemma check_fresh: "checkOperation sha a key sig = Inr None \<Longrightarrow> mget (ia_operations a) (sha key) = None"
  by (auto simp: checkOperation_def split: option.split_asm if_split_asm)

lemma check_found: "checkOperation sha a key sig = Inr (Some r) \<Longrightarrow> mget (ia_operations a) (sha key) = Some r"
  by (auto simp: checkOperation_def split: option.split_asm if_split_asm)

lemma lifecycle_ok:
  assumes H: "hash_text sha" and inv: "ainv sha scan a" and chk: "checkOperation sha a key sig = Inr None" and sig: "isDigest sig"
    and cur: "ia_current a = Some g" and live: "\<not> ia_tombstoned a"
  shows "\<not> ia_revoked a \<Longrightarrow> ainv sha scan ((commitLifecycleOperation sha key sig operationRevoke a)
      \<lparr>ia_revoked := True, ia_pendingHints := 0, ia_coverageLost := False\<rparr>)"
    and "ia_revoked a \<Longrightarrow> ainv sha scan ((commitLifecycleOperation sha key sig operationTombstone a)
      \<lparr>ia_tombstoned := True, ia_current := map_option path_free (ia_current a)\<rparr>)"
proof -
  note fresh = check_fresh[OF chk]
  have dig: "isDigest (sha key)" using H by (simp add: hash_text_def)
  have notin: "sha key \<notin> set (map fst (clone_operations (ia_operations a)))" using fresh unfolding clone_keys by (simp add: map_of_eq_None_iff)
  have ops: "clone_operations (ia_operations (commitLifecycleOperation sha key sig k a))
      = clone_operations (ia_operations a) @ [(sha key, \<lparr>or_Kind = k, or_Signature = sig, or_Result = None, or_cached = None\<rparr>)]" for k
    using clone_fresh[OF fresh] by (simp add: commitLifecycleOperation_def cloneOperationRecord_def)
  have gr: "grows a b" if "ia_operations b = ia_operations (commitLifecycleOperation sha key sig k a)"
    "ia_normalOperations b = ia_normalOperations a" "ia_sourceID b = ia_sourceID a" for b k
    using that ops[of k] unfolding grows_def by simp
  have pub: "published sha scan a g (ia_currentPreviousCommitOID a)" using inv cur live by (simp add: ainv_def current_inv_def)
  have cfg: "0 < ic_MaxFiles (ia_config a)" using inv by (simp add: ainv_def base_inv_def validateConfig_def)
  show "ainv sha scan ((commitLifecycleOperation sha key sig operationRevoke a)
      \<lparr>ia_revoked := True, ia_pendingHints := 0, ia_coverageLost := False\<rparr>)" (is "ainv _ _ ?b") if r: "\<not> ia_revoked a"
  proof -
    have "clone_operations (ia_operations ?b) = clone_operations (ia_operations a)
        @ [(sha key, \<lparr>or_Kind = operationRevoke, or_Signature = sig, or_Result = None, or_cached = None\<rparr>)]" using ops by simp
    then have "ops_inv ?b" using inv r dig notin sig live unfolding ainv_def ops_inv_def Let_def
      by (auto simp: wf_map_def record_ok_def normal_kind_def commitLifecycleOperation_def)
    moreover have "grows a ?b" by (rule gr) (simp_all add: commitLifecycleOperation_def)
    then have "published sha scan ?b g (ia_currentPreviousCommitOID a)" using pub by (rule published_grows)
    then have "current_inv sha scan ?b" using cur live by (simp add: current_inv_def commitLifecycleOperation_def)
    moreover have "base_inv sha ?b" using inv cfg by (simp add: ainv_def base_inv_def commitLifecycleOperation_def)
    ultimately show ?thesis by (simp add: ainv_def)
  qed
  show "ainv sha scan ((commitLifecycleOperation sha key sig operationTombstone a)
      \<lparr>ia_tombstoned := True, ia_current := map_option path_free (ia_current a)\<rparr>)" (is "ainv _ _ ?b") if r: "ia_revoked a"
  proof -
    have "clone_operations (ia_operations ?b) = clone_operations (ia_operations a)
        @ [(sha key, \<lparr>or_Kind = operationTombstone, or_Signature = sig, or_Result = None, or_cached = None\<rparr>)]" using ops by simp
    then have "ops_inv ?b" using inv r dig notin sig live unfolding ainv_def ops_inv_def Let_def
      by (auto simp: wf_map_def record_ok_def normal_kind_def commitLifecycleOperation_def)
    moreover have "grows a ?b" by (rule gr) (simp_all add: commitLifecycleOperation_def)
    then have "published sha scan ?b g (ia_currentPreviousCommitOID a)" using pub by (rule published_grows)
    then have "current_inv sha scan ?b" using cur by (auto simp: current_inv_def commitLifecycleOperation_def)
    moreover have "base_inv sha ?b" using inv by (simp add: ainv_def base_inv_def commitLifecycleOperation_def)
    ultimately show ?thesis by (simp add: ainv_def)
  qed
qed


lemma signature_digests:
  assumes "hash_text sha"
  shows "isDigest (admit_signature sha q)" "isDigest (reconcile_signature sha q')" "isDigest (revoke_signature sha l)"
    "isDigest (tombstone_signature sha l)"
  using identity_digest[OF assms] by (simp_all add: admit_signature_def reconcile_signature_def revoke_signature_def tombstone_signature_def)

lemma current_published:
  "ainv sha scan a \<Longrightarrow> denialError a = None \<Longrightarrow> ia_current a = Some g \<Longrightarrow> published sha scan a g (ia_currentPreviousCommitOID a)"
  by (auto simp: ainv_def current_inv_def denial_None)

lemma publishedD:
  assumes "published sha scan a g prev"
  shows "generation_of sha scan (ia_sourceID a) g prev" "int (unat (ge_Sequence g)) \<le> ia_normalOperations a"
    "recorded (records_receipt (receiptFromGeneration sha g prev)) a"
    "ge_Sequence g \<noteq> 1 \<Longrightarrow> recorded (records_previous (receiptFromGeneration sha g prev)) a"
  using assms by (auto simp: published_def)

lemma hints_bounds: "ainv sha scan a \<Longrightarrow> 0 \<le> ia_pendingHints a \<and> ia_pendingHints a \<le> ic_MaxFiles (ia_config a) \<and> 0 \<le> ic_MaxFiles (ia_config a)"
  by (simp add: ainv_def base_inv_def validateConfig_def)

text \<open>Recording one more operation for the current generation.\<close>

lemma commit_keeps_current:
  assumes H: "hash_text sha" "reader_ok scan" and inv: "ainv sha scan a" "denialError a = None" and cur: "ia_current a = Some g"
    and fresh: "mget (ia_operations a) (sha key) = None" and kind: "kind = operationAdmit \<or> kind = operationReconcile"
    and com: "commitGenerationOperation sha key sig kind g (ia_currentPreviousCommitOID a) a = Inr a'" and sig: "isDigest sig"
  shows "part_ok sha scan a (Reply (Inr g), a')"
    and "part_ok sha scan a (Reply (Inr g), a'\<lparr>ia_pendingHints := 0, ia_coverageLost := False\<rparr>)"
proof -
  note P = publishedD[OF current_published[OF inv cur]]
  have step: "int (unat (ge_Sequence g)) \<le> ia_normalOperations a + 1" using P(2) by simp
  have a': "ia_current a' = Some g" "ia_currentPreviousCommitOID a' = ia_currentPreviousCommitOID a"
    "ia_pendingHints a' = ia_pendingHints a" "ia_coverageLost a' = ia_coverageLost a"
    using com cur by (auto simp: commitGenerationOperation_def Let_def split: if_split_asm)
  note C = commit_ok[OF H inv fresh kind com sig P(1) step P(4), unfolded Let_def]
  have "a'\<lparr>ia_current := Some g, ia_currentPreviousCommitOID := ia_currentPreviousCommitOID a, ia_pendingHints := ia_pendingHints a,
      ia_coverageLost := ia_coverageLost a\<rparr> = a'" using a' by simp
  with C[of "ia_pendingHints a" "ia_coverageLost a"] hints_bounds[OF inv(1)]
  show "part_ok sha scan a (Reply (Inr g), a')" by (simp add: part_ok_def)
  have "a'\<lparr>ia_current := Some g, ia_currentPreviousCommitOID := ia_currentPreviousCommitOID a, ia_pendingHints := 0,
      ia_coverageLost := False\<rparr> = a'\<lparr>ia_pendingHints := 0, ia_coverageLost := False\<rparr>" using a' by simp
  with C[of 0 False] hints_bounds[OF inv(1)]
  show "part_ok sha scan a (Reply (Inr g), a'\<lparr>ia_pendingHints := 0, ia_coverageLost := False\<rparr>)" by (simp add: part_ok_def)
qed

lemma admit_existing_ok:
  assumes "hash_text sha" "reader_ok scan" "ainv sha scan a" "denialError a = None" "ia_current a = Some g"
    and "checkOperation sha a (ad_IdempotencyKey req) (admit_signature sha req) = Inr None"
  shows "part_ok sha scan a (admit_existing sha req g a)"
  using commit_keeps_current(1)[OF assms(1-5) check_fresh[OF assms(6)], of operationAdmit "admit_signature sha req"] signature_digests(1)[OF assms(1)] assms(3)
  by (auto simp: admit_existing_def intro: part_ok_same split: sum.split)

lemma replay_begin_ok: "ainv sha scan a \<Longrightarrow> denialError a = None \<Longrightarrow> part_ok sha scan a (replay_begin r, a)"
  by (rule part_ok_same)

lemma admit_begin_ok:
  assumes "hash_text sha" "reader_ok scan" "ainv sha scan a"
  shows "part_ok sha scan a (admit_begin sha live req a)"
  using admit_existing_ok[OF assms] replay_begin_ok[OF assms(3)] assms(3)
  by (auto simp: admit_begin_def intro: part_ok_same split: option.split sum.split)

lemma admit_end_ok:
  assumes H: "hash_text sha" "reader_ok scan" "ainv sha scan a" and r: "unlocked r (scan (ad_ExpectedCommitOID req))"
  shows "part_ok sha scan a (admit_end sha req r a)"
proof -
  have new: "part_ok sha scan a (Reply (Inr g), a'\<lparr>ia_current := Some g, ia_currentPreviousCommitOID := []\<rparr>)"
    if d: "denialError a = None" and c: "checkOperation sha a (ad_IdempotencyKey req) (admit_signature sha req) = Inr None"
      and n: "ia_current a = None" and s: "r = Inr s" and g: "g = generationFromSnapshot sha (ia_sourceID a) 1 [] s []"
      and com: "commitGenerationOperation sha (ad_IdempotencyKey req) (admit_signature sha req) operationAdmit g [] a = Inr a'" for s g a'
  proof -
    have sc: "scan (ad_ExpectedCommitOID req) = Inr s" using r s by (auto simp: unlocked_def)
    then have "sn_commit s = ad_ExpectedCommitOID req" using H(2) by (auto simp: reader_ok_def snapshot_ok_def)
    then have gen: "generation_of sha scan (ia_sourceID a) g []" using sc g by (auto simp: generation_of_def generationFromSnapshot_def)
    have seq: "ge_Sequence g = 1" using g by (simp add: generationFromSnapshot_def)
    have "ia_normalOperations a \<ge> 0" using H(3) by (auto simp: ainv_def ops_inv_def Let_def)
    then have step: "int (unat (ge_Sequence g)) \<le> ia_normalOperations a + 1" using seq by simp
    have a': "ia_pendingHints a' = ia_pendingHints a" "ia_coverageLost a' = ia_coverageLost a"
      using com by (auto simp: commitGenerationOperation_def Let_def split: if_split_asm)
    have "a'\<lparr>ia_current := Some g, ia_currentPreviousCommitOID := [], ia_pendingHints := ia_pendingHints a,
        ia_coverageLost := ia_coverageLost a\<rparr> = a'\<lparr>ia_current := Some g, ia_currentPreviousCommitOID := []\<rparr>" using a' by simp
    with commit_ok[OF H(1,2,3) d check_fresh[OF c] _ com signature_digests(1)[OF H(1)] gen step, of "ia_pendingHints a" "ia_coverageLost a"]
      seq hints_bounds[OF H(3)] show ?thesis by (simp add: part_ok_def Let_def)
  qed
  show ?thesis
    using admit_existing_ok[OF H] replay_begin_ok[OF H(3)] H(3) new
    by (auto simp: admit_end_def Let_def intro: part_ok_same split: option.split sum.split)
qed

lemma replay_end_ok:
  assumes "ainv sha scan a"
  shows "part_ok sha scan a (replay_end sha key sig h a)"
proof -
  have upd: "part_ok sha scan a (Reply (Inr g), a\<lparr>ia_operations := mput (sha key) (r\<lparr>or_cached := Some g\<rparr>) (ia_operations a)\<rparr>)"
    (is "part_ok _ _ _ (_, ?b)")
    if d: "denialError a = None" and found: "checkOperation sha a key sig = Inr (Some r)" for g r
  proof -
    note m = check_found[OF found]
    have c: "clone_operations (ia_operations ?b) = clone_operations (ia_operations a)" using clone_cached[OF m] by simp
    have gr: "grows a ?b" unfolding grows_def c by simp
    obtain cur where cur: "ia_current a = Some cur"
      using assms m by (cases "ia_current a") (auto simp: ainv_def current_inv_def)
    have "current_inv sha scan ?b" using published_grows[OF gr current_published[OF assms d cur]] cur d
      by (auto simp: current_inv_def denial_None)
    moreover have "ops_inv ?b" using assms c unfolding ainv_def ops_inv_def Let_def by simp
    moreover have "base_inv sha ?b" using assms by (simp add: ainv_def base_inv_def)
    ultimately show ?thesis using gr d by (simp add: part_ok_def ainv_def denial_None)
  qed
  show ?thesis using upd assms
    by (auto simp: replay_end_def intro: part_ok_same split: option.split sum.split)
qed


lemma reconcile_begin_ok:
  assumes H: "hash_text sha" "reader_ok scan" "ainv sha scan a"
  shows "part_ok sha scan a (reconcile_begin sha live req a)"
    and "fst (reconcile_begin sha live req a) = NeedScan \<Longrightarrow> denialError a = None \<and> ia_current a \<noteq> None"
proof -
  have same: "part_ok sha scan a (Reply (Inr g), a'\<lparr>ia_pendingHints := 0, ia_coverageLost := False\<rparr>)"
    if "denialError a = None" "checkOperation sha a (rc_IdempotencyKey req) (reconcile_signature sha req) = Inr None" "ia_current a = Some g"
      "commitGenerationOperation sha (rc_IdempotencyKey req) (reconcile_signature sha req) operationReconcile g (ia_currentPreviousCommitOID a) a = Inr a'"
    for g a'
    using commit_keeps_current(2)[OF H that(1,3) check_fresh[OF that(2)] _ that(4) signature_digests(2)[OF H(1)]] by simp
  show "part_ok sha scan a (reconcile_begin sha live req a)"
    using same replay_begin_ok[OF H(3)] H(3)
    by (auto simp: reconcile_begin_def intro: part_ok_same split: option.split sum.split)
  show "denialError a = None \<and> ia_current a \<noteq> None" if "fst (reconcile_begin sha live req a) = NeedScan"
    using that by (auto simp: reconcile_begin_def replay_begin_def split: option.split_asm sum.split_asm if_split_asm)
qed

lemma generation_manifest:
  assumes "generation_of sha scan sid g prev" "hash_text sha"
  shows "\<exists>s. scan (ge_CommitOID g) = Inr s \<and> ge_Manifest g = sn_manifest s" "isDigest (ge_ID g)" "ge_Sequence g \<noteq> 0"
proof -
  obtain s seq p d where "scan (ge_CommitOID g) = Inr s" "g = generationFromSnapshot sha sid seq p s d" "ge_Sequence g \<noteq> 0"
    using assms(1) unfolding generation_of_def by (metis (full_types))
  then show "\<exists>s. scan (ge_CommitOID g) = Inr s \<and> ge_Manifest g = sn_manifest s" "isDigest (ge_ID g)" "ge_Sequence g \<noteq> 0"
    using identity_digest[OF assms(2)] by (auto simp: generationFromSnapshot_def)
qed

lemma next_sequence:
  fixes q :: "64 word"
  assumes "q \<noteq> 0" "unat q \<le> 1000000"
  shows "q + 1 \<noteq> 0" "q + 1 \<noteq> 1" "unat (q + 1) = unat q + 1"
proof -
  have "unat q + unat (1 :: 64 word) < 2 ^ 64" using assms(2) by simp
  then show u: "unat (q + 1) = unat q + 1" using unat_add_lem[of q 1] by simp
  show "q + 1 \<noteq> 0" using u by (metis Suc_eq_plus1 nat.simps(3) unat_0)
  show "q + 1 \<noteq> 1" using assms(1) by simp
qed

lemma reconcile_end_ok:
  assumes H: "hash_text sha" "reader_ok scan" "ainv sha scan a" and base: "published sha scan a base prev"
    and r: "unlocked r (reconcile_scan scan lives base (rc_TargetCommitOID req))"
  shows "part_ok sha scan a (reconcile_end sha req base r a)"
proof -
  note P = publishedD[OF base]
  have new: "part_ok sha scan a (Reply (Inr g), a'\<lparr>ia_current := Some g, ia_currentPreviousCommitOID := ge_CommitOID base,
      ia_pendingHints := 0, ia_coverageLost := False\<rparr>)"
    if d: "denialError a = None" and c: "checkOperation sha a (rc_IdempotencyKey req) (reconcile_signature sha req) = Inr None"
      and s: "r = Inr (s, delta)" and g: "g = generationFromSnapshot sha (ia_sourceID a) (ge_Sequence base + 1) (ge_ID base) s delta"
      and com: "commitGenerationOperation sha (rc_IdempotencyKey req) (reconcile_signature sha req) operationReconcile g (ge_CommitOID base) a = Inr a'"
    for s delta g a'
  proof -
    have "reconcile_scan scan lives base (rc_TargetCommitOID req) = Inr (s, delta)" using r s by (auto simp: unlocked_def)
    then have sc: "scan (rc_TargetCommitOID req) = Inr s"
      and dl: "deriveDelta lives (mf_Files (ge_Manifest base)) (mf_Files (sn_manifest s)) = Some delta"
      by (auto simp: reconcile_scan_def split: sum.split_asm option.split_asm)
    have commit: "sn_commit s = rc_TargetCommitOID req" using sc H(2) by (auto simp: reader_ok_def snapshot_ok_def)
    obtain s0 where s0: "scan (ge_CommitOID base) = Inr s0" "ge_Manifest base = sn_manifest s0"
      using generation_manifest(1)[OF P(1) H(1)] by blast
    have "ia_normalOperations a \<le> 1000000" using H(3) by (auto simp: ainv_def ops_inv_def base_inv_def validateConfig_def Let_def)
    then have "unat (ge_Sequence base) \<le> 1000000" using P(2) by linarith
    then have q: "ge_Sequence base + 1 \<noteq> 0" "ge_Sequence base + 1 \<noteq> 1" "unat (ge_Sequence base + 1) = unat (ge_Sequence base) + 1"
      by (rule next_sequence[OF generation_manifest(3)[OF P(1) H(1)]])+
    have gs: "ge_Sequence g = ge_Sequence base + 1" "ge_CommitOID g = rc_TargetCommitOID req" "ge_ExpectedPreviousID g = ge_ID base"
      using g commit by (simp_all add: generationFromSnapshot_def)
    have "deriveDelta (\<lambda>_. True) (mf_Files (sn_manifest s0)) (mf_Files (sn_manifest s)) = Some delta"
      using derive_any[OF dl] s0(2) by simp
    then have gen: "generation_of sha scan (ia_sourceID a) g (ge_CommitOID base)"
      unfolding generation_of_def gs using sc s0(1) generation_manifest(2)[OF P(1) H(1)] q g by auto
    have step: "int (unat (ge_Sequence g)) \<le> ia_normalOperations a + 1" unfolding gs q using P(2) by simp
    have "records_receipt (receiptFromGeneration sha base prev) x \<Longrightarrow> records_previous (receiptFromGeneration sha g (ge_CommitOID base)) x" for x
      by (auto simp: records_receipt_def records_previous_def gs)
    then have "recorded (records_previous (receiptFromGeneration sha g (ge_CommitOID base))) a"
      using P(3) by (auto simp: recorded_def list_ex_iff)
    from commit_ok[OF H(1,2,3) d check_fresh[OF c] _ com signature_digests(2)[OF H(1)] gen step this, of 0 False] hints_bounds[OF H(3)]
    show ?thesis by (simp add: part_ok_def Let_def)
  qed
  show ?thesis
    using replay_begin_ok[OF H(3)] H(3) new
    by (auto simp: reconcile_end_def Let_def intro: part_ok_same split: option.split sum.split)
qed

lemma lifecycle_steps:
  assumes H: "hash_text sha" "ainv sha scan a"
  shows "ainv sha scan (snd (Revoke sha live l a))" "ainv sha scan (snd (Tombstone sha live l a))" "ainv sha scan (snd (ObserveHints hs a))"
    and "grows a (snd (Revoke sha live l a))" "grows a (snd (Tombstone sha live l a))" "grows a (snd (ObserveHints hs a))"
proof -
  have gr: "grows a b" if "checkOperation sha a key sig = Inr None" "ia_operations b = ia_operations (commitLifecycleOperation sha key sig k a)"
    "ia_normalOperations b = ia_normalOperations a" "ia_sourceID b = ia_sourceID a" for b key sig k
    using that(2-4) clone_fresh[OF check_fresh[OF that(1)]] by (auto simp: grows_def commitLifecycleOperation_def)
  note L = lifecycle_ok[OF H]
  show "ainv sha scan (snd (Revoke sha live l a))"
    using H(2) L(1) signature_digests(3)[OF H(1)] by (auto simp: Revoke_def split: option.split sum.split)
  show "ainv sha scan (snd (Tombstone sha live l a))"
    using H(2) L(2) signature_digests(4)[OF H(1)] by (auto simp: Tombstone_def split: option.split sum.split)
  show "ainv sha scan (snd (ObserveHints hs a))"
  proof -
    have "published sha scan (a\<lparr>ia_pendingHints := h, ia_coverageLost := c\<rparr>) g prev = published sha scan a g prev" for h c g prev
      by (simp add: published_def recorded_def)
    then have "ainv sha scan (a\<lparr>ia_pendingHints := h, ia_coverageLost := c\<rparr>)" if "0 \<le> h" "h \<le> ic_MaxFiles (ia_config a)" for h c
      using H(2) that by (auto simp: ainv_def base_inv_def ops_inv_def current_inv_def Let_def cong: option.case_cong)
    then show ?thesis using H(2) hints_bounds[OF H(2)] by (auto simp: ObserveHints_def Let_def split: option.split)
  qed
  show "grows a (snd (Revoke sha live l a))"
    using gr by (auto simp: Revoke_def commitLifecycleOperation_def split: option.split sum.split)
  show "grows a (snd (Tombstone sha live l a))"
    using gr by (auto simp: Tombstone_def commitLifecycleOperation_def split: option.split sum.split)
  show "grows a (snd (ObserveHints hs a))"
    by (auto simp: ObserveHints_def grows_def Let_def split: option.split)
qed


subsection \<open>Every interleaving\<close>

definition sinv :: "(string \<Rightarrow> string) \<Rightarrow> reader \<Rightarrow> isys \<Rightarrow> bool" where
  "sinv sha scan s \<longleftrightarrow> ainv sha scan (is_auth s)
    \<and> (\<forall>i req base. is_calls s i = ReconcileScan req base \<longrightarrow> (\<exists>prev. published sha scan (is_auth s) base prev))
    \<and> list_all snd (is_returned s)"

lemma settle_ok:
  assumes "sinv sha scan s" "part_ok sha scan (is_auth s) x"
    and "\<And>req base. fst x = NeedScan \<Longrightarrow> scanning = ReconcileScan req base \<Longrightarrow> \<exists>prev. published sha scan (is_auth s) base prev"
    and "\<And>rcpt req base. hydrating rcpt \<noteq> ReconcileScan req base"
  shows "sinv sha scan (settle i scanning hydrating x s)"
proof -
  obtain r a where x: "x = (r, a)" by (cases x)
  have g: "grows (is_auth s) a" using assms(2) by (simp add: part_ok_def x)
  have "\<exists>prev. published sha scan a base prev"
    if "is_calls (settle i scanning hydrating (r, a) s) j = ReconcileScan req base" for j req base
  proof -
    have "\<exists>prev. published sha scan (is_auth s) base prev"
      using that assms(1,3,4) by (auto simp: settle_def sinv_def x split: if_split_asm reply.split_asm)
    then show ?thesis using published_grows[OF g] by blast
  qed
  moreover have "list_all snd (is_returned (settle i scanning hydrating (r, a) s))"
    using assms(1,2) by (auto simp: settle_def sinv_def part_ok_def x split: reply.split sum.split)
  moreover have "is_auth (settle i scanning hydrating (r, a) s) = a" by (simp add: settle_def)
  ultimately show ?thesis using assms(2) by (simp add: sinv_def part_ok_def x)
qed

lemma auth_step:
  assumes "sinv sha scan s" "ainv sha scan a" "grows (is_auth s) a"
  shows "sinv sha scan (s\<lparr>is_auth := a\<rparr>)"
  using assms published_grows[OF assms(3)] by (fastforce simp: sinv_def)

lemma sinv_step:
  assumes H: "hash_text sha" "reader_ok scan" and step: "istep sha scan s s'" and inv: "sinv sha scan s"
  shows "sinv sha scan s'"
proof -
  have a: "ainv sha scan (is_auth s)" using inv by (simp add: sinv_def)
  from step show ?thesis
  proof cases
    case (admit i req live)
    show ?thesis unfolding admit(1) by (rule settle_ok[OF inv admit_begin_ok[OF H a]]) simp_all
  next
    case (admit_scanned i req r)
    show ?thesis unfolding admit_scanned(1) by (rule settle_ok[OF inv admit_end_ok[OF H a admit_scanned(3)]]) simp_all
  next
    case (admit_hydrated i req rcpt h lives)
    show ?thesis unfolding admit_hydrated(1) by (rule settle_ok[OF inv replay_end_ok[OF a]]) simp_all
  next
    case (reconcile i req live)
    have "\<exists>prev. published sha scan (is_auth s) base prev"
      if "fst (reconcile_begin sha live req (is_auth s)) = NeedScan"
        "(case ia_current (is_auth s) of None \<Rightarrow> Idle | Some base \<Rightarrow> ReconcileScan req base) = ReconcileScan req' base" for req' base
      using reconcile_begin_ok(2)[OF H a that(1)] that(2) current_published[OF a] by (auto split: option.split_asm)
    then show ?thesis unfolding reconcile(1) by (rule settle_ok[OF inv reconcile_begin_ok(1)[OF H a]]) simp_all
  next
    case (reconcile_scanned i req base r lives)
    obtain prev where "published sha scan (is_auth s) base prev" using inv reconcile_scanned(2) unfolding sinv_def by blast
    from reconcile_end_ok[OF H a this reconcile_scanned(3)] show ?thesis unfolding reconcile_scanned(1)
      by (rule settle_ok[OF inv]) simp_all
  next
    case (reconcile_hydrated i req rcpt h lives)
    show ?thesis unfolding reconcile_hydrated(1) by (rule settle_ok[OF inv replay_end_ok[OF a]]) simp_all
  next
    case (revoke live lreq)
    show ?thesis unfolding revoke using lifecycle_steps(1,4)[OF H(1) a] by (intro auth_step[OF inv])
  next
    case (tombstone live lreq)
    show ?thesis unfolding tombstone using lifecycle_steps(2,5)[OF H(1) a] by (intro auth_step[OF inv])
  next
    case (hints hs)
    show ?thesis unfolding hints using lifecycle_steps(3,6)[OF H(1) a] by (intro auth_step[OF inv])
  qed
qed

lemma ireach_inv:
  assumes "hash_text sha" "reader_ok scan" "validateConfig cfg" "ireach sha scan cfg s"
  shows "sinv sha scan s"
proof -
  have "(istep sha scan)\<^sup>*\<^sup>* (iinit sha cfg) s" using assms(4) by (simp add: ireach_def)
  then show ?thesis
  proof (induction rule: rtranclp_induct)
    case base
    have "ic_MaxFiles cfg \<ge> 0" "ic_MaxIdempotencyRecords cfg \<ge> 0" using assms(3) by (simp_all add: validateConfig_def)
    then show ?case using assms(3)
      by (simp add: sinv_def ainv_def base_inv_def ops_inv_def current_inv_def iinit_def new_authority_def Let_def clone_operations_def
          count_ops_def)
  next
    case (step y z)
    then show ?case using sinv_step[OF assms(1,2)] by blast
  qed
qed


section \<open>Checkpoints restore\<close>

text \<open>The checkpoint of an active or revoked source that holds no hints without a generation.\<close>

definition persistable :: "source_authority \<Rightarrow> bool" where
  "persistable a \<longleftrightarrow> \<not> ia_tombstoned a \<and> (ia_current a = None \<longrightarrow> ia_pendingHints a = 0 \<and> \<not> ia_coverageLost a)"

definition checkpoint :: "(string \<Rightarrow> string) \<Rightarrow> 'b codec \<Rightarrow> source_authority \<Rightarrow> persistedState" where
  "checkpoint sha codec a = (checkpoint_state sha a)\<lparr>ps_CheckpointDigest := digestPersistedState sha codec (checkpoint_state sha a)\<rparr>"

lemma checkpoint_valid:
  assumes H: "hash_text sha" "reader_ok scan" and inv: "ainv sha scan a" and ok: "persistable a"
  shows "validatePersistedState sha codec (ic_MaxIdempotencyRecords (ia_config a)) (ic_MaxFiles (ia_config a)) (checkpoint sha codec a)"
proof -
  let ?ops = "clone_operations (ia_operations a)"
  have dig: "digestPersistedState sha codec (checkpoint sha codec a) = digestPersistedState sha codec (checkpoint_state sha a)"
    by (simp add: digestPersistedState_def checkpoint_def)
  have ids: "isDigest (digestPersistedState sha codec x)" "isDigest (ia_approvedRootID a)" "isDigest (ia_sourceID a)"
    "isDigest (ic_ConfigurationDigest (ia_config a))" for x
    using inv identity_digest[OF H(1)]
    by (simp_all add: digestPersistedState_def ainv_def base_inv_def new_authority_def Let_def validateConfig_def)
  have o: "list_all (\<lambda>(k, r). isDigest k \<and> record_ok r) ?ops" "ia_normalOperations a = int (count_ops normal_kind ?ops)"
    "ia_normalOperations a \<le> ic_MaxIdempotencyRecords (ia_config a)"
    "count_ops (\<lambda>r. or_Kind r = operationRevoke) ?ops = (if ia_revoked a then 1 else 0)"
    "count_ops (\<lambda>r. or_Kind r = operationTombstone) ?ops = 0"
    using inv ok by (auto simp: ainv_def ops_inv_def Let_def persistable_def)
  have len: "int (length ?ops) \<le> ic_MaxIdempotencyRecords (ia_config a) + 2"
    using count_split[of ?ops] o by (simp split: if_split_asm)
  have cur: "case map_option (\<lambda>g. receiptFromGeneration sha g (ia_currentPreviousCommitOID a)) (ia_current a) of
      None \<Rightarrow> ?ops = [] \<and> \<not> ia_revoked a \<and> ia_pendingHints a = 0 \<and> \<not> ia_coverageLost a
    | Some c \<Rightarrow> validateGenerationReceipt c \<and> list_ex (\<lambda>(k, r). records_receipt c r) ?ops
        \<and> (gr_Sequence c > 1 \<longrightarrow> list_ex (\<lambda>(k, r). records_previous c r) ?ops)"
  proof (cases "ia_current a")
    case None
    then have "ia_operations a = []" using inv by (simp add: ainv_def current_inv_def)
    then have "?ops = []" "\<not> ia_revoked a" using o(4) by (auto simp: clone_operations_def count_ops_def split: if_split_asm)
    then show ?thesis using None ok by (simp add: persistable_def)
  next
    case (Some g)
    then have "published sha scan a g (ia_currentPreviousCommitOID a)" using inv ok by (auto simp: ainv_def current_inv_def persistable_def)
    note P = publishedD[OF this]
    show ?thesis using Some generation_receipt_ok[OF H P(1)] P(3,4) by (auto simp: recorded_def)
  qed
  show ?thesis
    using cur inv o len ids dig ok hints_bounds[OF inv] unfolding validatePersistedState_def dig
    by (auto simp: checkpoint_def checkpoint_state_def persistable_def split: option.split_asm)
qed

lemma hydrate_current:
  assumes "hash_text sha" "generation_of sha scan sid g prev"
  shows "hydrateGeneration sha scan (\<lambda>_. True) sid (receiptFromGeneration sha g prev) = Inr g" "ge_SourceID g = sid"
proof -
  obtain s where s: "scan (ge_CommitOID g) = Inr s" and q: "ge_Sequence g \<noteq> 0" using assms(2) unfolding generation_of_def by blast
  have m: "receiptMatchesGeneration sha (receiptFromGeneration sha g prev) g"
    by (simp add: receiptMatchesGeneration_def receiptFromGeneration_def)
  show "hydrateGeneration sha scan (\<lambda>_. True) sid (receiptFromGeneration sha g prev) = Inr g"
  proof (cases "ge_Sequence g = 1")
    case True
    then have "g = generationFromSnapshot sha sid 1 [] s []" using assms(2) s unfolding generation_of_def by auto
    moreover have "ge_ExpectedPreviousID g = []" using calculation by (simp add: generationFromSnapshot_def)
    ultimately show ?thesis using s m True by (simp add: hydrateGeneration_def Let_def)
  next
    case False
    then obtain s0 delta where d: "scan prev = Inr s0"
      "deriveDelta (\<lambda>_. True) (mf_Files (sn_manifest s0)) (mf_Files (sn_manifest s)) = Some delta"
      "g = generationFromSnapshot sha sid (ge_Sequence g) (ge_ExpectedPreviousID g) s delta"
      using assms(2) s unfolding generation_of_def by auto
    have "ge_Sequence g > 1" using q False by (metis linorder_less_linear word_less_1)
    then show ?thesis using s d m by (simp add: hydrateGeneration_def Let_def flip: d(3))
  qed
  show "ge_SourceID g = sid" using assms(2) unfolding generation_of_def
    by (metis (no_types, lifting) Generation.select_convs(3) generationFromSnapshot_def)
qed

lemma path_free_receipt: "ge_SourceID g = sid \<Longrightarrow> generationFromReceiptPathFree sid (receiptFromGeneration sha g prev) = path_free g"
  by (simp add: generationFromReceiptPathFree_def receiptFromGeneration_def path_free_def)

lemma clone_sort: "clone_operations (sort_key fst (clone_operations ops)) = sort_key fst (clone_operations ops)"
proof -
  have "\<forall>(k, r) \<in> set (sort_key fst (clone_operations ops)). (k, cloneOperationRecord r) = (k, r)"
    by (auto simp: clone_operations_def cloneOperationRecord_def)
  then show ?thesis unfolding clone_operations_def[of "sort_key fst (clone_operations ops)"]
    by (intro map_idI) auto
qed

lemma json_view_idem: "json_view (json_view st) = json_view st"
  by (simp add: json_view_def clone_sort sort_key_id_if_sorted)

lemma count_ops_sort: "count_ops P (sort_key fst ops) = count_ops P ops"
proof -
  have "mset (filter (\<lambda>(k, r). P r) (sort_key fst ops)) = mset (filter (\<lambda>(k, r). P r) ops)" by simp
  then show ?thesis unfolding count_ops_def by (metis size_mset)
qed

lemma json_view_valid:
  assumes enc: "\<And>st. cd_encode codec (json_view st) = cd_encode codec st"
    and cl: "clone_operations (ps_Operations st) = ps_Operations st"
    and V: "validatePersistedState sha codec m n st"
  shows "validatePersistedState sha codec m n (json_view st)"
proof -
  have v: "json_view st = st\<lparr>ps_Operations := sort_key fst (ps_Operations st)\<rparr>" by (simp add: json_view_def cl)
  have "(json_view st)\<lparr>ps_CheckpointDigest := []\<rparr> = json_view (st\<lparr>ps_CheckpointDigest := []\<rparr>)"
    by (intro persistedState.equality) (simp_all add: json_view_def)
  then have "digestPersistedState sha codec (st\<lparr>ps_Operations := sort_key fst (ps_Operations st)\<rparr>) = digestPersistedState sha codec st"
    unfolding v[symmetric] by (simp add: digestPersistedState_def enc)
  moreover have "sort_key fst (ps_Operations st) = [] \<longleftrightarrow> ps_Operations st = []" by (metis length_0_conv length_sort)
  ultimately show ?thesis using V unfolding validatePersistedState_def v
    by (auto simp: count_ops_sort list_all_iff list_ex_iff split: option.splits)
qed

definition restored :: "source_authority \<Rightarrow> source_authority" where
  "restored a = a\<lparr>ia_operations := sort_key fst (clone_operations (ia_operations a)),
     ia_current := (if ia_revoked a then map_option path_free (ia_current a) else ia_current a)\<rparr>"

lemma restore_checkpoint:
  assumes H: "hash_text sha" "reader_ok scan" and inv: "ainv sha scan a" and ok: "persistable a"
    and codec: "json_codec sha (ia_config a) codec"
  shows "MarshalBinary sha codec a = Inr (cd_encode codec (checkpoint sha codec a))"
    and "Restore sha codec scan (\<lambda>_. True) None (ia_config a) (cd_encode codec (checkpoint sha codec a)) = Inr (restored a)"
proof -
  note V = checkpoint_valid[OF H inv ok, of codec]
  show "MarshalBinary sha codec a = Inr (cd_encode codec (checkpoint sha codec a))"
    using V by (simp add: MarshalBinary_def checkpoint_def Let_def)
  have cl: "clone_operations (ps_Operations (checkpoint sha codec a)) = ps_Operations (checkpoint sha codec a)"
    "wf_map (ps_Operations (checkpoint sha codec a))"
    using inv by (simp_all add: checkpoint_def checkpoint_state_def clone_wf ainv_def ops_inv_def Let_def)
  let ?st = "json_view (checkpoint sha codec a)"
  have enc: "cd_encode codec (json_view st) = cd_encode codec st" for st using codec by (simp add: json_codec_def)
  have V': "validatePersistedState sha codec (ic_MaxIdempotencyRecords (ia_config a)) (ic_MaxFiles (ia_config a)) ?st"
    by (rule json_view_valid[OF enc cl(1) V])
  have decd: "cd_decode codec (cd_encode codec (checkpoint sha codec a)) = Some ?st"
    using codec cl(2) V by (simp add: json_codec_def)
  have base: "validateConfig (ia_config a)" "ia_approvedRootID a = ia_approvedRootID (new_authority sha (ia_config a))"
    "ia_sourceID a = ia_sourceID (new_authority sha (ia_config a))" using inv by (simp_all add: ainv_def base_inv_def)
  have n: "ia_normalOperations a = int (count_ops normal_kind (clone_operations (ia_operations a)))"
    using inv by (simp add: ainv_def ops_inv_def Let_def)
  have st: "ps_ConfigurationDigest ?st = ic_ConfigurationDigest (ia_config a)"
    "ps_ApprovedRootID ?st = ia_approvedRootID a" "ps_SourceID ?st = ia_sourceID a"
    "ps_Current ?st = map_option (\<lambda>g. receiptFromGeneration sha g (ia_currentPreviousCommitOID a)) (ia_current a)"
    "ps_Operations ?st = sort_key fst (clone_operations (ia_operations a))" "ps_PendingHints ?st = ia_pendingHints a"
    "ps_CoverageLost ?st = ia_coverageLost a" "ps_Revoked ?st = ia_revoked a"
    "ps_Tombstoned ?st = ia_tombstoned a"
    by (simp_all add: json_view_def checkpoint_def checkpoint_state_def)
  have newf: "ia_config (new_authority sha c) = c" "ia_current (new_authority sha c) = None"
    "ia_currentPreviousCommitOID (new_authority sha c) = []" for c by (simp_all add: new_authority_def Let_def)
  show "Restore sha codec scan (\<lambda>_. True) None (ia_config a) (cd_encode codec (checkpoint sha codec a)) = Inr (restored a)"
  proof (cases "ia_current a")
    case None
    then have "ia_currentPreviousCommitOID a = []" using inv by (simp add: ainv_def current_inv_def)
    then show ?thesis using None V' base n newf
      by (auto simp: Restore_def New_def decd st count_ops_sort restored_def Let_def intro!: source_authority.equality)
  next
    case (Some g)
    then have "published sha scan a g (ia_currentPreviousCommitOID a)" using inv ok by (auto simp: ainv_def current_inv_def persistable_def)
    note P = hydrate_current[OF H(1) publishedD(1)[OF this]]
    show ?thesis using Some V' base n newf P(1) path_free_receipt[OF P(2), of sha "ia_currentPreviousCommitOID a"]
      by (auto simp: Restore_def New_def decd st count_ops_sort restored_def Let_def intro!: source_authority.equality)
  qed
qed


section \<open>Checkpoints that cannot be written\<close>

text \<open>Deleting a source empties the delta of its current generation, and a revoked source is
  restored without it, but the checkpoint is only valid when an operation recorded the
  current receipt, which contains the delta's digest.\<close>

lemma emptied_delta_unsaved:
  assumes "ia_current a = Some g" "ge_Delta g = []"
    and "\<forall>(k, r) \<in> set (ia_operations a). \<forall>rcpt. or_Result r = Some rcpt \<longrightarrow> gr_DeltaDigest rcpt \<noteq> digestChanges sha []"
  shows "MarshalBinary sha codec a = Inl IInvalidInput"
proof -
  let ?c = "receiptFromGeneration sha g (ia_currentPreviousCommitOID a)"
  have "gr_DeltaDigest ?c = digestChanges sha []" using assms(2) by (simp add: receiptFromGeneration_def)
  then have "\<not> list_ex (\<lambda>(k, r). records_receipt ?c r) (clone_operations (ia_operations a))"
    using assms(3) by (fastforce simp: clone_operations_def cloneOperationRecord_def records_receipt_def list_ex_iff)
  then show ?thesis using assms(1)
    by (simp add: MarshalBinary_def validatePersistedState_def checkpoint_state_def Let_def)
qed

lemma tombstone_empties_delta: "(None, b) = Tombstone sha live req a \<Longrightarrow> ia_tombstoned b \<Longrightarrow> \<not> ia_tombstoned a \<Longrightarrow>
    \<exists>g. ia_current b = Some (path_free g) \<and> ge_Delta (path_free g) = []"
  by (auto simp: Tombstone_def path_free_def split: option.split_asm sum.split_asm if_split_asm)

text \<open>Hints are accepted before the first admission, and then no checkpoint can be written.\<close>

lemma early_hints_unsaved:
  assumes "ia_current a = None" "ia_pendingHints a > 0 \<or> ia_coverageLost a"
  shows "MarshalBinary sha codec a = Inl IInvalidInput"
  using assms by (auto simp: MarshalBinary_def validatePersistedState_def checkpoint_state_def Let_def)

lemma early_hints_accepted:
  "fst (ObserveHints [\<lparr>wh_Kind = HintOverflow, wh_Path = [], wh_OldPath = []\<rparr>] (new_authority sha cfg)) = None \<longleftrightarrow> 0 \<le> ic_MaxFiles cfg"
  "0 \<le> ic_MaxFiles cfg \<Longrightarrow>
    ia_coverageLost (snd (ObserveHints [\<lparr>wh_Kind = HintOverflow, wh_Path = [], wh_OldPath = []\<rparr>] (new_authority sha cfg)))"
  by (auto simp: ObserveHints_def new_authority_def denialError_def Let_def)


section \<open>Properties\<close>

definition source_reader :: "(string \<Rightarrow> string) \<Rightarrow> git_repo \<Rightarrow> ingest_config \<Rightarrow> reader" where
  "source_reader sha git cfg = readSnapshot sha git cfg (ia_sourceID (new_authority sha cfg))"

lemma source_reader_ok: "hash_text sha \<Longrightarrow> reader_ok (source_reader sha git cfg)"
  using read_snapshot_ok by (auto simp: reader_ok_def source_reader_def)

text \<open>C4.  The state of a source is well formed after any interleaving of admissions,
  reconciliations, replays, revocations, deletions and hints: the operation records have
  distinct keys and valid receipts, those of admissions and reconciliations number at most
  the configured limit (a revocation and a deletion record may come on top), the revoked
  and deleted flags agree with the recorded operations, deletion only follows revocation,
  the current generation is recorded, has its predecessor recorded, carries a sequence
  number no larger than the number of operations, and is exactly the one its commit and
  its predecessor's commit determine; and no caller was given a generation of a revoked
  or deleted source.\<close>

theorem source_state_well_formed:
  assumes "hash_text sha" "validateConfig cfg" "ireach sha (source_reader sha git cfg) cfg s"
  shows "base_inv sha (is_auth s) \<and> ops_inv (is_auth s) \<and> current_inv sha (source_reader sha git cfg) (is_auth s)
    \<and> list_all snd (is_returned s)"
  using ireach_inv[OF assms(1) source_reader_ok[OF assms(1)] assms(2,3)] by (simp add: sinv_def ainv_def)

text \<open>C7.  Checkpoints restore.  In every reachable state of a source that is not deleted (and
  holds no hints before its first admission) the checkpoint can be written, and restoring
  it yields the same state: the same generation, rebuilt from git, or without paths when
  the source is revoked, and the same operation records without their cached
  generations.  The encoding is assumed to behave as \<^verbatim>\<open>encoding/json\<close> does: it ignores cached
  generations and the order of the records, and a valid state is read back with its
  records in the order of their keys.\<close>

theorem checkpoint_restores:
  assumes "hash_text sha" "validateConfig cfg" "ireach sha (source_reader sha git cfg) cfg s" "persistable (is_auth s)"
    and "json_codec sha (ia_config (is_auth s)) codec"
  shows "\<exists>bytes. MarshalBinary sha codec (is_auth s) = Inr bytes
    \<and> Restore sha codec (source_reader sha git cfg) (\<lambda>_. True) None (ia_config (is_auth s)) bytes = Inr (restored (is_auth s))"
proof -
  have "ainv sha (source_reader sha git cfg) (is_auth s)"
    using ireach_inv[OF assms(1) source_reader_ok[OF assms(1)] assms(2,3)] by (simp add: sinv_def)
  from restore_checkpoint[OF assms(1) source_reader_ok[OF assms(1)] this assms(4,5)] show ?thesis by blast
qed

definition zero_hash :: "string \<Rightarrow> string" where "zero_hash x = replicate 64 CHR ''0''"

definition sample_source :: ingest_config where
  "sample_source = \<lparr>ic_TenantID = ''t'', ic_BrainID = ''b'', ic_RepositoryID = ''r'', ic_ConfigurationDigest = replicate 64 CHR ''0'',
     ic_Policy = \<lparr>ip_UseGitIgnore = True, ip_UseOuroborosIgnore = False, ip_Symlinks = RecordWithoutFollow\<rparr>,
     ic_CommandTimeout = 5000000000, ic_MaxFiles = 100, ic_MaxPathBytes = 100, ic_MaxFileBytes = 1000, ic_MaxTotalBytes = 10000, ic_MaxIdempotencyRecords = 10\<rparr>"

definition sample_commit :: string where "sample_commit = replicate 40 CHR ''0''"

text \<open>A repository with an empty tree.\<close>

definition sample_git_repo :: git_repo where
  "sample_git_repo = \<lparr>gx_commit = Inr, gx_tree = Inr, gx_list = (\<lambda>_. Inr []), gx_cat = (\<lambda>_. Inl IGit)\<rparr>"

lemma zero_hash_text: "hash_text zero_hash"
  by (simp add: hash_text_def zero_hash_def isDigest_def isGitOID_iff list_all_iff lower_hex_def)

lemma graphic_rune: "graphic c \<Longrightarrow> runes_of [c] = [(of_char c, [c])]"
  by (simp add: graphic_def byte_def rune_width_def first_rune_def Let_def)

lemma graphic_identifier: "graphic c \<Longrightarrow> of_char c \<noteq> (127 :: nat) \<Longrightarrow> validIdentifier [c]"
  using graphic_rune[of c] trim_space_id[of "[c]"]
  by (simp add: validIdentifier_def valid_utf8_def byte_def graphic_def del: runes_of.simps)

lemma sample_source_valid: "validateConfig sample_source"
  using zero_hash_text
  by (simp add: graphic_identifier graphic_def validateConfig_def sample_source_def hash_text_def zero_hash_def maxConfiguredFiles_def
      maxConfiguredPathBytes_def maxConfiguredFileBytes_def maxConfiguredTotalBytes_def maxBufferedGitOutputBytes_def)

lemma sample_commit_oid: "isGitOID sample_commit" "trim_space sample_commit = sample_commit" "length sample_commit = 40"
  by (simp_all add: sample_commit_def isGitOID_iff list_all_iff lower_hex_def)
    (rule trim_space_id, simp_all add: graphic_def)

lemma empty_listing: "parseTree cfg [] = Inr []" "readBlobs git cfg [] t = Inr []" "readIgnoreFiles git cfg [] = Inr []"
  by (simp_all add: parseTree_def readBlobs_def readIgnoreFiles_def)

lemma no_rules: "rule_file name True [] m = Some ([], [bool_text True])"
  by (simp add: rule_file_def parseIgnoreFile_def rule_fields_def mget0_def)

lemma sample_scan: "\<exists>s. source_reader zero_hash sample_git_repo sample_source sample_commit = Inr s"
proof -
  have "\<exists>policy. parseIgnorePolicy zero_hash (ic_Policy sample_source) [] (ic_MaxPathBytes sample_source) = Inr policy"
    by (simp add: parseIgnorePolicy_def no_rules sample_source_def) (simp add: rule_file_def)
  then obtain policy where "parseIgnorePolicy zero_hash (ic_Policy sample_source) [] (ic_MaxPathBytes sample_source) = Inr policy" ..
  moreover have "0 \<le> ic_MaxFiles sample_source * (ic_MaxPathBytes sample_source + 160) + 1" by (simp add: sample_source_def)
  ultimately show ?thesis using sample_commit_oid
    by (simp add: source_reader_def readSnapshot_def readSnapshotAndBlobs_def run_git_def sample_git_repo_def Let_def empty_listing)
qed

definition sample_admission :: Admission where
  "sample_admission = \<lparr>ad_ExpectedCommitOID = sample_commit, ad_IdempotencyKey = ''k''\<rparr>"

definition sample_admitted :: isys where
  "sample_admitted = settle 0 Idle (AdmitHydrate sample_admission)
     (admit_end zero_hash sample_admission (source_reader zero_hash sample_git_repo sample_source sample_commit)
       (new_authority zero_hash sample_source))
     (settle 0 (AdmitScan sample_admission) (AdmitHydrate sample_admission)
       (admit_begin zero_hash True sample_admission (new_authority zero_hash sample_source)) (iinit zero_hash sample_source))"

lemma sample_begin: "admit_begin zero_hash True sample_admission (new_authority zero_hash sample_source)
    = (NeedScan, new_authority zero_hash sample_source)"
  using sample_commit_oid graphic_rune[of "CHR ''k''"] trim_space_id[of "''k''"]
  by (simp add: admit_begin_def sample_admission_def validateOperationInput_def graphic_def denialError_def checkOperation_def
      new_authority_def Let_def del: runes_of.simps)

lemma sample_reach: "ireach zero_hash (source_reader zero_hash sample_git_repo sample_source) sample_source sample_admitted"
proof -
  let ?scan = "source_reader zero_hash sample_git_repo sample_source"
  let ?s = "settle 0 (AdmitScan sample_admission) (AdmitHydrate sample_admission)
       (admit_begin zero_hash True sample_admission (new_authority zero_hash sample_source)) (iinit zero_hash sample_source)"
  have 1: "istep zero_hash ?scan (iinit zero_hash sample_source) ?s"
    using istep.admit[of "iinit zero_hash sample_source" 0 zero_hash ?scan sample_admission True] by (simp add: iinit_def)
  have c: "is_calls ?s 0 = AdmitScan sample_admission" "is_auth ?s = new_authority zero_hash sample_source"
    by (simp_all add: sample_begin settle_def)
  have "unlocked (?scan sample_commit) (?scan (ad_ExpectedCommitOID sample_admission))"
    by (simp add: unlocked_def sample_admission_def)
  from istep.admit_scanned[of ?s 0 sample_admission "?scan sample_commit" ?scan zero_hash, OF c(1) this] have 2: "istep zero_hash ?scan ?s sample_admitted"
    by (simp only: sample_admitted_def c(2))
  show ?thesis unfolding ireach_def
    by (rule converse_rtranclp_into_rtranclp[of "istep zero_hash ?scan", OF 1]) (rule r_into_rtranclp[of "istep zero_hash ?scan", OF 2])
qed

lemma sample_current: "ia_current (is_auth sample_admitted) \<noteq> None \<and> \<not> ia_tombstoned (is_auth sample_admitted)"
proof -
  obtain s where "source_reader zero_hash sample_git_repo sample_source sample_commit = Inr s" using sample_scan by blast
  then show ?thesis
    by (simp add: sample_admitted_def settle_def admit_end_def denialError_def new_authority_def checkOperation_def
        commitGenerationOperation_def sample_source_def Let_def)
qed

theorem source_state_well_formed_witness:
  "ia_current (is_auth sample_admitted) \<noteq> None \<and> ops_inv (is_auth sample_admitted)
    \<and> current_inv zero_hash (source_reader zero_hash sample_git_repo sample_source) (is_auth sample_admitted)"
  using source_state_well_formed[OF zero_hash_text sample_source_valid sample_reach] sample_current by simp

definition sample_json :: "persistedState codec" where
  "sample_json = \<lparr>cd_encode = json_view, cd_decode = Some, cd_text = (\<lambda>_. [])\<rparr>"

lemma sample_json_codec: "json_codec sha cfg sample_json"
  by (simp add: json_codec_def sample_json_def json_view_idem)

theorem checkpoint_restores_witness:
  "(\<exists>bytes. MarshalBinary zero_hash sample_json (is_auth sample_admitted) = Inr bytes
    \<and> Restore zero_hash sample_json (source_reader zero_hash sample_git_repo sample_source) (\<lambda>_. True) None
        (ia_config (is_auth sample_admitted)) bytes = Inr (restored (is_auth sample_admitted)))
    \<and> ia_current (restored (is_auth sample_admitted)) \<noteq> None"
  using checkpoint_restores[OF zero_hash_text sample_source_valid sample_reach _ sample_json_codec] sample_current
  by (simp add: persistable_def restored_def)

end
