(* ===== verification/Chunking.thy ===== *)
theory Chunking
  imports Text_Fields Contracts
begin

text \<open>
  The chunking policies of \<^verbatim>\<open>services/brain/internal/chunking\<close>: the tokenizer with byte
  offsets (tokens.go), the versioned policies and their validation (policy.go), and the
  four strategies with the receipts they stamp (chunk.go).

  A span is a byte range of the source string.  The loops of the code whose index is not
  the range of a slice, the token window and the block packer with its step back for the
  overlap, are partial functions: \<^verbatim>\<open>None\<close> stands for a loop that runs forever and for an
  index out of range.
  Letters and numbers of Unicode are an argument, as is SHA-256.

  The theorems show that a validated policy always returns, that receipts quote their
  source exactly, that windows hold no more tokens than the target, and that no text
  except white space and slide separators is lost.
\<close>

section \<open>Tokens\<close>

record Token =
  tk_Text :: string
  tk_Start :: nat
  tk_End :: nat

definition TokenizerID :: string where
  "TokenizerID = ''ouroboros-ws-1''"

text \<open>The slice expression \<^verbatim>\<open>s[a:b]\<close>.\<close>

definition slice :: "string \<Rightarrow> nat \<Rightarrow> nat \<Rightarrow> string" where
  "slice s a b = take (b - a) (drop a s)"

text \<open>The loop over the runes of \<^verbatim>\<open>s\<close>, at byte \<^verbatim>\<open>i\<close>; \<^verbatim>\<open>start\<close> is negative in the code when no
  token is open.\<close>

fun tokenize_from :: "string \<Rightarrow> nat option \<Rightarrow> nat \<Rightarrow> (nat \<times> string) list \<Rightarrow> Token list" where
  "tokenize_from s start i [] =
    (case start of None \<Rightarrow> [] | Some a \<Rightarrow> [\<lparr>tk_Text = drop a s, tk_Start = a, tk_End = length s\<rparr>])"
| "tokenize_from s start i ((r, bs) # rs) =
    (if is_space r then
       (case start of
          None \<Rightarrow> tokenize_from s None (i + length bs) rs
        | Some a \<Rightarrow> \<lparr>tk_Text = slice s a i, tk_Start = a, tk_End = i\<rparr> # tokenize_from s None (i + length bs) rs)
     else tokenize_from s (Some (case start of None \<Rightarrow> i | Some a \<Rightarrow> a)) (i + length bs) rs)"

definition Tokenize :: "string \<Rightarrow> Token list" where
  "Tokenize s = tokenize_from s None 0 (runes_of s)"

definition CountTokens :: "string \<Rightarrow> nat" where
  "CountTokens s = length (Fields s)"


section \<open>Policies\<close>

definition PolicyID :: string where "PolicyID = ''ouroboros-chunk''"
definition BaselineVersion :: int where "BaselineVersion = 1"
definition BaselineTargetTokens :: int where "BaselineTargetTokens = 500"
definition BaselineOverlapTokens :: int where "BaselineOverlapTokens = 50"

type_synonym Strategy = string

definition StrategyWholeDoc :: Strategy where "StrategyWholeDoc = ''whole_doc''"
definition StrategyFixed :: Strategy where "StrategyFixed = ''fixed''"
definition StrategyStructure :: Strategy where "StrategyStructure = ''structure''"
definition StrategyParentChild :: Strategy where "StrategyParentChild = ''parent_child''"

type_synonym Kind = string

definition KindProse :: Kind where "KindProse = ''prose''"
definition KindCode :: Kind where "KindCode = ''code''"
definition KindTable :: Kind where "KindTable = ''table''"
definition KindSlides :: Kind where "KindSlides = ''slides''"
definition KindChat :: Kind where "KindChat = ''chat''"

record Policy =
  cp_ID :: string
  cp_Version :: int
  cp_TokenizerID :: string
  cp_Strategy :: Strategy
  cp_TargetTokens :: int
  cp_OverlapTokens :: int
  cp_ParentTargetTokens :: int
  cp_ParentOverlapTokens :: int
  cp_ChildTargetTokens :: int
  cp_ChildOverlapTokens :: int

datatype policy_error =
    IDRequired | VersionTooSmall | TokenizerRequired
  | TargetTooSmall string int | OverlapOutOfRange string int
  | ChildNotBelowParent int int | UnknownStrategy string

definition validateWindow :: "int \<Rightarrow> int \<Rightarrow> string \<Rightarrow> policy_error option" where
  "validateWindow target overlap role =
    (if target < 16 then Some (TargetTooSmall role target)
     else if overlap < 0 \<or> overlap \<ge> target then Some (OverlapOutOfRange role overlap)
     else None)"

definition Validate :: "Policy \<Rightarrow> policy_error option" where
  "Validate p =
    (if cp_ID p = [] then Some IDRequired
     else if cp_Version p < 1 then Some VersionTooSmall
     else if cp_TokenizerID p = [] then Some TokenizerRequired
     else if cp_Strategy p = StrategyWholeDoc then None
     else if cp_Strategy p = StrategyFixed \<or> cp_Strategy p = StrategyStructure then
       validateWindow (cp_TargetTokens p) (cp_OverlapTokens p) ''chunk''
     else if cp_Strategy p = StrategyParentChild then
       (case validateWindow (cp_ParentTargetTokens p) (cp_ParentOverlapTokens p) ''parent'' of
          Some err \<Rightarrow> Some err
        | None \<Rightarrow>
            (case validateWindow (cp_ChildTargetTokens p) (cp_ChildOverlapTokens p) ''child'' of
               Some err \<Rightarrow> Some err
             | None \<Rightarrow> if cp_ChildTargetTokens p \<ge> cp_ParentTargetTokens p
                       then Some (ChildNotBelowParent (cp_ChildTargetTokens p) (cp_ParentTargetTokens p)) else None))
     else Some (UnknownStrategy (cp_Strategy p)))"

definition MeetsBaseline :: "Policy \<Rightarrow> bool" where
  "MeetsBaseline p =
    (if cp_Strategy p = StrategyFixed \<or> cp_Strategy p = StrategyStructure then
       cp_TargetTokens p = BaselineTargetTokens \<and> cp_OverlapTokens p \<ge> BaselineOverlapTokens
     else if cp_Strategy p = StrategyParentChild then
       cp_ChildTargetTokens p > 0 \<and> cp_ChildOverlapTokens p \<ge> BaselineOverlapTokens div 2
         \<and> cp_ParentTargetTokens p \<ge> BaselineTargetTokens
     else False)"

text \<open>A composite literal leaves the fields it does not name zero.\<close>

definition zero_policy :: Policy where
  "zero_policy = \<lparr>cp_ID = PolicyID, cp_Version = BaselineVersion, cp_TokenizerID = TokenizerID, cp_Strategy = [],
     cp_TargetTokens = 0, cp_OverlapTokens = 0, cp_ParentTargetTokens = 0, cp_ParentOverlapTokens = 0,
     cp_ChildTargetTokens = 0, cp_ChildOverlapTokens = 0\<rparr>"

definition BaselinePolicy :: Policy where
  "BaselinePolicy = zero_policy\<lparr>cp_Strategy := StrategyFixed,
     cp_TargetTokens := BaselineTargetTokens, cp_OverlapTokens := BaselineOverlapTokens\<rparr>"

definition NaivePolicy :: Policy where
  "NaivePolicy = zero_policy\<lparr>cp_Strategy := StrategyWholeDoc\<rparr>"

definition StructurePolicy :: Policy where
  "StructurePolicy = zero_policy\<lparr>cp_Strategy := StrategyStructure,
     cp_TargetTokens := BaselineTargetTokens, cp_OverlapTokens := BaselineOverlapTokens\<rparr>"

definition ParentChildPolicy :: Policy where
  "ParentChildPolicy = zero_policy\<lparr>cp_Strategy := StrategyParentChild, cp_ParentTargetTokens := 1000,
     cp_ParentOverlapTokens := 100, cp_ChildTargetTokens := 125, cp_ChildOverlapTokens := 25\<rparr>"

definition EvalStrategies :: "Policy list" where
  "EvalStrategies = [NaivePolicy, BaselinePolicy, StructurePolicy, ParentChildPolicy]"


section \<open>Documents, receipts and spans\<close>

record SourceDocument =
  sd_ID :: string
  sd_Title :: string
  sd_Body :: string
  sd_SourceURI :: string
  sd_Kind :: Kind

definition Source :: "SourceDocument \<Rightarrow> string" where
  "Source d =
    (let title = trim_space (sd_Title d); body = trim_space (sd_Body d)
     in if title = [] then body else if body = [] then title else title @ [CHR 0x0A, CHR 0x0A] @ body)"

definition RoleChunk :: string where "RoleChunk = ''chunk''"
definition RoleParent :: string where "RoleParent = ''parent''"

record Receipt =
  rt_ChunkID :: string
  rt_DocumentID :: string
  rt_ParentID :: string
  rt_Role :: string
  rt_Kind :: string
  rt_Strategy :: string
  rt_PolicyID :: string
  rt_PolicyVersion :: int
  rt_TokenizerID :: string
  rt_Seq :: nat
  rt_Start :: nat
  rt_End :: nat
  rt_Tokens :: nat
  rt_SHA256 :: string
  rt_Text :: string

record span =
  sp_start :: nat
  sp_end :: nat

abbreviation spn :: "nat \<Rightarrow> nat \<Rightarrow> span" where
  "spn a b \<equiv> \<lparr>sp_start = a, sp_end = b\<rparr>"

definition span_text :: "string \<Rightarrow> span \<Rightarrow> string" where
  "span_text src b = slice src (sp_start b) (sp_end b)"

definition shiftSpans :: "span list \<Rightarrow> nat \<Rightarrow> span list" where
  "shiftSpans spans n = map (\<lambda>sp. spn (sp_start sp + n) (sp_end sp + n)) spans"

definition receipt_prefix :: "Policy \<Rightarrow> string \<Rightarrow> string" where
  "receipt_prefix p role =
    (if role = RoleParent then ''p'' else if cp_Strategy p = StrategyParentChild then ''c'' else [])"

text \<open>The version is positive in a validated policy.\<close>

definition stamp_receipt :: "(string \<Rightarrow> string) \<Rightarrow> string \<Rightarrow> Kind \<Rightarrow> string \<Rightarrow> Policy \<Rightarrow> string \<Rightarrow> nat \<Rightarrow> span \<Rightarrow> Token list \<Rightarrow> Receipt" where
  "stamp_receipt sha docID kind src p role seq sp toks =
    (let start = sp_start sp + tk_Start (hd toks); stop = sp_start sp + tk_End (last toks); body = slice src start stop
     in \<lparr>rt_ChunkID = docID @ ''#'' @ cp_Strategy p @ ''.v'' @ dec_int (cp_Version p) @ ''.'' @ receipt_prefix p role @ dec seq,
         rt_DocumentID = docID, rt_ParentID = [], rt_Role = role, rt_Kind = kind, rt_Strategy = cp_Strategy p,
         rt_PolicyID = cp_ID p, rt_PolicyVersion = cp_Version p, rt_TokenizerID = cp_TokenizerID p, rt_Seq = seq,
         rt_Start = start, rt_End = stop, rt_Tokens = length toks, rt_SHA256 = sha body, rt_Text = body\<rparr>)"

fun receipts_from :: "(string \<Rightarrow> string) \<Rightarrow> string \<Rightarrow> Kind \<Rightarrow> string \<Rightarrow> Policy \<Rightarrow> string \<Rightarrow> nat \<Rightarrow> span list \<Rightarrow> Receipt list" where
  "receipts_from sha docID kind src p role seq [] = []"
| "receipts_from sha docID kind src p role seq (sp # sps) =
    (let toks = Tokenize (span_text src sp)
     in if toks = [] then receipts_from sha docID kind src p role seq sps
        else stamp_receipt sha docID kind src p role seq sp toks # receipts_from sha docID kind src p role (seq + 1) sps)"

definition receiptsFor :: "(string \<Rightarrow> string) \<Rightarrow> string \<Rightarrow> Kind \<Rightarrow> string \<Rightarrow> span list \<Rightarrow> Policy \<Rightarrow> string \<Rightarrow> Receipt list" where
  "receiptsFor sha docID kind src spans p role = receipts_from sha docID kind src p role 0 spans"

text \<open>The parent with the largest overlap; the first of several.\<close>

definition byte_overlap :: "Receipt \<Rightarrow> Receipt \<Rightarrow> int" where
  "byte_overlap child parent = int (min (rt_End child) (rt_End parent)) - int (max (rt_Start child) (rt_Start parent))"

definition best_parent :: "Receipt list \<Rightarrow> Receipt \<Rightarrow> Receipt option" where
  "best_parent parents child =
    fst (foldl (\<lambda>(best, bestOverlap) parent.
                  if byte_overlap child parent > bestOverlap then (Some parent, byte_overlap child parent) else (best, bestOverlap))
               (None, 0) parents)"

definition assignParents :: "Receipt list \<Rightarrow> Receipt list \<Rightarrow> Receipt list" where
  "assignParents parents children =
    map (\<lambda>child. case best_parent parents child of None \<Rightarrow> child | Some parent \<Rightarrow> child\<lparr>rt_ParentID := rt_ChunkID parent\<rparr>) children"


section \<open>The token window\<close>

definition index :: "'a list \<Rightarrow> int \<Rightarrow> 'a option" where
  "index xs i = (if 0 \<le> i \<and> i < int (length xs) then Some (xs ! nat i) else None)"

partial_function (option) window :: "Token list \<Rightarrow> int \<Rightarrow> int \<Rightarrow> int \<Rightarrow> span list option" where
  [code]: "window toks target overlap i =
    (let n = int (length toks); j = (if i + target > n then n else i + target)
     in Option.bind (index toks i) (\<lambda>a. Option.bind (index toks (j - 1)) (\<lambda>b.
          let sp = spn (tk_Start a) (tk_End b)
          in if j = n then Some [sp]
             else (let nxt = j - overlap
                   in Option.bind (window toks target overlap (if nxt \<le> i then i + 1 else nxt)) (\<lambda>rest. Some (sp # rest))))))"

definition fixedSpans :: "string \<Rightarrow> int \<Rightarrow> int \<Rightarrow> span list option" where
  "fixedSpans src target overlap =
    (let toks = Tokenize src;
         overlap = (if overlap < 0 then 0 else overlap);
         overlap = (if overlap \<ge> target then target - 1 else overlap)
     in if toks = [] then Some [] else window toks target overlap 0)"


section \<open>Blocks\<close>

fun lines_from :: "nat \<Rightarrow> nat \<Rightarrow> string \<Rightarrow> span list" where
  "lines_from start i [] = (if start < i then [spn start i] else [])"
| "lines_from start i (c # s) =
    (if c = CHR 0x0A then spn start i # lines_from (i + 1) (i + 1) s else lines_from start (i + 1) s)"

definition lineSpans :: "string \<Rightarrow> span list" where
  "lineSpans src = lines_from 0 0 src"

text \<open>The blocks found and the lines of the open one.\<close>

type_synonym block_state = "span list \<times> span list"

definition flush :: "block_state \<Rightarrow> block_state" where
  "flush = (\<lambda>(blocks, cur). if cur = [] then (blocks, cur) else (blocks @ [spn (sp_start (hd cur)) (sp_end (last cur))], []))"

definition add_line :: "span \<Rightarrow> block_state \<Rightarrow> block_state" where
  "add_line line = (\<lambda>(blocks, cur). (blocks, cur @ [line]))"

definition prose_line :: "string \<Rightarrow> block_state \<Rightarrow> span \<Rightarrow> block_state" where
  "prose_line src st line =
    (let trimmed = trim_space (span_text src line)
     in if trimmed = [] then flush st
        else add_line line (if has_prefix trimmed ''#'' \<and> snd st \<noteq> [] then flush st else st))"

definition proseBlocks :: "string \<Rightarrow> span list \<Rightarrow> span list" where
  "proseBlocks src lns = fst (flush (foldl (prose_line src) ([], []) lns))"

definition code_line :: "string \<Rightarrow> bool \<times> block_state \<Rightarrow> span \<Rightarrow> bool \<times> block_state" where
  "code_line src = (\<lambda>(inFence, st) line.
    let trimmed = trim_space (span_text src line)
    in if has_prefix trimmed ''```'' then
         (if inFence then (False, flush (add_line line st)) else (True, add_line line (flush st)))
       else if inFence then (inFence, add_line line st)
       else if trimmed = [] then (inFence, flush st)
       else (inFence, add_line line st))"

definition codeBlocks :: "string \<Rightarrow> span list \<Rightarrow> span list" where
  "codeBlocks src lns = fst (flush (snd (foldl (code_line src) (False, [], []) lns)))"

definition table_line :: "string \<Rightarrow> bool \<times> block_state \<Rightarrow> span \<Rightarrow> bool \<times> block_state" where
  "table_line src = (\<lambda>(inTable, st) line.
    let trimmed = trim_space (span_text src line); row = has_prefix trimmed ''|'';
        (inTable, st) = (if row \<noteq> inTable then (row, flush st) else (inTable, st))
    in if \<not> inTable \<and> trimmed = [] then (inTable, flush st) else (inTable, add_line line st))"

definition tableBlocks :: "string \<Rightarrow> span list \<Rightarrow> span list" where
  "tableBlocks src lns = fst (flush (snd (foldl (table_line src) (False, [], []) lns)))"

text \<open>The expression \<^verbatim>\<open>^-{3,}$\<close>.\<close>

definition slideSeparatorRE :: "string \<Rightarrow> bool" where
  "slideSeparatorRE s \<longleftrightarrow> 3 \<le> length s \<and> list_all (\<lambda>c. c = CHR ''-'') s"

definition slide_line :: "string \<Rightarrow> block_state \<Rightarrow> span \<Rightarrow> block_state" where
  "slide_line src st line =
    (let trimmed = trim_space (span_text src line)
     in if slideSeparatorRE trimmed then flush st else if trimmed = [] then st else add_line line st)"

definition slideBlocks :: "string \<Rightarrow> span list \<Rightarrow> span list" where
  "slideBlocks src lns = fst (flush (foldl (slide_line src) ([], []) lns))"

text \<open>The expression \<^verbatim>\<open>^[\p{L}\p{N}_][\p{L}\p{N}_ .'\-]{0,31}:( |$)\<close>.  The colon is in neither
  class, so the repetition ends before the first rune outside the second class.\<close>

definition chatTurnRE :: "(nat \<Rightarrow> bool) \<Rightarrow> string \<Rightarrow> bool" where
  "chatTurnRE letterOrNumber s =
    (case map fst (runes_of s) of
       [] \<Rightarrow> False
     | r # rs \<Rightarrow>
         (let name = takeWhile (\<lambda>r. letterOrNumber r \<or> r \<in> {0x5F, 0x20, 0x2E, 0x27, 0x2D}) rs;
              rest = drop (length name) rs
          in (letterOrNumber r \<or> r = 0x5F) \<and> length name \<le> 31
             \<and> (rest = [0x3A] \<or> take 2 rest = [0x3A, 0x20])))"

definition chat_line :: "(nat \<Rightarrow> bool) \<Rightarrow> string \<Rightarrow> block_state \<Rightarrow> span \<Rightarrow> block_state" where
  "chat_line letterOrNumber src st line =
    (let trimmed = trim_space (span_text src line)
     in if trimmed = [] then flush st
        else add_line line (if chatTurnRE letterOrNumber trimmed then flush st else st))"

definition chatBlocks :: "(nat \<Rightarrow> bool) \<Rightarrow> string \<Rightarrow> span list \<Rightarrow> span list" where
  "chatBlocks letterOrNumber src lns = fst (flush (foldl (chat_line letterOrNumber src) ([], []) lns))"

definition splitBlocks :: "(nat \<Rightarrow> bool) \<Rightarrow> string \<Rightarrow> Kind \<Rightarrow> span list" where
  "splitBlocks letterOrNumber src kind =
    (let lns = lineSpans src
     in if kind = KindCode then codeBlocks src lns
        else if kind = KindTable then tableBlocks src lns
        else if kind = KindSlides then slideBlocks src lns
        else if kind = KindChat then chatBlocks letterOrNumber src lns
        else proseBlocks src lns)"


section \<open>Packing\<close>

definition dedupe_span :: "span list \<Rightarrow> span \<Rightarrow> span list" where
  "dedupe_span out sp =
    (if sp_end sp \<le> sp_start sp then out
     else if out \<noteq> [] \<and> sp_start sp \<ge> sp_start (last out) \<and> sp_end sp \<le> sp_end (last out) then out
     else out @ [sp])"

definition dedupeSpans :: "span list \<Rightarrow> span list" where
  "dedupeSpans spans = foldl dedupe_span [] spans"

text \<open>The blocks with their token counts (\<^verbatim>\<open>blockRef\<close>).\<close>

type_synonym blockRef = "span \<times> nat"

definition block_refs :: "string \<Rightarrow> span list \<Rightarrow> blockRef list" where
  "block_refs src blocks = filter (\<lambda>(b, t). t > 0) (map (\<lambda>b. (b, CountTokens (span_text src b))) blocks)"

text \<open>The loop that extends a chunk from \<^verbatim>\<open>i\<close>: the index after its last block, over the blocks from \<^verbatim>\<open>j\<close> on.\<close>

fun fill_chunk :: "int \<Rightarrow> nat \<Rightarrow> nat \<Rightarrow> int \<Rightarrow> blockRef list \<Rightarrow> nat" where
  "fill_chunk target i j tok [] = j"
| "fill_chunk target i j tok ((b, t) # refs) =
    (if int t \<le> target then (if tok + int t > target \<and> j > i then j else fill_chunk target i (j + 1) (tok + int t) refs)
     else j)"

text \<open>The loop that steps back for the overlap, with the read of \<^verbatim>\<open>refs[k]\<close> after the decrement.  The
  target is positive there, where the quotient rounds down.\<close>

partial_function (option) carry_back :: "blockRef list \<Rightarrow> int \<Rightarrow> int \<Rightarrow> int \<Rightarrow> int \<Rightarrow> int \<Rightarrow> int \<Rightarrow> int option" where
  [code]: "carry_back refs target overlap i j k carry =
    (if k > i + 1 \<and> carry < overlap then
       Option.bind (index refs (k - 1)) (\<lambda>r.
         let carry = carry + int (snd r)
         in if carry > target div 2 then Some j else carry_back refs target overlap i j (k - 1) carry)
     else Some k)"

partial_function (option) pack :: "blockRef list \<Rightarrow> int \<Rightarrow> int \<Rightarrow> (span \<Rightarrow> span list option) \<Rightarrow> int \<Rightarrow> span list option" where
  [code]: "pack refs target overlap oversized i =
    (if i < int (length refs) then
       Option.bind (index refs i) (\<lambda>r.
         if int (snd r) > target then
           Option.bind (oversized (fst r)) (\<lambda>sps.
             Option.bind (pack refs target overlap oversized (i + 1)) (\<lambda>rest. Some (sps @ rest)))
         else
           (let j = int (fill_chunk target (nat i) (nat i) 0 (drop (nat i) refs))
            in Option.bind (index refs (j - 1)) (\<lambda>q.
                 let sp = spn (sp_start (fst r)) (sp_end (fst q))
                 in if j = int (length refs) then Some [sp]
                    else Option.bind (carry_back refs target overlap i j j 0) (\<lambda>k.
                      Option.bind (pack refs target overlap oversized (if k \<le> i then j else k)) (\<lambda>rest. Some (sp # rest))))))
     else Some [])"

definition packBlocks :: "string \<Rightarrow> span list \<Rightarrow> int \<Rightarrow> int \<Rightarrow> (span \<Rightarrow> span list option) \<Rightarrow> span list option" where
  "packBlocks src blocks target overlap oversized =
    map_option dedupeSpans (pack (block_refs src blocks) target overlap oversized 0)"

definition nonEmptyLineSpans :: "string \<Rightarrow> span \<Rightarrow> span list" where
  "nonEmptyLineSpans src b =
    shiftSpans (filter (\<lambda>line. CountTokens (slice src (sp_start b + sp_start line) (sp_start b + sp_end line)) \<noteq> 0)
                       (lineSpans (span_text src b))) (sp_start b)"

definition split_window :: "string \<Rightarrow> int \<Rightarrow> int \<Rightarrow> span \<Rightarrow> span list option" where
  "split_window src target overlap b =
    map_option (\<lambda>sps. shiftSpans sps (sp_start b)) (fixedSpans (span_text src b) target overlap)"

definition oversizedSplitter :: "string \<Rightarrow> Kind \<Rightarrow> int \<Rightarrow> int \<Rightarrow> span \<Rightarrow> span list option" where
  "oversizedSplitter src kind target overlap b =
    (if kind = KindTable then
       packBlocks src (nonEmptyLineSpans src b) target overlap (split_window src target overlap)
     else split_window src target overlap b)"

definition structureSpans :: "(nat \<Rightarrow> bool) \<Rightarrow> string \<Rightarrow> Kind \<Rightarrow> int \<Rightarrow> int \<Rightarrow> span list option" where
  "structureSpans letterOrNumber src kind target overlap =
    packBlocks src (splitBlocks letterOrNumber src kind) target overlap (oversizedSplitter src kind target overlap)"


section \<open>Chunk\<close>

definition chunk_source :: "(string \<Rightarrow> string) \<Rightarrow> (nat \<Rightarrow> bool) \<Rightarrow> Policy \<Rightarrow> string \<Rightarrow> Kind \<Rightarrow> string \<Rightarrow> Receipt list option" where
  "chunk_source sha letterOrNumber p docID kind src =
    (if cp_Strategy p = StrategyWholeDoc then
       Some (receiptsFor sha docID kind src [spn 0 (length src)] p RoleChunk)
     else if cp_Strategy p = StrategyFixed then
       map_option (\<lambda>sps. receiptsFor sha docID kind src sps p RoleChunk)
         (fixedSpans src (cp_TargetTokens p) (cp_OverlapTokens p))
     else if cp_Strategy p = StrategyStructure then
       map_option (\<lambda>sps. receiptsFor sha docID kind src sps p RoleChunk)
         (structureSpans letterOrNumber src kind (cp_TargetTokens p) (cp_OverlapTokens p))
     else if cp_Strategy p = StrategyParentChild then
       Option.bind (fixedSpans src (cp_ParentTargetTokens p) (cp_ParentOverlapTokens p)) (\<lambda>ps.
       Option.bind (fixedSpans src (cp_ChildTargetTokens p) (cp_ChildOverlapTokens p)) (\<lambda>cs.
         let parents = receiptsFor sha docID kind src ps p RoleParent
         in Some (parents @ assignParents parents (receiptsFor sha docID kind src cs p RoleChunk))))
     else Some [])"

fun chunk_docs :: "(string \<Rightarrow> string) \<Rightarrow> (nat \<Rightarrow> bool) \<Rightarrow> Policy \<Rightarrow> SourceDocument list \<Rightarrow> Receipt list option" where
  "chunk_docs sha letterOrNumber p [] = Some []"
| "chunk_docs sha letterOrNumber p (d # ds) =
    (let docID = trim_space (sd_ID d); src = Source d
     in if docID = [] \<or> trim_space src = [] then chunk_docs sha letterOrNumber p ds
        else Option.bind (chunk_source sha letterOrNumber p docID (if sd_Kind d = [] then KindProse else sd_Kind d) src) (\<lambda>rs.
             Option.bind (chunk_docs sha letterOrNumber p ds) (\<lambda>rest. Some (rs @ rest))))"

definition Chunk :: "(string \<Rightarrow> string) \<Rightarrow> (nat \<Rightarrow> bool) \<Rightarrow> SourceDocument list \<Rightarrow> Policy \<Rightarrow> (policy_error + Receipt list) option" where
  "Chunk sha letterOrNumber docs p =
    (case Validate p of
       Some err \<Rightarrow> Some (Inl err)
     | None \<Rightarrow> map_option Inr (chunk_docs sha letterOrNumber p docs))"


section \<open>The text of a source\<close>

text \<open>The byte positions of the runes that are not white space.\<close>

fun ink_of :: "(nat \<times> string) list \<Rightarrow> nat \<Rightarrow> nat set" where
  "ink_of [] p = {}"
| "ink_of ((r, bs) # rs) p = (if is_space r then {} else {p ..< p + length bs}) \<union> ink_of rs (p + length bs)"

definition ink :: "string \<Rightarrow> nat set" where
  "ink s = ink_of (runes_of s) 0"

abbreviation bytes_of :: "(nat \<times> string) list \<Rightarrow> string" where
  "bytes_of rs \<equiv> concat (map snd rs)"

lemma ink_of_append: "ink_of (xs @ ys) p = ink_of xs p \<union> ink_of ys (p + length (bytes_of xs))"
  by (induction xs arbitrary: p) (auto simp: add.assoc)

lemma ink_of_range: "ink_of rs p \<subseteq> {p ..< p + length (bytes_of rs)}"
proof (induction rs arbitrary: p)
  case (Cons x rs)
  obtain r bs where x: "x = (r, bs)" by (cases x)
  from Cons[of "p + length bs"] show ?case by (auto simp: x)
qed simp

lemma ink_of_shift: "x \<in> ink_of rs (p + k) \<longleftrightarrow> k \<le> x \<and> x - k \<in> ink_of rs p"
proof (induction rs arbitrary: p)
  case (Cons y rs)
  obtain r bs where y: "y = (r, bs)" by (cases y)
  have "x \<in> ink_of rs (p + k + length bs) \<longleftrightarrow> k \<le> x \<and> x - k \<in> ink_of rs (p + length bs)"
    using Cons[of "p + length bs"] by (simp add: ac_simps)
  then show ?case by (auto simp: y)
qed simp

lemma ink_range: "ink s \<subseteq> {0 ..< length s}"
  using ink_of_range[of "runes_of s" 0] by (simp add: ink_def)

text \<open>A position between runes.\<close>

definition rune_cut :: "string \<Rightarrow> nat \<Rightarrow> bool" where
  "rune_cut s a \<longleftrightarrow> (\<exists>xs ys. runes_of s = xs @ ys \<and> a = length (bytes_of xs))"

lemma rune_cutI: "runes_of s = xs @ ys \<Longrightarrow> a = length (bytes_of xs) \<Longrightarrow> rune_cut s a"
  unfolding rune_cut_def by blast

lemma rune_cut_ends [simp]: "rune_cut s 0" "rune_cut s (length s)"
  by (rule rune_cutI[of s "[]" "runes_of s"], simp_all) (rule rune_cutI[of s "runes_of s" "[]"], simp_all)

lemma rune_cut_le: "rune_cut s a \<Longrightarrow> a \<le> length s"
proof -
  assume "rune_cut s a"
  then obtain xs ys where "runes_of s = xs @ ys" and a: "a = length (bytes_of xs)" by (auto simp: rune_cut_def)
  then have "s = bytes_of xs @ bytes_of ys" using concat_runes_of[of s] by simp
  then show ?thesis by (simp add: a)
qed

lemma runes_of_prefix: "runes_of s = xs @ ys \<Longrightarrow> runes_of (bytes_of xs) = xs"
  using runes_of_take[of "length xs" s] by simp

lemma runes_of_suffix: "runes_of s = xs @ ys \<Longrightarrow> runes_of (bytes_of ys) = ys"
proof (induction xs arbitrary: s)
  case Nil
  then show ?case by (metis append_Nil concat_runes_of)
next
  case (Cons x xs)
  then obtain a t where s: "s = a # t" by (cases s) auto
  with Cons.prems have "runes_of (drop (rune_width s) s) = xs @ ys" by simp
  then show ?case by (rule Cons.IH)
qed

lemma runes_nonempty: "(r, bs) \<in> set (runes_of s) \<Longrightarrow> bs \<noteq> []"
proof (induction s rule: runes_of.induct)
  case (2 a s)
  then consider "bs = take (rune_width (a # s)) (a # s)" | "(r, bs) \<in> set (runes_of (drop (rune_width (a # s)) (a # s)))"
    unfolding runes_of.simps(2) set_simps insert_iff prod.inject by blast
  then show ?case
  proof cases
    case 1
    then show ?thesis using rune_width_pos[of "a # s"] by (simp add: take_eq_Nil)
  qed (rule "2.IH")
qed simp

lemma cut_order:
  assumes "runes_of s = xs @ ys" "runes_of s = xs' @ ys'" "length (bytes_of xs) \<le> length (bytes_of xs')"
  shows "\<exists>zs. xs' = xs @ zs \<and> ys = zs @ ys'"
proof -
  have "xs @ ys = xs' @ ys'" using assms(1,2) by simp
  then obtain zs where "xs = xs' @ zs \<and> zs @ ys = ys' \<or> xs @ zs = xs' \<and> ys = zs @ ys'"
    unfolding append_eq_append_conv2 by blast
  then consider "xs = xs' @ zs" "zs @ ys = ys'" | "xs @ zs = xs'" "ys = zs @ ys'" by blast
  then show ?thesis
  proof cases
    case 1
    have "zs = []"
    proof (rule ccontr)
      assume "zs \<noteq> []"
      then obtain r bs zs' where z: "zs = (r, bs) # zs'" by (cases zs) auto
      then have "bs \<noteq> []" using runes_nonempty[of r bs s] assms(1) 1 by simp
      then show False using assms(3) 1 z by simp
    qed
    then show ?thesis using 1 by simp
  next
    case 2
    then show ?thesis by blast
  qed
qed

text \<open>Between two such positions the runes of a slice are runes of the source.\<close>

lemma runes_of_slice:
  assumes "rune_cut s a" "rune_cut s b" "a \<le> b"
  obtains xs zs ys where "runes_of s = xs @ zs @ ys" "a = length (bytes_of xs)" "b = a + length (bytes_of zs)"
    "slice s a b = bytes_of zs" "runes_of (slice s a b) = zs"
proof -
  from assms(1) obtain xs ws where a: "runes_of s = xs @ ws" "a = length (bytes_of xs)" by (auto simp: rune_cut_def)
  from assms(2) obtain vs ys where b: "runes_of s = vs @ ys" "b = length (bytes_of vs)" by (auto simp: rune_cut_def)
  from cut_order[OF a(1) b(1)] a(2) b(2) assms(3) obtain zs where zs: "vs = xs @ zs" "ws = zs @ ys" by auto
  have s: "s = bytes_of xs @ bytes_of zs @ bytes_of ys" using a(1) zs concat_runes_of[of s] by simp
  have sl: "slice s a b = bytes_of zs" unfolding slice_def by (subst s) (simp add: a(2) b(2) zs(1))
  have "runes_of (bytes_of ws) = ws" by (rule runes_of_suffix[OF a(1)])
  then have "runes_of (bytes_of zs) = zs" using zs(2) runes_of_prefix by metis
  then show ?thesis using that[of xs zs ys] a b zs sl by simp
qed

lemma ink_slice:
  assumes "rune_cut s a" "rune_cut s b" "a \<le> b"
  shows "x \<in> ink (slice s a b) \<longleftrightarrow> a + x < b \<and> a + x \<in> ink s"
proof -
  from assms obtain xs zs ys where z: "runes_of s = xs @ zs @ ys" "a = length (bytes_of xs)" "b = a + length (bytes_of zs)"
    "runes_of (slice s a b) = zs" by (rule runes_of_slice)
  have "a + x \<in> ink_of zs (0 + a) \<longleftrightarrow> x \<in> ink_of zs 0" using ink_of_shift[of "a + x" zs 0 a] by simp
  moreover have "a + x \<notin> ink_of xs 0" using ink_of_range[of xs 0] z(2) by auto
  moreover have "a + x \<in> ink_of ys (a + length (bytes_of zs)) \<Longrightarrow> \<not> a + x < b"
    using ink_of_range[of ys "a + length (bytes_of zs)"] z(3) by auto
  moreover have "x \<in> ink_of zs 0 \<Longrightarrow> a + x < b" using ink_of_range[of zs 0] z(3) by auto
  ultimately show ?thesis using z by (auto simp: ink_def ink_of_append)
qed

lemma rune_cut_slice:
  assumes "rune_cut s a" "rune_cut s b" "a \<le> b" "rune_cut (slice s a b) c"
  shows "rune_cut s (a + c)"
proof -
  from assms(1-3) obtain xs zs ys where z: "runes_of s = xs @ zs @ ys" "a = length (bytes_of xs)"
    "runes_of (slice s a b) = zs" by (rule runes_of_slice)
  from assms(4) z(3) obtain us vs where "zs = us @ vs" "c = length (bytes_of us)" by (auto simp: rune_cut_def)
  then have "runes_of s = (xs @ us) @ (vs @ ys)" "a + c = length (bytes_of (xs @ us))" using z by simp_all
  then show ?thesis unfolding rune_cut_def by blast
qed


subsection \<open>Tokens cover the text\<close>

definition reach :: "(nat \<times> nat) list \<Rightarrow> nat set" where
  "reach xs = (\<Union>(a, b) \<in> set xs. {a ..< b})"

definition apart :: "(nat \<times> nat) list \<Rightarrow> bool" where
  "apart xs \<longleftrightarrow> sorted_wrt (\<lambda>x y. snd x < fst y) xs \<and> list_all (\<lambda>x. fst x < snd x) xs"

lemma reach_simps [simp]: "reach [] = {}" "reach ((a, b) # xs) = {a ..< b} \<union> reach xs"
  "reach (xs @ ys) = reach xs \<union> reach ys"
  by (auto simp: reach_def)

lemma apart_Cons: "apart ((a, b) # xs) \<longleftrightarrow> a < b \<and> (\<forall>x \<in> set xs. b < fst x) \<and> apart xs"
  by (auto simp: apart_def)

lemma apart_append: "apart (xs @ ys) \<longleftrightarrow> apart xs \<and> apart ys \<and> (\<forall>x \<in> set xs. \<forall>y \<in> set ys. snd x < fst y)"
  by (auto simp: apart_def sorted_wrt_append)

lemma reach_above: "apart ((a, b) # xs) \<Longrightarrow> x \<in> reach xs \<Longrightarrow> b < x"
  by (fastforce simp: apart_Cons reach_def)

text \<open>Intervals with gaps between them are determined by the positions they cover.\<close>

lemma first_interval:
  assumes "apart ((a, b) # xs)" "apart ((c, d) # ys)" "{a ..< b} \<union> reach xs = {c ..< d} \<union> reach ys"
  shows "c \<le> a" "b \<le> d"
proof -
  have ab: "a < b" and cd: "c < d" using assms by (simp_all add: apart_Cons)
  have "a \<in> {c ..< d} \<union> reach ys" using ab assms(3) by auto
  then show 1: "c \<le> a" using reach_above[OF assms(2), of a] cd by auto
  show "b \<le> d"
  proof (rule ccontr)
    assume "\<not> b \<le> d"
    then have d: "d < b" by simp
    have "c \<in> {a ..< b} \<union> reach xs" using cd assms(3) by auto
    then have "a \<le> c" using reach_above[OF assms(1), of c] ab by auto
    then have "d \<in> {a ..< b}" using d cd by simp
    then have "d \<in> {c ..< d} \<union> reach ys" using assms(3) by blast
    then show False using reach_above[OF assms(2), of d] by auto
  qed
qed

lemma apart_unique: "apart xs \<Longrightarrow> apart ys \<Longrightarrow> reach xs = reach ys \<Longrightarrow> xs = ys"
proof (induction xs arbitrary: ys)
  case Nil
  then show ?case by (cases ys) (auto simp: apart_Cons)
next
  case (Cons x xs)
  obtain a b where x: "x = (a, b)" by (cases x)
  show ?case
  proof (cases ys)
    case Nil
    then show ?thesis using Cons.prems by (auto simp: x apart_Cons)
  next
    case (Cons y zs)
    obtain c d where y: "y = (c, d)" by (cases y)
    note A = Cons.prems[unfolded x Cons y reach_simps]
    have eq: "c = a" "b = d"
      using first_interval[OF A] first_interval[OF A(2,1) A(3)[symmetric]] by auto
    have "reach xs = reach zs"
    proof -
      have "{a ..< b} \<inter> reach xs = {}" "{a ..< b} \<inter> reach zs = {}"
        using reach_above[OF A(1)] reach_above[OF A(2)] eq by fastforce+
      then show ?thesis using A(3) eq by blast
    qed
    then have "xs = zs" using Cons.IH[of zs] A by (simp add: apart_Cons)
    then show ?thesis by (simp add: x Cons y eq)
  qed
qed

definition bounds :: "Token \<Rightarrow> nat \<times> nat" where
  "bounds t = (tk_Start t, tk_End t)"

definition token_ok :: "string \<Rightarrow> Token \<Rightarrow> bool" where
  "token_ok s t \<longleftrightarrow> rune_cut s (tk_Start t) \<and> rune_cut s (tk_End t) \<and> tk_Text t = slice s (tk_Start t) (tk_End t)"

lemma tokenize_from_props:
  assumes "runes_of s = rs0 @ rs" "i = length (bytes_of rs0)" "\<And>a. start = Some a \<Longrightarrow> a < i \<and> rune_cut s a"
  shows "reach (map bounds (tokenize_from s start i rs)) = (case start of None \<Rightarrow> {} | Some a \<Rightarrow> {a ..< i}) \<union> ink_of rs i
    \<and> list_all (token_ok s) (tokenize_from s start i rs)
    \<and> apart (map bounds (tokenize_from s start i rs))
    \<and> (\<forall>t \<in> set (tokenize_from s start i rs). (case start of None \<Rightarrow> i | Some a \<Rightarrow> a) \<le> tk_Start t)"
  using assms
proof (induction rs arbitrary: rs0 start i)
  case Nil
  have "length s = i" using Nil.prems(1,2) concat_runes_of[of s] by simp
  then show ?case using Nil.prems(3)
    by (cases start) (auto simp: bounds_def token_ok_def slice_def apart_Cons apart_def)
next
  case (Cons x rs)
  obtain r bs where x: "x = (r, bs)" by (cases x)
  have bs: "bs \<noteq> []" using runes_nonempty[of r bs s] Cons.prems(1) x by simp
  have cut: "rune_cut s i" by (rule rune_cutI[OF Cons.prems(1,2)])
  have step: "runes_of s = (rs0 @ [x]) @ rs" "i + length bs = length (bytes_of (rs0 @ [x]))"
    using Cons.prems by (simp_all add: x)
  note IH = Cons.IH[OF step]
  show ?case
  proof (cases "is_space r")
    case True
    have gt: "i < k" "i \<le> k" "a < i \<Longrightarrow> a \<le> k" if "i + length bs \<le> k" for a k
      using bs that by (cases bs; simp)+
    show ?thesis using IH[of None] Cons.prems(3) cut True
      by (cases start) (auto simp: x bounds_def token_ok_def apart_Cons intro: gt)
  next
    case False
    have "0 < length bs" using bs by simp
    then show ?thesis using IH[of "Some (case start of None \<Rightarrow> i | Some a \<Rightarrow> a)"] Cons.prems(3) cut False
      by (cases start) (auto simp: x)
  qed
qed


lemma Tokenize_props:
  shows Tokenize_reach: "reach (map bounds (Tokenize s)) = ink s"
    and Tokenize_ok: "list_all (token_ok s) (Tokenize s)"
    and Tokenize_apart: "apart (map bounds (Tokenize s))"
  using tokenize_from_props[of s "[]" "runes_of s" 0 None] by (simp_all add: Tokenize_def ink_def)

lemma Tokenize_empty: "Tokenize s = [] \<longleftrightarrow> ink s = {}"
proof (cases "Tokenize s")
  case Nil
  then show ?thesis using Tokenize_reach[of s] by simp
next
  case (Cons t ts)
  then have "tk_Start t \<in> ink s"
    using Tokenize_reach[of s] Tokenize_apart[of s] by (auto simp: bounds_def apart_Cons)
  then show ?thesis using Cons by auto
qed

lemma token_nonempty: "t \<in> set (Tokenize s) \<Longrightarrow> tk_Start t < tk_End t"
  using Tokenize_apart[of s] by (auto simp: apart_def list_all_iff bounds_def)

definition moved :: "nat \<Rightarrow> Token \<Rightarrow> nat \<times> nat" where
  "moved a t = (a + tk_Start t, a + tk_End t)"

lemma reach_moved: "x \<in> reach (map (moved a) ts) \<longleftrightarrow> a \<le> x \<and> x - a \<in> reach (map bounds ts)"
  by (induction ts) (auto simp: moved_def bounds_def)

lemma apart_moved: "apart (map (moved a) ts) \<longleftrightarrow> apart (map bounds ts)"
  by (simp add: apart_def moved_def bounds_def sorted_wrt_map list_all_iff)

lemma slice_tokens:
  assumes "rune_cut s a" "rune_cut s b" "a \<le> b"
  shows "x \<in> reach (map (moved a) (Tokenize (slice s a b))) \<longleftrightarrow> a \<le> x \<and> x < b \<and> x \<in> ink s"
    and "apart (map (moved a) (Tokenize (slice s a b)))"
  using ink_slice[OF assms, of "x - a"] by (auto simp: reach_moved Tokenize_reach apart_moved Tokenize_apart)

text \<open>The tokens of a slice between two tokens are the tokens of the source between them.\<close>

lemma window_tokens:
  assumes T: "Tokenize s = us @ vs @ ws" and ne: "vs \<noteq> []"
  shows "map (moved (tk_Start (hd vs))) (Tokenize (slice s (tk_Start (hd vs)) (tk_End (last vs)))) = map bounds vs"
proof (rule apart_unique)
  let ?a = "tk_Start (hd vs)" and ?b = "tk_End (last vs)"
  have ap: "apart (map bounds us @ map bounds vs @ map bounds ws)" using Tokenize_apart[of s] T by simp
  then show "apart (map bounds vs)" by (simp add: apart_append)
  have hl: "bounds (hd vs) \<in> set (map bounds vs)" "bounds (last vs) \<in> set (map bounds vs)" using ne by simp_all
  have ok: "token_ok s (hd vs)" "token_ok s (last vs)" using Tokenize_ok[of s] T ne by (simp_all add: list_all_iff)
  have low: "?a \<le> tk_Start t \<and> tk_Start t < tk_End t \<and> tk_End t \<le> ?b" if "t \<in> set vs" for t
  proof -
    have lt: "tk_Start u < tk_End u" if "u \<in> set vs" for u using token_nonempty[of u s] T that by simp
    have srt: "sorted_wrt (\<lambda>x y. tk_End x < tk_Start y) vs"
      using ap by (simp add: apart_append) (simp add: apart_def sorted_wrt_map bounds_def)
    have "t = hd vs \<or> tk_End (hd vs) < tk_Start t" using srt that by (cases vs) auto
    moreover have "t = last vs \<or> tk_End t < tk_Start (last vs)"
      using srt that ne by (cases vs rule: rev_cases) (auto simp: sorted_wrt_append)
    moreover have "hd vs \<in> set vs" "last vs \<in> set vs" using ne by simp_all
    ultimately show ?thesis using lt[of "hd vs"] lt[of "last vs"] lt[of t] that by auto
  qed
  have le: "?a \<le> ?b" using low[of "hd vs"] ne by simp
  note sl = slice_tokens[OF _ _ le, of s]
  show "apart (map (moved ?a) (Tokenize (slice s ?a ?b)))" using sl(2) ok by (simp add: token_ok_def)
  have us: "x < ?a" if x: "x \<in> reach (map bounds us)" for x
  proof -
    from x obtain t where t: "t \<in> set us" "x < tk_End t" by (auto simp: reach_def bounds_def)
    have "\<forall>u \<in> set us. \<forall>v \<in> set vs. snd (bounds u) < fst (bounds v)" using ap by (simp add: apart_append)
    then have "snd (bounds t) < fst (bounds (hd vs))" using t(1) ne by simp
    then show ?thesis using t(2) by (simp add: bounds_def)
  qed
  have ws: "?b < x" if x: "x \<in> reach (map bounds ws)" for x
  proof -
    from x obtain t where t: "t \<in> set ws" "tk_Start t \<le> x" by (auto simp: reach_def bounds_def)
    have "\<forall>v \<in> set vs. \<forall>w \<in> set ws. snd (bounds v) < fst (bounds w)" using ap by (simp add: apart_append)
    then have "snd (bounds (last vs)) < fst (bounds t)" using t(1) ne by simp
    then show ?thesis using t(2) by (simp add: bounds_def)
  qed
  have vs: "?a \<le> x \<and> x < ?b" if x: "x \<in> reach (map bounds vs)" for x
  proof -
    from x obtain t where t: "t \<in> set vs" "tk_Start t \<le> x" "x < tk_End t" by (auto simp: reach_def bounds_def)
    from low[OF t(1)] t(2,3) show ?thesis by simp
  qed
  have all: "x \<in> ink s \<longleftrightarrow> x \<in> reach (map bounds us) \<or> x \<in> reach (map bounds vs) \<or> x \<in> reach (map bounds ws)" for x
    using Tokenize_reach[of s] T by auto
  show "reach (map (moved ?a) (Tokenize (slice s ?a ?b))) = reach (map bounds vs)"
  proof (rule set_eqI)
    fix x
    have "x \<in> reach (map (moved ?a) (Tokenize (slice s ?a ?b))) \<longleftrightarrow> ?a \<le> x \<and> x < ?b \<and> x \<in> ink s"
      using sl(1) ok by (simp add: token_ok_def)
    also have "\<dots> \<longleftrightarrow> x \<in> reach (map bounds vs)"
      using all[of x] us[of x] vs[of x] ws[of x] by linarith
    finally show "x \<in> reach (map (moved ?a) (Tokenize (slice s ?a ?b))) \<longleftrightarrow> x \<in> reach (map bounds vs)" .
  qed
qed

lemma window_count:
  "Tokenize s = us @ vs @ ws \<Longrightarrow> vs \<noteq> [] \<Longrightarrow> length (Tokenize (slice s (tk_Start (hd vs)) (tk_End (last vs)))) = length vs"
  using window_tokens[of s us vs ws] by (metis length_map)


section \<open>The token window returns and covers\<close>

definition window_span :: "Token list \<Rightarrow> nat \<times> nat \<Rightarrow> span" where
  "window_span toks = (\<lambda>(a, b). spn (tk_Start (toks ! a)) (tk_End (toks ! (b - 1))))"

definition windows_ok :: "nat \<Rightarrow> int \<Rightarrow> int \<Rightarrow> (nat \<times> nat) list \<Rightarrow> bool" where
  "windows_ok n target i ws \<longleftrightarrow> (\<forall>(a, b) \<in> set ws. a < b \<and> b \<le> n \<and> int b \<le> int a + target)
     \<and> (\<forall>k. i \<le> int k \<and> k < n \<longrightarrow> (\<exists>(a, b) \<in> set ws. a \<le> k \<and> k < b))"

lemma windows_okD:
  "windows_ok n target i ws \<Longrightarrow> (a, b) \<in> set ws \<Longrightarrow> a < b \<and> b \<le> n \<and> int b \<le> int a + target"
  "windows_ok n target i ws \<Longrightarrow> i \<le> int k \<Longrightarrow> k < n \<Longrightarrow> \<exists>a b. (a, b) \<in> set ws \<and> a \<le> k \<and> k < b"
  unfolding windows_ok_def by (drule conjunct1, drule (1) bspec, simp) (drule conjunct2, drule spec[of _ k], auto)

lemma windows_last: "a < n \<Longrightarrow> int n \<le> int a + target \<Longrightarrow> windows_ok n target (int a) [(a, n)]"
  by (simp add: windows_ok_def)

lemma windows_step:
  assumes "windows_ok n target i' ws" "i' \<le> int b" "a < b" "b \<le> n" "int b \<le> int a + target"
  shows "windows_ok n target (int a) ((a, b) # ws)"
  unfolding windows_ok_def
proof (intro conjI allI impI)
  show "\<forall>(x, y) \<in> set ((a, b) # ws). x < y \<and> y \<le> n \<and> int y \<le> int x + target"
    using assms by (simp add: windows_ok_def)
  fix k assume k: "int a \<le> int k \<and> k < n"
  show "\<exists>(x, y) \<in> set ((a, b) # ws). x \<le> k \<and> k < y"
  proof (cases "k < b")
    case True
    then show ?thesis using k by simp
  next
    case False
    then have "i' \<le> int k" using assms(2) by linarith
    then have "\<exists>(x, y) \<in> set ws. x \<le> k \<and> k < y" using assms(1) k by (simp add: windows_ok_def)
    then show ?thesis by simp
  qed
qed

lemma window_returns:
  assumes "0 < target" "0 \<le> overlap" "a < length toks"
  shows "\<exists>ws. window toks target overlap (int a) = Some (map (window_span toks) ws) \<and> windows_ok (length toks) target (int a) ws"
  using assms(3)
proof (induction "length toks - a" arbitrary: a rule: less_induct)
  case less
  let ?n = "length toks"
  define j where "j = (if int a + target > int ?n then int ?n else int a + target)"
  have j: "int a < j" "j \<le> int ?n" "j \<le> int a + target" using assms(1) less.prems by (auto simp: j_def)
  define b where "b = nat j"
  have b: "int b = j" "a < b" "b \<le> ?n" "nat (j - 1) = b - 1" using j by (auto simp: b_def)
  have ix: "index toks (int a) = Some (toks ! a)" "index toks (j - 1) = Some (toks ! (b - 1))"
    using less.prems j b by (auto simp: index_def)
  note unf = window.simps[of toks target overlap "int a", unfolded Let_def j_def[symmetric] ix bind.bind_lunit]
  show ?case
  proof (cases "j = int ?n")
    case True
    then have "b = ?n" using b by simp
    then have "window toks target overlap (int a) = Some (map (window_span toks) [(a, ?n)])"
      using True by (simp add: unf window_span_def)
    then show ?thesis using windows_last[OF less.prems] j True by blast
  next
    case False
    let ?i = "if j - overlap \<le> int a then int a + 1 else j - overlap"
    have i: "int a < ?i" "?i \<le> j" using j assms(2) by auto
    define c where "c = nat ?i"
    have c: "int c = ?i" using i by (simp add: c_def)
    have "c < ?n" "?n - c < ?n - a" using c i j(2) False less.prems by linarith+
    from less.hyps[OF this(2,1)] obtain ws where ws: "window toks target overlap (int c) = Some (map (window_span toks) ws)"
      "windows_ok ?n target (int c) ws" by blast
    have "window toks target overlap (int a) = Some (map (window_span toks) ((a, b) # ws))"
      using False ws(1) unfolding c by (simp add: unf window_span_def)
    moreover have "windows_ok ?n target (int a) ((a, b) # ws)"
      using windows_step[OF ws(2), of b a] c i(2) b j(3) by simp
    ultimately show ?thesis by blast
  qed
qed


definition span_ok :: "string \<Rightarrow> span \<Rightarrow> bool" where
  "span_ok src sp \<longleftrightarrow> rune_cut src (sp_start sp) \<and> rune_cut src (sp_end sp) \<and> sp_start sp \<le> sp_end sp"

definition inside :: "nat \<Rightarrow> span \<Rightarrow> bool" where
  "inside x sp \<longleftrightarrow> sp_start sp \<le> x \<and> x < sp_end sp"

definition spans_cover :: "span list \<Rightarrow> nat set \<Rightarrow> bool" where
  "spans_cover sps X \<longleftrightarrow> (\<forall>x \<in> X. \<exists>sp \<in> set sps. inside x sp)"

definition fits :: "int \<Rightarrow> string \<Rightarrow> span \<Rightarrow> bool" where
  "fits target src sp \<longleftrightarrow> int (length (Tokenize (span_text src sp))) \<le> target"

lemma token_order:
  assumes "a \<le> b" "b < length (Tokenize s)"
  shows "tk_Start (Tokenize s ! a) < tk_End (Tokenize s ! b)"
proof (cases "a = b")
  case True
  then show ?thesis using assms token_nonempty[of "Tokenize s ! b" s] by simp
next
  case False
  have "sorted_wrt (\<lambda>x y. tk_End x < tk_Start y) (Tokenize s)"
    using Tokenize_apart[of s] by (simp add: apart_def sorted_wrt_map bounds_def)
  then have "tk_End (Tokenize s ! a) < tk_Start (Tokenize s ! b)" using assms False by (simp add: sorted_wrt_iff_nth_less)
  then show ?thesis using assms token_nonempty[of "Tokenize s ! a" s] token_nonempty[of "Tokenize s ! b" s] by simp
qed

lemma window_span_props:
  assumes "a < b" "b \<le> length (Tokenize s)" "int b \<le> int a + target"
  shows "span_ok s (window_span (Tokenize s) (a, b))" "fits target s (window_span (Tokenize s) (a, b))"
proof -
  let ?T = "Tokenize s"
  let ?vs = "take (b - a) (drop a ?T)"
  have ok: "token_ok s (?T ! a)" "token_ok s (?T ! (b - 1))" using Tokenize_ok[of s] assms by (simp_all add: list_all_length)
  have "tk_Start (?T ! a) < tk_End (?T ! (b - 1))" using token_order[of a "b - 1" s] assms by simp
  then show "span_ok s (window_span ?T (a, b))" using ok by (simp add: span_ok_def window_span_def token_ok_def)
  have T: "?T = take a ?T @ ?vs @ drop (b - a) (drop a ?T)" by (simp only: append_take_drop_id)
  have ne: "?vs \<noteq> []" using assms by simp
  have "hd ?vs = ?T ! a" "last ?vs = ?T ! (b - 1)" using assms by (simp_all add: hd_drop_conv_nth last_conv_nth ne)
  then have "length (Tokenize (span_text s (window_span ?T (a, b)))) = b - a"
    using window_count[OF T ne] assms by (simp add: span_text_def window_span_def)
  then show "fits target s (window_span ?T (a, b))" using assms by (simp add: fits_def)
qed

lemma window_covers:
  assumes "windows_ok (length (Tokenize s)) target 0 ws"
  shows "spans_cover (map (window_span (Tokenize s)) ws) (ink s)"
  unfolding spans_cover_def
proof
  let ?T = "Tokenize s"
  fix x assume "x \<in> ink s"
  then have "x \<in> reach (map bounds ?T)" by (simp add: Tokenize_reach)
  then obtain t where t: "t \<in> set ?T" "tk_Start t \<le> x" "x < tk_End t" by (auto simp: reach_def bounds_def)
  then obtain k where k: "k < length ?T" "?T ! k = t" by (auto simp: in_set_conv_nth)
  then obtain a b where ab: "(a, b) \<in> set ws" "a \<le> k" "k < b"
    using windows_okD(2)[OF assms, of k] by auto
  have b: "b \<le> length ?T" using windows_okD(1)[OF assms ab(1)] by simp
  have srt: "sorted_wrt (\<lambda>x y. tk_End x < tk_Start y) ?T"
    using Tokenize_apart[of s] by (simp add: apart_def sorted_wrt_map bounds_def)
  have "tk_Start (?T ! a) \<le> x"
  proof (cases "a = k")
    case False
    then have "tk_End (?T ! a) < tk_Start t" using srt ab k by (auto simp: sorted_wrt_iff_nth_less)
    moreover have "tk_Start (?T ! a) < tk_End (?T ! a)" using token_order[of a a s] ab k by simp
    ultimately show ?thesis using t by simp
  qed (use t k in simp)
  moreover have "x < tk_End (?T ! (b - 1))"
  proof (cases "k = b - 1")
    case False
    then have "tk_End t < tk_Start (?T ! (b - 1))" using srt ab k b by (auto simp: sorted_wrt_iff_nth_less)
    moreover have "tk_Start (?T ! (b - 1)) < tk_End (?T ! (b - 1))" using token_order[of "b - 1" "b - 1" s] ab b by simp
    ultimately show ?thesis using t by simp
  qed (use t k in simp)
  ultimately have "inside x (window_span ?T (a, b))" by (simp add: inside_def window_span_def)
  then show "\<exists>sp \<in> set (map (window_span ?T) ws). inside x sp" using ab(1) by force
qed

lemma fixedSpans_returns:
  assumes "0 < target"
  shows "\<exists>sps. fixedSpans src target overlap = Some sps \<and> list_all (span_ok src) sps
    \<and> spans_cover sps (ink src) \<and> list_all (fits target src) sps"
proof (cases "Tokenize src = []")
  case True
  then show ?thesis by (simp add: fixedSpans_def spans_cover_def Tokenize_empty)
next
  case False
  define ov where "ov = (let ov = (if overlap < 0 then 0 else overlap) in if ov \<ge> target then target - 1 else ov)"
  have "0 \<le> ov" using assms by (auto simp: ov_def Let_def)
  from window_returns[OF assms this, of 0 "Tokenize src"] False obtain ws where
    ws: "window (Tokenize src) target ov 0 = Some (map (window_span (Tokenize src)) ws)"
    "windows_ok (length (Tokenize src)) target 0 ws" by auto
  have "span_ok src (window_span (Tokenize src) w) \<and> fits target src (window_span (Tokenize src) w)" if "w \<in> set ws" for w
  proof -
    obtain a b where w: "w = (a, b)" by (cases w)
    have "a < b" "b \<le> length (Tokenize src)" "int b \<le> int a + target" using windows_okD(1)[OF ws(2), of a b] that w by simp_all
    then show ?thesis using window_span_props w by simp
  qed
  moreover have "fixedSpans src target overlap = Some (map (window_span (Tokenize src)) ws)"
    using False ws(1) by (simp add: fixedSpans_def Let_def ov_def)
  ultimately show ?thesis using window_covers[OF ws(2)] by (simp add: list_all_iff)
qed


section \<open>Blocks cover the lines\<close>

lemma newline_cut:
  assumes "src = a @ CHR 0x0A # b"
  shows "rune_cut src (length a)" "rune_cut src (length a + 1)" "length a \<notin> ink src"
proof -
  have nl: "byte (CHR 0x0A) = 10" by (simp add: byte_def)
  have R: "runes_of src = runes_of a @ (10, [CHR 0x0A]) # runes_of b"
    using runes_of_append_ascii[of "CHR 0x0A" a b] runes_of_ascii_Cons[of "CHR 0x0A" b] nl unfolding assms by simp
  show "rune_cut src (length a)" by (rule rune_cutI[OF R]) simp
  have R': "runes_of src = (runes_of a @ [(10, [CHR 0x0A])]) @ runes_of b" using R by simp
  show "rune_cut src (length a + 1)" by (rule rune_cutI[OF R']) simp
  have "length a \<notin> ink_of (runes_of a) 0" using ink_of_range[of "runes_of a" 0] by auto
  moreover have "length a \<notin> ink_of (runes_of b) (length a + 1)" using ink_of_range[of "runes_of b" "length a + 1"] by auto
  ultimately show "length a \<notin> ink src" by (simp add: ink_def R ink_of_append is_space_def)
qed

definition before :: "span \<Rightarrow> span \<Rightarrow> bool" where
  "before x y \<longleftrightarrow> sp_end x \<le> sp_start y"

lemma lines_from_props:
  assumes "src = pre @ s" "i = length pre" "start \<le> i" "rune_cut src start"
  shows "(\<forall>sp \<in> set (lines_from start i s). span_ok src sp \<and> start \<le> sp_start sp)
    \<and> sorted_wrt before (lines_from start i s)
    \<and> (\<forall>x \<in> ink src. start \<le> x \<longrightarrow> (\<exists>sp \<in> set (lines_from start i s). inside x sp))"
  using assms
proof (induction s arbitrary: pre i start)
  case Nil
  then have "rune_cut src i" by simp
  moreover have "\<not> i \<le> x" if "x \<in> ink src" for x using ink_range[of src] that Nil by auto
  ultimately show ?case using Nil.prems(3,4) by (cases "start = i") (auto simp: span_ok_def inside_def not_le)
next
  case (Cons c s)
  have pre: "src = (pre @ [c]) @ s" "i + 1 = length (pre @ [c])" using Cons.prems by simp_all
  show ?case
  proof (cases "c = CHR 0x0A")
    case False
    then show ?thesis using Cons.IH[OF pre _ Cons.prems(4)] Cons.prems(3) by simp
  next
    case True
    have cut: "rune_cut src i" "rune_cut src (i + 1)" "i \<notin> ink src"
      using newline_cut[of src pre s] Cons.prems True by simp_all
    have IH: "\<forall>sp \<in> set (lines_from (i + 1) (i + 1) s). span_ok src sp \<and> i + 1 \<le> sp_start sp"
      "sorted_wrt before (lines_from (i + 1) (i + 1) s)"
      "\<forall>x \<in> ink src. i + 1 \<le> x \<longrightarrow> (\<exists>sp \<in> set (lines_from (i + 1) (i + 1) s). inside x sp)"
      using Cons.IH[OF pre order_refl cut(2)] by blast+
    have L: "lines_from start i (c # s) = spn start i # lines_from (i + 1) (i + 1) s" using True by simp
    have "\<forall>sp \<in> set (lines_from start i (c # s)). span_ok src sp \<and> start \<le> sp_start sp"
      using IH(1) cut(1) Cons.prems(3,4) unfolding L by (auto simp: span_ok_def)
    moreover have "sorted_wrt before (lines_from start i (c # s))"
      using IH(1,2) unfolding L by (auto simp: before_def)
    moreover have "\<exists>sp \<in> set (lines_from start i (c # s)). inside x sp" if x: "x \<in> ink src" "start \<le> x" for x
    proof (cases "x < i")
      case True
      then show ?thesis using x unfolding L by (simp add: inside_def)
    next
      case False
      then have "i + 1 \<le> x" using x(1) cut(3) by (cases "x = i") auto
      then show ?thesis using IH(3) x(1) unfolding L by simp
    qed
    ultimately show ?thesis by blast
  qed
qed

lemma lineSpans_props:
  "list_all (span_ok src) (lineSpans src)" "sorted_wrt before (lineSpans src)" "spans_cover (lineSpans src) (ink src)"
  using lines_from_props[of src "[]" src 0 0] by (simp_all add: lineSpans_def list_all_iff spans_cover_def)

definition contains :: "span \<Rightarrow> span \<Rightarrow> bool" where
  "contains sp l \<longleftrightarrow> sp_start sp \<le> sp_start l \<and> sp_end l \<le> sp_end sp"

text \<open>The blocks and open lines found so far, before the lines \<^verbatim>\<open>rest\<close>, contain the lines \<^verbatim>\<open>C\<close>.\<close>

definition good :: "string \<Rightarrow> span list \<Rightarrow> span set \<Rightarrow> block_state \<Rightarrow> bool" where
  "good src rest C st \<longleftrightarrow> list_all (span_ok src) (fst st @ snd st) \<and> sorted_wrt before (fst st @ snd st @ rest)
     \<and> (\<forall>l \<in> C. \<exists>sp \<in> set (fst st @ snd st). contains sp l)"

lemma sorted_hull:
  assumes "sorted_wrt before xs" "list_all (span_ok src) xs" "x \<in> set xs"
  shows "contains (spn (sp_start (hd xs)) (sp_end (last xs))) x"
proof -
  have ok: "sp_start y \<le> sp_end y" if "y \<in> set xs" for y using assms(2) that by (auto simp: list_all_iff span_ok_def)
  have ne: "xs \<noteq> []" using assms(3) by auto
  have "x = hd xs \<or> before (hd xs) x" using assms(1,3) by (cases xs) auto
  moreover have "x = last xs \<or> before x (last xs)"
    using assms(1,3) by (cases xs rule: rev_cases) (auto simp: sorted_wrt_append)
  ultimately show ?thesis using ok[of "hd xs"] ok[of "last xs"] ok[of x] assms(3) ne
    by (auto simp: contains_def before_def)
qed

lemma good_flush:
  assumes "good src rest C st"
  shows "good src rest C (flush st)" "snd (flush st) = []"
proof -
  obtain blocks cur where st: "st = (blocks, cur)" by (cases st)
  show "snd (flush st) = []" by (simp add: flush_def st)
  show "good src rest C (flush st)"
  proof (cases "cur = []")
    case True
    then show ?thesis using assms by (simp add: flush_def st)
  next
    case False
    let ?h = "spn (sp_start (hd cur)) (sp_end (last cur))"
    have ok: "list_all (span_ok src) blocks" "list_all (span_ok src) cur" and srt: "sorted_wrt before (blocks @ cur @ rest)"
      and cov: "\<forall>l \<in> C. \<exists>sp \<in> set blocks \<union> set cur. contains sp l"
      using assms by (simp_all add: good_def st)
    have scur: "sorted_wrt before cur" using srt by (simp add: sorted_wrt_append)
    note hull = sorted_hull[OF scur ok(2)]
    have hd: "span_ok src (hd cur)" "span_ok src (last cur)" using ok(2) False by (simp_all add: list_all_iff)
    have "contains ?h (hd cur)" using hull[of "hd cur"] False by simp
    then have "span_ok src ?h" using hd by (simp add: span_ok_def contains_def)
    moreover have "sorted_wrt before ((blocks @ [?h]) @ rest)"
      using srt False by (auto simp: sorted_wrt_append before_def)
    moreover have "\<exists>sp \<in> set (blocks @ [?h]). contains sp l" if "l \<in> C" for l
    proof -
      from cov that obtain sp where sp: "sp \<in> set blocks \<union> set cur" "contains sp l" by blast
      show ?thesis
      proof (cases "sp \<in> set cur")
        case True
        from hull[OF this] sp(2) show ?thesis by (auto simp: contains_def)
      next
        case False
        then show ?thesis using sp by auto
      qed
    qed
    ultimately show ?thesis using False ok(1) by (simp add: good_def flush_def st)
  qed
qed


lemma good_add: "good src (l # rest) C st \<Longrightarrow> span_ok src l \<Longrightarrow> good src rest (insert l C) (add_line l st)"
  by (cases st) (fastforce simp: good_def add_line_def contains_def)

lemma good_skip: "good src (l # rest) C st \<Longrightarrow> good src rest C st"
  by (auto simp: good_def sorted_wrt_append)

lemma good_mono: "good src rest D st \<Longrightarrow> C \<subseteq> D \<Longrightarrow> good src rest C st"
  unfolding good_def by blast

text \<open>A loop over the lines whose step keeps what it must keep.\<close>

lemma good_fold:
  assumes "\<And>st l rest C. good src (l # rest) C (g st) \<Longrightarrow> span_ok src l \<Longrightarrow>
      good src rest (if keep l then insert l C else C) (g (f st l))"
    and "good src ls C (g st)" "list_all (span_ok src) ls"
  shows "good src [] (C \<union> {l \<in> set ls. keep l}) (g (foldl f st ls))"
  using assms(2,3)
proof (induction ls arbitrary: C st)
  case (Cons l ls)
  have "good src ls (if keep l then insert l C else C) (g (f st l))" using assms(1)[OF Cons.prems(1)] Cons.prems(2) by simp
  from Cons.IH[OF this] have "good src [] ((if keep l then insert l C else C) \<union> {l \<in> set ls. keep l}) (g (foldl f (f st l) ls))"
    using Cons.prems(2) by simp
  then show ?case unfolding foldl.simps by (rule good_mono) auto
qed simp

definition blank :: "string \<Rightarrow> span \<Rightarrow> bool" where
  "blank src l \<longleftrightarrow> trim_space (span_text src l) = []"

definition separator :: "string \<Rightarrow> span \<Rightarrow> bool" where
  "separator src l \<longleftrightarrow> slideSeparatorRE (trim_space (span_text src l))"

lemma prose_line_good:
  "good src (l # rest) C st \<Longrightarrow> span_ok src l \<Longrightarrow> good src rest (if \<not> blank src l then insert l C else C) (prose_line src st l)"
  by (auto simp: prose_line_def Let_def blank_def intro: good_add good_flush good_skip)

lemma chat_line_good:
  "good src (l # rest) C st \<Longrightarrow> span_ok src l \<Longrightarrow> good src rest (if \<not> blank src l then insert l C else C) (chat_line letter src st l)"
  by (auto simp: chat_line_def Let_def blank_def intro: good_add good_flush good_skip)

lemma slide_line_good:
  "good src (l # rest) C st \<Longrightarrow> span_ok src l \<Longrightarrow>
    good src rest (if \<not> blank src l \<and> \<not> separator src l then insert l C else C) (slide_line src st l)"
  by (auto simp: slide_line_def Let_def blank_def separator_def intro: good_add good_flush good_skip)

lemma code_line_good:
  assumes "good src (l # rest) C (snd st)" "span_ok src l"
  shows "good src rest (if \<not> blank src l then insert l C else C) (snd (code_line src st l))"
proof -
  have "good src rest (insert l C) (add_line l (snd st))" "good src rest (insert l C) (add_line l (flush (snd st)))"
    "good src rest C (flush (snd st))"
    using assms by (auto intro: good_add good_flush good_skip)
  moreover from this have "good src rest (insert l C) (flush (add_line l (snd st)))" "good src rest C (add_line l (snd st))"
    by (auto intro: good_flush elim: good_mono)
  moreover have "good src rest C (flush (add_line l (snd st)))" "good src rest C (add_line l (flush (snd st)))"
    using calculation by (auto elim: good_mono)
  ultimately show ?thesis by (cases st) (simp add: code_line_def Let_def blank_def)
qed

lemma table_line_good:
  assumes "good src (l # rest) C (snd st)" "span_ok src l"
  shows "good src rest (if \<not> blank src l then insert l C else C) (snd (table_line src st l))"
proof -
  have "good src rest (insert l C) (add_line l (snd st))" "good src rest (insert l C) (add_line l (flush (snd st)))"
    "good src rest C (flush (snd st))" "good src rest C (flush (flush (snd st)))"
    using assms by (auto intro: good_add good_flush good_skip)
  moreover from this have "good src rest C (add_line l (snd st))" "good src rest C (add_line l (flush (snd st)))"
    by (auto elim: good_mono)
  ultimately show ?thesis by (cases st) (simp add: table_line_def Let_def blank_def)
qed

definition keeps :: "Kind \<Rightarrow> string \<Rightarrow> span \<Rightarrow> bool" where
  "keeps kind src l \<longleftrightarrow> \<not> blank src l \<and> \<not> (kind = KindSlides \<and> separator src l)"

lemmas kind_defs = KindProse_def KindCode_def KindTable_def KindSlides_def KindChat_def

lemma splitBlocks_props:
  shows "list_all (span_ok src) (splitBlocks letter src kind)" (is ?ok)
    and "sorted_wrt before (splitBlocks letter src kind)" (is ?srt)
    and "\<forall>l \<in> set (lineSpans src). keeps kind src l \<longrightarrow> (\<exists>b \<in> set (splitBlocks letter src kind). contains b l)" (is ?cov)
proof -
  let ?ls = "lineSpans src"
  have init: "good src ?ls {} ([], [])" using lineSpans_props(2)[of src] by (simp add: good_def)
  note fin = good_fold[where C = "{}" and ls = ?ls, OF _ _ lineSpans_props(1)[of src]]
  have "\<exists>st. good src [] {l \<in> set ?ls. keeps kind src l} st \<and> splitBlocks letter src kind = fst (flush st)"
  proof -
    consider "kind = KindCode" | "kind = KindTable" | "kind = KindSlides" | "kind = KindChat"
      | "kind \<notin> {KindCode, KindTable, KindSlides, KindChat}" by blast
    then show ?thesis
    proof cases
      case 1
      have "good src [] ({} \<union> {l \<in> set ?ls. \<not> blank src l}) (snd (foldl (code_line src) (False, [], []) ?ls))"
        by (rule fin) (use init code_line_good in simp_all)
      then show ?thesis using 1 by (intro exI[of _ "snd (foldl (code_line src) (False, [], []) ?ls)"]) (simp add: splitBlocks_def codeBlocks_def keeps_def kind_defs)
    next
      case 2
      have "good src [] ({} \<union> {l \<in> set ?ls. \<not> blank src l}) (snd (foldl (table_line src) (False, [], []) ?ls))"
        by (rule fin) (use init table_line_good in simp_all)
      then show ?thesis using 2 by (intro exI[of _ "snd (foldl (table_line src) (False, [], []) ?ls)"]) (simp add: splitBlocks_def tableBlocks_def keeps_def kind_defs)
    next
      case 3
      have "good src [] ({} \<union> {l \<in> set ?ls. \<not> blank src l \<and> \<not> separator src l}) (id (foldl (slide_line src) ([], []) ?ls))"
        by (rule fin) (use init slide_line_good in simp_all)
      then show ?thesis using 3 by (intro exI[of _ "id (foldl (slide_line src) ([], []) ?ls)"]) (simp add: splitBlocks_def slideBlocks_def keeps_def kind_defs)
    next
      case 4
      have "good src [] ({} \<union> {l \<in> set ?ls. \<not> blank src l}) (id (foldl (chat_line letter src) ([], []) ?ls))"
        by (rule fin) (use init chat_line_good in simp_all)
      then show ?thesis using 4 by (intro exI[of _ "id (foldl (chat_line letter src) ([], []) ?ls)"]) (simp add: splitBlocks_def chatBlocks_def keeps_def kind_defs)
    next
      case 5
      have "good src [] ({} \<union> {l \<in> set ?ls. \<not> blank src l}) (id (foldl (prose_line src) ([], []) ?ls))"
        by (rule fin) (use init prose_line_good in simp_all)
      then show ?thesis using 5 by (intro exI[of _ "id (foldl (prose_line src) ([], []) ?ls)"]) (simp add: splitBlocks_def proseBlocks_def keeps_def)
    qed
  qed
  then obtain st where st: "good src [] {l \<in> set ?ls. keeps kind src l} (flush st)" "snd (flush st) = []"
    "splitBlocks letter src kind = fst (flush st)" using good_flush by blast
  then show ?ok ?srt ?cov by (simp_all add: good_def)
qed


subsection \<open>Blank text\<close>

lemma ink_all_space: "list_all (\<lambda>(r, bs). is_space r) rs \<Longrightarrow> ink_of rs p = {}"
  by (induction rs arbitrary: p) auto

lemma fields_none: "fields_of rs w = [] \<Longrightarrow> list_all (\<lambda>(r, bs). bs \<noteq> []) rs \<Longrightarrow> w = [] \<and> list_all (\<lambda>(r, bs). is_space r) rs"
  by (induction rs w rule: fields_of.induct) (auto split: if_splits)

lemma no_tokens_blank: "CountTokens s = 0 \<Longrightarrow> ink s = {}"
proof -
  assume "CountTokens s = 0"
  then have "fields_of (runes_of s) [] = []" by (simp add: CountTokens_def Fields_def)
  moreover have "list_all (\<lambda>(r, bs). bs \<noteq> []) (runes_of s)" using runes_nonempty by (auto simp: list_all_iff)
  ultimately have "list_all (\<lambda>(r, bs). is_space r) (runes_of s)" using fields_none by blast
  then show ?thesis unfolding ink_def by (rule ink_all_space)
qed

lemma encodings_are_spaces: "list_all (\<lambda>e. chunk_ok e \<and> is_space (chunk_rune e)) space_encodings"
  by (simp add: space_encodings_def is_space_def utf8_ranges byte_def upt_rec)

lemma trim_left_split:
  "\<exists>es. s = concat es @ trim_left_by encs s \<and> set es \<subseteq> set encs"
proof (induction encs s rule: trim_left_by.induct)
  case (1 encs s)
  show ?case
  proof (cases "s = [] \<or> leading_space encs s = 0")
    case True
    then show ?thesis by (intro exI[of _ "[]"]) (simp add: trim_left_by.simps[of encs s])
  next
    case False
    then obtain e es where f: "filter (has_prefix s) encs = e # es" by (auto simp: leading_space_def split: list.split_asm)
    then have "e \<in> set (filter (has_prefix s) encs)" by simp
    then have e: "e \<in> set encs" "has_prefix s e" by simp_all
    have ls: "leading_space encs s = length e" using f by (simp add: leading_space_def)
    from 1[OF False] obtain ds where ds: "drop (length e) s = concat ds @ trim_left_by encs (drop (length e) s)" "set ds \<subseteq> set encs"
      unfolding ls by blast
    have "s = e @ drop (length e) s" using e(2) by (auto simp: has_prefix_iff)
    then have "s = concat (e # ds) @ trim_left_by encs s"
      using ds(1) False by (simp add: trim_left_by.simps[of encs s] ls)
    then show ?thesis using ds(2) e(1) by (intro exI[of _ "e # ds"]) simp
  qed
qed

lemma trim_space_blank:
  assumes "trim_space s = []"
  shows "ink s = {}"
proof -
  let ?t = "trim_left_by space_encodings s"
  from trim_left_split[of s space_encodings] obtain es where es: "s = concat es @ ?t" "set es \<subseteq> set space_encodings" by blast
  have "trim_left_by (map rev space_encodings) (rev ?t) = []" using assms by (simp add: trim_space_def)
  with trim_left_split[of "rev ?t" "map rev space_encodings"] obtain ds where
    ds: "rev ?t = concat ds" "set ds \<subseteq> set (map rev space_encodings)" by auto
  have t: "?t = concat (rev (map rev ds))" using arg_cong[OF ds(1), of rev] by (simp add: rev_concat rev_map)
  have "set (map rev ds) \<subseteq> set space_encodings" using ds(2) by auto
  then have sub: "set (es @ rev (map rev ds)) \<subseteq> set space_encodings" using es(2) by simp
  have s: "s = concat (es @ rev (map rev ds))" using es(1) t by (metis concat_append)
  have ok: "list_all (\<lambda>e. chunk_ok e \<and> is_space (chunk_rune e)) (es @ rev (map rev ds))"
    using encodings_are_spaces sub unfolding list_all_iff by blast
  then have "runes_of s = map (\<lambda>c. (chunk_rune c, c)) (es @ rev (map rev ds))"
    unfolding s by (intro runes_of_chunks) (simp only: list_all_iff, blast)
  moreover have "list_all (\<lambda>(r, bs). is_space r) (map (\<lambda>c. (chunk_rune c, c)) (es @ rev (map rev ds)))"
    using ok unfolding list_all_iff set_map by auto
  ultimately show ?thesis unfolding ink_def by (metis ink_all_space)
qed

definition span_ink :: "string \<Rightarrow> span \<Rightarrow> nat set" where
  "span_ink src b = {x \<in> ink src. inside x b}"

lemma span_ink_text: "span_ok src b \<Longrightarrow> ink (span_text src b) = {} \<Longrightarrow> span_ink src b = {}"
proof -
  assume ok: "span_ok src b" and none: "ink (span_text src b) = {}"
  have "x \<notin> span_ink src b" for x
    using ink_slice[of src "sp_start b" "sp_end b" "x - sp_start b"] ok none
    by (auto simp: span_ok_def span_ink_def span_text_def inside_def)
  then show ?thesis by blast
qed


section \<open>Packing returns and covers\<close>

lemma fill_chunk_le: "j \<le> fill_chunk target i j tok refs \<and> fill_chunk target i j tok refs \<le> j + length refs"
  by (induction target i j tok refs rule: fill_chunk.induct) auto

lemma fill_chunk_progress:
  assumes "i < length refs" "int (snd (refs ! i)) \<le> target"
  shows "i < fill_chunk target i i 0 (drop i refs)" "fill_chunk target i i 0 (drop i refs) \<le> length refs"
proof -
  have d: "drop i refs = refs ! i # drop (Suc i) refs" using assms(1) by (rule Cons_nth_drop_Suc[symmetric])
  obtain b t where bt: "refs ! i = (b, t)" by (cases "refs ! i")
  have "fill_chunk target i i 0 (drop i refs) = fill_chunk target i (i + 1) (0 + int t) (drop (Suc i) refs)"
    using assms(2) by (simp add: d bt)
  then show "i < fill_chunk target i i 0 (drop i refs)" "fill_chunk target i i 0 (drop i refs) \<le> length refs"
    using fill_chunk_le[of "i + 1" target i "0 + int t" "drop (Suc i) refs"] assms(1) by (simp_all, linarith)
qed

lemma index_nth: "i < length xs \<Longrightarrow> index xs (int i) = Some (xs ! i)"
  by (simp add: index_def)

lemma carry_back_range:
  assumes "i < k" "k \<le> j" "k \<le> length refs"
  shows "\<exists>k'. carry_back refs target overlap (int i) (int j) (int k) c = Some (int k') \<and> i < k' \<and> k' \<le> j"
  using assms
proof (induction k arbitrary: c)
  case (Suc k)
  note unf = carry_back.simps[of refs target overlap "int i" "int j" "int (Suc k)" c]
  show ?case
  proof (cases "int (Suc k) > int i + 1 \<and> c < overlap")
    case True
    have ix: "index refs (int k) = Some (refs ! k)" using index_nth[of k refs] Suc.prems by simp
    let ?c = "c + int (snd (refs ! k))"
    have step: "carry_back refs target overlap (int i) (int j) (int (Suc k)) c
        = (if ?c > target div 2 then Some (int j) else carry_back refs target overlap (int i) (int j) (int k) ?c)"
      by (subst unf) (use True in \<open>simp add: ix Let_def\<close>)
    have "i < k" "k \<le> j" "k \<le> length refs" using True Suc.prems by simp_all
    from Suc.IH[OF this, of ?c] show ?thesis using Suc.prems unfolding step by auto
  next
    case False
    then show ?thesis using Suc.prems by (intro exI[of _ "Suc k"]) (subst unf, auto)
  qed
qed simp

definition split_ok :: "string \<Rightarrow> span list option \<Rightarrow> span list \<Rightarrow> bool" where
  "split_ok src r bs \<longleftrightarrow> (\<exists>sps. r = Some sps \<and> list_all (span_ok src) sps \<and> (\<forall>b \<in> set bs. spans_cover sps (span_ink src b)))"

lemma cover_mono: "spans_cover sps X \<Longrightarrow> set sps \<subseteq> set sps' \<Longrightarrow> spans_cover sps' X"
  unfolding spans_cover_def by blast

lemma cover_contains: "contains sp b \<Longrightarrow> sp \<in> set sps \<Longrightarrow> spans_cover sps (span_ink src b)"
  unfolding spans_cover_def
proof
  fix x assume "contains sp b" "sp \<in> set sps" "x \<in> span_ink src b"
  then have "inside x sp" by (auto simp: span_ink_def inside_def contains_def)
  then show "\<exists>sp \<in> set sps. inside x sp" using \<open>sp \<in> set sps\<close> by blast
qed

lemma chunk_span:
  assumes "list_all (span_ok src) (map fst refs)" "sorted_wrt before (map fst refs)" "i < j" "j \<le> length refs"
  shows "span_ok src (spn (sp_start (fst (refs ! i))) (sp_end (fst (refs ! (j - 1)))))"
    and "i \<le> k \<Longrightarrow> k < j \<Longrightarrow> contains (spn (sp_start (fst (refs ! i))) (sp_end (fst (refs ! (j - 1))))) (fst (refs ! k))"
proof -
  let ?xs = "take (j - i) (drop i (map fst refs))"
  have len: "length ?xs = j - i" and ne: "?xs \<noteq> []" using assms by auto
  have srt: "sorted_wrt before ?xs" using assms(2) by (simp add: sorted_wrt_take sorted_wrt_drop)
  have ok: "list_all (span_ok src) ?xs" using assms(1) unfolding list_all_iff by (meson in_set_takeD in_set_dropD)
  have h: "hd ?xs = fst (refs ! i)" "last ?xs = fst (refs ! (j - 1))"
    using assms by (simp_all add: hd_drop_conv_nth last_conv_nth ne hd_conv_nth)
  note hull = sorted_hull[OF srt ok, unfolded h]
  have "span_ok src (fst (refs ! i))" "span_ok src (fst (refs ! (j - 1)))" using assms(1,3,4) by (simp_all add: list_all_length)
  moreover have "hd ?xs \<in> set ?xs" using hd_in_set[OF ne] .
  ultimately show "span_ok src (spn (sp_start (fst (refs ! i))) (sp_end (fst (refs ! (j - 1)))))"
    using hull[of "hd ?xs"] unfolding h by (auto simp: span_ok_def contains_def)
  assume k: "i \<le> k" "k < j"
  have "?xs ! (k - i) = fst (refs ! k)" using k assms(4) by simp
  moreover have "k - i < length ?xs" using k len by simp
  ultimately have "fst (refs ! k) \<in> set ?xs" by (metis nth_mem)
  then show "contains (spn (sp_start (fst (refs ! i))) (sp_end (fst (refs ! (j - 1))))) (fst (refs ! k))" by (rule hull)
qed

lemma split_ok_Cons:
  assumes "split_ok src r bs" "span_ok src sp" "\<And>b. b \<in> set bs' \<Longrightarrow> b \<in> set bs \<or> contains sp b"
  shows "split_ok src (Option.bind r (\<lambda>rest. Some (sp # rest))) bs'"
proof -
  from assms(1) obtain sps where s: "r = Some sps" "list_all (span_ok src) sps" "\<forall>b \<in> set bs. spans_cover sps (span_ink src b)"
    by (auto simp: split_ok_def)
  have "spans_cover (sp # sps) (span_ink src b)" if "b \<in> set bs'" for b
    using assms(3)[OF that] s(3) cover_mono[of sps _ "sp # sps"] cover_contains[of sp b "sp # sps"] by auto
  then show ?thesis using s assms(2) by (simp add: split_ok_def)
qed

lemma split_ok_append:
  assumes "split_ok src r bs" "split_ok src q [b]"
  shows "split_ok src (Option.bind q (\<lambda>sps. Option.bind r (\<lambda>rest. Some (sps @ rest)))) (b # bs)"
proof -
  from assms(1) obtain sps where s: "r = Some sps" "list_all (span_ok src) sps" "\<forall>b \<in> set bs. spans_cover sps (span_ink src b)"
    by (auto simp: split_ok_def)
  from assms(2) obtain qs where q: "q = Some qs" "list_all (span_ok src) qs" "spans_cover qs (span_ink src b)"
    by (auto simp: split_ok_def)
  have "spans_cover (qs @ sps) (span_ink src c)" if "c \<in> set (b # bs)" for c
    using that s(3) q(3) cover_mono[of sps _ "qs @ sps"] cover_mono[of qs _ "qs @ sps"] by auto
  then show ?thesis using s q by (simp add: split_ok_def)
qed

lemma split_ok_last: "span_ok src sp \<Longrightarrow> (\<And>b. b \<in> set bs \<Longrightarrow> contains sp b) \<Longrightarrow> split_ok src (Some [sp]) bs"
  using cover_contains[of sp _ "[sp]"] by (simp add: split_ok_def)

lemma pack_returns:
  assumes refs: "list_all (span_ok src) (map fst refs)" "sorted_wrt before (map fst refs)"
    and ov: "\<And>b. b \<in> set (map fst refs) \<Longrightarrow> split_ok src (oversized b) [b]"
  shows "split_ok src (pack refs target overlap oversized (int i)) (drop i (map fst refs))"
proof (induction "length refs - i" arbitrary: i rule: less_induct)
  case less
  let ?n = "length refs" and ?bs = "\<lambda>i. drop i (map fst refs)"
  note unf = pack.simps[of refs target overlap oversized "int i"]
  show ?case
  proof (cases "i < ?n")
    case False
    then show ?thesis by (simp add: unf split_ok_def)
  next
    case True
    have r: "index refs (int i) = Some (refs ! i)" using index_nth[OF True] .
    have d: "?bs i = fst (refs ! i) # ?bs (i + 1)" using Cons_nth_drop_Suc[of i "map fst refs"] True by simp
    show ?thesis
    proof (cases "int (snd (refs ! i)) > target")
      case big: True
      have "split_ok src (pack refs target overlap oversized (int (i + 1))) (?bs (i + 1))" using less[of "i + 1"] True by simp
      moreover have "split_ok src (oversized (fst (refs ! i))) [fst (refs ! i)]" using ov True by simp
      ultimately show ?thesis using split_ok_append True big by (simp add: unf r d add.commute)
    next
      case False
      define j where "j = fill_chunk target i i 0 (drop i refs)"
      have j: "i < j" "j \<le> ?n" using fill_chunk_progress[OF True] False by (simp_all add: j_def)
      obtain k where cb: "carry_back refs target overlap (int i) (int j) (int j) 0 = Some (int k)" and k: "i < k" "k \<le> j"
        using carry_back_range[of i j j refs target overlap 0] j by auto
      have q: "index refs (int j - 1) = Some (refs ! (j - 1))" using index_nth[of "j - 1" refs] j by (simp add: of_nat_diff)
      let ?sp = "spn (sp_start (fst (refs ! i))) (sp_end (fst (refs ! (j - 1))))"
      note sp = chunk_span[OF refs j]
      have mem: "\<exists>m. i \<le> m \<and> m < ?n \<and> b = fst (refs ! m)" if "b \<in> set (?bs i)" for b
      proof -
        from that obtain m where "m < length (?bs i)" "b = ?bs i ! m" by (auto simp: in_set_conv_nth)
        then show ?thesis using True by (intro exI[of _ "i + m"]) simp
      qed
      show ?thesis
      proof (cases "j = ?n")
        case end_: True
        have "contains ?sp b" if "b \<in> set (?bs i)" for b using mem[OF that] sp(2) end_ by auto
        then show ?thesis using split_ok_last[OF sp(1)] True False end_ q by (simp add: unf r j_def[symmetric])
      next
        case more: False
        have "split_ok src (pack refs target overlap oversized (int k)) (?bs k)" using less[of k] k True by simp
        moreover have "b \<in> set (?bs k) \<or> contains ?sp b" if b: "b \<in> set (?bs i)" for b
        proof -
          from mem[OF b] obtain m where m: "i \<le> m" "m < ?n" "b = fst (refs ! m)" by blast
          show ?thesis
          proof (cases "m < j")
            case True
            then show ?thesis using sp(2)[of m] m by simp
          next
            case False
            then have "b = ?bs k ! (m - k)" "m - k < length (?bs k)" using m k by simp_all
            then show ?thesis by (metis nth_mem)
          qed
        qed
        ultimately have "split_ok src (Option.bind (pack refs target overlap oversized (int k)) (\<lambda>rest. Some (?sp # rest))) (?bs i)"
          using split_ok_Cons[OF _ sp(1)] by blast
        then show ?thesis using True False more k q by (simp add: unf r j_def[symmetric] cb)
      qed
    qed
  qed
qed


lemma dedupe_props:
  "set out \<subseteq> set (foldl dedupe_span out sps) \<and> set (foldl dedupe_span out sps) \<subseteq> set out \<union> set sps
    \<and> (\<forall>sp \<in> set sps. \<forall>x. inside x sp \<longrightarrow> (\<exists>sp' \<in> set (foldl dedupe_span out sps). inside x sp'))"
proof (induction sps arbitrary: out)
  case (Cons sp sps)
  let ?o = "dedupe_span out sp"
  have o: "set out \<subseteq> set ?o" "set ?o \<subseteq> set out \<union> {sp}" by (auto simp: dedupe_span_def)
  have i: "\<exists>sp' \<in> set ?o. inside x sp'" if "inside x sp" for x
  proof -
    have "sp_start sp < sp_end sp" using that by (simp add: inside_def)
    moreover have "inside x (last out)" if "sp_start (last out) \<le> sp_start sp" "sp_end sp \<le> sp_end (last out)"
      using that \<open>inside x sp\<close> by (simp add: inside_def)
    ultimately show ?thesis using that by (cases "out = []") (auto simp: dedupe_span_def intro!: bexI[of _ "last out"])
  qed
  let ?r = "foldl dedupe_span ?o sps"
  have IH: "set ?o \<subseteq> set ?r" "set ?r \<subseteq> set ?o \<union> set sps"
    "\<And>q x. q \<in> set sps \<Longrightarrow> inside x q \<Longrightarrow> \<exists>sp' \<in> set ?r. inside x sp'" using Cons[of ?o] by blast+
  have "\<exists>sp' \<in> set ?r. inside x sp'" if q: "q \<in> set (sp # sps)" and x: "inside x q" for q x
  proof (cases "q = sp")
    case True
    then obtain sp' where "sp' \<in> set ?o" "inside x sp'" using i[of x] x by blast
    then show ?thesis using IH(1) by (meson subsetD)
  next
    case False
    then show ?thesis using IH(3)[of q x] q x by simp
  qed
  moreover have "set out \<subseteq> set ?r" "set ?r \<subseteq> set out \<union> set (sp # sps)" using o IH(1,2) by auto
  ultimately show ?case unfolding foldl.simps by blast
qed simp

lemma split_ok_dedupe:
  assumes "split_ok src r bs"
  shows "split_ok src (map_option dedupeSpans r) bs"
proof -
  from assms obtain sps where s: "r = Some sps" "list_all (span_ok src) sps" "\<forall>b \<in> set bs. spans_cover sps (span_ink src b)"
    by (auto simp: split_ok_def)
  note d = dedupe_props[of "[]" sps, folded dedupeSpans_def]
  have "list_all (span_ok src) (dedupeSpans sps)" using s(2) d by (auto simp: list_all_iff)
  moreover have "spans_cover (dedupeSpans sps) (span_ink src b)" if "b \<in> set bs" for b
    using s(3) that d unfolding spans_cover_def by blast
  ultimately show ?thesis by (simp add: split_ok_def s(1))
qed

lemma packBlocks_returns:
  assumes "list_all (span_ok src) bs" "sorted_wrt before bs" "\<And>b. b \<in> set bs \<Longrightarrow> split_ok src (oversized b) [b]"
  shows "split_ok src (packBlocks src bs target overlap oversized) bs"
proof -
  let ?f = "filter (\<lambda>b. CountTokens (span_text src b) > 0) bs"
  have f: "map fst (block_refs src bs) = ?f" by (induction bs) (auto simp: block_refs_def)
  have "split_ok src (pack (block_refs src bs) target overlap oversized (int 0)) (drop 0 (map fst (block_refs src bs)))"
    by (rule pack_returns) (use assms in \<open>auto simp: f list_all_iff sorted_wrt_filter\<close>)
  then have ok: "split_ok src (packBlocks src bs target overlap oversized) ?f"
    by (simp add: packBlocks_def f split_ok_dedupe)
  then obtain sps where s: "packBlocks src bs target overlap oversized = Some sps" "list_all (span_ok src) sps"
    "\<forall>b \<in> set ?f. spans_cover sps (span_ink src b)" by (auto simp: split_ok_def)
  have "spans_cover sps (span_ink src b)" if b: "b \<in> set bs" for b
  proof (cases "CountTokens (span_text src b) = 0")
    case True
    then have "span_ink src b = {}" using span_ink_text[of src b] no_tokens_blank assms(1) b by (simp add: list_all_iff)
    then show ?thesis by (simp add: spans_cover_def)
  next
    case False
    then show ?thesis using s(3) b by simp
  qed
  then show ?thesis using s by (simp add: split_ok_def)
qed

text \<open>Spans found in a block's text are spans of the source.\<close>

lemma shift_span_ok:
  assumes "span_ok src b" "span_ok (span_text src b) sp"
  shows "span_ok src (spn (sp_start sp + sp_start b) (sp_end sp + sp_start b))"
  using assms rune_cut_slice[of src "sp_start b" "sp_end b" "sp_start sp"] rune_cut_slice[of src "sp_start b" "sp_end b" "sp_end sp"]
  by (simp add: span_ok_def span_text_def add.commute)

lemma shift_cover:
  assumes "span_ok src b" "spans_cover sps (ink (span_text src b))"
  shows "spans_cover (shiftSpans sps (sp_start b)) (span_ink src b)"
  unfolding spans_cover_def
proof
  fix x assume x: "x \<in> span_ink src b"
  then have "x - sp_start b \<in> ink (span_text src b)"
    using ink_slice[of src "sp_start b" "sp_end b" "x - sp_start b"] assms(1)
    by (simp add: span_ok_def span_ink_def span_text_def inside_def)
  then obtain sp where sp: "sp \<in> set sps" "inside (x - sp_start b) sp" using assms(2) by (auto simp: spans_cover_def)
  have "inside x (spn (sp_start sp + sp_start b) (sp_end sp + sp_start b))"
    using sp(2) x by (auto simp: inside_def span_ink_def)
  then show "\<exists>sp \<in> set (shiftSpans sps (sp_start b)). inside x sp" using sp(1) by (force simp: shiftSpans_def)
qed

lemma split_window_returns:
  assumes "0 < target" "span_ok src b"
  shows "split_ok src (split_window src target overlap b) [b]"
proof -
  from fixedSpans_returns[OF assms(1), of "span_text src b" overlap] obtain sps where
    s: "fixedSpans (span_text src b) target overlap = Some sps" "list_all (span_ok (span_text src b)) sps"
    "spans_cover sps (ink (span_text src b))" by blast
  have "list_all (span_ok src) (shiftSpans sps (sp_start b))"
    using s(2) shift_span_ok[OF assms(2)] by (auto simp: list_all_iff shiftSpans_def)
  then show ?thesis using s(1) shift_cover[OF assms(2) s(3)] by (simp add: split_ok_def split_window_def)
qed


lemma nonEmptyLineSpans_props:
  assumes "span_ok src b"
  shows "list_all (span_ok src) (nonEmptyLineSpans src b)" "sorted_wrt before (nonEmptyLineSpans src b)"
    "x \<in> span_ink src b \<Longrightarrow> \<exists>l \<in> set (nonEmptyLineSpans src b). x \<in> span_ink src l"
proof -
  let ?ls = "lineSpans (span_text src b)"
  let ?sh = "\<lambda>l. spn (sp_start l + sp_start b) (sp_end l + sp_start b)"
  have ok: "span_ok src (?sh l)" if "l \<in> set ?ls" for l
    using shift_span_ok[OF assms] lineSpans_props(1)[of "span_text src b"] that by (simp add: list_all_iff)
  show "list_all (span_ok src) (nonEmptyLineSpans src b)"
    using ok by (auto simp: nonEmptyLineSpans_def shiftSpans_def list_all_iff)
  have "sorted_wrt (\<lambda>x y. sp_end x \<le> sp_start y) (filter P ?ls)" for P
    using lineSpans_props(2)[of "span_text src b"] by (simp add: sorted_wrt_filter before_def[abs_def])
  then show "sorted_wrt before (nonEmptyLineSpans src b)"
    by (simp add: nonEmptyLineSpans_def shiftSpans_def sorted_wrt_map before_def)
  assume x: "x \<in> span_ink src b"
  from shift_cover[OF assms lineSpans_props(3)] x obtain l where l: "l \<in> set ?ls" "inside x (?sh l)"
    by (auto simp: spans_cover_def shiftSpans_def)
  have xl: "x \<in> span_ink src (?sh l)" using x l(2) by (simp add: span_ink_def)
  then have "ink (span_text src (?sh l)) \<noteq> {}" using span_ink_text[OF ok[OF l(1)]] by blast
  then have "CountTokens (span_text src (?sh l)) \<noteq> 0" using no_tokens_blank by blast
  then have "?sh l \<in> set (nonEmptyLineSpans src b)"
    using l(1) by (auto simp: nonEmptyLineSpans_def shiftSpans_def span_text_def add.commute)
  then show "\<exists>l \<in> set (nonEmptyLineSpans src b). x \<in> span_ink src l" using xl by blast
qed

lemma oversizedSplitter_returns:
  assumes "0 < target" "span_ok src b"
  shows "split_ok src (oversizedSplitter src kind target overlap b) [b]"
proof (cases "kind = KindTable")
  case False
  then show ?thesis using split_window_returns[OF assms] by (simp add: oversizedSplitter_def)
next
  case True
  note n = nonEmptyLineSpans_props[OF assms(2)]
  have "split_ok src (packBlocks src (nonEmptyLineSpans src b) target overlap (split_window src target overlap)) (nonEmptyLineSpans src b)"
    by (rule packBlocks_returns[OF n(1,2)]) (use n(1) split_window_returns[OF assms(1)] in \<open>simp add: list_all_iff\<close>)
  then obtain sps where s: "packBlocks src (nonEmptyLineSpans src b) target overlap (split_window src target overlap) = Some sps"
    "list_all (span_ok src) sps" "\<forall>l \<in> set (nonEmptyLineSpans src b). spans_cover sps (span_ink src l)" by (auto simp: split_ok_def)
  have "spans_cover sps (span_ink src b)" using s(3) n(3) unfolding spans_cover_def by blast
  then show ?thesis using True s by (simp add: split_ok_def oversizedSplitter_def)
qed

text \<open>The text of a source that a policy keeps: all of it, except the separator lines of slides.\<close>

definition content :: "Kind \<Rightarrow> string \<Rightarrow> nat set" where
  "content kind src = {x \<in> ink src. kind = KindSlides \<longrightarrow> (\<forall>l \<in> set (lineSpans src). inside x l \<longrightarrow> \<not> separator src l)}"

lemma content_in_block:
  assumes "x \<in> content kind src"
  shows "\<exists>b \<in> set (splitBlocks letter src kind). x \<in> span_ink src b"
proof -
  have x: "x \<in> ink src" using assms by (simp add: content_def)
  then obtain l where l: "l \<in> set (lineSpans src)" "inside x l" using lineSpans_props(3)[of src] by (auto simp: spans_cover_def)
  have ok: "span_ok src l" using lineSpans_props(1)[of src] l(1) by (simp add: list_all_iff)
  have "x \<in> span_ink src l" using x l(2) by (simp add: span_ink_def)
  then have "\<not> blank src l" using span_ink_text[OF ok] trim_space_blank by (auto simp: blank_def)
  then have "keeps kind src l" using assms l by (auto simp: keeps_def content_def)
  then obtain b where b: "b \<in> set (splitBlocks letter src kind)" "contains b l" using splitBlocks_props(3) l(1) by blast
  have "inside x b" using b(2) l(2) by (auto simp: inside_def contains_def)
  then show ?thesis using b(1) x by (auto simp: span_ink_def)
qed

lemma structureSpans_returns:
  assumes "0 < target"
  shows "\<exists>sps. structureSpans letter src kind target overlap = Some sps \<and> list_all (span_ok src) sps
    \<and> spans_cover sps (content kind src)"
proof -
  have ok: "split_ok src (structureSpans letter src kind target overlap) (splitBlocks letter src kind)"
    unfolding structureSpans_def
    by (rule packBlocks_returns[OF splitBlocks_props(1,2)])
      (use splitBlocks_props(1)[of src letter kind] oversizedSplitter_returns[OF assms] in \<open>simp add: list_all_iff\<close>)
  then obtain sps where s: "structureSpans letter src kind target overlap = Some sps" "list_all (span_ok src) sps"
    "\<forall>b \<in> set (splitBlocks letter src kind). spans_cover sps (span_ink src b)" by (auto simp: split_ok_def)
  have "spans_cover sps (content kind src)"
    unfolding spans_cover_def
  proof
    fix x assume "x \<in> content kind src"
    from content_in_block[OF this, of letter] s(3) show "\<exists>sp \<in> set sps. inside x sp" unfolding spans_cover_def by blast
  qed
  then show ?thesis using s by blast
qed


section \<open>Receipts\<close>

definition receipt_ok :: "(string \<Rightarrow> string) \<Rightarrow> string \<Rightarrow> string \<Rightarrow> string \<Rightarrow> Receipt \<Rightarrow> bool" where
  "receipt_ok sha docID role src r \<longleftrightarrow> rt_DocumentID r = docID \<and> rt_Role r = role
     \<and> rt_Start r < rt_End r \<and> rt_End r \<le> length src \<and> rt_Text r = slice src (rt_Start r) (rt_End r)
     \<and> rt_SHA256 r = sha (rt_Text r) \<and> 0 < rt_Tokens r \<and> rt_Start r \<in> ink src"

lemma stamped_receipt:
  assumes "span_ok src sp" "Tokenize (span_text src sp) = toks" "toks \<noteq> []"
  shows "receipt_ok sha docID role src (stamp_receipt sha docID kind src p role seq sp toks)"
    and "x \<in> span_ink src sp \<Longrightarrow> rt_Start (stamp_receipt sha docID kind src p role seq sp toks) \<le> x
      \<and> x < rt_End (stamp_receipt sha docID kind src p role seq sp toks)"
proof -
  let ?s = "span_text src sp"
  define n where "n = length (Tokenize ?s) - 1"
  have n: "n < length (Tokenize ?s)" "last toks = Tokenize ?s ! n" "hd toks = Tokenize ?s ! 0"
    using assms(2,3) by (auto simp: n_def last_conv_nth hd_conv_nth)
  have len: "length ?s = sp_end sp - sp_start sp" "sp_start sp \<le> sp_end sp" "sp_end sp \<le> length src"
    using assms(1) rune_cut_le[of src "sp_end sp"] by (auto simp: span_ok_def span_text_def slice_def)
  have lt: "tk_Start (hd toks) < tk_End (last toks)" using token_order[of 0 n ?s] n by simp
  have "token_ok ?s (last toks)" using Tokenize_ok[of ?s] n by (simp add: list_all_length)
  then have "tk_End (last toks) \<le> length ?s" using rune_cut_le by (auto simp: token_ok_def)
  moreover have "tk_Start (hd toks) \<in> reach (map bounds (Tokenize ?s))"
    using assms(2,3) token_order[of 0 0 ?s] n by (cases toks) (simp_all add: bounds_def)
  then have "tk_Start (hd toks) \<in> ink ?s" by (simp add: Tokenize_reach)
  then have "sp_start sp + tk_Start (hd toks) \<in> ink src"
    using ink_slice[of src "sp_start sp" "sp_end sp" "tk_Start (hd toks)"] assms(1) by (simp add: span_ok_def span_text_def)
  ultimately show "receipt_ok sha docID role src (stamp_receipt sha docID kind src p role seq sp toks)"
    using lt len assms(3) by (simp add: receipt_ok_def stamp_receipt_def Let_def)
  assume x: "x \<in> span_ink src sp"
  have ink: "x - sp_start sp \<in> ink ?s"
    using ink_slice[of src "sp_start sp" "sp_end sp" "x - sp_start sp"] assms(1) x
    by (simp add: span_ok_def span_ink_def span_text_def inside_def)
  have "windows_ok (length (Tokenize ?s)) (int (length (Tokenize ?s))) 0 [(0, length (Tokenize ?s))]"
    using assms(2,3) windows_last[of 0 "length (Tokenize ?s)" "int (length (Tokenize ?s))"] by simp
  from window_covers[OF this] have "inside (x - sp_start sp) (window_span (Tokenize ?s) (0, length (Tokenize ?s)))"
    using ink by (simp add: spans_cover_def)
  then have "tk_Start (hd toks) \<le> x - sp_start sp" "x - sp_start sp < tk_End (last toks)"
    using n by (simp_all add: inside_def window_span_def n_def)
  then show "rt_Start (stamp_receipt sha docID kind src p role seq sp toks) \<le> x
      \<and> x < rt_End (stamp_receipt sha docID kind src p role seq sp toks)"
    using x by (auto simp: stamp_receipt_def Let_def span_ink_def inside_def)
qed


definition chunk_at :: "Receipt list \<Rightarrow> string \<Rightarrow> string \<Rightarrow> nat \<Rightarrow> bool" where
  "chunk_at rs docID role x \<longleftrightarrow> list_ex (\<lambda>r. rt_DocumentID r = docID \<and> rt_Role r = role \<and> rt_Start r \<le> x \<and> x < rt_End r) rs"

lemma receipts_from_ok:
  "list_all (span_ok src) sps \<Longrightarrow> list_all (receipt_ok sha docID role src) (receipts_from sha docID kind src p role seq sps)"
  by (induction sps arbitrary: seq) (simp_all add: Let_def stamped_receipt(1))

lemma receipts_from_fit:
  "list_all (fits target src) sps \<Longrightarrow> list_all (\<lambda>r. int (rt_Tokens r) \<le> target) (receipts_from sha docID kind src p role seq sps)"
  by (induction sps arbitrary: seq) (simp_all add: Let_def stamp_receipt_def fits_def)

lemma receipts_from_cover:
  assumes "list_all (span_ok src) sps" "q \<in> set sps" "x \<in> span_ink src q"
  shows "chunk_at (receipts_from sha docID kind src p role seq sps) docID role x"
  using assms(1,2)
proof (induction sps arbitrary: seq)
  case (Cons sp sps)
  let ?t = "Tokenize (span_text src sp)"
  let ?r = "stamp_receipt sha docID kind src p role seq sp ?t"
  have ok: "span_ok src sp" "list_all (span_ok src) sps" using Cons.prems(1) by simp_all
  have r: "rt_DocumentID ?r = docID" "rt_Role ?r = role" by (simp_all add: stamp_receipt_def Let_def)
  show ?case
  proof (cases "q = sp")
    case True
    then have ne: "?t \<noteq> []" using span_ink_text[OF ok(1)] Tokenize_empty assms(3) by auto
    then have "rt_Start ?r \<le> x \<and> x < rt_End ?r" using stamped_receipt(2)[OF ok(1) refl ne] assms(3) True by simp
    then show ?thesis using ne r by (simp add: chunk_at_def Let_def)
  next
    case False
    then have "q \<in> set sps" using Cons.prems(2) by simp
    then show ?thesis using Cons.IH[OF ok(2), of seq] Cons.IH[OF ok(2), of "seq + 1"] by (simp add: chunk_at_def Let_def)
  qed
qed simp

lemma receipts_cover:
  assumes "list_all (span_ok src) sps" "spans_cover sps X" "X \<subseteq> ink src" "x \<in> X"
  shows "chunk_at (receiptsFor sha docID kind src sps p role) docID role x"
proof -
  from assms obtain q where "q \<in> set sps" "inside x q" by (auto simp: spans_cover_def)
  then show ?thesis unfolding receiptsFor_def
    using receipts_from_cover[OF assms(1), of q x] assms(3,4) by (auto simp: span_ink_def)
qed


section \<open>Chunking returns\<close>

text \<open>What the receipts of one document are.\<close>

definition doc_receipts_ok :: "(string \<Rightarrow> string) \<Rightarrow> Policy \<Rightarrow> string \<Rightarrow> Kind \<Rightarrow> string \<Rightarrow> Receipt list \<Rightarrow> bool" where
  "doc_receipts_ok sha p docID kind src rs \<longleftrightarrow>
     list_all (\<lambda>r. receipt_ok sha docID (rt_Role r) src r \<and>
       (cp_Strategy p = StrategyFixed \<longrightarrow> int (rt_Tokens r) \<le> cp_TargetTokens p) \<and>
       (cp_Strategy p = StrategyParentChild \<longrightarrow>
          int (rt_Tokens r) \<le> (if rt_Role r = RoleParent then cp_ParentTargetTokens p else cp_ChildTargetTokens p))) rs
     \<and> (\<forall>x \<in> content kind src. chunk_at rs docID RoleChunk x)
     \<and> (cp_Strategy p = StrategyParentChild \<longrightarrow>
          list_all (\<lambda>r. rt_Role r = RoleChunk \<longrightarrow> list_ex (\<lambda>q. rt_Role q = RoleParent \<and> rt_ParentID r = rt_ChunkID q
                                                     \<and> byte_overlap r q > 0) rs) rs)"

lemma content_ink: "content kind src \<subseteq> ink src"
  by (auto simp: content_def)

lemma cover_subset: "spans_cover sps X \<Longrightarrow> Y \<subseteq> X \<Longrightarrow> spans_cover sps Y"
  unfolding spans_cover_def by blast

lemmas strategy_defs = StrategyWholeDoc_def StrategyFixed_def StrategyStructure_def StrategyParentChild_def

lemma assignParents_props:
  "list_all P (assignParents parents children) = list_all P children"
    if "\<And>r i. P (r\<lparr>rt_ParentID := i\<rparr>) = P r"
  using that by (auto simp: assignParents_def list_all_iff split: option.split)

lemma assignParents_chunk_at: "chunk_at (assignParents parents children) docID role x = chunk_at children docID role x"
  by (auto simp: assignParents_def chunk_at_def list_ex_iff split: option.split)


lemma best_parent_fold:
  "foldl (\<lambda>(best, m) q. if byte_overlap c q > m then (Some q, byte_overlap c q) else (best, m)) (b, m) ps = (b', m') \<Longrightarrow>
    m \<le> m' \<and> (\<forall>q \<in> set ps. byte_overlap c q \<le> m') \<and> (b' = b \<and> m' = m \<or> (\<exists>q \<in> set ps. b' = Some q \<and> byte_overlap c q = m'))"
proof (induction ps arbitrary: b m)
  case (Cons q ps)
  show ?case
  proof (cases "byte_overlap c q > m")
    case True
    then show ?thesis using Cons.IH[of "Some q" "byte_overlap c q"] Cons.prems by auto
  next
    case False
    then show ?thesis using Cons.IH[of b m] Cons.prems by auto
  qed
qed simp

lemma best_parent_found:
  assumes "q \<in> set parents" "byte_overlap c q > 0"
  shows "\<exists>q \<in> set parents. best_parent parents c = Some q \<and> byte_overlap c q > 0"
proof -
  obtain b m where f: "foldl (\<lambda>(best, m) q. if byte_overlap c q > m then (Some q, byte_overlap c q) else (best, m)) (None, 0) parents = (b, m)"
    by (meson surj_pair)
  have "byte_overlap c q \<le> m" using best_parent_fold[OF f] assms(1) by blast
  then have "m \<noteq> 0" using assms(2) by simp
  then obtain r where "r \<in> set parents" "b = Some r" "byte_overlap c r = m" using best_parent_fold[OF f] by blast
  moreover have "best_parent parents c = b" using f by (simp add: best_parent_def)
  ultimately show ?thesis using \<open>byte_overlap c q \<le> m\<close> assms(2) by auto
qed

lemma children_linked:
  assumes "list_all (receipt_ok sha docID RoleChunk src) children" "\<forall>x \<in> ink src. chunk_at parents docID RoleParent x"
    and "list_all (receipt_ok sha docID RoleParent src) parents"
  shows "list_all (\<lambda>r. list_ex (\<lambda>q. rt_Role q = RoleParent \<and> rt_ParentID r = rt_ChunkID q \<and> byte_overlap r q > 0) parents)
    (assignParents parents children)"
  unfolding list_all_iff
proof
  fix r assume "r \<in> set (assignParents parents children)"
  then obtain c where c: "c \<in> set children"
    and r: "r = (case best_parent parents c of None \<Rightarrow> c | Some q \<Rightarrow> c\<lparr>rt_ParentID := rt_ChunkID q\<rparr>)"
    by (auto simp: assignParents_def)
  have ok: "rt_Start c \<in> ink src" "rt_Start c < rt_End c" using assms(1) c by (auto simp: list_all_iff receipt_ok_def)
  with assms(2) obtain q where "q \<in> set parents" "rt_Start q \<le> rt_Start c" "rt_Start c < rt_End q"
    by (auto simp: chunk_at_def list_ex_iff)
  then have "q \<in> set parents" "byte_overlap c q > 0" using ok(2) by (auto simp: byte_overlap_def)
  from best_parent_found[OF this] obtain q' where q: "q' \<in> set parents" "best_parent parents c = Some q'" "byte_overlap c q' > 0" by blast
  have "rt_Role q' = RoleParent" using assms(3) q(1) by (auto simp: list_all_iff receipt_ok_def)
  moreover have "byte_overlap r q' = byte_overlap c q'" by (simp add: r q(2) byte_overlap_def)
  ultimately show "list_ex (\<lambda>q. rt_Role q = RoleParent \<and> rt_ParentID r = rt_ChunkID q \<and> byte_overlap r q > 0) parents"
    using q by (auto simp: list_ex_iff r)
qed


lemma single_role_ok:
  assumes "list_all (span_ok src) sps" "spans_cover sps (content kind src)" "cp_Strategy p \<noteq> StrategyParentChild"
    and "cp_Strategy p = StrategyFixed \<Longrightarrow> list_all (fits (cp_TargetTokens p) src) sps"
  shows "doc_receipts_ok sha p docID kind src (receiptsFor sha docID kind src sps p RoleChunk)"
proof -
  let ?rs = "receiptsFor sha docID kind src sps p RoleChunk"
  have ok: "list_all (receipt_ok sha docID RoleChunk src) ?rs" unfolding receiptsFor_def by (rule receipts_from_ok[OF assms(1)])
  have fit: "list_all (\<lambda>r. int (rt_Tokens r) \<le> cp_TargetTokens p) ?rs" if "cp_Strategy p = StrategyFixed"
    unfolding receiptsFor_def by (rule receipts_from_fit[OF assms(4)[OF that]])
  have "\<forall>x \<in> content kind src. chunk_at ?rs docID RoleChunk x" using receipts_cover[OF assms(1,2) content_ink] by blast
  moreover have "receipt_ok sha docID (rt_Role r) src r" if "r \<in> set ?rs" for r
    using ok that by (auto simp: list_all_iff receipt_ok_def)
  ultimately show ?thesis using assms(3) fit by (auto simp: doc_receipts_ok_def list_all_iff)
qed

lemma whole_span: "span_ok src (spn 0 (length src))" "spans_cover [spn 0 (length src)] (content kind src)"
  using ink_range[of src] content_ink[of kind src] by (auto simp: span_ok_def spans_cover_def inside_def)

lemma parent_child_ok:
  assumes "cp_Strategy p = StrategyParentChild"
    and ps: "list_all (span_ok src) ps" "spans_cover ps (ink src)" "list_all (fits (cp_ParentTargetTokens p) src) ps"
    and cs: "list_all (span_ok src) cs" "spans_cover cs (ink src)" "list_all (fits (cp_ChildTargetTokens p) src) cs"
    and parents_def: "parents = receiptsFor sha docID kind src ps p RoleParent"
  shows "doc_receipts_ok sha p docID kind src (parents @ assignParents parents (receiptsFor sha docID kind src cs p RoleChunk))"
proof -
  let ?c = "receiptsFor sha docID kind src cs p RoleChunk"
  have okp: "list_all (receipt_ok sha docID RoleParent src) parents"
    and fitp: "list_all (\<lambda>r. int (rt_Tokens r) \<le> cp_ParentTargetTokens p) parents"
    unfolding parents_def receiptsFor_def by (rule receipts_from_ok[OF ps(1)], rule receipts_from_fit[OF ps(3)])
  have okc: "list_all (receipt_ok sha docID RoleChunk src) ?c"
    and fitc: "list_all (\<lambda>r. int (rt_Tokens r) \<le> cp_ChildTargetTokens p) ?c"
    unfolding receiptsFor_def by (rule receipts_from_ok[OF cs(1)], rule receipts_from_fit[OF cs(3)])
  have covp: "\<forall>x \<in> ink src. chunk_at parents docID RoleParent x"
    using receipts_cover[OF ps(1,2) order_refl] unfolding parents_def by blast
  have covc: "\<forall>x \<in> content kind src. chunk_at (assignParents parents ?c) docID RoleChunk x"
    using receipts_cover[OF cs(1) cover_subset[OF cs(2) content_ink] content_ink] by (simp add: assignParents_chunk_at)
  have okc': "list_all (receipt_ok sha docID RoleChunk src) (assignParents parents ?c)"
    and fitc': "list_all (\<lambda>r. int (rt_Tokens r) \<le> cp_ChildTargetTokens p) (assignParents parents ?c)"
    using okc fitc by (simp_all add: assignParents_props receipt_ok_def)
  have roles: "rt_Role r = RoleParent" if "r \<in> set parents" for r using okp that by (auto simp: list_all_iff receipt_ok_def)
  have roles': "rt_Role r = RoleChunk" if "r \<in> set (assignParents parents ?c)" for r
    using okc' that by (auto simp: list_all_iff receipt_ok_def)
  have ne: "RoleChunk \<noteq> RoleParent" "StrategyParentChild \<noteq> StrategyFixed" by (simp_all add: RoleChunk_def RoleParent_def strategy_defs)
  have "\<forall>x \<in> content kind src. chunk_at (parents @ assignParents parents ?c) docID RoleChunk x"
    using covc by (simp add: chunk_at_def)
  moreover have "list_all (\<lambda>r. rt_Role r = RoleChunk \<longrightarrow> list_ex (\<lambda>q. rt_Role q = RoleParent \<and> rt_ParentID r = rt_ChunkID q
      \<and> byte_overlap r q > 0) (parents @ assignParents parents ?c)) (parents @ assignParents parents ?c)"
    using children_linked[OF okc covp okp] roles ne(1) by (auto simp: list_all_iff)
  moreover have "receipt_ok sha docID (rt_Role r) src r
      \<and> int (rt_Tokens r) \<le> (if rt_Role r = RoleParent then cp_ParentTargetTokens p else cp_ChildTargetTokens p)"
    if "r \<in> set (parents @ assignParents parents ?c)" for r
  proof (cases "r \<in> set parents")
    case True
    then show ?thesis using roles[OF True] okp fitp by (simp add: list_all_iff)
  next
    case False
    then have "r \<in> set (assignParents parents ?c)" using that by simp
    then show ?thesis using roles'[of r] okc' fitc' ne(1) by (simp add: list_all_iff)
  qed
  ultimately show ?thesis using assms(1) ne(2) unfolding doc_receipts_ok_def list_all_iff by simp
qed

lemma chunk_source_returns:
  assumes "Validate p = None"
  shows "\<exists>rs. chunk_source sha letter p docID kind src = Some rs \<and> doc_receipts_ok sha p docID kind src rs"
proof -
  consider (whole) "cp_Strategy p = StrategyWholeDoc" | (fixed) "cp_Strategy p = StrategyFixed" "0 < cp_TargetTokens p"
    | (packed) "cp_Strategy p = StrategyStructure" "0 < cp_TargetTokens p"
    | (parent) "cp_Strategy p = StrategyParentChild" "0 < cp_ParentTargetTokens p" "0 < cp_ChildTargetTokens p"
    using assms by (auto simp: Validate_def validateWindow_def split: if_split_asm option.split_asm)
  then show ?thesis
  proof cases
    case whole
    have "doc_receipts_ok sha p docID kind src (receiptsFor sha docID kind src [spn 0 (length src)] p RoleChunk)"
      by (rule single_role_ok) (use whole whole_span in \<open>simp_all add: strategy_defs\<close>)
    then show ?thesis using whole by (simp add: chunk_source_def)
  next
    case fixed
    from fixedSpans_returns[OF fixed(2), of src "cp_OverlapTokens p"] obtain sps where
      s: "fixedSpans src (cp_TargetTokens p) (cp_OverlapTokens p) = Some sps" "list_all (span_ok src) sps"
      "spans_cover sps (ink src)" "list_all (fits (cp_TargetTokens p) src) sps" by blast
    have "doc_receipts_ok sha p docID kind src (receiptsFor sha docID kind src sps p RoleChunk)"
      by (rule single_role_ok[OF s(2) cover_subset[OF s(3) content_ink]]) (use fixed s(4) in \<open>simp_all add: strategy_defs\<close>)
    then show ?thesis using fixed s(1) by (simp add: chunk_source_def strategy_defs)
  next
    case packed
    from structureSpans_returns[OF packed(2), of letter src kind "cp_OverlapTokens p"] obtain sps where
      s: "structureSpans letter src kind (cp_TargetTokens p) (cp_OverlapTokens p) = Some sps" "list_all (span_ok src) sps"
      "spans_cover sps (content kind src)" by blast
    have "doc_receipts_ok sha p docID kind src (receiptsFor sha docID kind src sps p RoleChunk)"
      by (rule single_role_ok[OF s(2,3)]) (use packed in \<open>simp_all add: strategy_defs\<close>)
    then show ?thesis using packed s(1) by (simp add: chunk_source_def strategy_defs)
  next
    case parent
    from fixedSpans_returns[OF parent(2), of src "cp_ParentOverlapTokens p"] obtain ps where
      s: "fixedSpans src (cp_ParentTargetTokens p) (cp_ParentOverlapTokens p) = Some ps" "list_all (span_ok src) ps"
      "spans_cover ps (ink src)" "list_all (fits (cp_ParentTargetTokens p) src) ps" by blast
    from fixedSpans_returns[OF parent(3), of src "cp_ChildOverlapTokens p"] obtain cs where
      t: "fixedSpans src (cp_ChildTargetTokens p) (cp_ChildOverlapTokens p) = Some cs" "list_all (span_ok src) cs"
      "spans_cover cs (ink src)" "list_all (fits (cp_ChildTargetTokens p) src) cs" by blast
    show ?thesis using parent_child_ok[OF parent(1) s(2-4) t(2-4) refl, of sha docID kind] parent s(1) t(1)
      by (simp add: chunk_source_def strategy_defs Let_def)
  qed
qed


definition kind_of :: "SourceDocument \<Rightarrow> Kind" where
  "kind_of d = (if sd_Kind d = [] then KindProse else sd_Kind d)"

definition chunked :: "SourceDocument \<Rightarrow> bool" where
  "chunked d \<longleftrightarrow> trim_space (sd_ID d) \<noteq> [] \<and> trim_space (Source d) \<noteq> []"

lemma chunk_docs_returns:
  assumes "Validate p = None"
  shows "\<exists>rss. chunk_docs sha letter p docs = Some (concat rss)
    \<and> list_all2 (\<lambda>d rs. doc_receipts_ok sha p (trim_space (sd_ID d)) (kind_of d) (Source d) rs) (filter chunked docs) rss"
proof (induction docs)
  case (Cons d docs)
  then obtain rss where r: "chunk_docs sha letter p docs = Some (concat rss)"
    "list_all2 (\<lambda>d rs. doc_receipts_ok sha p (trim_space (sd_ID d)) (kind_of d) (Source d) rs) (filter chunked docs) rss" by blast
  show ?case
  proof (cases "chunked d")
    case False
    then have "chunk_docs sha letter p (d # docs) = chunk_docs sha letter p docs" by (auto simp: chunked_def Let_def)
    then show ?thesis using r False by (intro exI[of _ rss]) simp
  next
    case True
    from chunk_source_returns[OF assms, of sha letter "trim_space (sd_ID d)" "kind_of d" "Source d"] obtain rs where
      rs: "chunk_source sha letter p (trim_space (sd_ID d)) (kind_of d) (Source d) = Some rs"
      "doc_receipts_ok sha p (trim_space (sd_ID d)) (kind_of d) (Source d) rs" by blast
    then have "chunk_docs sha letter p (d # docs) = Some (concat (rs # rss))"
      using True r(1) by (simp add: chunked_def kind_of_def)
    then show ?thesis using True r(2) rs(2) by (intro exI[of _ "rs # rss"]) simp
  qed
qed simp

text \<open>Packing counts the tokens of the blocks, not of the separators between them, so a
  chunk of slides can hold more tokens than the target.\<close>

definition two_slides :: string where
  "two_slides = [CHR ''a'', CHR 0x0A, CHR ''-'', CHR ''-'', CHR ''-'', CHR 0x0A, CHR ''b'']"

lemma two_slides_lines: "lineSpans two_slides = [spn 0 1, spn 2 5, spn 6 7]"
  by (simp add: two_slides_def lineSpans_def)

lemma two_slides_texts: "span_text two_slides (spn 0 (Suc 0)) = ''a''" "span_text two_slides (spn 2 5) = ''---''"
  "span_text two_slides (spn 6 7) = ''b''" "span_text two_slides (spn 0 7) = two_slides"
  by (simp_all add: two_slides_def span_text_def slice_def numeral_eq_Suc)

lemma two_slides_trimmed: "trim_space ''a'' = ''a''" "trim_space ''---'' = ''---''" "trim_space ''b'' = ''b''"
  by (rule trim_space_id; simp add: graphic_def)+

lemma two_slides_counts: "CountTokens ''a'' = 1" "CountTokens ''b'' = 1" "length (Tokenize two_slides) = 3"
  by (simp_all add: CountTokens_def Fields_def Tokenize_def two_slides_def runes_of_ascii_Cons byte_def is_space_def
      del: runes_of.simps(2))

lemma two_slides_blocks: "splitBlocks letter two_slides KindSlides = [spn 0 1, spn 6 7]"
  by (simp add: splitBlocks_def kind_defs slideBlocks_def two_slides_lines slide_line_def two_slides_texts two_slides_trimmed
      slideSeparatorRE_def flush_def add_line_def Let_def)

lemma slides_exceed_target:
  "structureSpans letter two_slides KindSlides 2 0 = Some [spn 0 7]"
  "length (Tokenize (span_text two_slides (spn 0 7))) = 3"
  by (simp_all add: structureSpans_def two_slides_blocks packBlocks_def block_refs_def two_slides_texts two_slides_counts
      pack.simps index_def dedupeSpans_def dedupe_span_def)


section \<open>Properties\<close>

text \<open>C29.  Chunking always returns, for every policy and every list of documents: it
  refuses exactly the policies that do not validate, and for the others neither the token
  window nor the block packer runs forever or reads a token or a block outside the slice
  that holds them (a read out of range, where Go panics, has no result in the model).\<close>

theorem chunking_returns:
  "\<exists>result. Chunk sha letterOrNumber docs p = Some result
    \<and> (case Validate p of Some err \<Rightarrow> result = Inl err | None \<Rightarrow> \<exists>out. result = Inr out)"
  using chunk_docs_returns[of p sha letterOrNumber docs] by (cases "Validate p") (auto simp: Chunk_def)

text \<open>C6.  Chunks lose no text.  The receipts are those of the chunked documents in order;
  those of one document quote the source exactly at their byte offsets, start with text,
  carry the hash of what they quote, and respect the token targets of the window
  strategies; every byte of the source that is neither white space nor a slide separator
  is in a retrievable chunk; and every child chunk is linked to a parent it overlaps.\<close>

theorem chunks_keep_text:
  assumes "Chunk sha letterOrNumber docs p = Some (Inr out)"
  shows "\<exists>rss. out = concat rss
    \<and> list_all2 (\<lambda>d rs. doc_receipts_ok sha p (trim_space (sd_ID d)) (kind_of d) (Source d) rs) (filter chunked docs) rss"
  using assms chunk_docs_returns[of p sha letterOrNumber docs] by (auto simp: Chunk_def split: option.split_asm)

definition sample_document :: SourceDocument where
  "sample_document = \<lparr>sd_ID = ''d'', sd_Title = [], sd_Body = ''b'', sd_SourceURI = [], sd_Kind = []\<rparr>"

theorem chunks_keep_text_witness:
  "\<exists>out. Chunk (\<lambda>_. []) (\<lambda>_. False) [sample_document] BaselinePolicy = Some (Inr out)
    \<and> (\<exists>rss. out = concat rss \<and> list_all2 (\<lambda>d rs. doc_receipts_ok (\<lambda>_. []) BaselinePolicy (trim_space (sd_ID d)) (kind_of d)
          (Source d) rs) (filter chunked [sample_document]) rss)
    \<and> filter chunked [sample_document] = [sample_document]"
proof -
  have t: "trim_space ''d'' = ''d''" "trim_space ''b'' = ''b''" by (rule trim_space_id; simp add: graphic_def)+
  have "trim_space [] = []" by (simp add: trim_space_def trim_left_by.simps)
  then have c: "filter chunked [sample_document] = [sample_document]"
    by (simp add: chunked_def Source_def sample_document_def t)
  have v: "Validate BaselinePolicy = None"
    by (simp add: Validate_def BaselinePolicy_def zero_policy_def PolicyID_def BaselineVersion_def TokenizerID_def strategy_defs
        validateWindow_def BaselineTargetTokens_def BaselineOverlapTokens_def)
  then obtain out where "Chunk (\<lambda>_. []) (\<lambda>_. False) [sample_document] BaselinePolicy = Some (Inr out)"
    using chunk_docs_returns[OF v, of "\<lambda>_. []" "\<lambda>_. False" "[sample_document]"] by (auto simp: Chunk_def)
  with chunks_keep_text[OF this] c show ?thesis by blast
qed

end
