(* ===== verification/Hook_Lifecycle.thy ===== *)
theory Hook_Lifecycle
  imports Text_Bound Go_Maps
begin

text \<open>
  The git hook installer of \<^verbatim>\<open>services/brain/internal/lifecycle/lifecycle.go\<close>: Install,
  Uninstall and Status over the files of the hooks directories, the rollback manifest and
  the local setting of \<^verbatim>\<open>core.hooksPath\<close>.

  The state is those three; files are addressed by directory and name.  Every call that
  changes it (an atomic file replacement, a removal, a git configuration command) asks the
  environment whether it succeeds, so that a failed or interrupted run is the state after
  a prefix of its changes.  Path resolution, the git queries that only read, SHA-256 and
  the clock are the environment too.  A stored manifest is what decoding its JSON gives.

  The theorems show that Uninstall restores what an install without a previous manifest
  changed, wherever that install stopped, and that neither verb touches a file of another
  tool; the last section records where a repeated install falls short of that.
\<close>

section \<open>Data\<close>

type_synonym HookKind = string

definition HookPostCommit :: HookKind where "HookPostCommit = ''post-commit''"
definition HookPostCheckout :: HookKind where "HookPostCheckout = ''post-checkout''"
definition HookPostMerge :: HookKind where "HookPostMerge = ''post-merge''"
definition HookPrePush :: HookKind where "HookPrePush = ''pre-push''"

definition AllHooks :: "HookKind list" where
  "AllHooks = [HookPostCommit, HookPostCheckout, HookPostMerge, HookPrePush]"

definition nl :: string where "nl = [CHR 0x0A]"

definition SentinelHeader :: string where
  "SentinelHeader = ''# sentra-lifecycle:v1'' @ nl"

definition HooksDirName :: string where "HooksDirName = ''hooks''"
definition StateDirName :: string where "StateDirName = ''state''"
definition ManifestSchema :: string where "ManifestSchema = ''sentra.lifecycle.manifest/v1''"

definition StrategyRepoHooks :: string where "StrategyRepoHooks = ''repo-hooks''"
definition StrategyGitCommon :: string where "StrategyGitCommon = ''git-common-hooks''"

record hook_options =
  op_Strategy :: string
  op_Hooks :: "HookKind list"
  op_AllowUnsafeGitCommon :: bool
  op_CLIExecutable :: string

record InstalledHook =
  ih_Kind :: HookKind
  ih_Path :: string
  ih_ContentSHA :: string
  ih_Mode :: string
  ih_PriorPath :: string
  ih_PriorExisted :: bool
  ih_PriorSnapshot :: string
  ih_PriorMode :: string

record hook_manifest =
  hm_Schema :: string
  hm_Root :: string
  hm_Strategy :: string
  hm_HooksDir :: string
  hm_Installed :: "InstalledHook list"
  hm_HooksPath :: string
  hm_PriorHooksPath :: string
  hm_PriorHooksPathSet :: bool
  hm_PriorHooksDir :: string
  hm_InstalledAt :: string
  hm_CLIExecutable :: string

datatype hook_error =
    HNotGitRepo | HPathNotAllowed | HUnknownHookKind | HUnsafeGitCommon | HManifestCorrupt
  | HInstalledByOther | HUnknownStrategy | HIO

datatype file_type = RegularFile | SymlinkFile | DirectoryFile | OtherFile

record hook_file =
  hf_data :: string
  hf_mode :: nat
  hf_type :: file_type

datatype stored_manifest = CorruptManifest | StoredManifest hook_manifest

record hook_repo =
  hr_files :: "string \<Rightarrow> (string, hook_file) gomap"
  hr_manifest :: "string \<Rightarrow> stored_manifest option"
  hr_local :: "string option"
  hr_ops :: nat

text \<open>\<^verbatim>\<open>filepath.EvalSymlinks\<close> (empty when it fails), \<^verbatim>\<open>pathguard.Within\<close> and the other answers
  of the environment.\<close>

record hook_env =
  he_root :: string
  he_isGit :: bool
  he_gitCommon :: "hook_error + string"
  he_inherited :: string
  he_real :: "string \<Rightarrow> string"
  he_within :: "string \<Rightarrow> string \<Rightarrow> bool"
  he_readable :: "string \<Rightarrow> string \<Rightarrow> bool"
  he_listable :: "string \<Rightarrow> bool"
  he_ok :: "nat \<Rightarrow> bool"
  he_now :: string
  he_sha :: "string \<Rightarrow> string"


section \<open>Text\<close>

text \<open>\<^verbatim>\<open>strings.ReplaceAll\<close> of a quote, and \<^verbatim>\<open>shellQuote\<close>.\<close>

definition shellQuote :: "string \<Rightarrow> string" where
  "shellQuote s = [CHR 0x27] @ concat (map (\<lambda>c. if c = CHR 0x27 then [CHR 0x27, CHR 0x22, CHR 0x27, CHR 0x22, CHR 0x27] else [c]) s) @ [CHR 0x27]"

definition dq :: string where "dq = [CHR 0x22]"

definition renderScript :: "string \<Rightarrow> string \<Rightarrow> string \<Rightarrow> string" where
  "renderScript event cliPath delegatePath =
    ''#!/usr/bin/env bash'' @ nl @ SentinelHeader
    @ ''# Local-only hook installed by sentra-code-memory. Remove with:'' @ nl
    @ ''#   sentra-code-memory hooks uninstall --root <root>'' @ nl
    @ ''set -euo pipefail'' @ nl
    @ ''event='' @ shellQuote event @ nl
    @ (if cliPath \<noteq> [] then ''cli='' @ shellQuote cliPath @ nl
       else ''cli='' @ dq @ ''$(command -v sentra-code-memory || true)'' @ dq @ nl)
    @ ''if [[ -n '' @ dq @ ''$cli'' @ dq @ '' ]]; then'' @ nl
    @ ''  '' @ dq @ ''$cli'' @ dq @ '' hooks run --event '' @ dq @ ''$event'' @ dq @ '' --root '' @ dq
      @ ''$(git rev-parse --show-toplevel)'' @ dq @ '' </dev/null || true'' @ nl
    @ ''fi'' @ nl
    @ (if delegatePath \<noteq> [] then
         ''prior='' @ shellQuote delegatePath @ nl
         @ ''if [[ -x '' @ dq @ ''$prior'' @ dq @ '' ]]; then'' @ nl
         @ ''  rc=0'' @ nl
         @ ''  '' @ dq @ ''$prior'' @ dq @ '' '' @ dq @ ''$@'' @ dq @ '' || rc=$?'' @ nl
         @ ''  exit '' @ dq @ ''$rc'' @ dq @ nl
         @ ''fi'' @ nl
       else [])
    @ ''exit 0'' @ nl"

definition renderPassthroughScript :: "string \<Rightarrow> string" where
  "renderPassthroughScript priorPath =
    ''#!/usr/bin/env bash'' @ nl @ SentinelHeader
    @ ''# Passthrough hook installed by sentra-code-memory because core.hooksPath'' @ nl
    @ ''# points at .sentra/hooks. It delegates to the repository'' @ [CHR 0x27] @ ''s original hook.'' @ nl
    @ ''# Remove with:'' @ nl
    @ ''#   sentra-code-memory hooks uninstall --root <root>'' @ nl
    @ ''set -euo pipefail'' @ nl
    @ ''prior='' @ shellQuote priorPath @ nl
    @ ''if [[ -x '' @ dq @ ''$prior'' @ dq @ '' ]]; then'' @ nl
    @ ''  exec '' @ dq @ ''$prior'' @ dq @ '' '' @ dq @ ''$@'' @ dq @ nl
    @ ''fi'' @ nl
    @ ''exit 0'' @ nl"

definition bytesHaveSentinel :: "string \<Rightarrow> bool" where
  "bytesHaveSentinel buf = str_contains buf SentinelHeader"

text \<open>\<^verbatim>\<open>%04o\<close> of the permission bits, and \<^verbatim>\<open>Sscanf\<close> of \<^verbatim>\<open>%o\<close>.\<close>

definition oct_digit :: "nat \<Rightarrow> char" where
  "oct_digit n = char_of (48 + n mod 8)"

definition fileModeString :: "nat \<Rightarrow> string" where
  "fileModeString m = [oct_digit (m div 512), oct_digit (m div 64), oct_digit (m div 8), oct_digit m]"

definition is_oct_digit :: "char \<Rightarrow> bool" where
  "is_oct_digit c \<longleftrightarrow> 48 \<le> (of_char c :: nat) \<and> (of_char c :: nat) \<le> 55"

definition parse_mode :: "string \<Rightarrow> nat" where
  "parse_mode s = foldl (\<lambda>n c. 8 * n + (of_char c - 48)) 0 (takeWhile is_oct_digit s)"

text \<open>A string that went through JSON: bytes that are not UTF-8 become U+FFFD.\<close>

definition json_text :: "string \<Rightarrow> string" where
  "json_text s = concat (map (\<lambda>(r, bs). if chunk_ok bs then bs else [CHR 0xEF, CHR 0xBF, CHR 0xBD]) (runes_of s))"

definition json_entry :: "InstalledHook \<Rightarrow> InstalledHook" where
  "json_entry e = \<lparr>ih_Kind = json_text (ih_Kind e), ih_Path = json_text (ih_Path e), ih_ContentSHA = json_text (ih_ContentSHA e),
     ih_Mode = json_text (ih_Mode e), ih_PriorPath = json_text (ih_PriorPath e), ih_PriorExisted = ih_PriorExisted e,
     ih_PriorSnapshot = json_text (ih_PriorSnapshot e), ih_PriorMode = json_text (ih_PriorMode e)\<rparr>"

definition json_manifest :: "hook_manifest \<Rightarrow> hook_manifest" where
  "json_manifest m = \<lparr>hm_Schema = json_text (hm_Schema m), hm_Root = json_text (hm_Root m), hm_Strategy = json_text (hm_Strategy m),
     hm_HooksDir = json_text (hm_HooksDir m), hm_Installed = map json_entry (hm_Installed m), hm_HooksPath = json_text (hm_HooksPath m),
     hm_PriorHooksPath = json_text (hm_PriorHooksPath m), hm_PriorHooksPathSet = hm_PriorHooksPathSet m,
     hm_PriorHooksDir = json_text (hm_PriorHooksDir m), hm_InstalledAt = json_text (hm_InstalledAt m),
     hm_CLIExecutable = json_text (hm_CLIExecutable m)\<rparr>"

text \<open>\<^verbatim>\<open>filepath.Join\<close> of a non-empty directory and a name, and \<^verbatim>\<open>filepath.Dir\<close>.\<close>

definition path_join :: "string \<Rightarrow> string \<Rightarrow> string" where
  "path_join dir name = path_clean (dir @ ''/'' @ name)"

definition path_dir :: "string \<Rightarrow> string" where
  "path_dir p = path_clean (rev (dropWhile (\<lambda>c. c \<noteq> CHR ''/'') (rev p)))"


section \<open>Reads\<close>

definition readFileIfExists :: "hook_env \<Rightarrow> string \<Rightarrow> string \<Rightarrow> hook_repo \<Rightarrow> hook_error + hook_file option" where
  "readFileIfExists env dir name s =
    (if \<not> he_readable env dir name then Inl HIO
     else (case mget (hr_files s dir) name of
             None \<Rightarrow> Inr None
           | Some f \<Rightarrow> if hf_type f = DirectoryFile then Inl HIO else Inr (Some f)))"

definition loadManifest :: "string \<Rightarrow> hook_repo \<Rightarrow> hook_error + hook_manifest option" where
  "loadManifest stateDir s =
    (case hr_manifest s stateDir of
       None \<Rightarrow> Inr None
     | Some CorruptManifest \<Rightarrow> Inl HManifestCorrupt
     | Some (StoredManifest m) \<Rightarrow> Inr (Some m))"

definition currentHooksPath :: "hook_env \<Rightarrow> hook_repo \<Rightarrow> string" where
  "currentHooksPath env s =
    (if \<not> he_isGit env then [] else (case hr_local s of None \<Rightarrow> [] | Some v \<Rightarrow> trim_space v))"

definition effectiveHooksPath :: "hook_env \<Rightarrow> string" where
  "effectiveHooksPath env = (if \<not> he_isGit env then [] else trim_space (he_inherited env))"

definition gitCommonDir :: "hook_env \<Rightarrow> hook_error + string" where
  "gitCommonDir env = (if \<not> he_isGit env then Inl HNotGitRepo else he_gitCommon env)"

definition samePath :: "hook_env \<Rightarrow> string \<Rightarrow> string \<Rightarrow> bool" where
  "samePath env a b \<longleftrightarrow>
    (if he_real env a = [] then a else he_real env a) = (if he_real env b = [] then b else he_real env b)"

definition ensureConfined :: "hook_env \<Rightarrow> string \<Rightarrow> string \<Rightarrow> bool" where
  "ensureConfined env target allowedRoot = he_within env allowedRoot target"

definition executable :: "hook_file \<Rightarrow> bool" where
  "executable f \<longleftrightarrow> (case hf_type f of
       DirectoryFile \<Rightarrow> False | SymlinkFile \<Rightarrow> True | OtherFile \<Rightarrow> False
     | RegularFile \<Rightarrow> odd (hf_mode f) \<or> odd (hf_mode f div 8) \<or> odd (hf_mode f div 64))"

fun active_names :: "hook_env \<Rightarrow> string \<Rightarrow> hook_repo \<Rightarrow> string list \<Rightarrow> hook_error + string list" where
  "active_names env dir s [] = Inr []"
| "active_names env dir s (n # ns) =
    (let rest = active_names env dir s ns
     in if has_prefix n ''.'' \<or> has_suffix n ''.sample'' then rest
        else (case mget (hr_files s dir) n of
                None \<Rightarrow> Inl HIO
              | Some f \<Rightarrow>
                  if \<not> executable f then rest
                  else if \<not> he_readable env dir n then Inl HIO
                  else if bytesHaveSentinel (hf_data f) then rest
                  else (case rest of Inl err \<Rightarrow> Inl err | Inr out \<Rightarrow> Inr (n # out))))"

definition scanActiveHooks :: "hook_env \<Rightarrow> string \<Rightarrow> hook_repo \<Rightarrow> hook_error + string list" where
  "scanActiveHooks env dir s =
    (if dir = [] then Inr []
     else if \<not> he_listable env dir then Inl HIO
     else active_names env dir s (sort (mkeys (hr_files s dir))))"

definition resolvePriorHooksDir :: "string \<Rightarrow> string \<Rightarrow> string \<Rightarrow> string" where
  "resolvePriorHooksDir rootDir hooksPathValue gitCommon =
    (if hooksPathValue = [] then (if gitCommon = [] then [] else path_join gitCommon HooksDirName)
     else if is_abs_path hooksPathValue then path_clean hooksPathValue
     else path_join rootDir hooksPathValue)"


section \<open>Changes\<close>

definition mutate :: "hook_env \<Rightarrow> (hook_repo \<Rightarrow> hook_repo) \<Rightarrow> hook_repo \<Rightarrow> hook_error option \<times> hook_repo" where
  "mutate env f s =
    (let s' = s\<lparr>hr_ops := hr_ops s + 1\<rparr>
     in if he_ok env (hr_ops s) then (None, f s') else (Some HIO, s'))"

definition put_file :: "string \<Rightarrow> string \<Rightarrow> hook_file \<Rightarrow> hook_repo \<Rightarrow> hook_repo" where
  "put_file dir name f s = s\<lparr>hr_files := (hr_files s)(dir := mput name f (hr_files s dir))\<rparr>"

definition writeHookFile :: "hook_env \<Rightarrow> string \<Rightarrow> string \<Rightarrow> string \<Rightarrow> nat \<Rightarrow> hook_repo \<Rightarrow> hook_error option \<times> hook_repo" where
  "writeHookFile env dir name content mode =
    mutate env (put_file dir name \<lparr>hf_data = content, hf_mode = mode, hf_type = RegularFile\<rparr>)"

definition removeHookFile :: "hook_env \<Rightarrow> string \<Rightarrow> string \<Rightarrow> hook_repo \<Rightarrow> hook_error option \<times> hook_repo" where
  "removeHookFile env dir name = mutate env (\<lambda>s. s\<lparr>hr_files := (hr_files s)(dir := mdel name (hr_files s dir))\<rparr>)"

definition writeManifest :: "hook_env \<Rightarrow> string \<Rightarrow> hook_manifest \<Rightarrow> hook_repo \<Rightarrow> hook_error option \<times> hook_repo" where
  "writeManifest env stateDir m =
    mutate env (\<lambda>s. s\<lparr>hr_manifest := (hr_manifest s)(stateDir \<mapsto> StoredManifest (json_manifest m))\<rparr>)"

definition removeManifest :: "hook_env \<Rightarrow> string \<Rightarrow> hook_repo \<Rightarrow> hook_error option \<times> hook_repo" where
  "removeManifest env stateDir = mutate env (\<lambda>s. s\<lparr>hr_manifest := (hr_manifest s)(stateDir := None)\<rparr>)"

definition setLocalHooksPath :: "hook_env \<Rightarrow> string \<Rightarrow> hook_repo \<Rightarrow> hook_error option \<times> hook_repo" where
  "setLocalHooksPath env dir = mutate env (\<lambda>s. s\<lparr>hr_local := Some dir\<rparr>)"

definition unsetLocalHooksPath :: "hook_env \<Rightarrow> hook_repo \<Rightarrow> hook_error option \<times> hook_repo" where
  "unsetLocalHooksPath env s =
    (if hr_local s = None then (Some HIO, s) else mutate env (\<lambda>s. s\<lparr>hr_local := None\<rparr>) s)"


section \<open>Install\<close>

definition validateKind :: "HookKind \<Rightarrow> bool" where
  "validateKind k \<longleftrightarrow> k \<in> set AllHooks"

definition selectedKinds :: "hook_options \<Rightarrow> hook_error + HookKind list" where
  "selectedKinds opts =
    (if op_Hooks opts = [] then Inr AllHooks
     else if list_all validateKind (op_Hooks opts) then Inr (sort (nub (op_Hooks opts)))
     else Inl HUnknownHookKind)"

definition resolveStrategy :: "hook_env \<Rightarrow> hook_options \<Rightarrow> hook_error + string \<times> string" where
  "resolveStrategy env opts =
    (let strat = (if op_Strategy opts = [] then StrategyRepoHooks else op_Strategy opts)
     in if strat = StrategyRepoHooks then Inr (strat, [])
        else if strat = StrategyGitCommon then
          (if \<not> op_AllowUnsafeGitCommon opts then Inl HUnsafeGitCommon
           else (case gitCommonDir env of Inl err \<Rightarrow> Inl err | Inr common \<Rightarrow> Inr (strat, common)))
        else Inl HUnknownStrategy)"

definition resolveHooksDir :: "string \<Rightarrow> string \<Rightarrow> string \<Rightarrow> hook_error + string" where
  "resolveHooksDir rootDir strategy gitCommon =
    (if strategy = StrategyRepoHooks then Inr (path_join (path_join rootDir ''.sentra'') HooksDirName)
     else if strategy = StrategyGitCommon then
       (if gitCommon = [] then Inl HUnsafeGitCommon else Inr (path_join gitCommon HooksDirName))
     else Inl HUnknownStrategy)"

definition allowedRootFor :: "string \<Rightarrow> string \<Rightarrow> string \<Rightarrow> string" where
  "allowedRootFor strategy rootDir gitCommon =
    (if strategy = StrategyRepoHooks then rootDir else if strategy = StrategyGitCommon then gitCommon else ''/'')"

definition state_dir :: "string \<Rightarrow> string" where
  "state_dir hooksDir = path_join (path_dir hooksDir) StateDirName"

text \<open>The order of managed kinds, then of names; sorting is stable.\<close>

definition kind_order :: "HookKind \<Rightarrow> nat" where
  "kind_order k = length (takeWhile (\<lambda>x. x \<noteq> k) AllHooks)"

definition kind_name :: "HookKind \<Rightarrow> string" where
  "kind_name k = (if k \<in> set AllHooks then [] else k)"

definition sortInstalled :: "InstalledHook list \<Rightarrow> InstalledHook list" where
  "sortInstalled es = sort_key (\<lambda>e. kind_order (ih_Kind e)) (sort_key (\<lambda>e. kind_name (ih_Kind e)) es)"

definition last_per_kind :: "InstalledHook list \<Rightarrow> InstalledHook list" where
  "last_per_kind es = rev (dedup_by ih_Kind {} (rev es))"

definition carryForward :: "hook_manifest option \<Rightarrow> hook_manifest \<Rightarrow> hook_manifest" where
  "carryForward prev m =
    (case prev of
       None \<Rightarrow> m
     | Some pm \<Rightarrow>
         m\<lparr>hm_Installed := sortInstalled (last_per_kind (hm_Installed m
            @ dedup_by ih_Kind (set (map ih_Kind (hm_Installed m))) (hm_Installed pm)))\<rparr>)"

definition checkpoint :: "hook_env \<Rightarrow> string \<Rightarrow> hook_manifest option \<Rightarrow> hook_manifest \<times> hook_repo
    \<Rightarrow> hook_error option \<times> hook_manifest \<times> hook_repo" where
  "checkpoint env stateDir prev = (\<lambda>(m, s).
    let m' = carryForward prev m; (err, s') = writeManifest env stateDir m' s in (err, m', s'))"

definition preWrite :: "hook_env \<Rightarrow> string \<Rightarrow> hook_manifest option \<Rightarrow> InstalledHook \<Rightarrow> hook_manifest \<times> hook_repo
    \<Rightarrow> hook_error option \<times> hook_manifest \<times> hook_repo" where
  "preWrite env stateDir prev entry = (\<lambda>(m, s). checkpoint env stateDir prev (m\<lparr>hm_Installed := hm_Installed m @ [entry]\<rparr>, s))"

definition captured :: "InstalledHook \<Rightarrow> string \<Rightarrow> hook_file \<Rightarrow> InstalledHook" where
  "captured entry target f = entry\<lparr>ih_PriorExisted := True, ih_PriorPath := target,
     ih_PriorSnapshot := hf_data f, ih_PriorMode := fileModeString (hf_mode f)\<rparr>"

text \<open>What installScript records of the file it finds, and whether the file is already right.\<close>

definition prior_entry :: "hook_env \<Rightarrow> string \<Rightarrow> InstalledHook \<Rightarrow> string \<Rightarrow> InstalledHook option \<Rightarrow> hook_file option
    \<Rightarrow> hook_error + InstalledHook \<times> bool" where
  "prior_entry env strategy entry target prev found =
    (case found of
       None \<Rightarrow> Inr (entry, False)
     | Some f \<Rightarrow>
         if strategy = StrategyGitCommon \<and> \<not> bytesHaveSentinel (hf_data f) then Inl HInstalledByOther
         else if he_sha env (hf_data f) = ih_ContentSHA entry then
           Inr (case prev of Some e \<Rightarrow> (e, True) | None \<Rightarrow> (captured entry target f, True))
         else (case prev of
                 Some e \<Rightarrow>
                   if bytesHaveSentinel (hf_data f) then
                     Inr (entry\<lparr>ih_PriorExisted := ih_PriorExisted e, ih_PriorPath := ih_PriorPath e,
                            ih_PriorSnapshot := ih_PriorSnapshot e, ih_PriorMode := ih_PriorMode e\<rparr>, False)
                   else Inr (captured entry target f, False)
               | None \<Rightarrow> Inr (captured entry target f, False)))"

definition fresh_entry :: "hook_env \<Rightarrow> string \<Rightarrow> string \<Rightarrow> string \<Rightarrow> InstalledHook" where
  "fresh_entry env hooksDir name content =
    \<lparr>ih_Kind = name, ih_Path = path_join hooksDir name, ih_ContentSHA = he_sha env content, ih_Mode = ''0755'',
     ih_PriorPath = [], ih_PriorExisted = False, ih_PriorSnapshot = [], ih_PriorMode = []\<rparr>"

definition installScript :: "hook_env \<Rightarrow> string \<Rightarrow> string \<Rightarrow> string \<Rightarrow> InstalledHook option \<Rightarrow> string
    \<Rightarrow> (InstalledHook \<Rightarrow> hook_manifest \<times> hook_repo \<Rightarrow> hook_error option \<times> hook_manifest \<times> hook_repo)
    \<Rightarrow> hook_manifest \<times> hook_repo \<Rightarrow> (hook_error + InstalledHook \<times> bool) \<times> hook_manifest \<times> hook_repo" where
  "installScript env hooksDir name content prev strategy pre = (\<lambda>(m, s).
    case readFileIfExists env hooksDir name s of
      Inl err \<Rightarrow> (Inl err, m, s)
    | Inr found \<Rightarrow>
        (case prior_entry env strategy (fresh_entry env hooksDir name content) (path_join hooksDir name) prev found of
           Inl err \<Rightarrow> (Inl err, m, s)
         | Inr (entry, unchanged) \<Rightarrow>
             if unchanged then (Inr (entry, False), m, s)
             else if \<not> ensureConfined env (path_join hooksDir name) (path_dir hooksDir) then (Inl HPathNotAllowed, m, s)
             else (case pre entry (m, s) of
                     (Some err, m', s') \<Rightarrow> (Inl err, m', s')
                   | (None, m', s') \<Rightarrow>
                       (case writeHookFile env hooksDir name content 493 s' of
                          (Some err, s'') \<Rightarrow> (Inl err, m', s'')
                        | (None, s'') \<Rightarrow> (Inr (entry, True), m', s'')))))"

definition installOne :: "hook_env \<Rightarrow> string \<Rightarrow> HookKind \<Rightarrow> hook_options \<Rightarrow> string \<Rightarrow> InstalledHook option \<Rightarrow> string
    \<Rightarrow> (InstalledHook \<Rightarrow> hook_manifest \<times> hook_repo \<Rightarrow> hook_error option \<times> hook_manifest \<times> hook_repo)
    \<Rightarrow> hook_manifest \<times> hook_repo \<Rightarrow> (hook_error + InstalledHook \<times> bool) \<times> hook_manifest \<times> hook_repo" where
  "installOne env hooksDir k opts strategy prev delegatePath pre =
    installScript env hooksDir k (renderScript k (op_CLIExecutable opts) delegatePath) prev strategy pre"

definition prev_entry :: "hook_manifest option \<Rightarrow> HookKind \<Rightarrow> InstalledHook option" where
  "prev_entry prev k = (case prev of None \<Rightarrow> None | Some pm \<Rightarrow> find (\<lambda>e. ih_Kind e = k) (rev (hm_Installed pm)))"

type_synonym script_step = "hook_manifest \<times> hook_repo \<Rightarrow> (hook_error + InstalledHook \<times> bool) \<times> hook_manifest \<times> hook_repo"

text \<open>The loops over the managed kinds and over the passthrough hooks: whether a file was written.\<close>

fun install_all :: "script_step list \<Rightarrow> hook_manifest \<times> hook_repo \<Rightarrow> (hook_error + bool) \<times> hook_manifest \<times> hook_repo" where
  "install_all [] ms = (Inr False, ms)"
| "install_all (f # fs) ms =
    (case f ms of
       (Inl err, ms') \<Rightarrow> (Inl err, ms')
     | (Inr (entry, wrote), m', s') \<Rightarrow>
         let m'' = (if wrote then m' else m'\<lparr>hm_Installed := hm_Installed m' @ [entry]\<rparr>)
         in (case install_all fs (m'', s') of
               (Inl err, ms'') \<Rightarrow> (Inl err, ms'')
             | (Inr c, ms'') \<Rightarrow> (Inr (wrote \<or> c), ms'')))"

text \<open>What an install records of the hooks git runs before it: the local setting, its
  presence, the directory and the active hooks there.\<close>

definition prior_hooks :: "hook_env \<Rightarrow> hook_manifest option \<Rightarrow> hook_repo \<Rightarrow> hook_error + string \<times> bool \<times> string \<times> string list" where
  "prior_hooks env prev s =
    (let priorLocal = currentHooksPath env s;
         scanValue = (if priorLocal = [] then effectiveHooksPath env else priorLocal);
         (priorHooksPath, priorSet, scanValue) =
           (case prev of
              Some pm \<Rightarrow>
                if hm_HooksPath pm \<noteq> [] \<and> priorLocal \<noteq> [] \<and> samePath env priorLocal (hm_HooksPath pm) then
                  (hm_PriorHooksPath pm, hm_PriorHooksPathSet pm,
                   if hm_PriorHooksDir pm \<noteq> [] then hm_PriorHooksDir pm else scanValue)
                else (priorLocal, priorLocal \<noteq> [], scanValue)
            | None \<Rightarrow> (priorLocal, priorLocal \<noteq> [], scanValue))
     in (case gitCommonDir env of
           Inl err \<Rightarrow> Inl err
         | Inr common \<Rightarrow>
             (let priorDir = resolvePriorHooksDir (he_root env) scanValue common
              in (case scanActiveHooks env priorDir s of
                    Inl err \<Rightarrow> Inl err
                  | Inr active \<Rightarrow> Inr (priorHooksPath, priorSet, priorDir, active)))))"

definition delegate_path :: "string \<Rightarrow> string list \<Rightarrow> HookKind \<Rightarrow> string" where
  "delegate_path priorDir active k = (if k \<in> set active then path_join priorDir k else [])"

definition script_steps :: "hook_env \<Rightarrow> hook_options \<Rightarrow> string \<Rightarrow> string \<Rightarrow> hook_manifest option \<Rightarrow> HookKind list \<Rightarrow> string \<Rightarrow> string list
    \<Rightarrow> script_step list" where
  "script_steps env opts strategy hooksDir prev kinds priorDir active =
    map (\<lambda>k. installOne env hooksDir k opts strategy (prev_entry prev k) (delegate_path priorDir active k)
               (preWrite env (state_dir hooksDir) prev)) kinds
    @ map (\<lambda>n. installScript env hooksDir n (renderPassthroughScript (path_join priorDir n)) (prev_entry prev n) strategy
               (preWrite env (state_dir hooksDir) prev)) (filter (\<lambda>n. n \<notin> set kinds) active)"

definition flip_hooks_path :: "hook_env \<Rightarrow> string \<Rightarrow> hook_manifest option \<Rightarrow> hook_manifest \<times> hook_repo
    \<Rightarrow> (hook_error + bool) \<times> hook_manifest \<times> hook_repo" where
  "flip_hooks_path env hooksDir prev = (\<lambda>(m, s).
    let actual = currentHooksPath env s
    in if actual = [] \<or> \<not> samePath env actual hooksDir then
         (case checkpoint env (state_dir hooksDir) prev (m\<lparr>hm_HooksPath := hooksDir\<rparr>, s) of
            (Some err, ms') \<Rightarrow> (Inl err, ms')
          | (None, m', s') \<Rightarrow>
              (case setLocalHooksPath env hooksDir s' of
                 (Some err, s'') \<Rightarrow> (Inl err, m', s'')
               | (None, s'') \<Rightarrow> (Inr True, m'\<lparr>hm_HooksPath := currentHooksPath env s''\<rparr>, s'')))
       else (Inr False, m\<lparr>hm_HooksPath := actual\<rparr>, s))"

definition manifestSignature :: "hook_manifest \<Rightarrow> string" where
  "manifestSignature m = hm_Strategy m @ ''|'' @ hm_HooksPath m
     @ concat (map (\<lambda>e. ''|'' @ ih_Kind e @ '':'' @ ih_ContentSHA e) (hm_Installed m))"

definition finish_install :: "hook_env \<Rightarrow> hook_options \<Rightarrow> string \<Rightarrow> hook_manifest option \<Rightarrow> bool \<Rightarrow> hook_manifest \<times> hook_repo
    \<Rightarrow> (hook_error + hook_manifest) \<times> hook_repo" where
  "finish_install env opts hooksDir prev changed = (\<lambda>(m, s).
    let m' = (carryForward prev (m\<lparr>hm_CLIExecutable := op_CLIExecutable opts\<rparr>))\<lparr>hm_InstalledAt := he_now env\<rparr>;
        m'' = (case prev of
                 Some pm \<Rightarrow> if \<not> changed \<and> manifestSignature pm = manifestSignature m'
                            then m'\<lparr>hm_InstalledAt := hm_InstalledAt pm\<rparr> else m'
               | None \<Rightarrow> m')
    in (case writeManifest env (state_dir hooksDir) m'' s of
          (Some err, s') \<Rightarrow> (Inl err, s')
        | (None, s') \<Rightarrow> (Inr m'', s')))"

definition new_manifest :: "hook_env \<Rightarrow> string \<Rightarrow> string \<Rightarrow> hook_manifest" where
  "new_manifest env strategy hooksDir =
    \<lparr>hm_Schema = ManifestSchema, hm_Root = he_root env, hm_Strategy = strategy, hm_HooksDir = hooksDir, hm_Installed = [],
     hm_HooksPath = [], hm_PriorHooksPath = [], hm_PriorHooksPathSet = False, hm_PriorHooksDir = [], hm_InstalledAt = [],
     hm_CLIExecutable = []\<rparr>"

text \<open>After the checks: the hooks git ran before, the scripts, the setting, the final manifest.\<close>

definition install_into :: "hook_env \<Rightarrow> hook_options \<Rightarrow> string \<Rightarrow> string \<Rightarrow> HookKind list \<Rightarrow> hook_manifest option \<Rightarrow> hook_repo
    \<Rightarrow> (hook_error + hook_manifest) \<times> hook_repo" where
  "install_into env opts strategy hooksDir kinds prev s =
    (let trackConfig = (strategy = StrategyRepoHooks \<and> he_isGit env); m0 = new_manifest env strategy hooksDir
     in (case (if trackConfig then prior_hooks env prev s else Inr ([], False, [], [])) of
           Inl err \<Rightarrow> (Inl err, s)
         | Inr (priorPath, priorSet, priorDir, active) \<Rightarrow>
             (let m1 = (if trackConfig then m0\<lparr>hm_PriorHooksPath := priorPath, hm_PriorHooksPathSet := priorSet,
                                             hm_PriorHooksDir := priorDir\<rparr> else m0)
              in (case install_all (script_steps env opts strategy hooksDir prev kinds priorDir active) (m1, s) of
                    (Inl err, m, s') \<Rightarrow> (Inl err, s')
                  | (Inr changed, m, s') \<Rightarrow>
                      if \<not> trackConfig then finish_install env opts hooksDir prev changed (m, s')
                      else (case flip_hooks_path env hooksDir prev (m, s') of
                              (Inl err, m', s'') \<Rightarrow> (Inl err, s'')
                            | (Inr flipped, m', s'') \<Rightarrow> finish_install env opts hooksDir prev (changed \<or> flipped) (m', s''))))))"

definition Install :: "hook_env \<Rightarrow> hook_options \<Rightarrow> hook_repo \<Rightarrow> (hook_error + hook_manifest) \<times> hook_repo" where
  "Install env opts s =
    (case resolveStrategy env opts of Inl err \<Rightarrow> (Inl err, s) | Inr (strategy, gitCommon) \<Rightarrow>
     (case selectedKinds opts of Inl err \<Rightarrow> (Inl err, s) | Inr kinds \<Rightarrow>
     (case resolveHooksDir (he_root env) strategy gitCommon of Inl err \<Rightarrow> (Inl err, s) | Inr hooksDir \<Rightarrow>
       if \<not> ensureConfined env hooksDir (allowedRootFor strategy (he_root env) gitCommon) then (Inl HPathNotAllowed, s)
       else (case loadManifest (state_dir hooksDir) s of
               Inl err \<Rightarrow> (Inl err, s)
             | Inr prev \<Rightarrow> install_into env opts strategy hooksDir kinds prev s))))"


section \<open>Uninstall and Status\<close>

text \<open>A recorded kind is the name of a file; the recorded path is the fallback.\<close>

definition liveHookPath :: "string \<Rightarrow> InstalledHook \<Rightarrow> (string \<times> string) option" where
  "liveHookPath hooksDir e =
    (if trim_space (ih_Kind e) \<noteq> [] then Some (hooksDir, trim_space (ih_Kind e))
     else if ih_Path e = [] then None else Some (path_dir (ih_Path e), path_base (ih_Path e)))"

definition restore_entry :: "hook_env \<Rightarrow> string \<Rightarrow> string \<Rightarrow> InstalledHook \<Rightarrow> hook_repo \<Rightarrow> hook_error option \<times> hook_repo" where
  "restore_entry env hooksDir allowed e s =
    (case liveHookPath hooksDir e of
       None \<Rightarrow> (None, s)
     | Some (dir, name) \<Rightarrow>
         if \<not> ensureConfined env (path_join dir name) allowed then (Some HPathNotAllowed, s)
         else (case readFileIfExists env dir name s of
                 Inl err \<Rightarrow> (Some err, s)
               | Inr live \<Rightarrow>
                   if (case live of None \<Rightarrow> False | Some f \<Rightarrow> \<not> bytesHaveSentinel (hf_data f)) then (None, s)
                   else if \<not> ih_PriorExisted e then removeHookFile env dir name s
                   else writeHookFile env dir name (ih_PriorSnapshot e)
                          (if ih_PriorMode e = [] then 493 else parse_mode (ih_PriorMode e)) s))"

fun restore_entries :: "hook_env \<Rightarrow> string \<Rightarrow> string \<Rightarrow> InstalledHook list \<Rightarrow> hook_repo \<Rightarrow> hook_error option \<times> hook_repo" where
  "restore_entries env hooksDir allowed [] s = (None, s)"
| "restore_entries env hooksDir allowed (e # es) s =
    (case restore_entry env hooksDir allowed e s of
       (Some err, s') \<Rightarrow> (Some err, s')
     | (None, s') \<Rightarrow> restore_entries env hooksDir allowed es s')"

definition restore_config :: "hook_env \<Rightarrow> string \<Rightarrow> hook_manifest \<Rightarrow> hook_repo \<Rightarrow> hook_error option \<times> hook_repo" where
  "restore_config env strategy m s =
    (if strategy = StrategyRepoHooks \<and> hm_HooksPath m \<noteq> [] \<and> he_isGit env then
       (let actual = currentHooksPath env s
        in if actual \<noteq> [] \<and> samePath env actual (hm_HooksPath m) then
             (if hm_PriorHooksPathSet m then setLocalHooksPath env (hm_PriorHooksPath m) s else unsetLocalHooksPath env s)
           else (None, s))
     else (None, s))"

definition uninstall_from :: "hook_env \<Rightarrow> string \<Rightarrow> string \<Rightarrow> string \<Rightarrow> hook_manifest \<Rightarrow> hook_repo \<Rightarrow> hook_error option \<times> hook_repo" where
  "uninstall_from env strategy hooksDir allowed m s =
    (case restore_entries env hooksDir allowed (hm_Installed m) s of
       (Some err, s') \<Rightarrow> (Some err, s')
     | (None, s') \<Rightarrow>
         (case restore_config env strategy m s' of
            (Some err, s'') \<Rightarrow> (Some err, s'')
          | (None, s'') \<Rightarrow> removeManifest env (state_dir hooksDir) s''))"

definition Uninstall :: "hook_env \<Rightarrow> hook_options \<Rightarrow> hook_repo \<Rightarrow> hook_error option \<times> hook_repo" where
  "Uninstall env opts s =
    (case resolveStrategy env opts of Inl err \<Rightarrow> (Some err, s) | Inr (strategy, gitCommon) \<Rightarrow>
     (case resolveHooksDir (he_root env) strategy gitCommon of Inl err \<Rightarrow> (Some err, s) | Inr hooksDir \<Rightarrow>
     (case loadManifest (state_dir hooksDir) s of Inl err \<Rightarrow> (Some err, s) | Inr prev \<Rightarrow>
       (case prev of
          None \<Rightarrow> (None, s)
        | Some m \<Rightarrow> uninstall_from env strategy hooksDir (allowedRootFor strategy (he_root env) gitCommon) m s))))"

record hook_report =
  rp_Installed :: "string list"
  rp_Missing :: "string list"
  rp_Unexpected :: "string list"
  rp_Manifest :: "hook_manifest option"
  rp_HooksPath :: string

fun report_entries :: "hook_env \<Rightarrow> string \<Rightarrow> InstalledHook list \<Rightarrow> hook_repo \<Rightarrow> hook_error + string list \<times> string list" where
  "report_entries env hooksDir [] s = Inr ([], [])"
| "report_entries env hooksDir (e # es) s =
    (case (case liveHookPath hooksDir e of None \<Rightarrow> Inr None | Some (dir, name) \<Rightarrow> readFileIfExists env dir name s) of
       Inl err \<Rightarrow> Inl err
     | Inr found \<Rightarrow>
         (case report_entries env hooksDir es s of
            Inl err \<Rightarrow> Inl err
          | Inr (ok, missing) \<Rightarrow>
              Inr (if (case found of None \<Rightarrow> False | Some f \<Rightarrow> he_sha env (hf_data f) = ih_ContentSHA e)
                   then (ih_Kind e # ok, missing) else (ok, ih_Kind e # missing))))"

definition unexpected_hooks :: "hook_env \<Rightarrow> string \<Rightarrow> hook_manifest \<Rightarrow> hook_repo \<Rightarrow> string list" where
  "unexpected_hooks env hooksDir m s =
    filter (\<lambda>n. n \<notin> set (map ih_Kind (hm_Installed m)) \<and>
              (case mget (hr_files s hooksDir) n of
                 None \<Rightarrow> False
               | Some f \<Rightarrow> hf_type f \<noteq> DirectoryFile \<and> he_readable env hooksDir n \<and> bytesHaveSentinel (hf_data f)))
      (sort (mkeys (hr_files s hooksDir)))"

definition Status :: "hook_env \<Rightarrow> hook_options \<Rightarrow> hook_repo \<Rightarrow> hook_error + hook_report" where
  "Status env opts s =
    (case resolveStrategy env opts of Inl err \<Rightarrow> Inl err | Inr (strategy, gitCommon) \<Rightarrow>
     (case resolveHooksDir (he_root env) strategy gitCommon of Inl err \<Rightarrow> Inl err | Inr hooksDir \<Rightarrow>
     (case loadManifest (state_dir hooksDir) s of Inl err \<Rightarrow> Inl err | Inr prev \<Rightarrow>
       (case prev of
          None \<Rightarrow> Inr \<lparr>rp_Installed = [], rp_Missing = [], rp_Unexpected = [], rp_Manifest = None,
                      rp_HooksPath = currentHooksPath env s\<rparr>
        | Some m \<Rightarrow>
            (case report_entries env hooksDir (hm_Installed m) s of
               Inl err \<Rightarrow> Inl err
             | Inr (ok, missing) \<Rightarrow>
                 if \<not> he_listable env hooksDir then Inl HIO
                 else Inr \<lparr>rp_Installed = ok, rp_Missing = missing, rp_Unexpected = unexpected_hooks env hooksDir m s,
                          rp_Manifest = Some m, rp_HooksPath = currentHooksPath env s\<rparr>)))))"


section \<open>Facts about text\<close>

lemma json_text_valid: "valid_utf8 s \<Longrightarrow> json_text s = s"
proof -
  assume "valid_utf8 s"
  then have "map (\<lambda>(r, bs). if chunk_ok bs then bs else [CHR 0xEF, CHR 0xBF, CHR 0xBD]) (runes_of s) = map snd (runes_of s)"
    by (intro map_cong refl) (auto simp: valid_utf8_def list_all_iff)
  then show ?thesis unfolding json_text_def by (simp only: concat_runes_of)
qed

lemma valid_utf8_ascii: "list_all (\<lambda>c. byte c < 0x80) s \<Longrightarrow> valid_utf8 s"
  unfolding valid_utf8_chunks by (intro exI[of _ "map (\<lambda>c. [c]) s"]) (simp add: list_all_iff)

lemma sentinel_middle: "bytesHaveSentinel (a @ SentinelHeader @ b)"
  unfolding bytesHaveSentinel_def str_contains_iff by blast

lemma renderScript_sentinel: "bytesHaveSentinel (renderScript event cli del)"
  using sentinel_middle[of "''#!/usr/bin/env bash'' @ nl"] unfolding renderScript_def append_assoc .

lemma renderPassthrough_sentinel: "bytesHaveSentinel (renderPassthroughScript p)"
  using sentinel_middle[of "''#!/usr/bin/env bash'' @ nl"] unfolding renderPassthroughScript_def append_assoc .

lemma oct_digit_props: "(of_char (oct_digit n) :: nat) = 48 + n mod 8" "is_oct_digit (oct_digit n)" "byte (oct_digit n) < 0x80"
proof -
  have "n mod 8 < 8" by simp
  then have "48 + n mod 8 < 256" by linarith
  then show *: "(of_char (oct_digit n) :: nat) = 48 + n mod 8" by (simp add: oct_digit_def)
  show "is_oct_digit (oct_digit n)" unfolding is_oct_digit_def * using \<open>n mod 8 < 8\<close> by linarith
  show "byte (oct_digit n) < 0x80" unfolding byte_def * using \<open>n mod 8 < 8\<close> by linarith
qed

lemma mode_roundtrip: "m < 4096 \<Longrightarrow> parse_mode (fileModeString m) = m"
proof -
  assume "m < 4096"
  then have "m div 512 < 8" by simp
  then have a: "m div 512 mod 8 = m div 512" by simp
  have b: "8 * (m div 512) + m div 64 mod 8 = m div 64" using mult_div_mod_eq[of 8 "m div 64"] by (simp add: div_mult2_eq[symmetric])
  have c: "8 * (m div 64) + m div 8 mod 8 = m div 8" using mult_div_mod_eq[of 8 "m div 8"] by (simp add: div_mult2_eq[symmetric])
  have "8 * (8 * (8 * (m div 512 mod 8) + m div 64 mod 8) + m div 8 mod 8) + m mod 8 = m" unfolding a b c by simp
  then show ?thesis using a by (simp add: parse_mode_def fileModeString_def oct_digit_props)
qed

lemma fileModeString_valid: "json_text (fileModeString m) = fileModeString m" "fileModeString m \<noteq> []"
  by (simp_all add: json_text_valid valid_utf8_ascii fileModeString_def oct_digit_props)

lemma json_Nil [simp]: "json_text [] = []"
  by (simp add: json_text_def)


section \<open>The rollback record\<close>

definition clean_name :: "string \<Rightarrow> bool" where
  "clean_name n \<longleftrightarrow> n \<noteq> [] \<and> trim_space n = n \<and> valid_utf8 n"

text \<open>Names of directory entries are distinct; the hooks directory holds plain files of text.\<close>

definition clean_dirs :: "string \<Rightarrow> hook_repo \<Rightarrow> bool" where
  "clean_dirs hooksDir s \<longleftrightarrow> (\<forall>d. wf_map (hr_files s d) \<and> list_all clean_name (mkeys (hr_files s d)))
     \<and> (\<forall>n f. mget (hr_files s hooksDir) n = Some f \<longrightarrow> hf_type f = RegularFile \<and> hf_mode f < 512 \<and> valid_utf8 (hf_data f))"

definition prior_ok :: "(string, hook_file) gomap \<Rightarrow> InstalledHook \<Rightarrow> bool" where
  "prior_ok fs e \<longleftrightarrow> clean_name (ih_Kind e) \<and>
    (case mget fs (ih_Kind e) of
       None \<Rightarrow> \<not> ih_PriorExisted e
     | Some f \<Rightarrow> ih_PriorExisted e \<and> ih_PriorSnapshot e = hf_data f \<and> ih_PriorMode e = fileModeString (hf_mode f))"

text \<open>Every file is the original one, or an installed script whose original is recorded.\<close>

definition files_kept :: "string \<Rightarrow> hook_repo \<Rightarrow> InstalledHook list \<Rightarrow> hook_repo \<Rightarrow> bool" where
  "files_kept hooksDir s0 es s \<longleftrightarrow> (\<forall>d. d \<noteq> hooksDir \<longrightarrow> hr_files s d = hr_files s0 d)
     \<and> (\<forall>n. mget (hr_files s hooksDir) n = mget (hr_files s0 hooksDir) n
          \<or> n \<in> ih_Kind ` set es \<and> (\<exists>f. mget (hr_files s hooksDir) n = Some f \<and> bytesHaveSentinel (hf_data f) \<and> hf_type f = RegularFile))"

definition disk_entries :: "string \<Rightarrow> hook_repo \<Rightarrow> InstalledHook list" where
  "disk_entries sd s = (case hr_manifest s sd of Some (StoredManifest m) \<Rightarrow> hm_Installed m | _ \<Rightarrow> [])"

lemma prior_ok_json:
  assumes "prior_ok (hr_files s0 hooksDir) e" "clean_dirs hooksDir s0"
  shows "prior_ok (hr_files s0 hooksDir) (json_entry e)" "ih_Kind (json_entry e) = ih_Kind e"
proof -
  show k: "ih_Kind (json_entry e) = ih_Kind e"
    using assms(1) by (simp add: prior_ok_def json_entry_def clean_name_def json_text_valid)
  show "prior_ok (hr_files s0 hooksDir) (json_entry e)"
  proof (cases "mget (hr_files s0 hooksDir) (ih_Kind e)")
    case None
    then show ?thesis using assms(1) unfolding prior_ok_def k by (simp add: json_entry_def)
  next
    case (Some f)
    then have "valid_utf8 (hf_data f)" using assms(2) by (simp add: clean_dirs_def)
    then show ?thesis using assms(1) Some unfolding prior_ok_def k
      by (simp add: json_entry_def json_text_valid fileModeString_valid)
  qed
qed

text \<open>What holds between two scripts of a first install: the manifest being built, and the state.\<close>

definition installing :: "string \<Rightarrow> hook_repo \<Rightarrow> hook_manifest \<Rightarrow> hook_manifest \<times> hook_repo \<Rightarrow> bool" where
  "installing hooksDir s0 m1 = (\<lambda>(m, s).
     let fs = hr_files s0 hooksDir; sd = state_dir hooksDir in
     list_all (prior_ok fs) (hm_Installed m) \<and> (\<exists>es. m = m1\<lparr>hm_Installed := es\<rparr>)
     \<and> ih_Kind ` set (disk_entries sd s) \<subseteq> ih_Kind ` set (hm_Installed m)
     \<and> list_all (prior_ok fs) (disk_entries sd s)
     \<and> files_kept hooksDir s0 (disk_entries sd s) s
     \<and> hr_local s = hr_local s0
     \<and> (\<exists>es. hr_manifest s = hr_manifest s0 \<or> hr_manifest s = (hr_manifest s0)(sd \<mapsto> StoredManifest (json_manifest (m1\<lparr>hm_Installed := es\<rparr>)))))"


subsection \<open>The checkpoint of a script\<close>

lemma mutate_cases:
  obtains "mutate env f s = (None, f (s\<lparr>hr_ops := hr_ops s + 1\<rparr>))" | "mutate env f s = (Some HIO, s\<lparr>hr_ops := hr_ops s + 1\<rparr>)"
  unfolding mutate_def Let_def by (cases "he_ok env (hr_ops s)") auto

lemma disk_entries_ops [simp]: "disk_entries sd (s\<lparr>hr_ops := k\<rparr>) = disk_entries sd s"
  by (simp add: disk_entries_def)

lemma disk_entries_written: "disk_entries sd (s\<lparr>hr_manifest := (hr_manifest s)(sd \<mapsto> StoredManifest (json_manifest m))\<rparr>) = map json_entry (hm_Installed m)"
  by (simp add: disk_entries_def json_manifest_def)

lemma files_kept_mono: "files_kept D s0 es s \<Longrightarrow> ih_Kind ` set es \<subseteq> ih_Kind ` set es' \<Longrightarrow> hr_files s' = hr_files s \<Longrightarrow> files_kept D s0 es' s'"
  unfolding files_kept_def by (metis subsetD)

lemma json_kinds:
  assumes "list_all (prior_ok (hr_files s0 D)) es" "clean_dirs D s0"
  shows "ih_Kind ` set (map json_entry es) = ih_Kind ` set es" "list_all (prior_ok (hr_files s0 D)) (map json_entry es)"
proof -
  have "ih_Kind (json_entry e) = ih_Kind e" if "e \<in> set es" for e
    using prior_ok_json(2)[of s0 D e] assms that by (simp add: list_all_iff)
  then show "ih_Kind ` set (map json_entry es) = ih_Kind ` set es" by (simp add: image_image)
  show "list_all (prior_ok (hr_files s0 D)) (map json_entry es)"
    using prior_ok_json(1)[of s0 D] assms by (simp add: list_all_iff)
qed

lemma installing_ops [simp]: "installing D s0 m1 (m, s\<lparr>hr_ops := k\<rparr>) = installing D s0 m1 (m, s)"
  by (simp add: installing_def Let_def disk_entries_def files_kept_def)

lemma installing_append:
  "installing D s0 m1 (m, s) \<Longrightarrow> prior_ok (hr_files s0 D) e \<Longrightarrow> installing D s0 m1 (m\<lparr>hm_Installed := hm_Installed m @ [e]\<rparr>, s)"
  by (auto simp: installing_def Let_def)

lemma installing_preWrite:
  assumes I: "installing D s0 m1 (m, s)" and e: "prior_ok (hr_files s0 D) e" and C: "clean_dirs D s0"
    and run: "preWrite env (state_dir D) None e (m, s) = (err, m', s')"
  shows "m' = m\<lparr>hm_Installed := hm_Installed m @ [e]\<rparr>" "installing D s0 m1 (m', s')"
    "err = None \<Longrightarrow> ih_Kind e \<in> ih_Kind ` set (disk_entries (state_dir D) s')" "hr_files s' = hr_files s"
proof -
  let ?m = "m\<lparr>hm_Installed := hm_Installed m @ [e]\<rparr>" and ?sd = "state_dir D"
  let ?f = "\<lambda>s. s\<lparr>hr_manifest := (hr_manifest s)(?sd \<mapsto> StoredManifest (json_manifest ?m))\<rparr>"
  have pre: "preWrite env ?sd None e (m, s) = (let (err, s') = mutate env ?f s in (err, ?m, s'))"
    by (simp add: preWrite_def checkpoint_def carryForward_def writeManifest_def)
  show m': "m' = ?m" using run unfolding pre by (simp split: prod.split_asm)
  have IA: "installing D s0 m1 (?m, s)" by (rule installing_append[OF I e])
  then have ok: "list_all (prior_ok (hr_files s0 D)) (hm_Installed ?m)" by (simp add: installing_def Let_def)
  note jk = json_kinds[OF ok C]
  have w: "installing D s0 m1 (?m, ?f s)"
  proof -
    have d: "disk_entries ?sd (?f s) = map json_entry (hm_Installed ?m)" by (rule disk_entries_written)
    have fk: "files_kept D s0 (disk_entries ?sd (?f s)) (?f s)"
    proof (rule files_kept_mono)
      show "files_kept D s0 (disk_entries ?sd s) s" using IA by (simp add: installing_def Let_def)
      show "ih_Kind ` set (disk_entries ?sd s) \<subseteq> ih_Kind ` set (disk_entries ?sd (?f s))"
        using IA unfolding d jk(1) by (simp add: installing_def Let_def)
    qed simp
    obtain es where es: "m = m1\<lparr>hm_Installed := es\<rparr>" using I by (auto simp: installing_def Let_def)
    have man: "hr_manifest (?f s) = (hr_manifest s0)(?sd \<mapsto> StoredManifest (json_manifest (m1\<lparr>hm_Installed := es @ [e]\<rparr>)))"
      using I es by (auto simp: installing_def Let_def)
    show ?thesis using IA fk jk man unfolding d[symmetric] by (auto simp: installing_def Let_def)
  qed
  consider "mutate env ?f s = (None, ?f (s\<lparr>hr_ops := hr_ops s + 1\<rparr>))" | "mutate env ?f s = (Some HIO, s\<lparr>hr_ops := hr_ops s + 1\<rparr>)"
    by (rule mutate_cases)
  then have alt: "(err = None \<and> s' = (?f s)\<lparr>hr_ops := hr_ops s + 1\<rparr>) \<or> (err = Some HIO \<and> s' = s\<lparr>hr_ops := hr_ops s + 1\<rparr>)"
    using run unfolding pre by cases auto
  then show "hr_files s' = hr_files s" by auto
  show "installing D s0 m1 (m', s')" using alt
  proof
    assume "err = None \<and> s' = (?f s)\<lparr>hr_ops := hr_ops s + 1\<rparr>"
    then show ?thesis using w by (simp only: m' installing_ops simp_thms)
  next
    assume "err = Some HIO \<and> s' = s\<lparr>hr_ops := hr_ops s + 1\<rparr>"
    then show ?thesis using IA by (simp only: m' installing_ops simp_thms)
  qed
  assume "err = None"
  then have s': "s' = (?f s)\<lparr>hr_ops := hr_ops s + 1\<rparr>" using alt by auto
  show "ih_Kind e \<in> ih_Kind ` set (disk_entries ?sd s')"
    unfolding s' disk_entries_ops disk_entries_written jk(1) by simp
qed


subsection \<open>One script\<close>

lemma installing_file:
  "installing D s0 m1 (m, s) \<Longrightarrow> n \<notin> ih_Kind ` set (hm_Installed m) \<Longrightarrow> mget (hr_files s D) n = mget (hr_files s0 D) n"
  unfolding installing_def Let_def prod.case files_kept_def by blast

lemma prior_entry_ok:
  assumes "prior_entry env strategy (fresh_entry env D n content) target None (mget (hr_files s0 D) n) = Inr (e, u)" "clean_name n"
  shows "prior_ok (hr_files s0 D) e" "ih_Kind e = n"
proof -
  have "e = fresh_entry env D n content \<and> mget (hr_files s0 D) n = None
      \<or> (\<exists>f. mget (hr_files s0 D) n = Some f \<and> e = captured (fresh_entry env D n content) target f)"
    using assms(1) by (auto simp: prior_entry_def split: option.split_asm if_split_asm)
  then show "prior_ok (hr_files s0 D) e" "ih_Kind e = n"
    using assms(2) by (auto simp: prior_ok_def fresh_entry_def captured_def)
qed

lemma installing_write:
  assumes "installing D s0 m1 (m, s)" "n \<in> ih_Kind ` set (disk_entries (state_dir D) s)" "bytesHaveSentinel content"
  shows "installing D s0 m1 (m, put_file D n \<lparr>hf_data = content, hf_mode = mode, hf_type = RegularFile\<rparr> s)"
proof -
  let ?s = "put_file D n \<lparr>hf_data = content, hf_mode = mode, hf_type = RegularFile\<rparr> s"
  have d: "disk_entries (state_dir D) ?s = disk_entries (state_dir D) s" "hr_local ?s = hr_local s" "hr_manifest ?s = hr_manifest s"
    by (simp_all add: put_file_def disk_entries_def)
  have "files_kept D s0 (disk_entries (state_dir D) s) s" using assms(1) by (simp add: installing_def Let_def)
  then have "files_kept D s0 (disk_entries (state_dir D) s) ?s"
    using assms(2,3) by (simp add: files_kept_def put_file_def)
  then show ?thesis using assms(1) by (simp add: installing_def Let_def d)
qed

lemma writeHookFile_cases:
  assumes "writeHookFile env d n content mode s = (err, s')"
  shows "err = None \<and> s' = (put_file d n \<lparr>hf_data = content, hf_mode = mode, hf_type = RegularFile\<rparr> s)\<lparr>hr_ops := hr_ops s + 1\<rparr>
    \<or> err = Some HIO \<and> s' = s\<lparr>hr_ops := hr_ops s + 1\<rparr>"
  using assms by (auto simp: writeHookFile_def mutate_def put_file_def Let_def split: if_split_asm)

lemma installing_script:
  assumes I: "installing D s0 m1 (m, s)" and C: "clean_dirs D s0" and n: "clean_name n" "n \<notin> ih_Kind ` set (hm_Installed m)"
    and content: "bytesHaveSentinel content"
    and run: "installScript env D n content None strategy (preWrite env (state_dir D) None) (m, s) = (r, m', s')"
  shows "installing D s0 m1 (m', s') \<and>
    (case r of Inl err \<Rightarrow> True
     | Inr (e, wrote) \<Rightarrow> prior_ok (hr_files s0 D) e \<and> ih_Kind e = n \<and>
         hm_Installed m' = hm_Installed m @ (if wrote then [e] else []))"
proof -
  have f: "mget (hr_files s D) n = mget (hr_files s0 D) n" by (rule installing_file[OF I n(2)])
  show ?thesis
  proof (cases "readFileIfExists env D n s")
    case (Inl err)
    then show ?thesis using run I by (auto simp: installScript_def)
  next
    case (Inr found)
    then have found: "found = mget (hr_files s0 D) n"
      using f by (auto simp: readFileIfExists_def split: if_split_asm option.split_asm)
    let ?pe = "prior_entry env strategy (fresh_entry env D n content) (path_join D n) None found"
    show ?thesis
    proof (cases ?pe)
      case (Inl err)
      then have "r = Inl err" "m' = m" "s' = s" using run Inr by (simp_all add: installScript_def)
      then show ?thesis using I by simp
    next
      case pe: (Inr eu)
      obtain e u where eu: "eu = (e, u)" by (cases eu)
      have ok: "prior_ok (hr_files s0 D) e" "ih_Kind e = n"
        using prior_entry_ok[of env strategy D n content "path_join D n" s0 e u] pe eu found n(1) by simp_all
      show ?thesis
      proof (cases "u \<or> \<not> ensureConfined env (path_join D n) (path_dir D)")
        case True
        then have "(r = Inr (e, False) \<or> r = Inl HPathNotAllowed) \<and> m' = m \<and> s' = s"
          using run Inr pe eu by (auto simp: installScript_def split: if_split_asm)
        then show ?thesis using I ok by auto
      next
        case False
        obtain err m2 s2 where pw: "preWrite env (state_dir D) None e (m, s) = (err, m2, s2)" by (metis prod_cases3)
        note P = installing_preWrite[OF I ok(1) C pw]
        show ?thesis
        proof (cases err)
          case (Some x)
          then have "r = Inl x" "m' = m2" "s' = s2" using run Inr pe eu False pw by (simp_all add: installScript_def)
          then show ?thesis using P(2) by simp
        next
          case None
          obtain err' s3 where wf: "writeHookFile env D n content 493 s2 = (err', s3)" by (cases "writeHookFile env D n content 493 s2")
          have res: "(r, m', s') = (case err' of Some x \<Rightarrow> (Inl x, m2, s3) | None \<Rightarrow> (Inr (e, True), m2, s3))"
            using run Inr pe eu False pw None wf by (simp add: installScript_def split: option.split)
          have disk: "n \<in> ih_Kind ` set (disk_entries (state_dir D) s2)" using P(3)[OF None] ok(2) by simp
          have "installing D s0 m1 (m2, s3)"
            using writeHookFile_cases[OF wf] P(2) installing_write[OF P(2) disk content, of 493] by auto
          then show ?thesis using res ok P(1) by (cases err') simp_all
        qed
      qed
    qed
  qed
qed


subsection \<open>All scripts\<close>

text \<open>A first install runs one script per name, with content that carries the sentinel.\<close>

definition script_for :: "hook_env \<Rightarrow> string \<Rightarrow> string \<Rightarrow> string \<times> string \<Rightarrow> script_step" where
  "script_for env D strategy = (\<lambda>(n, content). installScript env D n content None strategy (preWrite env (state_dir D) None))"

lemma script_steps_first:
  "script_steps env opts strategy D None kinds priorDir active = map (script_for env D strategy)
     (map (\<lambda>k. (k, renderScript k (op_CLIExecutable opts) (delegate_path priorDir active k))) kinds
      @ map (\<lambda>n. (n, renderPassthroughScript (path_join priorDir n))) (filter (\<lambda>n. n \<notin> set kinds) active))"
  by (simp add: script_steps_def script_for_def installOne_def prev_entry_def)

lemma installing_all:
  assumes "install_all (map (script_for env D strategy) ps) (m, s) = (r, m', s')"
    and "installing D s0 m1 (m, s)" "clean_dirs D s0"
    and "distinct (map fst ps)" "list_all clean_name (map fst ps)" "list_all (bytesHaveSentinel \<circ> snd) ps"
    and "set (map fst ps) \<inter> ih_Kind ` set (hm_Installed m) = {}"
  shows "installing D s0 m1 (m', s')"
  using assms
proof (induction ps arbitrary: m s r)
  case Nil
  then show ?case by simp
next
  case (Cons p ps)
  obtain n content where p: "p = (n, content)" by (cases p)
  obtain r1 m2 s2 where one: "script_for env D strategy p (m, s) = (r1, m2, s2)" by (metis prod_cases3)
  have S: "installing D s0 m1 (m2, s2) \<and>
    (case r1 of Inl err \<Rightarrow> True
     | Inr (e, wrote) \<Rightarrow> prior_ok (hr_files s0 D) e \<and> ih_Kind e = n \<and> hm_Installed m2 = hm_Installed m @ (if wrote then [e] else []))"
    using installing_script[of D s0 m1 m s n content env strategy r1 m2 s2] Cons.prems one p by (simp add: script_for_def)
  show ?case
  proof (cases r1)
    case (Inl err)
    then have "m' = m2" "s' = s2" using Cons.prems(1) one by simp_all
    then show ?thesis using S by simp
  next
    case (Inr ew)
    obtain e wrote where ew: "ew = (e, wrote)" by (cases ew)
    let ?m = "if wrote then m2 else m2\<lparr>hm_Installed := hm_Installed m2 @ [e]\<rparr>"
    have e: "prior_ok (hr_files s0 D) e" "ih_Kind e = n" "hm_Installed ?m = hm_Installed m @ [e]"
      using S Inr ew by (cases wrote; simp)+
    have I: "installing D s0 m1 (?m, s2)" using S installing_append[OF _ e(1)] by (cases wrote) simp_all
    obtain r2 where rest: "install_all (map (script_for env D strategy) ps) (?m, s2) = (r2, m', s')"
      using Cons.prems(1) one Inr ew by (auto simp: Let_def split: prod.split_asm sum.split_asm)
    show ?thesis
    proof (rule Cons.IH[OF rest I Cons.prems(3)])
      show "set (map fst ps) \<inter> ih_Kind ` set (hm_Installed ?m) = {}"
        unfolding e(3) using Cons.prems(4,7) p e(2) by auto
    qed (use Cons.prems in simp_all)
  qed
qed

lemma active_names_sub:
  "active_names env d s ns = Inr out \<Longrightarrow> set out \<subseteq> set ns \<and> (distinct ns \<longrightarrow> distinct out)"
proof (induction ns arbitrary: out)
  case (Cons n ns)
  then consider "active_names env d s ns = Inr out" | out' where "active_names env d s ns = Inr out'" "out = n # out'"
    by (auto simp: Let_def split: if_split_asm option.split_asm sum.split_asm)
  then show ?case using Cons.IH by cases fastforce+
qed simp


subsection \<open>A state an uninstall can undo\<close>

definition clean_path :: "string \<Rightarrow> bool" where
  "clean_path p \<longleftrightarrow> p \<noteq> [] \<and> trim_space p = p \<and> valid_utf8 p"

definition clean_local :: "hook_repo \<Rightarrow> bool" where
  "clean_local s \<longleftrightarrow> (case hr_local s of None \<Rightarrow> True | Some v \<Rightarrow> clean_path v)"

definition config_kept :: "hook_env \<Rightarrow> string \<Rightarrow> string \<Rightarrow> hook_repo \<Rightarrow> hook_manifest \<Rightarrow> hook_repo \<Rightarrow> bool" where
  "config_kept env D strategy s0 m s \<longleftrightarrow>
    (if strategy = StrategyRepoHooks \<and> he_isGit env then
       hm_PriorHooksPath m = currentHooksPath env s0 \<and> hm_PriorHooksPathSet m = (currentHooksPath env s0 \<noteq> [])
       \<and> (hr_local s = hr_local s0 \<or> hr_local s = Some D \<and> hm_HooksPath m = D)
     else hr_local s = hr_local s0)"

definition undoable :: "hook_env \<Rightarrow> string \<Rightarrow> string \<Rightarrow> hook_repo \<Rightarrow> hook_manifest \<Rightarrow> hook_repo \<Rightarrow> bool" where
  "undoable env D strategy s0 m s \<longleftrightarrow>
    list_all (prior_ok (hr_files s0 D)) (hm_Installed m) \<and> files_kept D s0 (hm_Installed m) s \<and> config_kept env D strategy s0 m s
    \<and> (\<forall>d. d \<noteq> state_dir D \<longrightarrow> hr_manifest s d = hr_manifest s0 d)"

definition same_repo :: "hook_repo \<Rightarrow> hook_repo \<Rightarrow> bool" where
  "same_repo s0 s \<longleftrightarrow> (\<forall>d n. mget (hr_files s d) n = mget (hr_files s0 d) n) \<and> hr_local s = hr_local s0 \<and> hr_manifest s = hr_manifest s0"

definition recoverable :: "hook_env \<Rightarrow> string \<Rightarrow> string \<Rightarrow> hook_repo \<Rightarrow> hook_repo \<Rightarrow> bool" where
  "recoverable env D strategy s0 s \<longleftrightarrow> same_repo s0 s
    \<or> (\<exists>dm. hr_manifest s (state_dir D) = Some (StoredManifest dm) \<and> undoable env D strategy s0 dm s)"

lemma recoverable_ops [simp]:
  "recoverable env D strategy s0 (s\<lparr>hr_ops := k\<rparr>) = recoverable env D strategy s0 s"
  "undoable env D strategy s0 m (s\<lparr>hr_ops := k\<rparr>) = undoable env D strategy s0 m s"
  by (simp_all add: recoverable_def same_repo_def undoable_def config_kept_def files_kept_def)

lemma current_clean: "clean_local s \<Longrightarrow> json_text (currentHooksPath env s) = currentHooksPath env s"
  by (cases "hr_local s") (auto simp: clean_local_def currentHooksPath_def clean_path_def json_text_valid)

lemma undoable_json:
  assumes "undoable env D strategy s0 m s" "clean_dirs D s0" "clean_local s0" "clean_path D"
  shows "undoable env D strategy s0 (json_manifest m) s"
proof -
  have ok: "list_all (prior_ok (hr_files s0 D)) (hm_Installed m)" using assms(1) by (simp add: undoable_def)
  note jk = json_kinds[OF ok assms(2)]
  have i: "hm_Installed (json_manifest m) = map json_entry (hm_Installed m)" by (simp add: json_manifest_def)
  have "files_kept D s0 (hm_Installed (json_manifest m)) s"
    by (rule files_kept_mono[of D s0 "hm_Installed m" s]) (use assms(1) jk(1) in \<open>simp_all add: undoable_def i\<close>)
  moreover have "config_kept env D strategy s0 (json_manifest m) s"
    using assms(1,4) current_clean[OF assms(3), of env]
    by (auto simp: undoable_def config_kept_def json_manifest_def clean_path_def json_text_valid)
  ultimately show ?thesis using assms(1) jk(2) by (simp add: undoable_def i)
qed

lemma recoverable_writeManifest:
  assumes U: "undoable env D strategy s0 m s" and R: "recoverable env D strategy s0 s"
    and C: "clean_dirs D s0" "clean_local s0" "clean_path D"
    and run: "writeManifest env' (state_dir D) m s = (err, s')"
  shows "recoverable env D strategy s0 s'" "undoable env D strategy s0 m s'" "hr_local s' = hr_local s"
    "err = None \<Longrightarrow> hr_manifest s' (state_dir D) = Some (StoredManifest (json_manifest m))"
proof -
  let ?f = "\<lambda>s. s\<lparr>hr_manifest := (hr_manifest s)(state_dir D \<mapsto> StoredManifest (json_manifest m))\<rparr>"
  consider "err = None" "s' = (?f s)\<lparr>hr_ops := hr_ops s + 1\<rparr>" | "err = Some HIO" "s' = s\<lparr>hr_ops := hr_ops s + 1\<rparr>"
    using run unfolding writeManifest_def mutate_def Let_def by (auto split: if_split_asm)
  note alt = this
  have keep: "undoable env D strategy s0 m' (?f s)" if "undoable env D strategy s0 m' s" for m'
    using that by (simp add: undoable_def config_kept_def files_kept_def)
  have w: "recoverable env D strategy s0 (?f s)"
    unfolding recoverable_def using keep[OF undoable_json[OF U C]] by simp
  show "recoverable env D strategy s0 s'" using alt w R by cases simp_all
  show "undoable env D strategy s0 m s'" using alt U keep[OF U] by cases simp_all
  show "hr_local s' = hr_local s" using alt by cases simp_all
  show "err = None \<Longrightarrow> hr_manifest s' (state_dir D) = Some (StoredManifest (json_manifest m))" using alt by cases simp_all
qed

text \<open>Between two scripts, on the manifest under construction and on the one on disk.\<close>

lemma installing_undoable:
  assumes I: "installing D s0 m1 (m, s)" and no: "hr_manifest s0 (state_dir D) = None"
    and C: "clean_dirs D s0" "clean_local s0" "clean_path D"
    and m1: "strategy = StrategyRepoHooks \<and> he_isGit env \<Longrightarrow>
               hm_PriorHooksPath m1 = currentHooksPath env s0 \<and> hm_PriorHooksPathSet m1 = (currentHooksPath env s0 \<noteq> [])"
  shows "undoable env D strategy s0 m s" "recoverable env D strategy s0 s"
proof -
  obtain es where m: "m = m1\<lparr>hm_Installed := es\<rparr>" using I by (auto simp: installing_def Let_def)
  have l: "hr_local s = hr_local s0" and fk: "files_kept D s0 (disk_entries (state_dir D) s) s"
    and sub: "ih_Kind ` set (disk_entries (state_dir D) s) \<subseteq> ih_Kind ` set (hm_Installed m)"
    and ok: "list_all (prior_ok (hr_files s0 D)) (hm_Installed m)" "list_all (prior_ok (hr_files s0 D)) (disk_entries (state_dir D) s)"
    using I by (simp_all add: installing_def Let_def)
  obtain es' where man: "hr_manifest s = hr_manifest s0 \<or>
      hr_manifest s = (hr_manifest s0)(state_dir D \<mapsto> StoredManifest (json_manifest (m1\<lparr>hm_Installed := es'\<rparr>)))"
    using I by (auto simp: installing_def Let_def)
  have other: "\<forall>d. d \<noteq> state_dir D \<longrightarrow> hr_manifest s d = hr_manifest s0 d" using man by auto
  have c: "config_kept env D strategy s0 (m1\<lparr>hm_Installed := x\<rparr>) s" for x using m1 l by (simp add: config_kept_def)
  have fk': "files_kept D s0 (hm_Installed m) s" by (rule files_kept_mono[OF fk sub]) simp
  show "undoable env D strategy s0 m s" unfolding undoable_def using ok(1) fk' c m other by auto
  show "recoverable env D strategy s0 s"
    using man
  proof
    assume h: "hr_manifest s = hr_manifest s0"
    then have d: "disk_entries (state_dir D) s = []" using no by (simp add: disk_entries_def)
    have "mget (hr_files s d) n = mget (hr_files s0 d) n" for d n
      using fk unfolding d files_kept_def by (cases "d = D") simp_all
    then show ?thesis using h l by (simp add: recoverable_def same_repo_def)
  next
    let ?dm = "json_manifest (m1\<lparr>hm_Installed := es'\<rparr>)"
    assume h: "hr_manifest s = (hr_manifest s0)(state_dir D \<mapsto> StoredManifest ?dm)"
    then have d: "disk_entries (state_dir D) s = hm_Installed ?dm" by (simp add: disk_entries_def)
    have "config_kept env D strategy s0 ?dm s"
      using m1 l current_clean[OF C(2), of env] by (auto simp: config_kept_def json_manifest_def)
    then have "undoable env D strategy s0 ?dm s" unfolding undoable_def using ok(2) fk other unfolding d by simp
    then show ?thesis using h by (auto simp: recoverable_def)
  qed
qed


subsection \<open>The setting and the final manifest\<close>

lemma flip_undoable:
  assumes U: "undoable env D strategy s0 m s" and R: "recoverable env D strategy s0 s" and l: "hr_local s = hr_local s0"
    and C: "clean_dirs D s0" "clean_local s0" "clean_path D"
    and T: "strategy = StrategyRepoHooks" "he_isGit env"
    and run: "flip_hooks_path env D None (m, s) = (r, m', s')"
  shows "recoverable env D strategy s0 s' \<and> (\<forall>b. r = Inr b \<longrightarrow> undoable env D strategy s0 m' s')"
proof -
  have set_path: "undoable env D strategy s0 (m\<lparr>hm_HooksPath := p\<rparr>) s" for p
    using U l by (simp add: undoable_def config_kept_def)
  show ?thesis
  proof (cases "currentHooksPath env s = [] \<or> \<not> samePath env (currentHooksPath env s) D")
    case False
    then have "r = Inr False \<and> m' = m\<lparr>hm_HooksPath := currentHooksPath env s\<rparr> \<and> s' = s"
      using run by (auto simp: flip_hooks_path_def)
    then show ?thesis using R set_path by simp
  next
    case True
    let ?m = "m\<lparr>hm_HooksPath := D\<rparr>"
    obtain err s2 where w: "writeManifest env (state_dir D) ?m s = (err, s2)" by (cases "writeManifest env (state_dir D) ?m s")
    note W = recoverable_writeManifest[OF set_path R C w]
    have cp: "checkpoint env (state_dir D) None (?m, s) = (err, ?m, s2)" using w by (simp add: checkpoint_def carryForward_def)
    show ?thesis
    proof (cases err)
      case (Some x)
      then have "r = Inl x" "s' = s2" using run True cp by (simp_all add: flip_hooks_path_def)
      then show ?thesis using W(1) by simp
    next
      case None
      let ?s3 = "\<lambda>s. s\<lparr>hr_local := Some D\<rparr>"
      have U3: "undoable env D strategy s0 x (?s3 s2)" if "undoable env D strategy s0 x s2" "hm_HooksPath x = D" for x
        using that T by (simp add: undoable_def config_kept_def files_kept_def)
      have j: "hm_HooksPath (json_manifest ?m) = D" using C(3) by (simp add: json_manifest_def clean_path_def json_text_valid)
      have R3: "recoverable env D strategy s0 (?s3 s2)"
        unfolding recoverable_def using U3[OF undoable_json[OF W(2) C] j] W(4)[OF None] by simp
      have "(\<exists>x. r = Inl x) \<and> s' = s2\<lparr>hr_ops := hr_ops s2 + 1\<rparr>
          \<or> r = Inr True \<and> m' = ?m \<and> s' = (?s3 s2)\<lparr>hr_ops := hr_ops s2 + 1\<rparr>"
        using run True cp None T C(3)
        by (auto simp: flip_hooks_path_def setLocalHooksPath_def mutate_def currentHooksPath_def clean_path_def Let_def split: if_split_asm)
      then show ?thesis using W(1) R3 U3[OF W(2)] by auto
    qed
  qed
qed


lemma finish_recoverable:
  assumes U: "undoable env D strategy s0 m s" and R: "recoverable env D strategy s0 s"
    and C: "clean_dirs D s0" "clean_local s0" "clean_path D"
  shows "recoverable env D strategy s0 (snd (finish_install env opts D None c (m, s)))"
proof -
  let ?m = "m\<lparr>hm_CLIExecutable := op_CLIExecutable opts, hm_InstalledAt := he_now env\<rparr>"
  obtain err s' where w: "writeManifest env (state_dir D) ?m s = (err, s')" by (cases "writeManifest env (state_dir D) ?m s")
  have "undoable env D strategy s0 ?m s" using U by (simp add: undoable_def config_kept_def)
  from recoverable_writeManifest(1)[OF this R C w] show ?thesis
    using w by (simp add: finish_install_def carryForward_def Let_def split: option.split)
qed

text \<open>The names of the scripts of a first install.\<close>

lemma active_clean:
  assumes "scanActiveHooks env d s = Inr active" "clean_dirs D s"
  shows "distinct active" "list_all clean_name active"
proof -
  have w: "wf_map (hr_files s d)" "list_all clean_name (mkeys (hr_files s d))" using assms(2) by (simp_all add: clean_dirs_def)
  have "active = [] \<or> active_names env d s (sort (mkeys (hr_files s d))) = Inr active"
    using assms(1) by (auto simp: scanActiveHooks_def split: if_split_asm)
  then have "set active \<subseteq> set (mkeys (hr_files s d)) \<and> distinct active"
  proof
    assume "active_names env d s (sort (mkeys (hr_files s d))) = Inr active"
    from active_names_sub[OF this] show ?thesis using w(1) unfolding wf_map_def by simp
  qed simp
  then show "distinct active" "list_all clean_name active" using w(2) by (auto simp: list_all_iff)
qed

lemma clean_ascii:
  assumes "s \<noteq> []" "graphic (hd s)" "graphic (last s)" "list_all (\<lambda>c. byte c < 0x80) s"
  shows "clean_name s" "clean_path s"
  using assms trim_space_id valid_utf8_ascii by (auto simp: clean_name_def clean_path_def)

lemma AllHooks_clean: "list_all clean_name AllHooks \<and> distinct AllHooks"
proof -
  have "list_all (\<lambda>s. s \<noteq> [] \<and> graphic (hd s) \<and> graphic (last s) \<and> list_all (\<lambda>c. byte c < 0x80) s) AllHooks" by code_simp
  then have "list_all clean_name AllHooks" unfolding list_all_iff using clean_ascii(1) by (auto simp: list_all_iff)
  moreover have "distinct AllHooks" by code_simp
  ultimately show ?thesis by simp
qed

lemma selectedKinds_clean:
  assumes "selectedKinds opts = Inr kinds"
  shows "distinct kinds" "list_all clean_name kinds"
  using assms AllHooks_clean by (auto simp: selectedKinds_def validateKind_def list_all_iff split: if_split_asm)

lemma first_scripts_clean:
  assumes "distinct kinds" "list_all clean_name kinds" "distinct active" "list_all clean_name active"
  shows "\<exists>ps. script_steps env opts strategy D None kinds priorDir active = map (script_for env D strategy) ps
     \<and> distinct (map fst ps) \<and> list_all clean_name (map fst ps) \<and> list_all (bytesHaveSentinel \<circ> snd) ps"
proof (intro exI conjI)
  show "script_steps env opts strategy D None kinds priorDir active = map (script_for env D strategy)
     (map (\<lambda>k. (k, renderScript k (op_CLIExecutable opts) (delegate_path priorDir active k))) kinds
      @ map (\<lambda>n. (n, renderPassthroughScript (path_join priorDir n))) (filter (\<lambda>n. n \<notin> set kinds) active))" (is "_ = map _ ?ps")
    by (rule script_steps_first)
  have names: "map fst ?ps = kinds @ filter (\<lambda>n. n \<notin> set kinds) active" by (simp add: comp_def)
  show "distinct (map fst ?ps)" unfolding names using assms(1,3) by auto
  show "list_all clean_name (map fst ?ps)" unfolding names using assms(2,4) by (auto simp: list_all_iff)
  show "list_all (bytesHaveSentinel \<circ> snd) ?ps" by (auto simp: list_all_iff renderScript_sentinel renderPassthrough_sentinel)
qed


subsection \<open>A first install, up to any failure\<close>

lemma prior_hooks_first:
  assumes "prior_hooks env None s = Inr (path, given, priorDir, active)"
  shows "path = currentHooksPath env s" "given = (currentHooksPath env s \<noteq> [])" "scanActiveHooks env priorDir s = Inr active"
  using assms by (auto simp: prior_hooks_def Let_def split: sum.split_asm)

lemma installing_start:
  assumes "hr_manifest s0 (state_dir D) = None" "hm_Installed m1 = []"
  shows "installing D s0 m1 (m1, s0)"
proof -
  have "disk_entries (state_dir D) s0 = []" using assms(1) by (simp add: disk_entries_def)
  moreover have "\<exists>es. m1 = m1\<lparr>hm_Installed := es\<rparr>" by (rule exI[of _ "hm_Installed m1"]) simp
  ultimately show ?thesis using assms(2) by (simp add: installing_def Let_def files_kept_def)
qed

lemma install_into_recoverable:
  assumes no: "hr_manifest s0 (state_dir D) = None" and C: "clean_dirs D s0" "clean_local s0" "clean_path D"
    and kinds: "distinct kinds" "list_all clean_name kinds"
  shows "recoverable env D strategy s0 (snd (install_into env opts strategy D kinds None s0))"
proof -
  let ?track = "strategy = StrategyRepoHooks \<and> he_isGit env" and ?m0 = "new_manifest env strategy D"
  show ?thesis
  proof (cases "if ?track then prior_hooks env None s0 else Inr ([], False, [], [])")
    case (Inl err)
    then have "snd (install_into env opts strategy D kinds None s0) = s0" by (simp add: install_into_def Let_def)
    then show ?thesis by (simp add: recoverable_def same_repo_def)
  next
    case (Inr q)
    obtain path given priorDir active where q: "q = (path, given, priorDir, active)" by (metis prod_cases4)
    let ?m1 = "if ?track then ?m0\<lparr>hm_PriorHooksPath := path, hm_PriorHooksPathSet := given, hm_PriorHooksDir := priorDir\<rparr> else ?m0"
    have active: "distinct active" "list_all clean_name active"
      using Inr q prior_hooks_first(3)[of env s0 path given priorDir active] active_clean[OF _ C(1)]
      by (auto split: if_split_asm)
    have m1: "hm_PriorHooksPath ?m1 = currentHooksPath env s0 \<and> hm_PriorHooksPathSet ?m1 = (currentHooksPath env s0 \<noteq> [])" if ?track
      using that Inr q prior_hooks_first(1,2)[of env s0 path given priorDir active] by simp
    let ?steps = "script_steps env opts strategy D None kinds priorDir active"
    obtain r m s where run: "install_all ?steps (?m1, s0) = (r, m, s)" by (metis prod_cases3)
    obtain ps where ps: "?steps = map (script_for env D strategy) ps" "distinct (map fst ps)"
        "list_all clean_name (map fst ps)" "list_all (bytesHaveSentinel \<circ> snd) ps"
      using first_scripts_clean[OF kinds active, of env opts strategy D priorDir] by blast
    have nil: "hm_Installed ?m1 = []" by (simp add: new_manifest_def)
    have I: "installing D s0 ?m1 (m, s)"
      by (rule installing_all[OF run[unfolded ps(1)] installing_start[OF no nil] C(1) ps(2,3,4)]) (simp only: nil list.set image_empty Int_empty_right)
    have U: "undoable env D strategy s0 m s" "recoverable env D strategy s0 s"
      using installing_undoable[OF I no C, of strategy env] m1 by blast+
    have l: "hr_local s = hr_local s0" using I by (simp only: installing_def Let_def prod.case)
    have into: "install_into env opts strategy D kinds None s0 =
        (case r of
           Inl err \<Rightarrow> (Inl err, s)
         | Inr changed \<Rightarrow>
             if \<not> ?track then finish_install env opts D None changed (m, s)
             else (case flip_hooks_path env D None (m, s) of
                     (Inl err, m', s'') \<Rightarrow> (Inl err, s'')
                   | (Inr flipped, m', s'') \<Rightarrow> finish_install env opts D None (changed \<or> flipped) (m', s'')))"
      unfolding install_into_def Let_def Inr q sum.case prod.case run by (cases r) simp_all
    show ?thesis
    proof (cases r)
      case (Inl err)
      then show ?thesis unfolding into using U(2) by simp
    next
      case r: (Inr changed)
      show ?thesis
      proof (cases ?track)
        case False
        then show ?thesis unfolding into r using finish_recoverable[OF U C] by simp
      next
        case True
        obtain r' m' s' where fl: "flip_hooks_path env D None (m, s) = (r', m', s')" by (metis prod_cases3)
        have F: "recoverable env D strategy s0 s'" "\<And>b. r' = Inr b \<Longrightarrow> undoable env D strategy s0 m' s'"
          using flip_undoable[OF U l C _ _ fl] True by blast+
        show ?thesis
          unfolding into r using True fl F(1) finish_recoverable[OF F(2) F(1) C] by (cases r') simp_all
      qed
    qed
  qed
qed


subsection \<open>Uninstall\<close>

text \<open>The environment of an uninstall whose reads and writes succeed.\<close>

definition healthy :: "hook_env \<Rightarrow> hook_env" where
  "healthy env = env\<lparr>he_ok := (\<lambda>_. True), he_readable := (\<lambda>_ _. True), he_within := (\<lambda>_ _. True)\<rparr>"

lemma healthy_resolve:
  "resolveStrategy (healthy env) opts = resolveStrategy env opts" "he_root (healthy env) = he_root env"
  "he_isGit (healthy env) = he_isGit env" "currentHooksPath (healthy env) s = currentHooksPath env s"
  "samePath (healthy env) a b = samePath env a b"
  by (simp_all add: healthy_def resolveStrategy_def gitCommonDir_def currentHooksPath_def samePath_def Let_def)

lemma restore_entry_undoes:
  assumes ok: "prior_ok (hr_files s0 D) e" and C: "clean_dirs D s0" and fk: "files_kept D s0 (e # es) s"
  shows "\<exists>s'. restore_entry (healthy env) D allowed e s = (None, s') \<and> files_kept D s0 es s'
     \<and> hr_local s' = hr_local s \<and> hr_manifest s' = hr_manifest s"
proof -
  let ?n = "ih_Kind e" and ?live = "mget (hr_files s D) (ih_Kind e)" and ?orig = "mget (hr_files s0 D) (ih_Kind e)"
  have n: "trim_space ?n = ?n" "?n \<noteq> []" using ok by (simp_all add: prior_ok_def clean_name_def)
  have reg: "hf_type f = RegularFile \<and> hf_mode f < 512" if "?orig = Some f" for f using C that by (simp add: clean_dirs_def)
  have live: "?live = ?orig \<or> (\<exists>f. ?live = Some f \<and> bytesHaveSentinel (hf_data f) \<and> hf_type f = RegularFile)"
    using fk by (auto simp: files_kept_def)
  then have read: "readFileIfExists (healthy env) D ?n s = Inr ?live"
    using reg by (cases ?orig) (auto simp: readFileIfExists_def healthy_def split: option.split)
  have step: "restore_entry (healthy env) D allowed e s =
      (if (case ?live of None \<Rightarrow> False | Some f \<Rightarrow> \<not> bytesHaveSentinel (hf_data f)) then (None, s)
       else if \<not> ih_PriorExisted e then removeHookFile (healthy env) D ?n s
       else writeHookFile (healthy env) D ?n (ih_PriorSnapshot e)
              (if ih_PriorMode e = [] then 493 else parse_mode (ih_PriorMode e)) s)"
    by (simp add: restore_entry_def liveHookPath_def n read) (simp add: ensureConfined_def healthy_def)
  have restored: "files_kept D s0 es s'" if "\<And>d. d \<noteq> D \<Longrightarrow> hr_files s' d = hr_files s d" "mget (hr_files s' D) ?n = ?orig"
      "\<And>x. x \<noteq> ?n \<Longrightarrow> mget (hr_files s' D) x = mget (hr_files s D) x" for s'
    unfolding files_kept_def
  proof (intro conjI allI impI)
    show "hr_files s' d = hr_files s0 d" if "d \<noteq> D" for d using that fk \<open>\<And>d. d \<noteq> D \<Longrightarrow> hr_files s' d = hr_files s d\<close> by (simp add: files_kept_def)
    fix x
    show "mget (hr_files s' D) x = mget (hr_files s0 D) x \<or> x \<in> ih_Kind ` set es
        \<and> (\<exists>f. mget (hr_files s' D) x = Some f \<and> bytesHaveSentinel (hf_data f) \<and> hf_type f = RegularFile)"
      using fk that(2) that(3)[of x] by (cases "x = ?n") (auto simp: files_kept_def)
  qed
  show ?thesis
  proof (cases "case ?live of None \<Rightarrow> False | Some f \<Rightarrow> \<not> bytesHaveSentinel (hf_data f)")
    case True
    then have "?live = ?orig" using live by (auto split: option.split_asm)
    then show ?thesis unfolding step using True restored[of s] by simp
  next
    case False
    show ?thesis
    proof (cases ?orig)
      case None
      then have "\<not> ih_PriorExisted e" using ok by (simp add: prior_ok_def)
      then show ?thesis unfolding step using False None
        by (auto simp: removeHookFile_def mutate_def healthy_def intro!: restored)
    next
      case (Some f)
      then have e: "ih_PriorExisted e" "ih_PriorSnapshot e = hf_data f" "ih_PriorMode e = fileModeString (hf_mode f)"
        using ok by (simp_all add: prior_ok_def)
      have f: "\<lparr>hf_data = hf_data f, hf_mode = hf_mode f, hf_type = RegularFile\<rparr> = f" using reg[OF Some] by simp
      have m: "parse_mode (fileModeString (hf_mode f)) = hf_mode f" using reg[OF Some] by (simp add: mode_roundtrip)
      show ?thesis unfolding step using False e Some
        by (auto simp: writeHookFile_def put_file_def mutate_def healthy_def fileModeString_valid m f intro!: restored)
    qed
  qed
qed


lemma restore_entries_undo:
  assumes "list_all (prior_ok (hr_files s0 D)) es" "clean_dirs D s0" "files_kept D s0 es s"
  shows "\<exists>s'. restore_entries (healthy env) D allowed es s = (None, s') \<and> files_kept D s0 [] s'
     \<and> hr_local s' = hr_local s \<and> hr_manifest s' = hr_manifest s"
  using assms
proof (induction es arbitrary: s)
  case Nil
  then show ?case by simp
next
  case (Cons e es)
  obtain s1 where s1: "restore_entry (healthy env) D allowed e s = (None, s1)" "files_kept D s0 es s1"
      "hr_local s1 = hr_local s" "hr_manifest s1 = hr_manifest s"
    using restore_entry_undoes[of s0 D e es s env allowed] Cons.prems by auto
  then show ?case using Cons.IH[of s1] Cons.prems by auto
qed

lemma restore_config_undoes:
  assumes c: "config_kept env D strategy s0 m s" and C: "clean_local s0" "clean_path D"
  shows "\<exists>s'. restore_config (healthy env) strategy m s = (None, s') \<and> hr_local s' = hr_local s0
     \<and> hr_files s' = hr_files s \<and> hr_manifest s' = hr_manifest s"
proof (cases "strategy = StrategyRepoHooks \<and> he_isGit env")
  case False
  then show ?thesis using c by (auto simp: restore_config_def config_kept_def healthy_resolve)
next
  case T: True
  let ?cur = "currentHooksPath env s" and ?orig = "currentHooksPath env s0"
  have prior: "hm_PriorHooksPath m = ?orig" "hm_PriorHooksPathSet m = (?orig \<noteq> [])"
    and l: "hr_local s = hr_local s0 \<or> hr_local s = Some D \<and> hm_HooksPath m = D"
    using c T by (simp_all add: config_kept_def)
  have orig: "hr_local s0 = (if ?orig = [] then None else Some ?orig)"
    using C(1) T by (cases "hr_local s0") (auto simp: clean_local_def clean_path_def currentHooksPath_def)
  show ?thesis
  proof (cases "hm_HooksPath m \<noteq> [] \<and> ?cur \<noteq> [] \<and> samePath env ?cur (hm_HooksPath m)")
    case True
    then have "?cur \<noteq> []" by simp
    then have some: "hr_local s \<noteq> None" by (cases "hr_local s") (simp_all add: currentHooksPath_def)
    show ?thesis
    proof (cases "?orig = []")
      case unset: True
      then have "hr_local s0 = None" using orig by simp
      then show ?thesis using True T prior unset some
        by (simp add: restore_config_def healthy_resolve Let_def unsetLocalHooksPath_def mutate_def) (simp add: healthy_def)
    next
      case False
      then have "hr_local s0 = Some ?orig" using orig by simp
      then show ?thesis using True T prior False
        by (simp add: restore_config_def healthy_resolve Let_def setLocalHooksPath_def mutate_def) (simp add: healthy_def)
    qed
  next
    case False
    have "\<not> (hr_local s = Some D \<and> hm_HooksPath m = D)"
    proof
      assume "hr_local s = Some D \<and> hm_HooksPath m = D"
      then have "?cur = D" "hm_HooksPath m = D" using T C(2) by (simp_all add: currentHooksPath_def clean_path_def)
      then show False using False C(2) by (simp add: samePath_def clean_path_def)
    qed
    then have "hr_local s = hr_local s0" using l by blast
    then show ?thesis using False T by (auto simp: restore_config_def healthy_resolve Let_def)
  qed
qed

lemma uninstall_undoes:
  assumes R: "recoverable env D strategy s0 s" and no: "hr_manifest s0 (state_dir D) = None"
    and C: "clean_dirs D s0" "clean_local s0" "clean_path D"
    and rs: "resolveStrategy env opts = Inr (strategy, gitCommon)" "resolveHooksDir (he_root env) strategy gitCommon = Inr D"
  shows "\<exists>s'. Uninstall (healthy env) opts s = (None, s') \<and> same_repo s0 s'"
  using R unfolding recoverable_def
proof
  assume same: "same_repo s0 s"
  then have "Uninstall (healthy env) opts s = (None, s)"
    using no rs by (simp add: Uninstall_def healthy_resolve loadManifest_def same_repo_def)
  then show ?thesis using same by blast
next
  assume "\<exists>dm. hr_manifest s (state_dir D) = Some (StoredManifest dm) \<and> undoable env D strategy s0 dm s"
  then obtain dm where dm: "hr_manifest s (state_dir D) = Some (StoredManifest dm)" "undoable env D strategy s0 dm s" by blast
  let ?a = "allowedRootFor strategy (he_root env) gitCommon"
  obtain s1 where s1: "restore_entries (healthy env) D ?a (hm_Installed dm) s = (None, s1)" "files_kept D s0 [] s1"
      "hr_local s1 = hr_local s" "hr_manifest s1 = hr_manifest s"
    using restore_entries_undo[of s0 D "hm_Installed dm" s env ?a] dm(2) C(1) by (auto simp: undoable_def)
  have "config_kept env D strategy s0 dm s1" using dm(2) s1(3) by (simp add: undoable_def config_kept_def)
  from restore_config_undoes[OF this C(2,3)] obtain s2 where s2: "restore_config (healthy env) strategy dm s1 = (None, s2)"
      "hr_local s2 = hr_local s0" "hr_files s2 = hr_files s1" "hr_manifest s2 = hr_manifest s1" by blast
  let ?s3 = "s2\<lparr>hr_ops := hr_ops s2 + 1, hr_manifest := (hr_manifest s2)(state_dir D := None)\<rparr>"
  have "removeManifest (healthy env) (state_dir D) s2 = (None, ?s3)" by (simp add: removeManifest_def mutate_def healthy_def)
  then have un: "Uninstall (healthy env) opts s = (None, ?s3)"
    using rs dm(1) s1(1) s2(1) by (simp add: Uninstall_def uninstall_from_def healthy_resolve loadManifest_def)
  have "(hr_manifest s2)(state_dir D := None) = hr_manifest s0"
    using dm(2) no s1(4) s2(4) by (auto simp: undoable_def fun_eq_iff)
  moreover have "mget (hr_files s2 d) n = mget (hr_files s0 d) n" for d n
    using s1(2) s2(3) by (cases "d = D") (simp_all add: files_kept_def)
  ultimately have "same_repo s0 ?s3" using s2(2) by (simp add: same_repo_def)
  then show ?thesis using un by blast
qed


section \<open>Files of others\<close>

text \<open>A step that leaves a file without the sentinel as it is.\<close>

definition spares :: "string \<Rightarrow> string \<Rightarrow> hook_file \<Rightarrow> hook_repo \<Rightarrow> hook_repo \<Rightarrow> bool" where
  "spares d n f s s' \<longleftrightarrow> (mget (hr_files s d) n = Some f \<and> \<not> bytesHaveSentinel (hf_data f) \<longrightarrow> mget (hr_files s' d) n = Some f)"

lemma spares_refl [simp]: "spares d n f s s"
  by (simp add: spares_def)

lemma spares_trans: "spares d n f s s' \<Longrightarrow> spares d n f s' s'' \<Longrightarrow> spares d n f s s''"
  by (simp add: spares_def)

lemma spares_files: "hr_files s' = hr_files s \<Longrightarrow> spares d n f s s'"
  by (simp add: spares_def)

lemma no_file_change:
  "writeManifest env sd m s = (err, s') \<Longrightarrow> hr_files s' = hr_files s"
  "removeManifest env sd s = (err, s') \<Longrightarrow> hr_files s' = hr_files s"
  "setLocalHooksPath env v s = (err, s') \<Longrightarrow> hr_files s' = hr_files s"
  "unsetLocalHooksPath env s = (err, s') \<Longrightarrow> hr_files s' = hr_files s"
  by (auto simp: writeManifest_def removeManifest_def setLocalHooksPath_def unsetLocalHooksPath_def mutate_def Let_def split: if_split_asm)

lemma spares_guarded:
  assumes "readFileIfExists env d' n' s = Inr live" "case live of None \<Rightarrow> True | Some g \<Rightarrow> bytesHaveSentinel (hf_data g)"
    and "hr_files s1 = hr_files s"
  shows "writeHookFile env d' n' c mo s1 = (err, s') \<Longrightarrow> spares d n f s s'" "removeHookFile env d' n' s1 = (err, s') \<Longrightarrow> spares d n f s s'"
proof -
  have live: "live = mget (hr_files s d') n'"
    using assms(1) by (auto simp: readFileIfExists_def split: if_split_asm option.split_asm)
  have other: "(d, n) \<noteq> (d', n')" if "mget (hr_files s d) n = Some f" "\<not> bytesHaveSentinel (hf_data f)"
    using assms(2) that unfolding live by auto
  show "writeHookFile env d' n' c mo s1 = (err, s') \<Longrightarrow> spares d n f s s'"
    using writeHookFile_cases[of env d' n' c mo s1 err s'] other assms(3) by (auto simp: spares_def put_file_def)
  show "removeHookFile env d' n' s1 = (err, s') \<Longrightarrow> spares d n f s s'"
    using other assms(3) by (auto simp: spares_def removeHookFile_def mutate_def Let_def split: if_split_asm)
qed

lemma restore_entry_spares: "restore_entry env D allowed e s = (err, s') \<Longrightarrow> spares d n f s s'"
proof (cases "liveHookPath D e")
  case (Some dn)
  assume run: "restore_entry env D allowed e s = (err, s')"
  obtain dir name where dn: "dn = (dir, name)" by (cases dn)
  show ?thesis
  proof (cases "s' = s")
    case False
    then obtain live where live: "readFileIfExists env dir name s = Inr live"
      using run Some dn by (auto simp: restore_entry_def split: if_split_asm sum.split_asm)
    then have guard: "case live of None \<Rightarrow> True | Some g \<Rightarrow> bytesHaveSentinel (hf_data g)"
      using run Some dn False by (auto simp: restore_entry_def split: if_split_asm option.split_asm)
    have "removeHookFile env dir name s = (err, s') \<or> (\<exists>c mo. writeHookFile env dir name c mo s = (err, s'))"
      using run Some dn False live by (auto simp: restore_entry_def split: if_split_asm)
    then show ?thesis using spares_guarded[OF live guard refl] by blast
  qed simp
qed (simp add: restore_entry_def)

lemma restore_entries_spare: "restore_entries env D allowed es s = (err, s') \<Longrightarrow> spares d n f s s'"
proof (induction es arbitrary: s)
  case (Cons e es)
  obtain err1 s1 where one: "restore_entry env D allowed e s = (err1, s1)" by (cases "restore_entry env D allowed e s")
  note a = restore_entry_spares[OF one]
  show ?case
  proof (cases err1)
    case None
    then have "restore_entries env D allowed es s1 = (err, s')" using Cons.prems one by simp
    from spares_trans[OF a Cons.IH[OF this]] show ?thesis .
  next
    case (Some x)
    then show ?thesis using Cons.prems one a by simp
  qed
qed simp

lemma restore_config_files: "restore_config env strategy m s = (err, s') \<Longrightarrow> hr_files s' = hr_files s"
  using no_file_change by (auto simp: restore_config_def Let_def split: if_split_asm)

lemma Uninstall_spares: "spares d n f s (snd (Uninstall env opts s))"
proof -
  have entries: "spares d n f s (snd (uninstall_from env strategy D allowed m s))" for strategy D allowed m
  proof -
    obtain err1 s1 where one: "restore_entries env D allowed (hm_Installed m) s = (err1, s1)"
      by (cases "restore_entries env D allowed (hm_Installed m) s")
    note a = restore_entries_spare[OF one]
    obtain err2 s2 where two: "restore_config env strategy m s1 = (err2, s2)" by (cases "restore_config env strategy m s1")
    obtain err3 s3 where three: "removeManifest env (state_dir D) s2 = (err3, s3)" by (cases "removeManifest env (state_dir D) s2")
    have f: "hr_files s2 = hr_files s1" "hr_files s3 = hr_files s1"
      using restore_config_files[OF two] no_file_change(2)[OF three] by simp_all
    have "snd (uninstall_from env strategy D allowed m s) \<in> {s1, s2, s3}"
      using one two three by (simp add: uninstall_from_def split: option.split)
    then show ?thesis using a f by (auto intro: spares_trans[OF a] spares_files)
  qed
  show ?thesis unfolding Uninstall_def by (auto intro: entries split: sum.split option.split)
qed


text \<open>In the shared hooks directory of a repository, a script replaces no file of others.\<close>

lemma preWrite_files: "preWrite env sd prev e (m, s) = (err, m', s') \<Longrightarrow> hr_files s' = hr_files s"
  using no_file_change(1) by (auto simp: preWrite_def checkpoint_def Let_def split: prod.split_asm)

lemma installScript_spares:
  assumes run: "installScript env D k content prev StrategyGitCommon (preWrite env sd prev') (m, s) = (r, m', s')"
  shows "spares d n f s s'"
proof (cases "readFileIfExists env D k s")
  case (Inl err)
  then show ?thesis using run by (simp add: installScript_def)
next
  case (Inr live)
  let ?pe = "prior_entry env StrategyGitCommon (fresh_entry env D k content) (path_join D k) prev live"
  show ?thesis
  proof (cases ?pe)
    case (Inl err)
    then show ?thesis using run Inr by (simp add: installScript_def)
  next
    case pe: (Inr eu)
    obtain e u where eu: "eu = (e, u)" by (cases eu)
    have guard: "case live of None \<Rightarrow> True | Some g \<Rightarrow> bytesHaveSentinel (hf_data g)"
      using pe by (auto simp: prior_entry_def split: option.split_asm if_split_asm)
    show ?thesis
    proof (cases "u \<or> \<not> ensureConfined env (path_join D k) (path_dir D)")
      case True
      then show ?thesis using run Inr pe eu by (auto simp: installScript_def split: if_split_asm)
    next
      case False
      obtain err1 m1 s1 where pw: "preWrite env sd prev' e (m, s) = (err1, m1, s1)" by (metis prod_cases3)
      note fs = preWrite_files[OF pw]
      obtain err2 s2 where wf: "writeHookFile env D k content 493 s1 = (err2, s2)" by (cases "writeHookFile env D k content 493 s1")
      have "s' = s1 \<or> s' = s2" using run Inr pe eu False pw wf by (auto simp: installScript_def split: option.split_asm)
      then show ?thesis using spares_files[OF fs] spares_guarded(1)[OF Inr guard fs wf] by blast
    qed
  qed
qed

lemma install_all_spares:
  assumes "\<And>st m s r m' s'. st \<in> set fs \<Longrightarrow> st (m, s) = (r, m', s') \<Longrightarrow> spares d n f s s'"
    and "install_all fs (m, s) = (r, m', s')"
  shows "spares d n f s s'"
  using assms
proof (induction fs arbitrary: m s r)
  case (Cons st fs)
  obtain r1 m1 s1 where one: "st (m, s) = (r1, m1, s1)" by (metis prod_cases3)
  have a: "spares d n f s s1" by (rule Cons.prems(1)[of st m s r1 m1 s1]) (simp_all add: one)
  show ?case
  proof (cases r1)
    case (Inl x)
    then show ?thesis using Cons.prems(2) one a by simp
  next
    case (Inr ew)
    obtain m2 r2 where "install_all fs (m2, s1) = (r2, m', s')"
      using Cons.prems(2) one Inr by (cases ew) (auto simp: Let_def split: prod.split_asm sum.split_asm)
    then have "spares d n f s1 s'" using Cons.IH[of m2 s1 r2] Cons.prems(1) by (meson list.set_intros(2))
    then show ?thesis by (rule spares_trans[OF a])
  qed
qed simp

lemma script_steps_spare:
  "st \<in> set (script_steps env opts StrategyGitCommon D prev kinds priorDir active) \<Longrightarrow> st (m, s) = (r, m', s') \<Longrightarrow> spares d n f s s'"
  by (auto simp: script_steps_def installOne_def intro: installScript_spares)

lemma install_into_spares: "spares d n f s (snd (install_into env opts StrategyGitCommon D kinds prev s))"
proof -
  let ?steps = "script_steps env opts StrategyGitCommon D prev kinds [] []" and ?m = "new_manifest env StrategyGitCommon D"
  have g: "StrategyGitCommon \<noteq> StrategyRepoHooks" by (simp add: StrategyGitCommon_def StrategyRepoHooks_def)
  obtain r m s1 where run: "install_all ?steps (?m, s) = (r, m, s1)" by (metis prod_cases3)
  have a: "spares d n f s s1" using install_all_spares[OF _ run] script_steps_spare by blast
  have fin: "hr_files (snd (finish_install env opts D prev c (m, s1))) = hr_files s1" for c
    using no_file_change(1) by (auto simp: finish_install_def Let_def split: prod.split option.split)
  have into: "install_into env opts StrategyGitCommon D kinds prev s =
      (case r of Inl err \<Rightarrow> (Inl err, s1) | Inr changed \<Rightarrow> finish_install env opts D prev changed (m, s1))"
    using run by (simp add: install_into_def g Let_def split: sum.split)
  show ?thesis
  proof (cases r)
    case (Inl x)
    then show ?thesis unfolding into using a by simp
  next
    case (Inr c)
    then show ?thesis unfolding into using spares_trans[OF a spares_files[OF fin]] by simp
  qed
qed

lemma Install_spares:
  assumes "op_Strategy opts = StrategyGitCommon"
  shows "spares d n f s (snd (Install env opts s))"
proof -
  have "strategy = StrategyGitCommon" if "resolveStrategy env opts = Inr (strategy, gc)" for strategy gc
    using that assms
    by (auto simp: resolveStrategy_def StrategyGitCommon_def StrategyRepoHooks_def Let_def split: if_split_asm sum.split_asm)
  then show ?thesis unfolding Install_def by (auto simp: install_into_spares split: sum.split)
qed


section \<open>Limits of the rollback record\<close>

text \<open>The checkpoint before a script carries the setting of the manifest being built, which is empty until
  core.hooksPath is set; an uninstall from such a manifest leaves core.hooksPath as it is, also when an
  earlier install had set it.\<close>

lemma checkpoint_forgets_hooks_path:
  assumes "hm_HooksPath m = []" "preWrite env sd prev e (m, s) = (None, m', s')"
  shows "\<exists>dm. hr_manifest s' sd = Some (StoredManifest dm) \<and> (\<forall>env' strategy u. restore_config env' strategy dm u = (None, u))"
proof -
  have "hm_HooksPath (carryForward prev (m\<lparr>hm_Installed := hm_Installed m @ [e]\<rparr>)) = []"
    using assms(1) by (simp add: carryForward_def split: option.split)
  moreover have "hr_manifest s' sd = Some (StoredManifest (json_manifest (carryForward prev (m\<lparr>hm_Installed := hm_Installed m @ [e]\<rparr>))))"
    using assms(2) by (auto simp: preWrite_def checkpoint_def writeManifest_def mutate_def Let_def split: if_split_asm)
  ultimately show ?thesis by (intro exI conjI) (auto simp: json_manifest_def restore_config_def)
qed

lemma new_manifest_hooks_path: "hm_HooksPath (new_manifest env strategy D) = []"
  by (simp add: new_manifest_def)

text \<open>A first install of two kinds records them by name, a second one in the order of AllHooks.\<close>

lemma subset_order_differs:
  fixes e :: InstalledHook
  shows "selectedKinds \<lparr>op_Strategy = [], op_Hooks = [HookPostCommit, HookPostCheckout], op_AllowUnsafeGitCommon = False, op_CLIExecutable = []\<rparr>
     = Inr [HookPostCheckout, HookPostCommit]"
    "map ih_Kind (sortInstalled [e\<lparr>ih_Kind := HookPostCheckout\<rparr>, e\<lparr>ih_Kind := HookPostCommit\<rparr>]) = [HookPostCommit, HookPostCheckout]"
proof -
  show "selectedKinds \<lparr>op_Strategy = [], op_Hooks = [HookPostCommit, HookPostCheckout], op_AllowUnsafeGitCommon = False, op_CLIExecutable = []\<rparr>
     = Inr [HookPostCheckout, HookPostCommit]" by code_simp
  have "kind_order HookPostCheckout = 1" "kind_order HookPostCommit = 0" by code_simp+
  moreover have "kind_name HookPostCheckout = []" "kind_name HookPostCommit = []" by code_simp+
  ultimately show "map ih_Kind (sortInstalled [e\<lparr>ih_Kind := HookPostCheckout\<rparr>, e\<lparr>ih_Kind := HookPostCommit\<rparr>])
      = [HookPostCommit, HookPostCheckout]"
    by (simp add: sortInstalled_def)
qed

text \<open>A prior file that is not UTF-8 is not what its snapshot in the manifest holds.\<close>

lemma snapshot_not_verbatim: "json_text [CHR 0xFF] = [CHR 0xEF, CHR 0xBF, CHR 0xBD]"
proof -
  have "runes_of [CHR 0xFF] = [(rune_error, [CHR 0xFF])]"
    by (simp add: rune_width_def first_rune_def byte_def)
  then show ?thesis by (simp add: json_text_def byte_def)
qed


section \<open>Properties\<close>

definition sample_hook_env :: hook_env where
  "sample_hook_env = \<lparr>he_root = ''/r'', he_isGit = True, he_gitCommon = Inr ''/r/.git'', he_inherited = [], he_real = id,
     he_within = (\<lambda>_ _. True), he_readable = (\<lambda>_ _. True), he_listable = (\<lambda>_. True), he_ok = (\<lambda>k. k \<noteq> 5), he_now = ''now'', he_sha = id\<rparr>"

definition sample_hook_options :: hook_options where
  "sample_hook_options = \<lparr>op_Strategy = StrategyRepoHooks, op_Hooks = [], op_AllowUnsafeGitCommon = False, op_CLIExecutable = []\<rparr>"

definition sample_hook_repo :: hook_repo where
  "sample_hook_repo = \<lparr>hr_files = (\<lambda>_. [])(''/r/.sentra/hooks'' := [(''pre-push'', \<lparr>hf_data = ''exit 0'', hf_mode = 493, hf_type = RegularFile\<rparr>)]),
     hr_manifest = (\<lambda>_. None), hr_local = None, hr_ops = 0\<rparr>"

lemma sample_hook_facts:
  "resolveStrategy sample_hook_env sample_hook_options = Inr (StrategyRepoHooks, [])"
  "resolveHooksDir (he_root sample_hook_env) StrategyRepoHooks [] = Inr ''/r/.sentra/hooks''"
  "clean_dirs ''/r/.sentra/hooks'' sample_hook_repo" "clean_local sample_hook_repo" "clean_path ''/r/.sentra/hooks''"
proof -
  show "resolveStrategy sample_hook_env sample_hook_options = Inr (StrategyRepoHooks, [])"
    by (simp add: resolveStrategy_def sample_hook_options_def StrategyRepoHooks_def)
  show "resolveHooksDir (he_root sample_hook_env) StrategyRepoHooks [] = Inr ''/r/.sentra/hooks''" by code_simp
  have "clean_name ''pre-push''" by (rule clean_ascii) (simp_all add: graphic_def byte_def)
  moreover have "valid_utf8 ''exit 0''" by (rule valid_utf8_ascii) (simp add: byte_def)
  ultimately show "clean_dirs ''/r/.sentra/hooks'' sample_hook_repo"
    by (auto simp: clean_dirs_def sample_hook_repo_def wf_map_def split: if_split_asm)
  show "clean_local sample_hook_repo" by (simp add: clean_local_def sample_hook_repo_def)
  show "clean_path ''/r/.sentra/hooks''" by (rule clean_ascii) (simp_all add: graphic_def byte_def)
qed

text \<open>C5. A first install can stop at any of its reads and writes, or finish: an uninstall whose own reads
  and writes succeed then returns without an error, and every file of every directory (contents, mode and
  presence), the local core.hooksPath and the manifests are what they were before the install. The
  repository has no manifest yet, and its hook files and its core.hooksPath are UTF-8 text without
  surrounding white space.\<close>

theorem hooks_uninstall_restores:
  assumes "resolveStrategy env opts = Inr (strategy, gitCommon)" "resolveHooksDir (he_root env) strategy gitCommon = Inr hooksDir"
    and "hr_manifest s (state_dir hooksDir) = None" "clean_dirs hooksDir s" "clean_local s" "clean_path hooksDir"
    and "Install env opts s = (r, s')"
  shows "\<exists>s''. Uninstall (healthy env) opts s' = (None, s'') \<and> same_repo s s''"
proof -
  have "recoverable env hooksDir strategy s s'"
  proof (cases "s' = s")
    case True
    then show ?thesis by (simp add: recoverable_def same_repo_def)
  next
    case False
    then obtain kinds where kinds: "selectedKinds opts = Inr kinds" "s' = snd (install_into env opts strategy hooksDir kinds None s)"
      using assms(1-3,7) by (auto simp: Install_def loadManifest_def split: sum.split_asm if_split_asm)
    show ?thesis unfolding kinds(2)
      by (rule install_into_recoverable[OF assms(3-6) selectedKinds_clean[OF kinds(1)]])
  qed
  then show ?thesis by (rule uninstall_undoes[OF _ assms(3-6) assms(1,2)])
qed

theorem hooks_uninstall_restores_witness:
  "\<exists>s''. Uninstall (healthy sample_hook_env) sample_hook_options (snd (Install sample_hook_env sample_hook_options sample_hook_repo)) = (None, s'')
     \<and> same_repo sample_hook_repo s''"
  by (rule hooks_uninstall_restores[OF sample_hook_facts(1,2) _ sample_hook_facts(3-5) prod.collapse[symmetric]])
    (simp add: sample_hook_repo_def)

text \<open>C30. A hook file without the sentinel line belongs to someone else: an uninstall leaves it as it is,
  whatever the manifest says and whichever reads and writes fail, and so does an install into the hooks
  directory that all worktrees of the repository share.\<close>

theorem foreign_hooks_untouched:
  assumes "mget (hr_files s dir) name = Some f" "\<not> bytesHaveSentinel (hf_data f)"
  shows "mget (hr_files (snd (Uninstall env opts s)) dir) name = Some f
    \<and> (op_Strategy opts = StrategyGitCommon \<longrightarrow> mget (hr_files (snd (Install env opts s)) dir) name = Some f)"
  using assms Uninstall_spares[of dir name f s env opts] Install_spares[of opts dir name f s env] by (simp add: spares_def)

theorem foreign_hooks_untouched_witness:
  "mget (hr_files (snd (Uninstall sample_hook_env (sample_hook_options\<lparr>op_Strategy := StrategyGitCommon\<rparr>) sample_hook_repo)) ''/r/.sentra/hooks'') ''pre-push''
     = Some \<lparr>hf_data = ''exit 0'', hf_mode = 493, hf_type = RegularFile\<rparr>
   \<and> mget (hr_files (snd (Install sample_hook_env (sample_hook_options\<lparr>op_Strategy := StrategyGitCommon\<rparr>) sample_hook_repo)) ''/r/.sentra/hooks'') ''pre-push''
     = Some \<lparr>hf_data = ''exit 0'', hf_mode = 493, hf_type = RegularFile\<rparr>"
proof -
  have "mget (hr_files sample_hook_repo ''/r/.sentra/hooks'') ''pre-push'' = Some \<lparr>hf_data = ''exit 0'', hf_mode = 493, hf_type = RegularFile\<rparr>"
    by (simp add: sample_hook_repo_def)
  moreover have "\<not> bytesHaveSentinel (hf_data \<lparr>hf_data = ''exit 0'', hf_mode = 493, hf_type = RegularFile\<rparr>)" by code_simp
  ultimately show ?thesis
    using foreign_hooks_untouched[of sample_hook_repo "''/r/.sentra/hooks''" "''pre-push''" _ sample_hook_env
      "sample_hook_options\<lparr>op_Strategy := StrategyGitCommon\<rparr>"] by simp
qed

end
