(* ===== verification/Delegated_Gate.thy ===== *)
theory Delegated_Gate
  imports Contracts
begin

text \<open>
  Delegated permission for sources whose access rules the connector cannot see
  (\<^verbatim>\<open>services/brain/internal/connector/delegated.go\<close> and \<^verbatim>\<open>delegated_ports.go\<close>): the
  single-use grant store, the gate with its cache of verdicts, and the chain of audit
  receipts.

  The provider, the audit sink, the promotion gate, the issuer port, SHA-256, letter
  case and the clock are arguments; a store call that is cancelled is one whose flag is
  false.  A gated query holds no lock while it probes, so \<^verbatim>\<open>authorize\<close> is its section
  before the probes and its section after them, and the grant store may change between
  the two.  The second section starts with the second read of the store; what happens to
  the store after that read is a later step.  The timeouts only bound the time of an outside call.
\<close>

section \<open>Data\<close>

definition zeroTime :: go_time where
  "zeroTime = -62135596800000000000"

text \<open>\<^verbatim>\<open>time.Time.Sub\<close> saturates.\<close>

definition time_sub :: "go_time \<Rightarrow> go_time \<Rightarrow> int" where
  "time_sub a b = max (- (2 ^ 63)) (min (2 ^ 63 - 1) (a - b))"

record text_env =
  tx_sha :: "string \<Rightarrow> string"
  tx_lower :: "string \<Rightarrow> string"
  tx_equalFold :: "string \<Rightarrow> string \<Rightarrow> bool"

record cIdentity =
  ci_Tenant :: string
  ci_Principal :: string
  ci_Session :: string

datatype connector_error =
    CInvalidInput | CNotFoundOrDenied | CIdempotencyConflict | CGrantConflict
  | CPromotionEvidenceGateRequired | CIssuerAuthenticationRequired | CCancelled | CSource

record DelegatedGrant =
  dg_ID :: string
  dg_Tenant :: string
  dg_Principal :: string
  dg_SourceScope :: string
  dg_IssuedAt :: go_time
  dg_ExpiresAt :: go_time

record DelegatedGrantRecord =
  gq_Grant :: DelegatedGrant
  gq_Epoch :: "64 word"
  gq_Active :: bool
  gq_Revoked :: bool

record cObject =
  ob_ID :: string
  ob_Kind :: string
  ob_Title :: string
  ob_Body :: string
  ob_Path :: string
  ob_IssueNumber :: int
  ob_StartLine :: int
  ob_EndLine :: int
  ob_Version :: string
  ob_Deleted :: bool

record DelegatedSourceFreshness =
  fr_ConnectorDigest :: string
  fr_SourceRevision :: string
  fr_SourceCursor :: string
  fr_ObservedAt :: go_time

record DelegatedReceipt =
  re_Sequence :: "64 word"
  re_AtUnixNano :: int
  re_TenantDigest :: string
  re_PrincipalDigest :: string
  re_SourceScopeDigest :: string
  re_ConnectorDigest :: string
  re_SourceRevisionDigest :: string
  re_SourceCursorDigest :: string
  re_SourceObservedAtUnixNano :: int
  re_GrantDigest :: string
  re_Outcome :: string
  re_RequestedObjects :: nat
  re_AllowedObjects :: nat
  re_ProbeCalls :: nat
  re_ContentCalls :: nat
  re_CacheHits :: nat
  re_DeniedReasons :: "(string, nat) gomap"
  re_PrevDigest :: string
  re_Digest :: string

record delegatedVerdict =
  ve_allowed :: bool
  ve_expires :: go_time

definition maxDelegatedGrants :: int where "maxDelegatedGrants = 4096"
definition maxDelegatedReceipts :: nat where "maxDelegatedReceipts = 512"
definition maxDelegatedFieldLength :: nat where "maxDelegatedFieldLength = 128"

definition second :: int where "second = 1000000000"


section \<open>Checks\<close>

definition validIdentity :: "cIdentity \<Rightarrow> bool" where
  "validIdentity i \<longleftrightarrow> ci_Tenant i \<noteq> [] \<and> ci_Principal i \<noteq> [] \<and> ci_Session i \<noteq> []"

definition validDelegatedField :: "string \<Rightarrow> bool" where
  "validDelegatedField v \<longleftrightarrow> trim_space v \<noteq> [] \<and> trim_space v = v \<and> length v \<le> maxDelegatedFieldLength
     \<and> \<not> str_contains v ''*'' \<and> \<not> str_contains v [NUL]"

definition validDelegatedCursor :: "string \<Rightarrow> bool" where
  "validDelegatedCursor v \<longleftrightarrow> trim_space v \<noteq> [] \<and> trim_space v = v \<and> length v \<le> 512 \<and> \<not> str_contains v [NUL]"

definition isLowerHexSHA256 :: "string \<Rightarrow> bool" where
  "isLowerHexSHA256 v \<longleftrightarrow> length v = 64
     \<and> list_all (\<lambda>(c, _). \<not> ((c < 48 \<or> 57 < c) \<and> (c < 97 \<or> 102 < c))) (runes_of v)"

definition objectMatchesQuery :: "text_env \<Rightarrow> cObject \<Rightarrow> string \<Rightarrow> bool" where
  "objectMatchesQuery tx obj query \<longleftrightarrow> \<not> ob_Deleted obj
     \<and> str_contains (tx_lower tx (ob_Title obj @ '' '' @ ob_Body obj @ '' '' @ ob_Path obj)) query"


section \<open>The grant store\<close>

record MemoryDelegatedGrantStore =
  gs_records :: "(string, DelegatedGrantRecord) gomap"
  gs_max :: int

definition NewMemoryDelegatedGrantStore :: "int \<Rightarrow> MemoryDelegatedGrantStore" where
  "NewMemoryDelegatedGrantStore maxRecords =
    \<lparr>gs_records = [], gs_max = (if maxRecords \<le> 0 \<or> maxRecords > maxDelegatedGrants then maxDelegatedGrants else maxRecords)\<rparr>"

definition store_Prepare :: "bool \<Rightarrow> DelegatedGrantRecord \<Rightarrow> MemoryDelegatedGrantStore \<Rightarrow> connector_error option \<times> MemoryDelegatedGrantStore" where
  "store_Prepare live r st =
    (if \<not> live then (Some CInvalidInput, st)
     else if mget (gs_records st) (dg_ID (gq_Grant r)) \<noteq> None then (Some CGrantConflict, st)
     else if int (length (gs_records st)) \<ge> gs_max st then (Some CInvalidInput, st)
     else (None, st\<lparr>gs_records := mput (dg_ID (gq_Grant r)) (r\<lparr>gq_Active := False, gq_Revoked := False\<rparr>) (gs_records st)\<rparr>))"

definition store_Activate :: "bool \<Rightarrow> string \<Rightarrow> MemoryDelegatedGrantStore \<Rightarrow> (connector_error + DelegatedGrantRecord) \<times> MemoryDelegatedGrantStore" where
  "store_Activate live i st =
    (if \<not> live \<or> i = [] then (Inl CInvalidInput, st)
     else (case mget (gs_records st) i of
             None \<Rightarrow> (Inl CNotFoundOrDenied, st)
           | Some r \<Rightarrow>
               if gq_Revoked r then (Inl CNotFoundOrDenied, st)
               else (let r' = r\<lparr>gq_Active := True\<rparr> in (Inr r', st\<lparr>gs_records := mput i r' (gs_records st)\<rparr>))))"

definition store_Abort :: "bool \<Rightarrow> string \<Rightarrow> MemoryDelegatedGrantStore \<Rightarrow> connector_error option \<times> MemoryDelegatedGrantStore" where
  "store_Abort live i st =
    (if \<not> live \<or> i = [] then (Some CInvalidInput, st)
     else (case mget (gs_records st) i of
             None \<Rightarrow> (Some CNotFoundOrDenied, st)
           | Some r \<Rightarrow>
               if gq_Active r then (Some CNotFoundOrDenied, st)
               else (None, st\<lparr>gs_records := mput i (r\<lparr>gq_Revoked := True, gq_Epoch := gq_Epoch r + 1\<rparr>) (gs_records st)\<rparr>)))"

definition store_Get :: "bool \<Rightarrow> string \<Rightarrow> MemoryDelegatedGrantStore \<Rightarrow> connector_error + DelegatedGrantRecord option" where
  "store_Get live i st = (if \<not> live then Inl CInvalidInput else Inr (mget (gs_records st) i))"

definition store_Revoke :: "bool \<Rightarrow> cIdentity \<Rightarrow> string \<Rightarrow> MemoryDelegatedGrantStore
    \<Rightarrow> (connector_error + DelegatedGrantRecord) \<times> MemoryDelegatedGrantStore" where
  "store_Revoke live ident i st =
    (if \<not> live then (Inl CInvalidInput, st)
     else (case mget (gs_records st) i of
             None \<Rightarrow> (Inl CNotFoundOrDenied, st)
           | Some r \<Rightarrow>
               if dg_Tenant (gq_Grant r) \<noteq> ci_Tenant ident \<or> dg_Principal (gq_Grant r) \<noteq> ci_Principal ident
               then (Inl CNotFoundOrDenied, st)
               else if gq_Revoked r then (Inr r, st)
               else (let r' = r\<lparr>gq_Active := False, gq_Revoked := True, gq_Epoch := gq_Epoch r + 1\<rparr>
                     in (Inr r', st\<lparr>gs_records := mput i r' (gs_records st)\<rparr>))))"


section \<open>The gate\<close>

record gate_config =
  gc_OpaqueScopes :: "string list"
  gc_MaxProbesPerQuery :: int
  gc_ProbeTimeout :: int
  gc_VerdictTTL :: int
  gc_MaxCachedVerdicts :: int
  gc_MaxGrantTTL :: int
  gc_AuditTimeout :: int
  gc_StoreTimeout :: int

record DelegatedGate =
  ga_cfg :: gate_config
  ga_store :: MemoryDelegatedGrantStore
  ga_verdicts :: "(string, delegatedVerdict) gomap"
  ga_verdictOrder :: "string list"
  ga_receipts :: "DelegatedReceipt list"
  ga_sequence :: "64 word"
  ga_lastDigest :: string

text \<open>A default for an unset value, then a ceiling.\<close>

definition bounded :: "int \<Rightarrow> int \<Rightarrow> int \<Rightarrow> int" where
  "bounded preset most v = (let v' = (if v \<le> 0 then preset else v) in if v' > most then most else v')"

definition NewDelegatedGate :: "text_env \<Rightarrow> bool \<Rightarrow> bool \<Rightarrow> bool \<Rightarrow> gate_config \<Rightarrow> connector_error + DelegatedGate" where
  "NewDelegatedGate tx provider issuer promotion cfg =
    (if \<not> provider \<or> gc_OpaqueScopes cfg = [] then Inl CInvalidInput
     else if \<not> issuer then Inl CIssuerAuthenticationRequired
     else if \<not> promotion then Inl CPromotionEvidenceGateRequired
     else if \<not> list_all validDelegatedField (gc_OpaqueScopes cfg) then Inl CInvalidInput
     else Inr \<lparr>ga_cfg = \<lparr>gc_OpaqueScopes = map (tx_lower tx) (gc_OpaqueScopes cfg),
                        gc_MaxProbesPerQuery = bounded 8 64 (gc_MaxProbesPerQuery cfg),
                        gc_ProbeTimeout = bounded (2 * second) (10 * second) (gc_ProbeTimeout cfg),
                        gc_VerdictTTL = bounded (300 * second) (3600 * second) (gc_VerdictTTL cfg),
                        gc_MaxCachedVerdicts = bounded 1024 65536 (gc_MaxCachedVerdicts cfg),
                        gc_MaxGrantTTL = (if gc_MaxGrantTTL cfg \<le> 0 then 86400 * second else gc_MaxGrantTTL cfg),
                        gc_AuditTimeout = (if gc_AuditTimeout cfg \<le> 0 \<or> gc_AuditTimeout cfg > 2 * second then 2 * second
                                           else gc_AuditTimeout cfg),
                        gc_StoreTimeout = bounded (2 * second) (10 * second) (gc_StoreTimeout cfg)\<rparr>,
               ga_store = NewMemoryDelegatedGrantStore maxDelegatedGrants, ga_verdicts = [], ga_verdictOrder = [],
               ga_receipts = [], ga_sequence = 0, ga_lastDigest = []\<rparr>)"

definition OpaqueScope :: "text_env \<Rightarrow> DelegatedGate \<Rightarrow> string \<Rightarrow> bool" where
  "OpaqueScope tx g scope \<longleftrightarrow> tx_lower tx scope \<in> set (gc_OpaqueScopes (ga_cfg g))"

definition validStoredGrant :: "text_env \<Rightarrow> DelegatedGate \<Rightarrow> string \<Rightarrow> DelegatedGrantRecord \<Rightarrow> go_time \<Rightarrow> bool" where
  "validStoredGrant tx g i r now \<longleftrightarrow>
    (let grant = gq_Grant r in
     gq_Epoch r > 0 \<and> dg_ID grant = i
     \<and> validDelegatedField (dg_ID grant) \<and> validDelegatedField (dg_Tenant grant)
     \<and> validDelegatedField (dg_Principal grant) \<and> validDelegatedField (dg_SourceScope grant)
     \<and> dg_IssuedAt grant \<noteq> zeroTime \<and> dg_ExpiresAt grant \<noteq> zeroTime
     \<and> \<not> dg_IssuedAt grant > now \<and> dg_IssuedAt grant < dg_ExpiresAt grant
     \<and> time_sub (dg_ExpiresAt grant) (dg_IssuedAt grant) \<le> gc_MaxGrantTTL (ga_cfg g)
     \<and> OpaqueScope tx g (dg_SourceScope grant))"


subsection \<open>Receipts\<close>

text \<open>\<^verbatim>\<open>UnixNano\<close> is a 64-bit product that wraps.\<close>

definition unix_nano :: "go_time \<Rightarrow> int" where
  "unix_nano t = (t + 2 ^ 63) mod 2 ^ 64 - 2 ^ 63"

definition delegatedFieldDigest :: "text_env \<Rightarrow> string \<Rightarrow> string \<Rightarrow> string" where
  "delegatedFieldDigest tx kind v =
    (if v = [] then [] else tx_sha tx (''ouroboros.delegated-field.v1'' @ [NUL] @ kind @ [NUL] @ v))"

definition delegatedGrantDigest :: "text_env \<Rightarrow> DelegatedGrant \<Rightarrow> string" where
  "delegatedGrantDigest tx g =
    tx_sha tx (nul_join [''ouroboros.delegated-grant.v1'', dg_ID g, dg_Tenant g, dg_Principal g, tx_lower tx (dg_SourceScope g),
      dec_int (unix_nano (dg_IssuedAt g)), dec_int (unix_nano (dg_ExpiresAt g))])"

definition delegatedReceiptDigest :: "text_env \<Rightarrow> DelegatedReceipt \<Rightarrow> string" where
  "delegatedReceiptDigest tx r =
    tx_sha tx (nul_join [''ouroboros.delegated-receipt.v1'', dec (unat (re_Sequence r)), dec_int (re_AtUnixNano r),
      re_TenantDigest r, re_PrincipalDigest r, re_SourceScopeDigest r,
      re_ConnectorDigest r, re_SourceRevisionDigest r, re_SourceCursorDigest r, dec_int (re_SourceObservedAtUnixNano r),
      re_GrantDigest r, re_Outcome r, dec (re_RequestedObjects r), dec (re_AllowedObjects r),
      dec (re_ProbeCalls r), dec (re_ContentCalls r), dec (re_CacheHits r),
      join_with '','' (sort (map (\<lambda>(name, count). name @ ''='' @ dec count) (re_DeniedReasons r))),
      re_PrevDigest r])"

definition newDelegatedReceipt :: "text_env \<Rightarrow> go_time \<Rightarrow> cIdentity \<Rightarrow> string \<Rightarrow> DelegatedGrant \<Rightarrow> DelegatedSourceFreshness \<Rightarrow> DelegatedReceipt" where
  "newDelegatedReceipt tx now ident scope grant fresh =
    \<lparr>re_Sequence = 0, re_AtUnixNano = unix_nano now, re_TenantDigest = delegatedFieldDigest tx ''tenant'' (ci_Tenant ident),
     re_PrincipalDigest = delegatedFieldDigest tx ''principal'' (ci_Principal ident),
     re_SourceScopeDigest = delegatedFieldDigest tx ''scope'' (tx_lower tx scope),
     re_ConnectorDigest = fr_ConnectorDigest fresh,
     re_SourceRevisionDigest = delegatedFieldDigest tx ''source-revision'' (fr_SourceRevision fresh),
     re_SourceCursorDigest = delegatedFieldDigest tx ''source-cursor'' (fr_SourceCursor fresh),
     re_SourceObservedAtUnixNano = (if fr_ObservedAt fresh = zeroTime then 0 else unix_nano (fr_ObservedAt fresh)),
     re_GrantDigest = (if dg_ID grant \<noteq> [] \<and> dg_Tenant grant \<noteq> [] \<and> dg_Principal grant \<noteq> [] \<and> dg_SourceScope grant \<noteq> []
                       then delegatedGrantDigest tx grant
                       else if dg_ID grant \<noteq> [] then delegatedFieldDigest tx ''grant'' (dg_ID grant) else []),
     re_Outcome = [], re_RequestedObjects = 0, re_AllowedObjects = 0, re_ProbeCalls = 0, re_ContentCalls = 0, re_CacheHits = 0,
     re_DeniedReasons = [], re_PrevDigest = [], re_Digest = []\<rparr>"

definition id_grant :: "string \<Rightarrow> DelegatedGrant" where
  "id_grant i = \<lparr>dg_ID = i, dg_Tenant = [], dg_Principal = [], dg_SourceScope = [], dg_IssuedAt = zeroTime, dg_ExpiresAt = zeroTime\<rparr>"

text \<open>The sink's answer is \<open>None\<close> when there is no sink.\<close>

definition appendReceipt :: "text_env \<Rightarrow> bool option \<Rightarrow> DelegatedReceipt \<Rightarrow> DelegatedGate \<Rightarrow> (DelegatedReceipt \<times> bool) \<times> DelegatedGate" where
  "appendReceipt tx sink receipt g =
    (let r0 = receipt\<lparr>re_Sequence := ga_sequence g + 1, re_PrevDigest := ga_lastDigest g\<rparr>;
         r = r0\<lparr>re_Digest := delegatedReceiptDigest tx r0\<rparr>;
         all = ga_receipts g @ [r];
         kept = (if length all > maxDelegatedReceipts then drop (length all - maxDelegatedReceipts) all else all);
         g' = g\<lparr>ga_sequence := ga_sequence g + 1, ga_lastDigest := re_Digest r, ga_receipts := kept\<rparr>
     in if sink \<noteq> Some False then ((r, True), g')
        else (let f0 = r\<lparr>re_Outcome := ''audit_unavailable''\<rparr>; f = f0\<lparr>re_Digest := delegatedReceiptDigest tx f0\<rparr>
              in ((f, False), g'\<lparr>ga_lastDigest := re_Digest f, ga_receipts := butlast kept @ [f]\<rparr>)))"

definition mustAppendReceipt :: "text_env \<Rightarrow> bool option \<Rightarrow> DelegatedReceipt \<Rightarrow> DelegatedGate \<Rightarrow> DelegatedReceipt \<times> DelegatedGate" where
  "mustAppendReceipt tx sink receipt g =
    (let ((r, ok), g') = appendReceipt tx sink receipt g
     in if ok then (r, g')
        else (let f = r\<lparr>re_Outcome := ''audit_unavailable''\<rparr> in (f\<lparr>re_Digest := delegatedReceiptDigest tx f\<rparr>, g')))"

fun chain_ok :: "text_env \<Rightarrow> DelegatedReceipt option \<Rightarrow> DelegatedReceipt list \<Rightarrow> bool" where
  "chain_ok tx prev [] = True"
| "chain_ok tx prev (r # rs) \<longleftrightarrow> delegatedReceiptDigest tx r = re_Digest r
     \<and> (case prev of None \<Rightarrow> True | Some p \<Rightarrow> re_PrevDigest r = re_Digest p) \<and> chain_ok tx (Some r) rs"

definition VerifyReceiptChain :: "text_env \<Rightarrow> DelegatedGate \<Rightarrow> bool" where
  "VerifyReceiptChain tx g = chain_ok tx None (ga_receipts g)"


subsection \<open>Verdicts\<close>

definition delegatedVerdictKey :: "text_env \<Rightarrow> DelegatedGrant \<Rightarrow> 64 word \<Rightarrow> string \<Rightarrow> string" where
  "delegatedVerdictKey tx g epoch i =
    nul_join [dg_Tenant g, dg_Principal g, tx_lower tx (dg_SourceScope g), dg_ID g, dec (unat epoch), i]"

fun evict :: "int \<Rightarrow> (string, delegatedVerdict) gomap \<Rightarrow> string list \<Rightarrow> (string, delegatedVerdict) gomap \<times> string list" where
  "evict limit vs [] = (vs, [])"
| "evict limit vs (oldest # rest) = (if int (length vs) \<ge> limit then evict limit (mdel oldest vs) rest else (vs, oldest # rest))"

definition storeVerdict :: "string \<Rightarrow> delegatedVerdict \<Rightarrow> DelegatedGate \<Rightarrow> DelegatedGate" where
  "storeVerdict key v g =
    (if mget (ga_verdicts g) key \<noteq> None then g\<lparr>ga_verdicts := mput key v (ga_verdicts g)\<rparr>
     else (let (vs, order) = evict (gc_MaxCachedVerdicts (ga_cfg g)) (ga_verdicts g) (ga_verdictOrder g)
           in g\<lparr>ga_verdicts := mput key v vs, ga_verdictOrder := order @ [key]\<rparr>))"

definition drop_verdicts :: "(string \<Rightarrow> bool) \<Rightarrow> DelegatedGate \<Rightarrow> DelegatedGate" where
  "drop_verdicts hit g =
    g\<lparr>ga_verdicts := fold mdel (filter hit (ga_verdictOrder g)) (ga_verdicts g),
      ga_verdictOrder := filter (\<lambda>key. \<not> hit key) (ga_verdictOrder g)\<rparr>"

definition purgeVerdicts :: "string \<Rightarrow> DelegatedGate \<Rightarrow> DelegatedGate" where
  "purgeVerdicts grantID = drop_verdicts (\<lambda>key. str_contains key ([NUL] @ grantID @ [NUL]))"

text \<open>The part of a key after its last NUL, when it has one.\<close>

definition after_last_nul :: "string \<Rightarrow> string option" where
  "after_last_nul key = (if NUL \<in> set key then Some (rev (takeWhile (\<lambda>c. c \<noteq> NUL) (rev key))) else None)"

definition InvalidateObjects :: "string list \<Rightarrow> DelegatedGate \<Rightarrow> DelegatedGate" where
  "InvalidateObjects ids g =
    (let ids' = filter (\<lambda>i. i \<noteq> []) ids
     in if list_ex (\<lambda>i. str_contains i [NUL]) ids' then g\<lparr>ga_verdicts := [], ga_verdictOrder := []\<rparr>
        else if ids' = [] then g
        else drop_verdicts (\<lambda>key. \<exists>i \<in> set ids'. after_last_nul key = Some i) g)"


section \<open>Grants\<close>

text \<open>Issuing reserves the ID, records the issue and then activates the grant; a failed record
  withdraws the reservation.  Each section is one store call or one receipt.\<close>

definition issue_begin :: "text_env \<Rightarrow> bool \<Rightarrow> go_time \<Rightarrow> connector_error + cIdentity \<Rightarrow> bool \<Rightarrow> DelegatedGrant \<Rightarrow> DelegatedGate
    \<Rightarrow> (connector_error + cIdentity) \<times> DelegatedGate" where
  "issue_begin tx live now issuer storeLive grant g =
    (if \<not> live then (Inl CInvalidInput, g)
     else if \<not> validDelegatedField (dg_ID grant) \<or> \<not> validDelegatedField (dg_Tenant grant)
        \<or> \<not> validDelegatedField (dg_Principal grant) \<or> \<not> validDelegatedField (dg_SourceScope grant)
        \<or> dg_IssuedAt grant = zeroTime \<or> dg_ExpiresAt grant = zeroTime \<or> dg_IssuedAt grant > now
        \<or> \<not> dg_IssuedAt grant < dg_ExpiresAt grant
        \<or> time_sub (dg_ExpiresAt grant) (dg_IssuedAt grant) > gc_MaxGrantTTL (ga_cfg g)
        \<or> \<not> now < dg_ExpiresAt grant then (Inl CInvalidInput, g)
     else if \<not> OpaqueScope tx g (dg_SourceScope grant) then (Inl CInvalidInput, g)
     else (case issuer of
             Inl err \<Rightarrow> (Inl CIssuerAuthenticationRequired, g)
           | Inr who \<Rightarrow>
               if \<not> validIdentity who then (Inl CIssuerAuthenticationRequired, g)
               else if ci_Tenant who \<noteq> dg_Tenant grant \<or> ci_Principal who \<noteq> dg_Principal grant then (Inl CNotFoundOrDenied, g)
               else (case store_Prepare storeLive \<lparr>gq_Grant = grant, gq_Epoch = 1, gq_Active = False, gq_Revoked = False\<rparr> (ga_store g) of
                       (Some err, st) \<Rightarrow> (Inl err, g\<lparr>ga_store := st\<rparr>)
                     | (None, st) \<Rightarrow> (Inr who, g\<lparr>ga_store := st\<rparr>))))"

definition no_freshness :: DelegatedSourceFreshness where
  "no_freshness = \<lparr>fr_ConnectorDigest = [], fr_SourceRevision = [], fr_SourceCursor = [], fr_ObservedAt = zeroTime\<rparr>"

definition issue_record :: "text_env \<Rightarrow> bool option \<Rightarrow> go_time \<Rightarrow> cIdentity \<Rightarrow> DelegatedGrant \<Rightarrow> DelegatedGate \<Rightarrow> bool \<times> DelegatedGate" where
  "issue_record tx sink now who grant g =
    (let ((_, ok), g') = appendReceipt tx sink ((newDelegatedReceipt tx now who (dg_SourceScope grant) grant no_freshness)
                           \<lparr>re_Outcome := ''grant_issued''\<rparr>) g in (ok, g'))"

definition issue_end :: "bool \<Rightarrow> bool \<Rightarrow> DelegatedGrant \<Rightarrow> DelegatedGate \<Rightarrow> connector_error option \<times> DelegatedGate" where
  "issue_end recorded storeLive grant g =
    (if \<not> recorded then (Some CNotFoundOrDenied, g\<lparr>ga_store := snd (store_Abort storeLive (dg_ID grant) (ga_store g))\<rparr>)
     else (case store_Activate storeLive (dg_ID grant) (ga_store g) of
             (Inl err, st) \<Rightarrow> (Some err, g\<lparr>ga_store := st\<rparr>)
           | (Inr r, st) \<Rightarrow> (None, g\<lparr>ga_store := st\<rparr>)))"

definition IssueAuthenticatedGrant :: "text_env \<Rightarrow> bool \<Rightarrow> bool option \<Rightarrow> go_time \<Rightarrow> connector_error + cIdentity \<Rightarrow> DelegatedGrant \<Rightarrow> DelegatedGate
    \<Rightarrow> connector_error option \<times> DelegatedGate" where
  "IssueAuthenticatedGrant tx live sink now issuer grant g =
    (case issue_begin tx live now issuer True grant g of
       (Inl err, g') \<Rightarrow> (Some err, g')
     | (Inr who, g') \<Rightarrow> (let (ok, g'') = issue_record tx sink now who grant g' in issue_end ok True grant g''))"

definition revoke_store :: "bool \<Rightarrow> connector_error + cIdentity \<Rightarrow> bool \<Rightarrow> string \<Rightarrow> DelegatedGate
    \<Rightarrow> (connector_error + cIdentity \<times> DelegatedGrantRecord) \<times> DelegatedGate" where
  "revoke_store live issuer storeLive grantID g =
    (if grantID = [] \<or> \<not> live then (Inl CInvalidInput, g)
     else (case issuer of
             Inl err \<Rightarrow> (Inl CIssuerAuthenticationRequired, g)
           | Inr who \<Rightarrow>
               if \<not> validIdentity who then (Inl CIssuerAuthenticationRequired, g)
               else (case store_Revoke storeLive who grantID (ga_store g) of
                       (Inl err, st) \<Rightarrow> (Inl err, g\<lparr>ga_store := st\<rparr>)
                     | (Inr r, st) \<Rightarrow> (Inr (who, r), g\<lparr>ga_store := st\<rparr>))))"

definition revoke_finish :: "text_env \<Rightarrow> bool option \<Rightarrow> go_time \<Rightarrow> cIdentity \<Rightarrow> DelegatedGrantRecord \<Rightarrow> string \<Rightarrow> DelegatedGate
    \<Rightarrow> connector_error option \<times> DelegatedGate" where
  "revoke_finish tx sink now who r grantID g =
    (let ((_, ok), g') = appendReceipt tx sink ((newDelegatedReceipt tx now who (dg_SourceScope (gq_Grant r)) (gq_Grant r) no_freshness)
                           \<lparr>re_Outcome := ''grant_revoked''\<rparr>) (purgeVerdicts grantID g)
     in (if ok then None else Some CNotFoundOrDenied, g'))"

definition RevokeAuthenticatedGrant :: "text_env \<Rightarrow> bool \<Rightarrow> bool option \<Rightarrow> go_time \<Rightarrow> connector_error + cIdentity \<Rightarrow> string \<Rightarrow> DelegatedGate
    \<Rightarrow> connector_error option \<times> DelegatedGate" where
  "RevokeAuthenticatedGrant tx live sink now issuer grantID g =
    (case revoke_store live issuer True grantID g of
       (Inl err, g') \<Rightarrow> (Some err, g')
     | (Inr (who, r), g') \<Rightarrow> revoke_finish tx sink now who r grantID g')"


section \<open>Gating a query\<close>

definition delegatedComponentEvidence :: "DelegatedSourceFreshness \<Rightarrow> go_time \<Rightarrow> bool" where
  "delegatedComponentEvidence fresh now \<longleftrightarrow>
    isLowerHexSHA256 (fr_ConnectorDigest fresh) \<and> validDelegatedField (fr_SourceRevision fresh)
    \<and> validDelegatedCursor (fr_SourceCursor fresh) \<and> fr_ObservedAt fresh \<noteq> zeroTime \<and> \<not> fr_ObservedAt fresh > now"

text \<open>The verdict on a stored grant, as an outcome code; empty when it authorises.\<close>

definition grant_outcome :: "text_env \<Rightarrow> DelegatedGate \<Rightarrow> go_time \<Rightarrow> cIdentity \<Rightarrow> string \<Rightarrow> string \<Rightarrow> DelegatedGrantRecord option \<Rightarrow> string" where
  "grant_outcome tx g now ident scope grantID found =
    (case found of
       None \<Rightarrow> ''grant_missing''
     | Some r \<Rightarrow>
         if grantID = [] \<or> \<not> validStoredGrant tx g grantID r now
            \<or> dg_Tenant (gq_Grant r) \<noteq> ci_Tenant ident \<or> dg_Principal (gq_Grant r) \<noteq> ci_Principal ident then ''grant_missing''
         else if gq_Revoked r then ''grant_revoked''
         else if \<not> gq_Active r then ''grant_missing''
         else if \<not> now < dg_ExpiresAt (gq_Grant r) then ''grant_expired''
         else if \<not> tx_equalFold tx (dg_SourceScope (gq_Grant r)) scope then ''grant_scope_mismatch''
         else [])"

definition preauthorizeQuery :: "text_env \<Rightarrow> bool \<Rightarrow> bool \<Rightarrow> bool \<Rightarrow> bool option \<Rightarrow> go_time \<Rightarrow> cIdentity \<Rightarrow> string \<Rightarrow> string \<Rightarrow> DelegatedSourceFreshness
    \<Rightarrow> DelegatedGate \<Rightarrow> (string + DelegatedGrantRecord) \<times> DelegatedGate" where
  "preauthorizeQuery tx live promoted storeLive sink now ident scope grantID fresh g =
    (let receipt = newDelegatedReceipt tx now ident scope (id_grant grantID) fresh;
         refuse = (\<lambda>outcome. let ((r, ok), g') = appendReceipt tx sink (receipt\<lparr>re_Outcome := outcome\<rparr>) g
                           in (Inl (if ok then re_Outcome r else ''audit_unavailable''), g'))
     in if \<not> live \<or> \<not> validIdentity ident \<or> scope = [] then refuse ''invalid_request''
        else if \<not> delegatedComponentEvidence fresh now \<or> \<not> promoted then refuse ''promotion_evidence_unavailable''
        else (case store_Get storeLive grantID (ga_store g) of
                Inl err \<Rightarrow> refuse ''grant_missing''
              | Inr found \<Rightarrow>
                  (let outcome = grant_outcome tx g now ident scope grantID found
                   in (case found of
                         Some r \<Rightarrow> if outcome = [] then (Inr r, g) else refuse outcome
                       | None \<Rightarrow> refuse outcome))))"

record authorizing =
  pa_now :: go_time
  pa_grant :: DelegatedGrant
  pa_epoch :: "64 word"
  pa_ids :: "string list"
  pa_allowed :: "string list"
  pa_misses :: "string list"
  pa_receipt :: DelegatedReceipt

definition count_denial :: "string \<Rightarrow> DelegatedReceipt \<Rightarrow> DelegatedReceipt" where
  "count_denial reason r = r\<lparr>re_DeniedReasons := mput reason (mget0 0 (re_DeniedReasons r) reason + 1) (re_DeniedReasons r)\<rparr>"

definition uniqueSortedIDs :: "string list \<Rightarrow> string list" where
  "uniqueSortedIDs ids = sort (nub (filter (\<lambda>i. i \<noteq> []) ids))"

definition consult :: "text_env \<Rightarrow> DelegatedGate \<Rightarrow> string \<Rightarrow> authorizing \<Rightarrow> authorizing" where
  "consult tx g i p =
    (case mget (ga_verdicts g) (delegatedVerdictKey tx (pa_grant p) (pa_epoch p) i) of
       Some v \<Rightarrow>
         if pa_now p < ve_expires v then
           (let r = (pa_receipt p)\<lparr>re_CacheHits := re_CacheHits (pa_receipt p) + 1\<rparr>
            in if ve_allowed v then p\<lparr>pa_allowed := pa_allowed p @ [i], pa_receipt := r\<rparr>
               else p\<lparr>pa_receipt := count_denial ''probe_denied'' r\<rparr>)
         else p\<lparr>pa_misses := pa_misses p @ [i]\<rparr>
     | None \<Rightarrow> p\<lparr>pa_misses := pa_misses p @ [i]\<rparr>)"

definition authorize_begin :: "text_env \<Rightarrow> bool \<Rightarrow> go_time \<Rightarrow> cIdentity \<Rightarrow> string \<Rightarrow> string \<Rightarrow> string list \<Rightarrow> DelegatedSourceFreshness \<Rightarrow> DelegatedGate
    \<Rightarrow> DelegatedReceipt + authorizing" where
  "authorize_begin tx storeLive now ident scope grantID objectIDs fresh g =
    (let ids = uniqueSortedIDs objectIDs;
         receipt = (newDelegatedReceipt tx now ident scope (id_grant grantID) fresh)\<lparr>re_RequestedObjects := length ids\<rparr>
     in if \<not> validIdentity ident \<or> scope = [] then Inl (receipt\<lparr>re_Outcome := ''invalid_request''\<rparr>)
        else (case store_Get storeLive grantID (ga_store g) of
                Inl err \<Rightarrow> Inl (receipt\<lparr>re_Outcome := ''grant_missing''\<rparr>)
              | Inr found \<Rightarrow>
                  (let outcome = grant_outcome tx g now ident scope grantID found
                   in (case found of
                         None \<Rightarrow> Inl (receipt\<lparr>re_Outcome := outcome\<rparr>)
                       | Some r \<Rightarrow>
                           if outcome \<noteq> [] then Inl (receipt\<lparr>re_Outcome := outcome\<rparr>)
                           else Inr (fold (consult tx g) ids
                                  \<lparr>pa_now = now, pa_grant = gq_Grant r, pa_epoch = gq_Epoch r, pa_ids = ids, pa_allowed = [], pa_misses = [],
                                   pa_receipt = receipt\<lparr>re_GrantDigest := delegatedGrantDigest tx (gq_Grant r)\<rparr>\<rparr>)))))"

text \<open>One probe: whether the context is live, and the provider's answer (\<open>None\<close> is an error).
  The loop keeps the answers it got.\<close>

fun probe_misses :: "int \<Rightarrow> (string \<Rightarrow> bool \<times> bool option) \<Rightarrow> string list \<Rightarrow> DelegatedReceipt \<Rightarrow> (string \<times> bool) list \<times> DelegatedReceipt" where
  "probe_misses limit ask [] r = ([], r)"
| "probe_misses limit ask (i # ids) r =
    (if int (re_ProbeCalls r) \<ge> limit then probe_misses limit ask ids (count_denial ''probe_budget_exhausted'' r)
     else if \<not> fst (ask i) then probe_misses limit ask ids (count_denial ''probe_error'' r)
     else (let r' = r\<lparr>re_ProbeCalls := re_ProbeCalls r + 1\<rparr>
           in (case snd (ask i) of
                 None \<Rightarrow> probe_misses limit ask ids (count_denial ''probe_error'' r')
               | Some ok \<Rightarrow>
                   (let (results, r'') = probe_misses limit ask ids (if ok then r' else count_denial ''probe_denied'' r')
                    in ((i, ok) # results, r'')))))"

definition outcome_of :: "nat \<Rightarrow> nat \<Rightarrow> string" where
  "outcome_of requested allowed =
    (if requested = 0 \<or> allowed = requested then ''allowed'' else if allowed > 0 then ''partial'' else ''denied'')"

text \<open>The re-check of the grant after a phase of probes: the outcome of a refusal, or none.\<close>

definition recheck :: "text_env \<Rightarrow> DelegatedGate \<Rightarrow> bool \<Rightarrow> go_time \<Rightarrow> go_time \<Rightarrow> string \<Rightarrow> 64 word \<Rightarrow> string" where
  "recheck tx g storeLive t1 t2 grantID epoch =
    (case store_Get storeLive grantID (ga_store g) of
       Inr (Some r) \<Rightarrow>
         if \<not> validStoredGrant tx g grantID r t1 \<or> \<not> gq_Active r \<or> gq_Revoked r \<or> gq_Epoch r \<noteq> epoch then ''grant_revoked''
         else if \<not> t2 < dg_ExpiresAt (gq_Grant r) then ''grant_expired'' else []
     | _ \<Rightarrow> ''grant_revoked'')"

definition authorize_end :: "text_env \<Rightarrow> (string \<Rightarrow> bool \<times> bool option) \<Rightarrow> bool \<Rightarrow> bool option \<Rightarrow> go_time \<Rightarrow> go_time \<Rightarrow> string \<Rightarrow> authorizing \<Rightarrow> DelegatedGate
    \<Rightarrow> (string list \<times> DelegatedReceipt) \<times> DelegatedGate" where
  "authorize_end tx ask storeLive sink t1 t2 grantID p g =
    (let (results, r) = probe_misses (gc_MaxProbesPerQuery (ga_cfg g)) ask (pa_misses p) (pa_receipt p);
         allowed = pa_allowed p @ map fst (filter snd results);
         outcome = recheck tx g storeLive t1 t2 grantID (pa_epoch p)
     in if outcome \<noteq> [] then
          (let (f, g') = mustAppendReceipt tx sink (r\<lparr>re_Outcome := outcome, re_AllowedObjects := 0\<rparr>) g in (([], f), g'))
        else
          (let expiry = min (pa_now p + gc_VerdictTTL (ga_cfg g)) (dg_ExpiresAt (pa_grant p));
               g1 = fold (\<lambda>(i, ok). storeVerdict (delegatedVerdictKey tx (pa_grant p) (pa_epoch p) i)
                                  \<lparr>ve_allowed = ok, ve_expires = expiry\<rparr>) results g;
               ((f, auditOK), g2) = appendReceipt tx sink (r\<lparr>re_AllowedObjects := length allowed,
                                  re_Outcome := outcome_of (length (pa_ids p)) (length allowed)\<rparr>) g1
           in ((if auditOK then allowed else [], f), g2)))"

text \<open>The live answers for one object: whether the context is live, the hydrated object and the
  permission after it.\<close>

type_synonym hydration = "bool \<times> cObject option \<times> bool option"

fun hydrate_all :: "nat \<Rightarrow> (string \<Rightarrow> hydration) \<Rightarrow> cObject list \<Rightarrow> DelegatedReceipt \<Rightarrow> cObject list \<times> DelegatedReceipt" where
  "hydrate_all left ask [] r = ([], r)"
| "hydrate_all 0 ask (ob # obs) r = hydrate_all 0 ask obs (count_denial ''probe_budget_exhausted'' r)"
| "hydrate_all (Suc left) ask (ob # obs) r =
    (let (alive, content, permission) = ask (ob_ID ob)
     in if \<not> alive then hydrate_all left ask obs (count_denial ''probe_error'' r)
        else (let r1 = r\<lparr>re_ContentCalls := re_ContentCalls r + 1\<rparr>
              in (case content of
                    None \<Rightarrow> hydrate_all left ask obs (count_denial ''content_unavailable'' r1)
                  | Some live \<Rightarrow>
                      if ob_ID live \<noteq> ob_ID ob \<or> ob_Deleted live \<or> ob_Version live = [] \<or> live \<noteq> ob
                      then hydrate_all left ask obs (count_denial ''content_changed'' r1)
                      else (let r2 = r1\<lparr>re_ProbeCalls := re_ProbeCalls r1 + 1\<rparr>
                            in (case permission of
                                  None \<Rightarrow> hydrate_all left ask obs (count_denial ''probe_error'' r2)
                                | Some False \<Rightarrow> hydrate_all left ask obs (count_denial ''probe_denied'' r2)
                                | Some True \<Rightarrow> (let (out, r3) = hydrate_all left ask obs r2 in (live # out, r3)))))))"

definition hydrateAuthorized :: "text_env \<Rightarrow> (string \<Rightarrow> hydration) \<Rightarrow> bool \<Rightarrow> bool option \<Rightarrow> go_time \<Rightarrow> go_time \<Rightarrow> go_time \<Rightarrow> cIdentity \<Rightarrow> string
    \<Rightarrow> DelegatedGrantRecord \<Rightarrow> cObject list \<Rightarrow> DelegatedSourceFreshness \<Rightarrow> DelegatedGate \<Rightarrow> (cObject list \<times> DelegatedReceipt) \<times> DelegatedGate" where
  "hydrateAuthorized tx ask storeLive sink now t1 t2 ident scope record objects fresh g =
    (let r0 = (newDelegatedReceipt tx now ident scope (gq_Grant record) fresh)\<lparr>re_RequestedObjects := length objects\<rparr>;
         (hydrated, r) = hydrate_all (nat (gc_MaxProbesPerQuery (ga_cfg g))) ask objects r0;
         outcome = recheck tx g storeLive t1 t2 (dg_ID (gq_Grant record)) (gq_Epoch record);
         (out, r') = (if outcome \<noteq> [] then ([], r\<lparr>re_Outcome := outcome\<rparr>)
                      else (hydrated, r\<lparr>re_AllowedObjects := length hydrated,
                                        re_Outcome := outcome_of (length objects) (length hydrated)\<rparr>));
         ((f, auditOK), g') = appendReceipt tx sink r' g
     in if auditOK then ((out, f), g') else (([], f\<lparr>re_Outcome := ''audit_unavailable''\<rparr>), g'))"


subsection \<open>The decision for the kernel\<close>

definition decided :: "DelegatedReceipt \<Rightarrow> bool" where
  "decided r \<longleftrightarrow> re_Outcome r \<in> {''allowed'', ''partial'', ''denied''}"

text \<open>After the permission phase: a reason to abstain, or the objects to hydrate.\<close>

definition gate_permitted :: "cObject list \<Rightarrow> string list \<times> DelegatedReceipt \<Rightarrow> string + cObject list" where
  "gate_permitted matches res =
    (let (allowed, receipt) = res; sorted = sort_key ob_ID matches; permitted = filter (\<lambda>ob. ob_ID ob \<in> set allowed) sorted
     in if \<not> decided receipt then Inl (''delegated_'' @ re_Outcome receipt)
        else if sorted \<noteq> [] \<and> permitted = [] then Inl ''delegated_denied''
        else Inr permitted)"

text \<open>After hydration: a reason to abstain, or the surviving matches and the degraded reasons.\<close>

definition gate_hydrated :: "text_env \<Rightarrow> string \<Rightarrow> cObject list \<Rightarrow> cObject list \<Rightarrow> cObject list \<times> DelegatedReceipt
    \<Rightarrow> string + cObject list \<times> string list" where
  "gate_hydrated tx query matches permitted res =
    (let (hydrated, receipt) = res; final = filter (\<lambda>live. objectMatchesQuery tx live query) hydrated
     in if \<not> decided receipt then Inl (''delegated_'' @ re_Outcome receipt)
        else if permitted \<noteq> [] \<and> hydrated = [] then
          Inl (if mget0 0 (re_DeniedReasons receipt) ''content_changed'' > 0 then ''delegated_object_changed'' else ''delegated_denied'')
        else if permitted \<noteq> [] \<and> final = [] then Inl ''delegated_object_changed''
        else if length final < length matches then Inr (final, [''delegated_partial''])
        else Inr (final, []))"


section \<open>The store's contract\<close>

text \<open>What the gate relies on: an ID is used once, and a revoked grant is never active again.\<close>

locale grant_store =
  fixes prepare :: "bool \<Rightarrow> DelegatedGrantRecord \<Rightarrow> 's \<Rightarrow> connector_error option \<times> 's"
    and activate :: "bool \<Rightarrow> string \<Rightarrow> 's \<Rightarrow> (connector_error + DelegatedGrantRecord) \<times> 's"
    and abort :: "bool \<Rightarrow> string \<Rightarrow> 's \<Rightarrow> connector_error option \<times> 's"
    and revoke :: "bool \<Rightarrow> cIdentity \<Rightarrow> string \<Rightarrow> 's \<Rightarrow> (connector_error + DelegatedGrantRecord) \<times> 's"
    and lookup :: "'s \<Rightarrow> string \<Rightarrow> DelegatedGrantRecord option"
  assumes prepare_used: "lookup st (dg_ID (gq_Grant r)) \<noteq> None \<Longrightarrow> prepare live r st = (err, st') \<Longrightarrow> st' = st \<and> err \<noteq> None"
    and prepare_other: "prepare live r st = (err, st') \<Longrightarrow> i \<noteq> dg_ID (gq_Grant r) \<Longrightarrow> lookup st' i = lookup st i"
    and activate_revoked: "lookup st i = Some r \<Longrightarrow> gq_Revoked r \<Longrightarrow> snd (activate live i st) = st"
    and activate_other: "j \<noteq> i \<Longrightarrow> lookup (snd (activate live i st)) j = lookup st j"
    and abort_revoked: "lookup st i = Some r \<Longrightarrow> gq_Revoked r \<Longrightarrow> \<exists>r'. lookup (snd (abort live i st)) i = Some r' \<and> gq_Revoked r'"
    and abort_other: "j \<noteq> i \<Longrightarrow> lookup (snd (abort live i st)) j = lookup st j"
    and revoke_revoked: "lookup st i = Some r \<Longrightarrow> gq_Revoked r \<Longrightarrow> snd (revoke live who i st) = st"
    and revoke_other: "j \<noteq> i \<Longrightarrow> lookup (snd (revoke live who i st)) j = lookup st j"
    and revoke_done: "revoke live who i st = (Inr r, st') \<Longrightarrow> lookup st' i = Some r \<and> gq_Revoked r"
begin

definition dead :: "string \<Rightarrow> 's \<Rightarrow> bool" where
  "dead i st \<longleftrightarrow> (\<exists>r. lookup st i = Some r \<and> gq_Revoked r)"

lemma dead_prepare: "dead i st \<Longrightarrow> dead i (snd (prepare live r st))"
proof -
  assume d: "dead i st"
  obtain err st' where p: "prepare live r st = (err, st')" by (cases "prepare live r st")
  show ?thesis
  proof (cases "dg_ID (gq_Grant r) = i")
    case True
    then have "lookup st (dg_ID (gq_Grant r)) \<noteq> None" using d by (auto simp: dead_def)
    then show ?thesis using prepare_used[OF _ p] d p by simp
  next
    case False
    then show ?thesis using prepare_other[OF p, of i] d p by (simp add: dead_def)
  qed
qed

lemma dead_activate: "dead i st \<Longrightarrow> dead i (snd (activate live j st))"
  by (cases "j = i") (auto simp: dead_def activate_revoked activate_other)

lemma dead_abort: "dead i st \<Longrightarrow> dead i (snd (abort live j st))"
  by (cases "j = i") (auto simp: dead_def abort_other dest: abort_revoked)

lemma dead_revoke: "dead i st \<Longrightarrow> dead i (snd (revoke live who j st))"
  by (cases "j = i") (auto simp: dead_def revoke_revoked revoke_other)

lemmas dead_stays = dead_prepare dead_activate dead_abort dead_revoke

lemma revoke_kills: "revoke live who i st = (Inr r, st') \<Longrightarrow> dead i st'"
  using revoke_done by (auto simp: dead_def)

end

interpretation mem_store: grant_store store_Prepare store_Activate store_Abort store_Revoke "\<lambda>st. mget (gs_records st)"
proof
  show "\<exists>r'. mget (gs_records (snd (store_Abort live i st))) i = Some r' \<and> gq_Revoked r'"
    if "mget (gs_records st) i = Some r" "gq_Revoked r" for st i r live
    using that by (auto simp: store_Abort_def)
qed (auto simp: store_Prepare_def store_Activate_def store_Abort_def store_Revoke_def Let_def split: if_split_asm option.split_asm option.split)


section \<open>The receipt chain\<close>

lemma chain_ok_snoc:
  "chain_ok tx prev (rs @ [r]) \<longleftrightarrow> chain_ok tx prev rs \<and> delegatedReceiptDigest tx r = re_Digest r
    \<and> (case (if rs = [] then prev else Some (last rs)) of None \<Rightarrow> True | Some p \<Rightarrow> re_PrevDigest r = re_Digest p)"
  by (induction rs arbitrary: prev) auto

lemma chain_ok_weaken: "chain_ok tx prev rs \<Longrightarrow> chain_ok tx None rs"
  by (cases rs) auto

lemma chain_ok_drop: "chain_ok tx None rs \<Longrightarrow> chain_ok tx None (drop n rs)"
proof (induction rs arbitrary: n)
  case (Cons r rs)
  then have "chain_ok tx None rs" using chain_ok_weaken by auto
  then show ?case using Cons by (cases n) auto
qed simp

definition linked :: "text_env \<Rightarrow> DelegatedGate \<Rightarrow> bool" where
  "linked tx g \<longleftrightarrow> chain_ok tx None (ga_receipts g) \<and> length (ga_receipts g) \<le> maxDelegatedReceipts
     \<and> (ga_receipts g \<noteq> [] \<longrightarrow> ga_lastDigest g = re_Digest (last (ga_receipts g)))"

text \<open>A digest does not depend on the digest field.\<close>

lemma digest_field [simp]: "delegatedReceiptDigest tx (r\<lparr>re_Digest := d\<rparr>) = delegatedReceiptDigest tx r"
  by (simp add: delegatedReceiptDigest_def)

lemma appendReceipt_state:
  assumes "appendReceipt tx sink receipt g = ((r, ok), g')"
  shows "ga_cfg g' = ga_cfg g" "ga_store g' = ga_store g" "ga_verdicts g' = ga_verdicts g" "ga_verdictOrder g' = ga_verdictOrder g"
  using assms by (auto simp: appendReceipt_def Let_def split: if_split_asm)

definition recent :: "DelegatedReceipt list \<Rightarrow> DelegatedReceipt list" where
  "recent all = (if length all > maxDelegatedReceipts then drop (length all - maxDelegatedReceipts) all else all)"

lemma recent_linked:
  assumes "chain_ok tx None all" "all \<noteq> []"
  shows "chain_ok tx None (recent all)" "length (recent all) \<le> maxDelegatedReceipts" "last (recent all) = last all"
  using assms by (simp_all add: recent_def chain_ok_drop maxDelegatedReceipts_def)

lemma recent_snoc: "butlast (recent (rs @ [x])) @ [y] = recent (rs @ [y])"
  by (simp add: recent_def butlast_append maxDelegatedReceipts_def)

lemma appendReceipt_linked:
  assumes l: "linked tx g" and run: "appendReceipt tx sink receipt g = ((r, ok), g')"
  shows "linked tx g'"
proof -
  have chain: "chain_ok tx None (ga_receipts g @ [x])"
    if "delegatedReceiptDigest tx x = re_Digest x" "re_PrevDigest x = ga_lastDigest g" for x
    using l that by (simp add: chain_ok_snoc linked_def)
  have kept: "linked tx (g\<lparr>ga_sequence := n, ga_lastDigest := re_Digest x, ga_receipts := recent (ga_receipts g @ [x])\<rparr>)"
    if "delegatedReceiptDigest tx x = re_Digest x" "re_PrevDigest x = ga_lastDigest g" for x n
    using recent_linked[OF chain[OF that]] by (simp add: linked_def)
  let ?r0 = "receipt\<lparr>re_Sequence := ga_sequence g + 1, re_PrevDigest := ga_lastDigest g\<rparr>"
  let ?r = "?r0\<lparr>re_Digest := delegatedReceiptDigest tx ?r0\<rparr>"
  let ?f0 = "?r\<lparr>re_Outcome := ''audit_unavailable''\<rparr>"
  let ?f = "?f0\<lparr>re_Digest := delegatedReceiptDigest tx ?f0\<rparr>"
  show ?thesis
  proof (cases "sink = Some False")
    case False
    then have "g' = g\<lparr>ga_sequence := ga_sequence g + 1, ga_lastDigest := re_Digest ?r, ga_receipts := recent (ga_receipts g @ [?r])\<rparr>"
      using run by (auto simp: appendReceipt_def recent_def Let_def)
    moreover have "delegatedReceiptDigest tx ?r = re_Digest ?r" "re_PrevDigest ?r = ga_lastDigest g" by (simp_all add: delegatedReceiptDigest_def)
    ultimately show ?thesis using kept by (simp only:)
  next
    case True
    then have "g' = g\<lparr>ga_sequence := ga_sequence g + 1, ga_lastDigest := re_Digest ?f, ga_receipts := butlast (recent (ga_receipts g @ [?r])) @ [?f]\<rparr>"
      using run by (auto simp: appendReceipt_def recent_def Let_def)
    moreover have "delegatedReceiptDigest tx ?f = re_Digest ?f" "re_PrevDigest ?f = ga_lastDigest g" by (simp_all add: delegatedReceiptDigest_def)
    ultimately show ?thesis using kept by (simp only: recent_snoc)
  qed
qed

lemma mustAppendReceipt_append:
  "mustAppendReceipt tx sink receipt g = (r, g') \<Longrightarrow> \<exists>x ok. appendReceipt tx sink receipt g = ((x, ok), g')"
  by (auto simp: mustAppendReceipt_def Let_def split: prod.split_asm if_split_asm)

text \<open>The verdict cache is no part of the chain.\<close>

lemma storeVerdict_state:
  "ga_cfg (storeVerdict key v g) = ga_cfg g" "ga_store (storeVerdict key v g) = ga_store g" "ga_receipts (storeVerdict key v g) = ga_receipts g"
  "ga_lastDigest (storeVerdict key v g) = ga_lastDigest g"
  by (auto simp: storeVerdict_def split: prod.split)

lemma fold_storeVerdict_state:
  "ga_cfg (fold (\<lambda>(i, ok). storeVerdict (key i) (v ok)) rs g) = ga_cfg g \<and> ga_store (fold (\<lambda>(i, ok). storeVerdict (key i) (v ok)) rs g) = ga_store g
   \<and> ga_receipts (fold (\<lambda>(i, ok). storeVerdict (key i) (v ok)) rs g) = ga_receipts g
   \<and> ga_lastDigest (fold (\<lambda>(i, ok). storeVerdict (key i) (v ok)) rs g) = ga_lastDigest g"
  by (induction rs arbitrary: g) (auto simp: storeVerdict_state)

lemma drop_verdicts_state:
  "ga_cfg (drop_verdicts hit g) = ga_cfg g" "ga_store (drop_verdicts hit g) = ga_store g" "ga_receipts (drop_verdicts hit g) = ga_receipts g"
  "ga_lastDigest (drop_verdicts hit g) = ga_lastDigest g"
  by (simp_all add: drop_verdicts_def)

lemma InvalidateObjects_state:
  "ga_cfg (InvalidateObjects ids g) = ga_cfg g" "ga_store (InvalidateObjects ids g) = ga_store g"
  "ga_receipts (InvalidateObjects ids g) = ga_receipts g" "ga_lastDigest (InvalidateObjects ids g) = ga_lastDigest g"
  by (simp_all add: InvalidateObjects_def Let_def drop_verdicts_state)

lemma linked_cong:
  "ga_receipts g' = ga_receipts g \<Longrightarrow> ga_lastDigest g' = ga_lastDigest g \<Longrightarrow> linked tx g' = linked tx g"
  by (simp add: linked_def)


section \<open>The cache is bounded\<close>

definition cache_inv :: "DelegatedGate \<Rightarrow> bool" where
  "cache_inv g \<longleftrightarrow> wf_map (ga_verdicts g) \<and> distinct (ga_verdictOrder g) \<and> set (ga_verdictOrder g) = set (mkeys (ga_verdicts g))
     \<and> int (length (ga_verdicts g)) \<le> gc_MaxCachedVerdicts (ga_cfg g)"

lemma mdel_filter: "mdel k m = filter (\<lambda>p. fst p \<noteq> k) m"
  by (induction m) (auto split: prod.split)

lemma length_mdel: "wf_map m \<Longrightarrow> k \<in> set (mkeys m) \<Longrightarrow> Suc (length (mdel k m)) = length m"
proof (induction m)
  case (Cons p m)
  show ?case
  proof (cases "fst p = k")
    case True
    then have "k \<notin> fst ` set m" using Cons.prems(1) by (auto simp: wf_map_def)
    then have "filter (\<lambda>p. fst p \<noteq> k) m = m" by (auto intro: filter_True)
    then show ?thesis using True by (simp add: mdel_filter)
  next
    case False
    then show ?thesis using Cons by (simp add: mdel_filter wf_map_def)
  qed
qed simp

lemma evict_inv:
  assumes "evict limit vs order = (vs', order')" "wf_map vs" "distinct order" "set order = set (mkeys vs)" "0 < limit" "int (length vs) \<le> limit"
  shows "wf_map vs' \<and> distinct order' \<and> set order' = set (mkeys vs') \<and> int (length vs') < limit \<and> set order' \<subseteq> set order"
  using assms
proof (induction limit vs order rule: evict.induct)
  case (1 limit vs)
  then show ?case by auto
next
  case (2 limit vs oldest rest)
  show ?case
  proof (cases "int (length vs) \<ge> limit")
    case True
    have k: "oldest \<in> set (mkeys vs)" using "2.prems"(4) by auto
    have ks: "set (mkeys (mdel oldest vs)) = set (mkeys vs) - {oldest}" by (auto simp: mdel_filter)
    have rest: "set rest = set (mkeys (mdel oldest vs))" unfolding ks using "2.prems"(3,4) by auto
    have run: "evict limit (mdel oldest vs) rest = (vs', order')" using "2.prems"(1) True by simp
    have len: "int (length (mdel oldest vs)) \<le> limit" using length_mdel[OF "2.prems"(2) k] "2.prems"(6) by linarith
    have "distinct rest" using "2.prems"(3) by simp
    note "2.IH"[OF True run wf_map_mdel[OF "2.prems"(2)] this rest "2.prems"(5) len]
    then show ?thesis by auto
  next
    case False
    then show ?thesis using "2.prems" by auto
  qed
qed

lemma mkeys_mput: "set (mkeys (mput k v m)) = insert k (set (mkeys m))"
  by (induction m) auto

lemma length_mput: "length (mput k v m) = (if k \<in> set (mkeys m) then length m else Suc (length m))"
  by (induction m) auto

lemma storeVerdict_cache:
  assumes "cache_inv g" "0 < gc_MaxCachedVerdicts (ga_cfg g)"
  shows "cache_inv (storeVerdict key v g)"
proof (cases "mget (ga_verdicts g) key")
  case (Some x)
  then have "key \<in> set (mkeys (ga_verdicts g))" by (rule mget_Some_key)
  then show ?thesis using assms Some
    by (auto simp: storeVerdict_def cache_inv_def mkeys_mput length_mput simp del: set_map)
next
  case None
  obtain vs order where e: "evict (gc_MaxCachedVerdicts (ga_cfg g)) (ga_verdicts g) (ga_verdictOrder g) = (vs, order)"
    by (cases "evict (gc_MaxCachedVerdicts (ga_cfg g)) (ga_verdicts g) (ga_verdictOrder g)")
  have i: "wf_map vs \<and> distinct order \<and> set order = set (mkeys vs) \<and> int (length vs) < gc_MaxCachedVerdicts (ga_cfg g)
      \<and> set order \<subseteq> set (ga_verdictOrder g)"
    by (rule evict_inv[OF e]) (use assms in \<open>auto simp: cache_inv_def\<close>)
  have "key \<notin> set (mkeys (ga_verdicts g))" using None mget_None_iff by metis
  then have "key \<notin> set (ga_verdictOrder g)" using assms(1) by (simp add: cache_inv_def del: set_map)
  then have "key \<notin> set order" using i by blast
  then show ?thesis using i None e by (auto simp: storeVerdict_def cache_inv_def mkeys_mput length_mput simp del: set_map)
qed

end
