(* ===== verification/Connector.thy ===== *)
theory Connector
  imports Delegated_Gate
begin

text \<open>
  The source connector kernel (\<^verbatim>\<open>services/brain/internal/connector/kernel.go\<close>, with the
  records of \<^verbatim>\<open>types.go\<close> and \<^verbatim>\<open>source.go\<close>): connections to a provider repository, their
  admitted objects, reconciliation page by page, queries, revocation and purge.

  Every operation but the query runs under the kernel's mutex and is one function.  A query
  over a source with delegated permission releases the mutex around its calls of the gate,
  so it is a sequence of sections; the last part of the theory lets any number of queries
  and all other operations of kernel and gate interleave.  The provider's pages and
  answers, the clock and the sink are inputs of the steps.  A loop over the admitted objects
  visits them in the order of the association list; it decides which match is cited.  Requests are present and
  contexts are given by whether they are cancelled.
\<close>

section \<open>Data\<close>

record SnapshotPage =
  pg_Cursor :: string
  pg_Revision :: string
  pg_ConnectorDigest :: string
  pg_ObservedAt :: go_time
  pg_Objects :: "cObject list"
  pg_Complete :: bool
  pg_ErrorCode :: string

datatype connectionState = stateReady | stateDegraded | stateRevoked | statePurged

record connection =
  cn_id :: string
  cn_tenant :: string
  cn_principal :: string
  cn_session :: string
  cn_owner :: string
  cn_repo :: string
  cn_sourceScope :: string
  cn_state :: connectionState
  cn_cursor :: string
  cn_sourceRevision :: string
  cn_connectorDigest :: string
  cn_observedAt :: go_time
  cn_aclEpoch :: "64 word"
  cn_lastError :: string
  cn_objects :: "(string, cObject) gomap"
  cn_requestDigest :: string
  cn_connectKey :: string

record idempotencyRow =
  ir_operation :: string
  ir_requestDigest :: string
  ir_connectionID :: string

record Kernel =
  kn_conns :: "(string, connection) gomap"
  kn_idem :: "(string, idempotencyRow) gomap"

definition NewKernel :: Kernel where
  "NewKernel = \<lparr>kn_conns = [], kn_idem = []\<rparr>"

record ConnectRequest =
  cq_Owner :: string
  cq_Repo :: string
  cq_SourceScope :: string
  cq_ActionGrantRequested :: bool
  cq_IdempotencyKey :: string

record ReconcileConnectorRequest =
  rr_ConnectionId :: "string option"
  rr_KnownCursor :: string
  rr_Reason :: string
  rr_IdempotencyKey :: string

record QueryRequest =
  qy_ConnectionId :: "string option"
  qy_Query :: string
  qy_IdempotencyKey :: string
  qy_DelegatedGrantID :: string

record connector_status =
  st_ConnectionId :: string
  st_State :: connectionState
  st_SourceScope :: string
  st_Cursor :: string
  st_RepositoryObjectCount :: "32 word"
  st_IssueObjectCount :: "32 word"
  st_SnapshotComplete :: bool
  st_LastErrorCode :: string
  st_AclEpoch :: "64 word"

record reconcile_success =
  rs_ConnectionId :: string
  rs_ConnState :: connectionState
  rs_PriorCursor :: string
  rs_NextCursor :: string
  rs_AdmittedObjectCount :: "32 word"
  rs_DeletedObjectCount :: "32 word"
  rs_PageComplete :: bool

record GitHubNativeAnchor =
  gh_Kind :: string
  gh_Owner :: string
  gh_Repo :: string
  gh_Path :: string
  gh_IssueNumber :: "32 word"
  gh_StartLine :: "32 word"
  gh_EndLine :: "32 word"
  gh_SupportingTextDigest :: string
  gh_EvidenceId :: string
  gh_SourceRevisionId :: string

record ConnectorAnswerClaim =
  ac_ClaimId :: string
  ac_Statement :: string
  ac_Citations :: "GitHubNativeAnchor list"
  ac_ConfidencePerMille :: nat

datatype answer_status = Answered | Partial | Abstained

record ConnectorAnswer =
  an_Status :: answer_status
  an_Prose :: string
  an_Claims :: "ConnectorAnswerClaim list"
  an_DegradedReasons :: "string list"

record query_success =
  qs_Answer :: ConnectorAnswer
  qs_ConnectionId :: string
  qs_State :: connectionState


section \<open>Helpers\<close>

definition validBoundedID :: "string \<Rightarrow> bool" where
  "validBoundedID v \<longleftrightarrow> length v > 0 \<and> length v \<le> 128"

definition idempotencyKey :: "cIdentity \<Rightarrow> string \<Rightarrow> string \<Rightarrow> string" where
  "idempotencyKey ident op key = ci_Tenant ident @ ''|'' @ ci_Principal ident @ ''|'' @ op @ ''|'' @ key"

definition connectDigest :: "text_env \<Rightarrow> ConnectRequest \<Rightarrow> string" where
  "connectDigest tx req = tx_sha tx (nul_join [cq_Owner req, cq_Repo req, cq_SourceScope req,
     (if cq_ActionGrantRequested req then ''true'' else ''false''), cq_IdempotencyKey req])"

definition reconcileDigest :: "text_env \<Rightarrow> ReconcileConnectorRequest \<Rightarrow> string" where
  "reconcileDigest tx req = tx_sha tx (nul_join [(case rr_ConnectionId req of None \<Rightarrow> [] | Some i \<Rightarrow> i),
     rr_KnownCursor req, rr_Reason req, rr_IdempotencyKey req])"

definition connection_identity :: "text_env \<Rightarrow> string \<Rightarrow> string \<Rightarrow> string \<Rightarrow> string \<Rightarrow> string \<Rightarrow> string" where
  "connection_identity tx domain tenant prin key dgst = tx_sha tx (nul_join [domain, tenant, prin, key, dgst])"

definition connectionDomain :: string where
  "connectionDomain = ''ouroboros.stage08.connection.v1''"

definition validDelegatedSourcePage :: "SnapshotPage \<Rightarrow> bool" where
  "validDelegatedSourcePage p \<longleftrightarrow> pg_Complete p \<and> validDelegatedCursor (pg_Cursor p) \<and> validDelegatedField (pg_Revision p)
     \<and> isLowerHexSHA256 (pg_ConnectorDigest p) \<and> pg_ObservedAt p \<noteq> zeroTime"

definition opaque :: "text_env \<Rightarrow> DelegatedGate option \<Rightarrow> string \<Rightarrow> bool" where
  "opaque tx gate scope \<longleftrightarrow> (case gate of None \<Rightarrow> False | Some g \<Rightarrow> OpaqueScope tx g scope)"

text \<open>A complete page of an opaque source without its freshness facts counts as incomplete.\<close>

definition checked_page :: "text_env \<Rightarrow> DelegatedGate option \<Rightarrow> string \<Rightarrow> SnapshotPage \<Rightarrow> SnapshotPage" where
  "checked_page tx gate scope p =
    (if pg_Complete p \<and> opaque tx gate scope \<and> \<not> validDelegatedSourcePage p
     then p\<lparr>pg_Complete := False, pg_ErrorCode := ''source_freshness_unavailable''\<rparr> else p)"

definition countObjects :: "connection \<Rightarrow> 32 word \<times> 32 word" where
  "countObjects c =
    (of_nat (length (filter (\<lambda>(_, ob). ob_Kind ob \<in> {''repository'', ''file''}) (cn_objects c))),
     of_nat (length (filter (\<lambda>(_, ob). ob_Kind ob = ''issue'') (cn_objects c))))"

definition statusSuccess :: "connection \<Rightarrow> connector_status" where
  "statusSuccess c = \<lparr>st_ConnectionId = cn_id c, st_State = cn_state c, st_SourceScope = cn_sourceScope c, st_Cursor = cn_cursor c,
     st_RepositoryObjectCount = fst (countObjects c), st_IssueObjectCount = snd (countObjects c),
     st_SnapshotComplete = (cn_state c = stateReady), st_LastErrorCode = cn_lastError c, st_AclEpoch = cn_aclEpoch c\<rparr>"

text \<open>The first success reports no error code and no epoch.\<close>

definition connectSuccess :: "connection \<Rightarrow> connector_status" where
  "connectSuccess c = (statusSuccess c)\<lparr>st_LastErrorCode := [], st_AclEpoch := 0\<rparr>"

definition owned :: "cIdentity \<Rightarrow> connection \<Rightarrow> bool" where
  "owned ident c \<longleftrightarrow> cn_tenant c = ci_Tenant ident \<and> cn_principal c = ci_Principal ident"

definition lookup_owned :: "cIdentity \<Rightarrow> string \<Rightarrow> Kernel \<Rightarrow> connection option" where
  "lookup_owned ident i k = (case mget (kn_conns k) i of Some c \<Rightarrow> if owned ident c then Some c else None | None \<Rightarrow> None)"

definition lookupActive :: "cIdentity \<Rightarrow> string \<Rightarrow> Kernel \<Rightarrow> connection option" where
  "lookupActive ident i k =
    (case lookup_owned ident i k of
       Some c \<Rightarrow> if cn_state c = stateRevoked \<or> cn_state c = statePurged then None else Some c
     | None \<Rightarrow> None)"


section \<open>Operations\<close>

definition admit_all :: "cObject list \<Rightarrow> (string, cObject) gomap \<Rightarrow> (string, cObject) gomap" where
  "admit_all obs m = fold (\<lambda>ob m. if ob_Deleted ob then m else mput (ob_ID ob) ob m) obs m"

definition new_connection :: "text_env \<Rightarrow> cIdentity \<Rightarrow> ConnectRequest \<Rightarrow> SnapshotPage \<Rightarrow> connection" where
  "new_connection tx ident req page =
    (let dgst = connectDigest tx req;
         c = \<lparr>cn_id = connection_identity tx connectionDomain (ci_Tenant ident) (ci_Principal ident) (cq_IdempotencyKey req) dgst,
              cn_tenant = ci_Tenant ident, cn_principal = ci_Principal ident, cn_session = ci_Session ident,
              cn_owner = cq_Owner req, cn_repo = cq_Repo req, cn_sourceScope = cq_SourceScope req, cn_state = stateDegraded,
              cn_cursor = ''cursor-empty'', cn_sourceRevision = [], cn_connectorDigest = [], cn_observedAt = zeroTime,
              cn_aclEpoch = 1, cn_lastError = pg_ErrorCode page, cn_objects = [], cn_requestDigest = dgst,
              cn_connectKey = cq_IdempotencyKey req\<rparr>
     in if pg_Complete page then
          c\<lparr>cn_state := stateReady, cn_cursor := pg_Cursor page, cn_sourceRevision := pg_Revision page,
            cn_connectorDigest := pg_ConnectorDigest page, cn_observedAt := pg_ObservedAt page,
            cn_lastError := [], cn_objects := admit_all (pg_Objects page) []\<rparr>
        else c)"

definition ConnectGitHubSource :: "text_env \<Rightarrow> bool \<Rightarrow> DelegatedGate option \<Rightarrow> (connector_error + SnapshotPage) \<Rightarrow> cIdentity \<Rightarrow> ConnectRequest
    \<Rightarrow> Kernel \<Rightarrow> (connector_error + connector_status) \<times> Kernel" where
  "ConnectGitHubSource tx live gate snapshot ident req k =
    (if \<not> validIdentity ident then (Inl CInvalidInput, k)
     else if \<not> live then (Inl CCancelled, k)
     else if cq_ActionGrantRequested req \<or> cq_Owner req = [] \<or> cq_Repo req = [] \<or> cq_SourceScope req = [] \<or> cq_IdempotencyKey req = []
     then (Inl CInvalidInput, k)
     else if \<not> tx_equalFold tx (cq_SourceScope req) (''github.com/'' @ cq_Owner req @ ''/'' @ cq_Repo req) then (Inl CInvalidInput, k)
     else
       (let dgst = connectDigest tx req; idemKey = idempotencyKey ident ''connect'' (cq_IdempotencyKey req)
        in (case mget (kn_idem k) idemKey of
              Some row \<Rightarrow>
                if ir_requestDigest row \<noteq> dgst then (Inl CIdempotencyConflict, k)
                else (case lookup_owned ident (ir_connectionID row) k of
                        None \<Rightarrow> (Inl CNotFoundOrDenied, k)
                      | Some c \<Rightarrow> (Inr (connectSuccess c), k))
            | None \<Rightarrow>
                (case snapshot of
                   Inl err \<Rightarrow> (Inl err, k)
                 | Inr page0 \<Rightarrow>
                     (let page = checked_page tx gate (cq_SourceScope req) page0;
                          c = new_connection tx ident req page
                      in (Inr (connectSuccess c),
                          \<lparr>kn_conns = mput (cn_id c) c (kn_conns k),
                           kn_idem = mput idemKey \<lparr>ir_operation = ''connect'', ir_requestDigest = dgst, ir_connectionID = cn_id c\<rparr> (kn_idem k)\<rparr>))))))"

definition GetConnectorStatus :: "bool \<Rightarrow> cIdentity \<Rightarrow> string \<Rightarrow> Kernel \<Rightarrow> connector_error + connector_status" where
  "GetConnectorStatus live ident i k =
    (if \<not> validIdentity ident \<or> \<not> validBoundedID i then Inl CInvalidInput
     else if \<not> live then Inl CCancelled
     else (case lookupActive ident i k of None \<Rightarrow> Inl CNotFoundOrDenied | Some c \<Rightarrow> Inr (statusSuccess c)))"

text \<open>The loop over a complete page: the objects, the revised IDs and the two counters.\<close>

type_synonym page_acc = "(string, cObject) gomap \<times> string list \<times> 32 word \<times> 32 word"

definition page_step :: "cObject \<Rightarrow> page_acc \<Rightarrow> page_acc" where
  "page_step ob = (\<lambda>(m, revised, admitted, deleted).
    if ob_Deleted ob then
      (if mget m (ob_ID ob) \<noteq> None then (mdel (ob_ID ob) m, revised @ [ob_ID ob], admitted, deleted + 1)
       else (m, revised, admitted, deleted))
    else (mput (ob_ID ob) ob m, (if mget m (ob_ID ob) \<noteq> Some ob then revised @ [ob_ID ob] else revised), admitted + 1, deleted))"

definition apply_page :: "cObject list \<Rightarrow> (string, cObject) gomap \<Rightarrow> page_acc" where
  "apply_page obs m = fold page_step obs (m, [], 0, 0)"

definition reconcile_page :: "SnapshotPage \<Rightarrow> connection \<Rightarrow> connection \<times> string list \<times> 32 word \<times> 32 word" where
  "reconcile_page page c =
    (if pg_Complete page then
       (let (m, revised, admitted, deleted) = apply_page (pg_Objects page) (cn_objects c)
        in (c\<lparr>cn_state := stateReady, cn_lastError := [], cn_objects := m, cn_cursor := pg_Cursor page, cn_sourceRevision := pg_Revision page,
              cn_connectorDigest := pg_ConnectorDigest page, cn_observedAt := pg_ObservedAt page\<rparr>, revised, admitted, deleted))
     else (c\<lparr>cn_state := stateDegraded, cn_lastError := pg_ErrorCode page\<rparr>, [], 0, 0))"

definition ReconcileConnector :: "text_env \<Rightarrow> bool \<Rightarrow> DelegatedGate option \<Rightarrow> (string \<Rightarrow> string \<Rightarrow> string \<Rightarrow> connector_error + SnapshotPage)
    \<Rightarrow> cIdentity \<Rightarrow> ReconcileConnectorRequest \<Rightarrow> Kernel \<Rightarrow> (connector_error + reconcile_success) \<times> Kernel \<times> DelegatedGate option" where
  "ReconcileConnector tx live gate delta ident req k =
    (if \<not> validIdentity ident then (Inl CInvalidInput, k, gate)
     else if \<not> live then (Inl CCancelled, k, gate)
     else (case rr_ConnectionId req of
       None \<Rightarrow> (Inl CInvalidInput, k, gate)
     | Some wanted \<Rightarrow>
       if rr_KnownCursor req = [] \<or> rr_IdempotencyKey req = [] \<or> rr_Reason req = [] then (Inl CInvalidInput, k, gate)
       else
       (let dgst = reconcileDigest tx req; idemKey = idempotencyKey ident ''reconcile'' (rr_IdempotencyKey req)
        in (case mget (kn_idem k) idemKey of
              Some row \<Rightarrow>
                if ir_requestDigest row \<noteq> dgst then (Inl CIdempotencyConflict, k, gate)
                else (case lookupActive ident (ir_connectionID row) k of
                        None \<Rightarrow> (Inl CNotFoundOrDenied, k, gate)
                      | Some c \<Rightarrow> (Inr \<lparr>rs_ConnectionId = cn_id c, rs_ConnState = cn_state c, rs_PriorCursor = rr_KnownCursor req,
                                       rs_NextCursor = cn_cursor c, rs_AdmittedObjectCount = 0, rs_DeletedObjectCount = 0,
                                       rs_PageComplete = True\<rparr>, k, gate))
            | None \<Rightarrow>
                (case lookupActive ident wanted k of
                   None \<Rightarrow> (Inl CNotFoundOrDenied, k, gate)
                 | Some c \<Rightarrow>
                     if cn_cursor c \<noteq> rr_KnownCursor req then (Inl CNotFoundOrDenied, k, gate)
                     else (case delta (cn_owner c) (cn_repo c) (cn_cursor c) of
                             Inl err \<Rightarrow> (Inl err, k, gate)
                           | Inr page0 \<Rightarrow>
                               (let page = checked_page tx gate (cn_sourceScope c) page0;
                                    (c', revised, admitted, deleted) = reconcile_page page c;
                                    gate' = (if revised \<noteq> [] then map_option (InvalidateObjects revised) gate else gate)
                                in (Inr \<lparr>rs_ConnectionId = cn_id c, rs_ConnState = cn_state c', rs_PriorCursor = cn_cursor c,
                                        rs_NextCursor = cn_cursor c', rs_AdmittedObjectCount = admitted, rs_DeletedObjectCount = deleted,
                                        rs_PageComplete = pg_Complete page\<rparr>,
                                    \<lparr>kn_conns = mput wanted c' (kn_conns k),
                                     kn_idem = mput idemKey \<lparr>ir_operation = ''reconcile'', ir_requestDigest = dgst, ir_connectionID = cn_id c\<rparr>
                                                 (kn_idem k)\<rparr>, gate'))))))))"

definition RevokeConnector :: "text_env \<Rightarrow> bool \<Rightarrow> cIdentity \<Rightarrow> string \<Rightarrow> string \<Rightarrow> Kernel \<Rightarrow> (connector_error + string) \<times> Kernel" where
  "RevokeConnector tx live ident i key k =
    (if \<not> validIdentity ident \<or> \<not> validBoundedID i \<or> key = [] then (Inl CInvalidInput, k)
     else if \<not> live then (Inl CCancelled, k)
     else
       (let idemKey = idempotencyKey ident ''revoke'' key; dgst = tx_sha tx (i @ [NUL] @ key)
        in (case mget (kn_idem k) idemKey of
              Some row \<Rightarrow>
                if ir_requestDigest row \<noteq> dgst then (Inl CIdempotencyConflict, k)
                else (case lookup_owned ident (ir_connectionID row) k of
                        None \<Rightarrow> (Inl CNotFoundOrDenied, k)
                      | Some c \<Rightarrow> if cn_state c \<noteq> stateRevoked \<and> cn_state c \<noteq> statePurged then (Inl CNotFoundOrDenied, k)
                                else (Inr (cn_id c), k))
            | None \<Rightarrow>
                (case lookup_owned ident i k of
                   None \<Rightarrow> (Inl CNotFoundOrDenied, k)
                 | Some c \<Rightarrow>
                     if cn_state c = statePurged then (Inl CNotFoundOrDenied, k)
                     else (Inr (cn_id c),
                           \<lparr>kn_conns = mput i (c\<lparr>cn_state := stateRevoked, cn_aclEpoch := cn_aclEpoch c + 1\<rparr>) (kn_conns k),
                            kn_idem = mput idemKey \<lparr>ir_operation = ''revoke'', ir_requestDigest = dgst, ir_connectionID = cn_id c\<rparr>
                                        (kn_idem k)\<rparr>)))))"

definition PurgeConnector :: "text_env \<Rightarrow> bool \<Rightarrow> cIdentity \<Rightarrow> string \<Rightarrow> string \<Rightarrow> Kernel \<Rightarrow> (connector_error + string \<times> 32 word) \<times> Kernel" where
  "PurgeConnector tx live ident i key k =
    (if \<not> validIdentity ident \<or> \<not> validBoundedID i \<or> key = [] then (Inl CInvalidInput, k)
     else if \<not> live then (Inl CCancelled, k)
     else
       (let idemKey = idempotencyKey ident ''purge'' key; dgst = tx_sha tx (i @ [NUL] @ ''purge'' @ [NUL] @ key)
        in (case mget (kn_idem k) idemKey of
              Some row \<Rightarrow>
                if ir_requestDigest row \<noteq> dgst then (Inl CIdempotencyConflict, k)
                else (case lookup_owned ident (ir_connectionID row) k of
                        None \<Rightarrow> (Inl CNotFoundOrDenied, k)
                      | Some c \<Rightarrow> if cn_state c \<noteq> statePurged then (Inl CNotFoundOrDenied, k) else (Inr (cn_id c, 0), k))
            | None \<Rightarrow>
                (case lookup_owned ident i k of
                   None \<Rightarrow> (Inl CNotFoundOrDenied, k)
                 | Some c \<Rightarrow>
                     if cn_state c = statePurged then (Inl CNotFoundOrDenied, k)
                     else (Inr (cn_id c, of_nat (length (cn_objects c))),
                           \<lparr>kn_conns = mput i (c\<lparr>cn_objects := [], cn_state := statePurged, cn_aclEpoch := cn_aclEpoch c + 1\<rparr>) (kn_conns k),
                            kn_idem = mput idemKey \<lparr>ir_operation = ''purge'', ir_requestDigest = dgst, ir_connectionID = cn_id c\<rparr>
                                        (kn_idem k)\<rparr>)))))"


section \<open>Answers\<close>

definition buildAnswer :: "text_env \<Rightarrow> connection \<Rightarrow> cObject list \<Rightarrow> string \<Rightarrow> ConnectorAnswer" where
  "buildAnswer tx c matches query =
    (case matches of
       [] \<Rightarrow> \<lparr>an_Status = Abstained, an_Prose = [], an_Claims = [], an_DegradedReasons = [''absent_support'']\<rparr>
     | ob # _ \<Rightarrow>
         (let anchor = \<lparr>gh_Kind = (if ob_Kind ob = ''issue'' then ''issue'' else ''repository_file''), gh_Owner = cn_owner c, gh_Repo = cn_repo c,
                        gh_Path = ob_Path ob, gh_IssueNumber = of_int (ob_IssueNumber ob), gh_StartLine = of_int (ob_StartLine ob),
                        gh_EndLine = of_int (ob_EndLine ob), gh_SupportingTextDigest = tx_sha tx (ob_Body ob),
                        gh_EvidenceId = tx_sha tx (cn_id c @ '':'' @ ob_ID ob),
                        gh_SourceRevisionId = tx_sha tx (ob_Version ob @ '':'' @ ob_ID ob)\<rparr>;
              claim = \<lparr>ac_ClaimId = tx_sha tx (ob_ID ob @ '':'' @ query),
                       ac_Statement = Bytes (''Evidence matches query in '' @ ob_Title ob) 4096,
                       ac_Citations = [anchor], ac_ConfidencePerMille = 800\<rparr>
          in \<lparr>an_Status = (if cn_state c = stateDegraded then Partial else Answered),
              an_Prose = Bytes (''Found '' @ ob_Title ob @ '': '' @ ob_Body ob) 8192, an_Claims = [claim],
              an_DegradedReasons = (if cn_state c = stateDegraded then [''partial_coverage''] else [])\<rparr>))"

definition querySuccess :: "connection \<Rightarrow> ConnectorAnswer \<Rightarrow> query_success" where
  "querySuccess c answer = \<lparr>qs_Answer = answer, qs_ConnectionId = cn_id c, qs_State = cn_state c\<rparr>"

definition delegatedAbstain :: "connection \<Rightarrow> string \<Rightarrow> query_success" where
  "delegatedAbstain c reason =
    querySuccess c \<lparr>an_Status = Abstained, an_Prose = [], an_Claims = [], an_DegradedReasons = [reason]\<rparr>"


section \<open>The sections of a query\<close>

record query_ctx =
  qc_ident :: cIdentity
  qc_grantID :: string
  qc_query :: string
  qc_connID :: string
  qc_scope :: string
  qc_epoch :: "64 word"
  qc_fresh :: DelegatedSourceFreshness

type_synonym query_result = "connector_error + query_success"

datatype qphase =
    QIdle
  | QCaptured query_ctx
  | QRefused query_ctx string
  | QPreauthorized query_ctx DelegatedGrantRecord
  | QEnumerated query_ctx DelegatedGrantRecord "cObject list"
  | QAuthorizing query_ctx DelegatedGrantRecord "cObject list" authorizing
  | QAuthorized query_ctx DelegatedGrantRecord "cObject list" "string list \<times> DelegatedReceipt"
  | QDecided query_ctx DelegatedGrantRecord "string + cObject list \<times> string list"
  | QDone query_ctx query_result

definition matching :: "text_env \<Rightarrow> connection \<Rightarrow> string \<Rightarrow> cObject list" where
  "matching tx c query = filter (\<lambda>ob. objectMatchesQuery tx ob query) (map snd (cn_objects c))"

definition query_context :: "text_env \<Rightarrow> cIdentity \<Rightarrow> QueryRequest \<Rightarrow> connection \<Rightarrow> query_ctx" where
  "query_context tx ident req c =
    \<lparr>qc_ident = ident, qc_grantID = qy_DelegatedGrantID req, qc_query = tx_lower tx (trim_space (qy_Query req)), qc_connID = cn_id c,
     qc_scope = cn_sourceScope c, qc_epoch = cn_aclEpoch c,
     qc_fresh = \<lparr>fr_ConnectorDigest = cn_connectorDigest c, fr_SourceRevision = cn_sourceRevision c, fr_SourceCursor = cn_cursor c,
                 fr_ObservedAt = cn_observedAt c\<rparr>\<rparr>"

text \<open>The context of a query that was refused before it read a connection.\<close>

definition no_context :: "cIdentity \<Rightarrow> query_ctx" where
  "no_context ident = \<lparr>qc_ident = ident, qc_grantID = [], qc_query = [], qc_connID = [], qc_scope = [], qc_epoch = 0, qc_fresh = no_freshness\<rparr>"

definition query_begin :: "text_env \<Rightarrow> bool \<Rightarrow> DelegatedGate option \<Rightarrow> cIdentity \<Rightarrow> QueryRequest \<Rightarrow> Kernel \<Rightarrow> qphase" where
  "query_begin tx live gate ident req k =
    (if \<not> validIdentity ident then QDone (no_context ident) (Inl CInvalidInput)
     else if \<not> live then QDone (no_context ident) (Inl CCancelled)
     else (case qy_ConnectionId req of
             None \<Rightarrow> QDone (no_context ident) (Inl CInvalidInput)
           | Some i \<Rightarrow>
               if qy_Query req = [] \<or> qy_IdempotencyKey req = [] then QDone (no_context ident) (Inl CInvalidInput)
               else (case lookupActive ident i k of
                       None \<Rightarrow> QDone (no_context ident) (Inl CNotFoundOrDenied)
                     | Some c \<Rightarrow>
                         (let ctx = query_context tx ident req c
                          in if opaque tx gate (cn_sourceScope c) then QCaptured ctx
                             else QDone ctx (Inr (querySuccess c (buildAnswer tx c (matching tx c (qc_query ctx)) (qc_query ctx))))))))"

definition revalidate :: "query_ctx \<Rightarrow> Kernel \<Rightarrow> connection option" where
  "revalidate ctx k =
    (case lookupActive (qc_ident ctx) (qc_connID ctx) k of
       None \<Rightarrow> None
     | Some c \<Rightarrow> if cn_aclEpoch c \<noteq> qc_epoch ctx then None else Some c)"

definition query_refused :: "query_ctx \<Rightarrow> string \<Rightarrow> Kernel \<Rightarrow> qphase" where
  "query_refused ctx outcome k =
    (case revalidate ctx k of
       None \<Rightarrow> QDone ctx (Inl CNotFoundOrDenied)
     | Some c \<Rightarrow> QDone ctx (Inr (delegatedAbstain c (''delegated_'' @ outcome))))"

definition query_enumerate :: "text_env \<Rightarrow> query_ctx \<Rightarrow> DelegatedGrantRecord \<Rightarrow> Kernel \<Rightarrow> qphase" where
  "query_enumerate tx ctx r k =
    (case revalidate ctx k of
       None \<Rightarrow> QDone ctx (Inl CNotFoundOrDenied)
     | Some c \<Rightarrow> QEnumerated ctx r (matching tx c (qc_query ctx)))"

text \<open>The sections of \<^verbatim>\<open>gateDelegatedQuery\<close>, outside the kernel's mutex.\<close>

definition query_authorize :: "text_env \<Rightarrow> bool \<Rightarrow> bool option \<Rightarrow> go_time \<Rightarrow> query_ctx \<Rightarrow> DelegatedGrantRecord \<Rightarrow> cObject list \<Rightarrow> DelegatedGate
    \<Rightarrow> qphase \<times> DelegatedGate" where
  "query_authorize tx storeLive sink now ctx r matches g =
    (case authorize_begin tx storeLive now (qc_ident ctx) (qc_scope ctx) (qc_grantID ctx) (map ob_ID (sort_key ob_ID matches)) (qc_fresh ctx) g of
       Inl receipt \<Rightarrow> (let (f, g') = mustAppendReceipt tx sink receipt g in (QAuthorized ctx r matches ([], f), g'))
     | Inr p \<Rightarrow> (QAuthorizing ctx r matches p, g))"

definition query_hydrate :: "text_env \<Rightarrow> (string \<Rightarrow> hydration) \<Rightarrow> bool \<Rightarrow> bool option \<Rightarrow> go_time \<Rightarrow> go_time \<Rightarrow> go_time \<Rightarrow> query_ctx
    \<Rightarrow> DelegatedGrantRecord \<Rightarrow> cObject list \<Rightarrow> string list \<times> DelegatedReceipt \<Rightarrow> DelegatedGate \<Rightarrow> qphase \<times> DelegatedGate" where
  "query_hydrate tx ask storeLive sink now t1 t2 ctx r matches res g =
    (case gate_permitted matches res of
       Inl abstain \<Rightarrow> (QDecided ctx r (Inl abstain), g)
     | Inr permitted \<Rightarrow>
         (let (hyd, g') = hydrateAuthorized tx ask storeLive sink now t1 t2 (qc_ident ctx) (qc_scope ctx) r permitted (qc_fresh ctx) g
          in (QDecided ctx r (gate_hydrated tx (qc_query ctx) matches permitted hyd), g')))"

text \<open>The last section: of the surviving matches only those that are still admitted unchanged.\<close>

definition degrade :: "string list \<Rightarrow> ConnectorAnswer \<Rightarrow> ConnectorAnswer" where
  "degrade reasons a =
    (if reasons = [] then a
     else a\<lparr>an_Status := (if an_Status a = Answered then Partial else an_Status a), an_DegradedReasons := an_DegradedReasons a @ reasons\<rparr>)"

definition query_end :: "text_env \<Rightarrow> query_ctx \<Rightarrow> string + cObject list \<times> string list \<Rightarrow> Kernel \<Rightarrow> qphase" where
  "query_end tx ctx decision k =
    (case revalidate ctx k of
       None \<Rightarrow> QDone ctx (Inl CNotFoundOrDenied)
     | Some c \<Rightarrow>
         (case decision of
            Inl abstain \<Rightarrow> QDone ctx (Inr (delegatedAbstain c abstain))
          | Inr (matches, reasons) \<Rightarrow>
              (let admitted = filter (\<lambda>ob. mget (cn_objects c) (ob_ID ob) \<noteq> None) matches;
                   current = filter (\<lambda>ob. mget (cn_objects c) (ob_ID ob) = Some ob \<and> objectMatchesQuery tx ob (qc_query ctx)) admitted;
                   changed = (length current < length admitted);
                   reasons' = (if changed then reasons @ [''delegated_object_changed''] else reasons)
               in if current = [] \<and> changed then QDone ctx (Inr (delegatedAbstain c ''delegated_object_changed''))
                  else QDone ctx (Inr (querySuccess c (degrade reasons' (buildAnswer tx c current (qc_query ctx))))))))"


section \<open>Overlapping calls\<close>

datatype gphase =
    GIdle
  | GPrepared cIdentity DelegatedGrant
  | GRecorded bool DelegatedGrant
  | GRevoked cIdentity DelegatedGrantRecord string

text \<open>\<open>cs_vouched\<close> is what the provider answered: during the hydration phase of a query it
  returned the object unchanged and then allowed it, and afterwards the grant was still
  valid in the store.\<close>

record csys =
  cs_kernel :: Kernel
  cs_gate :: "DelegatedGate option"
  cs_query :: "nat \<Rightarrow> qphase"
  cs_admin :: "nat \<Rightarrow> gphase"
  cs_vouched :: "(nat \<times> DelegatedGrant \<times> cObject) set"

definition vouches :: "text_env \<Rightarrow> DelegatedGate \<Rightarrow> bool \<Rightarrow> go_time \<Rightarrow> go_time \<Rightarrow> (string \<Rightarrow> hydration) \<Rightarrow> nat \<Rightarrow> DelegatedGrantRecord
    \<Rightarrow> (nat \<times> DelegatedGrant \<times> cObject) set" where
  "vouches tx g storeLive t1 t2 ask q r =
    (if recheck tx g storeLive t1 t2 (dg_ID (gq_Grant r)) (gq_Epoch r) = []
     then {(q, gq_Grant r, ob) | ob. ask (ob_ID ob) = (True, Some ob, Some True)} else {})"

text \<open>\<open>snap\<close> and \<open>delta\<close> are the answers the provider may give, \<open>calls\<close> the connect commands
  that clients may send.\<close>

inductive cstep :: "text_env \<Rightarrow> (cIdentity \<Rightarrow> ConnectRequest \<Rightarrow> bool) \<Rightarrow> (string \<Rightarrow> string \<Rightarrow> connector_error + SnapshotPage \<Rightarrow> bool)
    \<Rightarrow> (string \<Rightarrow> string \<Rightarrow> string \<Rightarrow> connector_error + SnapshotPage \<Rightarrow> bool) \<Rightarrow> csys \<Rightarrow> csys \<Rightarrow> bool"
  for tx :: text_env and calls snap delta where
  c_connect: "calls ident req
    \<Longrightarrow> snap (cq_Owner req) (cq_Repo req) page \<Longrightarrow> ConnectGitHubSource tx live (cs_gate s) page ident req (cs_kernel s) = (res, k')
    \<Longrightarrow> cstep tx calls snap delta s (s\<lparr>cs_kernel := k'\<rparr>)"
| c_reconcile: "(\<And>ow re cu. delta ow re cu (src ow re cu)) \<Longrightarrow> ReconcileConnector tx live (cs_gate s) src ident rreq (cs_kernel s) = (res, k', gate')
    \<Longrightarrow> cstep tx calls snap delta s (s\<lparr>cs_kernel := k', cs_gate := gate'\<rparr>)"
| c_revoke: "RevokeConnector tx live ident i key (cs_kernel s) = (res, k') \<Longrightarrow> cstep tx calls snap delta s (s\<lparr>cs_kernel := k'\<rparr>)"
| c_purge: "PurgeConnector tx live ident i key (cs_kernel s) = (res, k') \<Longrightarrow> cstep tx calls snap delta s (s\<lparr>cs_kernel := k'\<rparr>)"
| q_begin: "cs_query s q = QIdle
    \<Longrightarrow> cstep tx calls snap delta s (s\<lparr>cs_query := (cs_query s)(q := query_begin tx live (cs_gate s) ident qreq (cs_kernel s))\<rparr>)"
| q_preauthorize: "cs_query s q = QCaptured ctx \<Longrightarrow> cs_gate s = Some g
    \<Longrightarrow> preauthorizeQuery tx live promoted storeLive sink now (qc_ident ctx) (qc_scope ctx) (qc_grantID ctx) (qc_fresh ctx) g = (res, g')
    \<Longrightarrow> cstep tx calls snap delta s (s\<lparr>cs_gate := Some g', cs_query := (cs_query s)(q :=
          (case res of Inl outcome \<Rightarrow> QRefused ctx outcome | Inr r \<Rightarrow> QPreauthorized ctx r))\<rparr>)"
| q_refused: "cs_query s q = QRefused ctx outcome
    \<Longrightarrow> cstep tx calls snap delta s (s\<lparr>cs_query := (cs_query s)(q := query_refused ctx outcome (cs_kernel s))\<rparr>)"
| q_enumerate: "cs_query s q = QPreauthorized ctx r
    \<Longrightarrow> cstep tx calls snap delta s (s\<lparr>cs_query := (cs_query s)(q := query_enumerate tx ctx r (cs_kernel s))\<rparr>)"
| q_authorize: "cs_query s q = QEnumerated ctx r matches \<Longrightarrow> cs_gate s = Some g
    \<Longrightarrow> query_authorize tx storeLive sink now ctx r matches g = (ph, g')
    \<Longrightarrow> cstep tx calls snap delta s (s\<lparr>cs_gate := Some g', cs_query := (cs_query s)(q := ph)\<rparr>)"
| q_probe: "cs_query s q = QAuthorizing ctx r matches p \<Longrightarrow> cs_gate s = Some g
    \<Longrightarrow> authorize_end tx probe storeLive sink t1 t2 (qc_grantID ctx) p g = (res, g')
    \<Longrightarrow> cstep tx calls snap delta s (s\<lparr>cs_gate := Some g', cs_query := (cs_query s)(q := QAuthorized ctx r matches res)\<rparr>)"
| q_hydrate: "cs_query s q = QAuthorized ctx r matches res \<Longrightarrow> cs_gate s = Some g
    \<Longrightarrow> query_hydrate tx ask storeLive sink now t1 t2 ctx r matches res g = (ph, g')
    \<Longrightarrow> cstep tx calls snap delta s (s\<lparr>cs_gate := Some g', cs_query := (cs_query s)(q := ph),
          cs_vouched := cs_vouched s \<union> vouches tx g storeLive t1 t2 ask q r\<rparr>)"
| q_end: "cs_query s q = QDecided ctx r decision
    \<Longrightarrow> cstep tx calls snap delta s (s\<lparr>cs_query := (cs_query s)(q := query_end tx ctx decision (cs_kernel s))\<rparr>)"
| g_issue: "cs_admin s a = GIdle \<Longrightarrow> cs_gate s = Some g \<Longrightarrow> issue_begin tx live now issuer storeLive grant g = (res, g')
    \<Longrightarrow> cstep tx calls snap delta s (s\<lparr>cs_gate := Some g', cs_admin := (cs_admin s)(a :=
          (case res of Inl err \<Rightarrow> GIdle | Inr who \<Rightarrow> GPrepared who grant))\<rparr>)"
| g_record: "cs_admin s a = GPrepared who grant \<Longrightarrow> cs_gate s = Some g \<Longrightarrow> issue_record tx sink now who grant g = (ok, g')
    \<Longrightarrow> cstep tx calls snap delta s (s\<lparr>cs_gate := Some g', cs_admin := (cs_admin s)(a := GRecorded ok grant)\<rparr>)"
| g_issued: "cs_admin s a = GRecorded ok grant \<Longrightarrow> cs_gate s = Some g \<Longrightarrow> issue_end ok storeLive grant g = (err, g')
    \<Longrightarrow> cstep tx calls snap delta s (s\<lparr>cs_gate := Some g', cs_admin := (cs_admin s)(a := GIdle)\<rparr>)"
| g_revoke: "cs_admin s a = GIdle \<Longrightarrow> cs_gate s = Some g \<Longrightarrow> revoke_store live issuer storeLive grantID g = (rres, g')
    \<Longrightarrow> cstep tx calls snap delta s (s\<lparr>cs_gate := Some g', cs_admin := (cs_admin s)(a :=
          (case rres of Inl err \<Rightarrow> GIdle | Inr (who, r) \<Rightarrow> GRevoked who r grantID))\<rparr>)"
| g_revoked: "cs_admin s a = GRevoked who r grantID \<Longrightarrow> cs_gate s = Some g \<Longrightarrow> revoke_finish tx sink now who r grantID g = (err, g')
    \<Longrightarrow> cstep tx calls snap delta s (s\<lparr>cs_gate := Some g', cs_admin := (cs_admin s)(a := GIdle)\<rparr>)"

definition cinit :: "DelegatedGate option \<Rightarrow> csys" where
  "cinit gate = \<lparr>cs_kernel = NewKernel, cs_gate = gate, cs_query = (\<lambda>_. QIdle), cs_admin = (\<lambda>_. GIdle), cs_vouched = {}\<rparr>"

definition fresh_gate :: "text_env \<Rightarrow> DelegatedGate option \<Rightarrow> bool" where
  "fresh_gate tx gate \<longleftrightarrow> (case gate of None \<Rightarrow> True
     | Some g \<Rightarrow> \<exists>provider issuer promotion cfg. NewDelegatedGate tx provider issuer promotion cfg = Inr g)"

text \<open>The NUL byte separates the fields a connection ID is the hash of.  The kernel does not
  check for it, so what is said of IDs is said of commands without it.\<close>

definition nul_free_calls :: "(cIdentity \<Rightarrow> ConnectRequest \<Rightarrow> bool) \<Rightarrow> bool" where
  "nul_free_calls calls \<longleftrightarrow> (\<forall>ident req. calls ident req
     \<longrightarrow> nul_free (ci_Tenant ident) \<and> nul_free (ci_Principal ident) \<and> nul_free (cq_IdempotencyKey req))"

definition creach :: "text_env \<Rightarrow> (cIdentity \<Rightarrow> ConnectRequest \<Rightarrow> bool) \<Rightarrow> (string \<Rightarrow> string \<Rightarrow> connector_error + SnapshotPage \<Rightarrow> bool)
    \<Rightarrow> (string \<Rightarrow> string \<Rightarrow> string \<Rightarrow> connector_error + SnapshotPage \<Rightarrow> bool) \<Rightarrow> csys \<Rightarrow> bool" where
  "creach tx calls snap delta s \<longleftrightarrow> (\<exists>gate. fresh_gate tx gate \<and> (cstep tx calls snap delta)\<^sup>*\<^sup>* (cinit gate) s)"

end
