(* ===== verification/Connector_Safety.thy ===== *)
theory Connector_Safety
  imports Connector
begin

text \<open>
  What the connector kernel of \<^theory_text>\<open>Connector\<close> guarantees: which objects a
  connection holds, what revocation and purge cut off, and what a query can be served
  while other calls change connections, objects and grants.
\<close>

section \<open>The provider's objects\<close>

text \<open>A complete page applied to a map, as an update of partial functions.\<close>

definition page_map :: "cObject list \<Rightarrow> (string \<rightharpoonup> cObject) \<Rightarrow> (string \<rightharpoonup> cObject)" where
  "page_map obs m = fold (\<lambda>ob m. m(ob_ID ob := (if ob_Deleted ob then None else Some ob))) obs m"

lemma page_step_map: "mget (fst (page_step ob (m, rv, ad, de))) = (mget m)(ob_ID ob := (if ob_Deleted ob then None else Some ob))"
  by (auto simp: page_step_def fun_eq_iff)

lemma page_map_Cons: "page_map (ob # obs) m = page_map obs (m(ob_ID ob := (if ob_Deleted ob then None else Some ob)))"
  by (simp add: page_map_def)

lemma apply_page_map: "mget (fst (apply_page obs m)) = page_map obs (mget m)"
proof -
  have "mget (fst (fold page_step obs (m, rv, ad, de))) = page_map obs (mget m)" for rv ad de
  proof (induction obs arbitrary: m rv ad de)
    case (Cons ob obs)
    obtain m' rv' ad' de' where st: "page_step ob (m, rv, ad, de) = (m', rv', ad', de')" by (metis prod_cases4)
    have "mget m' = (mget m)(ob_ID ob := (if ob_Deleted ob then None else Some ob))" using page_step_map[of ob m rv ad de] unfolding st fst_conv .
    then show ?case unfolding page_map_Cons by (simp only: fold_simps st Cons.IH)
  qed (simp add: page_map_def)
  then show ?thesis by (simp add: apply_page_def)
qed

definition objects_ok :: "(string, cObject) gomap \<Rightarrow> bool" where
  "objects_ok m \<longleftrightarrow> wf_map m \<and> (\<forall>i ob. mget m i = Some ob \<longrightarrow> ob_ID ob = i)"

lemma objects_ok_Nil [simp]: "objects_ok []"
  by (simp add: objects_ok_def)

lemma objects_ok_mput: "objects_ok m \<Longrightarrow> objects_ok (mput (ob_ID ob) ob m)"
  by (simp add: objects_ok_def)

lemma objects_ok_mdel: "objects_ok m \<Longrightarrow> objects_ok (mdel i m)"
  by (simp add: objects_ok_def)

lemma admit_all_ok: "objects_ok m \<Longrightarrow> objects_ok (admit_all obs m)"
  unfolding admit_all_def by (induction obs arbitrary: m) (simp_all add: objects_ok_mput)

lemma apply_page_ok: "objects_ok m \<Longrightarrow> objects_ok (fst (apply_page obs m))"
proof -
  have "objects_ok m \<Longrightarrow> objects_ok (fst (fold page_step obs (m, rv, ad, de)))" for rv ad de
  proof (induction obs arbitrary: m rv ad de)
    case (Cons ob obs)
    obtain m' rv' ad' de' where st: "page_step ob (m, rv, ad, de) = (m', rv', ad', de')" by (metis prod_cases4)
    have "objects_ok m'"
      using objects_ok_mput[OF Cons.prems, of ob] objects_ok_mdel[OF Cons.prems, of "ob_ID ob"] Cons.prems st
      by (simp add: page_step_def split: if_split_asm)
    then show ?case using Cons.IH[of m' rv' ad' de'] st by simp
  qed simp
  then show "objects_ok m \<Longrightarrow> objects_ok (fst (apply_page obs m))" by (simp add: apply_page_def)
qed



section \<open>Connections\<close>

definition same_conn :: "connection \<Rightarrow> connection \<Rightarrow> bool" where
  "same_conn c c' \<longleftrightarrow> cn_id c' = cn_id c \<and> cn_tenant c' = cn_tenant c \<and> cn_principal c' = cn_principal c \<and> cn_owner c' = cn_owner c
     \<and> cn_repo c' = cn_repo c \<and> cn_sourceScope c' = cn_sourceScope c \<and> cn_connectKey c' = cn_connectKey c
     \<and> cn_requestDigest c' = cn_requestDigest c"

definition conn_closed :: "connection \<Rightarrow> bool" where
  "conn_closed c \<longleftrightarrow> cn_state c = stateRevoked \<or> cn_state c = statePurged"

definition conn_ok :: "text_env \<Rightarrow> Kernel \<Rightarrow> string \<Rightarrow> connection \<Rightarrow> bool" where
  "conn_ok tx k i c \<longleftrightarrow> cn_id c = i \<and> objects_ok (cn_objects c) \<and> (cn_state c = statePurged \<longrightarrow> cn_objects c = [])
     \<and> nul_free (cn_tenant c) \<and> nul_free (cn_principal c) \<and> nul_free (cn_connectKey c)
     \<and> i = connection_identity tx connectionDomain (cn_tenant c) (cn_principal c) (cn_connectKey c) (cn_requestDigest c)
     \<and> mget (kn_idem k) (cn_tenant c @ ''|'' @ cn_principal c @ ''|'' @ ''connect'' @ ''|'' @ cn_connectKey c) \<noteq> None"

definition kinv :: "text_env \<Rightarrow> Kernel \<Rightarrow> bool" where
  "kinv tx k \<longleftrightarrow> (\<forall>i c. mget (kn_conns k) i = Some c \<longrightarrow> conn_ok tx k i c)"

text \<open>What every operation keeps of a connection.\<close>

definition kernel_keeps :: "Kernel \<Rightarrow> Kernel \<Rightarrow> bool" where
  "kernel_keeps k k' \<longleftrightarrow> (\<forall>i c. mget (kn_conns k) i = Some c \<longrightarrow>
     (\<exists>c'. mget (kn_conns k') i = Some c' \<and> same_conn c c' \<and> (conn_closed c \<longrightarrow> conn_closed c') \<and> (cn_state c = statePurged \<longrightarrow> c' = c)))"

lemma same_conn_refl [simp]: "same_conn c c"
  by (simp add: same_conn_def)

lemma kernel_keeps_refl [simp]: "kernel_keeps k k"
  by (simp add: kernel_keeps_def)

lemma kernel_keepsD:
  assumes "kernel_keeps k k'" "mget (kn_conns k) i = Some c"
  shows "\<exists>c'. mget (kn_conns k') i = Some c' \<and> same_conn c c' \<and> (conn_closed c \<longrightarrow> conn_closed c') \<and> (cn_state c = statePurged \<longrightarrow> c' = c)"
  using assms unfolding kernel_keeps_def by (elim allE[of _ i] allE[of _ c]) simp

lemma same_conn_trans: "same_conn c c' \<Longrightarrow> same_conn c' c'' \<Longrightarrow> same_conn c c''"
  by (simp add: same_conn_def)

lemma kernel_keeps_trans:
  assumes a: "kernel_keeps k k'" and b: "kernel_keeps k' k''"
  shows "kernel_keeps k k''"
  unfolding kernel_keeps_def
proof (intro allI impI)
  fix i c assume "mget (kn_conns k) i = Some c"
  from kernel_keepsD[OF a this] obtain c' where
    c': "mget (kn_conns k') i = Some c'" "same_conn c c'" "conn_closed c \<longrightarrow> conn_closed c'" "cn_state c = statePurged \<longrightarrow> c' = c" by blast
  from kernel_keepsD[OF b c'(1)] obtain c'' where
    c'': "mget (kn_conns k'') i = Some c''" "same_conn c' c''" "conn_closed c' \<longrightarrow> conn_closed c''" "cn_state c' = statePurged \<longrightarrow> c'' = c'" by blast
  show "\<exists>c'. mget (kn_conns k'') i = Some c' \<and> same_conn c c' \<and> (conn_closed c \<longrightarrow> conn_closed c') \<and> (cn_state c = statePurged \<longrightarrow> c' = c)"
    using c'(3,4) c''(3,4) by (intro exI[of _ c''] conjI c''(1) same_conn_trans[OF c'(2) c''(2)]) auto
qed

text \<open>A change of one connection, with one more idempotency row.\<close>

lemma kinv_update:
  assumes K: "kinv tx k" and c: "mget (kn_conns k) i = Some c" and same: "same_conn c c'" and ok: "objects_ok (cn_objects c')"
    and purged: "cn_state c' = statePurged \<longrightarrow> cn_objects c' = []"
  shows "kinv tx \<lparr>kn_conns = mput i c' (kn_conns k), kn_idem = mput key row (kn_idem k)\<rparr>"
proof -
  have "conn_ok tx k i c" using K c by (simp add: kinv_def)
  then have "conn_ok tx \<lparr>kn_conns = mput i c' (kn_conns k), kn_idem = mput key row (kn_idem k)\<rparr> i c'"
    using same ok purged by (simp add: conn_ok_def same_conn_def)
  moreover have "conn_ok tx \<lparr>kn_conns = mput i c' (kn_conns k), kn_idem = mput key row (kn_idem k)\<rparr> j d" if "mget (kn_conns k) j = Some d" for j d
    using K that by (simp add: kinv_def conn_ok_def)
  ultimately show ?thesis by (simp add: kinv_def)
qed

lemma kernel_keeps_update:
  assumes "mget (kn_conns k) i = Some c" "same_conn c c'" "conn_closed c \<longrightarrow> conn_closed c'" "cn_state c \<noteq> statePurged"
  shows "kernel_keeps k \<lparr>kn_conns = mput i c' (kn_conns k), kn_idem = idem\<rparr>"
  using assms by (auto simp: kernel_keeps_def)

lemma lookup_owned_Some: "lookup_owned ident i k = Some c \<longleftrightarrow> mget (kn_conns k) i = Some c \<and> owned ident c"
  by (auto simp: lookup_owned_def split: option.split_asm if_split_asm)

lemma lookupActive_Some: "lookupActive ident i k = Some c \<longleftrightarrow> mget (kn_conns k) i = Some c \<and> owned ident c \<and> \<not> conn_closed c"
  by (auto simp: lookupActive_def conn_closed_def lookup_owned_def split: option.split_asm if_split_asm)

lemma identity_inject:
  assumes "inj (tx_sha tx)" "connection_identity tx connectionDomain t p x d = connection_identity tx connectionDomain t' p' x' d'"
    and "nul_free t" "nul_free p" "nul_free x" "nul_free t'" "nul_free p'" "nul_free x'"
  shows "t = t' \<and> p = p' \<and> x = x'"
proof -
  have dom: "nul_free connectionDomain" by (simp add: nul_free_def connectionDomain_def)
  have "nul_join ([connectionDomain, t, p, x] @ [d]) = nul_join ([connectionDomain, t', p', x'] @ [d'])"
    using assms(2) injD[OF assms(1)] by (simp add: connection_identity_def)
  then show ?thesis
    using nul_join_snoc_inject[of "[connectionDomain, t, p, x]" "[connectionDomain, t', p', x']" d d'] assms(3-8) dom by simp
qed


lemma new_connection_id:
  "cn_id (new_connection tx ident req page) =
     connection_identity tx connectionDomain (ci_Tenant ident) (ci_Principal ident) (cq_IdempotencyKey req) (connectDigest tx req)"
  by (simp add: new_connection_def Let_def)

lemma new_connection_fields:
  "cn_tenant (new_connection tx ident req page) = ci_Tenant ident" "cn_principal (new_connection tx ident req page) = ci_Principal ident"
  "cn_connectKey (new_connection tx ident req page) = cq_IdempotencyKey req" "cn_requestDigest (new_connection tx ident req page) = connectDigest tx req"
  "cn_owner (new_connection tx ident req page) = cq_Owner req" "cn_repo (new_connection tx ident req page) = cq_Repo req"
  "objects_ok (cn_objects (new_connection tx ident req page))" "cn_state (new_connection tx ident req page) \<noteq> statePurged"
  by (simp_all add: new_connection_def Let_def admit_all_ok)

lemma Connect_cases:
  assumes "ConnectGitHubSource tx live gate snapshot ident req k = (res, k')" "k' \<noteq> k"
  obtains page0 where "snapshot = Inr page0" "mget (kn_idem k) (idempotencyKey ident ''connect'' (cq_IdempotencyKey req)) = None"
    "let c = new_connection tx ident req (checked_page tx gate (cq_SourceScope req) page0) in
      k' = \<lparr>kn_conns = mput (cn_id c) c (kn_conns k),
            kn_idem = mput (idempotencyKey ident ''connect'' (cq_IdempotencyKey req))
              \<lparr>ir_operation = ''connect'', ir_requestDigest = connectDigest tx req, ir_connectionID = cn_id c\<rparr> (kn_idem k)\<rparr>"
  using assms by (auto simp: ConnectGitHubSource_def Let_def split: if_split_asm option.split_asm sum.split_asm)

lemma Connect_keeps:
  assumes K: "kinv tx k" and inj: "inj (tx_sha tx)"
    and nf: "nul_free (ci_Tenant ident)" "nul_free (ci_Principal ident)" "nul_free (cq_IdempotencyKey req)"
    and run: "ConnectGitHubSource tx live gate snapshot ident req k = (res, k')"
  shows "kinv tx k' \<and> kernel_keeps k k'"
proof (cases "k' = k")
  case False
  let ?key = "idempotencyKey ident ''connect'' (cq_IdempotencyKey req)"
  obtain page0 where idem: "mget (kn_idem k) ?key = None"
    and k': "let c = new_connection tx ident req (checked_page tx gate (cq_SourceScope req) page0) in
      k' = \<lparr>kn_conns = mput (cn_id c) c (kn_conns k),
            kn_idem = mput ?key \<lparr>ir_operation = ''connect'', ir_requestDigest = connectDigest tx req, ir_connectionID = cn_id c\<rparr> (kn_idem k)\<rparr>"
    using Connect_cases[OF run False] by blast
  define c where "c = new_connection tx ident req (checked_page tx gate (cq_SourceScope req) page0)"
  define row where "row = \<lparr>ir_operation = ''connect'', ir_requestDigest = connectDigest tx req, ir_connectionID = cn_id c\<rparr>"
  have k'': "k' = \<lparr>kn_conns = mput (cn_id c) c (kn_conns k), kn_idem = mput ?key row (kn_idem k)\<rparr>"
    using k' by (simp add: c_def row_def Let_def)
  note f = new_connection_fields[of tx ident req "checked_page tx gate (cq_SourceScope req) page0", folded c_def]
  have key: "?key = cn_tenant c @ ''|'' @ cn_principal c @ ''|'' @ ''connect'' @ ''|'' @ cn_connectKey c" by (simp add: idempotencyKey_def f)
  have id: "cn_id c = connection_identity tx connectionDomain (cn_tenant c) (cn_principal c) (cn_connectKey c) (cn_requestDigest c)"
    unfolding f using new_connection_id c_def by simp
  have fresh: "mget (kn_conns k) (cn_id c) = None"
  proof (rule ccontr)
    assume "mget (kn_conns k) (cn_id c) \<noteq> None"
    then obtain d where d: "mget (kn_conns k) (cn_id c) = Some d" by blast
    then have ok: "conn_ok tx k (cn_id c) d" using K by (simp add: kinv_def)
    then have "connection_identity tx connectionDomain (cn_tenant c) (cn_principal c) (cn_connectKey c) (cn_requestDigest c) =
        connection_identity tx connectionDomain (cn_tenant d) (cn_principal d) (cn_connectKey d) (cn_requestDigest d)"
      using id unfolding conn_ok_def by argo
    from identity_inject[OF inj this] have "cn_tenant c = cn_tenant d \<and> cn_principal c = cn_principal d \<and> cn_connectKey c = cn_connectKey d"
      using nf ok f(1-3) by (simp add: conn_ok_def)
    then show False using ok idem unfolding conn_ok_def key by simp
  qed
  have "conn_ok tx k' (cn_id c) c" unfolding conn_ok_def k'' using f nf id key by simp
  moreover have "conn_ok tx k' j d" if "mget (kn_conns k) j = Some d" for j d
    using K that unfolding k'' by (simp add: kinv_def conn_ok_def)
  ultimately have "kinv tx k'" unfolding kinv_def k'' by simp
  moreover have "kernel_keeps k k'" unfolding kernel_keeps_def k'' using fresh by auto
  ultimately show ?thesis by simp
qed (use K in simp)

lemma reconcile_page_same:
  assumes "reconcile_page page c = (c', rv, ad, de)" "objects_ok (cn_objects c)"
  shows "same_conn c c' \<and> objects_ok (cn_objects c') \<and> \<not> conn_closed c'"
  using assms apply_page_ok[OF assms(2), of "pg_Objects page"]
  by (auto simp: reconcile_page_def same_conn_def conn_closed_def split: if_split_asm prod.split_asm)

lemma Reconcile_cases:
  assumes "ReconcileConnector tx live gate src ident req k = (res, k', gate')"
  shows "k' = k \<and> gate' = gate
    \<or> (\<exists>i c page0 c' rv ad de idem. lookupActive ident i k = Some c \<and> src (cn_owner c) (cn_repo c) (cn_cursor c) = Inr page0
        \<and> reconcile_page (checked_page tx gate (cn_sourceScope c) page0) c = (c', rv, ad, de)
        \<and> (\<exists>row. idem = mput (idempotencyKey ident ''reconcile'' (rr_IdempotencyKey req)) row (kn_idem k))
        \<and> k' = \<lparr>kn_conns = mput i c' (kn_conns k), kn_idem = idem\<rparr>
        \<and> gate' = (if rv \<noteq> [] then map_option (InvalidateObjects rv) gate else gate))"
proof (cases "k' = k \<and> gate' = gate")
  case False
  obtain i where i: "rr_ConnectionId req = Some i"
    using assms False by (auto simp: ReconcileConnector_def split: if_split_asm option.split_asm)
  have none: "mget (kn_idem k) (idempotencyKey ident ''reconcile'' (rr_IdempotencyKey req)) = None"
    using assms False i by (auto simp: ReconcileConnector_def Let_def split: if_split_asm option.split_asm)
  obtain c where c: "lookupActive ident i k = Some c"
    using assms False i none by (auto simp: ReconcileConnector_def Let_def split: if_split_asm option.split_asm)
  obtain page0 where p: "src (cn_owner c) (cn_repo c) (cn_cursor c) = Inr page0"
    using assms False i none c by (auto simp: ReconcileConnector_def Let_def split: if_split_asm sum.split_asm)
  obtain c' rv ad de where r: "reconcile_page (checked_page tx gate (cn_sourceScope c) page0) c = (c', rv, ad, de)" by (metis prod_cases4)
  have "k' = \<lparr>kn_conns = mput i c' (kn_conns k), kn_idem = mput (idempotencyKey ident ''reconcile'' (rr_IdempotencyKey req))
          \<lparr>ir_operation = ''reconcile'', ir_requestDigest = reconcileDigest tx req, ir_connectionID = cn_id c\<rparr> (kn_idem k)\<rparr>
      \<and> gate' = (if rv \<noteq> [] then map_option (InvalidateObjects rv) gate else gate)"
    using assms False i none c p r by (auto simp: ReconcileConnector_def Let_def split: if_split_asm)
  then show ?thesis using c p r by blast
qed simp


lemma Reconcile_keeps:
  assumes K: "kinv tx k" and run: "ReconcileConnector tx live gate src ident req k = (res, k', gate')"
  shows "kinv tx k' \<and> kernel_keeps k k'"
proof (cases "k' = k")
  case False
  then obtain i c page0 c' rv ad de key row where
    c: "lookupActive ident i k = Some c" and r: "reconcile_page (checked_page tx gate (cn_sourceScope c) page0) c = (c', rv, ad, de)"
    and k': "k' = \<lparr>kn_conns = mput i c' (kn_conns k), kn_idem = mput key row (kn_idem k)\<rparr>"
    using Reconcile_cases[OF run] by blast
  have m: "mget (kn_conns k) i = Some c" "\<not> conn_closed c" using c by (simp_all add: lookupActive_Some)
  have ok: "conn_ok tx k i c" using K m(1) by (simp add: kinv_def)
  then have s: "same_conn c c' \<and> objects_ok (cn_objects c') \<and> \<not> conn_closed c'" using reconcile_page_same[OF r] by (simp add: conn_ok_def)
  have "kinv tx k'" unfolding k' by (rule kinv_update[OF K m(1)]) (use s in \<open>auto simp: conn_closed_def\<close>)
  moreover have "kernel_keeps k k'" unfolding k' by (rule kernel_keeps_update[OF m(1)]) (use s m in \<open>auto simp: conn_closed_def\<close>)
  ultimately show ?thesis by simp
qed (use K in simp)

lemma Revoke_keeps:
  assumes K: "kinv tx k" and run: "RevokeConnector tx live ident i key k = (res, k')"
  shows "kinv tx k' \<and> kernel_keeps k k'"
proof (cases "k' = k")
  case False
  then obtain c ky row where m: "mget (kn_conns k) i = Some c" "cn_state c \<noteq> statePurged"
    and k': "k' = \<lparr>kn_conns = mput i (c\<lparr>cn_state := stateRevoked, cn_aclEpoch := cn_aclEpoch c + 1\<rparr>) (kn_conns k), kn_idem = mput ky row (kn_idem k)\<rparr>"
    using run by (auto simp: RevokeConnector_def Let_def lookup_owned_Some split: if_split_asm option.split_asm)
  have ok: "conn_ok tx k i c" using K m(1) by (simp add: kinv_def)
  have "kinv tx k'" unfolding k' by (rule kinv_update[OF K m(1)]) (use ok in \<open>simp_all add: same_conn_def conn_ok_def\<close>)
  moreover have "kernel_keeps k k'" unfolding k' by (rule kernel_keeps_update[OF m(1)]) (use m in \<open>simp_all add: same_conn_def conn_closed_def\<close>)
  ultimately show ?thesis by simp
qed (use K in simp)

lemma Purge_keeps:
  assumes K: "kinv tx k" and run: "PurgeConnector tx live ident i key k = (res, k')"
  shows "kinv tx k' \<and> kernel_keeps k k'"
proof (cases "k' = k")
  case False
  then obtain c ky row where m: "mget (kn_conns k) i = Some c" "cn_state c \<noteq> statePurged"
    and k': "k' = \<lparr>kn_conns = mput i (c\<lparr>cn_objects := [], cn_state := statePurged, cn_aclEpoch := cn_aclEpoch c + 1\<rparr>) (kn_conns k), kn_idem = mput ky row (kn_idem k)\<rparr>"
    using run by (auto simp: PurgeConnector_def Let_def lookup_owned_Some split: if_split_asm option.split_asm)
  have "kinv tx k'" unfolding k' by (rule kinv_update[OF K m(1)]) (simp_all add: same_conn_def)
  moreover have "kernel_keeps k k'" unfolding k' by (rule kernel_keeps_update[OF m(1)]) (use m in \<open>simp_all add: same_conn_def conn_closed_def\<close>)
  ultimately show ?thesis by simp
qed (use K in simp)


section \<open>The objects of a connection are the provider's\<close>

definition mirrors :: "(string \<Rightarrow> string \<Rightarrow> string \<Rightarrow> (string \<rightharpoonup> cObject)) \<Rightarrow> connection \<Rightarrow> bool" where
  "mirrors truth c \<longleftrightarrow> (cn_state c \<noteq> statePurged \<longrightarrow> mget (cn_objects c) = truth (cn_owner c) (cn_repo c) (cn_cursor c))"

text \<open>A provider whose complete pages lead from one of its states to another: \<open>truth\<close> is the
  state of a repository at a cursor.\<close>

definition faithful_source :: "(string \<Rightarrow> string \<Rightarrow> string \<Rightarrow> (string \<rightharpoonup> cObject)) \<Rightarrow> (string \<Rightarrow> string \<Rightarrow> connector_error + SnapshotPage \<Rightarrow> bool)
    \<Rightarrow> (string \<Rightarrow> string \<Rightarrow> string \<Rightarrow> connector_error + SnapshotPage \<Rightarrow> bool) \<Rightarrow> bool" where
  "faithful_source truth snap delta \<longleftrightarrow>
    (\<forall>ow re. truth ow re ''cursor-empty'' = Map.empty)
    \<and> (\<forall>ow re p. snap ow re (Inr p) \<and> pg_Complete p \<longrightarrow>
         page_map (filter (\<lambda>ob. \<not> ob_Deleted ob) (pg_Objects p)) Map.empty = truth ow re (pg_Cursor p))
    \<and> (\<forall>ow re cu p. delta ow re cu (Inr p) \<and> pg_Complete p \<longrightarrow> page_map (pg_Objects p) (truth ow re cu) = truth ow re (pg_Cursor p))"

lemma admit_all_map: "mget (admit_all obs m) = page_map (filter (\<lambda>ob. \<not> ob_Deleted ob) obs) (mget m)"
proof (induction obs arbitrary: m)
  case (Cons ob obs)
  show ?case
  proof (cases "ob_Deleted ob")
    case True
    then show ?thesis using Cons.IH[of m] by (simp add: admit_all_def)
  next
    case False
    have "mget (mput (ob_ID ob) ob m) = (mget m)(ob_ID ob := Some ob)" by (simp add: fun_eq_iff)
    then show ?thesis using Cons.IH[of "mput (ob_ID ob) ob m"] False by (simp only: admit_all_def fold_simps page_map_Cons filter.simps if_True if_False simp_thms)
  qed
qed (simp add: admit_all_def page_map_def)

lemma checked_page_complete: "pg_Complete (checked_page tx gate scope p) \<Longrightarrow> checked_page tx gate scope p = p \<and> pg_Complete p"
  by (auto simp: checked_page_def split: if_split_asm)

lemma mirrors_new:
  assumes F: "faithful_source truth snap delta" and p: "snap (cq_Owner req) (cq_Repo req) (Inr page0)"
  shows "mirrors truth (new_connection tx ident req (checked_page tx gate scope page0))"
proof (cases "pg_Complete (checked_page tx gate scope page0)")
  case True
  then have c: "checked_page tx gate scope page0 = page0" "pg_Complete page0" using checked_page_complete by blast+
  have "page_map (filter (\<lambda>ob. \<not> ob_Deleted ob) (pg_Objects page0)) Map.empty = truth (cq_Owner req) (cq_Repo req) (pg_Cursor page0)"
    using F p c(2) unfolding faithful_source_def by blast
  moreover have "mget [] = (Map.empty :: string \<rightharpoonup> cObject)" by (simp add: fun_eq_iff)
  ultimately have "mget (admit_all (pg_Objects page0) []) = truth (cq_Owner req) (cq_Repo req) (pg_Cursor page0)"
    by (simp only: admit_all_map)
  then show ?thesis using c by (simp add: mirrors_def new_connection_def Let_def)
next
  case False
  have "truth (cq_Owner req) (cq_Repo req) ''cursor-empty'' = Map.empty" using F unfolding faithful_source_def by blast
  then show ?thesis using False by (simp add: mirrors_def new_connection_def Let_def fun_eq_iff)
qed

lemma mirrors_reconcile:
  assumes F: "faithful_source truth snap delta" and m: "mirrors truth c" "cn_state c \<noteq> statePurged"
    and p: "delta (cn_owner c) (cn_repo c) (cn_cursor c) (Inr page0)"
    and r: "reconcile_page (checked_page tx gate scope page0) c = (c', rv, ad, de)"
  shows "mirrors truth c'"
proof (cases "pg_Complete (checked_page tx gate scope page0)")
  case True
  then have c: "checked_page tx gate scope page0 = page0" "pg_Complete page0" using checked_page_complete by blast+
  have t: "page_map (pg_Objects page0) (truth (cn_owner c) (cn_repo c) (cn_cursor c)) = truth (cn_owner c) (cn_repo c) (pg_Cursor page0)"
    using F p c(2) unfolding faithful_source_def by blast
  have "mget (cn_objects c) = truth (cn_owner c) (cn_repo c) (cn_cursor c)" using m by (simp add: mirrors_def)
  then have a: "mget (fst (apply_page (pg_Objects page0) (cn_objects c))) = truth (cn_owner c) (cn_repo c) (pg_Cursor page0)"
    using t by (simp only: apply_page_map)
  show ?thesis using r a c by (auto simp: reconcile_page_def mirrors_def split: prod.split_asm)
next
  case False
  then show ?thesis using r m by (auto simp: reconcile_page_def mirrors_def)
qed


section \<open>Queries in flight\<close>

fun phase_ctx :: "qphase \<Rightarrow> query_ctx option" where
  "phase_ctx QIdle = None"
| "phase_ctx (QCaptured ctx) = Some ctx"
| "phase_ctx (QRefused ctx _) = Some ctx"
| "phase_ctx (QPreauthorized ctx _) = Some ctx"
| "phase_ctx (QEnumerated ctx _ _) = Some ctx"
| "phase_ctx (QAuthorizing ctx _ _ _) = Some ctx"
| "phase_ctx (QAuthorized ctx _ _ _) = Some ctx"
| "phase_ctx (QDecided ctx _ _) = Some ctx"
| "phase_ctx (QDone _ _) = None"

fun phase_grant :: "qphase \<Rightarrow> DelegatedGrantRecord option" where
  "phase_grant (QPreauthorized _ r) = Some r"
| "phase_grant (QEnumerated _ r _) = Some r"
| "phase_grant (QAuthorizing _ r _ _) = Some r"
| "phase_grant (QAuthorized _ r _ _) = Some r"
| "phase_grant (QDecided _ r _) = Some r"
| "phase_grant _ = None"

definition ctx_ok :: "Kernel \<Rightarrow> query_ctx \<Rightarrow> bool" where
  "ctx_ok k ctx \<longleftrightarrow> (\<exists>c. mget (kn_conns k) (qc_connID ctx) = Some c \<and> cn_sourceScope c = qc_scope ctx)"

definition grant_ok :: "text_env \<Rightarrow> query_ctx \<Rightarrow> DelegatedGrant \<Rightarrow> bool" where
  "grant_ok tx ctx grant \<longleftrightarrow> dg_ID grant = qc_grantID ctx \<and> dg_Tenant grant = ci_Tenant (qc_ident ctx)
     \<and> dg_Principal grant = ci_Principal (qc_ident ctx) \<and> tx_equalFold tx (dg_SourceScope grant) (qc_scope ctx)"

definition decision_ok :: "(nat \<times> DelegatedGrant \<times> cObject) set \<Rightarrow> nat \<Rightarrow> qphase \<Rightarrow> bool" where
  "decision_ok V q ph \<longleftrightarrow> (case ph of QDecided ctx r (Inr (ms, rs)) \<Rightarrow> \<forall>ob \<in> set ms. (q, gq_Grant r, ob) \<in> V | _ \<Rightarrow> True)"

definition phase_ok :: "text_env \<Rightarrow> Kernel \<Rightarrow> (nat \<times> DelegatedGrant \<times> cObject) set \<Rightarrow> nat \<Rightarrow> qphase \<Rightarrow> bool" where
  "phase_ok tx k V q ph \<longleftrightarrow>
    (case phase_ctx ph of None \<Rightarrow> True
     | Some ctx \<Rightarrow> ctx_ok k ctx \<and> (case phase_grant ph of None \<Rightarrow> True | Some r \<Rightarrow> grant_ok tx ctx (gq_Grant r))) \<and> decision_ok V q ph"

definition cinv :: "text_env \<Rightarrow> csys \<Rightarrow> bool" where
  "cinv tx s \<longleftrightarrow> kinv tx (cs_kernel s) \<and> (\<forall>q. phase_ok tx (cs_kernel s) (cs_vouched s) q (cs_query s q))"

lemma ctx_ok_keeps: "kernel_keeps k k' \<Longrightarrow> ctx_ok k ctx \<Longrightarrow> ctx_ok k' ctx"
proof -
  assume k: "kernel_keeps k k'" and "ctx_ok k ctx"
  then obtain c where c: "mget (kn_conns k) (qc_connID ctx) = Some c" "cn_sourceScope c = qc_scope ctx" by (auto simp: ctx_ok_def)
  from kernel_keepsD[OF k c(1)] show ?thesis using c(2) by (auto simp: ctx_ok_def same_conn_def)
qed

lemma phase_ok_keeps:
  assumes "phase_ok tx k V q ph" "kernel_keeps k k'" "V \<subseteq> V'"
  shows "phase_ok tx k' V' q ph"
proof -
  have "decision_ok V' q ph" using assms(1,3) by (auto simp: phase_ok_def decision_ok_def split: qphase.splits sum.splits)
  then show ?thesis using assms(1) ctx_ok_keeps[OF assms(2)] by (auto simp: phase_ok_def split: option.splits)
qed

lemma cinv_kernel:
  assumes "cinv tx s" "kinv tx k'" "kernel_keeps (cs_kernel s) k'"
  shows "cinv tx (s\<lparr>cs_kernel := k'\<rparr>)" "cinv tx (s\<lparr>cs_kernel := k', cs_gate := gt\<rparr>)"
  using assms phase_ok_keeps[OF _ assms(3) subset_refl] by (auto simp: cinv_def)

lemma cinv_phase:
  assumes "cinv tx s" "phase_ok tx (cs_kernel s) V q ph" "cs_vouched s \<subseteq> V"
  shows "cinv tx (s\<lparr>cs_gate := gt, cs_query := (cs_query s)(q := ph), cs_vouched := V\<rparr>)"
  using assms phase_ok_keeps[OF _ kernel_keeps_refl assms(3)] by (auto simp: cinv_def)

lemma phase_ok_Done [simp]: "phase_ok tx k V q (QDone ctx res)"
  by (simp add: phase_ok_def decision_ok_def)


subsection \<open>What a gated query carries\<close>

lemma begin_ok:
  assumes "kinv tx k"
  shows "phase_ok tx k V q (query_begin tx live gate ident req k)"
proof (cases "\<exists>ctx. query_begin tx live gate ident req k = QCaptured ctx")
  case True
  then obtain ctx where ph: "query_begin tx live gate ident req k = QCaptured ctx" by blast
  then obtain i c where c: "lookupActive ident i k = Some c" "ctx = query_context tx ident req c"
    by (auto simp: query_begin_def Let_def split: if_split_asm option.split_asm)
  then have m: "mget (kn_conns k) i = Some c" by (simp add: lookupActive_Some)
  then have "cn_id c = i" using assms by (simp add: kinv_def conn_ok_def)
  then have "ctx_ok k ctx" using m c(2) by (simp add: ctx_ok_def query_context_def)
  then show ?thesis unfolding ph by (simp add: phase_ok_def decision_ok_def)
next
  case False
  then have "\<exists>ctx res. query_begin tx live gate ident req k = QDone ctx res"
    by (auto simp: query_begin_def Let_def split: if_split_asm option.split_asm)
  then show ?thesis by auto
qed

lemma grant_outcome_ok:
  assumes "grant_outcome tx g now ident scope grantID (Some r) = []"
  shows "dg_ID (gq_Grant r) = grantID \<and> dg_Tenant (gq_Grant r) = ci_Tenant ident \<and> dg_Principal (gq_Grant r) = ci_Principal ident
    \<and> tx_equalFold tx (dg_SourceScope (gq_Grant r)) scope"
  using assms by (auto simp: grant_outcome_def validStoredGrant_def Let_def split: if_split_asm)

lemma preauthorize_ok:
  assumes "preauthorizeQuery tx live promoted storeLive sink now ident scope grantID fresh g = (Inr r, g')"
  shows "grant_outcome tx g now ident scope grantID (Some r) = []"
  using assms by (auto simp: preauthorizeQuery_def Let_def split: if_split_asm sum.split_asm option.split_asm prod.split_asm)

lemma authorize_phase:
  assumes "query_authorize tx storeLive sink now ctx r matches g = (ph, g')"
  shows "(\<exists>p. ph = QAuthorizing ctx r matches p) \<or> (\<exists>f. ph = QAuthorized ctx r matches ([], f))"
  using assms by (auto simp: query_authorize_def split: sum.split_asm prod.split_asm)

lemma hydrate_all_Cons:
  assumes "ob \<in> set (fst (hydrate_all n ask (ob0 # obs) r))"
  shows "ob = ob0 \<and> ask (ob_ID ob0) = (True, Some ob0, Some True) \<or> (\<exists>n' r'. ob \<in> set (fst (hydrate_all n' ask obs r')))"
proof (cases n)
  case 0
  then show ?thesis using assms by auto
next
  case (Suc m)
  obtain alive content permission where a: "ask (ob_ID ob0) = (alive, content, permission)" by (metis prod_cases3)
  let ?r = "r\<lparr>re_ContentCalls := re_ContentCalls r + 1, re_ProbeCalls := re_ProbeCalls r + 1\<rparr>"
  show ?thesis
  proof (cases "alive \<and> content = Some ob0 \<and> \<not> ob_Deleted ob0 \<and> ob_Version ob0 \<noteq> [] \<and> permission = Some True")
    case True
    then have "fst (hydrate_all n ask (ob0 # obs) r) = ob0 # fst (hydrate_all m ask obs ?r)"
      using a Suc by (simp add: Let_def split: prod.split)
    then have "ob = ob0 \<or> ob \<in> set (fst (hydrate_all m ask obs ?r))" using assms by simp
    then show ?thesis using True a by auto
  next
    case False
    have "\<exists>r'. hydrate_all n ask (ob0 # obs) r = hydrate_all m ask obs r'"
    proof (cases "alive \<and> content \<noteq> None")
      case True
      then obtain live where live: "content = Some live" "alive" by auto
      show ?thesis
      proof (cases permission)
        case None
        then show ?thesis using a Suc live by (auto simp: Let_def)
      next
        case (Some b)
        then show ?thesis using a Suc live False by (cases b) (auto simp: Let_def)
      qed
    next
      case False
      then show ?thesis using a Suc by (auto simp: Let_def)
    qed
    then show ?thesis using assms by auto
  qed
qed

lemma hydrate_all_vouched:
  "ob \<in> set (fst (hydrate_all n ask obs r)) \<Longrightarrow> ask (ob_ID ob) = (True, Some ob, Some True) \<and> ob \<in> set obs"
proof (induction obs arbitrary: n r)
  case (Cons ob0 obs)
  from hydrate_all_Cons[OF Cons.prems] show ?case
  proof
    assume "\<exists>n' r'. ob \<in> set (fst (hydrate_all n' ask obs r'))"
    then obtain n' r' where "ob \<in> set (fst (hydrate_all n' ask obs r'))" by blast
    from Cons.IH[OF this] show ?thesis by simp
  qed simp
qed simp


lemma appendReceipt_outcome: "appendReceipt tx sink receipt g = ((f, True), g') \<Longrightarrow> re_Outcome f = re_Outcome receipt"
  by (auto simp: appendReceipt_def Let_def split: if_split_asm)

lemma recheck_cases: "recheck tx g storeLive t1 t2 i e \<in> {[], ''grant_revoked'', ''grant_expired''}"
  by (simp add: recheck_def split: sum.split option.split)

lemma hydrateAuthorized_vouched:
  assumes run: "hydrateAuthorized tx ask storeLive sink now t1 t2 ident scope r obs fresh g = ((out, f), g')"
  shows "ob \<in> set out \<Longrightarrow> (q, gq_Grant r, ob) \<in> vouches tx g storeLive t1 t2 ask q r"
    "recheck tx g storeLive t1 t2 (dg_ID (gq_Grant r)) (gq_Epoch r) \<noteq> [] \<Longrightarrow> \<not> decided f"
proof -
  let ?r0 = "(newDelegatedReceipt tx now ident scope (gq_Grant r) fresh)\<lparr>re_RequestedObjects := length obs\<rparr>"
  let ?n = "nat (gc_MaxProbesPerQuery (ga_cfg g))"
  let ?oc = "recheck tx g storeLive t1 t2 (dg_ID (gq_Grant r)) (gq_Epoch r)"
  obtain hy rc where h: "hydrate_all ?n ask obs ?r0 = (hy, rc)" by (cases "hydrate_all ?n ask obs ?r0")
  define r' where "r' = (if ?oc \<noteq> [] then rc\<lparr>re_Outcome := ?oc\<rparr>
      else rc\<lparr>re_AllowedObjects := length hy, re_Outcome := outcome_of (length obs) (length hy)\<rparr>)"
  obtain x ok g'' where ap: "appendReceipt tx sink r' g = ((x, ok), g'')" by (metis prod_cases3 prod.collapse)
  have res: "out = (if ok \<and> ?oc = [] then hy else [])" "f = (if ok then x else x\<lparr>re_Outcome := ''audit_unavailable''\<rparr>)"
    using run h ap unfolding hydrateAuthorized_def r'_def by (auto simp: Let_def split: if_split_asm)
  show "(q, gq_Grant r, ob) \<in> vouches tx g storeLive t1 t2 ask q r" if "ob \<in> set out"
  proof -
    have "?oc = []" "ob \<in> set hy" using res(1) that by (auto split: if_split_asm)
    then show ?thesis using hydrate_all_vouched[of ob ?n ask obs ?r0] h by (simp add: vouches_def)
  qed
  show "\<not> decided f" if "?oc \<noteq> []"
  proof (cases ok)
    case True
    then have "re_Outcome f = ?oc" using res(2) appendReceipt_outcome[of tx sink r' g x g''] ap that by (simp add: r'_def)
    then show ?thesis using recheck_cases[of tx g storeLive t1 t2 "dg_ID (gq_Grant r)" "gq_Epoch r"] that by (auto simp: decided_def)
  next
    case False
    then show ?thesis using res(2) by (simp add: decided_def)
  qed
qed

lemma gate_hydrated_sub: "gate_hydrated tx query matches permitted (out, f) = Inr (ms, rs) \<Longrightarrow> set ms \<subseteq> set out \<and> decided f"
  by (auto simp: gate_hydrated_def Let_def split: if_split_asm)

lemma hydrate_phase:
  assumes run: "query_hydrate tx ask storeLive sink now t1 t2 ctx r matches res g = (ph, g')"
  shows "\<exists>d. ph = QDecided ctx r d \<and> (\<forall>ms rs. d = Inr (ms, rs) \<longrightarrow>
      (\<forall>ob \<in> set ms. (q, gq_Grant r, ob) \<in> vouches tx g storeLive t1 t2 ask q r)
      \<and> recheck tx g storeLive t1 t2 (dg_ID (gq_Grant r)) (gq_Epoch r) = [])"
proof (cases "gate_permitted matches res")
  case (Inl x)
  then have "ph = QDecided ctx r (Inl x)" using run by (simp add: query_hydrate_def)
  then show ?thesis by blast
next
  case (Inr permitted)
  obtain out f g'' where h: "hydrateAuthorized tx ask storeLive sink now t1 t2 (qc_ident ctx) (qc_scope ctx) r permitted (qc_fresh ctx) g = ((out, f), g'')"
    by (metis prod_cases3 prod.collapse)
  let ?d = "gate_hydrated tx (qc_query ctx) matches permitted (out, f)"
  have ph: "ph = QDecided ctx r ?d" using run Inr h by (simp add: query_hydrate_def)
  have "(\<forall>ob \<in> set ms. (q, gq_Grant r, ob) \<in> vouches tx g storeLive t1 t2 ask q r)
      \<and> recheck tx g storeLive t1 t2 (dg_ID (gq_Grant r)) (gq_Epoch r) = []" if "?d = Inr (ms, rs)" for ms rs
    using gate_hydrated_sub[OF that] hydrateAuthorized_vouched[OF h] by blast
  then show ?thesis using ph by blast
qed

lemma cinv_query:
  assumes "cinv tx s" "phase_ok tx (cs_kernel s) (cs_vouched s) q ph"
  shows "cinv tx (s\<lparr>cs_query := (cs_query s)(q := ph)\<rparr>)" "cinv tx (s\<lparr>cs_gate := gt, cs_query := (cs_query s)(q := ph)\<rparr>)"
  using assms by (auto simp: cinv_def)

lemma cinv_admin: "cinv tx s \<Longrightarrow> cinv tx (s\<lparr>cs_gate := gt, cs_admin := ad\<rparr>)"
  by (simp add: cinv_def)

lemma cinv_at: "cinv tx s \<Longrightarrow> phase_ok tx (cs_kernel s) (cs_vouched s) q (cs_query s q)"
  by (simp add: cinv_def)

text \<open>Without collisions of the hash, and without NUL bytes in connect commands, different
  callers and keys have different connection IDs.\<close>

definition distinct_ids :: "text_env \<Rightarrow> (cIdentity \<Rightarrow> ConnectRequest \<Rightarrow> bool) \<Rightarrow> bool" where
  "distinct_ids tx calls \<longleftrightarrow> inj (tx_sha tx) \<and> nul_free_calls calls"

lemma cstep_inv:
  assumes "cstep tx calls snap delta s s'" "cinv tx s" "distinct_ids tx calls"
  shows "cinv tx s' \<and> kernel_keeps (cs_kernel s) (cs_kernel s') \<and> cs_vouched s \<subseteq> cs_vouched s'"
  using assms
proof (induction rule: cstep.induct)
  case (c_connect ident req page live s res k')
  have "kinv tx (cs_kernel s)" using c_connect.prems by (simp add: cinv_def)
  moreover have "inj (tx_sha tx)" "nul_free (ci_Tenant ident)" "nul_free (ci_Principal ident)" "nul_free (cq_IdempotencyKey req)"
    using c_connect.prems(2) c_connect.hyps(1) by (simp_all add: distinct_ids_def nul_free_calls_def)
  ultimately have "kinv tx k' \<and> kernel_keeps (cs_kernel s) k'" by (rule Connect_keeps[OF _ _ _ _ _ c_connect.hyps(3)])
  then show ?case using cinv_kernel(1)[OF c_connect.prems(1)] by simp
next
  case (c_reconcile src live s ident rreq res k' gate')
  have "kinv tx (cs_kernel s)" using c_reconcile.prems by (simp add: cinv_def)
  from Reconcile_keeps[OF this c_reconcile.hyps(2)] show ?case using cinv_kernel(2)[OF c_reconcile.prems(1)] by simp
next
  case (c_revoke live ident i key s res k')
  have "kinv tx (cs_kernel s)" using c_revoke.prems by (simp add: cinv_def)
  from Revoke_keeps[OF this c_revoke.hyps(1)] show ?case using cinv_kernel(1)[OF c_revoke.prems(1)] by simp
next
  case (c_purge live ident i key s res k')
  have "kinv tx (cs_kernel s)" using c_purge.prems by (simp add: cinv_def)
  from Purge_keeps[OF this c_purge.hyps(1)] show ?case using cinv_kernel(1)[OF c_purge.prems(1)] by simp
next
  case (q_begin s q live ident qreq)
  have "kinv tx (cs_kernel s)" using q_begin.prems by (simp add: cinv_def)
  from cinv_query(1)[OF q_begin.prems(1) begin_ok[OF this]] show ?case by simp
next
  case (q_preauthorize s q ctx g live promoted storeLive sink now res g')
  have c: "ctx_ok (cs_kernel s) ctx" using cinv_at[OF q_preauthorize.prems(1), of q] q_preauthorize.hyps(1) by (simp add: phase_ok_def)
  have "phase_ok tx (cs_kernel s) (cs_vouched s) q (case res of Inl outcome \<Rightarrow> QRefused ctx outcome | Inr r \<Rightarrow> QPreauthorized ctx r)"
  proof (cases res)
    case (Inr r)
    then have "grant_ok tx ctx (gq_Grant r)"
      using q_preauthorize.hyps(3) grant_outcome_ok[OF preauthorize_ok] by (simp add: grant_ok_def)
    then show ?thesis using c Inr by (simp add: phase_ok_def decision_ok_def)
  qed (simp add: phase_ok_def decision_ok_def c)
  from cinv_query(2)[OF q_preauthorize.prems(1) this] show ?case by simp
next
  case (q_refused s q ctx outcome)
  have "phase_ok tx (cs_kernel s) (cs_vouched s) q (query_refused ctx outcome (cs_kernel s))" by (simp add: query_refused_def split: option.split)
  from cinv_query(1)[OF q_refused.prems(1) this] show ?case by simp
next
  case (q_enumerate s q ctx r)
  have "phase_ok tx (cs_kernel s) (cs_vouched s) q (query_enumerate tx ctx r (cs_kernel s))"
    using cinv_at[OF q_enumerate.prems(1), of q] q_enumerate.hyps(1) by (simp add: query_enumerate_def phase_ok_def decision_ok_def split: option.split)
  from cinv_query(1)[OF q_enumerate.prems(1) this] show ?case by simp
next
  case (q_authorize s q ctx r matches g storeLive sink now ph g')
  have "phase_ok tx (cs_kernel s) (cs_vouched s) q ph"
    using cinv_at[OF q_authorize.prems(1), of q] q_authorize.hyps(1) authorize_phase[OF q_authorize.hyps(3)] by (auto simp: phase_ok_def decision_ok_def)
  from cinv_query(2)[OF q_authorize.prems(1) this] show ?case by simp
next
  case (q_probe s q ctx r matches p g probe storeLive sink t1 t2 res g')
  have "phase_ok tx (cs_kernel s) (cs_vouched s) q (QAuthorized ctx r matches res)"
    using cinv_at[OF q_probe.prems(1), of q] q_probe.hyps(1) by (simp add: phase_ok_def decision_ok_def)
  from cinv_query(2)[OF q_probe.prems(1) this] show ?case by simp
next
  case (q_hydrate s q ctx r matches res g ask storeLive sink now t1 t2 ph g')
  let ?V = "cs_vouched s \<union> vouches tx g storeLive t1 t2 ask q r"
  obtain d where d: "ph = QDecided ctx r d" "\<forall>ms rs. d = Inr (ms, rs) \<longrightarrow>
      (\<forall>ob \<in> set ms. (q, gq_Grant r, ob) \<in> vouches tx g storeLive t1 t2 ask q r)
      \<and> recheck tx g storeLive t1 t2 (dg_ID (gq_Grant r)) (gq_Epoch r) = []"
    using hydrate_phase[OF q_hydrate.hyps(3)] by blast
  have "decision_ok ?V q ph" using d by (auto simp: decision_ok_def split: sum.split)
  then have "phase_ok tx (cs_kernel s) ?V q ph"
    using cinv_at[OF q_hydrate.prems(1), of q] q_hydrate.hyps(1) d(1) by (simp add: phase_ok_def)
  from cinv_phase[OF q_hydrate.prems(1) this] show ?case by simp
next
  case (q_end s q ctx r decision)
  have "phase_ok tx (cs_kernel s) (cs_vouched s) q (query_end tx ctx decision (cs_kernel s))"
    by (simp add: query_end_def Let_def split: option.split sum.split prod.split)
  from cinv_query(1)[OF q_end.prems(1) this] show ?case by simp
qed (simp_all add: cinv_admin)


section \<open>The gate across a step\<close>

definition gate_keeps :: "text_env \<Rightarrow> DelegatedGate \<Rightarrow> DelegatedGate \<Rightarrow> bool" where
  "gate_keeps tx g g' \<longleftrightarrow> ga_cfg g' = ga_cfg g \<and> (\<forall>i. mem_store.dead i (ga_store g) \<longrightarrow> mem_store.dead i (ga_store g'))
     \<and> (linked tx g \<longrightarrow> linked tx g')
     \<and> (cache_inv g \<and> 0 < gc_MaxCachedVerdicts (ga_cfg g) \<longrightarrow> cache_inv g')"

lemma gate_keeps_refl [simp]: "gate_keeps tx g g"
  by (simp add: gate_keeps_def)

lemma gate_keeps_trans: "gate_keeps tx g g' \<Longrightarrow> gate_keeps tx g' g'' \<Longrightarrow> gate_keeps tx g g''"
  by (simp add: gate_keeps_def)

lemma gate_keeps_append:
  assumes "appendReceipt tx sink receipt g = ((r, ok), g')"
  shows "gate_keeps tx g g'"
  using appendReceipt_state[OF assms] appendReceipt_linked[of tx g sink receipt r ok g'] assms by (simp add: gate_keeps_def cache_inv_def)

lemma gate_keeps_mustAppend: "mustAppendReceipt tx sink receipt g = (f, g') \<Longrightarrow> gate_keeps tx g g'"
  using mustAppendReceipt_append gate_keeps_append by (metis prod.collapse)

lemma gate_keeps_store:
  assumes "\<And>i. mem_store.dead i (ga_store g) \<Longrightarrow> mem_store.dead i st"
  shows "gate_keeps tx g (g\<lparr>ga_store := st\<rparr>)"
  using assms by (simp add: gate_keeps_def cache_inv_def linked_def)

lemma gate_keeps_storeVerdicts: "gate_keeps tx g (fold (\<lambda>(i, ok). storeVerdict (key i) (v ok)) rs g)"
proof (induction rs arbitrary: g)
  case (Cons p rs)
  have "gate_keeps tx g (storeVerdict k x g)" for k x
    using storeVerdict_cache[of g k x] linked_cong[of "storeVerdict k x g" g tx] by (simp add: gate_keeps_def storeVerdict_state)
  then show ?case using gate_keeps_trans[OF _ Cons.IH] by (simp add: case_prod_beta)
qed simp

lemma fold_mdel: "fold mdel ks m = filter (\<lambda>p. fst p \<notin> set ks) m"
  by (induction ks arbitrary: m) (auto simp: mdel_filter intro: filter_cong)

lemma cache_inv_drop:
  assumes "cache_inv g"
  shows "cache_inv (drop_verdicts hit g)"
proof -
  let ?m = "filter (\<lambda>p. fst p \<notin> set (filter hit (ga_verdictOrder g))) (ga_verdicts g)"
  have keys: "set (ga_verdictOrder g) = fst ` set (ga_verdicts g)" using assms by (simp add: cache_inv_def)
  have "wf_map ?m" using assms by (simp add: cache_inv_def wf_map_def distinct_map_filter)
  moreover have "set (filter (\<lambda>key. \<not> hit key) (ga_verdictOrder g)) = fst ` set ?m" using keys by auto
  moreover have "int (length ?m) \<le> gc_MaxCachedVerdicts (ga_cfg g)"
  proof -
    have "length ?m \<le> length (ga_verdicts g)" by (rule length_filter_le)
    moreover have "int (length (ga_verdicts g)) \<le> gc_MaxCachedVerdicts (ga_cfg g)" using assms by (simp add: cache_inv_def)
    ultimately show ?thesis by linarith
  qed
  ultimately show ?thesis using assms unfolding cache_inv_def drop_verdicts_def fold_mdel by (simp del: set_filter)
qed

lemma gate_keeps_drop: "gate_keeps tx g (drop_verdicts hit g)"
  using cache_inv_drop[of g hit] linked_cong[of "drop_verdicts hit g" g tx] by (simp add: gate_keeps_def drop_verdicts_state)

lemma gate_keeps_invalidate: "gate_keeps tx g (InvalidateObjects ids g)"
proof -
  have "gate_keeps tx g (g\<lparr>ga_verdicts := [], ga_verdictOrder := []\<rparr>)"
    using linked_cong[of "g\<lparr>ga_verdicts := [], ga_verdictOrder := []\<rparr>" g tx] by (simp add: gate_keeps_def cache_inv_def)
  then show ?thesis using gate_keeps_drop by (simp add: InvalidateObjects_def Let_def)
qed


lemma gate_keeps_hydrate:
  assumes "query_hydrate tx ask storeLive sink now t1 t2 ctx r matches res g = (ph, g')"
  shows "gate_keeps tx g g'"
proof (cases "gate_permitted matches res")
  case (Inr permitted)
  obtain x g'' where h: "hydrateAuthorized tx ask storeLive sink now t1 t2 (qc_ident ctx) (qc_scope ctx) r permitted (qc_fresh ctx) g = (x, g'')"
    by (metis prod.collapse)
  then have "g' = g''" using assms Inr by (simp add: query_hydrate_def)
  then show ?thesis using h gate_keeps_append unfolding hydrateAuthorized_def by (auto simp: Let_def split: prod.split_asm if_split_asm)
qed (use assms in \<open>simp add: query_hydrate_def\<close>)

lemma gate_keeps_authorize:
  assumes "query_authorize tx storeLive sink now ctx r matches g = (ph, g')"
  shows "gate_keeps tx g g'"
  using assms gate_keeps_mustAppend by (auto simp: query_authorize_def split: sum.split_asm prod.split_asm)

lemma gate_keeps_probe:
  assumes "authorize_end tx probe storeLive sink t1 t2 grantID p g = (res, g')"
  shows "gate_keeps tx g g'"
  using assms gate_keeps_trans[OF gate_keeps_storeVerdicts gate_keeps_append] gate_keeps_mustAppend
  unfolding authorize_end_def by (auto simp: Let_def split: prod.split_asm if_split_asm)

lemma gate_keeps_preauthorize:
  assumes "preauthorizeQuery tx live promoted storeLive sink now ident scope grantID fresh g = (res, g')"
  shows "gate_keeps tx g g'"
proof -
  have "g' = g \<or> (\<exists>receipt r ok. appendReceipt tx sink receipt g = ((r, ok), g'))"
    using assms unfolding preauthorizeQuery_def
    by (auto simp: Let_def split: if_split_asm sum.split_asm option.split_asm prod.split_asm)
  then show ?thesis using gate_keeps_append by auto
qed

lemma gate_keeps_grants:
  "issue_begin tx live now issuer storeLive grant g = (res, g') \<Longrightarrow> gate_keeps tx g g'"
  "issue_record tx sink now who grant g = (ok, g') \<Longrightarrow> gate_keeps tx g g'"
  "issue_end ok storeLive grant g = (err, g') \<Longrightarrow> gate_keeps tx g g'"
  "revoke_store live issuer storeLive grantID g = (rres, g') \<Longrightarrow> gate_keeps tx g g'"
  "revoke_finish tx sink now who r grantID g = (err, g') \<Longrightarrow> gate_keeps tx g g'"
proof -
  have prep: "gate_keeps tx g (g\<lparr>ga_store := st\<rparr>)" if "store_Prepare l rc (ga_store g) = (x, st)" for l rc x st
    using gate_keeps_store mem_store.dead_prepare[of _ "ga_store g" l rc] that by simp
  have act: "gate_keeps tx g (g\<lparr>ga_store := st\<rparr>)" if "store_Activate l i (ga_store g) = (x, st)" for l i x st
    using gate_keeps_store mem_store.dead_activate[of _ "ga_store g" l i] that by simp
  have ab: "gate_keeps tx g (g\<lparr>ga_store := snd (store_Abort l i (ga_store g))\<rparr>)" for l i
    by (rule gate_keeps_store) (rule mem_store.dead_abort)
  have rev: "gate_keeps tx g (g\<lparr>ga_store := st\<rparr>)" if "store_Revoke l w i (ga_store g) = (x, st)" for l w i x st
    using gate_keeps_store mem_store.dead_revoke[of _ "ga_store g" l w i] that by simp
  show "gate_keeps tx g g'" if "issue_begin tx live now issuer storeLive grant g = (res, g')"
    using that prep by (auto simp: issue_begin_def Let_def split: if_split_asm sum.split_asm prod.split_asm option.split_asm)
  show "gate_keeps tx g g'" if "issue_record tx sink now who grant g = (ok, g')"
    using that gate_keeps_append by (auto simp: issue_record_def split: prod.split_asm)
  show "gate_keeps tx g g'" if "issue_end ok storeLive grant g = (err, g')"
    using that ab act by (auto simp: issue_end_def split: if_split_asm prod.split_asm sum.split_asm)
  show "gate_keeps tx g g'" if "revoke_store live issuer storeLive grantID g = (rres, g')"
    using that rev by (auto simp: revoke_store_def split: if_split_asm prod.split_asm sum.split_asm)
  show "gate_keeps tx g g'" if "revoke_finish tx sink now who r grantID g = (err, g')"
    using that gate_keeps_trans[OF gate_keeps_drop gate_keeps_append] by (auto simp: revoke_finish_def purgeVerdicts_def split: prod.split_asm)
qed

lemma gate_keeps_reconcile:
  assumes "ReconcileConnector tx live gate src ident req k = (res, k', gate')"
  shows "rel_option (gate_keeps tx) gate gate'"
proof -
  have "gate' = gate \<or> (\<exists>ids. gate' = map_option (InvalidateObjects ids) gate)"
    using assms by (auto simp: ReconcileConnector_def Let_def split: if_split_asm option.split_asm sum.split_asm prod.split_asm)
  then show ?thesis using gate_keeps_invalidate by (cases gate) auto
qed


lemma cstep_gate: "cstep tx calls snap delta s s' \<Longrightarrow> rel_option (gate_keeps tx) (cs_gate s) (cs_gate s')"
proof (induction rule: cstep.induct)
  case (c_reconcile src live s ident rreq res k' gate')
  from gate_keeps_reconcile[OF c_reconcile.hyps(2)] show ?case by simp
next
  case (q_preauthorize s q ctx g live promoted storeLive sink now res g')
  from gate_keeps_preauthorize[OF q_preauthorize.hyps(3)] show ?case using q_preauthorize.hyps(2) by simp
next
  case (q_authorize s q ctx r matches g storeLive sink now ph g')
  from gate_keeps_authorize[OF q_authorize.hyps(3)] show ?case using q_authorize.hyps(2) by simp
next
  case (q_probe s q ctx r matches p g probe storeLive sink t1 t2 res g')
  from gate_keeps_probe[OF q_probe.hyps(3)] show ?case using q_probe.hyps(2) by simp
next
  case (q_hydrate s q ctx r matches res g ask storeLive sink now t1 t2 ph g')
  from gate_keeps_hydrate[OF q_hydrate.hyps(3)] show ?case using q_hydrate.hyps(2) by simp
next
  case (g_issue s a g live now issuer storeLive grant res g')
  from gate_keeps_grants(1)[OF g_issue.hyps(3)] show ?case using g_issue.hyps(2) by simp
next
  case (g_record s a who grant g sink now ok g')
  from gate_keeps_grants(2)[OF g_record.hyps(3)] show ?case using g_record.hyps(2) by simp
next
  case (g_issued s a ok grant g storeLive err g')
  from gate_keeps_grants(3)[OF g_issued.hyps(3)] show ?case using g_issued.hyps(2) by simp
next
  case (g_revoke s a g live issuer storeLive grantID rres g')
  from gate_keeps_grants(4)[OF g_revoke.hyps(3)] show ?case using g_revoke.hyps(2) by simp
next
  case (g_revoked s a who r grantID g sink now err g')
  from gate_keeps_grants(5)[OF g_revoked.hyps(3)] show ?case using g_revoked.hyps(2) by simp
qed (simp_all add: option.rel_refl)

lemma csteps_gate:
  assumes "(cstep tx calls snap delta)\<^sup>*\<^sup>* s s'"
  shows "rel_option (gate_keeps tx) (cs_gate s) (cs_gate s')"
  using assms
proof (induction rule: rtranclp_induct)
  case (step s' s'')
  from step.IH cstep_gate[OF step.hyps(2)] show ?case using gate_keeps_trans by (auto simp: option_rel_Some1 option_rel_Some2 elim!: option.rel_cases)
qed (simp add: option.rel_refl)

lemma csteps_inv:
  assumes "(cstep tx calls snap delta)\<^sup>*\<^sup>* s s'" "cinv tx s" "distinct_ids tx calls"
  shows "cinv tx s' \<and> kernel_keeps (cs_kernel s) (cs_kernel s') \<and> cs_vouched s \<subseteq> cs_vouched s'"
  using assms(1)
proof (induction rule: rtranclp_induct)
  case (step s' s'')
  from cstep_inv[OF step.hyps(2) conjunct1[OF step.IH] assms(3)] show ?case using step.IH kernel_keeps_trans by blast
qed (simp add: assms(2))

lemma creach_inv:
  assumes "creach tx calls snap delta s" "distinct_ids tx calls"
  shows "cinv tx s"
proof -
  obtain gate where r: "(cstep tx calls snap delta)\<^sup>*\<^sup>* (cinit gate) s" using assms(1) by (auto simp: creach_def)
  have "cinv tx (cinit gate)" by (simp add: cinv_def cinit_def kinv_def NewKernel_def phase_ok_def decision_ok_def)
  from csteps_inv[OF r this assms(2)] show ?thesis by simp
qed

lemma creach_gate:
  assumes "creach tx calls snap delta s" "cs_gate s = Some g"
  shows "linked tx g \<and> cache_inv g"
proof -
  obtain gate where f: "fresh_gate tx gate" and r: "(cstep tx calls snap delta)\<^sup>*\<^sup>* (cinit gate) s" using assms(1) by (auto simp: creach_def)
  from csteps_gate[OF r] assms(2) obtain g0 where g0: "gate = Some g0" "gate_keeps tx g0 g" by (auto simp: cinit_def option_rel_Some2)
  obtain provider issuer promotion cfg where n: "NewDelegatedGate tx provider issuer promotion cfg = Inr g0"
    using f g0(1) by (auto simp: fresh_gate_def)
  then have e: "ga_receipts g0 = []" "ga_verdicts g0 = []" "ga_verdictOrder g0 = []"
      "gc_MaxCachedVerdicts (ga_cfg g0) = bounded 1024 65536 (gc_MaxCachedVerdicts cfg)"
    unfolding NewDelegatedGate_def by (auto split: if_split_asm)
  have "0 < gc_MaxCachedVerdicts (ga_cfg g0)" unfolding e(4) by (simp add: bounded_def Let_def)
  moreover have "linked tx g0" using e(1) by (simp add: linked_def)
  moreover have "cache_inv g0" using e(2,3) calculation(1) by (simp add: cache_inv_def wf_map_def)
  ultimately show ?thesis using g0(2) by (simp add: gate_keeps_def)
qed



section \<open>Answers\<close>

text \<open>The three sections that end a query with an answer.\<close>

lemma query_refused_ctx: "query_refused ctx' outcome k = QDone ctx res \<Longrightarrow> ctx' = ctx"
  by (auto simp: query_refused_def split: option.split_asm)

lemma query_enumerate_denies: "query_enumerate tx ctx' r k \<noteq> QDone ctx (Inr res)"
  by (simp add: query_enumerate_def split: option.split)

lemma query_end_ctx: "query_end tx ctx' d k = QDone ctx res \<Longrightarrow> ctx' = ctx"
  by (auto simp: query_end_def Let_def split: option.split_asm sum.split_asm prod.split_asm if_split_asm)

lemma cstep_answer:
  assumes "cstep tx calls snap delta s s'" "cs_query s q \<noteq> cs_query s' q" "cs_query s' q = QDone ctx (Inr res)"
  shows "cs_kernel s' = cs_kernel s \<and> cs_gate s' = cs_gate s \<and> cs_vouched s' = cs_vouched s
    \<and> ((cs_query s q = QIdle \<and> (\<exists>live ident req. QDone ctx (Inr res) = query_begin tx live (cs_gate s) ident req (cs_kernel s)))
      \<or> (\<exists>outcome. cs_query s q = QRefused ctx outcome \<and> QDone ctx (Inr res) = query_refused ctx outcome (cs_kernel s))
      \<or> (\<exists>r d. cs_query s q = QDecided ctx r d \<and> QDone ctx (Inr res) = query_end tx ctx d (cs_kernel s)))"
  using assms
proof (induction rule: cstep.induct)
  case (q_begin s q' live ident qreq)
  then have "q' = q" by (auto split: if_split_asm)
  then show ?case using q_begin by (auto intro: sym)
next
  case (q_preauthorize s q' ctx' g live promoted storeLive sink now res' g')
  then show ?case by (auto split: if_split_asm sum.split_asm)
next
  case (q_refused s q' ctx' outcome)
  then have q: "q' = q" by (auto split: if_split_asm)
  then have e: "query_refused ctx' outcome (cs_kernel s) = QDone ctx (Inr res)" using q_refused.prems by simp
  from query_refused_ctx[OF this] show ?case using q_refused.hyps q e by auto
next
  case (q_enumerate s q' ctx' r)
  then have "q' = q" by (auto split: if_split_asm)
  then show ?case using q_enumerate.prems query_enumerate_denies by simp
next
  case (q_authorize s q' ctx' r matches g storeLive sink now ph g')
  then have "q' = q" by (auto split: if_split_asm)
  then show ?case using q_authorize.prems authorize_phase[OF q_authorize.hyps(3)] by auto
next
  case (q_probe s q' ctx' r matches p g probe storeLive sink t1 t2 res' g')
  then show ?case by (auto split: if_split_asm)
next
  case (q_hydrate s q' ctx' r matches res' g ask storeLive sink now t1 t2 ph g')
  then have "q' = q" by (auto split: if_split_asm)
  then show ?case using q_hydrate.prems hydrate_phase[OF q_hydrate.hyps(3)] by auto
next
  case (q_end s q' ctx' r decision)
  then have q: "q' = q" by (auto split: if_split_asm)
  then have e: "query_end tx ctx' decision (cs_kernel s) = QDone ctx (Inr res)" using q_end.prems by simp
  from query_end_ctx[OF this] show ?case using q_end.hyps q e by auto
qed auto

lemma buildAnswer_claims: "an_Claims (buildAnswer tx c ms query) \<noteq> [] \<longleftrightarrow> ms \<noteq> []"
  by (simp add: buildAnswer_def Let_def split: list.split)

lemma degrade_claims [simp]: "an_Claims (degrade reasons a) = an_Claims a" "degrade [] a = a"
  by (simp_all add: degrade_def)

lemma matching_live:
  assumes "objects_ok (cn_objects c)" "ob \<in> set (matching tx c query)"
  shows "mget (cn_objects c) (ob_ID ob) = Some ob \<and> objectMatchesQuery tx ob query"
proof -
  obtain i where i: "(i, ob) \<in> set (cn_objects c)" "objectMatchesQuery tx ob query" using assms(2) by (auto simp: matching_def)
  then have "mget (cn_objects c) i = Some ob" using assms(1) by (simp add: objects_ok_def wf_map_def)
  then show ?thesis using assms(1) i(2) by (auto simp: objects_ok_def)
qed

text \<open>What an answer with evidence rests on.\<close>

definition backed :: "text_env \<Rightarrow> Kernel \<Rightarrow> query_ctx \<Rightarrow> cObject \<Rightarrow> query_success \<Rightarrow> bool" where
  "backed tx k ctx ob res \<longleftrightarrow> (\<exists>c rest reasons. mget (kn_conns k) (qc_connID ctx) = Some c \<and> owned (qc_ident ctx) c \<and> \<not> conn_closed c
     \<and> cn_sourceScope c = qc_scope ctx \<and> mget (cn_objects c) (ob_ID ob) = Some ob \<and> objectMatchesQuery tx ob (qc_query ctx)
     \<and> res = querySuccess c (degrade reasons (buildAnswer tx c (ob # rest) (qc_query ctx))))"

lemma backedI:
  assumes "mget (kn_conns k) (qc_connID ctx) = Some c" "owned (qc_ident ctx) c" "\<not> conn_closed c" "cn_sourceScope c = qc_scope ctx"
    "mget (cn_objects c) (ob_ID ob) = Some ob" "objectMatchesQuery tx ob (qc_query ctx)"
    "res = querySuccess c (degrade reasons (buildAnswer tx c (ob # rest) (qc_query ctx)))"
  shows "backed tx k ctx ob res"
  using assms unfolding backed_def by blast

lemma begin_backed:
  assumes K: "kinv tx k" and run: "query_begin tx live gate ident req k = QDone ctx (Inr res)" and claims: "an_Claims (qs_Answer res) \<noteq> []"
  shows "\<exists>ob. backed tx k ctx ob res \<and> \<not> opaque tx gate (qc_scope ctx)"
proof -
  obtain i c where c: "lookupActive ident i k = Some c" "ctx = query_context tx ident req c" "\<not> opaque tx gate (cn_sourceScope c)"
    and res: "res = querySuccess c (buildAnswer tx c (matching tx c (qc_query ctx)) (qc_query ctx))"
    using run by (auto simp: query_begin_def Let_def split: if_split_asm option.split_asm)
  then have m: "mget (kn_conns k) i = Some c" "owned ident c" "\<not> conn_closed c" by (simp_all add: lookupActive_Some)
  then have ok: "cn_id c = i" "objects_ok (cn_objects c)" using K by (auto simp: kinv_def conn_ok_def)
  have "matching tx c (qc_query ctx) \<noteq> []" using claims res buildAnswer_claims by (simp add: querySuccess_def)
  then obtain ob rest where ms: "matching tx c (qc_query ctx) = ob # rest" by (cases "matching tx c (qc_query ctx)") auto
  have "mget (cn_objects c) (ob_ID ob) = Some ob \<and> objectMatchesQuery tx ob (qc_query ctx)" using matching_live[OF ok(2), of ob tx "qc_query ctx"] ms by simp
  moreover have "res = querySuccess c (degrade [] (buildAnswer tx c (ob # rest) (qc_query ctx)))" using res ms by simp
  ultimately have "backed tx k ctx ob res" using m ok(1) c(2) by (intro backedI[where reasons = "[]" and rest = rest]) (auto simp: query_context_def)
  then show ?thesis using c(2,3) by (auto simp: query_context_def)
qed

lemma end_backed:
  assumes ctx: "ctx_ok k ctx" and run: "query_end tx ctx d k = QDone ctx (Inr res)" and claims: "an_Claims (qs_Answer res) \<noteq> []"
  shows "\<exists>ob ms reasons. d = Inr (ms, reasons) \<and> ob \<in> set ms \<and> backed tx k ctx ob res"
proof -
  obtain c where c: "revalidate ctx k = Some c"
    using run by (cases "revalidate ctx k") (simp_all add: query_end_def)
  then have m: "mget (kn_conns k) (qc_connID ctx) = Some c" "owned (qc_ident ctx) c" "\<not> conn_closed c"
    by (auto simp: revalidate_def lookupActive_Some split: option.split_asm if_split_asm)
  have sc: "cn_sourceScope c = qc_scope ctx" using ctx m(1) by (simp add: ctx_ok_def)
  obtain ms rs where d: "d = Inr (ms, rs)"
    using run c claims by (cases d) (auto simp: query_end_def delegatedAbstain_def querySuccess_def)
  define adm where "adm = filter (\<lambda>ob. mget (cn_objects c) (ob_ID ob) \<noteq> None) ms"
  define cur where "cur = filter (\<lambda>ob. mget (cn_objects c) (ob_ID ob) = Some ob \<and> objectMatchesQuery tx ob (qc_query ctx)) adm"
  define rs' where "rs' = (if length cur < length adm then rs @ [''delegated_object_changed''] else rs)"
  have "(if cur = [] \<and> length cur < length adm then QDone ctx (Inr (delegatedAbstain c ''delegated_object_changed''))
      else QDone ctx (Inr (querySuccess c (degrade rs' (buildAnswer tx c cur (qc_query ctx)))))) = QDone ctx (Inr res)"
    using run unfolding query_end_def c d option.case sum.case prod.case Let_def adm_def[symmetric] cur_def[symmetric] rs'_def[symmetric] .
  then have "\<exists>reasons. res = querySuccess c (degrade reasons (buildAnswer tx c cur (qc_query ctx)))"
    using claims by (auto simp: delegatedAbstain_def querySuccess_def split: if_split_asm)
  then obtain reasons where res: "res = querySuccess c (degrade reasons (buildAnswer tx c cur (qc_query ctx)))" by blast
  then have "cur \<noteq> []" using claims buildAnswer_claims by (simp add: querySuccess_def)
  then obtain ob rest where cur: "cur = ob # rest" by (cases cur) auto
  then have "ob \<in> set cur" by simp
  then have ob: "ob \<in> set ms" "mget (cn_objects c) (ob_ID ob) = Some ob" "objectMatchesQuery tx ob (qc_query ctx)" by (simp_all add: cur_def adm_def)
  have "backed tx k ctx ob res" using m sc ob(2,3) res[unfolded cur] by (rule backedI)
  then show ?thesis using d ob(1) by blast
qed


lemma cstep_backed:
  assumes "cinv tx s" "cstep tx calls snap delta s s'" "cs_query s q \<noteq> cs_query s' q" "cs_query s' q = QDone ctx (Inr res)" "an_Claims (qs_Answer res) \<noteq> []"
  shows "\<exists>ob. backed tx (cs_kernel s') ctx ob res
    \<and> (opaque tx (cs_gate s') (qc_scope ctx) \<longrightarrow> (\<exists>r ms reasons. cs_query s q = QDecided ctx r (Inr (ms, reasons))
         \<and> grant_ok tx ctx (gq_Grant r) \<and> (q, gq_Grant r, ob) \<in> cs_vouched s'))"
proof -
  note a = cstep_answer[OF assms(2,3,4)]
  then have same: "cs_kernel s' = cs_kernel s" "cs_gate s' = cs_gate s" "cs_vouched s' = cs_vouched s" by simp_all
  have K: "kinv tx (cs_kernel s)" and P: "phase_ok tx (cs_kernel s) (cs_vouched s) q (cs_query s q)"
    using assms(1) by (simp_all add: cinv_def)
  from a consider (idle) live ident req where "query_begin tx live (cs_gate s) ident req (cs_kernel s) = QDone ctx (Inr res)"
    | (refused) outcome where "query_refused ctx outcome (cs_kernel s) = QDone ctx (Inr res)"
    | (decided) r d where "cs_query s q = QDecided ctx r d" "query_end tx ctx d (cs_kernel s) = QDone ctx (Inr res)" by (metis (no_types))
  then show ?thesis
  proof cases
    case idle
    from begin_backed[OF K this assms(5)] show ?thesis using same by auto
  next
    case refused
    then have False using assms(5) by (auto simp: query_refused_def delegatedAbstain_def querySuccess_def split: option.split_asm)
    then show ?thesis ..
  next
    case decided
    have ok: "ctx_ok (cs_kernel s) ctx" "grant_ok tx ctx (gq_Grant r)" using P decided(1) by (simp_all add: phase_ok_def)
    from end_backed[OF ok(1) decided(2) assms(5)] obtain ob ms reasons
      where d: "d = Inr (ms, reasons)" "ob \<in> set ms" "backed tx (cs_kernel s) ctx ob res" by blast
    have "(q, gq_Grant r, ob) \<in> cs_vouched s" using P decided(1) d(1,2) by (simp add: phase_ok_def decision_ok_def)
    then show ?thesis using d(1,3) decided(1) ok(2) same by auto
  qed
qed

text \<open>An answer names a connection that is open when it is given.\<close>

lemma cstep_answer_open:
  assumes "cinv tx s" "cstep tx calls snap delta s s'" "cs_query s q \<noteq> cs_query s' q" "cs_query s' q = QDone ctx (Inr res)"
  shows "\<exists>c. mget (kn_conns (cs_kernel s)) (qs_ConnectionId res) = Some c \<and> \<not> conn_closed c"
proof -
  have K: "kinv tx (cs_kernel s)" using assms(1) by (simp add: cinv_def)
  have named: "\<exists>c. mget (kn_conns (cs_kernel s)) (qs_ConnectionId res) = Some c \<and> \<not> conn_closed c"
    if "lookupActive ident i (cs_kernel s) = Some c" "qs_ConnectionId res = cn_id c" for ident i c
    using that K by (auto simp: lookupActive_Some kinv_def conn_ok_def)
  from cstep_answer[OF assms(2,3,4)] consider (idle) live ident req where "query_begin tx live (cs_gate s) ident req (cs_kernel s) = QDone ctx (Inr res)"
    | (refused) outcome where "query_refused ctx outcome (cs_kernel s) = QDone ctx (Inr res)"
    | (decided) d where "query_end tx ctx d (cs_kernel s) = QDone ctx (Inr res)" by (metis (no_types))
  then show ?thesis
  proof cases
    case idle
    then obtain i c where "lookupActive ident i (cs_kernel s) = Some c" "qs_ConnectionId res = cn_id c"
      by (auto simp: query_begin_def querySuccess_def Let_def split: if_split_asm option.split_asm)
    then show ?thesis by (rule named)
  next
    case refused
    then obtain c where "lookupActive (qc_ident ctx) (qc_connID ctx) (cs_kernel s) = Some c" "qs_ConnectionId res = cn_id c"
      by (auto simp: query_refused_def revalidate_def delegatedAbstain_def querySuccess_def split: option.split_asm if_split_asm)
    then show ?thesis by (rule named)
  next
    case decided
    then obtain c where "lookupActive (qc_ident ctx) (qc_connID ctx) (cs_kernel s) = Some c" "qs_ConnectionId res = cn_id c"
      by (auto simp: query_end_def revalidate_def delegatedAbstain_def querySuccess_def Let_def split: option.split_asm if_split_asm sum.split_asm prod.split_asm)
    then show ?thesis by (rule named)
  qed
qed

lemma reconcile_names_open:
  assumes K: "kinv tx k" and run: "ReconcileConnector tx live gate src ident req k = (Inr ok, k', gate')"
  shows "\<exists>c. mget (kn_conns k) (rs_ConnectionId ok) = Some c \<and> \<not> conn_closed c"
proof -
  obtain i c where "lookupActive ident i k = Some c" "rs_ConnectionId ok = cn_id c"
    using run by (auto simp: ReconcileConnector_def Let_def split: if_split_asm option.split_asm sum.split_asm prod.split_asm)
  then show ?thesis using K by (auto simp: lookupActive_Some kinv_def conn_ok_def)
qed

lemma closed_silences:
  assumes run: "(cstep tx calls snap delta)\<^sup>*\<^sup>* s s'" and I: "cinv tx s" and inj: "distinct_ids tx calls"
    and c: "mget (kn_conns (cs_kernel s)) i = Some c" "conn_closed c"
  shows "cs_query s' q = QDone ctx (Inr res) \<Longrightarrow> cs_query s q \<noteq> QDone ctx (Inr res) \<Longrightarrow> qs_ConnectionId res \<noteq> i"
  using run
proof (induction rule: rtranclp_induct)
  case (step s1 s2)
  have I1: "cinv tx s1" and k1: "kernel_keeps (cs_kernel s) (cs_kernel s1)" using csteps_inv[OF step.hyps(1) I inj] by simp_all
  obtain c1 where c1: "mget (kn_conns (cs_kernel s1)) i = Some c1" "conn_closed c1" using kernel_keepsD[OF k1 c(1)] c(2) by blast
  show ?case
  proof (cases "cs_query s1 q = cs_query s2 q")
    case True
    then show ?thesis using step.IH step.prems by simp
  next
    case False
    from cstep_answer_open[OF I1 step.hyps(2) False step.prems(1)] show ?thesis using c1 by auto
  qed
qed simp


lemma cstep_decided:
  assumes "cstep tx calls snap delta s s'" "cs_query s q \<noteq> cs_query s' q" "cs_query s' q = QDecided ctx r (Inr d)"
  shows "\<exists>g storeLive t1 t2. cs_gate s = Some g \<and> recheck tx g storeLive t1 t2 (dg_ID (gq_Grant r)) (gq_Epoch r) = []"
  using assms
proof (induction rule: cstep.induct)
  case (q_begin s q' live ident qreq)
  then have "q' = q" by (auto split: if_split_asm)
  then show ?case using q_begin.prems by (auto simp: query_begin_def Let_def split: if_split_asm option.split_asm)
next
  case (q_preauthorize s q' ctx' g live promoted storeLive sink now res' g')
  then show ?case by (auto split: if_split_asm sum.split_asm)
next
  case (q_refused s q' ctx' outcome)
  then show ?case by (auto simp: query_refused_def split: if_split_asm option.split_asm)
next
  case (q_enumerate s q' ctx' r')
  then show ?case by (auto simp: query_enumerate_def split: if_split_asm option.split_asm)
next
  case (q_authorize s q' ctx' r' matches g storeLive sink now ph g')
  then have "q' = q" by (auto split: if_split_asm)
  then show ?case using q_authorize.prems authorize_phase[OF q_authorize.hyps(3)] by auto
next
  case (q_probe s q' ctx' r' matches p g probe storeLive sink t1 t2 res' g')
  then show ?case by (auto split: if_split_asm)
next
  case (q_hydrate s q' ctx' r' matches res' g ask storeLive sink now t1 t2 ph g')
  then have "q' = q" by (auto split: if_split_asm)
  then have "ph = QDecided ctx r (Inr d)" using q_hydrate.prems by simp
  then have "recheck tx g storeLive t1 t2 (dg_ID (gq_Grant r)) (gq_Epoch r) = []"
    using hydrate_phase[OF q_hydrate.hyps(3)] by (cases d) auto
  then show ?case using q_hydrate.hyps(2) by blast
next
  case (q_end s q' ctx' r' decision)
  then have "q' = q" by (auto split: if_split_asm)
  then show ?case using q_end.prems
    by (auto simp: query_end_def Let_def split: option.split_asm sum.split_asm prod.split_asm if_split_asm)
qed auto

lemma dead_recheck: "mem_store.dead i (ga_store g) \<Longrightarrow> recheck tx g storeLive t1 t2 i epoch \<noteq> []"
  by (auto simp: mem_store.dead_def recheck_def store_Get_def)

lemma opaque_keeps: "rel_option (gate_keeps tx) gate gate' \<Longrightarrow> opaque tx gate' scope = opaque tx gate scope"
  by (auto simp: opaque_def OpaqueScope_def gate_keeps_def option_rel_Some1 split: option.split elim!: option.rel_cases)

lemma revoked_grant_silences:
  assumes run: "(cstep tx calls snap delta)\<^sup>*\<^sup>* s s'" and I: "cinv tx s" and inj: "distinct_ids tx calls"
    and g: "cs_gate s = Some g" "mem_store.dead i (ga_store g)"
    and before: "\<forall>ctx r d. cs_query s q \<noteq> QDecided ctx r d" "\<forall>ctx res. cs_query s q \<noteq> QDone ctx res"
  shows "(\<forall>ctx r d. cs_query s' q = QDecided ctx r (Inr d) \<longrightarrow> qc_grantID ctx \<noteq> i)
    \<and> (\<forall>ctx res. cs_query s' q = QDone ctx (Inr res) \<longrightarrow> qc_grantID ctx = i \<longrightarrow> opaque tx (cs_gate s) (qc_scope ctx)
         \<longrightarrow> an_Claims (qs_Answer res) = [])"
  using run
proof (induction rule: rtranclp_induct)
  case (step s1 s2)
  have I1: "cinv tx s1" using csteps_inv[OF step.hyps(1) I inj] by simp
  have I2: "cinv tx s2" using cstep_inv[OF step.hyps(2) I1 inj] by simp
  obtain g1 where g1: "cs_gate s1 = Some g1" "mem_store.dead i (ga_store g1)"
    using csteps_gate[OF step.hyps(1)] g by (auto simp: option_rel_Some1 gate_keeps_def)
  have op: "opaque tx (cs_gate s2) sc = opaque tx (cs_gate s) sc" for sc
    using opaque_keeps[OF csteps_gate[OF rtranclp.rtrancl_into_rtrancl[OF step.hyps]]] .
  show ?case
  proof (cases "cs_query s1 q = cs_query s2 q")
    case True
    then show ?thesis using step.IH by simp
  next
    case False
    have "qc_grantID ctx \<noteq> i" if d: "cs_query s2 q = QDecided ctx r (Inr d)" for ctx r d
    proof -
      have "dg_ID (gq_Grant r) = qc_grantID ctx" using cinv_at[OF I2, of q] d by (simp add: phase_ok_def grant_ok_def)
      then show ?thesis using cstep_decided[OF step.hyps(2) False d] g1 dead_recheck by auto
    qed
    moreover have "an_Claims (qs_Answer res) = []"
      if d: "cs_query s2 q = QDone ctx (Inr res)" "qc_grantID ctx = i" "opaque tx (cs_gate s) (qc_scope ctx)" for ctx res
    proof (rule ccontr)
      assume "an_Claims (qs_Answer res) \<noteq> []"
      from cstep_backed[OF I1 step.hyps(2) False d(1) this] show False using op d(2,3) step.IH by blast
    qed
    ultimately show ?thesis by blast
  qed
qed (use before in simp)


subsection \<open>Mirroring\<close>

definition kmirrors :: "(string \<Rightarrow> string \<Rightarrow> string \<Rightarrow> (string \<rightharpoonup> cObject)) \<Rightarrow> Kernel \<Rightarrow> bool" where
  "kmirrors truth k \<longleftrightarrow> (\<forall>i c. mget (kn_conns k) i = Some c \<longrightarrow> mirrors truth c)"

lemma kmirrors_mput: "kmirrors truth k \<Longrightarrow> mirrors truth c \<Longrightarrow> kmirrors truth \<lparr>kn_conns = mput i c (kn_conns k), kn_idem = idem\<rparr>"
  by (simp add: kmirrors_def)

lemma cstep_mirrors:
  assumes "cstep tx calls snap delta s s'" "faithful_source truth snap delta" "kmirrors truth (cs_kernel s)"
  shows "kmirrors truth (cs_kernel s')"
  using assms
proof (induction rule: cstep.induct)
  case (c_connect ident req page live s res k')
  show ?case
  proof (cases "k' = cs_kernel s")
    case False
    from Connect_cases[OF c_connect.hyps(3) False] obtain page0 idem where p: "page = Inr page0"
      and k': "k' = \<lparr>kn_conns = mput (cn_id (new_connection tx ident req (checked_page tx (cs_gate s) (cq_SourceScope req) page0)))
          (new_connection tx ident req (checked_page tx (cs_gate s) (cq_SourceScope req) page0)) (kn_conns (cs_kernel s)), kn_idem = idem\<rparr>"
      by (metis (no_types, lifting))
    have "mirrors truth (new_connection tx ident req (checked_page tx (cs_gate s) (cq_SourceScope req) page0))"
      by (rule mirrors_new[OF c_connect.prems(1)]) (use c_connect.hyps(2) p in simp)
    from kmirrors_mput[OF c_connect.prems(2) this] show ?thesis by (simp add: k')
  qed (use c_connect in simp)
next
  case (c_reconcile src live s ident rreq res k' gate')
  from Reconcile_cases[OF c_reconcile.hyps(2)] show ?case
  proof (elim disjE exE conjE)
    fix i c page0 c' rv ad de idem row
    assume c: "lookupActive ident i (cs_kernel s) = Some c" and p: "src (cn_owner c) (cn_repo c) (cn_cursor c) = Inr page0"
      and r: "reconcile_page (checked_page tx (cs_gate s) (cn_sourceScope c) page0) c = (c', rv, ad, de)"
      and k': "k' = \<lparr>kn_conns = mput i c' (kn_conns (cs_kernel s)), kn_idem = idem\<rparr>"
    have m: "mget (kn_conns (cs_kernel s)) i = Some c" "cn_state c \<noteq> statePurged" using c by (auto simp: lookupActive_Some conn_closed_def)
    have d: "delta (cn_owner c) (cn_repo c) (cn_cursor c) (Inr page0)" using c_reconcile.hyps(1)[of "cn_owner c" "cn_repo c" "cn_cursor c"] p by simp
    have "mirrors truth c" using c_reconcile.prems(2) m(1) by (simp add: kmirrors_def)
    from kmirrors_mput[OF c_reconcile.prems(2) mirrors_reconcile[OF c_reconcile.prems(1) this m(2) d r]] show ?thesis by (simp add: k')
  qed (use c_reconcile.prems in simp)
next
  case (c_revoke live ident i key s res k')
  show ?case
  proof (cases "k' = cs_kernel s")
    case False
    then obtain c idem where m: "mget (kn_conns (cs_kernel s)) i = Some c" "cn_state c \<noteq> statePurged"
      and k': "k' = \<lparr>kn_conns = mput i (c\<lparr>cn_state := stateRevoked, cn_aclEpoch := cn_aclEpoch c + 1\<rparr>) (kn_conns (cs_kernel s)), kn_idem = idem\<rparr>"
      using c_revoke.hyps by (auto simp: RevokeConnector_def Let_def lookup_owned_Some split: if_split_asm option.split_asm)
    have "mirrors truth (c\<lparr>cn_state := stateRevoked, cn_aclEpoch := cn_aclEpoch c + 1\<rparr>)"
      using c_revoke.prems(2) m by (simp add: kmirrors_def mirrors_def)
    from kmirrors_mput[OF c_revoke.prems(2) this] show ?thesis by (simp add: k')
  qed (use c_revoke in simp)
next
  case (c_purge live ident i key s res k')
  show ?case
  proof (cases "k' = cs_kernel s")
    case False
    then obtain c idem where
      k': "k' = \<lparr>kn_conns = mput i (c\<lparr>cn_objects := [], cn_state := statePurged, cn_aclEpoch := cn_aclEpoch c + 1\<rparr>) (kn_conns (cs_kernel s)), kn_idem = idem\<rparr>"
      using c_purge.hyps by (auto simp: PurgeConnector_def Let_def split: if_split_asm option.split_asm)
    show ?thesis using kmirrors_mput[OF c_purge.prems(2)] by (simp add: k' mirrors_def)
  qed (use c_purge in simp)
qed simp_all

end
