(* ===== verification/Connector_Properties.thy ===== *)
theory Connector_Properties
  imports Connector_Safety
begin

text \<open>
  What the connector promises while its calls overlap, stated over the reachable states of
  kernel and gate: an answer's evidence is live and permitted, closing a connection or
  revoking a grant is final, and the admitted objects are those of the provider at the
  connection's cursor.  The sample run at the start is the input of the witnesses.
\<close>

section \<open>A sample run\<close>

definition wtx :: text_env where
  "wtx = \<lparr>tx_sha = id, tx_lower = id, tx_equalFold = (=)\<rparr>"

definition wid :: cIdentity where
  "wid = \<lparr>ci_Tenant = ''t'', ci_Principal = ''p'', ci_Session = ''s''\<rparr>"

definition wscope :: string where
  "wscope = ''github.com/o/r''"

definition wob :: cObject where
  "wob = \<lparr>ob_ID = ''o1'', ob_Kind = ''issue'', ob_Title = ''x'', ob_Body = ''y'', ob_Path = ''z'', ob_IssueNumber = 1, ob_StartLine = 0,
          ob_EndLine = 0, ob_Version = ''v'', ob_Deleted = False\<rparr>"

definition wpage :: SnapshotPage where
  "wpage = \<lparr>pg_Cursor = ''c1'', pg_Revision = ''r1'', pg_ConnectorDigest = replicate 64 CHR ''a'', pg_ObservedAt = 1, pg_Objects = [wob],
            pg_Complete = True, pg_ErrorCode = []\<rparr>"

definition wcalls :: "cIdentity \<Rightarrow> ConnectRequest \<Rightarrow> bool" where
  "wcalls ident req \<longleftrightarrow> nul_free (ci_Tenant ident) \<and> nul_free (ci_Principal ident) \<and> nul_free (cq_IdempotencyKey req)"

lemma wcalls_nul_free: "nul_free_calls wcalls"
  by (simp add: nul_free_calls_def wcalls_def)

definition wreq :: ConnectRequest where
  "wreq = \<lparr>cq_Owner = ''o'', cq_Repo = ''r'', cq_SourceScope = wscope, cq_ActionGrantRequested = False, cq_IdempotencyKey = ''k''\<rparr>"

definition wcfg :: gate_config where
  "wcfg = \<lparr>gc_OpaqueScopes = [wscope], gc_MaxProbesPerQuery = 8, gc_ProbeTimeout = second, gc_VerdictTTL = second,
           gc_MaxCachedVerdicts = 16, gc_MaxGrantTTL = second, gc_AuditTimeout = second, gc_StoreTimeout = second\<rparr>"

definition wgrant :: DelegatedGrant where
  "wgrant = \<lparr>dg_ID = ''g'', dg_Tenant = ''t'', dg_Principal = ''p'', dg_SourceScope = wscope, dg_IssuedAt = 1, dg_ExpiresAt = 100\<rparr>"

definition wrecord :: DelegatedGrantRecord where
  "wrecord = \<lparr>gq_Grant = wgrant, gq_Epoch = 1, gq_Active = True, gq_Revoked = False\<rparr>"

definition wconn :: connection where
  "wconn = new_connection wtx wid wreq wpage"

definition wquery :: QueryRequest where
  "wquery = \<lparr>qy_ConnectionId = Some (cn_id wconn), qy_Query = ''x'', qy_IdempotencyKey = ''q'', qy_DelegatedGrantID = ''g''\<rparr>"

definition wgate :: DelegatedGate where
  "wgate = (case NewDelegatedGate wtx True True True wcfg of Inr g \<Rightarrow> g)"

lemmas wdefs = wtx_def wid_def wscope_def wob_def wpage_def wreq_def wgrant_def wrecord_def wquery_def

lemma wfield: "validDelegatedField ''g''" "validDelegatedField ''t''" "validDelegatedField ''p''" "validDelegatedField wscope"
  "validDelegatedField ''r1''" "validDelegatedCursor ''c1''" "trim_space ''x'' = ''x''"
proof -
  have t: "trim_space ''g'' = ''g''" "trim_space ''t'' = ''t''" "trim_space ''p'' = ''p''" "trim_space ''github.com/o/r'' = ''github.com/o/r''"
    "trim_space ''r1'' = ''r1''" "trim_space ''c1'' = ''c1''" "trim_space ''x'' = ''x''"
    by (rule trim_space_id; simp add: graphic_def)+
  show "validDelegatedField ''g''" "validDelegatedField ''t''" "validDelegatedField ''p''" "validDelegatedField wscope"
    "validDelegatedField ''r1''" "validDelegatedCursor ''c1''" "trim_space ''x'' = ''x''"
    by (simp_all add: validDelegatedField_def validDelegatedCursor_def t maxDelegatedFieldLength_def has_prefix_def wscope_def)
qed

lemma wdigest: "isLowerHexSHA256 (replicate 64 CHR ''a'')"
proof -
  have "runes_of (replicate n CHR ''a'') = replicate n (97, ''a'')" for n
    by (induction n) (simp_all add: runes_of_ascii_Cons byte_def del: runes_of.simps(2))
  then show ?thesis by (simp add: isLowerHexSHA256_def list_all_iff)
qed


lemma wgate_eq: "NewDelegatedGate wtx True True True wcfg = Inr wgate" "ga_cfg wgate = wcfg" "gs_records (ga_store wgate) = []" "gs_max (ga_store wgate) = 4096"
  "ga_verdicts wgate = []"
  by (simp_all add: wgate_def NewDelegatedGate_def wcfg_def wfield bounded_def second_def NewMemoryDelegatedGrantStore_def maxDelegatedGrants_def)
    (simp_all add: wtx_def)

lemma wopaque: "ga_cfg g = wcfg \<Longrightarrow> OpaqueScope wtx g wscope"
  by (simp add: OpaqueScope_def wcfg_def wtx_def)

definition wkernel :: Kernel where
  "wkernel = snd (ConnectGitHubSource wtx True (Some wgate) (Inr wpage) wid wreq NewKernel)"

lemma wpage_checked: "checked_page wtx (Some wgate) wscope wpage = wpage"
  by (simp add: checked_page_def validDelegatedSourcePage_def wpage_def wfield wdigest zeroTime_def)

lemma wkernel_eq: "kn_conns wkernel = [(cn_id wconn, wconn)]"
  by (simp add: wkernel_def ConnectGitHubSource_def NewKernel_def validIdentity_def wid_def wreq_def wpage_checked Let_def)
    (simp add: wconn_def wtx_def wscope_def wid_def wreq_def)

lemma wconn_fields: "cn_tenant wconn = ''t''" "cn_principal wconn = ''p''" "cn_sourceScope wconn = wscope" "cn_state wconn = stateReady"
  "cn_objects wconn = [(''o1'', wob)]" "cn_aclEpoch wconn = 1" "cn_connectorDigest wconn = replicate 64 CHR ''a''"
  "cn_sourceRevision wconn = ''r1''" "cn_cursor wconn = ''c1''" "cn_observedAt wconn = 1"
  by (simp_all add: wconn_def new_connection_def Let_def wpage_def wid_def wreq_def admit_all_def wob_def)

definition wsnap :: "string \<Rightarrow> string \<Rightarrow> connector_error + SnapshotPage \<Rightarrow> bool" where
  "wsnap ow re p \<longleftrightarrow> p = Inr wpage"

definition wdelta :: "string \<Rightarrow> string \<Rightarrow> string \<Rightarrow> connector_error + SnapshotPage \<Rightarrow> bool" where
  "wdelta ow re cu p \<longleftrightarrow> p = Inl CSource"

definition wstate :: "DelegatedGate \<Rightarrow> csys" where
  "wstate g = (cinit (Some g))\<lparr>cs_kernel := wkernel\<rparr>"

text \<open>A gate that holds the sample grant, active and with no verdict in its cache.\<close>

definition wready :: "DelegatedGate \<Rightarrow> bool" where
  "wready g \<longleftrightarrow> ga_cfg g = wcfg \<and> gs_records (ga_store g) = [(''g'', wrecord)] \<and> ga_verdicts g = []"

lemma wconnected: "(cstep wtx wcalls wsnap wdelta)\<^sup>*\<^sup>* (cinit (Some wgate)) (wstate wgate)"
proof -
  obtain res where "ConnectGitHubSource wtx True (Some wgate) (Inr wpage) wid wreq NewKernel = (res, wkernel)"
    by (cases "ConnectGitHubSource wtx True (Some wgate) (Inr wpage) wid wreq NewKernel") (simp add: wkernel_def)
  then have "cstep wtx wcalls wsnap wdelta (cinit (Some wgate)) ((cinit (Some wgate))\<lparr>cs_kernel := wkernel\<rparr>)"
    by (intro c_connect) (auto simp: wid_def wreq_def wcalls_def nul_free_def wsnap_def cinit_def)
  then show ?thesis by (simp add: wstate_def)
qed

lemma wissued: "\<exists>g. wready g \<and> (cstep wtx wcalls wsnap wdelta)\<^sup>*\<^sup>* (wstate wgate) (wstate g)"
proof -
  define g1 where "g1 = snd (issue_begin wtx True 1 (Inr wid) True wgrant wgate)"
  have b: "issue_begin wtx True 1 (Inr wid) True wgrant wgate = (Inr wid, g1)"
    and g1: "ga_cfg g1 = wcfg" "gs_records (ga_store g1) = [(''g'', wrecord\<lparr>gq_Active := False\<rparr>)]" "ga_verdicts g1 = []"
    using wopaque[OF wgate_eq(2)]
    by (simp_all add: g1_def issue_begin_def wgate_eq wgrant_def wid_def wfield zeroTime_def time_sub_def validIdentity_def store_Prepare_def wrecord_def)
      (simp_all add: wcfg_def second_def)
  obtain ok g2 where r: "issue_record wtx None 1 wid wgrant g1 = (ok, g2)" by (cases "issue_record wtx None 1 wid wgrant g1")
  then have ok: "ok" and g2: "ga_cfg g2 = wcfg" "ga_store g2 = ga_store g1" "ga_verdicts g2 = []"
    using g1 by (auto simp: issue_record_def appendReceipt_def Let_def)
  obtain err g3 where e: "issue_end True True wgrant g2 = (err, g3)" by (cases "issue_end True True wgrant g2")
  then have g3: "wready g3"
    using g1 g2 by (auto simp: wready_def issue_end_def store_Activate_def wgrant_def wrecord_def Let_def split: prod.split_asm)
  let ?s1 = "(wstate wgate)\<lparr>cs_gate := Some g1, cs_admin := (\<lambda>_. GIdle)(0 := GPrepared wid wgrant)\<rparr>"
  let ?s2 = "?s1\<lparr>cs_gate := Some g2, cs_admin := (cs_admin ?s1)(0 := GRecorded ok wgrant)\<rparr>"
  let ?s3 = "?s2\<lparr>cs_gate := Some g3, cs_admin := (cs_admin ?s2)(0 := GIdle)\<rparr>"
  have "cstep wtx wcalls wsnap wdelta (wstate wgate) ?s1"
    using g_issue[of "wstate wgate" 0 wgate wtx True 1 "Inr wid" True wgrant "Inr wid" g1 wcalls wsnap wdelta] b by (simp add: wstate_def cinit_def)
  moreover have "cstep wtx wcalls wsnap wdelta ?s1 ?s2" by (rule g_record[OF _ _ r]) simp_all
  moreover have "cstep wtx wcalls wsnap wdelta ?s2 ?s3" by (rule g_issued[where storeLive = True]) (use ok e in simp_all)
  ultimately have "(cstep wtx wcalls wsnap wdelta)\<^sup>*\<^sup>* (wstate wgate) ?s3" by (meson rtranclp.intros)
  moreover have "?s3 = wstate g3" by (simp add: wstate_def cinit_def fun_eq_iff)
  ultimately show ?thesis using g3 by metis
qed


definition wctx :: query_ctx where
  "wctx = query_context wtx wid wquery wconn"

lemma wctx_fields: "qc_ident wctx = wid" "qc_grantID wctx = ''g''" "qc_query wctx = ''x''" "qc_connID wctx = cn_id wconn" "qc_scope wctx = wscope"
  "qc_epoch wctx = 1" "qc_fresh wctx = \<lparr>fr_ConnectorDigest = replicate 64 CHR ''a'', fr_SourceRevision = ''r1'', fr_SourceCursor = ''c1'', fr_ObservedAt = 1\<rparr>"
  by (simp_all add: wctx_def query_context_def wquery_def wconn_fields wfield) (simp_all add: wtx_def)

lemma wactive: "lookupActive wid (cn_id wconn) wkernel = Some wconn" "revalidate wctx wkernel = Some wconn"
  by (simp_all add: revalidate_def wctx_fields lookupActive_def lookup_owned_def wkernel_eq owned_def wconn_fields wid_def)

lemma wbegin: "ga_cfg g = wcfg \<Longrightarrow> query_begin wtx True (Some g) wid wquery wkernel = QCaptured wctx"
  using wopaque[of g] wactive(1)
  by (simp add: query_begin_def wquery_def opaque_def wconn_fields Let_def wctx_def validIdentity_def)
    (simp add: wid_def)

lemma wstored:
  assumes "ga_cfg g = wcfg" "gq_Grant r = wgrant" "gq_Epoch r = e" "0 < e" "1 \<le> now"
  shows "validStoredGrant wtx g ''g'' r now"
  using assms wopaque[OF assms(1)] by (simp add: validStoredGrant_def Let_def wgrant_def wfield zeroTime_def time_sub_def)
    (simp add: wcfg_def second_def)

lemma wfresh: "delegatedComponentEvidence (qc_fresh wctx) 1"
  by (simp add: delegatedComponentEvidence_def wctx_fields wdigest wfield zeroTime_def)

lemma wgranted:
  assumes "wready g"
  shows "grant_outcome wtx g 1 wid wscope ''g'' (Some wrecord) = []" "store_Get True ''g'' (ga_store g) = Inr (Some wrecord)"
    "recheck wtx g True 1 1 ''g'' 1 = []"
proof -
  have v: "validStoredGrant wtx g ''g'' wrecord 1" by (rule wstored[of _ _ 1]) (use assms in \<open>simp_all add: wready_def wrecord_def\<close>)
  show "grant_outcome wtx g 1 wid wscope ''g'' (Some wrecord) = []"
    using v by (simp add: grant_outcome_def) (simp add: wdefs)
  show s: "store_Get True ''g'' (ga_store g) = Inr (Some wrecord)" using assms by (simp add: store_Get_def wready_def)
  show "recheck wtx g True 1 1 ''g'' 1 = []" using v s by (simp add: recheck_def) (simp add: wdefs)
qed

lemma wpreauthorized:
  assumes "wready g"
  shows "preauthorizeQuery wtx True True True None 1 (qc_ident wctx) (qc_scope wctx) (qc_grantID wctx) (qc_fresh wctx) g = (Inr wrecord, g)"
  using wgranted[OF assms] wfresh by (simp add: preauthorizeQuery_def Let_def wctx_fields(1,2,5)) (simp add: wdefs validIdentity_def)

lemma wmatching: "matching wtx wconn ''x'' = [wob]"
  by (simp add: matching_def wconn_fields objectMatchesQuery_def wob_def wtx_def has_prefix_def)

lemma wauthorized:
  assumes "wready g"
  shows "\<exists>f p g'. query_authorize wtx True None 1 wctx wrecord [wob] g = (QAuthorizing wctx wrecord [wob] p, g)
    \<and> authorize_end wtx (\<lambda>_. (True, Some True)) True None 1 1 (qc_grantID wctx) p g = (([''o1''], f), g')
    \<and> re_Outcome f = ''allowed'' \<and> wready (g'\<lparr>ga_verdicts := []\<rparr>)"
proof -
  let ?r = "(newDelegatedReceipt wtx 1 wid wscope (id_grant ''g'') (qc_fresh wctx))\<lparr>re_RequestedObjects := 1, re_GrantDigest := delegatedGrantDigest wtx wgrant\<rparr>"
  let ?p = "\<lparr>pa_now = 1, pa_grant = wgrant, pa_epoch = 1, pa_ids = [''o1''], pa_allowed = [], pa_misses = [''o1''], pa_receipt = ?r\<rparr>"
  have "authorize_begin wtx True 1 wid wscope ''g'' [''o1''] (qc_fresh wctx) g = Inr ?p"
    using wgranted[OF assms] assms
    by (simp add: authorize_begin_def uniqueSortedIDs_def consult_def wready_def validIdentity_def Let_def)
      (simp add: wid_def wscope_def wrecord_def)
  then have q: "query_authorize wtx True None 1 wctx wrecord [wob] g = (QAuthorizing wctx wrecord [wob] ?p, g)"
    by (simp add: query_authorize_def wctx_fields(1,2,5) wob_def)
  have "re_ProbeCalls ?r = 0" by (simp add: newDelegatedReceipt_def)
  moreover have "gc_MaxProbesPerQuery (ga_cfg g) = 8" using assms by (simp add: wready_def wcfg_def)
  ultimately have e: "\<exists>f g'. authorize_end wtx (\<lambda>_. (True, Some True)) True None 1 1 ''g'' ?p g = (([''o1''], f), g')
      \<and> re_Outcome f = ''allowed'' \<and> wready (g'\<lparr>ga_verdicts := []\<rparr>)"
    using wgranted(3)[OF assms] assms
    by (simp add: authorize_end_def appendReceipt_def outcome_of_def Let_def wready_def storeVerdict_state)
  show ?thesis using q e wctx_fields(2) by auto
qed

lemma whydrated:
  assumes "ga_cfg g = wcfg" "gs_records (ga_store g) = [(''g'', wrecord)]" "re_Outcome f = ''allowed''"
  shows "\<exists>g'. query_hydrate wtx (\<lambda>_. (True, Some wob, Some True)) True None 1 1 1 wctx wrecord [wob] ([''o1''], f) g
    = (QDecided wctx wrecord (Inr ([wob], [])), g')"
proof -
  have p: "gate_permitted [wob] ([''o1''], f) = Inr [wob]"
    using assms(3) by (simp add: gate_permitted_def decided_def wob_def)
  have "recheck wtx g True 1 1 ''g'' 1 = recheck wtx (g\<lparr>ga_verdicts := []\<rparr>) True 1 1 ''g'' 1"
    by (simp add: recheck_def validStoredGrant_def OpaqueScope_def Let_def split: sum.split option.split)
  also have "\<dots> = []" by (rule wgranted(3)) (use assms in \<open>simp add: wready_def\<close>)
  finally have r: "recheck wtx g True 1 1 ''g'' 1 = []" .
  have w: "\<not> ob_Deleted wob" "ob_Version wob \<noteq> []" "objectMatchesQuery wtx wob ''x''"
    by (simp_all add: wob_def objectMatchesQuery_def wtx_def has_prefix_def)
  have d: "dg_ID (gq_Grant wrecord) = ''g''" "gq_Epoch wrecord = 1" by (simp_all add: wrecord_def wgrant_def)
  have "hydrate_all (Suc 7) (\<lambda>_. (True, Some wob, Some True)) [wob] rc
      = ([wob], rc\<lparr>re_ContentCalls := re_ContentCalls rc + 1, re_ProbeCalls := re_ProbeCalls rc + 1\<rparr>)" for rc
    using w by (simp only: hydrate_all.simps(3)) (simp add: Let_def)
  then have ha: "hydrate_all (nat (gc_MaxProbesPerQuery (ga_cfg g))) (\<lambda>_. (True, Some wob, Some True)) [wob] rc
      = ([wob], rc\<lparr>re_ContentCalls := re_ContentCalls rc + 1, re_ProbeCalls := re_ProbeCalls rc + 1\<rparr>)" for rc
    using assms(1) by (simp add: wcfg_def)
  have "\<exists>f' g'. hydrateAuthorized wtx (\<lambda>_. (True, Some wob, Some True)) True None 1 1 1 wid wscope wrecord [wob] (qc_fresh wctx) g = (([wob], f'), g')
      \<and> re_Outcome f' = ''allowed''"
    using r d by (simp add: hydrateAuthorized_def ha appendReceipt_def outcome_of_def Let_def)
  then obtain f' g' where h: "hydrateAuthorized wtx (\<lambda>_. (True, Some wob, Some True)) True None 1 1 1 wid wscope wrecord [wob] (qc_fresh wctx) g = (([wob], f'), g')"
    and f': "re_Outcome f' = ''allowed''" by blast
  show ?thesis using p h f' w by (simp add: query_hydrate_def wctx_fields(1,3,5) gate_hydrated_def decided_def)
qed


definition wasking :: "DelegatedGate \<Rightarrow> (nat \<times> DelegatedGrant \<times> cObject) set \<Rightarrow> qphase \<Rightarrow> csys" where
  "wasking g V ph = (wstate g)\<lparr>cs_query := (\<lambda>_. QIdle)(0 := ph), cs_vouched := V\<rparr>"

lemma wasking_simps [simp]: "cs_query (wasking g V ph) 0 = ph" "cs_gate (wasking g V ph) = Some g" "cs_kernel (wasking g V ph) = wkernel"
  "cs_vouched (wasking g V ph) = V" "cs_admin (wasking g V ph) = (\<lambda>_. GIdle)"
  "(wasking g V ph)\<lparr>cs_query := (cs_query (wasking g V ph))(0 := ph')\<rparr> = wasking g V ph'"
  "(wasking g V ph)\<lparr>cs_gate := Some g', cs_query := (cs_query (wasking g V ph))(0 := ph')\<rparr> = wasking g' V ph'"
  "(wasking g V ph)\<lparr>cs_vouched := V'\<rparr> = wasking g V' ph"
  by (simp_all add: wasking_def wstate_def cinit_def)

lemma wfresh_gate: "fresh_gate wtx (Some wgate)"
  using wgate_eq(1) by (auto simp: fresh_gate_def)

lemma wcaptured: "\<exists>g. wready g \<and> (cstep wtx wcalls wsnap wdelta)\<^sup>*\<^sup>* (cinit (Some wgate)) (wasking g {} (QCaptured wctx))"
proof -
  obtain g where g: "wready g" "(cstep wtx wcalls wsnap wdelta)\<^sup>*\<^sup>* (wstate wgate) (wstate g)" using wissued by blast
  have "wstate g = wasking g {} QIdle" by (simp add: wasking_def wstate_def cinit_def fun_eq_iff)
  moreover have "cstep wtx wcalls wsnap wdelta (wasking g {} QIdle) (wasking g {} (QCaptured wctx))"
    using q_begin[of "wasking g {} QIdle" 0 wtx wcalls wsnap wdelta True wid wquery] wbegin[of g] g(1) by (simp add: wready_def)
  ultimately show ?thesis using g wconnected by (metis rtranclp.rtrancl_into_rtrancl rtranclp_trans)
qed

text \<open>A permitted query up to its decision, and the answer that follows.\<close>

lemma wdecided:
  "\<exists>g V. ga_cfg g = wcfg \<and> (cstep wtx wcalls wsnap wdelta)\<^sup>*\<^sup>* (cinit (Some wgate)) (wasking g V (QDecided wctx wrecord (Inr ([wob], []))))"
proof -
  let ?R = "cstep wtx wcalls wsnap wdelta"
  obtain g where g: "wready g" "?R\<^sup>*\<^sup>* (cinit (Some wgate)) (wasking g {} (QCaptured wctx))" using wcaptured by blast
  obtain f p g2 where a: "query_authorize wtx True None 1 wctx wrecord [wob] g = (QAuthorizing wctx wrecord [wob] p, g)"
      "authorize_end wtx (\<lambda>_. (True, Some True)) True None 1 1 (qc_grantID wctx) p g = (([''o1''], f), g2)"
      "re_Outcome f = ''allowed''" "wready (g2\<lparr>ga_verdicts := []\<rparr>)"
    using wauthorized[OF g(1)] by blast
  have g2: "ga_cfg g2 = wcfg" "gs_records (ga_store g2) = [(''g'', wrecord)]" using a(4) by (simp_all add: wready_def)
  obtain g3 where h: "query_hydrate wtx (\<lambda>_. (True, Some wob, Some True)) True None 1 1 1 wctx wrecord [wob] ([''o1''], f) g2
      = (QDecided wctx wrecord (Inr ([wob], [])), g3)" using whydrated[OF g2 a(3)] by blast
  let ?V = "vouches wtx g2 True 1 1 (\<lambda>_. (True, Some wob, Some True)) 0 wrecord"
  have "?R (wasking g {} (QCaptured wctx)) (wasking g {} (QPreauthorized wctx wrecord))"
    using q_preauthorize[OF _ _ wpreauthorized[OF g(1)], of "wasking g {} (QCaptured wctx)" 0 wcalls wsnap wdelta] by simp
  moreover have "?R (wasking g {} (QPreauthorized wctx wrecord)) (wasking g {} (QEnumerated wctx wrecord [wob]))"
    using q_enumerate[of "wasking g {} (QPreauthorized wctx wrecord)" 0 wctx wrecord wtx wcalls wsnap wdelta]
    by (simp add: query_enumerate_def wactive wctx_fields wmatching)
  moreover have "?R (wasking g {} (QEnumerated wctx wrecord [wob])) (wasking g {} (QAuthorizing wctx wrecord [wob] p))"
    using q_authorize[OF _ _ a(1), of "wasking g {} (QEnumerated wctx wrecord [wob])" 0 wcalls wsnap wdelta] by simp
  moreover have "?R (wasking g {} (QAuthorizing wctx wrecord [wob] p)) (wasking g2 {} (QAuthorized wctx wrecord [wob] ([''o1''], f)))"
    using q_probe[OF _ _ a(2), of "wasking g {} (QAuthorizing wctx wrecord [wob] p)" 0 wrecord "[wob]" wcalls wsnap wdelta] by simp
  moreover have "?R (wasking g2 {} (QAuthorized wctx wrecord [wob] ([''o1''], f))) (wasking g3 ?V (QDecided wctx wrecord (Inr ([wob], []))))"
    using q_hydrate[OF _ _ h, of "wasking g2 {} (QAuthorized wctx wrecord [wob] ([''o1''], f))" 0 wcalls wsnap wdelta] by simp
  ultimately have "?R\<^sup>*\<^sup>* (cinit (Some wgate)) (wasking g3 ?V (QDecided wctx wrecord (Inr ([wob], []))))"
    using g(2) by (meson rtranclp.rtrancl_into_rtrancl)
  moreover have "ga_cfg g3 = wcfg" using gate_keeps_hydrate[OF h] g2(1) by (simp add: gate_keeps_def)
  ultimately show ?thesis by blast
qed

definition wanswer :: query_success where
  "wanswer = querySuccess wconn (buildAnswer wtx wconn [wob] ''x'')"

lemma wended: "query_end wtx wctx (Inr ([wob], [])) wkernel = QDone wctx (Inr wanswer)"
proof -
  have "objectMatchesQuery wtx wob ''x''" "mget (cn_objects wconn) (ob_ID wob) = Some wob"
    by (simp_all add: wconn_fields) (simp_all add: wob_def objectMatchesQuery_def wtx_def has_prefix_def)
  then show ?thesis by (simp add: query_end_def wactive wctx_fields Let_def wanswer_def)
qed

lemma wclaims: "an_Claims (qs_Answer wanswer) \<noteq> []"
  using buildAnswer_claims[of wtx wconn "[wob]" "''x''"] by (simp add: wanswer_def querySuccess_def)

text \<open>A captured query whose grant is revoked before the gate reads it.\<close>

lemma wrevoked:
  "\<exists>s g r s'. (cstep wtx wcalls wsnap wdelta)\<^sup>*\<^sup>* (cinit (Some wgate)) s \<and> cs_gate s = Some g \<and> ga_cfg g = wcfg \<and> mget (gs_records (ga_store g)) ''g'' = Some r
     \<and> gq_Revoked r \<and> cs_query s 0 = QCaptured wctx \<and> (cstep wtx wcalls wsnap wdelta)\<^sup>*\<^sup>* s s'
     \<and> cs_query s' 0 = QDone wctx (Inr (delegatedAbstain wconn ''delegated_grant_revoked''))"
proof -
  let ?R = "cstep wtx wcalls wsnap wdelta"
  obtain g where g: "wready g" "?R\<^sup>*\<^sup>* (cinit (Some wgate)) (wasking g {} (QCaptured wctx))" using wcaptured by blast
  let ?r = "wrecord\<lparr>gq_Active := False, gq_Revoked := True, gq_Epoch := 2\<rparr>"
  obtain g1 where rv: "revoke_store True (Inr wid) True ''g'' g = (Inr (wid, ?r), g1)"
    and g1: "ga_cfg g1 = wcfg" "gs_records (ga_store g1) = [(''g'', ?r)]"
    using g(1) by (simp add: revoke_store_def store_Revoke_def wready_def validIdentity_def wid_def wrecord_def wgrant_def Let_def)
  define s where "s = (wasking g {} (QCaptured wctx))\<lparr>cs_gate := Some g1, cs_admin := (\<lambda>_. GIdle)(0 := GRevoked wid ?r ''g'')\<rparr>"
  have s1: "?R (wasking g {} (QCaptured wctx)) s"
    using g_revoke[OF _ _ rv, of "wasking g {} (QCaptured wctx)" 0 wtx wcalls wsnap wdelta] by (simp add: s_def)
  have v: "validStoredGrant wtx g1 ''g'' ?r 1" by (rule wstored[of _ _ 2]) (use g1 in \<open>simp_all add: wrecord_def\<close>)
  have oc: "grant_outcome wtx g1 1 wid wscope ''g'' (Some ?r) = ''grant_revoked''"
    using v by (simp add: grant_outcome_def) (simp add: wrecord_def wgrant_def wid_def)
  have gt: "store_Get True ''g'' (ga_store g1) = Inr (Some ?r)" using g1(2) by (simp add: store_Get_def)
  have i: "validIdentity wid" "wscope \<noteq> []" by (simp_all add: validIdentity_def wid_def wscope_def)
  have "\<exists>g2. preauthorizeQuery wtx True True True None 1 wid wscope ''g'' (qc_fresh wctx) g1 = (Inl ''grant_revoked'', g2)"
    using oc gt wfresh i by (simp add: preauthorizeQuery_def Let_def appendReceipt_def)
  then obtain g2 where pr: "preauthorizeQuery wtx True True True None 1 (qc_ident wctx) (qc_scope wctx) (qc_grantID wctx) (qc_fresh wctx) g1
      = (Inl ''grant_revoked'', g2)" by (auto simp: wctx_fields(1,2,5))
  define s2 where "s2 = s\<lparr>cs_gate := Some g2, cs_query := (cs_query s)(0 := QRefused wctx ''grant_revoked'')\<rparr>"
  have s2: "?R s s2"
    using q_preauthorize[OF _ _ pr, of s 0 wcalls wsnap wdelta] by (simp add: s_def s2_def)
  have s3: "?R s2 (s2\<lparr>cs_query := (cs_query s2)(0 := query_refused wctx ''grant_revoked'' (cs_kernel s2))\<rparr>)"
    by (rule q_refused) (simp add: s2_def)
  have k: "query_refused wctx ''grant_revoked'' (cs_kernel s2) = QDone wctx (Inr (delegatedAbstain wconn ''delegated_grant_revoked''))"
    by (simp add: s2_def s_def query_refused_def wactive)
  have "?R\<^sup>*\<^sup>* (cinit (Some wgate)) s" using g(2) s1 by (rule rtranclp.rtrancl_into_rtrancl)
  moreover have "?R\<^sup>*\<^sup>* s (s2\<lparr>cs_query := (cs_query s2)(0 := query_refused wctx ''grant_revoked'' (cs_kernel s2))\<rparr>)"
    using r_into_rtranclp[of ?R s s2, OF s2] s3 by (rule rtranclp.rtrancl_into_rtrancl)
  moreover have "cs_gate s = Some g1" "cs_query s 0 = QCaptured wctx" by (simp_all add: s_def)
  ultimately show ?thesis using g1 k by (intro exI[of _ s] exI[of _ g1] exI[of _ ?r] exI) auto
qed


lemma wclosed:
  assumes "RevokeConnector wtx True wid (cn_id wconn) ''k2'' wkernel = (res, k')"
  shows "mget (kn_conns k') (cn_id wconn) = Some (wconn\<lparr>cn_state := stateRevoked, cn_aclEpoch := 2\<rparr>)"
proof -
  have i: "cn_id wconn = nul_join [connectionDomain, ''t'', ''p'', ''k'', nul_join [''o'', ''r'', wscope, ''false'', ''k'']]"
    by (simp add: wconn_def new_connection_def connection_identity_def connectDigest_def Let_def wtx_def wid_def wreq_def wpage_def)
  have id: "validBoundedID (cn_id wconn)" by (simp add: i nul_join_def validBoundedID_def connectionDomain_def wscope_def)
  have "kn_idem wkernel = [(idempotencyKey wid ''connect'' ''k'', \<lparr>ir_operation = ''connect'', ir_requestDigest = connectDigest wtx wreq, ir_connectionID = cn_id wconn\<rparr>)]"
    by (simp add: wkernel_def ConnectGitHubSource_def NewKernel_def validIdentity_def wid_def wreq_def wpage_checked Let_def)
      (simp add: wconn_def wtx_def wscope_def wid_def wreq_def)
  then have none: "mget (kn_idem wkernel) (idempotencyKey wid ''revoke'' ''k2'') = None" by (simp add: idempotencyKey_def wid_def)
  have own: "lookup_owned wid (cn_id wconn) wkernel = Some wconn"
    by (simp add: lookup_owned_def wkernel_eq owned_def wconn_fields wid_def)
  have "validIdentity wid" by (simp add: validIdentity_def wid_def)
  then show ?thesis using assms id none own by (auto simp: RevokeConnector_def Let_def wconn_fields)
qed


section \<open>Properties\<close>



text \<open>C14. Closing a connection is final.  After a connection is revoked or purged, whatever
  calls follow or were in flight: it stays closed under its ID, a purged one holds
  no object, its status is denied, no reconciliation reports progress on it, and every query
  that had not ended before ends without an answer from it.  This holds as long as no connect
  command carries a NUL byte in tenant, principal or key, which the kernel does not check,
  and for a hash without collisions.\<close>

theorem closed_connection_stays_silent:
  assumes sha: "inj (tx_sha tx)" and nf: "nul_free_calls calls" and reach: "creach tx calls snap delta s" and run: "(cstep tx calls snap delta)\<^sup>*\<^sup>* s s'"
    and c: "mget (kn_conns (cs_kernel s)) i = Some c" "cn_state c = stateRevoked \<or> cn_state c = statePurged"
  shows "(\<exists>c'. mget (kn_conns (cs_kernel s')) i = Some c' \<and> (cn_state c' = stateRevoked \<or> cn_state c' = statePurged)
      \<and> (cn_state c' = statePurged \<longrightarrow> cn_objects c' = []))
    \<and> (\<forall>live ident. \<exists>err. GetConnectorStatus live ident i (cs_kernel s') = Inl err)
    \<and> (\<forall>live src ident req ok k' gate'. ReconcileConnector tx live (cs_gate s') src ident req (cs_kernel s') = (Inr ok, k', gate')
         \<longrightarrow> rs_ConnectionId ok \<noteq> i)
    \<and> (\<forall>q ctx res. cs_query s' q = QDone ctx (Inr res) \<and> cs_query s q \<noteq> QDone ctx (Inr res) \<longrightarrow> qs_ConnectionId res \<noteq> i)"
proof -
  have ids: "distinct_ids tx calls" using sha nf by (simp add: distinct_ids_def)
  have I: "cinv tx s" by (rule creach_inv[OF reach ids])
  have I': "cinv tx s'" and kernel_keeps: "kernel_keeps (cs_kernel s) (cs_kernel s')" using csteps_inv[OF run I ids] by simp_all
  have cl: "conn_closed c" using c(2) by (simp add: conn_closed_def)
  obtain c' where c': "mget (kn_conns (cs_kernel s')) i = Some c'" "conn_closed c'" using kernel_keepsD[OF kernel_keeps c(1)] cl by blast
  have K: "kinv tx (cs_kernel s')" using I' by (simp add: cinv_def)
  then have ok: "conn_ok tx (cs_kernel s') i c'" using c'(1) by (simp add: kinv_def)
  have none: "lookupActive ident i (cs_kernel s') = None" for ident
    using c' by (simp add: lookupActive_def lookup_owned_def conn_closed_def)
  have "GetConnectorStatus live ident i (cs_kernel s') \<in> range Inl" for live ident
    by (simp add: GetConnectorStatus_def none)
  moreover have "rs_ConnectionId r \<noteq> i"
    if "ReconcileConnector tx live (cs_gate s') src ident req (cs_kernel s') = (Inr r, k', gate')" for live src ident req r k' gate'
    using reconcile_names_open[OF K that] c' by auto
  moreover have "qs_ConnectionId res \<noteq> i" if "cs_query s' q = QDone ctx (Inr res) \<and> cs_query s q \<noteq> QDone ctx (Inr res)" for q ctx res
    using closed_silences[OF run I ids c(1) cl] that by blast
  ultimately show ?thesis using c' ok unfolding conn_ok_def conn_closed_def by blast
qed


theorem closed_connection_stays_silent_witness:
  "\<exists>s c. creach wtx wcalls wsnap wdelta s \<and> mget (kn_conns (cs_kernel s)) (cn_id wconn) = Some c \<and> cn_state c = stateRevoked
     \<and> (\<exists>err. GetConnectorStatus True wid (cn_id wconn) (cs_kernel s) = Inl err)"
proof -
  obtain res k' where r: "RevokeConnector wtx True wid (cn_id wconn) ''k2'' wkernel = (res, k')"
    by (cases "RevokeConnector wtx True wid (cn_id wconn) ''k2'' wkernel")
  then have c: "mget (kn_conns k') (cn_id wconn) = Some (wconn\<lparr>cn_state := stateRevoked, cn_aclEpoch := 2\<rparr>)"
    by (rule wclosed)
  let ?s = "(wstate wgate)\<lparr>cs_kernel := k'\<rparr>"
  have "cstep wtx wcalls wsnap wdelta (wstate wgate) ?s" by (rule c_revoke) (use r in \<open>simp add: wstate_def\<close>)
  with wconnected have "(cstep wtx wcalls wsnap wdelta)\<^sup>*\<^sup>* (cinit (Some wgate)) ?s" by (rule rtranclp.rtrancl_into_rtrancl)
  then have reach: "creach wtx wcalls wsnap wdelta ?s" unfolding creach_def using wfresh_gate by blast
  have sha: "inj (tx_sha wtx)" by (simp add: wtx_def)
  have "\<exists>err. GetConnectorStatus True wid (cn_id wconn) (cs_kernel ?s) = Inl err"
    using closed_connection_stays_silent[OF sha wcalls_nul_free reach rtranclp.rtrancl_refl, of "cn_id wconn" "wconn\<lparr>cn_state := stateRevoked, cn_aclEpoch := 2\<rparr>"] c
    by simp
  then show ?thesis using reach c by (intro exI[of _ ?s] exI[of _ "wconn\<lparr>cn_state := stateRevoked, cn_aclEpoch := 2\<rparr>"]) simp
qed

text \<open>C16. Revoking a grant reaches the queries in flight.  Once the store holds a grant as
  revoked, every query over a source with delegated permission that presents it and for which
  the gate has not yet decided ends without evidence, at whatever point of its checks it was and
  whatever verdicts are in the cache.  The hash is assumed to be without collisions, and connect
  commands without NUL bytes in tenant, principal and key.\<close>

theorem revoked_grant_yields_no_evidence:
  assumes sha: "inj (tx_sha tx)" and nf: "nul_free_calls calls" and reach: "creach tx calls snap delta s" and run: "(cstep tx calls snap delta)\<^sup>*\<^sup>* s s'"
    and g: "cs_gate s = Some g" "mget (gs_records (ga_store g)) i = Some r" "gq_Revoked r"
    and undecided: "\<forall>ctx r d. cs_query s q \<noteq> QDecided ctx r d" "\<forall>ctx res. cs_query s q \<noteq> QDone ctx res"
    and ended: "cs_query s' q = QDone ctx (Inr res)" "qc_grantID ctx = i" "OpaqueScope tx g (qc_scope ctx)"
  shows "an_Claims (qs_Answer res) = []"
proof -
  have ids: "distinct_ids tx calls" using sha nf by (simp add: distinct_ids_def)
  have "mem_store.dead i (ga_store g)" using g(2,3) by (simp add: mem_store.dead_def)
  from revoked_grant_silences[OF run creach_inv[OF reach ids] ids g(1) this undecided] show ?thesis
    using ended g(1) by (simp add: opaque_def)
qed

theorem revoked_grant_yields_no_evidence_witness:
  "\<exists>s s' res. creach wtx wcalls wsnap wdelta s \<and> cs_query s 0 = QCaptured wctx \<and> (cstep wtx wcalls wsnap wdelta)\<^sup>*\<^sup>* s s'
     \<and> cs_query s' 0 = QDone wctx (Inr res) \<and> an_Claims (qs_Answer res) = []"
proof -
  obtain s g r s' where w: "(cstep wtx wcalls wsnap wdelta)\<^sup>*\<^sup>* (cinit (Some wgate)) s" "cs_gate s = Some g" "ga_cfg g = wcfg"
      "mget (gs_records (ga_store g)) ''g'' = Some r" "gq_Revoked r" "cs_query s 0 = QCaptured wctx" "(cstep wtx wcalls wsnap wdelta)\<^sup>*\<^sup>* s s'"
      "cs_query s' 0 = QDone wctx (Inr (delegatedAbstain wconn ''delegated_grant_revoked''))"
    using wrevoked by blast
  have sha: "inj (tx_sha wtx)" by (simp add: wtx_def)
  have reach: "creach wtx wcalls wsnap wdelta s" unfolding creach_def using w(1) wfresh_gate by blast
  have "an_Claims (qs_Answer (delegatedAbstain wconn ''delegated_grant_revoked'')) = []"
    by (rule revoked_grant_yields_no_evidence[OF sha wcalls_nul_free reach w(7,2,4,5) _ _ w(8)])
      (use w(6) wopaque[OF w(3)] in \<open>simp_all add: wctx_fields\<close>)
  then show ?thesis using reach w(6,7,8) by blast
qed

text \<open>C15. The admitted objects are the provider's.  Let \<open>truth\<close> be the contents of a repository
  at a cursor, and let the provider's complete pages lead from one such state to the next.  Then
  in every reachable state every connection that is not purged holds exactly the contents of its
  repository at its own cursor, whatever pages were incomplete, failed, repeated or came from
  overlapping calls.\<close>

theorem connector_mirrors_source:
  assumes pages: "faithful_source truth snap delta" and reach: "creach tx calls snap delta s"
    and c: "mget (kn_conns (cs_kernel s)) i = Some c" "cn_state c \<noteq> statePurged"
  shows "mget (cn_objects c) = truth (cn_owner c) (cn_repo c) (cn_cursor c)"
proof -
  obtain gate where run: "(cstep tx calls snap delta)\<^sup>*\<^sup>* (cinit gate) s" using reach by (auto simp: creach_def)
  have "kmirrors truth (cs_kernel s)" using run
  proof (induction rule: rtranclp_induct)
    case (step s1 s2)
    from cstep_mirrors[OF step.hyps(2) pages step.IH] show ?case .
  qed (simp add: kmirrors_def cinit_def NewKernel_def)
  then show ?thesis using c by (simp add: kmirrors_def mirrors_def)
qed

theorem connector_mirrors_source_witness:
  "mget (cn_objects wconn) = (if cn_cursor wconn = ''c1'' then [''o1'' \<mapsto> wob] else Map.empty)"
proof -
  let ?truth = "\<lambda>(ow :: string) (re :: string) (cu :: string). if cu = ''c1'' then [''o1'' \<mapsto> wob] else Map.empty"
  have pm: "page_map (filter (\<lambda>ob. \<not> ob_Deleted ob) (pg_Objects wpage)) Map.empty = [''o1'' \<mapsto> wob]" "pg_Cursor wpage = ''c1''"
    by (simp_all add: wpage_def page_map_def) (simp_all add: wob_def)
  have pages: "faithful_source ?truth wsnap wdelta"
    using pm by (simp add: faithful_source_def wsnap_def wdelta_def)
  have reach: "creach wtx wcalls wsnap wdelta (wstate wgate)" unfolding creach_def using wconnected wfresh_gate by blast
  have "mget (cn_objects wconn) = ?truth (cn_owner wconn) (cn_repo wconn) (cn_cursor wconn)"
    by (rule connector_mirrors_source[OF pages reach, of "cn_id wconn"])
      (simp_all add: wstate_def wkernel_eq wconn_fields)
  then show ?thesis .
qed

text \<open>The audit trail: the kept receipts always verify as a chain, and the two memories of the
  gate are bounded.\<close>

theorem gate_memory_bounded:
  assumes "creach tx calls snap delta s" "cs_gate s = Some g"
  shows "VerifyReceiptChain tx g" "length (ga_receipts g) \<le> maxDelegatedReceipts"
    "int (length (ga_verdicts g)) \<le> gc_MaxCachedVerdicts (ga_cfg g)"
  using creach_gate[OF assms] by (simp_all add: linked_def cache_inv_def VerifyReceiptChain_def)


section \<open>What the code does otherwise\<close>

text \<open>A reconciliation whose page was incomplete answers that it was; the same request, sent
  again, is told that the page was complete, although the connection is still where it was.\<close>

lemma reconcile_replay_reports_complete:
  assumes "validIdentity ident" "rr_ConnectionId req = Some i" "rr_KnownCursor req \<noteq> []" "rr_IdempotencyKey req \<noteq> []" "rr_Reason req \<noteq> []"
    and fresh: "mget (kn_idem k) (idempotencyKey ident ''reconcile'' (rr_IdempotencyKey req)) = None"
    and c: "lookupActive ident i k = Some c" "cn_cursor c = rr_KnownCursor req" "cn_id c = i"
    and page: "src (cn_owner c) (cn_repo c) (cn_cursor c) = Inr p" "\<not> pg_Complete p"
  shows "\<exists>r1 k1 r2. ReconcileConnector tx True gate src ident req k = (Inr r1, k1, gate) \<and> \<not> rs_PageComplete r1
    \<and> ReconcileConnector tx True gate src ident req k1 = (Inr r2, k1, gate) \<and> rs_PageComplete r2 \<and> rs_NextCursor r2 = rs_PriorCursor r1"
proof -
  define c' where "c' = c\<lparr>cn_state := stateDegraded, cn_lastError := pg_ErrorCode p\<rparr>"
  define key where "key = idempotencyKey ident ''reconcile'' (rr_IdempotencyKey req)"
  define k1 where "k1 = \<lparr>kn_conns = mput i c' (kn_conns k),
    kn_idem = mput key \<lparr>ir_operation = ''reconcile'', ir_requestDigest = reconcileDigest tx req, ir_connectionID = i\<rparr> (kn_idem k)\<rparr>"
  have p: "checked_page tx gate (cn_sourceScope c) p = p" using page(2) by (simp add: checked_page_def)
  have rp: "reconcile_page p c = (c', [], 0, 0)" using page(2) by (simp add: reconcile_page_def c'_def)
  have first: "\<exists>r1. ReconcileConnector tx True gate src ident req k = (Inr r1, k1, gate) \<and> \<not> rs_PageComplete r1 \<and> rs_PriorCursor r1 = cn_cursor c"
    using assms p rp by (simp add: ReconcileConnector_def Let_def k1_def key_def)
  have "lookupActive ident i k1 = Some c'"
    using c(1) unfolding lookupActive_Some by (simp add: k1_def c'_def owned_def conn_closed_def)
  then have "\<exists>r2. ReconcileConnector tx True gate src ident req k1 = (Inr r2, k1, gate) \<and> rs_PageComplete r2 \<and> rs_NextCursor r2 = cn_cursor c'"
    using assms(1-5) by (simp add: ReconcileConnector_def Let_def k1_def key_def)
  then show ?thesis using first by (auto simp: c'_def)
qed

text \<open>Two callers can share a replay key, since the separator may occur in a name.\<close>

lemma idempotencyKey_collision:
  "\<exists>a b. (ci_Tenant a, ci_Principal a) \<noteq> (ci_Tenant b, ci_Principal b) \<and> validIdentity a \<and> validIdentity b \<and> idempotencyKey a op key = idempotencyKey b op key"
  by (rule exI[of _ "\<lparr>ci_Tenant = ''x|y'', ci_Principal = ''z'', ci_Session = ''s''\<rparr>"],
      rule exI[of _ "\<lparr>ci_Tenant = ''x'', ci_Principal = ''y|z'', ci_Session = ''s''\<rparr>"])
    (simp add: validIdentity_def idempotencyKey_def)

text \<open>Callers are not checked for the NUL byte that separates the fields of a connection ID.  So
  the IDs of two callers can be equal, and a connect command of the second replaces the closed
  connection of the first by an open one.\<close>

lemma nul_collision_reopens:
  assumes a: "ci_Tenant a = x @ [NUL] @ y" "ci_Principal a = z" and b: "ci_Tenant b = x" "ci_Principal b = y @ [NUL] @ z" "validIdentity b"
    and req: "\<not> cq_ActionGrantRequested req" "cq_Owner req \<noteq> []" "cq_Repo req \<noteq> []" "cq_SourceScope req \<noteq> []" "cq_IdempotencyKey req \<noteq> []"
      "tx_equalFold tx (cq_SourceScope req) (''github.com/'' @ cq_Owner req @ ''/'' @ cq_Repo req)"
    and fresh: "mget (kn_idem k) (idempotencyKey b ''connect'' (cq_IdempotencyKey req)) = None"
    and closed: "cn_id d = connection_identity tx connectionDomain (ci_Tenant a) (ci_Principal a) (cq_IdempotencyKey req) (connectDigest tx req)"
      "mget (kn_conns k) (cn_id d) = Some d" "conn_closed d"
  shows "\<exists>res k' c. ConnectGitHubSource tx True gate (Inr page) b req k = (Inr res, k') \<and> mget (kn_conns k') (cn_id d) = Some c \<and> \<not> conn_closed c"
proof -
  define c where "c = new_connection tx b req (checked_page tx gate (cq_SourceScope req) page)"
  have "cn_id c = cn_id d" using a b closed(1) by (simp add: c_def new_connection_id connection_identity_def nul_join_def)
  moreover have "\<not> conn_closed c" by (simp add: c_def conn_closed_def new_connection_def Let_def)
  ultimately show ?thesis using req fresh b(3) by (simp add: ConnectGitHubSource_def Let_def flip: c_def)
qed

end
