(* ===== verification/Spec2Isabelle.thy ===== *)
theory Spec2Isabelle
  imports Refresh_Queue Text_Bound Durable_Index Watch_Loop Repo_Ignore Audit_Chain Event_Kernel
    Evidence_Ledger Capability Effect_Broker Handover Local_Authority Leaf_Runner Top_K
    Source_Authority Chunking Hook_Lifecycle Connector_Properties
begin

text \<open>
  A verification development for the code-memory services.  Two programs are covered: the
  brain, which keeps a searchable index of a repository and of admitted sources, and the
  broker, which decides and performs effects on behalf of principals.  Both are Go
  modules under \<^verbatim>\<open>services/\<close>.

  \<^bold>\<open>The parts and how they interact.\<close>
  A file watcher collects change events in a bounded queue and starts refreshes of the
  code index; a refresh walks the tree under the ignore policy, re-reads what changed and
  stores the index in a file that later processes open.  The hook installer makes git
  report commits to the same index.  Independently of it, the ingestion authority admits
  the committed snapshots of a source as numbered generations with deltas between them;
  their documents are chunked, and hits are selected by a bounded heap.  Evidence, audit
  entries and reactions to events are kept by small kernels next to it.  The connector
  kernel mirrors provider repositories page by page and answers queries from them, under a
  delegated grant where the provider's access rules are not known.  In the broker,
  grants are attenuated and checked, relationships are evaluated locally or by a remote
  service, and the local authority combines both.  A leaf of a change runs behind a
  sealed surface: its edits are validated as a set, authorised by the effect broker, and
  applied to a candidate tree that is rolled back on any failure.  A running task can be
  handed over from one realm to another under a fence.

  \<^bold>\<open>Theories.\<close>
  \<^item> \<^verbatim>\<open>Prelude\<close>, \<^verbatim>\<open>Go_Maps\<close>, \<^verbatim>\<open>Text_Bound\<close>, \<^verbatim>\<open>Text_Fields\<close>, \<^verbatim>\<open>Contracts\<close>: byte strings, path functions, Go maps as
    association lists (the order stands for the unspecified order of iteration), UTF-8,
    the truncation helpers of \<^verbatim>\<open>internal/textbound\<close>, and the records of
    \<^verbatim>\<open>internal/contracts\<close>.
  \<^item> \<^verbatim>\<open>Refresh_Queue\<close> (\<^verbatim>\<open>codecrawl/watch_queue.go\<close>): the queue, its bound, and the law that a
    commit loses no event; the contract with the watcher is the locale
    \<^verbatim>\<open>coalescing_queue\<close>.
  \<^item> \<^verbatim>\<open>Crawl_Index\<close>, \<^verbatim>\<open>Crawl_Delta\<close>, \<^verbatim>\<open>Crawl_Full\<close> (\<^verbatim>\<open>codecrawl/types.go\<close>, \<^verbatim>\<open>symbol.go\<close>, \<^verbatim>\<open>tokenize.go\<close>,
    \<^verbatim>\<open>crawl.go\<close>, \<^verbatim>\<open>delta.go\<close>): the index, the walk, the worker-local indexes and their
    merge; the incremental crawl gives the index of a full crawl, for every assignment of
    files to workers and every iteration order.
  \<^item> \<^verbatim>\<open>Durable_Index\<close> (\<^verbatim>\<open>codecrawl/persist.go\<close>, \<^verbatim>\<open>index_cache.go\<close>): the file
    protocol of a save with a failure at any step and a crash after any step, where data
    that were not synced may be lost: what survives under the index's name is the old file
    or the new one; a loaded index holds the maps that were saved; the refreshed index
    answers as a fresh crawl, and so does the file it wrote; the cache is transparent.
  \<^item> \<^verbatim>\<open>Watch_Loop\<close> (\<^verbatim>\<open>codecrawl/watch_fs.go\<close>, \<^verbatim>\<open>watch.go\<close>): the select loop as a step function
    on events and ticks; the queue covers every accepted change that no refresh has read,
    and a due tick makes progress.
  \<^item> \<^verbatim>\<open>Repo_Ignore\<close> (\<^verbatim>\<open>repoignore/ignore.go\<close>): pattern translation and matching; for lines
    of plain names (anchored or not, for directories or not, negated or not) the last line
    that applies decides, and the built-in directories are never crawled.
  \<^item> \<^verbatim>\<open>Hook_Lifecycle\<close> (\<^verbatim>\<open>lifecycle/lifecycle.go\<close>): Install, Uninstall and Status over the hook
    files, the manifest and core.hooksPath, with a failure possible at every change; an
    uninstall restores what a first install changed, wherever it stopped, and files of
    other tools are left alone.
  \<^item> \<^verbatim>\<open>Source_Delta\<close>, \<^verbatim>\<open>Source_Snapshot\<close>, \<^verbatim>\<open>Source_Authority\<close> (\<^verbatim>\<open>ingestion/*.go\<close>): manifests and their
    differences, reading a commit from git's output, and the authority with admission,
    reconciliation, revocation, deletion, hints, hydration and checkpoints, as a step
    relation in which the calls that release the mutex overlap.
  \<^item> \<^verbatim>\<open>Delegated_Gate\<close>, \<^verbatim>\<open>Connector\<close>, \<^verbatim>\<open>Connector_Safety\<close>, \<^verbatim>\<open>Connector_Properties\<close> (\<^verbatim>\<open>connector/*.go\<close>): the
    grant store behind the locale \<^verbatim>\<open>grant_store\<close>, the gate with its verdict cache and
    receipts, the kernel's operations, and a step relation in which the sections of any
    number of queries overlap with all other calls; an answer's evidence is live and
    permitted, closing and revoking are final, and a connection holds the provider's
    contents at its cursor.  The relation's parameter \<^verbatim>\<open>calls\<close> says which Connect requests
    occur; where connection identifiers have to differ, the theorems assume that callers
    and keys are free of NUL bytes.  The set of vouched objects in the state is a record of what
    the provider answered and is read by no operation.
  \<^item> \<^verbatim>\<open>Chunking\<close> (\<^verbatim>\<open>chunking/*.go\<close>): tokenizer, policies and strategies; chunking returns,
    quotes the source exactly and loses no text.
  \<^item> \<^verbatim>\<open>Top_K\<close> (\<^verbatim>\<open>hosted/hotlex_topk.go\<close>): the bounded heap returns the prefix of the full sort.
  \<^item> \<^verbatim>\<open>Audit_Chain\<close>, \<^verbatim>\<open>Event_Kernel\<close>, \<^verbatim>\<open>Evidence_Ledger\<close> (\<^verbatim>\<open>audit/chain.go\<close>, \<^verbatim>\<open>eventkernel/kernel.go\<close>,
    \<^verbatim>\<open>evidenceledger/ledger.go\<close>): tamper evidence of the chain, determinism and bounds of
    reactions, immutability and final deletion of evidence; the ledger is proved over the
    locale of its repository interface.
  \<^item> \<^verbatim>\<open>Capability\<close>, \<^verbatim>\<open>Authz\<close>, \<^verbatim>\<open>Local_Authority\<close> (\<^verbatim>\<open>capability/grant.go\<close>, \<^verbatim>\<open>authz/*.go\<close>,
    \<^verbatim>\<open>identity/identity.go\<close>, \<^verbatim>\<open>localauthority/facade.go\<close>): attenuation never widens, the
    remote check agrees with the local one as long as the service keeps the writes that
    it admits, an authorisation needs every authority, and a
    revoked grant stays denied.
  \<^item> \<^verbatim>\<open>Candidate_Edits\<close>, \<^verbatim>\<open>Effect_Broker\<close>, \<^verbatim>\<open>Candidate_Store\<close>, \<^verbatim>\<open>Leaf_Runner\<close> (\<^verbatim>\<open>factory/changeset\<close>,
    \<^verbatim>\<open>factory/effects\<close>, \<^verbatim>\<open>factory/gitcandidate\<close>, \<^verbatim>\<open>factory/runner\<close> and \<^verbatim>\<open>localauthority/factory.go\<close>):
    the edit-set rules, idempotent execution with overlapping calls, application that
    writes the whole change or leaves nothing unless the removal of the candidate fails too
    (which is reported), and confinement of a sealed leaf.
  \<^item> \<^verbatim>\<open>Handover\<close> (\<^verbatim>\<open>handover/*.go\<close>): the coordinator with overlapping resumes, commits, revocation
    and cleanup; a handover completes at most once and only under the current fence, and
    with one caller that retries, cleanup waits for the run in flight.

  \<^bold>\<open>Reading the models.\<close>
  A struct is a record, a Go error is a constructor of an error type or \<^verbatim>\<open>None\<close>, and a
  method is a function from the state to a result and a state.  Where calls overlap, each
  section between lock and unlock is one step of a relation on a state that also holds
  what the callers remember, and invariants are proved by rule induction.  64-bit
  counters are words where they can wrap; sizes and times are integers.  What the code
  obtains from elsewhere is an argument: hashes, letter classes, the clock, git's output,
  JSON coding, the operating system's answers, the remote policy service.  Contexts are
  functions from the number of the poll to whether it is cancelled.  What is assumed of an
  argument is a hypothesis of the theorem that needs it (for example that decoding inverts
  encoding up to what JSON and gob do to maps, or that a hash has no collision among the
  texts compared).  The operating system may fail at any call, a removal included, and
  loses at a crash at most what was not synced.

  \<^bold>\<open>Bounds and termination.\<close>
  Loops are structural or well-founded recursions and need no fuel.  The three that
  depend on the progress of an index (\<^verbatim>\<open>window\<close>, \<^verbatim>\<open>pack\<close> and \<^verbatim>\<open>carry_back\<close> of the chunker) are partial
  functions, and the chunker is shown to return for every policy and document.  The
  event law of the queue holds for fewer than \<^verbatim>\<open>2 ^ 64\<close> events between two reads of the
  version, which is the range of the counter.

  \<^bold>\<open>Shortfalls of the code.\<close>
  Lemmas next to the theorems mark the limits: a refresh that only sees deletions is not
  saved (\<^verbatim>\<open>deletion_only_refresh_unsaved\<close>), a failed first refresh waits for an event
  (\<^verbatim>\<open>initial_failure_waits_for_event\<close>), patterns outside ASCII do not match
  (\<^verbatim>\<open>non_ascii_pattern_misses\<close>), a change of \<^verbatim>\<open>.git/info/exclude\<close> is not seen
  (\<^verbatim>\<open>exclude_change_unseen\<close>), a grant may name the parent directory
  (\<^verbatim>\<open>parent_directory_accepted\<close>), cleanup can race with a second resume
  (\<^verbatim>\<open>cleanup_races_with_second_run\<close>), the checkpoint seal is ambiguous
  (\<^verbatim>\<open>seal_ambiguous\<close>), the remote check can cross tenants (\<^verbatim>\<open>cross_tenant_divergence\<close>),
  epochs wrap (\<^verbatim>\<open>epoch_wraps\<close>), some authorities cannot be checkpointed
  (\<^verbatim>\<open>emptied_delta_unsaved\<close>, \<^verbatim>\<open>early_hints_unsaved\<close>), packed slides exceed the target
  (\<^verbatim>\<open>slides_exceed_target\<close>), a failed re-install of hooks forgets core.hooksPath
  (\<^verbatim>\<open>checkpoint_forgets_hooks_path\<close>), a replayed reconciliation reports a complete page
  (\<^verbatim>\<open>reconcile_replay_reports_complete\<close>), replay keys of connector callers can coincide
  (\<^verbatim>\<open>idempotencyKey_collision\<close>), a NUL byte in a key makes two connections share an
  identifier (\<^verbatim>\<open>nul_collision_reopens\<close>), a directory pattern hides a nested file
  (\<^verbatim>\<open>dir_line_hides_nested_file\<close>), and a write whose answer was lost is never mirrored
  (\<^verbatim>\<open>lost_write_never_mirrored\<close>).

  \<^bold>\<open>Not modelled.\<close>
  Code search and ranking, the hosted document runtime, memory, dense retrieval and
  reranking compute with floating-point scores or call model services; the factory
  kernel, local state, projections, conversations, meetings and multimodal sources keep
  their state in SQLite, and their statements are SQL; the gateway, the adapters, the
  wiring of the connector and the commands are transport around the components above; syntax
  extraction is done by third-party parsers, content privacy and ontology extraction by
  the regexp package; generated contracts are generated.  Of the modelled files, only
  reporting functions and the calls that open files, processes or sockets are left out.
\<close>

end
